(* ===== verification/Prelude.thy ===== *)
theory Prelude
  imports Main "HOL-Library.Word"
begin

text \<open>
  Shared vocabulary of the development: the CORBA integer types at their width, the exceptions the
  ORB raises, the result type that carries them, the byte representation of integers in memory, and
  the list and arithmetic lemmas that several components use.
\<close>

unbundle bit_operations_syntax

section \<open>Types\<close>

text \<open>The IDL integer types of \<^verbatim>\<open>CORBA.h\<close>, at their width.\<close>

type_synonym octet = "8 word"
type_synonym ushort = "16 word"
type_synonym ulong = "32 word"
type_synonym ulonglong = "64 word"
type_synonym longdouble = "128 word"

text \<open>
  What a call can end in instead of a value. The first group are the C++ exceptions the sources
  throw. \<open>OUT_OF_BOUNDS\<close> is not an exception: it marks an access to memory outside the block it
  belongs to, which is undefined behaviour of the C++ program. \<open>NO_FUEL\<close> marks a loop that has not
  ended within the fuel of its model; the lemmas about the loops show that it is not reached.
\<close>

datatype exn =
    MARSHAL
  | BAD_PARAM
  | NO_MEMORY
  | INTERNAL
  | NO_IMPLEMENT
  | DATA_CONVERSION
  | OBJECT_NOT_EXIST
  | AdapterInactive
  | ObjectAlreadyActive
  | ServantAlreadyActive
  | ObjectNotActive
  | ServantNotFound
  | InvalidDataFormat
  | BadKind
  | Bounds
  | BAD_TYPECODE
  | BAD_OPERATION
  | COMM_FAILURE
  | RECOVERABLE_COMM_FAILURE
  | OnlyOneThreadCanWait
  | TRANSIENT
  | INV_OBJREF
  | OUT_OF_BOUNDS
  | NO_FUEL

type_synonym 'a res = "exn + 'a"

text \<open>The collections the components add their facts to: rewrite rules for evaluating an operation
  on a success path, and facts that invariants are preserved.\<close>

named_theorems run_simps "equations that run an operation on its success path"
named_theorems inv_intros "preservation of the invariants"

section \<open>Sequencing of fallible steps\<close>

fun rbind :: "'a res \<Rightarrow> ('a \<Rightarrow> 'b res) \<Rightarrow> 'b res" where
  "rbind (Inl e) f = Inl e"
| "rbind (Inr x) f = f x"

lemma rbind_eq_Inr [simp]: "rbind m f = Inr y \<longleftrightarrow> (\<exists>x. m = Inr x \<and> f x = Inr y)"
  by (cases m) auto

lemma rbind_eq_Inl: "rbind m f = Inl e \<longleftrightarrow> m = Inl e \<or> (\<exists>x. m = Inr x \<and> f x = Inl e)"
  by (cases m) auto

lemma rbind_cong [fundef_cong]:
  "m = n \<Longrightarrow> (\<And>x. n = Inr x \<Longrightarrow> f x = g x) \<Longrightarrow> rbind m f = rbind n g"
  by (cases n) auto

lemma rbind_assoc: "rbind (rbind m f) g = rbind m (\<lambda>x. rbind (f x) g)"
  by (cases m) auto

section \<open>Integers in memory\<close>

text \<open>
  \<open>le_bytes n x\<close> is the image of the number \<open>x\<close> in \<open>n\<close> octets, least significant octet first, and
  \<open>le_val\<close> reads such an image back. \<open>host_bytes\<close> and \<open>host_val\<close> are the same for a host whose byte
  order is given: they are what the C++ sources do when they store an integer through a pointer.
\<close>

fun le_bytes :: "nat \<Rightarrow> nat \<Rightarrow> octet list" where
  "le_bytes 0 x = []"
| "le_bytes (Suc n) x = word_of_nat x # le_bytes n (x div 256)"

fun le_val :: "octet list \<Rightarrow> nat" where
  "le_val [] = 0"
| "le_val (b # bs) = unat b + 256 * le_val bs"

definition host_bytes :: "bool \<Rightarrow> nat \<Rightarrow> nat \<Rightarrow> octet list" where
  "host_bytes little n x = (if little then le_bytes n x else rev (le_bytes n x))"

definition host_val :: "bool \<Rightarrow> octet list \<Rightarrow> nat" where
  "host_val little bs = (if little then le_val bs else le_val (rev bs))"

lemma length_le_bytes [simp]: "length (le_bytes n x) = n"
  by (induction n arbitrary: x) auto

lemma length_host_bytes [simp]: "length (host_bytes little n x) = n"
  by (simp add: host_bytes_def)

lemma unat_octet_of_nat [simp]: "unat (word_of_nat x :: octet) = x mod 256"
  by (simp add: unat_of_nat)

lemma le_val_le_bytes: "le_val (le_bytes n x) = x mod 256 ^ n"
proof (induction n arbitrary: x)
  case 0
  then show ?case by simp
next
  case (Suc n)
  have "x mod 256 + 256 * (x div 256 mod 256 ^ n) = x mod (256 * 256 ^ n)"
    by (simp add: mod_mult2_eq)
  with Suc show ?case by simp
qed

lemma le_val_bound: "le_val bs < 256 ^ length bs"
proof (induction bs)
  case Nil
  then show ?case by simp
next
  case (Cons b bs)
  have "unat b < 256" using unsigned_less [of b] by simp
  with Cons show ?case by simp
qed

lemma le_bytes_le_val: "le_bytes (length bs) (le_val bs) = bs"
proof (induction bs)
  case Nil
  then show ?case by simp
next
  case (Cons b bs)
  have b: "unat b < 256" using unsigned_less [of b] by simp
  then have "unat (word_of_nat (unat b + 256 * le_val bs) :: octet) = unat b"
    by (simp only: unat_octet_of_nat) simp
  then have "word_of_nat (unat b + 256 * le_val bs) = b"
    by (simp only: word_unat_eq_iff)
  moreover have "(unat b + 256 * le_val bs) div 256 = le_val bs"
    using b by simp
  ultimately show ?case using Cons by simp
qed

lemma host_val_host_bytes:
  "x < 256 ^ n \<Longrightarrow> host_val little (host_bytes little n x) = x"
  by (simp add: host_val_def host_bytes_def le_val_le_bytes)

text \<open>Swapping the octets turns the image of one byte order into that of the other.\<close>

lemma host_val_rev_host_bytes:
  "x < 256 ^ n \<Longrightarrow> host_val little (rev (host_bytes (\<not> little) n x)) = x"
  by (simp add: host_val_def host_bytes_def le_val_le_bytes)

lemma host_bytes_flip: "rev (host_bytes little n x) = host_bytes (\<not> little) n x"
  by (simp add: host_bytes_def)

lemma unat_bound:
  "unat (w8 :: octet) < 256 ^ 1" "unat (w16 :: ushort) < 256 ^ 2" "unat (w32 :: ulong) < 256 ^ 4"
  "unat (w64 :: ulonglong) < 256 ^ 8" "unat (w128 :: longdouble) < 256 ^ 16"
  using unsigned_less [of w8] unsigned_less [of w16] unsigned_less [of w32] unsigned_less [of w64]
    unsigned_less [of w128] by simp_all

section \<open>Alignment\<close>

text \<open>
  \<open>align_to p s1\<close> is the pointer expression \<^verbatim>\<open>(p + s1) & ~s1\<close> that the sources use for \<open>s1\<close> one less
  than a power of two. On such \<open>s1\<close> it rounds \<open>p\<close> up to the next multiple of \<open>s1 + 1\<close>.
\<close>

definition align_to :: "nat \<Rightarrow> nat \<Rightarrow> nat" where
  "align_to p s1 = nat ((int p + int s1) AND NOT (int s1))"

lemma int_and_not_mask: "(x :: int) AND NOT (2 ^ k - 1) = x - x mod 2 ^ k"
proof -
  have "x AND NOT (take_bit k x) = x - take_bit k x"
    by (rule disjunctive_diff_eq_and_not [symmetric])
      (simp add: bit_eq_iff bit_simps)
  moreover have "x AND NOT (take_bit k x) = x AND NOT (mask k)"
    by (auto simp: bit_eq_iff bit_simps)
  ultimately have "x AND NOT (mask k) = x - take_bit k x" by simp
  then show ?thesis by (simp add: mask_eq_exp_minus_1 take_bit_eq_mod)
qed

lemma align_to_power: "align_to p (2 ^ k - 1) = (p + (2 ^ k - 1)) div 2 ^ k * 2 ^ k"
proof -
  let ?x = "p + (2 ^ k - 1) :: nat"
  have down: "int y - int y mod 2 ^ k = int (y - y mod 2 ^ k)" for y :: nat
    by (simp add: of_nat_diff zmod_int)
  have "int (2 ^ k - 1) = 2 ^ k - 1"
    by (simp add: of_nat_diff)
  then have "(int p + int (2 ^ k - 1)) AND NOT (int (2 ^ k - 1)) = int ?x - int ?x mod 2 ^ k"
    using int_and_not_mask [of "int ?x" k] by (simp only: of_nat_add)
  also have "int ?x - int ?x mod 2 ^ k = int (?x - ?x mod 2 ^ k)"
    by (rule down)
  also have "?x - ?x mod 2 ^ k = ?x div 2 ^ k * 2 ^ k"
    by (simp add: minus_mod_eq_div_mult)
  finally show ?thesis by (simp only: align_to_def nat_int)
qed

lemma align_to_consts:
  "align_to p 0 = p" "align_to p (Suc 0) = (p + 1) div 2 * 2" "align_to p 3 = (p + 3) div 4 * 4"
  "align_to p 7 = (p + 7) div 8 * 8" "align_to p 15 = (p + 15) div 16 * 16"
  using align_to_power [of p 0] align_to_power [of p 1] align_to_power [of p 2]
    align_to_power [of p 3] align_to_power [of p 4] by (simp_all del: One_nat_def add: One_nat_def [symmetric])

section \<open>Lists\<close>

lemma take_drop_update_inside:
  "a + length bs \<le> length xs \<Longrightarrow> take (length bs) (drop a (take a xs @ bs @ drop (a + length bs) xs)) = bs"
  by simp

lemma nth_splice:
  assumes "a + length bs \<le> length xs" and "i < length xs"
  shows "(take a xs @ bs @ drop (a + length bs) xs) ! i =
    (if i < a then xs ! i else if i < a + length bs then bs ! (i - a) else xs ! i)"
  using assms by (auto simp: nth_append min_def)

lemma take_split: "a \<le> b \<Longrightarrow> take b xs = take a xs @ take (b - a) (drop a xs)"
  using take_add [of a "b - a" xs] by simp

lemma take_drop_eqI:
  assumes "a + n \<le> length xs" "a + n \<le> length ys" "\<And>i. a \<le> i \<Longrightarrow> i < a + n \<Longrightarrow> xs ! i = ys ! i"
  shows "take n (drop a xs) = take n (drop a ys)"
  using assms by (intro nth_equalityI) auto

end
