(* ===== verification/Cdr_Context.thy ===== *)
theory Cdr_Context
  imports Prelude
begin

text \<open>
  The indirection context of a CDR buffer (\<^verbatim>\<open>core/cdr/PositionsNode.C\<close>, \<^verbatim>\<open>core/cdr/IndirectionNode.C\<close>,
  \<^verbatim>\<open>core/cdr/ContextCDR.C\<close>) and the type information of marshalled values
  (\<^verbatim>\<open>core/cdr/ValueTypeInfo.C\<close>). The positions node answers where an object has been written, the
  indirection node answers what is at a position, and the context chains the nodes of nested
  encapsulations. The tables are allocated on first use; a table that does not exist yet is \<open>None\<close>.
\<close>

section \<open>Type information of values\<close>

text \<open>A TypeCode reference is its identity with what its \<^verbatim>\<open>id()\<close> returns; \<open>None\<close> where \<^verbatim>\<open>id()\<close> throws
  \<^verbatim>\<open>BadKind\<close>. A value reference is its address.\<close>

datatype tc_ref = TcRef (tc_handle: nat) (tc_id: "string option")

type_synonym value_ref = nat
type_synonym abs_position = ulong

record value_type_info =
  m_code_base_url :: "string option"
  m_repository_ids :: "string list"
  m_value_tag :: ulong
  m_value :: "value_ref option"

definition NULL_TAG :: ulong where "NULL_TAG = 0"
definition CODE_BASE_BIT :: ulong where "CODE_BASE_BIT = 1"
definition SINGLE_REPOSITORY_ID :: ulong where "SINGLE_REPOSITORY_ID = 2"
definition REPOSITORY_ID_LIST :: ulong where "REPOSITORY_ID_LIST = 6"
definition INDIRECTION_TAG :: ulong where "INDIRECTION_TAG = 0xffffffff"
definition FRAGMENTED_BIT :: ulong where "FRAGMENTED_BIT = 8"
definition MIN_VALUE_TAG :: ulong where "MIN_VALUE_TAG = 0x7fffff00"

lemmas value_tag_defs = NULL_TAG_def CODE_BASE_BIT_def SINGLE_REPOSITORY_ID_def
  REPOSITORY_ID_LIST_def INDIRECTION_TAG_def FRAGMENTED_BIT_def MIN_VALUE_TAG_def

definition ValueTypeInfo_new :: value_type_info where
  "ValueTypeInfo_new = \<lparr>m_code_base_url = None, m_repository_ids = [], m_value_tag = MIN_VALUE_TAG,
     m_value = None\<rparr>"

definition vti_set_null :: "value_type_info \<Rightarrow> value_type_info" where
  "vti_set_null i = i\<lparr>m_value_tag := NULL_TAG, m_code_base_url := Some [], m_repository_ids := [],
     m_value := None\<rparr>"

definition vti_is_null :: "value_type_info \<Rightarrow> bool" where
  "vti_is_null i \<longleftrightarrow> m_value_tag i = NULL_TAG"

definition vti_isIndirection :: "value_type_info \<Rightarrow> bool" where
  "vti_isIndirection i \<longleftrightarrow> m_value_tag i = INDIRECTION_TAG"

definition vti_isFragmented :: "value_type_info \<Rightarrow> bool" where
  "vti_isFragmented i \<longleftrightarrow>
     \<not> vti_isIndirection i \<and> m_value_tag i AND FRAGMENTED_BIT = FRAGMENTED_BIT"

definition vti_get_id :: "value_type_info \<Rightarrow> string option" where
  "vti_get_id i = (case m_repository_ids i of [] \<Rightarrow> None | r # rs \<Rightarrow> Some r)"

fun is_truncable_loop :: "string \<Rightarrow> string list \<Rightarrow> bool" where
  "is_truncable_loop rep_id [] = False"
| "is_truncable_loop rep_id (r # rs) = (if rep_id = r then True else is_truncable_loop rep_id rs)"

definition vti_is_truncable :: "string \<Rightarrow> value_type_info \<Rightarrow> bool" where
  "vti_is_truncable rep_id i = is_truncable_loop rep_id (m_repository_ids i)"

definition vti_set_repository_ids :: "string list \<Rightarrow> value_type_info \<Rightarrow> value_type_info" where
  "vti_set_repository_ids ids i =
     (let tag = m_value_tag i;
          tag' = (if length ids = 0 then tag AND NOT REPOSITORY_ID_LIST
                  else if length ids = 1 then (tag AND NOT REPOSITORY_ID_LIST) OR SINGLE_REPOSITORY_ID
                  else tag OR REPOSITORY_ID_LIST)
      in i\<lparr>m_repository_ids := ids, m_value_tag := tag'\<rparr>)"

definition vti_set_code_base_url :: "string option \<Rightarrow> value_type_info \<Rightarrow> value_type_info" where
  "vti_set_code_base_url url i =
     i\<lparr>m_code_base_url := url,
       m_value_tag := (if url = None then m_value_tag i AND NOT CODE_BASE_BIT
                       else m_value_tag i OR CODE_BASE_BIT)\<rparr>"

definition vti_set_fragmented :: "bool \<Rightarrow> value_type_info \<Rightarrow> value_type_info" where
  "vti_set_fragmented b i =
     i\<lparr>m_value_tag := (if b then m_value_tag i OR FRAGMENTED_BIT
                       else m_value_tag i AND NOT FRAGMENTED_BIT)\<rparr>"

section \<open>Positions node\<close>

record positions_node =
  m_types_table :: "(string \<rightharpoonup> abs_position) option"
  m_id_table :: "(string \<rightharpoonup> abs_position) option"
  m_addr_table :: "(value_ref \<rightharpoonup> abs_position) option"

definition PositionsNode_new :: positions_node where
  "PositionsNode_new = \<lparr>m_types_table = None, m_id_table = None, m_addr_table = None\<rparr>"

definition pn_lookup_tc :: "tc_ref \<Rightarrow> positions_node \<Rightarrow> abs_position" where
  "pn_lookup_tc tc n = (case m_types_table n of None \<Rightarrow> 0
     | Some t \<Rightarrow> (case tc_id tc of None \<Rightarrow> 0
        | Some i \<Rightarrow> (case t i of None \<Rightarrow> 0 | Some p \<Rightarrow> p)))"

definition pn_lookup_str :: "string \<Rightarrow> positions_node \<Rightarrow> abs_position" where
  "pn_lookup_str i n = (case m_id_table n of None \<Rightarrow> 0
     | Some t \<Rightarrow> (case t i of None \<Rightarrow> 0 | Some p \<Rightarrow> p))"

definition pn_lookup_val :: "value_ref \<Rightarrow> positions_node \<Rightarrow> abs_position" where
  "pn_lookup_val v n = (case m_addr_table n of None \<Rightarrow> 0
     | Some t \<Rightarrow> (case t v of None \<Rightarrow> 0 | Some p \<Rightarrow> p))"

text \<open>The allocators \<^verbatim>\<open>get_types_table\<close>, \<^verbatim>\<open>get_id_table\<close> and \<^verbatim>\<open>get_value_table\<close>.\<close>

definition table_or_new :: "('k \<rightharpoonup> 'v) option \<Rightarrow> ('k \<rightharpoonup> 'v)" where
  "table_or_new t = (case t of None \<Rightarrow> Map.empty | Some m \<Rightarrow> m)"

definition pn_put_tc :: "tc_ref \<Rightarrow> abs_position \<Rightarrow> positions_node \<Rightarrow> positions_node" where
  "pn_put_tc tc p n = (case tc_id tc of None \<Rightarrow> n
     | Some i \<Rightarrow> n\<lparr>m_types_table := Some ((table_or_new (m_types_table n))(i \<mapsto> p))\<rparr>)"

definition pn_put_str :: "string \<Rightarrow> abs_position \<Rightarrow> positions_node \<Rightarrow> positions_node" where
  "pn_put_str i p n = n\<lparr>m_id_table := Some ((table_or_new (m_id_table n))(i \<mapsto> p))\<rparr>"

definition pn_put_val :: "value_ref \<Rightarrow> abs_position \<Rightarrow> positions_node \<Rightarrow> positions_node" where
  "pn_put_val v p n = n\<lparr>m_addr_table := Some ((table_or_new (m_addr_table n))(v \<mapsto> p))\<rparr>"

section \<open>Indirection node\<close>

record indirection_node =
  m_typecode_table :: "(abs_position \<rightharpoonup> tc_ref) option"
  m_string_table :: "(abs_position \<rightharpoonup> string) option"
  m_value_table :: "(abs_position \<rightharpoonup> value_type_info) option"

definition IndirectionNode_new :: indirection_node where
  "IndirectionNode_new = \<lparr>m_typecode_table = None, m_string_table = None, m_value_table = None\<rparr>"

text \<open>The three lookups have the same shape: \<open>MARSHAL\<close> when there is no table or no entry.\<close>

definition table_find :: "('k \<rightharpoonup> 'v) option \<Rightarrow> 'k \<Rightarrow> 'v res" where
  "table_find t k = (case t of None \<Rightarrow> Inl MARSHAL
     | Some m \<Rightarrow> (case m k of None \<Rightarrow> Inl MARSHAL | Some v \<Rightarrow> Inr v))"

definition in_lookup_typecode :: "abs_position \<Rightarrow> indirection_node \<Rightarrow> tc_ref res" where
  "in_lookup_typecode p n = table_find (m_typecode_table n) p"

definition in_lookup_string :: "abs_position \<Rightarrow> indirection_node \<Rightarrow> string res" where
  "in_lookup_string p n = table_find (m_string_table n) p"

definition in_lookup_value :: "abs_position \<Rightarrow> indirection_node \<Rightarrow> value_type_info res" where
  "in_lookup_value p n = table_find (m_value_table n) p"

definition in_put_tc :: "abs_position \<Rightarrow> tc_ref \<Rightarrow> indirection_node \<Rightarrow> indirection_node" where
  "in_put_tc p tc n = n\<lparr>m_typecode_table := Some ((table_or_new (m_typecode_table n))(p \<mapsto> tc))\<rparr>"

definition in_put_str :: "abs_position \<Rightarrow> string \<Rightarrow> indirection_node \<Rightarrow> indirection_node" where
  "in_put_str p s n = n\<lparr>m_string_table := Some ((table_or_new (m_string_table n))(p \<mapsto> s))\<rparr>"

definition in_put_info :: "abs_position \<Rightarrow> value_type_info \<Rightarrow> indirection_node \<Rightarrow> indirection_node" where
  "in_put_info p i n = n\<lparr>m_value_table := Some ((table_or_new (m_value_table n))(p \<mapsto> i))\<rparr>"

section \<open>Context\<close>

datatype cdr_context = ContextCDR (m_father: "cdr_context option") (m_position_from_root: abs_position)
  (m_has_external_indirections: bool) (m_indirection_node: indirection_node)
  (m_positions_node: positions_node)

definition ContextCDR_new :: "cdr_context option \<Rightarrow> abs_position \<Rightarrow> cdr_context" where
  "ContextCDR_new father p = ContextCDR father p False IndirectionNode_new PositionsNode_new"

text \<open>\<^verbatim>\<open>lookup(TypeCode_ptr)\<close>: the own table first, then the father's. The flag is written through a
  cast in a const method, so the lookups return the context as well.\<close>

fun ctx_lookup_tc :: "tc_ref \<Rightarrow> cdr_context \<Rightarrow> abs_position \<times> cdr_context" where
  "ctx_lookup_tc tc (ContextCDR father root ext ind pn) =
     (let p = pn_lookup_tc tc pn in
      if p \<noteq> 0 then (p, ContextCDR father root ext ind pn)
      else (case father of
          None \<Rightarrow> (0, ContextCDR father root ext ind pn)
        | Some f \<Rightarrow> (let (q, f') = ctx_lookup_tc tc f in
            (q, ContextCDR (Some f') root (if q > 0 then True else ext) ind pn))))"

definition ctx_lookup_str :: "string \<Rightarrow> cdr_context \<Rightarrow> abs_position" where
  "ctx_lookup_str i c = pn_lookup_str i (m_positions_node c)"

definition ctx_lookup_val :: "value_ref \<Rightarrow> cdr_context \<Rightarrow> abs_position" where
  "ctx_lookup_val v c = pn_lookup_val v (m_positions_node c)"

fun ctx_lookup_typecode :: "abs_position \<Rightarrow> cdr_context \<Rightarrow> tc_ref res \<times> cdr_context" where
  "ctx_lookup_typecode p (ContextCDR father root ext ind pn) =
     (if p < root then (case father of
          None \<Rightarrow> (Inl MARSHAL, ContextCDR father root True ind pn)
        | Some f \<Rightarrow> (let (r, f') = ctx_lookup_typecode p f in
            (r, ContextCDR (Some f') root True ind pn)))
      else (in_lookup_typecode p ind, ContextCDR father root ext ind pn))"

definition ctx_lookup_string :: "abs_position \<Rightarrow> cdr_context \<Rightarrow> string res" where
  "ctx_lookup_string p c = in_lookup_string p (m_indirection_node c)"

definition ctx_lookup_value :: "abs_position \<Rightarrow> cdr_context \<Rightarrow> value_type_info res" where
  "ctx_lookup_value p c = in_lookup_value p (m_indirection_node c)"

fun ctx_put_tc :: "abs_position \<Rightarrow> tc_ref \<Rightarrow> cdr_context \<Rightarrow> cdr_context res" where
  "ctx_put_tc p tc (ContextCDR father root ext ind pn) =
     (if p < root then Inl INTERNAL
      else Inr (ContextCDR father root ext (in_put_tc p tc ind) (pn_put_tc tc p pn)))"

fun ctx_put_str :: "abs_position \<Rightarrow> string \<Rightarrow> cdr_context \<Rightarrow> cdr_context res" where
  "ctx_put_str p s (ContextCDR father root ext ind pn) =
     (if p < root then Inl INTERNAL
      else Inr (ContextCDR father root ext (in_put_str p s ind) (pn_put_str s p pn)))"

fun ctx_put_info :: "abs_position \<Rightarrow> value_type_info \<Rightarrow> cdr_context \<Rightarrow> cdr_context res" where
  "ctx_put_info p i (ContextCDR father root ext ind pn) =
     (if p < root then Inl INTERNAL
      else Inr (ContextCDR father root ext (in_put_info p i ind) pn))"

fun ctx_put_val :: "abs_position \<Rightarrow> value_ref \<Rightarrow> cdr_context \<Rightarrow> cdr_context res" where
  "ctx_put_val p v (ContextCDR father root ext ind pn) =
     (if p < root then Inl INTERNAL
      else Inr (ContextCDR father root ext ind (pn_put_val v p pn)))"

section \<open>Well-formed contexts\<close>

text \<open>
  In a well-formed context every position that the positions node holds for a TypeCode or a string is
  the position of an entry of the indirection node with the same identifier, positions are never
  zero (zero means "not marshalled"), the own positions are not below the start of the encapsulation
  and the father's positions are.
\<close>

definition pos_of_tc :: "positions_node \<Rightarrow> string \<Rightarrow> abs_position option" where
  "pos_of_tc pn i = table_or_new (m_types_table pn) i"

definition pos_of_str :: "positions_node \<Rightarrow> string \<Rightarrow> abs_position option" where
  "pos_of_str pn i = table_or_new (m_id_table pn) i"

definition tc_at :: "indirection_node \<Rightarrow> abs_position \<Rightarrow> tc_ref option" where
  "tc_at ind p = table_or_new (m_typecode_table ind) p"

definition str_at :: "indirection_node \<Rightarrow> abs_position \<Rightarrow> string option" where
  "str_at ind p = table_or_new (m_string_table ind) p"

fun ctx_below :: "abs_position \<Rightarrow> cdr_context \<Rightarrow> bool" where
  "ctx_below b (ContextCDR father root ext ind pn) \<longleftrightarrow>
     (\<forall>i p. pos_of_tc pn i = Some p \<longrightarrow> p < b) \<and>
     (case father of None \<Rightarrow> True | Some f \<Rightarrow> ctx_below b f)"

fun ctx_ok :: "cdr_context \<Rightarrow> bool" where
  "ctx_ok (ContextCDR father root ext ind pn) \<longleftrightarrow>
     (\<forall>i p. pos_of_tc pn i = Some p \<longrightarrow>
        root \<le> p \<and> p \<noteq> 0 \<and> (\<exists>tc. tc_at ind p = Some tc \<and> tc_id tc = Some i)) \<and>
     (\<forall>i p. pos_of_str pn i = Some p \<longrightarrow> p \<noteq> 0 \<and> str_at ind p = Some i) \<and>
     (case father of None \<Rightarrow> True | Some f \<Rightarrow> ctx_ok f \<and> ctx_below root f)"

lemmas node_defs = pos_of_tc_def pos_of_str_def tc_at_def str_at_def table_or_new_def
  pn_lookup_tc_def pn_lookup_str_def pn_put_tc_def pn_put_str_def pn_put_val_def
  in_lookup_typecode_def in_lookup_string_def table_find_def in_put_tc_def in_put_str_def

lemma pn_lookup_tc_nz:
  "pn_lookup_tc tc pn \<noteq> 0 \<Longrightarrow>
   \<exists>i. tc_id tc = Some i \<and> pos_of_tc pn i = Some (pn_lookup_tc tc pn)"
  by (auto simp: node_defs split: option.splits)

lemma in_lookup_tc_at: "tc_at ind p = Some tc \<Longrightarrow> in_lookup_typecode p ind = Inr tc"
  by (auto simp: node_defs split: option.splits)

lemma in_lookup_str_at: "str_at ind p = Some s \<Longrightarrow> in_lookup_string p ind = Inr s"
  by (auto simp: node_defs split: option.splits)

lemma fst_ctx_lookup_tc:
  "fst (ctx_lookup_tc tc (ContextCDR father root ext ind pn)) =
     (if pn_lookup_tc tc pn \<noteq> 0 then pn_lookup_tc tc pn
      else case father of None \<Rightarrow> 0 | Some f \<Rightarrow> fst (ctx_lookup_tc tc f))"
  by (simp add: Let_def split: option.split prod.split)

lemma fst_ctx_lookup_typecode:
  "fst (ctx_lookup_typecode p (ContextCDR father root ext ind pn)) =
     (if p < root then (case father of None \<Rightarrow> Inl MARSHAL | Some f \<Rightarrow> fst (ctx_lookup_typecode p f))
      else in_lookup_typecode p ind)"
  by (simp split: option.split prod.split)

declare ctx_lookup_tc.simps [simp del] ctx_lookup_typecode.simps [simp del]

lemma lookup_below: "ctx_below b c \<Longrightarrow> fst (ctx_lookup_tc tc c) \<noteq> 0 \<Longrightarrow> fst (ctx_lookup_tc tc c) < b"
proof (induction b c rule: ctx_below.induct)
  case (1 b father root ext ind pn)
  show ?case
  proof (cases "pn_lookup_tc tc pn = 0")
    case False
    with "1.prems" show ?thesis by (auto simp: fst_ctx_lookup_tc dest!: pn_lookup_tc_nz)
  next
    case True
    with 1 show ?thesis by (auto simp: fst_ctx_lookup_tc split: option.splits)
  qed
qed

text \<open>
  The general form of the resolution property: what \<open>ctx_lookup_tc\<close> finds, in this context or in an
  enclosing one, is what \<open>ctx_lookup_typecode\<close> reads back.
\<close>

lemma lookup_resolves:
  "ctx_ok c \<Longrightarrow> fst (ctx_lookup_tc tc c) \<noteq> 0 \<Longrightarrow>
   \<exists>tc'. fst (ctx_lookup_typecode (fst (ctx_lookup_tc tc c)) c) = Inr tc' \<and> tc_id tc' = tc_id tc \<and>
     tc_id tc \<noteq> None"
proof (induction c rule: ctx_ok.induct)
  case (1 father root ext ind pn)
  let ?p = "pn_lookup_tc tc pn"
  show ?case
  proof (cases "?p = 0")
    case False
    then obtain i where i: "tc_id tc = Some i" "pos_of_tc pn i = Some ?p"
      by (auto dest!: pn_lookup_tc_nz)
    with "1.prems"(1) have "root \<le> ?p" "\<exists>tc'. tc_at ind ?p = Some tc' \<and> tc_id tc' = Some i" by simp_all
    with i False show ?thesis
      by (auto simp: in_lookup_tc_at fst_ctx_lookup_tc fst_ctx_lookup_typecode)
  next
    case True
    with "1.prems" obtain f where f: "father = Some f" "ctx_ok f" "ctx_below root f"
      "fst (ctx_lookup_tc tc f) \<noteq> 0"
      by (auto simp: fst_ctx_lookup_tc split: option.splits)
    then have "fst (ctx_lookup_tc tc f) < root" by (intro lookup_below)
    with f True "1.IH" show ?thesis
      by (simp add: fst_ctx_lookup_tc fst_ctx_lookup_typecode)
  qed
qed

section \<open>Preservation\<close>

lemma pos_of_tc_put_tc:
  "pos_of_tc (pn_put_tc tc p pn) i = (if tc_id tc = Some i then Some p else pos_of_tc pn i)"
  by (auto simp: node_defs split: option.split)

lemma pos_of_node_simps [simp]:
  "pos_of_str (pn_put_tc tc p pn) i = pos_of_str pn i"
  "pos_of_tc (pn_put_str s p pn) i = pos_of_tc pn i"
  "pos_of_str (pn_put_str s p pn) i = (if i = s then Some p else pos_of_str pn i)"
  "pos_of_tc (pn_put_val v p pn) i = pos_of_tc pn i"
  "pos_of_str (pn_put_val v p pn) i = pos_of_str pn i"
  "tc_at (in_put_tc p tc ind) q = (if q = p then Some tc else tc_at ind q)"
  "str_at (in_put_tc p tc ind) q = str_at ind q"
  "tc_at (in_put_str p s ind) q = tc_at ind q"
  "str_at (in_put_str p s ind) q = (if q = p then Some s else str_at ind q)"
  "tc_at (in_put_info p vi ind) q = tc_at ind q"
  "str_at (in_put_info p vi ind) q = str_at ind q"
  by (auto simp: node_defs in_put_info_def split: option.split)

lemma ctx_new_ok [inv_intros]: "ctx_ok (ContextCDR_new None p)"
  by (simp add: ContextCDR_new_def PositionsNode_new_def node_defs)

lemma ctx_child_ok [inv_intros]: "ctx_ok f \<Longrightarrow> ctx_below p f \<Longrightarrow> ctx_ok (ContextCDR_new (Some f) p)"
  by (simp add: ContextCDR_new_def PositionsNode_new_def node_defs)

lemma ctx_put_tc_ok [inv_intros]:
  assumes "ctx_ok c" "ctx_put_tc p tc c = Inr c'" "p \<noteq> 0" "tc_at (m_indirection_node c) p = None"
  shows "ctx_ok c'"
  using assms by (cases c) (fastforce simp: pos_of_tc_put_tc not_less split: if_splits)

lemma ctx_put_str_ok [inv_intros]:
  assumes "ctx_ok c" "ctx_put_str p s c = Inr c'" "p \<noteq> 0" "str_at (m_indirection_node c) p = None"
  shows "ctx_ok c'"
  using assms by (cases c) (auto split: if_splits)

lemma ctx_put_info_ok [inv_intros]: "ctx_ok c \<Longrightarrow> ctx_put_info p i c = Inr c' \<Longrightarrow> ctx_ok c'"
  by (cases c) (auto split: if_splits)

lemma ctx_put_val_ok [inv_intros]: "ctx_ok c \<Longrightarrow> ctx_put_val p v c = Inr c' \<Longrightarrow> ctx_ok c'"
  by (cases c) (auto split: if_splits)

lemma ctx_lookup_str_resolves:
  "ctx_ok c \<Longrightarrow> ctx_lookup_str s c \<noteq> 0 \<Longrightarrow> ctx_lookup_string (ctx_lookup_str s c) c = Inr s"
  by (cases c) (auto simp: ctx_lookup_str_def ctx_lookup_string_def pn_lookup_str_def pos_of_str_def
    table_or_new_def intro!: in_lookup_str_at split: option.splits)

text \<open>Resolution of TypeCode indirections is the inverse of their creation: if the context says that
  a TypeCode has been marshalled at a position, in the current encapsulation or in an enclosing one,
  then resolving that position yields a TypeCode with the same repository identifier.\<close>

theorem indirection_roundtrip:
  assumes "ctx_ok c" and "ctx_lookup_tc tc c = (p, c1)" and "p \<noteq> 0"
  shows "\<exists>tc' c2. ctx_lookup_typecode p c = (Inr tc', c2) \<and> tc_id tc' = tc_id tc"
proof -
  from assms have "fst (ctx_lookup_tc tc c) = p" by simp
  with lookup_resolves [OF assms(1)] assms(3)
  obtain tc' where "fst (ctx_lookup_typecode p c) = Inr tc'" "tc_id tc' = tc_id tc" by auto
  then show ?thesis by (cases "ctx_lookup_typecode p c") auto
qed

theorem indirection_roundtrip_witness:
  "\<exists>tc' c2. ctx_lookup_typecode 4
     (ContextCDR (Some (ContextCDR None 0 False
          (in_put_tc 4 (TcRef 1 (Some ''IDL:A:1.0'')) IndirectionNode_new)
          (pn_put_tc (TcRef 1 (Some ''IDL:A:1.0'')) 4 PositionsNode_new)))
        20 False IndirectionNode_new PositionsNode_new) = (Inr tc', c2) \<and>
     tc_id tc' = Some ''IDL:A:1.0''"
  using indirection_roundtrip [of "ContextCDR (Some (ContextCDR None 0 False
          (in_put_tc 4 (TcRef 1 (Some ''IDL:A:1.0'')) IndirectionNode_new)
          (pn_put_tc (TcRef 1 (Some ''IDL:A:1.0'')) 4 PositionsNode_new)))
        20 False IndirectionNode_new PositionsNode_new" "TcRef 1 (Some ''IDL:A:1.0'')" 4
     "ContextCDR (Some (ContextCDR None 0 False
          (in_put_tc 4 (TcRef 1 (Some ''IDL:A:1.0'')) IndirectionNode_new)
          (pn_put_tc (TcRef 1 (Some ''IDL:A:1.0'')) 4 PositionsNode_new)))
        20 True IndirectionNode_new PositionsNode_new"]
  by (simp add: ctx_lookup_tc.simps node_defs PositionsNode_new_def IndirectionNode_new_def)

text \<open>Marshalling a value type records it only in the indirection node, so a later lookup of the same
  value does not find it: values are never written as indirections to an earlier copy.\<close>

theorem put_info_not_found_by_value:
  assumes "ctx_put_info p i c = Inr c'"
  shows "ctx_lookup_val v c' = ctx_lookup_val v c"
  using assms by (cases c) (auto simp: ctx_lookup_val_def split: if_splits)

theorem put_info_not_found_by_value_witness:
  "ctx_lookup_val 7 (ContextCDR None 0 False (in_put_info 4 ValueTypeInfo_new IndirectionNode_new)
     PositionsNode_new) = 0"
  using put_info_not_found_by_value [of 4 ValueTypeInfo_new "ContextCDR_new None 0"
      "ContextCDR None 0 False (in_put_info 4 ValueTypeInfo_new IndirectionNode_new) PositionsNode_new" 7]
  by (simp add: ContextCDR_new_def ctx_lookup_val_def pn_lookup_val_def PositionsNode_new_def)

end
