(* ===== verification/Cdr_Buffer.thy ===== *)
theory Cdr_Buffer
  imports Cdr_Context
begin

text \<open>
  The memory a CDR stream works on: the constants of \<^verbatim>\<open>core/cdr/CDR.C\<close>, a chunk of memory
  (\<^verbatim>\<open>ChunkCDR\<close>), a buffer of chunks (\<^verbatim>\<open>BufferCDR\<close>) and a position in it (\<^verbatim>\<open>PointerCDR\<close>).

  Addresses are natural numbers. A chunk owns the block that \<^verbatim>\<open>malloc\<close> returned for it: the octet at
  address \<open>a\<close> is entry \<open>a - m_real_buffer\<close> of \<open>m_bytes\<close>. The C library's \<^verbatim>\<open>malloc\<close> is a parameter:
  \<open>malloc n s\<close> is what the allocation of the chunk with number \<open>n\<close> returns for a request of \<open>s\<close>
  octets, the address and the (arbitrary) contents of the new block, or \<open>None\<close> for a null pointer.
\<close>

section \<open>Constants\<close>

definition MAX_ALIGNMENT :: nat where "MAX_ALIGNMENT = 16"
definition OCTET_SIZE :: nat where "OCTET_SIZE = 1"
definition WCHAR_SIZE :: nat where "WCHAR_SIZE = 2"
definition SHORT_SIZE :: nat where "SHORT_SIZE = 2"
definition USHORT_SIZE :: nat where "USHORT_SIZE = 2"
definition LONG_SIZE :: nat where "LONG_SIZE = 4"
definition ULONG_SIZE :: nat where "ULONG_SIZE = 4"
definition FLOAT_SIZE :: nat where "FLOAT_SIZE = 4"
definition LONGLONG_SIZE :: nat where "LONGLONG_SIZE = 8"
definition ULONGLONG_SIZE :: nat where "ULONGLONG_SIZE = 8"
definition DOUBLE_SIZE :: nat where "DOUBLE_SIZE = 8"
definition LONG_DOUBLE_SIZE :: nat where "LONG_DOUBLE_SIZE = 16"

lemmas size_defs [simp] = MAX_ALIGNMENT_def OCTET_SIZE_def WCHAR_SIZE_def SHORT_SIZE_def
  USHORT_SIZE_def LONG_SIZE_def ULONG_SIZE_def FLOAT_SIZE_def LONGLONG_SIZE_def ULONGLONG_SIZE_def
  DOUBLE_SIZE_def LONG_DOUBLE_SIZE_def

text \<open>\<^verbatim>\<open>CDR::align\<close>.\<close>

definition CDR_align :: "nat \<Rightarrow> nat" where
  "CDR_align addr = align_to addr (MAX_ALIGNMENT - 1)"

section \<open>Chunks\<close>

type_synonym malloc = "nat \<Rightarrow> nat \<Rightarrow> (nat \<times> octet list) option"

record chunk =
  m_real_buffer :: nat
  m_bytes :: "octet list"
  m_buffer :: nat
  m_available_end :: nat
  m_buffer_end :: nat
  m_length :: ulong
  m_with_header :: bool

text \<open>The constructor. The size handed to \<^verbatim>\<open>malloc\<close> is computed in 32 bits and passed through an
  \<^verbatim>\<open>int\<close>, so it wraps around and is sign-extended.\<close>

definition chunk_alloc_size :: "ulong \<Rightarrow> nat" where
  "chunk_alloc_size fixed_size = unat (scast (fixed_size + of_nat MAX_ALIGNMENT) :: ulonglong)"

definition ChunkCDR :: "malloc \<Rightarrow> nat \<Rightarrow> ulong \<Rightarrow> chunk res" where
  "ChunkCDR malloc n fixed_size =
     (case malloc n (chunk_alloc_size fixed_size) of
        None \<Rightarrow> Inl NO_MEMORY
      | Some (addr, block) \<Rightarrow>
          let buf = CDR_align addr in
          Inr \<lparr>m_real_buffer = addr, m_bytes = block, m_buffer = buf, m_available_end = buf,
               m_buffer_end = buf + unat fixed_size, m_length = fixed_size, m_with_header = False\<rparr>)"

definition chunk_recycle :: "chunk \<Rightarrow> chunk" where
  "chunk_recycle c = c\<lparr>m_available_end := m_buffer c\<rparr>"

definition chunk_set_available_bytes :: "chunk \<Rightarrow> ulong \<Rightarrow> chunk" where
  "chunk_set_available_bytes c v =
     (if m_length c \<ge> v then c\<lparr>m_available_end := m_buffer c + unat v\<rparr> else c)"

definition set_available_end :: "chunk \<Rightarrow> nat \<Rightarrow> chunk" where
  "set_available_end c position =
     (if position \<ge> m_buffer c \<and> position \<le> m_buffer_end c
      then c\<lparr>m_available_end := position\<rparr> else c)"

definition chunk_get_available_bytes :: "chunk \<Rightarrow> ulong" where
  "chunk_get_available_bytes c = word_of_int (int (m_available_end c) - int (m_buffer c))"

text \<open>Access to memory through a pointer into the chunk: stores and loads of \<open>n\<close> octets. An access
  that is not inside the block is \<open>OUT_OF_BOUNDS\<close>.\<close>

definition store :: "chunk \<Rightarrow> nat \<Rightarrow> octet list \<Rightarrow> chunk res" where
  "store c a bs =
     (let i = a - m_real_buffer c in
      if m_real_buffer c \<le> a \<and> i + length bs \<le> length (m_bytes c)
      then Inr (c\<lparr>m_bytes := take i (m_bytes c) @ bs @ drop (i + length bs) (m_bytes c)\<rparr>)
      else Inl OUT_OF_BOUNDS)"

definition load :: "chunk \<Rightarrow> nat \<Rightarrow> nat \<Rightarrow> octet list res" where
  "load c a n =
     (let i = a - m_real_buffer c in
      if m_real_buffer c \<le> a \<and> i + n \<le> length (m_bytes c)
      then Inr (take n (drop i (m_bytes c))) else Inl OUT_OF_BOUNDS)"

text \<open>\<^verbatim>\<open>duplicate\<close>: a new chunk whose pointers keep their distance to the start of the \<^emph>\<open>unaligned\<close>
  block.\<close>

definition chunk_duplicate :: "malloc \<Rightarrow> nat \<Rightarrow> chunk \<Rightarrow> chunk res" where
  "chunk_duplicate malloc n c =
     rbind (ChunkCDR malloc n (m_length c)) (\<lambda>d.
     rbind (load c (m_real_buffer c) (unat (m_length c + of_nat MAX_ALIGNMENT))) (\<lambda>bs.
     rbind (store d (m_real_buffer d) bs) (\<lambda>d.
       let buf = m_real_buffer d + (m_buffer c - m_real_buffer c) in
       Inr (d\<lparr>m_buffer := buf, m_length := m_length c, m_with_header := m_with_header c,
              m_buffer_end := buf + unat (m_length c),
              m_available_end := buf + (m_available_end c - m_buffer c)\<rparr>))))"

text \<open>What the data of a chunk are: the octets from the aligned start to the available end.\<close>

definition chunk_data :: "chunk \<Rightarrow> octet list" where
  "chunk_data c = take (m_available_end c - m_buffer c) (drop (m_buffer c - m_real_buffer c) (m_bytes c))"

section \<open>Buffers\<close>

record buffer =
  m_chunks :: "chunk list"
  m_chunk_size :: ulong
  buf_byte_order :: bool
  m_context :: cdr_context

definition BufferCDR :: "malloc \<Rightarrow> bool \<Rightarrow> ulong \<Rightarrow> cdr_context option \<Rightarrow> abs_position \<Rightarrow> buffer res" where
  "BufferCDR malloc local_order block_size father position_from_root =
     rbind (ChunkCDR malloc 0 block_size) (\<lambda>c.
       Inr \<lparr>m_chunks = [c], m_chunk_size = block_size, buf_byte_order = local_order,
            m_context = ContextCDR_new father position_from_root\<rparr>)"

definition BufferCDR_of_chunk :: "bool \<Rightarrow> chunk \<Rightarrow> cdr_context option \<Rightarrow> abs_position \<Rightarrow> buffer" where
  "BufferCDR_of_chunk local_order c father position_from_root =
     \<lparr>m_chunks = [c], m_chunk_size = m_length c, buf_byte_order = local_order,
      m_context = ContextCDR_new father position_from_root\<rparr>"

definition get_num_chunks :: "buffer \<Rightarrow> nat" where
  "get_num_chunks b = length (m_chunks b)"

definition get_chunk :: "buffer \<Rightarrow> nat \<Rightarrow> chunk option" where
  "get_chunk b i = (if i < length (m_chunks b) then Some (m_chunks b ! i) else None)"

definition buffer_recycle :: "buffer \<Rightarrow> buffer" where
  "buffer_recycle b = b\<lparr>m_chunks := map chunk_recycle (m_chunks b)\<rparr>"

definition add_chunk :: "buffer \<Rightarrow> chunk \<Rightarrow> buffer" where
  "add_chunk b c = b\<lparr>m_chunks := m_chunks b @ [c]\<rparr>"

definition insert_chunk :: "buffer \<Rightarrow> chunk \<Rightarrow> nat \<Rightarrow> buffer option" where
  "insert_chunk b c at = (if at \<ge> length (m_chunks b) then None
     else Some (b\<lparr>m_chunks := (m_chunks b)[at := c]\<rparr>))"

text \<open>\<^verbatim>\<open>grow\<close>; the caller ignores the result, so the buffer is returned unchanged for size zero.\<close>

definition grow :: "malloc \<Rightarrow> buffer \<Rightarrow> buffer res" where
  "grow malloc b =
     (if m_chunk_size b > 0
      then rbind (ChunkCDR malloc (length (m_chunks b)) (m_chunk_size b)) (\<lambda>c. Inr (add_chunk b c))
      else Inr b)"

definition get_available_bytes :: "buffer \<Rightarrow> ulong" where
  "get_available_bytes b = sum_list (map chunk_get_available_bytes (m_chunks b))"

fun set_available_loop :: "ulong \<Rightarrow> ulong \<Rightarrow> chunk list \<Rightarrow> chunk list" where
  "set_available_loop sz available [] = []"
| "set_available_loop sz available (c # cs) =
     (if available > 0
      then (if available < sz
            then chunk_set_available_bytes c available # set_available_loop sz 0 cs
            else chunk_set_available_bytes c sz # set_available_loop sz (available - sz) cs)
      else chunk_set_available_bytes c 0 # set_available_loop sz 0 cs)"

definition set_available_bytes :: "buffer \<Rightarrow> ulong \<Rightarrow> buffer res" where
  "set_available_bytes b available =
     (let allocated = of_nat (length (m_chunks b)) * m_chunk_size b in
      if available > allocated then Inl INTERNAL
      else Inr (b\<lparr>m_chunks := set_available_loop (m_chunk_size b) available (m_chunks b)\<rparr>))"

definition get_num_available_chunks :: "buffer \<Rightarrow> nat" where
  "get_num_available_chunks b = length (filter (\<lambda>c. chunk_get_available_bytes c > 0) (m_chunks b))"

fun equal_loop :: "chunk list \<Rightarrow> chunk list \<Rightarrow> nat \<Rightarrow> bool res" where
  "equal_loop cs ds 0 = Inr True"
| "equal_loop (c # cs) (d # ds) (Suc n) =
     (let n_bytes = unat (chunk_get_available_bytes c) in
      rbind (load c (m_buffer c) n_bytes) (\<lambda>xs. rbind (load d (m_buffer d) n_bytes) (\<lambda>ys.
        if xs = ys then equal_loop cs ds n else Inr False)))"
| "equal_loop cs ds (Suc n) = Inl OUT_OF_BOUNDS"

definition buffer_equal :: "buffer \<Rightarrow> buffer \<Rightarrow> bool res" where
  "buffer_equal a b =
     (if get_available_bytes a \<noteq> get_available_bytes b then Inr False
      else if get_num_available_chunks a \<noteq> get_num_available_chunks b then Inr False
      else equal_loop (m_chunks a) (m_chunks b) (get_num_available_chunks a))"

fun duplicate_loop :: "malloc \<Rightarrow> nat \<Rightarrow> chunk list \<Rightarrow> chunk list res" where
  "duplicate_loop malloc n [] = Inr []"
| "duplicate_loop malloc n (c # cs) =
     rbind (chunk_duplicate malloc n c) (\<lambda>d.
     rbind (duplicate_loop malloc (Suc n) cs) (\<lambda>ds. Inr (d # ds)))"

definition buffer_duplicate :: "malloc \<Rightarrow> buffer \<Rightarrow> buffer res" where
  "buffer_duplicate malloc b =
     rbind (duplicate_loop malloc 0 (m_chunks b)) (\<lambda>ds. Inr (b\<lparr>m_chunks := ds\<rparr>))"

section \<open>Positions\<close>

record pointer =
  p_num_chunk :: nat
  p_position :: nat

text \<open>\<^verbatim>\<open>PointerCDR::get_absolute_position\<close>: the sum is a 64-bit integer, the result its lower half.\<close>

definition get_absolute_position_in :: "buffer \<Rightarrow> pointer \<Rightarrow> abs_position res" where
  "get_absolute_position_in b p =
     (case get_chunk b (p_num_chunk p) of None \<Rightarrow> Inl OUT_OF_BOUNDS
      | Some c \<Rightarrow> Inr (word_of_int (int (sum_list (map (\<lambda>c. unat (m_length c)) (take (p_num_chunk p) (m_chunks b))))
                + int (p_position p) - int (m_buffer c))))"

section \<open>Well-formed chunks\<close>

definition chunk_wf :: "chunk \<Rightarrow> bool" where
  "chunk_wf c \<longleftrightarrow> m_buffer c mod 16 = 0 \<and> m_real_buffer c \<le> m_buffer c \<and>
     m_buffer c < m_real_buffer c + 16 \<and> length (m_bytes c) = unat (m_length c) + 16 \<and>
     m_buffer_end c = m_buffer c + unat (m_length c) \<and>
     m_buffer c \<le> m_available_end c \<and> m_available_end c \<le> m_buffer_end c"

text \<open>The documented behaviour of \<^verbatim>\<open>malloc\<close>: a block of the size that was asked for.\<close>

definition malloc_ok :: "malloc \<Rightarrow> bool" where
  "malloc_ok malloc \<longleftrightarrow> (\<forall>n s a bs. malloc n s = Some (a, bs) \<longrightarrow> length bs = s)"

text \<open>How an operation that allocates may fail: the allocator returned a null pointer.\<close>

definition malloc_total :: "malloc \<Rightarrow> bool" where
  "malloc_total malloc \<longleftrightarrow> (\<forall>n s. malloc n s \<noteq> None)"

definition alloc_failure :: "malloc \<Rightarrow> exn \<Rightarrow> bool" where
  "alloc_failure malloc e \<longleftrightarrow> e = NO_MEMORY \<and> \<not> malloc_total malloc"

text \<open>The sizes for which the allocation size does not wrap around.\<close>

definition size_ok :: "ulong \<Rightarrow> bool" where
  "size_ok s \<longleftrightarrow> unat s + 16 < 2 ^ 31"

section \<open>Facts about chunks\<close>

lemma alloc_failureI: "malloc n s = None \<Longrightarrow> alloc_failure malloc NO_MEMORY"
  unfolding alloc_failure_def malloc_total_def by blast

lemma CDR_align_props:
  "CDR_align a mod 16 = 0" "a \<le> CDR_align a" "CDR_align a < a + 16"
  by (simp_all add: CDR_align_def align_to_consts)

lemma chunk_alloc_size_ok:
  assumes "size_ok s"
  shows "chunk_alloc_size s = unat s + 16"
proof -
  have "int (unat s) < int (2 ^ 31 - 16)"
    using assms unfolding size_ok_def by (subst of_nat_less_iff) simp
  then have lt: "uint s < 2 ^ 31 - 16" unfolding of_nat_unat by simp
  then have small: "uint (s + 16) = int (unat s) + 16"
    by (simp add: uint_word_ariths)
  have "sint (s + 16) = int (unat s) + 16"
    unfolding sint_uint small
    by (rule signed_take_bit_int_eq_self) (use lt in simp_all)
  then have "scast (s + 16) = (word_of_int (int (unat s + 16)) :: ulonglong)"
    by (simp only: scast_eq of_nat_add of_nat_numeral)
  moreover have "uint (word_of_int x :: ulonglong) = x" if "0 \<le> x" "x < 2 ^ 64" for x
    using that by (simp add: uint_word_of_int_eq take_bit_int_eq_self)
  moreover have "int (unat s + 16) < 2 ^ 64" using lt by simp
  ultimately have "uint (scast (s + 16) :: ulonglong) = int (unat s + 16)"
    by (simp only: of_nat_0_le_iff)
  then show ?thesis unfolding chunk_alloc_size_def unat_eq_nat_uint
    by (simp only: size_defs of_nat_numeral nat_int)
qed

lemma ChunkCDR_wf [inv_intros]:
  assumes "malloc_ok malloc" "size_ok s" "ChunkCDR malloc n s = Inr c"
  shows "chunk_wf c \<and> m_length c = s \<and> m_available_end c = m_buffer c"
  using assms CDR_align_props
  by (auto simp: ChunkCDR_def malloc_ok_def chunk_wf_def chunk_alloc_size_ok Let_def
      split: option.splits prod.splits)

lemma set_available_end_simps [simp]:
  "m_real_buffer (set_available_end c p) = m_real_buffer c"
  "m_bytes (set_available_end c p) = m_bytes c"
  "m_buffer (set_available_end c p) = m_buffer c"
  "m_buffer_end (set_available_end c p) = m_buffer_end c"
  "m_length (set_available_end c p) = m_length c"
  by (simp_all add: set_available_end_def)

lemma set_available_end_wf [inv_intros]: "chunk_wf c \<Longrightarrow> chunk_wf (set_available_end c p)"
  by (simp add: chunk_wf_def set_available_end_def)

lemma store_wf [inv_intros]: "chunk_wf c \<Longrightarrow> store c a bs = Inr c' \<Longrightarrow> chunk_wf c'"
  by (auto simp: chunk_wf_def store_def Let_def split: if_splits)

lemma store_frame:
  assumes "store c a bs = Inr c'"
  shows "m_real_buffer c' = m_real_buffer c" "m_buffer c' = m_buffer c"
    "m_buffer_end c' = m_buffer_end c" "m_length c' = m_length c"
    "m_available_end c' = m_available_end c" "length (m_bytes c') = length (m_bytes c)"
  using assms by (auto simp: store_def Let_def split: if_splits)

lemma store_succeeds:
  assumes "chunk_wf c" "m_buffer c \<le> a" "a + length bs \<le> m_buffer_end c"
  shows "\<exists>c'. store c a bs = Inr c'"
  using assms by (auto simp: store_def Let_def chunk_wf_def)

lemma load_store:
  assumes "store c a bs = Inr c'"
  shows "load c' a (length bs) = Inr bs"
  using assms by (auto simp: store_def load_def Let_def split: if_splits)

text \<open>The octets below an address determine the loads below it.\<close>

definition agree_below :: "chunk \<Rightarrow> chunk \<Rightarrow> nat \<Rightarrow> bool" where
  "agree_below c d a \<longleftrightarrow> (\<forall>x. m_real_buffer c \<le> x \<and> x < a \<and> x - m_real_buffer c < length (m_bytes c) \<longrightarrow>
     m_bytes c ! (x - m_real_buffer c) = m_bytes d ! (x - m_real_buffer c))"

lemma agree_below_refl [simp]: "agree_below c c a"
  by (simp add: agree_below_def)

lemma agree_below_mono: "agree_below c d a \<Longrightarrow> b \<le> a \<Longrightarrow> agree_below c d b"
  by (auto simp: agree_below_def)

lemma agree_below_trans:
  "agree_below c d a \<Longrightarrow> agree_below d e a \<Longrightarrow> m_real_buffer c = m_real_buffer d \<Longrightarrow>
   length (m_bytes c) = length (m_bytes d) \<Longrightarrow> agree_below c e a"
  by (auto simp: agree_below_def)

lemma store_agree_below:
  assumes "store c a bs = Inr c'"
  shows "agree_below c c' a"
  using assms by (auto simp: agree_below_def store_def Let_def nth_append split: if_splits)

lemma load_agree:
  assumes "agree_below c d (a + n)" "load c a n = Inr bs" "m_real_buffer c = m_real_buffer d"
    "length (m_bytes c) = length (m_bytes d)"
  shows "load d a n = Inr bs"
proof -
  let ?i = "a - m_real_buffer c"
  from assms(2) have i: "m_real_buffer c \<le> a" "?i + n \<le> length (m_bytes c)"
    "bs = take n (drop ?i (m_bytes c))"
    by (auto simp: load_def Let_def split: if_splits)
  have "take n (drop ?i (m_bytes c)) = take n (drop ?i (m_bytes d))"
  proof (rule take_drop_eqI)
    show "m_bytes c ! j = m_bytes d ! j" if "?i \<le> j" "j < ?i + n" for j
    proof -
      from that i have "m_real_buffer c + j < a + n" by simp
      with that i assms(1) [unfolded agree_below_def, rule_format, of "m_real_buffer c + j"]
      have "m_bytes c ! ((m_real_buffer c + j) - m_real_buffer c) =
          m_bytes d ! ((m_real_buffer c + j) - m_real_buffer c)" by simp
      then show ?thesis by simp
    qed
  qed (use i assms(4) in auto)
  with i assms show ?thesis by (simp add: load_def Let_def)
qed

end
