(* ===== verification/Giop_Version.thy ===== *)
theory Giop_Version
  imports Prelude
begin

text \<open>The GIOP protocol version (\<^verbatim>\<open>core/comm/iiop/Version.C\<close>): the value, its comparison operators as
  the code has them, and how they relate to the lexicographic order on (major, minor).\<close>

record version =
  ver_major :: ulong
  ver_minor :: ulong

definition VERSION_1_0 :: version where "VERSION_1_0 = \<lparr>ver_major = 1, ver_minor = 0\<rparr>"
definition VERSION_1_1 :: version where "VERSION_1_1 = \<lparr>ver_major = 1, ver_minor = 1\<rparr>"
definition VERSION_1_2 :: version where "VERSION_1_2 = \<lparr>ver_major = 1, ver_minor = 2\<rparr>"

definition Version_eq :: "version \<Rightarrow> version \<Rightarrow> bool" where
  "Version_eq v w \<longleftrightarrow> ver_major v = ver_major w \<and> ver_minor v = ver_minor w"

definition Version_neq :: "version \<Rightarrow> version \<Rightarrow> bool" where
  "Version_neq v w \<longleftrightarrow> ver_major v \<noteq> ver_major w \<and> ver_minor v \<noteq> ver_minor w"

definition Version_gt :: "version \<Rightarrow> version \<Rightarrow> bool" where
  "Version_gt v w \<longleftrightarrow>
     (if ver_major v < ver_major w then False
      else if ver_major v = ver_major w then ver_minor v > ver_minor w else True)"

definition Version_ge :: "version \<Rightarrow> version \<Rightarrow> bool" where
  "Version_ge v w \<longleftrightarrow>
     (if ver_major v < ver_major w then False
      else if ver_major v = ver_major w then ver_minor v \<ge> ver_minor w else True)"

definition Version_lt :: "version \<Rightarrow> version \<Rightarrow> bool" where
  "Version_lt v w \<longleftrightarrow>
     (if ver_major v > ver_major w then False
      else if ver_major v = ver_major w then ver_minor v < ver_minor w else True)"

definition Version_le :: "version \<Rightarrow> version \<Rightarrow> bool" where
  "Version_le v w \<longleftrightarrow>
     (if ver_major v > ver_major w then False
      else if ver_major v = ver_major w then ver_minor v \<le> ver_minor w else True)"

definition Version_toString :: "version \<Rightarrow> string" where
  "Version_toString v =
     (if ver_minor v = 0 then ''Version(1.0)''
      else if ver_minor v = 1 then ''Version(1.1)'' else ''Version(1.2)'')"

lemmas version_op_defs = Version_eq_def Version_gt_def Version_ge_def Version_lt_def Version_le_def

lemma Version_eq_iff: "Version_eq v w \<longleftrightarrow> v = w"
  by (cases v; cases w) (auto simp: Version_eq_def)

section \<open>The order interface\<close>

text \<open>What a client of the version relies on: the comparison operators are those of one linear
  order. The locale states it for any type with such operators and derives the facts the protocol
  code uses; it is interpreted on the operators of \<^verbatim>\<open>Version.C\<close> below.\<close>

locale version_order =
  fixes eq lt le gt ge :: "'v \<Rightarrow> 'v \<Rightarrow> bool"
  assumes eq_iff: "eq v w \<longleftrightarrow> v = w"
    and le_iff: "le v w \<longleftrightarrow> lt v w \<or> v = w"
    and gt_flip: "gt v w \<longleftrightarrow> lt w v"
    and ge_flip: "ge v w \<longleftrightarrow> le w v"
    and lt_irrefl: "\<not> lt v v"
    and lt_trans: "lt u v \<Longrightarrow> lt v w \<Longrightarrow> lt u w"
    and lt_total: "lt v w \<or> v = w \<or> lt w v"
begin

lemma trichotomy:
  "(lt v w \<and> \<not> eq v w \<and> \<not> gt v w) \<or> (\<not> lt v w \<and> eq v w \<and> \<not> gt v w) \<or>
   (\<not> lt v w \<and> \<not> eq v w \<and> gt v w)"
  using lt_total lt_irrefl lt_trans unfolding eq_iff gt_flip by metis

lemma not_lt_iff_ge: "\<not> lt v w \<longleftrightarrow> ge v w"
  using lt_total lt_irrefl lt_trans unfolding ge_flip le_iff by metis

lemma ge_trans: "ge u v \<Longrightarrow> ge v w \<Longrightarrow> ge u w"
  using lt_trans unfolding ge_flip le_iff by metis

end

interpretation ver: version_order Version_eq Version_lt Version_le Version_gt Version_ge
proof
  fix u v w :: version
  show "Version_eq v w \<longleftrightarrow> v = w" by (rule Version_eq_iff)
  show "Version_le v w \<longleftrightarrow> Version_lt v w \<or> v = w"
    by (cases v; cases w) (auto simp: version_op_defs)
  show "Version_gt v w \<longleftrightarrow> Version_lt w v" by (auto simp: version_op_defs)
  show "Version_ge v w \<longleftrightarrow> Version_le w v" by (auto simp: version_op_defs)
  show "\<not> Version_lt v v" by (simp add: version_op_defs)
  show "Version_lt u v \<Longrightarrow> Version_lt v w \<Longrightarrow> Version_lt u w"
    by (auto simp: version_op_defs split: if_splits)
  show "Version_lt v w \<or> v = w \<or> Version_lt w v"
    by (cases v; cases w) (auto simp: version_op_defs)
qed

text \<open>Exactly one of the comparison operators \<^verbatim>\<open><\<close>, \<^verbatim>\<open>==\<close> and \<^verbatim>\<open>>\<close> holds of two versions, and
  \<^verbatim>\<open>>=\<close> is the negation of \<^verbatim>\<open><\<close>.\<close>

theorem version_trichotomy:
  "((Version_lt v w \<and> \<not> Version_eq v w \<and> \<not> Version_gt v w) \<or>
    (\<not> Version_lt v w \<and> Version_eq v w \<and> \<not> Version_gt v w) \<or>
    (\<not> Version_lt v w \<and> \<not> Version_eq v w \<and> Version_gt v w)) \<and>
   (Version_ge v w \<longleftrightarrow> \<not> Version_lt v w)"
  using ver.trichotomy [of v w] ver.not_lt_iff_ge [of v w] by blast

text \<open>\<^verbatim>\<open>operator!=\<close> is not the negation of \<^verbatim>\<open>operator==\<close>: versions that differ in one component
  only, such as 1.0 and 1.2, are neither equal nor unequal.\<close>

theorem version_neq_not_negation:
  "\<not> Version_eq VERSION_1_0 VERSION_1_2 \<and> \<not> Version_neq VERSION_1_0 VERSION_1_2"
  by (simp add: Version_eq_def Version_neq_def VERSION_1_0_def VERSION_1_2_def)

end
