(* ===== verification/Cdr_Iterator.thy ===== *)
theory Cdr_Iterator
  imports Cdr_Buffer Giop_Version
begin

text \<open>
  The iterator that input and output streams share (\<^verbatim>\<open>core/cdr/IteratorCDR.C\<close> and \<^verbatim>\<open>IteratorCDR.h\<close>):
  a buffer, the chunk it is in and the address of the next octet. \<open>m_chunk\<close> is the number of the chunk
  that the member \<^verbatim>\<open>m_chunk\<close> points to; the code keeps it beside \<open>m_current_chunk_num\<close>.
  \<open>local_byte_order\<close> is the platform constant \<^verbatim>\<open>CDR::LOCAL_BYTE_ORDER\<close> (true for little endian).
\<close>

record iter =
  local_byte_order :: bool
  m_byte_order :: bool
  m_byte_swap :: bool
  m_bufferCDR :: buffer
  m_current_chunk_num :: nat
  m_chunk :: nat
  m_starting :: pointer
  m_next :: nat
  m_message :: bool
  m_version :: version

definition cur_chunk :: "iter \<Rightarrow> chunk" where
  "cur_chunk it = m_chunks (m_bufferCDR it) ! m_chunk it"

definition upd_chunk :: "iter \<Rightarrow> chunk \<Rightarrow> iter" where
  "upd_chunk it c = it\<lparr>m_bufferCDR := (m_bufferCDR it)\<lparr>m_chunks := (m_chunks (m_bufferCDR it))[m_chunk it := c]\<rparr>\<rparr>"

text \<open>The constructor from a buffer.\<close>

definition IteratorCDR :: "bool \<Rightarrow> buffer \<Rightarrow> iter res" where
  "IteratorCDR local_order b =
     (case get_chunk b 0 of None \<Rightarrow> Inl OUT_OF_BOUNDS
      | Some c \<Rightarrow> Inr \<lparr>local_byte_order = local_order, m_byte_order = local_order, m_byte_swap = False,
          m_bufferCDR = b, m_current_chunk_num = 0, m_chunk = 0,
          m_starting = \<lparr>p_num_chunk = 0, p_position = m_buffer c\<rparr>, m_next = m_buffer c,
          m_message = False, m_version = VERSION_1_2\<rparr>)"

definition set_byte_order :: "bool \<Rightarrow> iter \<Rightarrow> iter" where
  "set_byte_order order it = it\<lparr>m_byte_order := order, m_byte_swap := (order \<noteq> local_byte_order it)\<rparr>"

definition set_version :: "version \<Rightarrow> iter \<Rightarrow> iter" where
  "set_version v it = it\<lparr>m_version := v\<rparr>"

definition fix_starting :: "iter \<Rightarrow> iter" where
  "fix_starting it = it\<lparr>m_starting := \<lparr>p_num_chunk = m_current_chunk_num it, p_position = m_next it\<rparr>\<rparr>"

text \<open>\<^verbatim>\<open>rewind\<close> and \<^verbatim>\<open>goBack\<close> move the chunk number and the address, and leave \<open>m_chunk\<close> as it is.\<close>

definition goBack :: "pointer \<Rightarrow> iter \<Rightarrow> iter" where
  "goBack p it = it\<lparr>m_current_chunk_num := p_num_chunk p, m_next := p_position p\<rparr>"

definition rewind :: "iter \<Rightarrow> iter" where
  "rewind it = goBack (m_starting it) it"

definition get_pointer :: "iter \<Rightarrow> pointer" where
  "get_pointer it = \<lparr>p_num_chunk = m_current_chunk_num it, p_position = m_next it\<rparr>"

definition available :: "iter \<Rightarrow> ulong" where
  "available it =
     (let av = (word_of_int (int (m_available_end (cur_chunk it)) - int (m_next it)) :: ulong)
      in if sint av < 0 then 0 else av)"

definition get_absolute_position :: "iter \<Rightarrow> abs_position res" where
  "get_absolute_position it =
     rbind (get_absolute_position_in (m_bufferCDR it) (get_pointer it)) (\<lambda>p.
       Inr (p + m_position_from_root (m_context (m_bufferCDR it))))"

text \<open>\<^verbatim>\<open>IteratorCDR::skip\<close>, the version of an output stream.\<close>

definition iter_skip :: "nat \<Rightarrow> iter \<Rightarrow> iter res" where
  "iter_skip n it = Inr (it\<lparr>m_next := m_next it + n\<rparr>)"

text \<open>\<^verbatim>\<open>next_chunk\<close>, used by both versions of \<^verbatim>\<open>get_next_chunk\<close>.\<close>

definition next_chunk :: "iter \<Rightarrow> iter res" where
  "next_chunk it =
     (let n = m_current_chunk_num it + 1 in
      if n \<ge> get_num_chunks (m_bufferCDR it) then Inl MARSHAL
      else Inr (it\<lparr>m_current_chunk_num := n, m_chunk := n, m_next := m_buffer (m_chunks (m_bufferCDR it) ! n)\<rparr>))"

text \<open>
  \<^verbatim>\<open>GO_NEXT_ALIGNED_POSITION\<close> and \<^verbatim>\<open>alignment\<close>. The virtual \<^verbatim>\<open>get_next_chunk\<close> is the argument
  \<open>get_next\<close>. The macro decrements its argument, the variable \<^verbatim>\<open>type_size\<close>, so the test for enough
  space that follows it is made with one octet less than the size of the type.
\<close>

definition go_next_aligned_position :: "(iter \<Rightarrow> iter res) \<Rightarrow> nat \<Rightarrow> iter \<Rightarrow> iter res" where
  "go_next_aligned_position get_next type_size it =
     (let next_position = align_to (m_next it) (type_size - 1) in
      if next_position < m_buffer_end (cur_chunk it) then Inr (it\<lparr>m_next := next_position\<rparr>)
      else get_next it)"

definition alignment :: "(iter \<Rightarrow> iter res) \<Rightarrow> nat \<Rightarrow> iter \<Rightarrow> iter res" where
  "alignment get_next type_size it =
     rbind (go_next_aligned_position get_next type_size it) (\<lambda>it.
       let type_size = type_size - 1; c = cur_chunk it in
       if m_buffer_end c \<ge> m_next it + type_size then Inr it
       else get_next (upd_chunk it (set_available_end c (m_next it))))"

text \<open>\<^verbatim>\<open>set_message\<close>: at the start of the buffer it skips the GIOP header. The virtual \<^verbatim>\<open>skip\<close> is an argument.\<close>

definition GIOP_HEADER_SIZE :: nat where "GIOP_HEADER_SIZE = 12"

definition set_message :: "(nat \<Rightarrow> iter \<Rightarrow> iter res) \<Rightarrow> bool \<Rightarrow> iter \<Rightarrow> iter res" where
  "set_message skip val it =
     (let it = it\<lparr>m_message := val\<rparr> in
      if val \<and> m_current_chunk_num it = 0 \<and> m_next it = m_buffer (cur_chunk it)
      then skip GIOP_HEADER_SIZE it else Inr it)"

section \<open>Invariant\<close>

definition iter_wf :: "iter \<Rightarrow> bool" where
  "iter_wf it \<longleftrightarrow> m_chunk it = m_current_chunk_num it \<and> m_chunk it < length (m_chunks (m_bufferCDR it)) \<and>
     (\<forall>c \<in> set (m_chunks (m_bufferCDR it)). chunk_wf c) \<and>
     m_buffer (cur_chunk it) \<le> m_next it \<and> m_next it \<le> m_buffer_end (cur_chunk it)"

text \<open>Chunk sizes the marshalling theorems assume: not zero and a multiple of eight, as \<^verbatim>\<open>ConfORB\<close>
  enforces for the block size.\<close>

definition chunk_al :: "chunk \<Rightarrow> bool" where
  "chunk_al c \<longleftrightarrow> unat (m_length c) mod 8 = 0 \<and> 8 \<le> unat (m_length c)"

definition iter_al :: "iter \<Rightarrow> bool" where
  "iter_al it \<longleftrightarrow> (\<forall>c \<in> set (m_chunks (m_bufferCDR it)). chunk_al c)"

section \<open>Basic facts\<close>

lemma upd_chunk_simps [simp]:
  "m_current_chunk_num (upd_chunk it c) = m_current_chunk_num it"
  "m_chunk (upd_chunk it c) = m_chunk it" "m_next (upd_chunk it c) = m_next it"
  "m_byte_swap (upd_chunk it c) = m_byte_swap it" "m_version (upd_chunk it c) = m_version it"
  "local_byte_order (upd_chunk it c) = local_byte_order it"
  "m_chunks (m_bufferCDR (upd_chunk it c)) = (m_chunks (m_bufferCDR it))[m_chunk it := c]"
  "m_chunk_size (m_bufferCDR (upd_chunk it c)) = m_chunk_size (m_bufferCDR it)"
  "m_context (m_bufferCDR (upd_chunk it c)) = m_context (m_bufferCDR it)"
  by (simp_all add: upd_chunk_def)

lemma cur_upd_chunk [simp]: "m_chunk it < length (m_chunks (m_bufferCDR it)) \<Longrightarrow> cur_chunk (upd_chunk it c) = c"
  by (simp add: cur_chunk_def)

lemma cur_chunk_next [simp]: "cur_chunk (it\<lparr>m_next := p\<rparr>) = cur_chunk it"
  by (simp add: cur_chunk_def)

lemma iter_wf_cur: "iter_wf it \<Longrightarrow> cur_chunk it \<in> set (m_chunks (m_bufferCDR it)) \<and> chunk_wf (cur_chunk it)"
  by (simp add: iter_wf_def cur_chunk_def)

lemma iter_wf_upd [inv_intros]:
  assumes "iter_wf it" "chunk_wf c" "m_buffer c = m_buffer (cur_chunk it)" "m_buffer_end c = m_buffer_end (cur_chunk it)"
  shows "iter_wf (upd_chunk it c)"
  using assms unfolding iter_wf_def by (auto dest!: set_update_subset_insert [THEN subsetD])

lemma iter_al_upd [inv_intros]:
  "iter_al it \<Longrightarrow> chunk_al c \<Longrightarrow> iter_al (upd_chunk it c)"
  unfolding iter_al_def by (auto dest!: set_update_subset_insert [THEN subsetD])

lemma cur_chunk_al: "iter_wf it \<Longrightarrow> iter_al it \<Longrightarrow> chunk_al (cur_chunk it)"
  by (simp add: iter_wf_def iter_al_def cur_chunk_def)

section \<open>Alignment arithmetic\<close>

text \<open>The sizes of the primitive types that are aligned to their own size.\<close>

definition prim_size :: "nat \<Rightarrow> bool" where
  "prim_size s \<longleftrightarrow> s = 1 \<or> s = 2 \<or> s = 4 \<or> s = 8"

lemma align_to_prim:
  assumes "prim_size s"
  shows "align_to p (s - 1) mod s = 0" "p \<le> align_to p (s - 1)" "align_to p (s - 1) < p + s"
    "p mod s = 0 \<Longrightarrow> align_to p (s - 1) = p"
  using assms by (auto simp: prim_size_def align_to_consts)

text \<open>An aligned address below an end that is a multiple of eight has room for the value, so the
  test with the decremented size is never the one that decides.\<close>

lemma prim_room:
  assumes "prim_size s" "p mod s = 0" "e mod 8 = 0" "p < e"
  shows "p + s \<le> (e :: nat)"
  using assms unfolding prim_size_def by presburger

lemma aligned_le:
  assumes "prim_size s" "p mod s = 0" "e mod 8 = 0" "p < e + s"
  shows "p \<le> (e :: nat)"
  using assms unfolding prim_size_def by presburger

text \<open>Alignment of an address is alignment of its distance to an aligned start.\<close>

lemma align_to_add: "prim_size s \<Longrightarrow> align_to (8 * i + d) (s - 1) = 8 * i + align_to d (s - 1)"
  unfolding prim_size_def
proof (elim disjE)
  show "s = 2 \<Longrightarrow> ?thesis" by (simp add: align_to_consts) presburger
  show "s = 4 \<Longrightarrow> ?thesis" by (simp add: align_to_consts) presburger
  show "s = 8 \<Longrightarrow> ?thesis" by (simp add: align_to_consts) presburger
qed (simp add: align_to_consts)

lemma align_to_shift:
  assumes "prim_size s" "m mod 8 = 0" "b mod 8 = 0" "b \<le> a"
  shows "align_to (m + (a - b)) (s - 1) = m + (align_to a (s - 1) - b)"
proof -
  from assms obtain i j where ij: "m = 8 * i" "b = 8 * j" by (metis mod_0_imp_dvd dvdE)
  define d where "d = a - b"
  have a: "a = 8 * j + d" using assms ij by (simp add: d_def)
  show ?thesis using align_to_add [OF assms(1)] unfolding a ij by simp
qed

lemma chunk_end_mod: "chunk_wf c \<Longrightarrow> chunk_al c \<Longrightarrow> m_buffer_end c mod 8 = 0 \<and> m_buffer c mod 8 = 0"
  unfolding chunk_wf_def chunk_al_def by presburger

end
