(* ===== verification/Cdr_Output.thy ===== *)
theory Cdr_Output
  imports Cdr_Iterator
begin

text \<open>
  The output stream (\<^verbatim>\<open>core/cdr/CDROutputStream.C\<close> and \<^verbatim>\<open>CDROutputStream.h\<close>). Every operation takes
  the stream as an \<open>iter\<close> and returns the changed stream or the exception. Integers are stored in the
  byte order of the host; \<open>malloc\<close> is the allocator that growing the buffer calls. A C string is the
  list of its octets without the terminating zero, a null pointer is \<open>None\<close>.
\<close>

section \<open>Operations\<close>

definition out_get_next_chunk :: "malloc \<Rightarrow> iter \<Rightarrow> iter res" where
  "out_get_next_chunk malloc it =
     (let it = upd_chunk it (set_available_end (cur_chunk it) (m_buffer_end (cur_chunk it))) in
      rbind (if m_current_chunk_num it = get_num_chunks (m_bufferCDR it) - 1
             then grow malloc (m_bufferCDR it) else Inr (m_bufferCDR it))
        (\<lambda>b. next_chunk (it\<lparr>m_bufferCDR := b\<rparr>)))"

abbreviation out_alignment :: "malloc \<Rightarrow> nat \<Rightarrow> iter \<Rightarrow> iter res" where
  "out_alignment malloc \<equiv> alignment (out_get_next_chunk malloc)"

text \<open>The end of every write: the available end follows the position.\<close>

definition bump_available :: "iter \<Rightarrow> iter" where
  "bump_available it =
     (if m_next it > m_available_end (cur_chunk it)
      then upd_chunk it (set_available_end (cur_chunk it) (m_next it)) else it)"

text \<open>A store through \<open>m_next\<close> that advances it, \<^verbatim>\<open>*((T*) m_next) = v; m_next += size\<close>.\<close>

definition put_bytes :: "octet list \<Rightarrow> iter \<Rightarrow> iter res" where
  "put_bytes bs it =
     rbind (store (cur_chunk it) (m_next it) bs) (\<lambda>c.
       Inr ((upd_chunk it c)\<lparr>m_next := m_next it + length bs\<rparr>))"

definition write_octet :: "malloc \<Rightarrow> octet \<Rightarrow> iter \<Rightarrow> iter res" where
  "write_octet malloc v it =
     rbind (out_alignment malloc OCTET_SIZE it) (\<lambda>it.
     rbind (put_bytes [v] it) (\<lambda>it. Inr (bump_available it)))"

definition write_boolean :: "malloc \<Rightarrow> bool \<Rightarrow> iter \<Rightarrow> iter res" where
  "write_boolean malloc v it = write_octet malloc (if v then 1 else 0) it"

definition write_char :: "malloc \<Rightarrow> octet \<Rightarrow> iter \<Rightarrow> iter res" where
  "write_char malloc v it =
     rbind (out_alignment malloc OCTET_SIZE it) (\<lambda>it.
     rbind (put_bytes [v] it) (\<lambda>it. Inr (bump_available it)))"

definition write_short :: "malloc \<Rightarrow> ushort \<Rightarrow> iter \<Rightarrow> iter res" where
  "write_short malloc v it =
     rbind (out_alignment malloc SHORT_SIZE it) (\<lambda>it.
     rbind (put_bytes (host_bytes (local_byte_order it) SHORT_SIZE (unat v)) it) (\<lambda>it.
       Inr (bump_available it)))"

definition write_ushort :: "malloc \<Rightarrow> ushort \<Rightarrow> iter \<Rightarrow> iter res" where
  "write_ushort malloc v it =
     rbind (out_alignment malloc SHORT_SIZE it) (\<lambda>it.
     rbind (put_bytes (host_bytes (local_byte_order it) SHORT_SIZE (unat v)) it) (\<lambda>it.
       Inr (bump_available it)))"

text \<open>A wide character is stored through a pointer to \<^verbatim>\<open>UShort\<close>: its lower 16 bits.\<close>

definition write_wchar :: "malloc \<Rightarrow> ulong \<Rightarrow> iter \<Rightarrow> iter res" where
  "write_wchar malloc v it =
     rbind (out_alignment malloc SHORT_SIZE it) (\<lambda>it.
     rbind (put_bytes (host_bytes (local_byte_order it) SHORT_SIZE (unat (ucast v :: ushort))) it) (\<lambda>it.
       Inr (bump_available it)))"

definition write_long :: "malloc \<Rightarrow> ulong \<Rightarrow> iter \<Rightarrow> iter res" where
  "write_long malloc v it =
     rbind (out_alignment malloc LONG_SIZE it) (\<lambda>it.
     rbind (put_bytes (host_bytes (local_byte_order it) LONG_SIZE (unat v)) it) (\<lambda>it.
       Inr (bump_available it)))"

definition write_ulong :: "malloc \<Rightarrow> ulong \<Rightarrow> iter \<Rightarrow> iter res" where
  "write_ulong malloc v it =
     rbind (out_alignment malloc LONG_SIZE it) (\<lambda>it.
     rbind (put_bytes (host_bytes (local_byte_order it) LONG_SIZE (unat v)) it) (\<lambda>it.
       Inr (bump_available it)))"

text \<open>A float is written by its bit pattern.\<close>

definition write_float :: "malloc \<Rightarrow> ulong \<Rightarrow> iter \<Rightarrow> iter res" where
  "write_float malloc v it =
     rbind (out_alignment malloc LONG_SIZE it) (\<lambda>it.
     rbind (put_bytes (host_bytes (local_byte_order it) LONG_SIZE (unat v)) it) (\<lambda>it.
       Inr (bump_available it)))"

definition write_longlong :: "malloc \<Rightarrow> ulonglong \<Rightarrow> iter \<Rightarrow> iter res" where
  "write_longlong malloc v it =
     rbind (out_alignment malloc LONGLONG_SIZE it) (\<lambda>it.
     rbind (put_bytes (host_bytes (local_byte_order it) LONGLONG_SIZE (unat v)) it) (\<lambda>it.
       Inr (bump_available it)))"

definition write_ulonglong :: "malloc \<Rightarrow> ulonglong \<Rightarrow> iter \<Rightarrow> iter res" where
  "write_ulonglong malloc v it =
     rbind (out_alignment malloc LONGLONG_SIZE it) (\<lambda>it.
     rbind (put_bytes (host_bytes (local_byte_order it) LONGLONG_SIZE (unat v)) it) (\<lambda>it.
       Inr (bump_available it)))"

definition write_double :: "malloc \<Rightarrow> ulonglong \<Rightarrow> iter \<Rightarrow> iter res" where
  "write_double malloc v it =
     rbind (out_alignment malloc LONGLONG_SIZE it) (\<lambda>it.
     rbind (put_bytes (host_bytes (local_byte_order it) LONGLONG_SIZE (unat v)) it) (\<lambda>it.
       Inr (bump_available it)))"

text \<open>A long double has 16 octets and is aligned to eight.\<close>

definition write_longdouble :: "malloc \<Rightarrow> longdouble \<Rightarrow> iter \<Rightarrow> iter res" where
  "write_longdouble malloc v it =
     rbind (out_alignment malloc LONGLONG_SIZE it) (\<lambda>it.
     rbind (put_bytes (host_bytes (local_byte_order it) LONG_DOUBLE_SIZE (unat v)) it) (\<lambda>it.
       Inr (bump_available it)))"

text \<open>
  \<^verbatim>\<open>write_octet_array\<close>: copy what fits into the chunk, get the next chunk, go on. The number of
  octets that fit is a pointer difference converted to 32 bits. The fuel bounds the number of rounds;
  \<open>octet_array_loop_step\<close> in the theory of the abstract streams shows that what the operation gives
  suffices.
\<close>

fun write_octet_array_loop :: "nat \<Rightarrow> malloc \<Rightarrow> octet list \<Rightarrow> iter \<Rightarrow> iter res" where
  "write_octet_array_loop 0 malloc v it = Inl NO_FUEL"
| "write_octet_array_loop (Suc fuel) malloc v it =
     (let room = (word_of_int (int (m_buffer_end (cur_chunk it)) - int (m_next it)) :: ulong);
          octets_can_write = (if unat room > length v then length v else unat room) in
      rbind (put_bytes (take octets_can_write v) it) (\<lambda>it.
        if length v - octets_can_write > 0
        then rbind (out_get_next_chunk malloc it) (write_octet_array_loop fuel malloc (drop octets_can_write v))
        else Inr (bump_available it)))"

definition write_octet_array :: "malloc \<Rightarrow> octet list option \<Rightarrow> iter \<Rightarrow> iter res" where
  "write_octet_array malloc v it =
     (case v of None \<Rightarrow> Inl BAD_PARAM
      | Some bs \<Rightarrow> write_octet_array_loop (length bs + length (m_chunks (m_bufferCDR it)) + 2) malloc bs it)"

definition write_string :: "malloc \<Rightarrow> octet list option \<Rightarrow> iter \<Rightarrow> iter res" where
  "write_string malloc v it =
     (case v of None \<Rightarrow> Inl BAD_PARAM
      | Some s \<Rightarrow> rbind (write_ulong malloc (of_nat (length s) + 1) it) (\<lambda>it.
          rbind (write_octet_array malloc (Some (take (unat (of_nat (length s) :: ulong)) s)) it)
            (write_char malloc 0)))"

fun write_wchar_array :: "malloc \<Rightarrow> ulong list \<Rightarrow> iter \<Rightarrow> iter res" where
  "write_wchar_array malloc [] it = Inr it"
| "write_wchar_array malloc (w # ws) it = rbind (write_wchar malloc w it) (write_wchar_array malloc ws)"

definition write_wstring :: "malloc \<Rightarrow> ulong list option \<Rightarrow> iter \<Rightarrow> iter res" where
  "write_wstring malloc v it =
     (case v of None \<Rightarrow> Inl BAD_PARAM
      | Some s \<Rightarrow> rbind (if m_version it = VERSION_1_2
            then write_ulong malloc (of_nat ((length s + 1) * WCHAR_SIZE)) it
            else write_ulong malloc (of_nat (length s + 1)) it)
          (write_wchar_array malloc (s @ [0])))"

fun write_string_array :: "malloc \<Rightarrow> octet list option list \<Rightarrow> iter \<Rightarrow> iter res" where
  "write_string_array malloc [] it = Inr it"
| "write_string_array malloc (s # ss) it = rbind (write_string malloc s it) (write_string_array malloc ss)"

text \<open>
  \<^verbatim>\<open>write_data_array\<close>, the body of the array operations of the other numeric types. \<open>v\<close> is the memory
  image of the array, \<open>n\<close> its number of elements. The source pointer is not advanced, and the number of
  elements of a round is compared with the whole length and not with what remains, a 32-bit counter.
\<close>

fun write_data_array_loop :: "nat \<Rightarrow> malloc \<Rightarrow> octet list \<Rightarrow> ulong \<Rightarrow> nat \<Rightarrow> ulong \<Rightarrow> iter \<Rightarrow> iter res" where
  "write_data_array_loop 0 malloc v n type_size remain_values it = Inl NO_FUEL"
| "write_data_array_loop (Suc fuel) malloc v n type_size remain_values it =
     (let room = (word_of_int (int (m_buffer_end (cur_chunk it)) - int (m_next it)) :: ulong);
          fit = room div of_nat type_size;
          values_can_write = (if fit > n then n else fit);
          octets_can_write = unat values_can_write * type_size in
      rbind (put_bytes (take octets_can_write v) it) (\<lambda>it.
        let remain_values = remain_values - values_can_write in
        if remain_values > 0
        then rbind (out_get_next_chunk malloc it) (write_data_array_loop fuel malloc v n type_size remain_values)
        else Inr (bump_available it)))"

definition write_data_array :: "nat \<Rightarrow> malloc \<Rightarrow> octet list option \<Rightarrow> ulong \<Rightarrow> nat \<Rightarrow> iter \<Rightarrow> iter res" where
  "write_data_array fuel malloc v n type_size it =
     (case v of None \<Rightarrow> Inl BAD_PARAM
      | Some bs \<Rightarrow> rbind (out_alignment malloc type_size it) (write_data_array_loop fuel malloc bs n type_size n))"

text \<open>The memory image of an array of integers of \<open>size\<close> octets.\<close>

definition array_image :: "bool \<Rightarrow> nat \<Rightarrow> nat list \<Rightarrow> octet list" where
  "array_image little n xs = concat (map (host_bytes little n) xs)"

text \<open>The operations for the arrays of the single types. \<^verbatim>\<open>write_boolean_array\<close> and \<^verbatim>\<open>write_char_array\<close> are
  the octet array operation on the memory of the array.\<close>

definition write_boolean_array :: "malloc \<Rightarrow> bool list option \<Rightarrow> iter \<Rightarrow> iter res" where
  "write_boolean_array malloc v it = write_octet_array malloc (map_option (map (\<lambda>b. if b then 1 else 0)) v) it"

definition write_char_array :: "malloc \<Rightarrow> octet list option \<Rightarrow> iter \<Rightarrow> iter res" where
  "write_char_array malloc v it = write_octet_array malloc v it"

definition write_short_array :: "nat \<Rightarrow> malloc \<Rightarrow> ushort list \<Rightarrow> iter \<Rightarrow> iter res" where
  "write_short_array fuel malloc xs it =
     write_data_array fuel malloc (Some (array_image (local_byte_order it) SHORT_SIZE (map unat xs)))
       (of_nat (length xs)) SHORT_SIZE it"

definition write_long_array :: "nat \<Rightarrow> malloc \<Rightarrow> ulong list \<Rightarrow> iter \<Rightarrow> iter res" where
  "write_long_array fuel malloc xs it =
     write_data_array fuel malloc (Some (array_image (local_byte_order it) LONG_SIZE (map unat xs)))
       (of_nat (length xs)) LONG_SIZE it"

definition write_longlong_array :: "nat \<Rightarrow> malloc \<Rightarrow> ulonglong list \<Rightarrow> iter \<Rightarrow> iter res" where
  "write_longlong_array fuel malloc xs it =
     write_data_array fuel malloc (Some (array_image (local_byte_order it) LONGLONG_SIZE (map unat xs)))
       (of_nat (length xs)) LONGLONG_SIZE it"

definition write_ushort_array :: "nat \<Rightarrow> malloc \<Rightarrow> ushort list \<Rightarrow> iter \<Rightarrow> iter res" where
  "write_ushort_array fuel malloc xs it =
     write_data_array fuel malloc (Some (array_image (local_byte_order it) USHORT_SIZE (map unat xs)))
       (of_nat (length xs)) USHORT_SIZE it"

definition write_ulong_array :: "nat \<Rightarrow> malloc \<Rightarrow> ulong list \<Rightarrow> iter \<Rightarrow> iter res" where
  "write_ulong_array fuel malloc xs it =
     write_data_array fuel malloc (Some (array_image (local_byte_order it) ULONG_SIZE (map unat xs)))
       (of_nat (length xs)) ULONG_SIZE it"

definition write_ulonglong_array :: "nat \<Rightarrow> malloc \<Rightarrow> ulonglong list \<Rightarrow> iter \<Rightarrow> iter res" where
  "write_ulonglong_array fuel malloc xs it =
     write_data_array fuel malloc (Some (array_image (local_byte_order it) ULONGLONG_SIZE (map unat xs)))
       (of_nat (length xs)) ULONGLONG_SIZE it"

definition write_float_array :: "nat \<Rightarrow> malloc \<Rightarrow> ulong list \<Rightarrow> iter \<Rightarrow> iter res" where
  "write_float_array fuel malloc xs it =
     write_data_array fuel malloc (Some (array_image (local_byte_order it) FLOAT_SIZE (map unat xs)))
       (of_nat (length xs)) FLOAT_SIZE it"

definition write_double_array :: "nat \<Rightarrow> malloc \<Rightarrow> ulonglong list \<Rightarrow> iter \<Rightarrow> iter res" where
  "write_double_array fuel malloc xs it =
     write_data_array fuel malloc (Some (array_image (local_byte_order it) DOUBLE_SIZE (map unat xs)))
       (of_nat (length xs)) DOUBLE_SIZE it"

definition write_longdouble_array :: "nat \<Rightarrow> malloc \<Rightarrow> longdouble list \<Rightarrow> iter \<Rightarrow> iter res" where
  "write_longdouble_array fuel malloc xs it =
     write_data_array fuel malloc (Some (array_image (local_byte_order it) LONG_DOUBLE_SIZE (map unat xs)))
       (of_nat (length xs)) LONG_DOUBLE_SIZE it"

fun write_wstring_array :: "malloc \<Rightarrow> ulong list option list \<Rightarrow> iter \<Rightarrow> iter res" where
  "write_wstring_array malloc [] it = Inr it"
| "write_wstring_array malloc (s # ss) it = rbind (write_wstring malloc s it) (write_wstring_array malloc ss)"

definition write_Principal :: "malloc \<Rightarrow> octet list option \<Rightarrow> iter \<Rightarrow> iter res" where
  "write_Principal malloc v it = write_string malloc v it"

text \<open>Indirections and referenceable strings.\<close>

definition write_indirection :: "malloc \<Rightarrow> abs_position \<Rightarrow> iter \<Rightarrow> iter res" where
  "write_indirection malloc previous_position it =
     rbind (write_long malloc 0xFFFFFFFF it) (\<lambda>it.
     rbind (out_alignment malloc LONG_SIZE it) (\<lambda>it.
     rbind (get_absolute_position it) (\<lambda>indirection_position.
       write_long malloc (previous_position - indirection_position) it)))"

definition set_context :: "cdr_context \<Rightarrow> iter \<Rightarrow> iter" where
  "set_context c it = it\<lparr>m_bufferCDR := (m_bufferCDR it)\<lparr>m_context := c\<rparr>\<rparr>"

definition write_referenceable_string :: "malloc \<Rightarrow> octet list \<Rightarrow> string \<Rightarrow> iter \<Rightarrow> iter res" where
  "write_referenceable_string malloc bytes str it =
     (let previous_position = ctx_lookup_str str (m_context (m_bufferCDR it)) in
      if previous_position \<noteq> 0 then write_indirection malloc previous_position it
      else rbind (out_alignment malloc LONG_SIZE it) (\<lambda>it.
        rbind (get_absolute_position it) (\<lambda>id_position.
        rbind (ctx_put_str id_position str (m_context (m_bufferCDR it))) (\<lambda>c.
          write_string malloc (Some bytes) (set_context c it)))))"

text \<open>Encapsulations: \<^verbatim>\<open>create_encapsulation\<close> returns the stream for the encapsulation, whose context is
  chained to that of this stream, and \<^verbatim>\<open>write_buffer\<close> writes the chunks of a finished one.\<close>

definition create_encapsulation :: "malloc \<Rightarrow> ulong \<Rightarrow> iter \<Rightarrow> (iter \<times> iter) res" where
  "create_encapsulation malloc block_size it =
     rbind (out_alignment malloc ULONG_SIZE it) (\<lambda>it.
     rbind (get_absolute_position it) (\<lambda>p.
     rbind (BufferCDR malloc (local_byte_order it) block_size (Some (m_context (m_bufferCDR it)))
              (p + of_nat ULONG_SIZE)) (\<lambda>b.
     rbind (IteratorCDR (local_byte_order it) b) (\<lambda>out.
     rbind (write_boolean malloc (m_byte_order out) out) (\<lambda>out. Inr (out, it))))))"

fun write_buffer_loop :: "malloc \<Rightarrow> chunk list \<Rightarrow> nat \<Rightarrow> iter \<Rightarrow> iter res" where
  "write_buffer_loop malloc cs 0 it = Inr it"
| "write_buffer_loop malloc (c # cs) (Suc n) it =
     rbind (load c (m_buffer c) (unat (chunk_get_available_bytes c))) (\<lambda>bs.
     rbind (write_octet_array malloc (Some bs) it) (write_buffer_loop malloc cs n))"
| "write_buffer_loop malloc [] (Suc n) it = Inl OUT_OF_BOUNDS"

definition write_buffer :: "malloc \<Rightarrow> buffer \<Rightarrow> iter \<Rightarrow> iter res" where
  "write_buffer malloc b it =
     rbind (write_ulong malloc (get_available_bytes b) it)
       (write_buffer_loop malloc (m_chunks b) (get_num_available_chunks b))"

definition fix_next_aligned_position :: "malloc \<Rightarrow> nat \<Rightarrow> iter \<Rightarrow> iter res" where
  "fix_next_aligned_position malloc type_size it =
     rbind (go_next_aligned_position (out_get_next_chunk malloc) type_size it) (\<lambda>it. Inr (bump_available it))"

section \<open>Type information of values\<close>

definition write_null :: "malloc \<Rightarrow> iter \<Rightarrow> iter res" where
  "write_null malloc it = write_ulong malloc NULL_TAG it"

fun write_ids :: "malloc \<Rightarrow> (string \<Rightarrow> octet list) \<Rightarrow> string list \<Rightarrow> iter \<Rightarrow> iter res" where
  "write_ids malloc enc [] it = Inr it"
| "write_ids malloc enc (i # is) it =
     rbind (write_referenceable_string malloc (enc i) i it) (write_ids malloc enc is)"

definition string_octets :: "string \<Rightarrow> octet list" where
  "string_octets s = map (\<lambda>ch. word_of_nat (of_char ch)) s"

definition vti_write :: "malloc \<Rightarrow> value_type_info \<Rightarrow> iter \<Rightarrow> iter res" where
  "vti_write malloc i it =
     (if m_value_tag i = NULL_TAG then write_null malloc it
      else rbind (write_long malloc (m_value_tag i) it) (\<lambda>it.
        rbind (case m_code_base_url i of None \<Rightarrow> Inr it
               | Some url \<Rightarrow> write_referenceable_string malloc (string_octets url) url it) (\<lambda>it.
        if length (m_repository_ids i) > 0
        then (if m_value_tag i AND REPOSITORY_ID_LIST = REPOSITORY_ID_LIST
              then rbind (write_long malloc (of_nat (length (m_repository_ids i))) it)
                     (write_ids malloc string_octets (m_repository_ids i))
              else write_referenceable_string malloc (string_octets (hd (m_repository_ids i)))
                     (hd (m_repository_ids i)) it)
        else Inr it)))"

end
