(* ===== verification/Cdr_Input.thy ===== *)
theory Cdr_Input
  imports Cdr_Iterator
begin

text \<open>
  The input stream (\<^verbatim>\<open>core/cdr/CDRInputStream.C\<close> and \<^verbatim>\<open>CDRInputStream.h\<close>): primitive reads with byte
  swapping, arrays, strings, skipping, indirections and encapsulations. An array read fills the
  memory of the caller: it takes the image of that memory and returns the changed image.
\<close>

section \<open>Moving on\<close>

text \<open>\<^verbatim>\<open>CDRInputStream::get_next_chunk\<close> is \<^verbatim>\<open>next_chunk\<close>.\<close>

abbreviation in_alignment :: "nat \<Rightarrow> iter \<Rightarrow> iter res" where
  "in_alignment \<equiv> alignment next_chunk"

lemma next_chunk_advances:
  assumes "next_chunk it = Inr it'"
  shows "m_bufferCDR it' = m_bufferCDR it" "m_current_chunk_num it' = Suc (m_current_chunk_num it)"
    "m_current_chunk_num it' < length (m_chunks (m_bufferCDR it'))"
  using assms by (auto simp: next_chunk_def Let_def get_num_chunks_def split: if_splits)

text \<open>What is left of a walk over the chunks; every round of the loops below decreases it.\<close>

definition chunks_left :: "iter \<Rightarrow> nat" where
  "chunks_left it = length (m_chunks (m_bufferCDR it)) - m_current_chunk_num it"

lemma next_chunk_left: "next_chunk it = Inr it' \<Longrightarrow> chunks_left it' < chunks_left it"
  using next_chunk_advances [of it it'] by (simp add: chunks_left_def)

lemma chunks_left_upd [simp]:
  "chunks_left (upd_chunk it c) = chunks_left it" "chunks_left (it\<lparr>m_next := p\<rparr>) = chunks_left it"
  by (simp_all add: chunks_left_def)

lemma in_alignment_left: "in_alignment s it = Inr it' \<Longrightarrow> chunks_left it' \<le> chunks_left it"
  by (auto simp: alignment_def go_next_aligned_position_def Let_def split: if_splits
    dest!: next_chunk_left)

section \<open>Primitive types\<close>

text \<open>A load through \<open>m_next\<close> that advances it, and the value of the octets: in host order, or
  octet by octet in reverse when the stream has the other byte order.\<close>

definition get_bytes :: "nat \<Rightarrow> iter \<Rightarrow> (octet list \<times> iter) res" where
  "get_bytes n it =
     rbind (load (cur_chunk it) (m_next it) n) (\<lambda>bs. Inr (bs, it\<lparr>m_next := m_next it + n\<rparr>))"

definition swapped_val :: "iter \<Rightarrow> octet list \<Rightarrow> nat" where
  "swapped_val it bs = host_val (local_byte_order it) (if m_byte_swap it then rev bs else bs)"

definition read_octet :: "iter \<Rightarrow> (octet \<times> iter) res" where
  "read_octet it =
     rbind (in_alignment OCTET_SIZE it) (\<lambda>it.
     rbind (get_bytes 1 it) (\<lambda>(bs, it). Inr (hd bs, it)))"

definition read_boolean :: "iter \<Rightarrow> (bool \<times> iter) res" where
  "read_boolean it = rbind (read_octet it) (\<lambda>(v, it). Inr (v \<noteq> 0, it))"

definition read_char :: "iter \<Rightarrow> (octet \<times> iter) res" where
  "read_char it = read_octet it"

definition read_short :: "iter \<Rightarrow> (ushort \<times> iter) res" where
  "read_short it =
     rbind (in_alignment SHORT_SIZE it) (\<lambda>it.
     rbind (get_bytes SHORT_SIZE it) (\<lambda>(bs, it). Inr (word_of_nat (swapped_val it bs), it)))"

definition read_ushort :: "iter \<Rightarrow> (ushort \<times> iter) res" where
  "read_ushort it =
     rbind (in_alignment SHORT_SIZE it) (\<lambda>it.
     rbind (get_bytes SHORT_SIZE it) (\<lambda>(bs, it). Inr (word_of_nat (swapped_val it bs), it)))"

definition read_wchar :: "iter \<Rightarrow> (ulong \<times> iter) res" where
  "read_wchar it = rbind (read_ushort it) (\<lambda>(v, it). Inr (ucast v, it))"

definition read_long :: "iter \<Rightarrow> (ulong \<times> iter) res" where
  "read_long it =
     rbind (in_alignment LONG_SIZE it) (\<lambda>it.
     rbind (get_bytes LONG_SIZE it) (\<lambda>(bs, it). Inr (word_of_nat (swapped_val it bs), it)))"

definition read_ulong :: "iter \<Rightarrow> (ulong \<times> iter) res" where
  "read_ulong it =
     rbind (in_alignment LONG_SIZE it) (\<lambda>it.
     rbind (get_bytes LONG_SIZE it) (\<lambda>(bs, it). Inr (word_of_nat (swapped_val it bs), it)))"

definition read_float :: "iter \<Rightarrow> (ulong \<times> iter) res" where
  "read_float it =
     rbind (in_alignment LONG_SIZE it) (\<lambda>it.
     rbind (get_bytes LONG_SIZE it) (\<lambda>(bs, it). Inr (word_of_nat (swapped_val it bs), it)))"

definition read_longlong :: "iter \<Rightarrow> (ulonglong \<times> iter) res" where
  "read_longlong it =
     rbind (in_alignment LONGLONG_SIZE it) (\<lambda>it.
     rbind (get_bytes LONGLONG_SIZE it) (\<lambda>(bs, it). Inr (word_of_nat (swapped_val it bs), it)))"

definition read_ulonglong :: "iter \<Rightarrow> (ulonglong \<times> iter) res" where
  "read_ulonglong it = read_longlong it"

definition read_double :: "iter \<Rightarrow> (ulonglong \<times> iter) res" where
  "read_double it =
     rbind (in_alignment LONGLONG_SIZE it) (\<lambda>it.
     rbind (get_bytes LONGLONG_SIZE it) (\<lambda>(bs, it). Inr (word_of_nat (swapped_val it bs), it)))"

definition read_longdouble :: "iter \<Rightarrow> (longdouble \<times> iter) res" where
  "read_longdouble it =
     rbind (in_alignment LONGLONG_SIZE it) (\<lambda>it.
     rbind (get_bytes LONG_DOUBLE_SIZE it) (\<lambda>(bs, it). Inr (word_of_nat (swapped_val it bs), it)))"

section \<open>Octet arrays and strings\<close>

function read_octet_array :: "nat \<Rightarrow> iter \<Rightarrow> (octet list \<times> iter) res" where
  "read_octet_array remain_data it =
     (if remain_data > 0 then
        rbind (in_alignment OCTET_SIZE it) (\<lambda>it1.
        let chunk_available = unat (available it1);
            octets_can_read = (if remain_data < chunk_available then remain_data else chunk_available) in
        rbind (get_bytes octets_can_read it1) (\<lambda>(bs, it2).
          if remain_data - octets_can_read > 0 then
            rbind (next_chunk (it1\<lparr>m_next := m_next it1 + octets_can_read\<rparr>)) (\<lambda>it3.
            rbind (read_octet_array (remain_data - octets_can_read) it3) (\<lambda>(cs, it4). Inr (bs @ cs, it4)))
          else Inr (bs, it2)))
      else Inr ([], it))"
  by pat_completeness auto
termination
proof (relation "measure (\<lambda>(n, it). chunks_left it)", goal_cases)
  case 1
  show ?case by simp
next
  case (2 n it it1 a o' p bs it2 it3)
  then have "chunks_left it3 < chunks_left it1" by (auto dest: next_chunk_left)
  with 2 show ?case by (auto dest: in_alignment_left)
qed

declare read_octet_array.simps [simp del]

definition read_string :: "iter \<Rightarrow> (octet list \<times> iter) res" where
  "read_string it =
     rbind (read_ulong it) (\<lambda>(len, it). if len = 0 then Inl MARSHAL else read_octet_array (unat len) it)"

definition read_string_bounded :: "ulong \<Rightarrow> iter \<Rightarrow> (octet list \<times> iter) res" where
  "read_string_bounded bound it =
     rbind (read_ulong it) (\<lambda>(len, it).
       if len = 0 then Inl MARSHAL
       else if len > bound + 1 then Inl BAD_PARAM else read_octet_array (unat len) it)"

fun read_wchar_array :: "nat \<Rightarrow> iter \<Rightarrow> (ulong list \<times> iter) res" where
  "read_wchar_array 0 it = Inr ([], it)"
| "read_wchar_array (Suc n) it =
     rbind (read_wchar it) (\<lambda>(w, it). rbind (read_wchar_array n it) (\<lambda>(ws, it). Inr (w # ws, it)))"

fun read_string_array :: "nat \<Rightarrow> iter \<Rightarrow> (octet list list \<times> iter) res" where
  "read_string_array 0 it = Inr ([], it)"
| "read_string_array (Suc n) it =
     rbind (read_string it) (\<lambda>(s, it). rbind (read_string_array n it) (\<lambda>(ss, it). Inr (s # ss, it)))"

section \<open>Skipping\<close>

definition skip_type :: "nat \<Rightarrow> iter \<Rightarrow> iter res" where
  "skip_type n it = rbind (in_alignment n it) (\<lambda>it. Inr (it\<lparr>m_next := m_next it + n\<rparr>))"

function in_skip :: "nat \<Rightarrow> iter \<Rightarrow> iter res" where
  "in_skip n it =
     (let chunk_left = unat (available it) in
      if n \<le> chunk_left then Inr (it\<lparr>m_next := m_next it + n\<rparr>)
      else rbind (next_chunk it) (\<lambda>it'. in_skip (n - chunk_left) it'))"
  by pat_completeness auto
termination
  by (relation "measure (\<lambda>(n, it). chunks_left it)") (auto dest: next_chunk_left)

declare in_skip.simps [simp del]

function skip_type_array :: "nat \<Rightarrow> nat \<Rightarrow> iter \<Rightarrow> iter res" where
  "skip_type_array remain_data type_length it =
     (if remain_data > 0 then
        rbind (in_alignment type_length it) (\<lambda>it1.
        let octets = unat (of_nat remain_data * of_nat type_length :: ulong);
            chunk_available = unat (available it1);
            octets_can_skip = (if octets < chunk_available then octets else chunk_available);
            remain = remain_data - octets_can_skip div type_length;
            it2 = it1\<lparr>m_next := m_next it1 + octets_can_skip\<rparr> in
        if remain > 0 then rbind (next_chunk it2) (\<lambda>it3. skip_type_array remain type_length it3)
        else Inr it2)
      else Inr it)"
  by pat_completeness auto
termination
proof (relation "measure (\<lambda>(n, t, it). chunks_left it)", goal_cases)
  case 1
  show ?case by simp
next
  case (2 n t it it1 a b c d it2 it3)
  then have "chunks_left it3 < chunks_left it1" by (auto dest: next_chunk_left)
  with 2 show ?case by (auto dest: in_alignment_left)
qed

declare skip_type_array.simps [simp del]

definition skip_string :: "iter \<Rightarrow> iter res" where
  "skip_string it = rbind (read_ulong it) (\<lambda>(len, it). in_skip (unat len) it)"

definition skip_wstring :: "iter \<Rightarrow> iter res" where
  "skip_wstring it = rbind (read_ulong it) (\<lambda>(len, it). in_skip (unat len) it)"

fun skip_string_array :: "nat \<Rightarrow> iter \<Rightarrow> iter res" where
  "skip_string_array 0 it = Inr it"
| "skip_string_array (Suc n) it = rbind (skip_string it) (skip_string_array n)"

definition skip_Context :: "iter \<Rightarrow> iter res" where
  "skip_Context it = rbind (read_ulong it) (\<lambda>(n, it). skip_string_array (unat n) it)"

definition skip_encapsulation :: "iter \<Rightarrow> iter res" where
  "skip_encapsulation it = rbind (read_ulong it) (\<lambda>(len, it). in_skip (unat len) it)"

definition read_wstring :: "iter \<Rightarrow> (ulong list \<times> iter) res" where
  "read_wstring it =
     rbind (read_ulong it) (\<lambda>(len, it).
       let real_length = (if m_version it = VERSION_1_2 then len div of_nat WCHAR_SIZE else len) in
       if real_length = 0 then rbind (skip_type WCHAR_SIZE it) (\<lambda>it. Inr ([0], it))
       else read_wchar_array (unat real_length) it)"

section \<open>Arrays of numbers\<close>

text \<open>
  The body that \<^verbatim>\<open>read_short_array\<close>, \<^verbatim>\<open>read_long_array\<close>, \<^verbatim>\<open>read_longlong_array\<close> and
  \<^verbatim>\<open>read_longdouble_array\<close> repeat for their size. \<open>dest\<close> is the memory of the caller from the pointer
  \<^verbatim>\<open>sp\<close> on. When the octets are swapped, every value of a round is written to the same place, since
  \<^verbatim>\<open>sp\<close> is advanced only after the round.
\<close>

definition overwrite :: "octet list \<Rightarrow> octet list \<Rightarrow> octet list" where
  "overwrite bs dest = bs @ drop (length bs) dest"

fun swap_round :: "nat \<Rightarrow> nat \<Rightarrow> octet list \<Rightarrow> iter \<Rightarrow> (octet list \<times> iter) res" where
  "swap_round 0 n dest it = Inr (dest, it)"
| "swap_round (Suc k) n dest it =
     rbind (get_bytes n it) (\<lambda>(bs, it). swap_round k n (overwrite (rev bs) dest) it)"

definition array_round :: "nat \<Rightarrow> nat \<Rightarrow> octet list \<Rightarrow> iter \<Rightarrow> (octet list \<times> iter) res" where
  "array_round octets_can_read n dest it =
     (if m_byte_swap it then swap_round (octets_can_read div n) n dest it
      else rbind (get_bytes octets_can_read it) (\<lambda>(bs, it). Inr (overwrite bs dest, it)))"

lemma get_bytes_left: "get_bytes n it = Inr (bs, it') \<Longrightarrow> chunks_left it' = chunks_left it"
  by (auto simp: get_bytes_def)

lemma swap_round_left: "swap_round k n dest it = Inr (d, it') \<Longrightarrow> chunks_left it' = chunks_left it"
  by (induction k arbitrary: dest it) (auto dest!: get_bytes_left)

lemma array_round_left: "array_round o' n dest it = Inr (d, it') \<Longrightarrow> chunks_left it' = chunks_left it"
  by (auto simp: array_round_def split: if_splits dest: swap_round_left get_bytes_left)

function read_data_array :: "nat \<Rightarrow> nat \<Rightarrow> nat \<Rightarrow> octet list \<Rightarrow> iter \<Rightarrow> (octet list \<times> iter) res" where
  "read_data_array al n remain_data dest it =
     (if remain_data > 0 then
        rbind (in_alignment al it) (\<lambda>it1.
        let octets = unat (of_nat remain_data * of_nat n :: ulong);
            chunk_available = unat (available it1);
            octets_can_read = (if octets < chunk_available then octets else chunk_available);
            remain = remain_data - octets_can_read div n in
        rbind (array_round octets_can_read n dest it1) (\<lambda>(dest', it2).
          if remain > 0 then
            rbind (next_chunk it2) (\<lambda>it3.
            rbind (read_data_array al n remain (drop octets_can_read dest') it3) (\<lambda>(rest, it4).
              Inr (take octets_can_read dest' @ rest, it4)))
          else Inr (dest', it2)))
      else Inr (dest, it))"
  by pat_completeness auto
termination
proof (relation "measure (\<lambda>(al, n, r, d, it). chunks_left it)", goal_cases)
  case 1
  show ?case by simp
next
  case (2 al n r d it it1 a b c rm p d' it2 it3)
  then have "chunks_left it3 < chunks_left it1"
    by (auto dest!: next_chunk_left array_round_left)
  with 2 show ?case by (auto dest: in_alignment_left)
qed

declare read_data_array.simps [simp del]

definition read_short_array :: "nat \<Rightarrow> octet list \<Rightarrow> iter \<Rightarrow> (octet list \<times> iter) res" where
  "read_short_array len dest it = read_data_array SHORT_SIZE SHORT_SIZE len dest it"

definition read_long_array :: "nat \<Rightarrow> octet list \<Rightarrow> iter \<Rightarrow> (octet list \<times> iter) res" where
  "read_long_array len dest it = read_data_array LONG_SIZE LONG_SIZE len dest it"

definition read_longlong_array :: "nat \<Rightarrow> octet list \<Rightarrow> iter \<Rightarrow> (octet list \<times> iter) res" where
  "read_longlong_array len dest it = read_data_array LONGLONG_SIZE LONGLONG_SIZE len dest it"

definition read_longdouble_array :: "nat \<Rightarrow> octet list \<Rightarrow> iter \<Rightarrow> (octet list \<times> iter) res" where
  "read_longdouble_array len dest it = read_data_array LONGLONG_SIZE LONG_DOUBLE_SIZE len dest it"

definition read_ushort_array :: "nat \<Rightarrow> octet list \<Rightarrow> iter \<Rightarrow> (octet list \<times> iter) res" where
  "read_ushort_array len dest it = read_short_array len dest it"

definition read_ulong_array :: "nat \<Rightarrow> octet list \<Rightarrow> iter \<Rightarrow> (octet list \<times> iter) res" where
  "read_ulong_array len dest it = read_long_array len dest it"

definition read_ulonglong_array :: "nat \<Rightarrow> octet list \<Rightarrow> iter \<Rightarrow> (octet list \<times> iter) res" where
  "read_ulonglong_array len dest it = read_longlong_array len dest it"

definition read_float_array :: "nat \<Rightarrow> octet list \<Rightarrow> iter \<Rightarrow> (octet list \<times> iter) res" where
  "read_float_array len dest it = read_long_array len dest it"

definition read_double_array :: "nat \<Rightarrow> octet list \<Rightarrow> iter \<Rightarrow> (octet list \<times> iter) res" where
  "read_double_array len dest it = read_longlong_array len dest it"

definition read_boolean_array :: "nat \<Rightarrow> iter \<Rightarrow> (octet list \<times> iter) res" where
  "read_boolean_array len it = read_octet_array len it"

definition read_char_array :: "nat \<Rightarrow> iter \<Rightarrow> (octet list \<times> iter) res" where
  "read_char_array len it = read_octet_array len it"

fun read_wstring_array :: "nat \<Rightarrow> iter \<Rightarrow> (ulong list list \<times> iter) res" where
  "read_wstring_array 0 it = Inr ([], it)"
| "read_wstring_array (Suc n) it =
     rbind (read_wstring it) (\<lambda>(s, it). rbind (read_wstring_array n it) (\<lambda>(ss, it). Inr (s # ss, it)))"

fun skip_wstring_array :: "nat \<Rightarrow> iter \<Rightarrow> iter res" where
  "skip_wstring_array 0 it = Inr it"
| "skip_wstring_array (Suc n) it = rbind (skip_wstring it) (skip_wstring_array n)"

definition read_Principal :: "iter \<Rightarrow> (octet list \<times> iter) res" where
  "read_Principal it = read_string it"

section \<open>Indirections and encapsulations\<close>

text \<open>\<^verbatim>\<open>read_indirection\<close>. \<^verbatim>\<open>CDR::LONG_SIZE\<close> is unsigned, so the comparison of the offset with its
  negation is an unsigned one, and the test for a negative position is never true.\<close>

definition read_indirection :: "iter \<Rightarrow> (abs_position \<times> iter) res" where
  "read_indirection it =
     rbind (in_alignment LONG_SIZE it) (\<lambda>it.
     rbind (get_absolute_position it) (\<lambda>current_position.
     rbind (read_long it) (\<lambda>(offset, it).
       if offset \<ge> - of_nat LONG_SIZE then Inl MARSHAL
       else Inr (current_position + offset, it))))"

definition CDRInputStream :: "bool \<Rightarrow> buffer \<Rightarrow> iter res" where
  "CDRInputStream local_order b =
     rbind (IteratorCDR local_order b) (\<lambda>it. Inr (it\<lparr>m_byte_order := buf_byte_order b\<rparr>))"

definition read_encapsulation :: "malloc \<Rightarrow> iter \<Rightarrow> (iter \<times> iter) res" where
  "read_encapsulation malloc it =
     rbind (read_ulong it) (\<lambda>(len, it).
     rbind (in_alignment OCTET_SIZE it) (\<lambda>it.
     rbind (get_absolute_position it) (\<lambda>absolute_position.
     rbind (BufferCDR malloc (local_byte_order it) len (Some (m_context (m_bufferCDR it))) absolute_position) (\<lambda>b.
     rbind (read_octet_array (unat len) it) (\<lambda>(bs, it).
     rbind (store (m_chunks b ! 0) (m_buffer (m_chunks b ! 0)) bs) (\<lambda>c.
     rbind (set_available_bytes (b\<lparr>m_chunks := [c]\<rparr>) len) (\<lambda>b.
     rbind (CDRInputStream (local_byte_order it) b) (\<lambda>input.
     rbind (read_boolean input) (\<lambda>(byte_order, input).
       let input = set_byte_order byte_order input in
       Inr (input\<lparr>m_bufferCDR := (m_bufferCDR input)\<lparr>buf_byte_order := byte_order\<rparr>\<rparr>, it))))))))))"

text \<open>\<^verbatim>\<open>read_indirected_string\<close>; the string is kept in the context under its position.\<close>

definition octets_string :: "octet list \<Rightarrow> string" where
  "octets_string bs = map (\<lambda>b. char_of (unat b)) (takeWhile (\<lambda>b. b \<noteq> 0) bs)"

definition read_indirected_string :: "iter \<Rightarrow> (string \<times> iter) res" where
  "read_indirected_string it =
     rbind (in_alignment LONG_SIZE it) (\<lambda>it.
     rbind (get_absolute_position it) (\<lambda>id_position.
     rbind (read_long it) (\<lambda>(tag, it).
       if tag = INDIRECTION_TAG then
         rbind (read_indirection it) (\<lambda>(str_position, it).
         rbind (ctx_lookup_string str_position (m_context (m_bufferCDR it))) (\<lambda>s. Inr (s, it)))
       else if sint tag > 0 then
         rbind (read_octet_array (unat tag) it) (\<lambda>(bs, it).
         rbind (ctx_put_str id_position (octets_string bs) (m_context (m_bufferCDR it))) (\<lambda>c.
           Inr (octets_string bs, it\<lparr>m_bufferCDR := (m_bufferCDR it)\<lparr>m_context := c\<rparr>\<rparr>)))
       else Inl MARSHAL)))"

fun read_ids :: "nat \<Rightarrow> iter \<Rightarrow> (string list \<times> iter) res" where
  "read_ids 0 it = Inr ([], it)"
| "read_ids (Suc n) it =
     rbind (read_indirected_string it) (\<lambda>(i, it). rbind (read_ids n it) (\<lambda>(is, it). Inr (i # is, it)))"

definition read_code_base_url :: "ulong \<Rightarrow> iter \<Rightarrow> (string option \<times> iter) res" where
  "read_code_base_url tag it =
     (if tag AND CODE_BASE_BIT = 0 then Inr (None, it)
      else rbind (in_alignment LONG_SIZE it) (\<lambda>it.
        rbind (read_indirected_string it) (\<lambda>(u, it). Inr (Some u, it))))"

definition read_type_info :: "ulong \<Rightarrow> string list \<Rightarrow> iter \<Rightarrow> (string list \<times> iter) res" where
  "read_type_info tag ids it =
     (if tag AND REPOSITORY_ID_LIST = REPOSITORY_ID_LIST
      then rbind (read_long it) (\<lambda>(len, it). read_ids (unat len) it)
      else if tag AND SINGLE_REPOSITORY_ID = SINGLE_REPOSITORY_ID
      then rbind (read_indirected_string it) (\<lambda>(i, it). Inr ([i], it))
      else Inr (ids, it))"

definition vti_read :: "value_type_info \<Rightarrow> iter \<Rightarrow> (value_type_info \<times> iter) res" where
  "vti_read i it =
     rbind (read_long it) (\<lambda>(tag, it).
       let i = i\<lparr>m_value := None, m_value_tag := tag\<rparr> in
       if tag \<noteq> INDIRECTION_TAG \<and> tag \<noteq> NULL_TAG then
         rbind (read_code_base_url tag it) (\<lambda>(url, it).
         rbind (read_type_info tag (m_repository_ids i) it) (\<lambda>(ids, it).
           Inr (i\<lparr>m_code_base_url := url, m_repository_ids := ids\<rparr>, it)))
       else Inr (i, it))"

end
