(* ===== verification/Cdr_Stream.thy ===== *)
theory Cdr_Stream
  imports Cdr_Output Cdr_Input
begin

text \<open>
  The abstract view of CDR streams: a sequence of octets that is independent of how it is cut into
  chunks and of where the chunks are in memory. \<open>out_data\<close> is what an output stream has written,
  \<open>in_data\<close> what an input stream can read and \<open>in_pos\<close> how far it has come. The lemmas show that
  alignment, stores, loads and the moves between chunks refine padding, appending and taking octets of
  that sequence.
\<close>

section \<open>The abstraction\<close>

definition chunk_upto :: "chunk \<Rightarrow> nat \<Rightarrow> octet list" where
  "chunk_upto c a = take (a - m_buffer c) (drop (m_buffer c - m_real_buffer c) (m_bytes c))"

definition data_before :: "iter \<Rightarrow> octet list" where
  "data_before it = concat (map chunk_data (take (m_chunk it) (m_chunks (m_bufferCDR it))))"

definition out_data :: "iter \<Rightarrow> octet list" where
  "out_data it = data_before it @ chunk_upto (cur_chunk it) (m_next it)"

definition in_data :: "iter \<Rightarrow> octet list" where
  "in_data it = concat (map chunk_data (m_chunks (m_bufferCDR it)))"

definition in_pos :: "iter \<Rightarrow> nat" where
  "in_pos it = length (data_before it) + (m_next it - m_buffer (cur_chunk it))"

definition chunk_full :: "chunk \<Rightarrow> bool" where
  "chunk_full c \<longleftrightarrow> m_available_end c = m_buffer_end c"

definition chunk_empty :: "chunk \<Rightarrow> bool" where
  "chunk_empty c \<longleftrightarrow> m_available_end c = m_buffer c"

text \<open>An output stream in the middle of a message: it appends, the chunks before the current one are
  full and those after it are empty.\<close>

definition out_ok :: "iter \<Rightarrow> bool" where
  "out_ok it \<longleftrightarrow> iter_wf it \<and> iter_al it \<and>
     (\<forall>c \<in> set (m_chunks (m_bufferCDR it)). size_ok (m_length c)) \<and>
     size_ok (m_chunk_size (m_bufferCDR it)) \<and> unat (m_chunk_size (m_bufferCDR it)) mod 8 = 0 \<and>
     8 \<le> unat (m_chunk_size (m_bufferCDR it)) \<and>
     (\<forall>i < m_chunk it. chunk_full (m_chunks (m_bufferCDR it) ! i)) \<and>
     m_available_end (cur_chunk it) \<le> m_next it \<and>
     (\<forall>i < length (m_chunks (m_bufferCDR it)). m_chunk it < i \<longrightarrow> chunk_empty (m_chunks (m_bufferCDR it) ! i))"

text \<open>All that was written is available.\<close>

definition settled :: "iter \<Rightarrow> bool" where
  "settled it \<longleftrightarrow> m_available_end (cur_chunk it) = m_next it"

text \<open>A buffer that can be read as one sequence: a chunk that is followed by data is full and its size is
  a multiple of eight. The last chunk with data may have any size.\<close>

definition packed :: "chunk list \<Rightarrow> bool" where
  "packed cs \<longleftrightarrow> (\<forall>i < length cs. \<forall>j < length cs.
     i < j \<and> \<not> chunk_empty (cs ! j) \<longrightarrow> chunk_full (cs ! i) \<and> chunk_al (cs ! i))"

definition in_ok :: "iter \<Rightarrow> bool" where
  "in_ok it \<longleftrightarrow> iter_wf it \<and> packed (m_chunks (m_bufferCDR it)) \<and>
     (\<forall>c \<in> set (m_chunks (m_bufferCDR it)). size_ok (m_length c)) \<and>
     m_next it \<le> m_available_end (cur_chunk it)"

section \<open>Facts about the pieces\<close>

lemma chunk_data_upto: "chunk_data c = chunk_upto c (m_available_end c)"
  by (simp add: chunk_data_def chunk_upto_def)

lemma length_chunk_upto:
  assumes "chunk_wf c" "m_buffer c \<le> a" "a \<le> m_buffer_end c"
  shows "length (chunk_upto c a) = a - m_buffer c"
  using assms by (auto simp: chunk_upto_def chunk_wf_def)

lemma length_chunk_data: "chunk_wf c \<Longrightarrow> length (chunk_data c) = m_available_end c - m_buffer c"
  by (simp add: chunk_data_upto length_chunk_upto chunk_wf_def)

lemma chunk_upto_start [simp]: "chunk_upto c (m_buffer c) = []"
  by (simp add: chunk_upto_def)

lemma chunk_upto_set_available [simp]: "chunk_upto (set_available_end c p) a = chunk_upto c a"
  by (simp add: chunk_upto_def)

lemma chunk_upto_extend:
  assumes "chunk_wf c" "m_buffer c \<le> a" "a \<le> b" "b \<le> m_buffer_end c"
  shows "\<exists>pad. chunk_upto c b = chunk_upto c a @ pad \<and> length pad = b - a"
proof -
  let ?xs = "drop (m_buffer c - m_real_buffer c) (m_bytes c)"
  let ?pad = "take (b - a) (drop (a - m_buffer c) ?xs)"
  have "(b - m_buffer c) - (a - m_buffer c) = b - a" using assms by simp
  then have "take (b - m_buffer c) ?xs = take (a - m_buffer c) ?xs @ ?pad"
    using take_split [of "a - m_buffer c" "b - m_buffer c" ?xs] assms by (simp add: diff_le_mono)
  moreover have "length ?pad = b - a" using assms by (auto simp: chunk_wf_def)
  ultimately show ?thesis unfolding chunk_upto_def by blast
qed

lemma chunk_upto_store:
  assumes "chunk_wf c" "m_buffer c \<le> a" "store c a bs = Inr c'"
  shows "chunk_upto c' (a + length bs) = chunk_upto c a @ bs"
proof -
  from assms obtain i where i: "i = a - m_real_buffer c" "i + length bs \<le> length (m_bytes c)"
    "m_bytes c' = take i (m_bytes c) @ bs @ drop (i + length bs) (m_bytes c)"
    "m_real_buffer c \<le> m_buffer c"
    by (auto simp: store_def Let_def chunk_wf_def split: if_splits)
  from assms(3) have f: "m_buffer c' = m_buffer c" "m_real_buffer c' = m_real_buffer c"
    by (auto dest: store_frame)
  let ?d = "m_buffer c - m_real_buffer c"
  have "drop ?d (m_bytes c') = drop ?d (take i (m_bytes c)) @ bs @ drop (i + length bs) (m_bytes c)"
    using i assms by simp
  moreover have "drop ?d (take i (m_bytes c)) = take (a - m_buffer c) (drop ?d (m_bytes c))"
    using i assms by (simp add: drop_take)
  moreover have "length (take (a - m_buffer c) (drop ?d (m_bytes c))) = a - m_buffer c"
    using i assms by simp
  ultimately show ?thesis using f assms by (simp add: chunk_upto_def)
qed

lemma load_chunk_upto:
  assumes "chunk_wf c" "m_buffer c \<le> a" "a + n \<le> m_buffer_end c"
  shows "load c a n = Inr (take n (drop (a - m_buffer c) (drop (m_buffer c - m_real_buffer c) (m_bytes c))))"
  using assms by (auto simp: load_def Let_def chunk_wf_def)

text \<open>A load inside the available part of a chunk takes octets of its data.\<close>

lemma load_chunk_data:
  assumes "chunk_wf c" "m_buffer c \<le> a" "a + n \<le> m_available_end c"
  shows "load c a n = Inr (take n (drop (a - m_buffer c) (chunk_data c)))"
proof -
  have "a + n \<le> m_buffer_end c" using assms by (simp add: chunk_wf_def)
  with assms show ?thesis
    by (auto simp: load_chunk_upto chunk_data_def drop_take min_def)
qed

section \<open>The output stream appends\<close>

text \<open>What every step of a write keeps of the stream.\<close>

definition same_mode :: "iter \<Rightarrow> iter \<Rightarrow> bool" where
  "same_mode it it' \<longleftrightarrow> local_byte_order it' = local_byte_order it \<and> m_byte_order it' = m_byte_order it \<and>
     m_byte_swap it' = m_byte_swap it \<and> m_version it' = m_version it \<and> m_message it' = m_message it \<and>
     m_context (m_bufferCDR it') = m_context (m_bufferCDR it)"

lemma same_mode_refl [simp]: "same_mode it it"
  by (simp add: same_mode_def)

lemma same_mode_trans: "same_mode a b \<Longrightarrow> same_mode b c \<Longrightarrow> same_mode a c"
  by (simp add: same_mode_def)

lemma same_mode_upd [simp]: "same_mode it (upd_chunk it c)" "same_mode it (it\<lparr>m_next := p\<rparr>)"
  "same_mode it ((upd_chunk it c)\<lparr>m_next := p\<rparr>)"
  by (simp_all add: same_mode_def upd_chunk_def)

lemma out_get_next_chunk_result:
  assumes "out_get_next_chunk malloc it = Inr it'" and "m_current_chunk_num it = m_chunk it"
  defines "cs \<equiv> (m_chunks (m_bufferCDR it))[m_chunk it := set_available_end (cur_chunk it) (m_buffer_end (cur_chunk it))]"
  shows "same_mode it it' \<and> m_current_chunk_num it' = m_chunk it' \<and> m_chunk it' = Suc (m_chunk it) \<and>
    m_chunk it' < length (m_chunks (m_bufferCDR it')) \<and> m_next it' = m_buffer (cur_chunk it') \<and>
    m_chunk_size (m_bufferCDR it') = m_chunk_size (m_bufferCDR it) \<and>
    (m_chunks (m_bufferCDR it') = cs \<or>
     (\<exists>d. m_chunks (m_bufferCDR it') = cs @ [d] \<and> Suc (m_chunk it) = length cs \<and>
        ChunkCDR malloc (length cs) (m_chunk_size (m_bufferCDR it)) = Inr d))"
  using assms(1,2) unfolding cs_def out_get_next_chunk_def
  by (auto simp: Let_def next_chunk_def grow_def add_chunk_def get_num_chunks_def cur_chunk_def
      same_mode_def upd_chunk_def split: if_splits)

lemma out_get_next_chunk_next: "out_get_next_chunk malloc (it\<lparr>m_next := p\<rparr>) = out_get_next_chunk malloc it"
  by (cases it) (auto simp: out_get_next_chunk_def upd_chunk_def next_chunk_def Let_def cur_chunk_def
      intro!: rbind_cong)

lemma out_get_next_chunk_error:
  assumes "out_ok it" "out_get_next_chunk malloc it = Inl e"
  shows "alloc_failure malloc e"
proof -
  have "m_chunk_size (m_bufferCDR it) > 0"
    using assms(1) by (auto simp: out_ok_def word_gt_0)
  with assms show ?thesis unfolding out_ok_def iter_wf_def out_get_next_chunk_def
    by (auto simp: Let_def rbind_eq_Inl next_chunk_def grow_def add_chunk_def get_num_chunks_def
      ChunkCDR_def split: if_splits option.splits intro: alloc_failureI)
qed

text \<open>The chunk list after the move: the chunk that is left is full, everything else is kept and a new
  chunk is empty.\<close>

lemma out_get_next_chunk_chunks:
  assumes "malloc_ok malloc" "out_ok it" "out_get_next_chunk malloc it = Inr it'"
  defines "cs \<equiv> m_chunks (m_bufferCDR it)" and "ds \<equiv> m_chunks (m_bufferCDR it')"
  shows "\<forall>i < length ds. chunk_wf (ds ! i) \<and> chunk_al (ds ! i) \<and> size_ok (m_length (ds ! i))"
    and "\<forall>i < length ds. m_chunk it < i \<longrightarrow> chunk_empty (ds ! i)"
    and "ds ! m_chunk it = set_available_end (cur_chunk it) (m_buffer_end (cur_chunk it))"
    and "\<forall>i < m_chunk it. ds ! i = cs ! i"
    and "length cs \<le> length ds"
proof -
  let ?k = "m_chunk it" and ?c = "set_available_end (cur_chunk it) (m_buffer_end (cur_chunk it))"
  let ?s = "m_chunk_size (m_bufferCDR it)"
  from assms(2) have k: "?k < length cs" "m_current_chunk_num it = ?k"
    and s: "size_ok ?s" "unat ?s mod 8 = 0" "8 \<le> unat ?s"
    by (auto simp: out_ok_def iter_wf_def cs_def)
  from assms(2) have P: "\<forall>i < length cs. chunk_wf (cs ! i) \<and> chunk_al (cs ! i) \<and> size_ok (m_length (cs ! i))"
    by (auto simp: out_ok_def iter_wf_def iter_al_def cs_def)
  from assms(2) have E: "\<forall>i < length cs. ?k < i \<longrightarrow> chunk_empty (cs ! i)"
    by (simp add: out_ok_def cs_def)
  have new: "chunk_wf d \<and> chunk_al d \<and> size_ok (m_length d) \<and> chunk_empty d"
    if "ChunkCDR malloc n ?s = Inr d" for n d
    using ChunkCDR_wf [OF assms(1) s(1) that] s by (simp add: chunk_al_def chunk_empty_def)
  have c: "chunk_wf ?c \<and> chunk_al ?c \<and> size_ok (m_length ?c)"
    using P k by (auto intro!: set_available_end_wf simp: cur_chunk_def cs_def chunk_al_def)
  from out_get_next_chunk_result [OF assms(3) k(2)]
  have ds: "ds = cs[?k := ?c] \<or> (\<exists>d n. ds = cs[?k := ?c] @ [d] \<and> Suc ?k = length cs \<and> ChunkCDR malloc n ?s = Inr d)"
    by (auto simp: cs_def ds_def)
  show "\<forall>i < length ds. chunk_wf (ds ! i) \<and> chunk_al (ds ! i) \<and> size_ok (m_length (ds ! i))"
    using ds P c k by (auto simp: nth_append nth_list_update dest!: new)
  show "\<forall>i < length ds. ?k < i \<longrightarrow> chunk_empty (ds ! i)"
    using ds E k by (auto simp: nth_append nth_list_update dest!: new)
  show "ds ! ?k = ?c" "\<forall>i < ?k. ds ! i = cs ! i" "length cs \<le> length ds"
    using ds k by (auto simp: nth_append)
qed

lemma out_get_next_chunk_step:
  assumes "malloc_ok malloc" "out_ok it" "out_get_next_chunk malloc it = Inr it'"
    "m_next it = m_buffer_end (cur_chunk it)"
  shows "out_ok it' \<and> settled it' \<and> same_mode it it' \<and> out_data it' = out_data it \<and>
    m_next it' = m_buffer (cur_chunk it')"
proof -
  let ?k = "m_chunk it" and ?cs = "m_chunks (m_bufferCDR it)" and ?ds = "m_chunks (m_bufferCDR it')"
  let ?c = "set_available_end (cur_chunk it) (m_buffer_end (cur_chunk it))"
  from assms(2) have k: "?k < length ?cs" "m_current_chunk_num it = ?k"
    and w: "chunk_wf (cur_chunk it)"
    by (auto simp: out_ok_def iter_wf_def cur_chunk_def)
  note R = out_get_next_chunk_result [OF assms(3) k(2)]
  note C = out_get_next_chunk_chunks [OF assms(1-3)]
  from R have kk: "m_chunk it' = Suc ?k" "Suc ?k < length ?ds" "m_next it' = m_buffer (cur_chunk it')"
    "m_current_chunk_num it' = Suc ?k" by auto
  have full: "chunk_full ?c" using w by (simp add: chunk_full_def set_available_end_def chunk_wf_def)
  have cur: "chunk_wf (cur_chunk it')" "chunk_empty (cur_chunk it')"
    using C(1,2) kk by (simp_all add: cur_chunk_def)
  have before: "take ?k ?ds = take ?k ?cs"
    using C(4,5) k by (intro nth_equalityI) auto
  have "chunk_data ?c = chunk_upto (cur_chunk it) (m_next it)"
    using full assms(4) by (simp add: chunk_data_upto chunk_full_def)
  with before C(3) kk have data: "out_data it' = out_data it"
    by (simp add: out_data_def data_before_def take_Suc_conv_app_nth)
  have "\<forall>i < m_chunk it'. chunk_full (?ds ! i)"
    using C(3,4) full assms(2) kk by (auto simp: less_Suc_eq out_ok_def)
  moreover have "iter_wf it'" "iter_al it'" "\<forall>c \<in> set ?ds. size_ok (m_length c)"
    using C(1) kk cur by (auto simp: iter_wf_def iter_al_def all_set_conv_all_nth chunk_wf_def [of "cur_chunk it'"])
  moreover have "settled it'" using cur kk by (simp add: settled_def chunk_empty_def)
  ultimately show ?thesis
    using C(2) R data assms(2) kk cur(2) by (simp add: out_ok_def settled_def)
qed

lemma length_data_before:
  assumes "\<forall>c \<in> set (m_chunks (m_bufferCDR it)). chunk_wf c" "m_chunk it \<le> length (m_chunks (m_bufferCDR it))"
    "\<forall>i < m_chunk it. chunk_full (m_chunks (m_bufferCDR it) ! i) \<and> chunk_al (m_chunks (m_bufferCDR it) ! i)"
  shows "length (data_before it) mod 8 = 0"
proof -
  have "length (concat (map chunk_data cs)) mod 8 = 0"
    if "\<forall>c \<in> set cs. chunk_wf c \<and> chunk_full c \<and> chunk_al c" for cs
    using that
  proof (induction cs)
    case (Cons c cs)
    then have "length (chunk_data c) mod 8 = 0"
      by (simp add: length_chunk_data chunk_full_def chunk_al_def) (simp add: chunk_wf_def)
    with Cons show ?case by simp presburger
  qed simp
  moreover have "\<forall>c \<in> set (take (m_chunk it) (m_chunks (m_bufferCDR it))). chunk_wf c \<and> chunk_full c \<and> chunk_al c"
    using assms by (auto simp: in_set_conv_nth) (meson nth_mem order_less_le_trans)
  ultimately show ?thesis by (simp add: data_before_def)
qed

lemma out_ok_facts:
  assumes "out_ok it"
  shows "chunk_wf (cur_chunk it)" "chunk_al (cur_chunk it)" "m_buffer (cur_chunk it) \<le> m_next it"
    "m_next it \<le> m_buffer_end (cur_chunk it)" "m_chunk it < length (m_chunks (m_bufferCDR it))"
    "length (data_before it) mod 8 = 0"
    "length (out_data it) = length (data_before it) + (m_next it - m_buffer (cur_chunk it))"
proof -
  show w: "chunk_wf (cur_chunk it)" "chunk_al (cur_chunk it)" "m_buffer (cur_chunk it) \<le> m_next it"
    "m_next it \<le> m_buffer_end (cur_chunk it)" "m_chunk it < length (m_chunks (m_bufferCDR it))"
    using assms by (auto simp: out_ok_def iter_wf_def iter_al_def cur_chunk_def)
  show "length (data_before it) mod 8 = 0"
    using assms by (intro length_data_before) (auto simp: out_ok_def iter_wf_def iter_al_def)
  show "length (out_data it) = length (data_before it) + (m_next it - m_buffer (cur_chunk it))"
    using w by (simp add: out_data_def length_chunk_upto)
qed

text \<open>Moving \<open>m_next\<close> forward inside the chunk.\<close>

lemma out_move_step:
  assumes "out_ok it" "m_next it \<le> p" "p \<le> m_buffer_end (cur_chunk it)"
  shows "out_ok (it\<lparr>m_next := p\<rparr>) \<and> (\<exists>pad. out_data (it\<lparr>m_next := p\<rparr>) = out_data it @ pad \<and> length pad = p - m_next it)"
proof -
  note w = out_ok_facts [OF assms(1)]
  obtain pad where "chunk_upto (cur_chunk it) p = chunk_upto (cur_chunk it) (m_next it) @ pad"
    "length pad = p - m_next it"
    using chunk_upto_extend w assms by blast
  moreover have "out_ok (it\<lparr>m_next := p\<rparr>)"
    using assms by (auto simp: out_ok_def iter_wf_def iter_al_def cur_chunk_def)
  ultimately show ?thesis by (simp add: out_data_def data_before_def)
qed

lemma out_alignment_step:
  assumes "malloc_ok malloc" "out_ok it" "prim_size s" "out_alignment malloc s it = Inr it'"
  shows "out_ok it' \<and> same_mode it it' \<and> m_next it' + s \<le> m_buffer_end (cur_chunk it') \<and>
    (\<exists>pad. out_data it' = out_data it @ pad \<and>
       length pad = align_to (length (out_data it)) (s - 1) - length (out_data it))"
proof -
  note w = out_ok_facts [OF assms(2)]
  note e = chunk_end_mod [OF w(1,2)]
  let ?a = "m_next it" and ?p = "align_to (m_next it) (s - 1)" and ?c = "cur_chunk it"
  note p = align_to_prim [OF assms(3), of ?a]
  have shift: "align_to (length (out_data it)) (s - 1) - length (out_data it) = ?p - ?a"
    using align_to_shift [OF assms(3) w(6) _ w(3)] e w p by simp
  show ?thesis
  proof (cases "?p < m_buffer_end ?c")
    case True
    then have room: "?p + s \<le> m_buffer_end ?c" by (rule prim_room [OF assms(3) p(1) conjunct1 [OF e]])
    with True assms(4) have "it' = it\<lparr>m_next := ?p\<rparr>"
      by (auto simp: alignment_def go_next_aligned_position_def Let_def split: if_splits)
    with room out_move_step [OF assms(2), of ?p] p shift show ?thesis by auto
  next
    case False
    have q: "?p = m_buffer_end ?c"
      using aligned_le [OF assms(3) p(1), of "m_buffer_end ?c"] p w e False by simp
    let ?i = "it\<lparr>m_next := ?p\<rparr>"
    have m: "out_ok ?i" "m_next ?i = m_buffer_end (cur_chunk ?i)"
      using out_move_step [OF assms(2), of ?p] p q by auto
    note same = out_get_next_chunk_next [of malloc ?p it]
    from False assms(4) obtain it1 where it1: "out_get_next_chunk malloc ?i = Inr it1"
      "(if m_buffer_end (cur_chunk it1) \<ge> m_next it1 + (s - 1) then Inr it1
        else out_get_next_chunk malloc (upd_chunk it1 (set_available_end (cur_chunk it1) (m_next it1)))) = Inr it'"
      unfolding same by (auto simp: alignment_def go_next_aligned_position_def Let_def split: if_splits)
    note S = out_get_next_chunk_step [OF assms(1) m(1) it1(1) m(2)]
    then have ok1: "out_ok it1" and n1: "m_next it1 = m_buffer (cur_chunk it1)" by auto
    have "8 \<le> m_buffer_end (cur_chunk it1) - m_buffer (cur_chunk it1)"
      using out_ok_facts(1,2) [OF ok1] by (simp add: chunk_wf_def chunk_al_def)
    then have r1: "m_next it1 + s \<le> m_buffer_end (cur_chunk it1)"
      using n1 assms(3) by (auto simp: prim_size_def)
    with it1 have "it' = it1" by (auto split: if_splits)
    with S r1 shift out_move_step [OF assms(2), of ?p] p q show ?thesis
      by (auto intro: same_mode_trans [of it ?i it1])
  qed
qed

text \<open>Alignment fails only when a chunk cannot be allocated.\<close>

lemma out_alignment_error:
  assumes "malloc_ok malloc" "out_ok it" "prim_size s" "out_alignment malloc s it = Inl e"
  shows "alloc_failure malloc e"
proof (rule ccontr)
  assume ne: "\<not> alloc_failure malloc e"
  let ?p = "align_to (m_next it) (s - 1)" and ?c = "cur_chunk it"
  note w = out_ok_facts [OF assms(2)]
  note e = chunk_end_mod [OF w(1,2)] and p = align_to_prim [OF assms(3), of "m_next it"]
  show False
  proof (cases "?p < m_buffer_end ?c")
    case True
    then have "?p + s \<le> m_buffer_end ?c" by (rule prim_room [OF assms(3) p(1) conjunct1 [OF e]])
    with True assms(4) show False
      by (auto simp: alignment_def go_next_aligned_position_def Let_def rbind_eq_Inl split: if_splits)
  next
    case False
    with assms(2,4) ne obtain it1 where it1: "out_get_next_chunk malloc it = Inr it1"
      "\<not> m_buffer_end (cur_chunk it1) \<ge> m_next it1 + (s - 1)"
      by (auto simp: alignment_def go_next_aligned_position_def Let_def rbind_eq_Inl
          dest: out_get_next_chunk_error split: if_splits)
    have q: "?p = m_buffer_end ?c"
      using aligned_le [OF assms(3) p(1), of "m_buffer_end ?c"] p w e False by simp
    have "out_ok (it\<lparr>m_next := ?p\<rparr>)" using out_move_step [OF assms(2), of ?p] p q by auto
    from out_get_next_chunk_step [OF assms(1) this, of it1] it1(1) q
    have ok1: "out_ok it1" and n1: "m_next it1 = m_buffer (cur_chunk it1)"
      by (auto simp: out_get_next_chunk_next)
    have "8 \<le> m_buffer_end (cur_chunk it1) - m_buffer (cur_chunk it1)"
      using out_ok_facts(1,2) [OF ok1] by (simp add: chunk_wf_def chunk_al_def)
    with it1(2) n1 assms(3) show False by (auto simp: prim_size_def)
  qed
qed

lemma out_ok_upd:
  assumes "out_ok it" "chunk_wf c" "m_buffer c = m_buffer (cur_chunk it)" "m_buffer_end c = m_buffer_end (cur_chunk it)"
    "m_length c = m_length (cur_chunk it)" "m_available_end c \<le> p" "m_next it \<le> p" "p \<le> m_buffer_end c"
  shows "out_ok ((upd_chunk it c)\<lparr>m_next := p\<rparr>)"
proof -
  let ?k = "m_chunk it" and ?cs = "m_chunks (m_bufferCDR it)"
  let ?P = "\<lambda>c'. chunk_wf c' \<and> chunk_al c' \<and> size_ok (m_length c')"
  have all: "\<forall>c' \<in> set ?cs. ?P c'"
    using assms(1) by (simp add: out_ok_def iter_wf_def iter_al_def)
  moreover have "?P (cur_chunk it)"
    using all out_ok_facts(5) [OF assms(1)] by (simp add: cur_chunk_def)
  then have "?P c" using assms by (simp add: chunk_al_def)
  ultimately have "\<forall>c' \<in> set (?cs[?k := c]). ?P c'"
    using set_update_subset_insert [of ?cs ?k c] by blast
  moreover have "m_buffer c \<le> p" using assms out_ok_facts(3) [OF assms(1)] by simp
  ultimately show ?thesis
    using assms by (auto simp: out_ok_def iter_wf_def iter_al_def cur_chunk_def nth_list_update upd_chunk_def)
qed

lemma data_before_upd [simp]:
  "data_before ((upd_chunk it c)\<lparr>m_next := p\<rparr>) = data_before it" "data_before (upd_chunk it c) = data_before it"
  by (simp_all add: data_before_def upd_chunk_def)

lemma put_bytes_step:
  assumes "out_ok it" "m_next it + length bs \<le> m_buffer_end (cur_chunk it)"
  shows "\<exists>it'. put_bytes bs it = Inr it' \<and> out_ok it' \<and> same_mode it it' \<and> out_data it' = out_data it @ bs \<and>
    m_next it' = m_next it + length bs \<and> m_buffer_end (cur_chunk it') = m_buffer_end (cur_chunk it) \<and>
    length (m_chunks (m_bufferCDR it')) = length (m_chunks (m_bufferCDR it)) \<and> m_chunk it' = m_chunk it"
proof -
  note w = out_ok_facts [OF assms(1)]
  obtain c where c: "store (cur_chunk it) (m_next it) bs = Inr c"
    using store_succeeds [OF w(1,3) assms(2)] by blast
  let ?i = "(upd_chunk it c)\<lparr>m_next := m_next it + length bs\<rparr>"
  note f = store_frame [OF c]
  have "out_ok ?i"
    using assms w f store_wf [OF w(1) c] by (intro out_ok_upd) (auto simp: out_ok_def)
  moreover have "out_data ?i = out_data it @ bs"
    using chunk_upto_store [OF w(1,3) c] w(5) by (simp add: out_data_def)
  ultimately show ?thesis using c f w(5) by (simp add: put_bytes_def)
qed

lemma bump_available_step:
  assumes "out_ok it"
  shows "out_ok (bump_available it)" "settled (bump_available it)" "same_mode it (bump_available it)"
    "out_data (bump_available it) = out_data it"
proof -
  note w = out_ok_facts [OF assms]
  let ?c = "set_available_end (cur_chunk it) (m_next it)"
  have a: "m_available_end ?c = m_next it" using w by (simp add: set_available_end_def)
  have "out_ok ((upd_chunk it ?c)\<lparr>m_next := m_next it\<rparr>)"
    using assms w a by (intro out_ok_upd) (auto intro: set_available_end_wf)
  then have u: "out_ok (upd_chunk it ?c)" by (simp add: upd_chunk_def)
  then show "out_ok (bump_available it)" "settled (bump_available it)" "same_mode it (bump_available it)"
    using assms w a by (auto simp: bump_available_def settled_def out_ok_def)
  show "out_data (bump_available it) = out_data it"
    using w by (simp add: bump_available_def out_data_def)
qed

text \<open>The body that all primitive writes share, and what it does to the sequence of octets.\<close>

definition emit :: "malloc \<Rightarrow> nat \<Rightarrow> octet list \<Rightarrow> iter \<Rightarrow> iter res" where
  "emit malloc s bs it =
     rbind (out_alignment malloc s it) (\<lambda>it. rbind (put_bytes bs it) (\<lambda>it. Inr (bump_available it)))"

definition prim_image :: "nat \<Rightarrow> octet list \<Rightarrow> nat \<Rightarrow> octet list \<Rightarrow> bool" where
  "prim_image s bs pos img \<longleftrightarrow> (\<exists>pad. img = pad @ bs \<and> length pad = align_to pos (s - 1) - pos)"

lemma emit_step:
  assumes "malloc_ok malloc" "out_ok it" "prim_size s" "length bs = s"
  shows "case emit malloc s bs it of Inl e \<Rightarrow> alloc_failure malloc e
    | Inr it' \<Rightarrow> out_ok it' \<and> settled it' \<and> same_mode it it' \<and>
        (\<exists>img. prim_image s bs (length (out_data it)) img \<and> out_data it' = out_data it @ img)"
proof (cases "out_alignment malloc s it")
  case (Inl e)
  with out_alignment_error [OF assms(1-3)] show ?thesis by (simp add: emit_def)
next
  case (Inr it1)
  then obtain pad where A: "out_ok it1" "same_mode it it1" "m_next it1 + s \<le> m_buffer_end (cur_chunk it1)"
    "out_data it1 = out_data it @ pad" "length pad = align_to (length (out_data it)) (s - 1) - length (out_data it)"
    using out_alignment_step [OF assms(1-3)] by blast
  then obtain it2 where B: "put_bytes bs it1 = Inr it2" "out_ok it2" "same_mode it1 it2"
    "out_data it2 = out_data it1 @ bs"
    using put_bytes_step [of it1 bs] assms(4) by auto
  from A B have "\<exists>img. prim_image s bs (length (out_data it)) img \<and> out_data it2 = out_data it @ img"
    unfolding prim_image_def by force
  with A B Inr bump_available_step [OF B(2)] show ?thesis
    by (auto simp: emit_def intro: same_mode_trans)
qed

lemma unat_room:
  assumes "out_ok it"
  shows "unat (word_of_int (int (m_buffer_end (cur_chunk it)) - int (m_next it)) :: ulong) =
    m_buffer_end (cur_chunk it) - m_next it"
proof -
  note w = out_ok_facts [OF assms]
  have "m_buffer_end (cur_chunk it) - m_next it < 2 ^ 32"
    using w unat_bound(3) [of "m_length (cur_chunk it)"] by (auto simp: chunk_wf_def)
  moreover have "int (m_buffer_end (cur_chunk it)) - int (m_next it) = int (m_buffer_end (cur_chunk it) - m_next it)"
    using w by simp
  ultimately show ?thesis by (simp add: unat_of_nat del: of_nat_diff)
qed

text \<open>An octet array is appended as it is, over as many chunks as it takes.\<close>

lemma octet_array_loop_step:
  assumes "malloc_ok malloc"
  shows "out_ok it \<Longrightarrow> length v + (if m_next it = m_buffer_end (cur_chunk it) then 2 else 1) \<le> fuel \<Longrightarrow>
    (case write_octet_array_loop fuel malloc v it of Inl e \<Rightarrow> alloc_failure malloc e
     | Inr it' \<Rightarrow> out_ok it' \<and> settled it' \<and> same_mode it it' \<and> out_data it' = out_data it @ v)"
proof (induction fuel arbitrary: v it)
  case 0
  then show ?case by (simp split: if_splits)
next
  case (Suc fuel)
  define r where "r = m_buffer_end (cur_chunk it) - m_next it"
  define n where "n = (if r > length v then length v else r)"
  note w = out_ok_facts [OF Suc.prems(1)]
  have n: "m_next it + n \<le> m_buffer_end (cur_chunk it)" "n \<le> length v" "n < length v \<Longrightarrow> n = r"
    using w by (auto simp: n_def r_def)
  obtain it1 where P: "put_bytes (take n v) it = Inr it1" "out_ok it1" "same_mode it it1"
    "out_data it1 = out_data it @ take n v" "m_next it1 = m_next it + n"
    "m_buffer_end (cur_chunk it1) = m_buffer_end (cur_chunk it)"
    using put_bytes_step [OF Suc.prems(1), of "take n v"] n(1) by (auto simp: min_absorb2 [OF n(2)])
  have step: "write_octet_array_loop (Suc fuel) malloc v it =
      (if length v - n > 0 then rbind (out_get_next_chunk malloc it1) (write_octet_array_loop fuel malloc (drop n v))
       else Inr (bump_available it1))"
    by (simp only: write_octet_array_loop.simps Let_def unat_room [OF Suc.prems(1)] r_def [symmetric]
        n_def [symmetric] P(1) rbind.simps)
  show ?case
  proof (cases "n < length v")
    case False
    with n have "take n v = v" by simp
    with step False P bump_available_step [OF P(2)] show ?thesis
      by (auto intro: same_mode_trans)
  next
    case True
    then have e1: "m_next it1 = m_buffer_end (cur_chunk it1)" using n P w by (simp add: r_def)
    show ?thesis
    proof (cases "out_get_next_chunk malloc it1")
      case (Inl e)
      with step True out_get_next_chunk_error [OF P(2)] show ?thesis by simp
    next
      case (Inr it2)
      note S = out_get_next_chunk_step [OF assms P(2) Inr e1]
      then have ok2: "out_ok it2" by simp
      then have "m_next it2 \<noteq> m_buffer_end (cur_chunk it2)"
        using S out_ok_facts(1,2) [OF ok2] by (auto simp: chunk_wf_def chunk_al_def)
      moreover have "n = 0 \<Longrightarrow> m_next it = m_buffer_end (cur_chunk it)"
        using n True w by (simp add: r_def)
      ultimately have "length (drop n v) + (if m_next it2 = m_buffer_end (cur_chunk it2) then 2 else 1) \<le> fuel"
        using Suc.prems(2) True by (cases "n = 0") (auto split: if_splits)
      from Suc.IH [OF ok2 this] S step True Inr P show ?thesis
        by (auto split: sum.splits intro: same_mode_trans)
    qed
  qed
qed

lemma write_octet_array_step:
  assumes "malloc_ok malloc" "out_ok it"
  shows "case write_octet_array malloc (Some v) it of Inl e \<Rightarrow> alloc_failure malloc e
     | Inr it' \<Rightarrow> out_ok it' \<and> settled it' \<and> same_mode it it' \<and> out_data it' = out_data it @ v"
  unfolding write_octet_array_def option.case
  by (rule octet_array_loop_step [OF assms]) (use out_ok_facts(5) [OF assms(2)] in simp)

end
