(* ===== verification/Cdr_Stream_In.thy ===== *)
theory Cdr_Stream_In
  imports Cdr_Stream
begin

text \<open>
  The input side of the abstract view: aligned loads and octet arrays of an input stream take octets
  of \<open>in_data\<close> at \<open>in_pos\<close>, for any cutting of the data into chunks.
\<close>

section \<open>Moving in the data\<close>

definition data_after :: "iter \<Rightarrow> octet list" where
  "data_after it = concat (map chunk_data (drop (Suc (m_chunk it)) (m_chunks (m_bufferCDR it))))"

lemma chunk_data_empty: "chunk_wf c \<Longrightarrow> chunk_data c = [] \<longleftrightarrow> chunk_empty c"
  using length_chunk_data [of c] by (auto simp: chunk_empty_def chunk_wf_def)

lemma in_ok_facts:
  assumes "in_ok it"
  shows "chunk_wf (cur_chunk it)" "m_buffer (cur_chunk it) \<le> m_next it"
    "m_next it \<le> m_available_end (cur_chunk it)" "m_chunk it < length (m_chunks (m_bufferCDR it))"
    "m_current_chunk_num it = m_chunk it" "size_ok (m_length (cur_chunk it))"
    "in_data it = data_before it @ chunk_data (cur_chunk it) @ data_after it"
proof -
  show k: "m_chunk it < length (m_chunks (m_bufferCDR it))" and "chunk_wf (cur_chunk it)"
    "m_buffer (cur_chunk it) \<le> m_next it"
    "m_next it \<le> m_available_end (cur_chunk it)" "m_current_chunk_num it = m_chunk it"
    "size_ok (m_length (cur_chunk it))"
    using assms by (auto simp: in_ok_def iter_wf_def cur_chunk_def)
  show "in_data it = data_before it @ chunk_data (cur_chunk it) @ data_after it"
    using arg_cong [where f = "\<lambda>cs. concat (map chunk_data cs)", OF id_take_nth_drop [OF k]]
    by (simp add: in_data_def data_before_def data_after_def cur_chunk_def)
qed

lemma data_after_full:
  assumes "in_ok it" "data_after it \<noteq> []"
  shows "chunk_full (cur_chunk it)" "chunk_al (cur_chunk it)" "Suc (m_chunk it) < length (m_chunks (m_bufferCDR it))"
    "\<not> chunk_empty (m_chunks (m_bufferCDR it) ! Suc (m_chunk it))"
proof -
  let ?k = "m_chunk it" and ?cs = "m_chunks (m_bufferCDR it)"
  note w = in_ok_facts [OF assms(1)]
  from assms(2) obtain j where "j < length (drop (Suc ?k) ?cs)" "chunk_data (drop (Suc ?k) ?cs ! j) \<noteq> []"
    by (auto simp: data_after_def in_set_conv_nth)
  then have j: "Suc ?k + j < length ?cs" "chunk_data (?cs ! (Suc ?k + j)) \<noteq> []" by auto
  have "chunk_wf (?cs ! (Suc ?k + j))" using assms(1) j(1) by (simp add: in_ok_def iter_wf_def)
  with j have ne: "\<not> chunk_empty (?cs ! (Suc ?k + j))" by (simp add: chunk_data_empty)
  have pk: "packed ?cs" using assms(1) by (simp add: in_ok_def)
  with j ne w show "chunk_full (cur_chunk it)" "chunk_al (cur_chunk it)"
    by (auto simp: packed_def cur_chunk_def)
  show lt: "Suc ?k < length ?cs" using j by simp
  show "\<not> chunk_empty (?cs ! Suc ?k)"
  proof (cases j)
    case (Suc i)
    with pk j ne lt have "chunk_full (?cs ! Suc ?k)" "chunk_al (?cs ! Suc ?k)"
      unfolding packed_def by (metis add_Suc_right less_add_Suc1)+
    moreover have "chunk_wf (?cs ! Suc ?k)" using assms(1) lt by (simp add: in_ok_def iter_wf_def)
    ultimately show ?thesis by (auto simp: chunk_full_def chunk_empty_def chunk_al_def chunk_wf_def)
  qed (use ne in simp)
qed

text \<open>Where there is something left to read, everything before the current chunk is full.\<close>

lemma in_pos_lt:
  assumes "in_ok it" "in_pos it < length (in_data it)"
  shows "length (data_before it) mod 8 = 0" "m_buffer (cur_chunk it) < m_available_end (cur_chunk it)"
proof -
  let ?k = "m_chunk it" and ?cs = "m_chunks (m_bufferCDR it)"
  note w = in_ok_facts [OF assms(1)]
  show ne: "m_buffer (cur_chunk it) < m_available_end (cur_chunk it)"
  proof (cases "data_after it = []")
    case True
    with assms(2) w show ?thesis by (simp add: in_pos_def length_chunk_data)
  next
    case False
    with data_after_full [OF assms(1)] w show ?thesis by (simp add: chunk_full_def chunk_al_def chunk_wf_def)
  qed
  have "packed ?cs" using assms(1) by (simp add: in_ok_def)
  with ne w have "\<forall>i < ?k. chunk_full (?cs ! i) \<and> chunk_al (?cs ! i)"
    by (auto simp: packed_def chunk_empty_def cur_chunk_def)
  with assms(1) w show "length (data_before it) mod 8 = 0"
    by (intro length_data_before) (auto simp: in_ok_def iter_wf_def)
qed

text \<open>What every step of a read keeps of the stream.\<close>

definition same_input :: "iter \<Rightarrow> iter \<Rightarrow> bool" where
  "same_input it it' \<longleftrightarrow> same_mode it it' \<and> in_data it' = in_data it"

lemma same_input_refl [simp]: "same_input it it"
  by (simp add: same_input_def)

lemma same_input_trans: "same_input a b \<Longrightarrow> same_input b c \<Longrightarrow> same_input a c"
  by (auto simp: same_input_def intro: same_mode_trans)

lemma same_input_next [simp]: "same_input it (it\<lparr>m_next := p\<rparr>)"
  by (simp add: same_input_def in_data_def)

lemma same_input_next_left [simp]: "same_input (it\<lparr>m_next := p\<rparr>) it' \<longleftrightarrow> same_input it it'"
  by (simp add: same_input_def in_data_def same_mode_def)

lemma in_move_step:
  assumes "in_ok it" "m_next it \<le> p" "p \<le> m_available_end (cur_chunk it)"
  shows "in_ok (it\<lparr>m_next := p\<rparr>)" "in_pos (it\<lparr>m_next := p\<rparr>) = in_pos it + (p - m_next it)"
  using assms in_ok_facts [OF assms(1)]
  by (auto simp: in_ok_def iter_wf_def in_pos_def data_before_def cur_chunk_def chunk_wf_def)

lemma next_chunk_next: "next_chunk (it\<lparr>m_next := p\<rparr>) = next_chunk it"
  by (cases it) (simp add: next_chunk_def Let_def)

lemma next_chunk_step:
  assumes "in_ok it" "m_next it = m_available_end (cur_chunk it)" "data_after it \<noteq> []"
  shows "\<exists>it'. next_chunk it = Inr it' \<and> in_ok it' \<and> same_input it it' \<and> in_pos it' = in_pos it \<and>
    m_next it' = m_buffer (cur_chunk it')"
proof -
  let ?k = "m_chunk it" and ?cs = "m_chunks (m_bufferCDR it)"
  note w = in_ok_facts [OF assms(1)] and f = data_after_full [OF assms(1,3)]
  let ?i = "it\<lparr>m_current_chunk_num := Suc ?k, m_chunk := Suc ?k, m_next := m_buffer (?cs ! Suc ?k)\<rparr>"
  have "next_chunk it = Inr ?i"
    using f w by (simp add: next_chunk_def Let_def get_num_chunks_def)
  moreover have "same_input it ?i" by (simp add: same_input_def same_mode_def in_data_def)
  moreover have "chunk_wf (?cs ! Suc ?k)" using assms(1) f by (simp add: in_ok_def iter_wf_def)
  then have "in_ok ?i" using assms(1) f by (auto simp: in_ok_def iter_wf_def cur_chunk_def chunk_wf_def)
  moreover have "in_pos ?i = in_pos it"
    using w f assms(2) by (simp add: in_pos_def data_before_def cur_chunk_def take_Suc_conv_app_nth length_chunk_data)
  ultimately show ?thesis by (auto simp: cur_chunk_def)
qed

lemma in_alignment_step:
  assumes "in_ok it" "prim_size s" "align_to (in_pos it) (s - 1) + s \<le> length (in_data it)"
  shows "\<exists>it'. in_alignment s it = Inr it' \<and> in_ok it' \<and> same_input it it' \<and>
    in_pos it' = align_to (in_pos it) (s - 1) \<and> m_next it' + s \<le> m_available_end (cur_chunk it')"
proof -
  let ?a = "m_next it" and ?p = "align_to (m_next it) (s - 1)" and ?c = "cur_chunk it"
  note w = in_ok_facts [OF assms(1)]
  have s: "1 \<le> s" "s \<le> 8" using assms(2) by (auto simp: prim_size_def)
  have lt: "in_pos it < length (in_data it)"
    using assms(3) align_to_prim(2) [OF assms(2), of "in_pos it"] s by linarith
  note b = in_pos_lt [OF assms(1) lt] and p = align_to_prim [OF assms(2), of ?a]
  have b8: "m_buffer ?c mod 8 = 0" using w(1) unfolding chunk_wf_def by presburger
  have pos: "align_to (in_pos it) (s - 1) = length (data_before it) + (?p - m_buffer ?c)"
    unfolding in_pos_def by (rule align_to_shift [OF assms(2) b(1) b8 w(2)])
  have len: "length (in_data it) = length (data_before it) + (m_available_end ?c - m_buffer ?c) + length (data_after it)"
    using w by (simp add: length_chunk_data)
  have full: "m_available_end ?c = m_buffer_end ?c \<and> m_buffer_end ?c mod 8 = 0" if "data_after it \<noteq> []"
    using data_after_full [OF assms(1) that] chunk_end_mod w(1) by (simp add: chunk_full_def)
  have av: "m_available_end ?c \<le> m_buffer_end ?c" using w(1) by (simp add: chunk_wf_def)
  show ?thesis
  proof (cases "?p < m_buffer_end ?c")
    case True
    have room: "?p + s \<le> m_available_end ?c"
    proof (cases "data_after it = []")
      case False
      then show ?thesis using prim_room [OF assms(2) p(1) _ True] full by simp
    next
      case True
      then have "length (data_after it) = 0" by simp
      with assms(3) pos len p(2) w(2,3) show ?thesis by linarith
    qed
    with True av s have "in_alignment s it = Inr (it\<lparr>m_next := ?p\<rparr>)"
      by (auto simp: alignment_def go_next_aligned_position_def Let_def)
    with room in_move_step [OF assms(1), of ?p] p pos w show ?thesis by (auto simp: in_pos_def)
  next
    case False
    have ne: "data_after it \<noteq> []"
      using assms(3) pos len False av s p w by (intro notI) simp
    with full have q: "?p = m_available_end ?c"
      using aligned_le [OF assms(2) p(1), of "m_buffer_end ?c"] p w False av by auto
    let ?i = "it\<lparr>m_next := ?p\<rparr>"
    have i: "in_ok ?i" "in_pos ?i = align_to (in_pos it) (s - 1)" "data_after ?i = data_after it"
      using in_move_step [OF assms(1), of ?p] p q pos w by (simp_all add: in_pos_def data_after_def)
    with ne q obtain it1 where n: "next_chunk it = Inr it1" "in_ok it1" "same_input it it1"
      "in_pos it1 = in_pos ?i" "m_next it1 = m_buffer (cur_chunk it1)"
      using next_chunk_step [of ?i] by (auto simp: next_chunk_next intro: same_input_trans [of it ?i])
    note w1 = in_ok_facts [OF n(2)]
    have len1: "length (in_data it) = in_pos it1 + (m_available_end (cur_chunk it1) - m_next it1) + length (data_after it1)"
      using n(3,5) length_chunk_data [OF w1(1)] arg_cong [OF w1(7), of length]
      by (simp add: same_input_def in_pos_def)
    have room: "m_next it1 + s \<le> m_available_end (cur_chunk it1)"
    proof (cases "data_after it1 = []")
      case True
      with len1 assms(3) n i s show ?thesis by simp
    next
      case False
      from data_after_full [OF n(2) this] w1 s n(5) show ?thesis
        by (simp add: chunk_full_def chunk_al_def chunk_wf_def)
    qed
    moreover have "m_available_end (cur_chunk it1) \<le> m_buffer_end (cur_chunk it1)"
      using w1 by (simp add: chunk_wf_def)
    ultimately have "in_alignment s it = Inr it1"
      using False n(1) by (auto simp: alignment_def go_next_aligned_position_def Let_def)
    with n i room show ?thesis by auto
  qed
qed

section \<open>Loads\<close>

lemma get_bytes_step:
  assumes "in_ok it" "m_next it + n \<le> m_available_end (cur_chunk it)"
  shows "\<exists>it'. get_bytes n it = Inr (take n (drop (in_pos it) (in_data it)), it') \<and> it' = it\<lparr>m_next := m_next it + n\<rparr> \<and>
    in_ok it' \<and> same_input it it' \<and> in_pos it' = in_pos it + n"
proof -
  note w = in_ok_facts [OF assms(1)]
  have "take n (drop (m_next it - m_buffer (cur_chunk it)) (chunk_data (cur_chunk it))) =
      take n (drop (in_pos it) (in_data it))"
    using w assms(2) by (simp add: in_pos_def length_chunk_data)
  with load_chunk_data [OF w(1,2) assms(2)] in_move_step [OF assms(1), of "m_next it + n"] assms(2)
  show ?thesis by (simp add: get_bytes_def)
qed

text \<open>The body that all primitive reads share.\<close>

definition fetch :: "nat \<Rightarrow> iter \<Rightarrow> (octet list \<times> iter) res" where
  "fetch s it = rbind (in_alignment s it) (get_bytes s)"

lemma fetch_step:
  assumes "in_ok it" "prim_size s" "length bs = s" "prim_image s bs (in_pos it) img"
    "drop (in_pos it) (in_data it) = img @ rest"
  shows "\<exists>it'. fetch s it = Inr (bs, it') \<and> in_ok it' \<and> same_input it it' \<and> in_pos it' = in_pos it + length img"
proof -
  let ?p = "align_to (in_pos it) (s - 1)"
  from assms(4) obtain pad where pad: "img = pad @ bs" "length pad = ?p - in_pos it"
    by (auto simp: prim_image_def)
  have le: "in_pos it \<le> ?p" by (rule align_to_prim [OF assms(2)])
  have "length (in_data it) - in_pos it = length img + length rest"
    using arg_cong [OF assms(5), of length] by simp
  moreover have "1 \<le> s" using assms(2) by (auto simp: prim_size_def)
  ultimately have "?p + s \<le> length (in_data it)" using pad assms(3) le by simp
  then obtain it1 where A: "in_alignment s it = Inr it1" "in_ok it1" "same_input it it1" "in_pos it1 = ?p"
    "m_next it1 + s \<le> m_available_end (cur_chunk it1)"
    using in_alignment_step [OF assms(1,2)] by blast
  have "drop ?p (in_data it) = drop (?p - in_pos it) (drop (in_pos it) (in_data it))"
    using le by simp
  then have "take s (drop ?p (in_data it)) = bs" using assms(3,5) pad by simp
  with get_bytes_step [OF A(2,5)] A pad le assms(3) show ?thesis
    by (auto simp: fetch_def same_input_def intro: same_mode_trans)
qed

lemma available_step:
  assumes "in_ok it"
  shows "unat (available it) = m_available_end (cur_chunk it) - m_next it"
proof -
  note w = in_ok_facts [OF assms]
  define d where "d = m_available_end (cur_chunk it) - m_next it"
  have "d < 2 ^ 31" using w by (auto simp: d_def size_ok_def chunk_wf_def)
  moreover have diff: "int (m_available_end (cur_chunk it)) - int (m_next it) = int d"
    using w by (simp add: d_def)
  moreover have u: "uint (word_of_int (int d) :: ulong) = int d"
    using \<open>d < 2 ^ 31\<close> by (simp only: uint_word_of_int_eq) (simp add: take_bit_int_eq_self)
  ultimately have "sint (word_of_int (int d) :: ulong) = int d" "unat (word_of_int (int d) :: ulong) = d"
    by (simp_all only: sint_uint u unat_eq_nat_uint) (simp_all add: signed_take_bit_int_eq_self)
  then show ?thesis
    unfolding available_def Let_def diff by (simp only: d_def [symmetric]) simp
qed

lemma read_octet_array_step:
  "in_ok it \<Longrightarrow> drop (in_pos it) (in_data it) = bs @ rest \<Longrightarrow>
   \<exists>it'. read_octet_array (length bs) it = Inr (bs, it') \<and> in_ok it' \<and> same_input it it' \<and>
     in_pos it' = in_pos it + length bs"
proof (induction "chunks_left it" arbitrary: it bs rule: less_induct)
  case less
  show ?case
  proof (cases "bs = []")
    case True
    then show ?thesis using less.prems by (simp add: read_octet_array.simps)
  next
    case False
    have len: "length (in_data it) - in_pos it = length bs + length rest"
      using arg_cong [OF less.prems(2), of length] by simp
    with False have "align_to (in_pos it) (OCTET_SIZE - 1) + OCTET_SIZE \<le> length (in_data it)"
      by (cases bs) (auto simp: align_to_consts)
    then obtain it1 where A: "in_alignment OCTET_SIZE it = Inr it1" "in_ok it1" "same_input it it1"
      "in_pos it1 = in_pos it" "m_next it1 + 1 \<le> m_available_end (cur_chunk it1)"
      using in_alignment_step [OF less.prems(1), of OCTET_SIZE]
      by (auto simp: prim_size_def align_to_consts)
    define n where "n = (if length bs < m_available_end (cur_chunk it1) - m_next it1 then length bs
      else m_available_end (cur_chunk it1) - m_next it1)"
    have n: "m_next it1 + n \<le> m_available_end (cur_chunk it1)" "n \<le> length bs"
      "n < length bs \<Longrightarrow> m_next it1 + n = m_available_end (cur_chunk it1)"
      using A(5) by (auto simp: n_def)
    let ?i2 = "it1\<lparr>m_next := m_next it1 + n\<rparr>"
    have d1: "drop (in_pos it1) (in_data it1) = bs @ rest" using A less.prems by (simp add: same_input_def)
    with n(2) get_bytes_step [OF A(2) n(1)] have G: "get_bytes n it1 = Inr (take n bs, ?i2)"
      "in_ok ?i2" "same_input it1 ?i2" "in_pos ?i2 = in_pos it + n" using A(4) by auto
    have run: "read_octet_array (length bs) it =
      (if length bs - n > 0 then rbind (next_chunk ?i2) (\<lambda>it3.
         rbind (read_octet_array (length bs - n) it3) (\<lambda>(cs, it4). Inr (take n bs @ cs, it4)))
       else Inr (take n bs, ?i2))"
      unfolding read_octet_array.simps [of "length bs" it]
      by (simp only: A(1) rbind.simps Let_def available_step [OF A(2)] n_def [symmetric] G(1) split_conv)
        (use False in simp)
    show ?thesis
    proof (cases "n < length bs")
      case False
      with n(2) have "n = length bs" by simp
      then have "read_octet_array (length bs) it = Inr (bs, ?i2)" using run by simp
      with G A \<open>n = length bs\<close> show ?thesis
        by (intro exI [of _ ?i2]) (auto intro: same_input_trans)
    next
      case True
      have d2: "drop (in_pos ?i2) (in_data ?i2) = drop n bs @ rest"
      proof -
        have "drop (in_pos it1 + n) (in_data it1) = drop n (bs @ rest)"
          using d1 by (metis add.commute drop_drop)
        then show ?thesis using A(4) G n(2) by (simp add: same_input_def)
      qed
      note w2 = in_ok_facts [OF G(2)]
      have "data_after ?i2 \<noteq> []"
      proof
        assume "data_after ?i2 = []"
        then have "length (in_data ?i2) = in_pos ?i2"
          using w2 n(3) [OF True] by (simp add: length_chunk_data in_pos_def)
        with d2 True show False by simp
      qed
      then obtain it3 where N: "next_chunk ?i2 = Inr it3" "in_ok it3" "same_input ?i2 it3" "in_pos it3 = in_pos ?i2"
        using next_chunk_step [OF G(2)] n(3) [OF True] by auto
      have "chunks_left it3 < chunks_left it"
        using next_chunk_left [OF N(1)] in_alignment_left [OF A(1)] by simp
      moreover have "drop (in_pos it3) (in_data it3) = drop n bs @ rest" using N d2 by (simp add: same_input_def)
      ultimately obtain it4 where "read_octet_array (length bs - n) it3 = Inr (drop n bs, it4)" "in_ok it4"
        "same_input it3 it4" "in_pos it4 = in_pos it3 + length (drop n bs)"
        using less.hyps [of it3 "drop n bs"] N(2) by auto
      moreover from this N A have "same_input it it4" by (auto intro: same_input_trans [of it it1] same_input_trans [of it1 it3])
      ultimately show ?thesis using run True N G A by auto
    qed
  qed
qed

end
