(* ===== verification/Cdr_Codec.thy ===== *)
theory Cdr_Codec
  imports Cdr_Stream_In
begin

text \<open>
  The contract between a write operation and the read operation for the same type, as the locale
  \<open>cdr_codec\<close>, and its instances for the operations of the streams. Writing appends an image of the value
  to the sequence of octets, reading consumes that image and returns the value. The image may depend
  on the byte order of the writer and on the position, by padding.
\<close>

text \<open>The byte order of the data an input stream reads.\<close>

definition wire_order :: "iter \<Rightarrow> bool" where
  "wire_order it = (local_byte_order it \<noteq> m_byte_swap it)"

lemma wire_order_same: "same_mode it it' \<Longrightarrow> wire_order it' = wire_order it"
  by (simp add: wire_order_def same_mode_def)

text \<open>Loops over the elements of an array, and the images they leave.\<close>

fun write_seq :: "('a \<Rightarrow> iter \<Rightarrow> iter res) \<Rightarrow> 'a list \<Rightarrow> iter \<Rightarrow> iter res" where
  "write_seq wr [] it = Inr it"
| "write_seq wr (v # vs) it = rbind (wr v it) (write_seq wr vs)"

fun read_seq :: "('k \<Rightarrow> iter \<Rightarrow> ('b \<times> iter) res) \<Rightarrow> 'k list \<Rightarrow> iter \<Rightarrow> ('b list \<times> iter) res" where
  "read_seq rd [] it = Inr ([], it)"
| "read_seq rd (k # ks) it =
     rbind (rd k it) (\<lambda>(v, it). rbind (read_seq rd ks it) (\<lambda>(vs, it). Inr (v # vs, it)))"

fun seq_image :: "(bool \<Rightarrow> nat \<Rightarrow> 'a \<Rightarrow> octet list \<Rightarrow> bool) \<Rightarrow> bool \<Rightarrow> nat \<Rightarrow> 'a list \<Rightarrow> octet list \<Rightarrow> bool" where
  "seq_image img order pos [] bs \<longleftrightarrow> bs = []"
| "seq_image img order pos (v # vs) bs \<longleftrightarrow>
     (\<exists>b cs. bs = b @ cs \<and> img order pos v b \<and> seq_image img order (pos + length b) vs cs)"

definition pair_image :: "(bool \<Rightarrow> nat \<Rightarrow> 'a \<Rightarrow> octet list \<Rightarrow> bool) \<Rightarrow> (bool \<Rightarrow> nat \<Rightarrow> 'b \<Rightarrow> octet list \<Rightarrow> bool) \<Rightarrow>
    bool \<Rightarrow> nat \<Rightarrow> 'a \<times> 'b \<Rightarrow> octet list \<Rightarrow> bool" where
  "pair_image img1 img2 order pos xy bs \<longleftrightarrow>
     (\<exists>b cs. bs = b @ cs \<and> img1 order pos (fst xy) b \<and> img2 order (pos + length b) (snd xy) cs)"

text \<open>What a write of \<open>v\<close> makes of an output stream.\<close>

definition writes :: "malloc \<Rightarrow> iter \<Rightarrow> (octet list \<Rightarrow> bool) \<Rightarrow> iter res \<Rightarrow> bool" where
  "writes m it P r \<longleftrightarrow> (case r of Inl e \<Rightarrow> alloc_failure m e
     | Inr it' \<Rightarrow> out_ok it' \<and> (settled it \<longrightarrow> settled it') \<and> same_mode it it' \<and>
         (\<exists>bs. P bs \<and> out_data it' = out_data it @ bs))"

definition reads :: "iter \<Rightarrow> 'b \<Rightarrow> nat \<Rightarrow> ('b \<times> iter) res \<Rightarrow> bool" where
  "reads it v n r \<longleftrightarrow> (\<exists>it'. r = Inr (v, it') \<and> in_ok it' \<and> same_input it it' \<and> in_pos it' = in_pos it + n)"

lemma writes_bind:
  assumes "writes m it P r"
    and "\<And>it' b. r = Inr it' \<Longrightarrow> out_ok it' \<Longrightarrow> same_mode it it' \<Longrightarrow> P b \<Longrightarrow> out_data it' = out_data it @ b \<Longrightarrow>
      writes m it' (Q b) (f it')"
  shows "writes m it (\<lambda>bs. \<exists>b cs. bs = b @ cs \<and> P b \<and> Q b cs) (rbind r f)"
proof (cases r)
  case (Inl e)
  with assms(1) show ?thesis by (simp add: writes_def)
next
  case (Inr it')
  with assms(1) obtain b where b: "out_ok it'" "settled it \<longrightarrow> settled it'" "same_mode it it'" "P b"
    "out_data it' = out_data it @ b"
    by (auto simp: writes_def)
  from assms(2) [OF Inr b(1,3-5)] b Inr show ?thesis
    by (auto simp: writes_def split: sum.splits intro: same_mode_trans)
qed

lemma reads_bind:
  assumes "reads it v n r" "\<And>it'. in_ok it' \<Longrightarrow> same_input it it' \<Longrightarrow> in_pos it' = in_pos it + n \<Longrightarrow> reads it' w m (f (v, it'))"
  shows "reads it w (n + m) (rbind r f)"
  using assms unfolding reads_def by (fastforce intro: same_input_trans)

lemma reads_result: "reads it v n r \<Longrightarrow> reads it (g v) n (rbind r (\<lambda>(x, it). Inr (g x, it)))"
  by (auto simp: reads_def)

section \<open>The contract\<close>

locale cdr_codec =
  fixes wr :: "malloc \<Rightarrow> 'a \<Rightarrow> iter \<Rightarrow> iter res"
    and rd :: "'k \<Rightarrow> iter \<Rightarrow> ('b \<times> iter) res"
    and kind :: "'a \<Rightarrow> 'k"
    and ok :: "'a \<Rightarrow> bool"
    and mode :: "iter \<Rightarrow> bool"
    and img :: "bool \<Rightarrow> nat \<Rightarrow> 'a \<Rightarrow> octet list \<Rightarrow> bool"
    and val :: "'a \<Rightarrow> 'b"
  assumes mode_same: "mode it \<Longrightarrow> same_mode it it' \<Longrightarrow> mode it'"
    and wr_step: "malloc_ok m \<Longrightarrow> out_ok it \<Longrightarrow> mode it \<Longrightarrow> ok v \<Longrightarrow>
      writes m it (img (local_byte_order it) (length (out_data it)) v) (wr m v it)"
    and rd_step: "in_ok it \<Longrightarrow> mode it \<Longrightarrow> ok v \<Longrightarrow> img (wire_order it) (in_pos it) v bs \<Longrightarrow>
      drop (in_pos it) (in_data it) = bs @ rest \<Longrightarrow> reads it (val v) (length bs) (rd (kind v) it)"
begin

lemma roundtrip:
  assumes "malloc_ok m" "out_ok out" "mode out" "ok v" "wr m v out = Inr out'"
    and "in_ok inp" "mode inp" "wire_order inp = local_byte_order out"
    and "in_pos inp = length (out_data out)" "in_data inp = out_data out' @ rest"
  shows "\<exists>inp'. rd (kind v) inp = Inr (val v, inp') \<and> in_ok inp' \<and> same_input inp inp' \<and>
    in_pos inp' = length (out_data out')"
proof -
  from wr_step [OF assms(1-4)] assms(5) obtain bs where
    "img (local_byte_order out) (length (out_data out)) v bs" "out_data out' = out_data out @ bs"
    by (auto simp: writes_def)
  with rd_step [of inp v bs rest] assms show ?thesis by (auto simp: reads_def)
qed

lemma wr_total:
  assumes "malloc_ok m" "out_ok out" "mode out" "ok v"
  shows "(\<exists>out'. wr m v out = Inr out' \<and> out_ok out') \<or> (\<exists>e. wr m v out = Inl e \<and> alloc_failure m e)"
  using wr_step [OF assms] by (auto simp: writes_def split: sum.splits)

text \<open>Arrays: what holds for the elements holds for the loop over them.\<close>

lemma array_writes:
  "malloc_ok m \<Longrightarrow> out_ok it \<Longrightarrow> mode it \<Longrightarrow> list_all ok vs \<Longrightarrow>
   writes m it (seq_image img (local_byte_order it) (length (out_data it)) vs) (write_seq (wr m) vs it)"
proof (induction vs arbitrary: it)
  case (Cons v vs)
  have "writes m it (\<lambda>bs. \<exists>b cs. bs = b @ cs \<and> img (local_byte_order it) (length (out_data it)) v b \<and>
      seq_image img (local_byte_order it) (length (out_data it) + length b) vs cs) (rbind (wr m v it) (write_seq (wr m) vs))"
  proof (rule writes_bind [OF wr_step])
    fix it' b
    assume "out_ok it'" "same_mode it it'" "out_data it' = out_data it @ b"
    then show "writes m it' (seq_image img (local_byte_order it) (length (out_data it) + length b) vs) (write_seq (wr m) vs it')"
      using Cons.IH [of it'] Cons.prems mode_same [of it it'] by (simp add: same_mode_def)
  qed (use Cons.prems in simp_all)
  then show ?case by simp
qed (simp add: writes_def)

lemma array_reads:
  "in_ok it \<Longrightarrow> mode it \<Longrightarrow> list_all ok vs \<Longrightarrow> seq_image img (wire_order it) (in_pos it) vs bs \<Longrightarrow>
   drop (in_pos it) (in_data it) = bs @ rest \<Longrightarrow> reads it (map val vs) (length bs) (read_seq rd (map kind vs) it)"
proof (induction vs arbitrary: it bs)
  case (Cons v vs)
  from Cons.prems(4) obtain b cs where b: "bs = b @ cs" "img (wire_order it) (in_pos it) v b"
    "seq_image img (wire_order it) (in_pos it + length b) vs cs" by auto
  have "reads it (map val (v # vs)) (length b + length cs) (read_seq rd (map kind (v # vs)) it)"
    unfolding list.map read_seq.simps
  proof (rule reads_bind [OF rd_step [OF Cons.prems(1,2) _ b(2)]])
    fix it'
    assume it': "in_ok it'" "same_input it it'" "in_pos it' = in_pos it + length b"
    then have "reads it' (map val vs) (length cs) (read_seq rd (map kind vs) it')"
      using Cons.prems b mode_same [of it it'] wire_order_same [of it it']
      by (intro Cons.IH) (auto simp: same_input_def add.commute [of "in_pos it"] drop_drop [symmetric] simp del: drop_drop)
    then have "reads it' (val v # map val vs) (length cs)
        (rbind (read_seq rd (map kind vs) it') (\<lambda>(x, it). Inr ((#) (val v) x, it)))"
      by (rule reads_result)
    then show "reads it' (val v # map val vs) (length cs)
      (case (val v, it') of (v, it) \<Rightarrow> rbind (read_seq rd (map kind vs) it) (\<lambda>(vs, it). Inr (v # vs, it)))"
      by simp
  qed (use Cons.prems b in auto)
  with b show ?case by simp
qed (simp add: reads_def)

lemma array: "cdr_codec (\<lambda>m. write_seq (wr m)) (read_seq rd) (map kind) (list_all ok) mode (seq_image img) (map val)"
  by (standard; (rule mode_same array_writes array_reads; assumption)?)

end

text \<open>Two codecs one after the other: the members of a structure.\<close>

locale cdr_codec_pair =
  fst: cdr_codec wr1 rd1 kind1 ok1 mode img1 val1 + snd: cdr_codec wr2 rd2 kind2 ok2 mode img2 val2
  for wr1 :: "malloc \<Rightarrow> 'a \<Rightarrow> iter \<Rightarrow> iter res" and rd1 :: "'k \<Rightarrow> iter \<Rightarrow> ('b \<times> iter) res"
    and kind1 ok1 mode img1 val1
    and wr2 :: "malloc \<Rightarrow> 'c \<Rightarrow> iter \<Rightarrow> iter res" and rd2 :: "'l \<Rightarrow> iter \<Rightarrow> ('d \<times> iter) res"
    and kind2 ok2 img2 val2
begin

lemma pair_writes:
  assumes "malloc_ok m" "out_ok it" "mode it" "ok1 x" "ok2 y"
  shows "writes m it (pair_image img1 img2 (local_byte_order it) (length (out_data it)) (x, y)) (rbind (wr1 m x it) (wr2 m y))"
  unfolding pair_image_def fst_conv snd_conv
proof (rule writes_bind [OF fst.wr_step])
  fix it' b
  assume "out_ok it'" "same_mode it it'" "out_data it' = out_data it @ b"
  then show "writes m it' (img2 (local_byte_order it) (length (out_data it) + length b) y) (wr2 m y it')"
    using snd.wr_step [of m it' y] assms fst.mode_same [of it it'] by (simp add: same_mode_def)
qed (use assms in simp_all)

lemma pair_reads:
  assumes "in_ok it" "mode it" "ok1 x" "ok2 y" "pair_image img1 img2 (wire_order it) (in_pos it) (x, y) bs"
    "drop (in_pos it) (in_data it) = bs @ rest"
  shows "reads it (val1 x, val2 y) (length bs)
    (rbind (rd1 (kind1 x) it) (\<lambda>(v, it). rbind (rd2 (kind2 y) it) (\<lambda>(w, it). Inr ((v, w), it))))"
proof -
  from assms(5) obtain b cs where b: "bs = b @ cs" "img1 (wire_order it) (in_pos it) x b"
    "img2 (wire_order it) (in_pos it + length b) y cs" by (auto simp: pair_image_def)
  have "reads it (val1 x, val2 y) (length b + length cs)
    (rbind (rd1 (kind1 x) it) (\<lambda>(v, it). rbind (rd2 (kind2 y) it) (\<lambda>(w, it). Inr ((v, w), it))))"
  proof (rule reads_bind [OF fst.rd_step [OF assms(1,2) assms(3) b(2)]])
    fix it'
    assume "in_ok it'" "same_input it it'" "in_pos it' = in_pos it + length b"
    then have "reads it' (val2 y) (length cs) (rd2 (kind2 y) it')"
      using assms b fst.mode_same [of it it'] wire_order_same [of it it']
      by (intro snd.rd_step) (auto simp: same_input_def add.commute [of "in_pos it"] drop_drop [symmetric] simp del: drop_drop)
    from reads_result [OF this, of "Pair (val1 x)"]
    show "reads it' (val1 x, val2 y) (length cs)
      (case (val1 x, it') of (v, it) \<Rightarrow> rbind (rd2 (kind2 y) it) (\<lambda>(w, it). Inr ((v, w), it)))"
      by (simp add: case_prod_beta')
  qed (use assms b in auto)
  with b show ?thesis by simp
qed

lemma pair: "cdr_codec (\<lambda>m (x, y) it. rbind (wr1 m x it) (wr2 m y))
    (\<lambda>(k, l) it. rbind (rd1 k it) (\<lambda>(v, it). rbind (rd2 l it) (\<lambda>(w, it). Inr ((v, w), it))))
    (map_prod kind1 kind2) (\<lambda>(x, y). ok1 x \<and> ok2 y) mode (pair_image img1 img2) (map_prod val1 val2)"
proof (standard, goal_cases)
  case (1 it it')
  then show ?case by (rule fst.mode_same)
next
  case (2 m it v)
  then show ?case using pair_writes by (cases v) simp
next
  case (3 it v bs rest)
  then show ?case using pair_reads by (cases v) simp
qed

end

section \<open>Primitive types\<close>

lemma out_get_next_chunk_local: "out_get_next_chunk malloc it = Inr it' \<Longrightarrow> local_byte_order it' = local_byte_order it"
  unfolding out_get_next_chunk_def next_chunk_def Let_def rbind_eq_Inr
  by (elim exE conjE) (simp split: if_splits, auto)

lemma out_alignment_local: "out_alignment malloc s it = Inr it' \<Longrightarrow> local_byte_order it' = local_byte_order it"
  by (auto simp: alignment_def go_next_aligned_position_def Let_def split: if_splits
      dest!: out_get_next_chunk_local)

lemma emit_local:
  "rbind (out_alignment malloc s it) (\<lambda>it. rbind (put_bytes (enc (local_byte_order it)) it) (\<lambda>it. Inr (bump_available it))) =
   emit malloc s (enc (local_byte_order it)) it"
  unfolding emit_def by (rule rbind_cong) (auto dest: out_alignment_local)

lemma swapped_val_image: "x < 256 ^ n \<Longrightarrow> swapped_val it (host_bytes (wire_order it) n x) = x"
  by (cases "m_byte_swap it") (simp_all add: swapped_val_def wire_order_def host_val_host_bytes host_val_rev_host_bytes)

text \<open>A write that emits \<open>s\<close> octets and a read that fetches them and decodes what it gets.\<close>

lemma prim_codec:
  assumes "prim_size s"
    and "\<And>m v it. wr m v it = emit m s (enc (local_byte_order it) v) it"
    and "\<And>order v. length (enc order v) = s"
    and "\<And>it. rd () it = rbind (fetch s it) (\<lambda>(bs, it). Inr (dec it bs, it))"
    and "\<And>it v. ok v \<Longrightarrow> dec it (enc (wire_order it) v) = val v"
  shows "cdr_codec wr rd (\<lambda>_. ()) ok (\<lambda>_. True) (\<lambda>order pos v. prim_image s (enc order v) pos) val"
proof (standard, goal_cases)
  case (2 m it v)
  then show ?case
    using emit_step [OF 2(1,2) assms(1) assms(3) [of "local_byte_order it" v]] unfolding assms(2) writes_def
    by (auto split: sum.splits)
next
  case (3 it v bs rest)
  then obtain it' where "fetch s it = Inr (enc (wire_order it) v, it')" "in_ok it'" "same_input it it'"
    "in_pos it' = in_pos it + length bs"
    using fetch_step [OF 3(1) assms(1,3)] by blast
  moreover from this have "wire_order it' = wire_order it" by (simp add: same_input_def wire_order_same)
  ultimately show ?case
    using assms(5) [OF 3(3), of it'] by (simp add: assms(4) reads_def)
qed

lemma fetch_bind: "rbind (in_alignment s it) (\<lambda>it. rbind (get_bytes s it) f) = rbind (fetch s it) f"
  by (simp add: fetch_def rbind_assoc)

interpretation octet: cdr_codec write_octet "\<lambda>_. read_octet" "\<lambda>_. ()" "\<lambda>_. True" "\<lambda>_. True"
  "\<lambda>order pos v. prim_image 1 [v] pos" "\<lambda>v. v"
  by (rule prim_codec [where enc = "\<lambda>order v. [v]" and dec = "\<lambda>it bs. hd bs"])
    (auto simp: prim_size_def write_octet_def read_octet_def emit_def fetch_bind)

interpretation boolean: cdr_codec write_boolean "\<lambda>_. read_boolean" "\<lambda>_. ()" "\<lambda>_. True" "\<lambda>_. True"
  "\<lambda>order pos v. prim_image 1 [if v then 1 else 0] pos" "\<lambda>v. v"
  by (rule prim_codec [where enc = "\<lambda>order v. [if v then 1 else 0]" and dec = "\<lambda>it bs. hd bs \<noteq> 0"])
    (auto simp: prim_size_def write_boolean_def write_octet_def read_boolean_def read_octet_def emit_def
      fetch_bind rbind_assoc case_prod_beta')

interpretation chr: cdr_codec write_char "\<lambda>_. read_char" "\<lambda>_. ()" "\<lambda>_. True" "\<lambda>_. True"
  "\<lambda>order pos v. prim_image 1 [v] pos" "\<lambda>v. v"
  by (rule prim_codec [where enc = "\<lambda>order v. [v]" and dec = "\<lambda>it bs. hd bs"])
    (auto simp: prim_size_def write_char_def read_char_def read_octet_def emit_def fetch_bind)

text \<open>The integer types: stored in host order, swapped by the reader when the orders differ.\<close>

abbreviation word_image :: "nat \<Rightarrow> bool \<Rightarrow> nat \<Rightarrow> 'w::len word \<Rightarrow> octet list \<Rightarrow> bool" where
  "word_image s order pos v \<equiv> prim_image s (host_bytes order s (unat v)) pos"

lemma word_codec:
  fixes wr :: "malloc \<Rightarrow> 'w::len word \<Rightarrow> iter \<Rightarrow> iter res" and rd :: "unit \<Rightarrow> iter \<Rightarrow> ('w word \<times> iter) res"
  assumes "prim_size s" and "\<And>v :: 'w word. unat v < 256 ^ s"
    and "\<And>m v it. wr m v it = rbind (out_alignment m s it) (\<lambda>it.
      rbind (put_bytes (host_bytes (local_byte_order it) s (unat v)) it) (\<lambda>it. Inr (bump_available it)))"
    and "\<And>it. rd () it = rbind (in_alignment s it) (\<lambda>it.
      rbind (get_bytes s it) (\<lambda>(bs, it). Inr (word_of_nat (swapped_val it bs), it)))"
  shows "cdr_codec wr rd (\<lambda>_. ()) (\<lambda>_. True) (\<lambda>_. True) (word_image s) (\<lambda>v. v)"
proof (rule prim_codec [where dec = "\<lambda>it bs. word_of_nat (swapped_val it bs)"])
  show "wr m v it = emit m s (host_bytes (local_byte_order it) s (unat v)) it" for m v it
    unfolding assms(3) by (rule emit_local [where enc = "\<lambda>order. host_bytes order s (unat v)"])
  show "word_of_nat (swapped_val it (host_bytes (wire_order it) s (unat v))) = v" for it and v :: "'w word"
    using swapped_val_image [OF assms(2)] by simp
qed (use assms in \<open>auto simp: fetch_bind\<close>)

interpretation short: cdr_codec write_short "\<lambda>_. read_short" "\<lambda>_. ()" "\<lambda>_. True" "\<lambda>_. True" "word_image 2" "\<lambda>v. v"
  by (rule word_codec) (use unat_bound in \<open>simp_all add: prim_size_def write_short_def read_short_def\<close>)

interpretation ushort: cdr_codec write_ushort "\<lambda>_. read_ushort" "\<lambda>_. ()" "\<lambda>_. True" "\<lambda>_. True" "word_image 2" "\<lambda>v. v"
  by (rule word_codec) (use unat_bound in \<open>simp_all add: prim_size_def write_ushort_def read_ushort_def\<close>)

interpretation long: cdr_codec write_long "\<lambda>_. read_long" "\<lambda>_. ()" "\<lambda>_. True" "\<lambda>_. True" "word_image 4" "\<lambda>v. v"
  by (rule word_codec) (use unat_bound in \<open>simp_all add: prim_size_def write_long_def read_long_def\<close>)

interpretation ulong: cdr_codec write_ulong "\<lambda>_. read_ulong" "\<lambda>_. ()" "\<lambda>_. True" "\<lambda>_. True" "word_image 4" "\<lambda>v. v"
  by (rule word_codec) (use unat_bound in \<open>simp_all add: prim_size_def write_ulong_def read_ulong_def\<close>)

interpretation flt: cdr_codec write_float "\<lambda>_. read_float" "\<lambda>_. ()" "\<lambda>_. True" "\<lambda>_. True" "word_image 4" "\<lambda>v. v"
  by (rule word_codec) (use unat_bound in \<open>simp_all add: prim_size_def write_float_def read_float_def\<close>)

interpretation longlong: cdr_codec write_longlong "\<lambda>_. read_longlong" "\<lambda>_. ()" "\<lambda>_. True" "\<lambda>_. True" "word_image 8" "\<lambda>v. v"
  by (rule word_codec) (use unat_bound in \<open>simp_all add: prim_size_def write_longlong_def read_longlong_def\<close>)

interpretation ulonglong: cdr_codec write_ulonglong "\<lambda>_. read_ulonglong" "\<lambda>_. ()" "\<lambda>_. True" "\<lambda>_. True" "word_image 8" "\<lambda>v. v"
  by (rule word_codec) (use unat_bound in \<open>simp_all add: prim_size_def write_ulonglong_def read_ulonglong_def read_longlong_def\<close>)

interpretation dbl: cdr_codec write_double "\<lambda>_. read_double" "\<lambda>_. ()" "\<lambda>_. True" "\<lambda>_. True" "word_image 8" "\<lambda>v. v"
  by (rule word_codec) (use unat_bound in \<open>simp_all add: prim_size_def write_double_def read_double_def\<close>)

end
