(* ===== verification/Cdr_Values.thy ===== *)
theory Cdr_Values
  imports Cdr_Codec
begin

text \<open>
  Codecs for the types that are built from primitive ones (octet arrays, strings, wide strings), and the
  round trip of a whole message: a sequence of values of mixed types, written by one host and read by
  another one, with any byte orders and any cutting into chunks on either side.
\<close>

section \<open>Octet arrays and strings\<close>

interpretation octets: cdr_codec "\<lambda>m v. write_octet_array m (Some v)" read_octet_array length "\<lambda>_. True" "\<lambda>_. True"
  "\<lambda>order pos v bs. bs = v" "\<lambda>v. v"
proof (standard, goal_cases)
  case (2 m it v)
  then show ?case using write_octet_array_step [OF 2(1,2), of v]
    by (auto simp: writes_def split: sum.splits)
next
  case (3 it v bs rest)
  then show ?case using read_octet_array_step [OF 3(1), of v rest] by (auto simp: reads_def)
qed

lemma octet_image_plain: "prim_image (Suc 0) bs pos img \<longleftrightarrow> img = bs"
  by (auto simp: prim_image_def align_to_consts)

lemma writes_mono: "writes m it P r \<Longrightarrow> (\<And>bs. P bs \<Longrightarrow> Q bs) \<Longrightarrow> writes m it Q r"
  by (fastforce simp: writes_def split: sum.splits)

definition string_image :: "bool \<Rightarrow> nat \<Rightarrow> octet list \<Rightarrow> octet list \<Rightarrow> bool" where
  "string_image order pos s bs \<longleftrightarrow>
     (\<exists>b. bs = b @ s @ [0] \<and> word_image 4 order pos (word_of_nat (length s) + 1 :: ulong) b)"

definition string_ok :: "octet list \<Rightarrow> bool" where
  "string_ok s \<longleftrightarrow> length s + 1 < 2 ^ 32 \<and> 0 \<notin> set s"

lemma unat_len: "n + 1 < 2 ^ 32 \<Longrightarrow> unat (word_of_nat n :: ulong) = n"
  "n + 1 < 2 ^ 32 \<Longrightarrow> unat (word_of_nat n + 1 :: ulong) = n + 1"
  by (simp_all add: unat_of_nat unat_word_ariths)

lemma string_writes:
  assumes "malloc_ok m" "out_ok it" "length s + 1 < 2 ^ 32"
  shows "writes m it (string_image (local_byte_order it) (length (out_data it)) s) (write_string m (Some s) it)"
proof -
  let ?n = "word_of_nat (length s) + 1 :: ulong"
  have body: "writes m it' (\<lambda>bs. bs = s @ [0]) (rbind (write_octet_array m (Some s) it') (write_char m 0))"
    if "out_ok it'" for it'
  proof (rule writes_mono [OF writes_bind [OF octets.wr_step]])
    fix it2 assume "out_ok it2"
    then show "writes m it2 (\<lambda>bs. bs = [0]) (write_char m 0 it2)"
      using chr.wr_step [OF assms(1), of it2 0] by (auto simp: octet_image_plain elim: writes_mono)
  qed (use assms that in auto)
  have "writes m it (\<lambda>bs. \<exists>b cs. bs = b @ cs \<and> word_image 4 (local_byte_order it) (length (out_data it)) ?n b \<and> cs = s @ [0])
    (rbind (write_ulong m ?n it) (\<lambda>it. rbind (write_octet_array m (Some s) it) (write_char m 0)))"
    by (rule writes_bind [OF ulong.wr_step]) (use assms body in auto)
  moreover have "take (unat (word_of_nat (length s) :: ulong)) s = s" using unat_len(1) assms(3) by simp
  ultimately show ?thesis
    by (auto simp: write_string_def string_image_def elim: writes_mono)
qed

lemma string_reads:
  assumes "in_ok it" "length s + 1 < 2 ^ 32" "string_image (wire_order it) (in_pos it) s bs"
    "drop (in_pos it) (in_data it) = bs @ rest"
  shows "reads it (s @ [0]) (length bs) (read_string it)"
proof -
  let ?n = "word_of_nat (length s) + 1 :: ulong"
  have n: "unat ?n = length s + 1" "?n \<noteq> 0" using unat_len(2) [OF assms(2)] by auto
  from assms(3) obtain b where b: "bs = b @ s @ [0]" "word_image 4 (wire_order it) (in_pos it) ?n b"
    by (auto simp: string_image_def)
  have "reads it (s @ [0]) (length b + length (s @ [0])) (read_string it)"
    unfolding read_string_def
  proof (rule reads_bind [OF ulong.rd_step [OF assms(1) _ _ b(2)]])
    fix it'
    assume "in_ok it'" "same_input it it'" "in_pos it' = in_pos it + length b"
    then have "reads it' (s @ [0]) (length (s @ [0])) (read_octet_array (length (s @ [0])) it')"
      using assms b
      by (intro octets.rd_step) (auto simp: same_input_def add.commute [of "in_pos it"] drop_drop [symmetric] simp del: drop_drop)
    with n show "reads it' (s @ [0]) (length (s @ [0]))
       (case (?n, it') of (len, it) \<Rightarrow> if len = 0 then Inl MARSHAL else read_octet_array (unat len) it)"
      by simp
  qed (use assms b in auto)
  with b show ?thesis by simp
qed

interpretation str: cdr_codec "\<lambda>m s. write_string m (Some s)" "\<lambda>_. read_string" "\<lambda>_. ()" string_ok "\<lambda>_. True"
  string_image "\<lambda>s. s @ [0]"
proof (standard, goal_cases)
  case (2 m it v)
  then show ?case by (auto simp: string_ok_def intro: string_writes)
next
  case (3 it v bs rest)
  then show ?case by (auto simp: string_ok_def intro: string_reads)
qed

section \<open>Wide characters and strings\<close>

definition wchar_ok :: "ulong \<Rightarrow> bool" where
  "wchar_ok w \<longleftrightarrow> unat w < 2 ^ 16"

lemma wchar_cast: "wchar_ok w \<Longrightarrow> ucast (ucast w :: ushort) = w"
  by (simp add: wchar_ok_def word_unat_eq_iff unsigned_ucast_eq unsigned_take_bit_eq take_bit_nat_eq_self)

lemma write_wchar_ushort: "write_wchar m w it = write_ushort m (ucast w) it"
  by (simp add: write_wchar_def write_ushort_def)

interpretation wchr: cdr_codec write_wchar "\<lambda>_. read_wchar" "\<lambda>_. ()" wchar_ok "\<lambda>_. True"
  "\<lambda>order pos w. word_image 2 order pos (ucast w :: ushort)" "\<lambda>w. w"
proof (standard, goal_cases)
  case (2 m it v)
  then show ?case unfolding write_wchar_ushort by (intro ushort.wr_step) auto
next
  case (3 it v bs rest)
  then have "reads it (ucast v :: ushort) (length bs) (read_ushort it)" by (intro ushort.rd_step) auto
  from reads_result [OF this, of "ucast :: ushort \<Rightarrow> ulong"] 3(3) show ?case by (simp add: read_wchar_def wchar_cast)
qed

lemma write_wchar_array_seq: "write_wchar_array m ws it = write_seq (write_wchar m) ws it"
  by (induction ws arbitrary: it) (auto intro: rbind_cong)

lemma read_wchar_array_seq: "read_wchar_array n it = read_seq (\<lambda>_. read_wchar) (replicate n ()) it"
  by (induction n arbitrary: it) (auto intro!: rbind_cong)

definition wstring_len :: "version \<Rightarrow> nat \<Rightarrow> ulong" where
  "wstring_len v n = word_of_nat (if v = VERSION_1_2 then (n + 1) * 2 else n + 1)"

definition wstring_ok :: "ulong list \<Rightarrow> bool" where
  "wstring_ok s \<longleftrightarrow> (length s + 1) * 2 < 2 ^ 32 \<and> list_all wchar_ok s \<and> 0 \<notin> set s"

definition wstring_image :: "version \<Rightarrow> bool \<Rightarrow> nat \<Rightarrow> ulong list \<Rightarrow> octet list \<Rightarrow> bool" where
  "wstring_image v order pos s bs \<longleftrightarrow> (\<exists>b cs. bs = b @ cs \<and> word_image 4 order pos (wstring_len v (length s)) b \<and>
     seq_image (\<lambda>order pos w. word_image 2 order pos (ucast w :: ushort)) order (pos + length b) (s @ [0]) cs)"

lemma wstring_real_length:
  assumes "(n + 1) * 2 < 2 ^ 32"
  shows "unat (if v = VERSION_1_2 then wstring_len v n div 2 else wstring_len v n) = n + 1"
proof -
  have small: "n < 2 ^ 31" using assms by simp
  have "unat (word_of_nat (2 + n * 2) :: ulong) = 2 + n * 2" "unat (word_of_nat (Suc n) :: ulong) = Suc n"
    using small assms by (simp_all add: unat_of_nat del: of_nat_add of_nat_Suc of_nat_mult)
  then show ?thesis by (simp add: wstring_len_def unat_div del: of_nat_add of_nat_Suc of_nat_mult)
qed

lemma wchars_codec: "list_all wchar_ok s \<Longrightarrow> list_all wchar_ok (s @ [0])"
  by (simp add: wchar_ok_def)

lemma wstring_writes:
  assumes "malloc_ok m" "out_ok it" "wstring_ok s" "m_version it = v"
  shows "writes m it (wstring_image v (local_byte_order it) (length (out_data it)) s) (write_wstring m (Some s) it)"
proof -
  have "write_wstring m (Some s) it = rbind (write_ulong m (wstring_len v (length s)) it) (write_wchar_array m (s @ [0]))"
    using assms(4) by (simp add: write_wstring_def wstring_len_def)
  moreover have "writes m it (wstring_image v (local_byte_order it) (length (out_data it)) s)
      (rbind (write_ulong m (wstring_len v (length s)) it) (write_wchar_array m (s @ [0])))"
    unfolding wstring_image_def
  proof (rule writes_bind [OF ulong.wr_step])
    fix it' b
    assume "out_ok it'" "same_mode it it'" "out_data it' = out_data it @ b"
    then show "writes m it' (seq_image (\<lambda>order pos w. word_image 2 order pos (ucast w :: ushort)) (local_byte_order it)
        (length (out_data it) + length b) (s @ [0])) (write_wchar_array m (s @ [0]) it')"
      using wchr.array_writes [OF assms(1), of it' "s @ [0]"] assms(3) wchars_codec [of s]
      by (simp add: same_mode_def wstring_ok_def write_wchar_array_seq)
  qed (use assms in auto)
  ultimately show ?thesis by simp
qed

lemma wstring_reads:
  assumes "in_ok it" "wstring_ok s" "m_version it = v" "wstring_image v (wire_order it) (in_pos it) s bs"
    "drop (in_pos it) (in_data it) = bs @ rest"
  shows "reads it (s @ [0]) (length bs) (read_wstring it)"
proof -
  from assms(4) obtain b cs where b: "bs = b @ cs" "word_image 4 (wire_order it) (in_pos it) (wstring_len v (length s)) b"
    "seq_image (\<lambda>order pos w. word_image 2 order pos (ucast w :: ushort)) (wire_order it) (in_pos it + length b) (s @ [0]) cs"
    by (auto simp: wstring_image_def)
  define n where "n = (if v = VERSION_1_2 then wstring_len v (length s) div 2 else wstring_len v (length s))"
  have n: "unat n = length s + 1" unfolding n_def using wstring_real_length assms(2) by (simp add: wstring_ok_def)
  then have nz: "n \<noteq> 0" by auto
  have "reads it (s @ [0]) (length b + length cs) (read_wstring it)"
    unfolding read_wstring_def
  proof (rule reads_bind [OF ulong.rd_step [OF assms(1) _ _ b(2)]])
    fix it'
    assume it': "in_ok it'" "same_input it it'" "in_pos it' = in_pos it + length b"
    then have "reads it' (map (\<lambda>w. w) (s @ [0])) (length cs) (read_seq (\<lambda>_. read_wchar) (map (\<lambda>_. ()) (s @ [0])) it')"
      using assms b wchars_codec [of s] wire_order_same [of it it']
      by (intro wchr.array_reads)
        (auto simp: same_input_def wstring_ok_def add.commute [of "in_pos it"] drop_drop [symmetric] simp del: drop_drop)
    moreover have "map (\<lambda>_. ()) (s @ [0]) = replicate (unat n) ()"
      using n map_replicate_const [of "()" "s @ [0]"] by simp
    ultimately have "reads it' (s @ [0]) (length cs) (read_wchar_array (unat n) it')"
      by (simp add: read_wchar_array_seq)
    moreover have "m_version it' = v" using it' assms(3) by (simp add: same_input_def same_mode_def)
    ultimately show "reads it' (s @ [0]) (length cs) (case (wstring_len v (length s), it') of (len, it) \<Rightarrow>
        let real_length = (if m_version it = VERSION_1_2 then len div of_nat WCHAR_SIZE else len) in
        if real_length = 0 then rbind (skip_type WCHAR_SIZE it) (\<lambda>it. Inr ([0], it))
        else read_wchar_array (unat real_length) it)"
      using nz by (auto simp: n_def Let_def split: if_splits)
  qed (use assms b in auto)
  with b show ?thesis by simp
qed

interpretation wstr: cdr_codec "\<lambda>m s. write_wstring m (Some s)" "\<lambda>_. read_wstring" "\<lambda>_. ()" wstring_ok
  "\<lambda>it. m_version it = v" "wstring_image v" "\<lambda>s. s @ [0]" for v
proof (standard, goal_cases)
  case (1 it it')
  then show ?case by (simp add: same_mode_def)
next
  case (2 m it s)
  then show ?case by (intro wstring_writes) auto
next
  case (3 it s bs rest)
  then show ?case by (intro wstring_reads) auto
qed

section \<open>Values of mixed types\<close>

text \<open>
  One value of the types that the streams have operations for, and the operation that writes m it; a
  \<open>cdr_kind\<close> is what a reader knows beforehand, the type and the length of an octet array. A string that
  is read is the C string at the pointer that the operation returns: the octets up to the first zero.
\<close>

datatype cdr_value =
    VOctet octet
  | VBoolean bool
  | VChar octet
  | VWChar ulong
  | VShort ushort
  | VUShort ushort
  | VLong ulong
  | VULong ulong
  | VFloat ulong
  | VLongLong ulonglong
  | VULongLong ulonglong
  | VDouble ulonglong
  | VOctets "octet list"
  | VString "octet list"
  | VWString "ulong list"

datatype cdr_kind =
    KOctet | KBoolean | KChar | KWChar | KShort | KUShort | KLong | KULong | KFloat | KLongLong | KULongLong | KDouble | KOctets nat | KString | KWString

fun kind_of :: "cdr_value \<Rightarrow> cdr_kind" where
  "kind_of (VOctet _) = KOctet"
| "kind_of (VBoolean _) = KBoolean"
| "kind_of (VChar _) = KChar"
| "kind_of (VWChar _) = KWChar"
| "kind_of (VShort _) = KShort"
| "kind_of (VUShort _) = KUShort"
| "kind_of (VLong _) = KLong"
| "kind_of (VULong _) = KULong"
| "kind_of (VFloat _) = KFloat"
| "kind_of (VLongLong _) = KLongLong"
| "kind_of (VULongLong _) = KULongLong"
| "kind_of (VDouble _) = KDouble"
| "kind_of (VOctets v) = KOctets (length v)"
| "kind_of (VString _) = KString"
| "kind_of (VWString _) = KWString"

fun write_value :: "malloc \<Rightarrow> cdr_value \<Rightarrow> iter \<Rightarrow> iter res" where
  "write_value m (VOctet v) it = write_octet m v it"
| "write_value m (VBoolean v) it = write_boolean m v it"
| "write_value m (VChar v) it = write_char m v it"
| "write_value m (VWChar v) it = write_wchar m v it"
| "write_value m (VShort v) it = write_short m v it"
| "write_value m (VUShort v) it = write_ushort m v it"
| "write_value m (VLong v) it = write_long m v it"
| "write_value m (VULong v) it = write_ulong m v it"
| "write_value m (VFloat v) it = write_float m v it"
| "write_value m (VLongLong v) it = write_longlong m v it"
| "write_value m (VULongLong v) it = write_ulonglong m v it"
| "write_value m (VDouble v) it = write_double m v it"
| "write_value m (VOctets v) it = write_octet_array m (Some v) it"
| "write_value m (VString s) it = write_string m (Some s) it"
| "write_value m (VWString s) it = write_wstring m (Some s) it"

definition as_value :: "('a \<Rightarrow> cdr_value) \<Rightarrow> ('a \<times> iter) res \<Rightarrow> (cdr_value \<times> iter) res" where
  "as_value f r = rbind r (\<lambda>(x, it). Inr (f x, it))"

fun read_value :: "cdr_kind \<Rightarrow> iter \<Rightarrow> (cdr_value \<times> iter) res" where
  "read_value KOctet it = as_value VOctet (read_octet it)"
| "read_value KBoolean it = as_value VBoolean (read_boolean it)"
| "read_value KChar it = as_value VChar (read_char it)"
| "read_value KWChar it = as_value VWChar (read_wchar it)"
| "read_value KShort it = as_value VShort (read_short it)"
| "read_value KUShort it = as_value VUShort (read_ushort it)"
| "read_value KLong it = as_value VLong (read_long it)"
| "read_value KULong it = as_value VULong (read_ulong it)"
| "read_value KFloat it = as_value VFloat (read_float it)"
| "read_value KLongLong it = as_value VLongLong (read_longlong it)"
| "read_value KULongLong it = as_value VULongLong (read_ulonglong it)"
| "read_value KDouble it = as_value VDouble (read_double it)"
| "read_value (KOctets n) it = as_value VOctets (read_octet_array n it)"
| "read_value KString it = as_value (\<lambda>s. VString (takeWhile (\<lambda>b. b \<noteq> 0) s)) (read_string it)"
| "read_value KWString it = as_value (\<lambda>s. VWString (takeWhile (\<lambda>b. b \<noteq> 0) s)) (read_wstring it)"

fun value_ok :: "cdr_value \<Rightarrow> bool" where
  "value_ok (VWChar w) = wchar_ok w"
| "value_ok (VString s) = string_ok s"
| "value_ok (VWString s) = wstring_ok s"
| "value_ok _ = True"

fun value_image :: "version \<Rightarrow> bool \<Rightarrow> nat \<Rightarrow> cdr_value \<Rightarrow> octet list \<Rightarrow> bool" where
  "value_image _ order pos (VOctet v) = prim_image 1 [v] pos"
| "value_image _ order pos (VBoolean v) = prim_image 1 [if v then 1 else 0] pos"
| "value_image _ order pos (VChar v) = prim_image 1 [v] pos"
| "value_image _ order pos (VWChar w) = word_image 2 order pos (ucast w :: ushort)"
| "value_image _ order pos (VShort v) = word_image 2 order pos v"
| "value_image _ order pos (VUShort v) = word_image 2 order pos v"
| "value_image _ order pos (VLong v) = word_image 4 order pos v"
| "value_image _ order pos (VULong v) = word_image 4 order pos v"
| "value_image _ order pos (VFloat v) = word_image 4 order pos v"
| "value_image _ order pos (VLongLong v) = word_image 8 order pos v"
| "value_image _ order pos (VULongLong v) = word_image 8 order pos v"
| "value_image _ order pos (VDouble v) = word_image 8 order pos v"
| "value_image _ order pos (VOctets v) = (\<lambda>bs. bs = v)"
| "value_image _ order pos (VString s) = string_image order pos s"
| "value_image v order pos (VWString s) = wstring_image v order pos s"

lemma as_value_reads: "reads it x n r \<Longrightarrow> f x = v \<Longrightarrow> reads it v n (as_value f r)"
  unfolding as_value_def by (auto dest: reads_result [of it x n r f])

lemma takeWhile_terminated: "0 \<notin> set s \<Longrightarrow> takeWhile (\<lambda>b. b \<noteq> 0) (s @ [0 :: 'w::len word]) = s"
  by (subst takeWhile_append2) auto

lemma value_writes:
  assumes "malloc_ok m" "out_ok it" "m_version it = v" "value_ok x"
  shows "writes m it (value_image v (local_byte_order it) (length (out_data it)) x) (write_value m x it)"
  using assms
  by (cases x) (simp_all del: One_nat_def split del: if_split add: octet.wr_step boolean.wr_step chr.wr_step wchr.wr_step short.wr_step ushort.wr_step long.wr_step ulong.wr_step flt.wr_step longlong.wr_step ulonglong.wr_step dbl.wr_step
    octets.wr_step str.wr_step wstr.wr_step)

lemma value_reads:
  assumes "in_ok it" "m_version it = v" "value_ok x" "value_image v (wire_order it) (in_pos it) x bs"
    "drop (in_pos it) (in_data it) = bs @ rest"
  shows "reads it x (length bs) (read_value (kind_of x) it)"
  using assms
  by (cases x) (auto simp: string_ok_def wstring_ok_def takeWhile_terminated
    intro!: as_value_reads intro: octet.rd_step boolean.rd_step chr.rd_step wchr.rd_step short.rd_step ushort.rd_step long.rd_step ulong.rd_step flt.rd_step longlong.rd_step ulonglong.rd_step dbl.rd_step
    octets.rd_step str.rd_step wstr.rd_step)

interpretation cdr_val: cdr_codec write_value read_value kind_of value_ok "\<lambda>it. m_version it = v" "value_image v" "\<lambda>x. x" for v
proof (standard, goal_cases)
  case (1 it it')
  then show ?case by (simp add: same_mode_def)
next
  case (2 m it x)
  then show ?case by (intro value_writes) auto
next
  case (3 it x bs rest)
  then show ?case by (intro value_reads) auto
qed

interpretation message: cdr_codec "\<lambda>m. write_seq (write_value m)" "read_seq read_value" "map kind_of" "list_all value_ok"
  "\<lambda>it. m_version it = v" "seq_image (value_image v)" "map (\<lambda>x. x)" for v
  by (rule cdr_val.array)

section \<open>From the constructors of the streams\<close>

definition block_ok :: "ulong \<Rightarrow> bool" where
  "block_ok s \<longleftrightarrow> size_ok s \<and> unat s mod 8 = 0 \<and> 8 \<le> unat s"

lemma new_stream_ok:
  assumes "malloc_ok m" "block_ok s" "BufferCDR m order s father p = Inr b" "IteratorCDR order b = Inr out"
  shows "out_ok out" "settled out" "out_data out = []" "local_byte_order out = order" "m_version out = VERSION_1_2"
proof -
  from assms(3) obtain c where c: "ChunkCDR m 0 s = Inr c" "m_chunks b = [c]" "m_chunk_size b = s"
    by (auto simp: BufferCDR_def)
  from assms(1,2) c(1) have w: "chunk_wf c" "m_length c = s" "m_available_end c = m_buffer c"
    using ChunkCDR_wf by (auto simp: block_ok_def)
  from assms(4) c have out: "m_bufferCDR out = b" "m_chunk out = 0" "m_current_chunk_num out = 0" "m_next out = m_buffer c"
    and mode: "local_byte_order out = order" "m_version out = VERSION_1_2"
    by (auto simp: IteratorCDR_def get_chunk_def)
  show "out_ok out" "settled out"
    using w c out assms(2) by (auto simp: out_ok_def iter_wf_def iter_al_def cur_chunk_def chunk_al_def block_ok_def
        settled_def chunk_wf_def)
  show "out_data out = []" "local_byte_order out = order" "m_version out = VERSION_1_2"
    using c out mode by (simp_all add: out_data_def data_before_def cur_chunk_def)
qed

text \<open>The buffer that an output stream leaves is the one that an input stream reads from its start.\<close>

lemma written_buffer_packed: "out_ok out \<Longrightarrow> packed (m_chunks (m_bufferCDR out))"
  unfolding packed_def out_ok_def iter_al_def
  by (metis less_trans linorder_neqE_nat nth_mem)

lemma written_buffer_data:
  assumes "out_ok out" "settled out"
  shows "concat (map chunk_data (m_chunks (m_bufferCDR out))) = out_data out"
proof -
  let ?k = "m_chunk out" and ?cs = "m_chunks (m_bufferCDR out)"
  note w = out_ok_facts [OF assms(1)]
  have "\<forall>c \<in> set (drop (Suc ?k) ?cs). chunk_data c = []"
    using assms(1) by (auto simp: out_ok_def in_set_conv_nth chunk_empty_def chunk_data_def)
  then have "concat (map chunk_data (take ?k ?cs @ ?cs ! ?k # drop (Suc ?k) ?cs)) =
      concat (map chunk_data (take ?k ?cs)) @ chunk_data (?cs ! ?k)" by simp
  then have "concat (map chunk_data ?cs) = concat (map chunk_data (take ?k ?cs)) @ chunk_data (?cs ! ?k)"
    by (simp only: id_take_nth_drop [OF w(5), symmetric])
  with assms(2) show ?thesis
    by (simp add: out_data_def data_before_def cur_chunk_def chunk_data_upto settled_def)
qed

lemma input_of_written:
  assumes "out_ok out" "settled out" "CDRInputStream order (m_bufferCDR out) = Inr inp"
  shows "in_ok inp" "in_pos inp = 0" "in_data inp = out_data out" "wire_order inp = order" "m_version inp = VERSION_1_2"
proof -
  let ?cs = "m_chunks (m_bufferCDR out)"
  have ne: "0 < length ?cs" and wf: "\<forall>c \<in> set ?cs. chunk_wf c \<and> size_ok (m_length c)"
    using out_ok_facts(5) [OF assms(1)] assms(1) by (auto simp: out_ok_def iter_wf_def)
  from assms(3) ne have inp: "m_bufferCDR inp = m_bufferCDR out" "m_chunk inp = 0" "m_current_chunk_num inp = 0"
    "m_next inp = m_buffer (?cs ! 0)"
    and mode: "local_byte_order inp = order" "m_byte_swap inp = False" "m_version inp = VERSION_1_2"
    by (auto simp: CDRInputStream_def IteratorCDR_def get_chunk_def)
  have "chunk_wf (?cs ! 0)" using wf ne by auto
  with wf ne inp show "in_ok inp"
    using written_buffer_packed [OF assms(1)] by (auto simp: in_ok_def iter_wf_def cur_chunk_def chunk_wf_def)
  show "in_pos inp = 0" "in_data inp = out_data out" "wire_order inp = order" "m_version inp = VERSION_1_2"
    using inp mode written_buffer_data [OF assms(1,2)]
    by (simp_all add: in_pos_def data_before_def cur_chunk_def in_data_def wire_order_def)
qed

section \<open>A sample message\<close>

text \<open>A concrete allocator, buffer, stream and message, on which the properties are applied. The message does
  not fit into one chunk of the buffer.\<close>

definition sample_malloc :: malloc where
  "sample_malloc n s = Some (4096 * n + 5, replicate s 0)"

definition sample_buffer :: buffer where
  "sample_buffer = projr (BufferCDR sample_malloc True 16 None 0)"

definition sample_out :: iter where
  "sample_out = projr (IteratorCDR True sample_buffer)"

definition sample_values :: "cdr_value list" where
  "sample_values = [VOctet 7, VLong 0x01020304, VString [72, 105], VDouble 0x3FF0000000000000, VOctets [1, 2, 3], VWString [65, 66]]"

definition sample_written :: iter where
  "sample_written = projr (write_seq (write_value sample_malloc) sample_values sample_out)"

definition sample_input :: iter where
  "sample_input = projr (CDRInputStream True (m_bufferCDR sample_written))"

lemma sample_malloc_ok: "malloc_ok sample_malloc" "malloc_total sample_malloc"
  by (simp_all add: malloc_ok_def malloc_total_def sample_malloc_def)

lemma sample_stream:
  "BufferCDR sample_malloc True 16 None 0 = Inr sample_buffer" "IteratorCDR True sample_buffer = Inr sample_out"
  by (simp_all add: sample_out_def sample_buffer_def BufferCDR_def ChunkCDR_def sample_malloc_def IteratorCDR_def get_chunk_def Let_def)

lemma sample_block_ok: "block_ok 16"
  by (simp add: block_ok_def size_ok_def)

lemmas sample_new = new_stream_ok [OF sample_malloc_ok(1) sample_block_ok sample_stream]

lemma sample_values_ok: "list_all value_ok sample_values"
  by (simp add: sample_values_def string_ok_def wstring_ok_def wchar_ok_def)

lemma sample_writes: "write_seq (write_value sample_malloc) sample_values sample_out = Inr sample_written"
  and sample_written_ok: "out_ok sample_written" "settled sample_written"
proof -
  have "writes sample_malloc sample_out (seq_image (value_image VERSION_1_2) (local_byte_order sample_out)
      (length (out_data sample_out)) sample_values) (write_seq (write_value sample_malloc) sample_values sample_out)"
    by (rule message.wr_step) (use sample_malloc_ok sample_new sample_values_ok in auto)
  then obtain it where "write_seq (write_value sample_malloc) sample_values sample_out = Inr it" "out_ok it" "settled it"
    using sample_malloc_ok sample_new by (auto simp: writes_def alloc_failure_def split: sum.splits)
  then show "write_seq (write_value sample_malloc) sample_values sample_out = Inr sample_written"
    "out_ok sample_written" "settled sample_written"
    by (simp_all add: sample_written_def)
qed

lemma sample_reads: "CDRInputStream True (m_bufferCDR sample_written) = Inr sample_input"
  using out_ok_facts(5) [OF sample_written_ok(1)]
  by (auto simp: sample_input_def CDRInputStream_def IteratorCDR_def get_chunk_def)

lemmas sample_in = input_of_written [OF sample_written_ok sample_reads]

text \<open>The same octets on a host of the other byte order.\<close>

definition sample_swapped :: iter where
  "sample_swapped = sample_input\<lparr>local_byte_order := False, m_byte_swap := True\<rparr>"

lemma sample_swapped_ok:
  "in_ok sample_swapped" "in_pos sample_swapped = 0" "in_data sample_swapped = out_data sample_written @ []"
  "wire_order sample_swapped" "m_version sample_swapped = VERSION_1_2"
proof -
  note d = sample_swapped_def in_pos_def in_data_def data_before_def cur_chunk_def wire_order_def
  have "in_ok sample_input = in_ok sample_swapped"
    unfolding in_ok_def iter_wf_def cur_chunk_def sample_swapped_def by simp
  with sample_in show "in_ok sample_swapped" by simp
  show "in_pos sample_swapped = 0" "in_data sample_swapped = out_data sample_written @ []"
    "wire_order sample_swapped" "m_version sample_swapped = VERSION_1_2"
    using sample_in by (simp_all add: d)
qed

section \<open>Properties\<close>

text \<open>C1. Marshalling round trip. A sequence of values of any of the types of the streams is written to an
  output stream, over as many chunks as it takes. Any input stream that has the written octets at the
  same offset, with its own chunks, its own addresses and a host of either byte order, reads the same
  values, and ends at the end of what was written.\<close>

theorem message_roundtrip:
  assumes "malloc_ok m" "out_ok out" "list_all value_ok vs" "write_seq (write_value m) vs out = Inr out'"
    and "in_ok inp" "m_version inp = m_version out" "wire_order inp = local_byte_order out"
    and "in_pos inp = length (out_data out)" "in_data inp = out_data out' @ rest"
  shows "\<exists>inp'. read_seq read_value (map kind_of vs) inp = Inr (vs, inp') \<and> in_ok inp' \<and>
    in_pos inp' = length (out_data out')"
  using message.roundtrip [of m out "m_version out" vs out' inp rest] assms by auto

theorem message_roundtrip_witness:
  "\<exists>inp'. read_seq read_value (map kind_of sample_values) sample_swapped = Inr (sample_values, inp') \<and> in_ok inp' \<and>
    in_pos inp' = length (out_data sample_written)"
  by (rule message_roundtrip [OF sample_malloc_ok(1) sample_new(1) sample_values_ok sample_writes sample_swapped_ok(1) _ _ _
        sample_swapped_ok(3)])
    (simp_all add: sample_swapped_ok sample_new)



text \<open>What is written to a new stream over a new buffer is what a new input stream over the same buffer
  reads, as \<^verbatim>\<open>create_input_stream\<close> is used for local calls.\<close>

theorem local_roundtrip:
  assumes "malloc_ok m" "block_ok s" "BufferCDR m order s father p = Inr b" "IteratorCDR order b = Inr out"
    and "list_all value_ok vs" "write_seq (write_value m) vs out = Inr out'"
    and "CDRInputStream order (m_bufferCDR out') = Inr inp"
  shows "\<exists>inp'. read_seq read_value (map kind_of vs) inp = Inr (vs, inp')"
proof -
  note new = new_stream_ok [OF assms(1-4)]
  have "writes m out (seq_image (value_image VERSION_1_2) (local_byte_order out) (length (out_data out)) vs) (Inr out')"
    using message.wr_step [of m out VERSION_1_2 vs] assms new by simp
  then have o': "out_ok out'" "settled out'" using new(2) by (auto simp: writes_def)
  note i = input_of_written [OF o' assms(7)]
  show ?thesis
    using message.roundtrip [of m out VERSION_1_2 vs out' inp "[]"] assms new i by auto
qed

theorem local_roundtrip_witness:
  "\<exists>inp'. read_seq read_value (map kind_of sample_values) sample_input = Inr (sample_values, inp')"
  by (rule local_roundtrip [OF sample_malloc_ok(1) sample_block_ok sample_stream sample_values_ok sample_writes sample_reads])

end
