(* ===== verification/Cdr_Encapsulation.thy ===== *)
theory Cdr_Encapsulation
  imports Cdr_Values
begin

text \<open>
  Encapsulations: a stream inside a stream, which begins with its own byte order and is aligned from its
  own start. The properties are about \<^verbatim>\<open>create_encapsulation\<close>, \<^verbatim>\<open>write_buffer\<close> and \<^verbatim>\<open>read_encapsulation\<close>,
  and about the octet array operation they are built on.
\<close>

section \<open>Writing the buffer of an encapsulation\<close>

text \<open>A buffer as an output stream leaves it: the chunks with data come first.\<close>

definition buffer_data :: "buffer \<Rightarrow> octet list" where
  "buffer_data b = concat (map chunk_data (m_chunks b))"

definition buffer_ok :: "buffer \<Rightarrow> bool" where
  "buffer_ok b \<longleftrightarrow> (\<forall>c \<in> set (m_chunks b). chunk_wf c) \<and> packed (m_chunks b) \<and> length (buffer_data b) < 2 ^ 31 - 16"

lemma chunk_available_unat: "chunk_wf c \<Longrightarrow> unat (chunk_get_available_bytes c) = length (chunk_data c)"
proof -
  assume w: "chunk_wf c"
  then have "length (chunk_data c) \<le> unat (m_length c)"
    by (auto simp: length_chunk_data) (auto simp: chunk_wf_def)
  then have lt: "length (chunk_data c) < 2 ^ 32"
    using unat_bound(3) [of "m_length c"] by simp
  have "int (m_available_end c) - int (m_buffer c) = int (length (chunk_data c))"
    using w by (simp add: length_chunk_data) (simp add: chunk_wf_def)
  then have "chunk_get_available_bytes c = word_of_nat (length (chunk_data c))"
    by (simp add: chunk_get_available_bytes_def)
  with lt show ?thesis by (simp add: unat_of_nat)
qed

lemma buffer_available:
  assumes "\<forall>c \<in> set (m_chunks b). chunk_wf c"
  shows "get_available_bytes b = word_of_nat (length (buffer_data b))"
proof -
  have "sum_list (map chunk_get_available_bytes cs) = word_of_nat (length (concat (map chunk_data cs)))"
    if "\<forall>c \<in> set cs. chunk_wf c" for cs
    using that
  proof (induction cs)
    case (Cons c cs)
    then show ?case using chunk_available_unat [of c] by (simp flip: chunk_available_unat)
  qed simp
  with assms show ?thesis by (simp add: get_available_bytes_def buffer_data_def)
qed

text \<open>The loop of \<^verbatim>\<open>write_buffer\<close> takes as many chunks from the front as there are chunks with data.\<close>

lemma packed_tail: "packed (c # cs) \<Longrightarrow> packed cs"
  unfolding packed_def by (metis Suc_less_eq length_Cons nth_Cons_Suc)

lemma packed_empty_head:
  assumes "packed (c # cs)" "chunk_wf c" "chunk_empty c" "d \<in> set cs"
  shows "chunk_empty d"
proof (rule ccontr)
  assume ne: "\<not> chunk_empty d"
  from assms(4) obtain j where j: "j < length cs" "cs ! j = d" by (auto simp: in_set_conv_nth)
  have "chunk_full ((c # cs) ! 0) \<and> chunk_al ((c # cs) ! 0)"
    using assms(1) j ne unfolding packed_def
    by (metis Suc_less_eq length_Cons nth_Cons_Suc zero_less_Suc)
  with assms(2,3) show False by (auto simp: chunk_full_def chunk_al_def chunk_empty_def chunk_wf_def)
qed

lemma available_iff: "chunk_wf c \<Longrightarrow> chunk_get_available_bytes c > 0 \<longleftrightarrow> \<not> chunk_empty c"
  using chunk_available_unat [of c] chunk_data_empty [of c]
  by (auto simp: word_gt_0 unat_eq_0 [symmetric] simp del: unat_eq_0)

lemma write_buffer_loop_writes:
  assumes "malloc_ok m"
  shows "out_ok it \<Longrightarrow> \<forall>c \<in> set cs. chunk_wf c \<Longrightarrow> packed cs \<Longrightarrow>
    writes m it (\<lambda>bs. bs = concat (map chunk_data cs))
      (write_buffer_loop m cs (length (filter (\<lambda>c. chunk_get_available_bytes c > 0) cs)) it)"
proof (induction cs arbitrary: it)
  case (Cons c cs)
  show ?case
  proof (cases "chunk_empty c")
    case True
    then have e: "\<forall>d \<in> set (c # cs). chunk_empty d" using packed_empty_head Cons.prems by simp
    then have "filter (\<lambda>c. chunk_get_available_bytes c > 0) (c # cs) = []"
      "concat (map chunk_data (c # cs)) = []"
      using Cons.prems(2) available_iff chunk_data_empty by (auto simp: filter_empty_conv)
    with Cons.prems(1) show ?thesis by (simp add: writes_def)
  next
    case False
    then have pos: "chunk_get_available_bytes c > 0" using available_iff Cons.prems(2) by simp
    have w: "chunk_wf c" using Cons.prems by simp
    then have ld: "load c (m_buffer c) (unat (chunk_get_available_bytes c)) = Inr (chunk_data c)"
      using load_chunk_data [OF w, of "m_buffer c" "length (chunk_data c)"] w
      by (simp add: chunk_available_unat length_chunk_data) (auto simp: chunk_wf_def)
    have "writes m it (\<lambda>bs. \<exists>b ds. bs = b @ ds \<and> b = chunk_data c \<and> ds = concat (map chunk_data cs))
        (rbind (write_octet_array m (Some (chunk_data c)) it)
          (write_buffer_loop m cs (length (filter (\<lambda>c. chunk_get_available_bytes c > 0) cs))))"
      by (rule writes_bind [OF octets.wr_step [OF assms Cons.prems(1)]])
        (use Cons packed_tail in auto)
    with pos ld show ?thesis by (auto elim: writes_mono)
  qed
qed (simp add: writes_def)

lemma write_buffer_writes:
  assumes "malloc_ok m" "out_ok it" "buffer_ok b"
  shows "writes m it (\<lambda>bs. \<exists>p. bs = p @ buffer_data b \<and>
      word_image 4 (local_byte_order it) (length (out_data it)) (word_of_nat (length (buffer_data b)) :: ulong) p)
    (write_buffer m b it)"
proof -
  let ?n = "word_of_nat (length (buffer_data b)) :: ulong"
  have ok: "\<forall>c \<in> set (m_chunks b). chunk_wf c" "packed (m_chunks b)" using assms(3) by (auto simp: buffer_ok_def)
  have "writes m it (\<lambda>bs. \<exists>p ds. bs = p @ ds \<and> word_image 4 (local_byte_order it) (length (out_data it)) ?n p \<and>
      ds = buffer_data b) (write_buffer m b it)"
    unfolding write_buffer_def buffer_available [OF ok(1)]
    by (rule writes_bind [OF ulong.wr_step])
      (use assms ok write_buffer_loop_writes [OF assms(1)] in \<open>auto simp: buffer_data_def get_num_available_chunks_def\<close>)
  then show ?thesis by (rule writes_mono) blast
qed

section \<open>Reading an encapsulation\<close>

text \<open>The single chunk that \<^verbatim>\<open>read_encapsulation\<close> allocates and fills.\<close>

lemma filled_chunk:
  assumes "malloc_ok m" "size_ok len" "ChunkCDR m n len = Inr c" "length bs = unat len"
  shows "\<exists>c'. store c (m_buffer c) bs = Inr c' \<and> m_buffer c' = m_buffer c \<and>
    chunk_wf (chunk_set_available_bytes c' len) \<and> chunk_data (chunk_set_available_bytes c' len) = bs \<and>
    m_length (chunk_set_available_bytes c' len) = len"
proof -
  from ChunkCDR_wf [OF assms(1-3)] have w: "chunk_wf c" "m_length c = len" by auto
  then have "m_buffer c + length bs \<le> m_buffer_end c" using assms(4) by (simp add: chunk_wf_def)
  then obtain c' where c': "store c (m_buffer c) bs = Inr c'"
    using store_succeeds [OF w(1)] by blast
  note f = store_frame [OF c'] and w' = store_wf [OF w(1) c']
  have "chunk_upto c' (m_buffer c + length bs) = bs"
    using chunk_upto_store [OF w(1) order_refl c'] by simp
  moreover have "chunk_wf (chunk_set_available_bytes c' len)"
    using w' f w by (simp add: chunk_wf_def chunk_set_available_bytes_def)
  ultimately show ?thesis
    using c' f w assms(4) by (simp add: chunk_set_available_bytes_def chunk_data_upto) (simp add: chunk_upto_def)
qed

text \<open>The input stream over one chunk with the given data.\<close>

lemma mono_chunk_stream:
  assumes "m_chunks b = [c]" "chunk_wf c" "size_ok (m_length c)" "CDRInputStream order b = Inr e"
  shows "in_ok e" "in_data e = chunk_data c" "in_pos e = 0" "local_byte_order e = order" "m_version e = VERSION_1_2"
proof -
  from assms(1,4) have e: "m_bufferCDR e = b" "m_chunk e = 0" "m_current_chunk_num e = 0" "m_next e = m_buffer c"
    and mode: "local_byte_order e = order" "m_version e = VERSION_1_2"
    by (auto simp: CDRInputStream_def IteratorCDR_def get_chunk_def)
  show "in_ok e" using assms e by (auto simp: in_ok_def iter_wf_def packed_def cur_chunk_def chunk_wf_def)
  show "in_data e = chunk_data c" "in_pos e = 0" "local_byte_order e = order" "m_version e = VERSION_1_2"
    using assms e mode by (simp_all add: in_data_def in_pos_def data_before_def cur_chunk_def)
qed

lemma set_byte_order_view:
  "in_ok (set_byte_order x e) = in_ok e" "in_data (set_byte_order x e) = in_data e" "in_pos (set_byte_order x e) = in_pos e"
  "wire_order (set_byte_order x e) = x" "m_version (set_byte_order x e) = m_version e"
  "local_byte_order (set_byte_order x e) = local_byte_order e"
  by (auto simp: set_byte_order_def in_ok_def iter_wf_def in_data_def in_pos_def data_before_def cur_chunk_def wire_order_def)

lemma buffer_order_view:
  "in_ok (e\<lparr>m_bufferCDR := (m_bufferCDR e)\<lparr>buf_byte_order := x\<rparr>\<rparr>) = in_ok e"
  "in_data (e\<lparr>m_bufferCDR := (m_bufferCDR e)\<lparr>buf_byte_order := x\<rparr>\<rparr>) = in_data e"
  "in_pos (e\<lparr>m_bufferCDR := (m_bufferCDR e)\<lparr>buf_byte_order := x\<rparr>\<rparr>) = in_pos e"
  "wire_order (e\<lparr>m_bufferCDR := (m_bufferCDR e)\<lparr>buf_byte_order := x\<rparr>\<rparr>) = wire_order e"
  by (auto simp: in_ok_def iter_wf_def in_data_def in_pos_def data_before_def cur_chunk_def wire_order_def)

text \<open>The second half of \<^verbatim>\<open>read_encapsulation\<close>: the octets are copied to the new buffer and its byte order is read.\<close>

lemma open_encapsulation:
  assumes "malloc_ok m" "malloc_total m" "size_ok len" "length data = unat len" "data \<noteq> []"
  shows "\<exists>b c b' e0 e1. BufferCDR m order len father p = Inr b \<and> store (m_chunks b ! 0) (m_buffer (m_chunks b ! 0)) data = Inr c \<and>
    set_available_bytes (b\<lparr>m_chunks := [c]\<rparr>) len = Inr b' \<and> CDRInputStream order b' = Inr e0 \<and>
    read_boolean e0 = Inr (hd data \<noteq> 0, e1) \<and> in_ok e1 \<and> in_data e1 = data \<and> in_pos e1 = 1 \<and>
    local_byte_order e1 = order \<and> m_version e1 = VERSION_1_2"
proof -
  from assms(2) obtain c0 where c0: "ChunkCDR m 0 len = Inr c0"
    by (fastforce simp: ChunkCDR_def malloc_total_def Let_def split: option.splits)
  then obtain b where b: "BufferCDR m order len father p = Inr b" "m_chunks b = [c0]" "m_chunk_size b = len"
    by (auto simp: BufferCDR_def)
  from filled_chunk [OF assms(1,3) c0 assms(4)] obtain c where c: "store c0 (m_buffer c0) data = Inr c"
    "chunk_wf (chunk_set_available_bytes c len)" "chunk_data (chunk_set_available_bytes c len) = data"
    "m_length (chunk_set_available_bytes c len) = len" by blast
  have pos: "len > 0" using assms(4,5) by (auto simp: word_gt_0)
  define b' where "b' = b\<lparr>m_chunks := [chunk_set_available_bytes c len]\<rparr>"
  have "set_available_bytes (b\<lparr>m_chunks := [c]\<rparr>) len = Inr b'"
    using b pos by (simp add: set_available_bytes_def b'_def)
  moreover have b'c: "m_chunks b' = [chunk_set_available_bytes c len]" by (simp add: b'_def)
  obtain e0 where e0: "CDRInputStream order b' = Inr e0"
    using b'c by (auto simp: CDRInputStream_def IteratorCDR_def get_chunk_def)
  note v = mono_chunk_stream [OF b'c c(2) _ e0, unfolded c(3,4), OF assms(3)]
  obtain x xs where d: "data = x # xs" using assms(5) by (cases data) auto
  have img: "prim_image 1 [x] (in_pos e0) [x]" by (simp add: octet_image_plain)
  have "reads e0 x (length [x]) (read_octet e0)"
    by (rule octet.rd_step [OF v(1) _ _ img, of xs]) (use v d in auto)
  from reads_result [OF this, of "\<lambda>y. y \<noteq> 0"]
  obtain e1 where e1: "read_boolean e0 = Inr (x \<noteq> 0, e1)" "in_ok e1" "same_input e0 e1" "in_pos e1 = 1"
    using v(3) by (auto simp: reads_def read_boolean_def)
  ultimately show ?thesis using b c e0 e1 v d by (auto simp: same_input_def same_mode_def)
qed

lemma read_encapsulation_reads:
  assumes "in_ok inp" "malloc_ok m" "malloc_total m" "length data < 2 ^ 31 - 16" "data \<noteq> []"
    and "word_image 4 (wire_order inp) (in_pos inp) (word_of_nat (length data) :: ulong) p"
    and "drop (in_pos inp) (in_data inp) = (p @ data) @ rest"
  shows "\<exists>e inp'. read_encapsulation m inp = Inr (e, inp') \<and> in_ok inp' \<and> same_input inp inp' \<and>
    in_pos inp' = in_pos inp + length (p @ data) \<and> in_ok e \<and> in_data e = data \<and> in_pos e = 1 \<and>
    wire_order e = (hd data \<noteq> 0) \<and> m_version e = VERSION_1_2"
proof -
  define len where "len = (word_of_nat (length data) :: ulong)"
  have len: "unat len = length data" "size_ok len"
    using assms(4) by (auto simp: len_def unat_of_nat size_ok_def)
  from ulong.rd_step [OF assms(1) _ _ assms(6), of "data @ rest"] assms(7)
  obtain i1 where i1: "read_ulong inp = Inr (len, i1)" "in_ok i1" "same_input inp i1" "in_pos i1 = in_pos inp + length p"
    by (auto simp: reads_def len_def)
  have d1: "drop (in_pos i1) (in_data i1) = data @ rest"
    using i1 assms(7) by (simp add: same_input_def add.commute [of "in_pos inp"] drop_drop [symmetric] del: drop_drop)
  have "in_pos i1 < length (in_data i1)" using d1 assms(5) by (metis append_is_Nil_conv drop_all not_less)
  then have "align_to (in_pos i1) (1 - 1) + 1 \<le> length (in_data i1)" by (simp add: align_to_consts)
  then obtain i2 where i2: "in_alignment OCTET_SIZE i1 = Inr i2" "in_ok i2" "same_input i1 i2" "in_pos i2 = in_pos i1"
    using in_alignment_step [OF i1(2), of 1] by (auto simp: prim_size_def align_to_consts)
  obtain pos where pos: "get_absolute_position i2 = Inr pos"
    using in_ok_facts(4,5) [OF i2(2)]
    by (auto simp: get_absolute_position_def get_absolute_position_in_def get_pointer_def get_chunk_def)
  have "drop (in_pos i2) (in_data i2) = data @ rest" using i2 d1 by (simp add: same_input_def)
  then obtain i3 where i3: "read_octet_array (unat len) i2 = Inr (data, i3)" "in_ok i3" "same_input i2 i3"
    "in_pos i3 = in_pos i2 + length data"
    using octets.rd_step [of i2 data data rest] i2(2) len by (auto simp: reads_def)
  have same: "same_input inp i3" using i1 i2 i3 by (blast intro: same_input_trans)
  have lo: "local_byte_order i2 = local_byte_order inp" "local_byte_order i3 = local_byte_order inp"
    using i1 i2 same by (auto simp: same_input_def same_mode_def)
  from open_encapsulation [OF assms(2,3) len(2) len(1) [symmetric] assms(5), of "local_byte_order inp" "Some (m_context (m_bufferCDR i2))" pos]
  obtain b c b' e0 e1 where E: "BufferCDR m (local_byte_order inp) len (Some (m_context (m_bufferCDR i2))) pos = Inr b"
    "store (m_chunks b ! 0) (m_buffer (m_chunks b ! 0)) data = Inr c" "set_available_bytes (b\<lparr>m_chunks := [c]\<rparr>) len = Inr b'"
    "CDRInputStream (local_byte_order inp) b' = Inr e0" "read_boolean e0 = Inr (hd data \<noteq> 0, e1)"
    "in_ok e1" "in_data e1 = data" "in_pos e1 = 1" "m_version e1 = VERSION_1_2" by blast
  let ?e = "set_byte_order (hd data \<noteq> 0) e1"
  have "read_encapsulation m inp = Inr (?e\<lparr>m_bufferCDR := (m_bufferCDR ?e)\<lparr>buf_byte_order := (hd data \<noteq> 0)\<rparr>\<rparr>, i3)"
    unfolding read_encapsulation_def
    by (simp only: i1(1) i2(1) pos i3(1) E(1-5) lo rbind.simps split_conv Let_def)
  then show ?thesis
    using i1 i2 i3 same E by (auto simp: set_byte_order_view buffer_order_view)
qed

section \<open>The stream of an encapsulation\<close>

lemma create_encapsulation_result:
  assumes "malloc_ok m" "block_ok s" "out_ok out" "create_encapsulation m s out = Inr (enc, out1)"
  shows "out_ok out1" "same_mode out out1"
    "\<exists>pad. out_data out1 = out_data out @ pad \<and> length pad = align_to (length (out_data out)) 3 - length (out_data out)"
    "out_ok enc" "settled enc" "out_data enc = [if local_byte_order out then 1 else 0]"
    "local_byte_order enc = local_byte_order out" "m_version enc = VERSION_1_2"
proof -
  from assms(4) obtain p b enc0 where A: "out_alignment m ULONG_SIZE out = Inr out1"
    and B: "BufferCDR m (local_byte_order out1) s (Some (m_context (m_bufferCDR out1))) p = Inr b"
    "IteratorCDR (local_byte_order out1) b = Inr enc0" "write_boolean m (m_byte_order enc0) enc0 = Inr enc"
    by (auto simp: create_encapsulation_def)
  from out_alignment_step [OF assms(1,3), of 4 out1] A
  show a: "out_ok out1" "same_mode out out1"
    "\<exists>pad. out_data out1 = out_data out @ pad \<and> length pad = align_to (length (out_data out)) 3 - length (out_data out)"
    by (auto simp: prim_size_def)
  note n = new_stream_ok [OF assms(1,2) B(1,2)]
  have lo: "local_byte_order out1 = local_byte_order out" using a(2) by (simp add: same_mode_def)
  have mb: "m_byte_order enc0 = local_byte_order out1" using B(2) by (auto simp: IteratorCDR_def split: option.splits)
  have "writes m enc0 (prim_image 1 [if m_byte_order enc0 then 1 else 0] (length (out_data enc0))) (Inr enc)"
    using boolean.wr_step [of m enc0 "m_byte_order enc0"] assms(1) n(1) B(3) by simp
  then show "out_ok enc" "settled enc" "out_data enc = [if local_byte_order out then 1 else 0]"
    "local_byte_order enc = local_byte_order out" "m_version enc = VERSION_1_2"
    using n lo mb by (auto simp: writes_def octet_image_plain same_mode_def)
qed

text \<open>A word at an aligned position, after the padding to that position.\<close>

lemma word_image_padded:
  assumes "length pad = align_to pos 3 - pos" "prim_image 4 bs (pos + length pad) img"
  shows "prim_image 4 bs pos (pad @ img)"
proof -
  have "pos \<le> align_to pos 3" "align_to pos 3 mod 4 = 0" using align_to_prim [of 4 pos] by (simp_all add: prim_size_def)
  then have "align_to (pos + length pad) 3 = pos + length pad" using assms(1) align_to_prim(4) [of 4 "align_to pos 3"]
    by (simp add: prim_size_def)
  with assms show ?thesis by (auto simp: prim_image_def)
qed

text \<open>C3. An encapsulation that is created, filled with values and written to a stream is read back by
  \<^verbatim>\<open>read_encapsulation\<close> on a host of either byte order: the stream it returns reads the values, and the
  outer stream is left behind the encapsulation.\<close>

theorem encapsulation_roundtrip:
  assumes "malloc_ok m" "block_ok s" "out_ok out" "create_encapsulation m s out = Inr (enc, out1)"
    and "list_all value_ok vs" "write_seq (write_value m) vs enc = Inr enc'" "length (out_data enc') < 2 ^ 31 - 16"
    and "write_buffer m (m_bufferCDR enc') out1 = Inr out2"
    and "malloc_ok m'" "malloc_total m'" "in_ok inp" "wire_order inp = local_byte_order out"
    and "in_pos inp = length (out_data out)" "in_data inp = out_data out2 @ rest"
  shows "\<exists>e inp' e'. read_encapsulation m' inp = Inr (e, inp') \<and> in_ok inp' \<and> in_pos inp' = length (out_data out2) \<and>
    read_seq read_value (map kind_of vs) e = Inr (vs, e')"
proof -
  note E = create_encapsulation_result [OF assms(1-4)]
  let ?d = "out_data enc'"
  have "writes m enc (seq_image (value_image VERSION_1_2) (local_byte_order enc) (length (out_data enc)) vs) (Inr enc')"
    using message.wr_step [of m enc VERSION_1_2 vs] assms E by simp
  then obtain vbs where enc': "out_ok enc'" "settled enc'" "?d = out_data enc @ vbs" using E(5) by (auto simp: writes_def)
  have bd: "buffer_data (m_bufferCDR enc') = ?d" unfolding buffer_data_def by (rule written_buffer_data [OF enc'(1,2)])
  have "buffer_ok (m_bufferCDR enc')"
    using enc'(1) written_buffer_packed [OF enc'(1)] assms(7) bd by (auto simp: buffer_ok_def out_ok_def iter_wf_def)
  from write_buffer_writes [OF assms(1) E(1) this] assms(8)
  obtain p where p: "word_image 4 (local_byte_order out1) (length (out_data out1)) (word_of_nat (length ?d) :: ulong) p"
    "out_data out2 = out_data out1 @ p @ ?d" by (auto simp: writes_def bd)
  from E(3) obtain pad where pad: "out_data out1 = out_data out @ pad"
    "length pad = align_to (length (out_data out)) 3 - length (out_data out)" by blast
  have img: "word_image 4 (wire_order inp) (in_pos inp) (word_of_nat (length ?d) :: ulong) (pad @ p)"
    using word_image_padded [OF pad(2)] p(1) pad(1) assms(12,13) E(2) by (simp add: same_mode_def)
  have dr: "drop (in_pos inp) (in_data inp) = ((pad @ p) @ ?d) @ rest"
    using assms(13,14) p(2) pad(1) by simp
  have ne: "?d \<noteq> []" "hd ?d \<noteq> 0 \<longleftrightarrow> local_byte_order out" using enc'(3) E(6) by auto
  from read_encapsulation_reads [OF assms(11,9,10,7) ne(1) img dr]
  obtain e inp' where R: "read_encapsulation m' inp = Inr (e, inp')" "in_ok inp'" "in_pos inp' = in_pos inp + length ((pad @ p) @ ?d)"
    "in_ok e" "in_data e = ?d" "in_pos e = 1" "wire_order e = (hd ?d \<noteq> 0)" "m_version e = VERSION_1_2" by blast
  have "in_pos inp' = length (out_data out2)" using R(3) p(2) pad(1) assms(13) by simp
  moreover have "\<exists>e'. read_seq read_value (map kind_of vs) e = Inr (vs, e')"
    using message.roundtrip [of m enc VERSION_1_2 vs enc' e "[]"] assms(1,5,6) E R ne by auto
  ultimately show ?thesis using R by blast
qed

section \<open>Applied to a message\<close>

lemma create_encapsulation_total:
  assumes "malloc_ok m" "malloc_total m" "block_ok s" "out_ok out"
  shows "\<exists>enc out1. create_encapsulation m s out = Inr (enc, out1)"
proof -
  obtain out1 where A: "out_alignment m ULONG_SIZE out = Inr out1" "out_ok out1"
  proof (cases "out_alignment m ULONG_SIZE out")
    case (Inl e)
    then show ?thesis using out_alignment_error [OF assms(1,4), of ULONG_SIZE e] assms(2)
      by (simp add: prim_size_def alloc_failure_def)
  next
    case (Inr out1)
    then show ?thesis using out_alignment_step [OF assms(1,4), of ULONG_SIZE out1] that by (simp add: prim_size_def)
  qed
  obtain p where p: "get_absolute_position out1 = Inr p"
    using A(2) by (auto simp: get_absolute_position_def get_absolute_position_in_def get_pointer_def get_chunk_def
        out_ok_def iter_wf_def)
  obtain b where b: "BufferCDR m (local_byte_order out1) s (Some (m_context (m_bufferCDR out1))) (p + of_nat ULONG_SIZE) = Inr b"
    using assms(2) by (fastforce simp: BufferCDR_def ChunkCDR_def malloc_total_def Let_def split: option.splits)
  then obtain e0 where e0: "IteratorCDR (local_byte_order out1) b = Inr e0"
    by (auto simp: BufferCDR_def IteratorCDR_def get_chunk_def)
  obtain enc where "write_boolean m (m_byte_order e0) e0 = Inr enc"
    using boolean.wr_total [of m e0 "m_byte_order e0"] new_stream_ok(1) [OF assms(1,3) b e0] assms(1,2)
    by (auto simp: alloc_failure_def)
  with A p b e0 have "create_encapsulation m s out = Inr (enc, out1)"
    unfolding create_encapsulation_def by (simp only: rbind.simps)
  then show ?thesis by blast
qed

text \<open>A message that has been received into one chunk.\<close>

lemma received_message:
  assumes "data \<noteq> []" "length data < 2 ^ 31 - 16"
  shows "\<exists>inp. in_ok inp \<and> in_pos inp = 0 \<and> in_data inp = data \<and> wire_order inp = order \<and> m_version inp = VERSION_1_2"
proof -
  define len where "len = (word_of_nat (length data) :: ulong)"
  have len: "length data = unat len" "size_ok len"
    using assms(2) by (auto simp: len_def unat_of_nat size_ok_def)
  obtain c0 where c0: "ChunkCDR sample_malloc 0 len = Inr c0"
    by (fastforce simp: ChunkCDR_def sample_malloc_def Let_def)
  obtain c where c: "chunk_wf (chunk_set_available_bytes c len)" "chunk_data (chunk_set_available_bytes c len) = data"
    "m_length (chunk_set_available_bytes c len) = len"
    using filled_chunk [OF sample_malloc_ok(1) len(2) c0 len(1)] by blast
  let ?b = "BufferCDR_of_chunk True (chunk_set_available_bytes c len) None 0"
  obtain e where "CDRInputStream True ?b = Inr e"
    by (auto simp: CDRInputStream_def IteratorCDR_def get_chunk_def BufferCDR_of_chunk_def)
  from mono_chunk_stream [OF _ c(1) _ this] c len(2)
  show ?thesis
    by (intro exI [of _ "set_byte_order order e"]) (auto simp: set_byte_order_view BufferCDR_of_chunk_def)
qed

theorem encapsulation_roundtrip_witness:
  "\<exists>enc out1 enc' out2 e inp inp' e'. create_encapsulation sample_malloc 16 sample_out = Inr (enc, out1) \<and>
     write_seq (write_value sample_malloc) [VLong 5] enc = Inr enc' \<and>
     write_buffer sample_malloc (m_bufferCDR enc') out1 = Inr out2 \<and> in_data inp = out_data out2 \<and>
     read_encapsulation sample_malloc inp = Inr (e, inp') \<and>
     read_seq read_value [KLong] e = Inr ([VLong 5], e')"
proof -
  note m = sample_malloc_ok and s = sample_block_ok and o0 = sample_new(1)
  obtain enc out1 where c: "create_encapsulation sample_malloc 16 sample_out = Inr (enc, out1)"
    using create_encapsulation_total [OF m s o0] by blast
  note E = create_encapsulation_result [OF m(1) s o0 c]
  have "writes sample_malloc enc (seq_image (value_image VERSION_1_2) (local_byte_order enc) (length (out_data enc)) [VLong 5])
      (write_seq (write_value sample_malloc) [VLong 5] enc)"
    by (rule message.wr_step) (use m E in simp_all)
  then obtain enc' bs where w: "write_seq (write_value sample_malloc) [VLong 5] enc = Inr enc'" "out_ok enc'" "settled enc'"
    "out_data enc' = out_data enc @ bs" "length bs = 7"
    using m E by (fastforce simp: writes_def alloc_failure_def prim_image_def align_to_consts split: sum.splits)
  have bd: "buffer_data (m_bufferCDR enc') = out_data enc'" unfolding buffer_data_def by (rule written_buffer_data [OF w(2,3)])
  have "buffer_ok (m_bufferCDR enc')"
    using w E written_buffer_packed [OF w(2)] bd by (auto simp: buffer_ok_def out_ok_def iter_wf_def)
  from write_buffer_writes [OF m(1) E(1) this]
  obtain out2 p where o2: "write_buffer sample_malloc (m_bufferCDR enc') out1 = Inr out2"
    "out_data out2 = out_data out1 @ p @ out_data enc'" "length p \<le> 8"
    using m by (fastforce simp: writes_def alloc_failure_def bd prim_image_def align_to_consts split: sum.splits)
  have "length (out_data out1) \<le> 4" using E(3) sample_new(3) by (auto simp: align_to_consts)
  then have "length (out_data out2) < 2 ^ 31 - 16" "out_data out2 \<noteq> []" using o2 w E by auto
  then obtain inp where inp: "in_ok inp" "in_pos inp = 0" "in_data inp = out_data out2" "wire_order inp" 
    using received_message [of "out_data out2" True] by blast
  have "\<exists>e inp' e'. read_encapsulation sample_malloc inp = Inr (e, inp') \<and> in_ok inp' \<and> in_pos inp' = length (out_data out2) \<and>
      read_seq read_value (map kind_of [VLong 5]) e = Inr ([VLong 5], e')"
    by (rule encapsulation_roundtrip [OF m(1) s o0 c _ w(1) _ o2(1) m inp(1), of "[]"])
      (use inp w E sample_new in simp_all)
  with c w o2 inp show ?thesis by auto
qed

end
