(* ===== verification/Cdr_Arrays.thy ===== *)
theory Cdr_Arrays
  imports Cdr_Encapsulation
begin

text \<open>
  What the array operations and the alignment promise: octet arrays are sequences of octets, a primitive
  value is aligned and lies in one chunk, an array of numbers that fits into the current chunk is
  stored as it is, and an array that does not fit can keep \<^verbatim>\<open>write_data_array\<close> busy for ever.
\<close>

section \<open>Octet arrays\<close>

lemma octet_seq_image: "seq_image (\<lambda>order pos v. prim_image 1 [v] pos) order pos vs bs \<longleftrightarrow> bs = vs"
  by (induction vs arbitrary: pos bs) (auto simp: octet_image_plain)

text \<open>\<^verbatim>\<open>write_octet_array\<close>, which copies whole blocks, leaves the same octets in the stream as writing the
  octets one by one with \<^verbatim>\<open>write_octet\<close>.\<close>

theorem octet_array_as_octets:
  assumes "malloc_ok m" "out_ok out" "write_octet_array m (Some bs) out = Inr a" "write_seq (write_octet m) bs out = Inr b"
  shows "out_data a = out_data b"
proof -
  have "out_data a = out_data out @ bs"
    using octets.wr_step [OF assms(1,2), of bs] assms(3) by (simp add: writes_def)
  moreover have "out_data b = out_data out @ bs"
    using octet.array_writes [OF assms(1,2), of bs] assms(4)
    unfolding writes_def octet_seq_image by (auto simp: list.pred_True)
  ultimately show ?thesis by simp
qed

theorem octet_array_as_octets_witness:
  "\<exists>a b. write_octet_array sample_malloc (Some [1, 2, 3]) sample_out = Inr a \<and>
     write_seq (write_octet sample_malloc) [1, 2, 3] sample_out = Inr b \<and> out_data a = out_data b"
proof -
  obtain a where a: "write_octet_array sample_malloc (Some [1, 2, 3]) sample_out = Inr a"
    using octets.wr_total [OF sample_malloc_ok(1) sample_new(1), of "[1, 2, 3]"] sample_malloc_ok(2)
    by (auto simp: alloc_failure_def)
  obtain b where b: "write_seq (write_octet sample_malloc) [1, 2, 3] sample_out = Inr b"
    using octet.array_writes [OF sample_malloc_ok(1) sample_new(1), of "[1, 2, 3]"] sample_malloc_ok(2)
    by (auto simp: writes_def alloc_failure_def split: sum.splits)
  from a b octet_array_as_octets [OF sample_malloc_ok(1) sample_new(1) a b] show ?thesis by blast
qed

section \<open>Alignment\<close>

lemma emit_in_chunk:
  assumes "malloc_ok m" "out_ok it" "prim_size s" "length bs = s" "emit m s bs it = Inr it'"
  shows "m_buffer (cur_chunk it') + s \<le> m_next it'"
proof -
  from assms(5) obtain it1 it2 where A: "out_alignment m s it = Inr it1" "put_bytes bs it1 = Inr it2"
    "it' = bump_available it2" by (auto simp: emit_def)
  have ok1: "out_ok it1" using out_alignment_step [OF assms(1-3) A(1)] by simp
  then have "m_buffer (cur_chunk it1) \<le> m_next it1" "m_chunk it1 < length (m_chunks (m_bufferCDR it1))"
    by (rule out_ok_facts)+
  with A(2,3) assms(4) show ?thesis
    by (auto simp: put_bytes_def bump_available_def dest: store_frame)
qed

text \<open>A value of eight octets is written at an offset of the stream that is a multiple of eight, after
  less than eight octets of padding, and is not broken across two chunks.\<close>

theorem longlong_aligned:
  assumes "malloc_ok m" "out_ok out" "write_longlong m v out = Inr out'"
  shows "\<exists>pad. out_data out' = out_data out @ pad @ host_bytes (local_byte_order out) 8 (unat v) \<and> length pad < 8 \<and>
    length (out_data out @ pad) mod 8 = 0 \<and> m_buffer (cur_chunk out') + 8 \<le> m_next out'"
proof -
  let ?bs = "host_bytes (local_byte_order out) 8 (unat v)" and ?p = "length (out_data out)"
  have e: "write_longlong m v out = emit m 8 ?bs out"
    unfolding write_longlong_def size_defs by (rule emit_local [where enc = "\<lambda>order. host_bytes order 8 (unat v)"])
  have p8: "prim_size 8" by (simp add: prim_size_def)
  have em: "emit m 8 ?bs out = Inr out'" using e assms(3) by simp
  from emit_step [OF assms(1,2) p8, of ?bs] obtain pad where pad:
    "out_data out' = out_data out @ pad @ ?bs" "length pad = align_to ?p 7 - ?p"
    by (auto simp: em prim_image_def)
  moreover have "m_buffer (cur_chunk out') + 8 \<le> m_next out'"
    by (rule emit_in_chunk [OF assms(1,2) p8, of ?bs]) (use em in simp_all)
  ultimately show ?thesis
    using align_to_prim [OF p8, of ?p] by (intro exI [of _ pad]) auto
qed

theorem longlong_aligned_witness:
  "\<exists>out' pad. write_longlong sample_malloc 9 sample_out = Inr out' \<and>
     out_data out' = out_data sample_out @ pad @ host_bytes True 8 9 \<and> length pad < 8"
proof -
  obtain a where a: "write_longlong sample_malloc 9 sample_out = Inr a"
    using longlong.wr_total [OF sample_malloc_ok(1) sample_new(1), of 9] sample_malloc_ok(2)
    by (auto simp: alloc_failure_def)
  from longlong_aligned [OF sample_malloc_ok(1) sample_new(1) a] show ?thesis
    using a sample_new(4) by auto
qed

section \<open>Arrays of numbers\<close>

lemma length_array_image: "length (array_image little n xs) = n * length xs"
  by (induction xs) (simp_all add: array_image_def)

text \<open>One round of \<^verbatim>\<open>write_data_array\<close>, for a chunk of which \<open>fit\<close> values are left.\<close>

lemma data_array_round:
  assumes "out_ok it" "s > 0" "s < 2 ^ 32"
    and "values = (if (m_buffer_end (cur_chunk it) - m_next it) div s > unat n then unat n
                   else (m_buffer_end (cur_chunk it) - m_next it) div s)"
  shows "write_data_array_loop (Suc fuel) m v n s remain it =
    rbind (put_bytes (take (values * s) v) it) (\<lambda>it. if remain - of_nat values > 0
      then rbind (out_get_next_chunk m it) (write_data_array_loop fuel m v n s (remain - of_nat values))
      else Inr (bump_available it))"
proof -
  let ?r = "word_of_int (int (m_buffer_end (cur_chunk it)) - int (m_next it)) :: ulong"
  have "unat (?r div of_nat s) = (m_buffer_end (cur_chunk it) - m_next it) div s"
    using assms(2,3) by (simp only: unat_div unat_room [OF assms(1)]) (simp add: unat_of_nat)
  moreover define w where "w = (if ?r div of_nat s > n then n else ?r div of_nat s)"
  ultimately have u: "unat w = values"
    by (simp add: assms(4) word_less_nat_alt)
  then have "of_nat (unat w) = (of_nat values :: ulong)" by simp
  then have w: "w = of_nat values" by simp
  show ?thesis unfolding write_data_array_loop.simps Let_def w_def [symmetric] u unfolding w ..
qed

text \<open>An array that fits into the current chunk is stored in one round, aligned to its elements.\<close>

lemma data_array_fits:
  assumes "malloc_ok m" "out_ok out" "prim_size s" "0 < n" "n < 2 ^ 32" "length v = n * s"
    and fit: "align_to (m_next out) (s - 1) + n * s \<le> m_buffer_end (cur_chunk out)"
  shows "\<exists>out' pad. write_data_array 1 m (Some v) (of_nat n) s out = Inr out' \<and> out_ok out' \<and> settled out' \<and>
    out_data out' = out_data out @ pad @ v \<and> length pad = align_to (length (out_data out)) (s - 1) - length (out_data out)"
proof -
  have s: "0 < s" "s < 2 ^ 32" using assms(3) by (auto simp: prim_size_def)
  note p = align_to_prim [OF assms(3), of "m_next out"]
  have "0 < n * s" using assms(4) s by simp
  then have lt: "align_to (m_next out) (s - 1) < m_buffer_end (cur_chunk out)" using fit by linarith
  let ?i = "out\<lparr>m_next := align_to (m_next out) (s - 1)\<rparr>"
  have "align_to (m_next out) (s - 1) + (s - 1) \<le> m_buffer_end (cur_chunk out)"
    using fit assms(4) s mult_le_mono1 [of 1 n s] by linarith
  with lt have A: "out_alignment m s out = Inr ?i"
    by (simp add: alignment_def go_next_aligned_position_def Let_def)
  from out_alignment_step [OF assms(1-3) A] obtain pad where ok: "out_ok ?i" and pad: "out_data ?i = out_data out @ pad"
    "length pad = align_to (length (out_data out)) (s - 1) - length (out_data out)" by blast
  have un: "unat (of_nat n :: ulong) = n" using assms(5) by (simp add: unat_of_nat)
  have room: "n \<le> (m_buffer_end (cur_chunk ?i) - m_next ?i) div s"
    using fit s by (simp add: less_eq_div_iff_mult_less_eq)
  have R: "write_data_array_loop (Suc 0) m v (of_nat n) s (of_nat n) ?i =
      rbind (put_bytes (take (n * s) v) ?i) (\<lambda>it. if of_nat n - of_nat n > (0 :: ulong)
        then rbind (out_get_next_chunk m it) (write_data_array_loop 0 m v (of_nat n) s (of_nat n - of_nat n))
        else Inr (bump_available it))"
    by (rule data_array_round [OF ok s]) (use room un in auto)
  have "m_next ?i + length v \<le> m_buffer_end (cur_chunk ?i)" using fit assms(6) by simp
  from put_bytes_step [OF ok this] obtain it1 where P: "put_bytes v ?i = Inr it1" "out_ok it1" "out_data it1 = out_data ?i @ v"
    by blast
  have "write_data_array (Suc 0) m (Some v) (of_nat n) s out = Inr (bump_available it1)"
    unfolding write_data_array_def option.case A rbind.simps R using P(1) assms(6) by simp
  with bump_available_step [OF P(2)] P(3) pad show ?thesis by auto
qed

text \<open>An array of longs that fits into the current chunk is written by \<^verbatim>\<open>write_long_array\<close> in one round: the
  stream gets the padding to a multiple of four and then the memory image of the whole array.\<close>

theorem long_array_in_chunk:
  assumes "malloc_ok m" "out_ok out" "xs \<noteq> []" "length xs < 2 ^ 32"
    and "align_to (m_next out) 3 + 4 * length xs \<le> m_buffer_end (cur_chunk out)"
  shows "\<exists>out' pad. write_long_array 1 m xs out = Inr out' \<and> out_ok out' \<and>
    out_data out' = out_data out @ pad @ array_image (local_byte_order out) 4 (map unat xs) \<and>
    length pad = align_to (length (out_data out)) 3 - length (out_data out)"
  using data_array_fits [OF assms(1,2), of 4 "length xs" "array_image (local_byte_order out) 4 (map unat xs)"] assms
  by (auto simp: write_long_array_def prim_size_def length_array_image mult.commute)

theorem long_array_in_chunk_witness:
  "\<exists>out' pad. write_long_array 1 sample_malloc [5, 6] sample_out = Inr out' \<and>
     out_data out' = out_data sample_out @ pad @ array_image True 4 [5, 6]"
proof -
  have "m_next sample_out = m_buffer (cur_chunk sample_out)"
    "m_buffer_end (cur_chunk sample_out) = m_buffer (cur_chunk sample_out) + 16"
    by (simp_all add: sample_out_def sample_buffer_def BufferCDR_def ChunkCDR_def sample_malloc_def IteratorCDR_def
        get_chunk_def Let_def cur_chunk_def)
  moreover have "m_buffer (cur_chunk sample_out) mod 16 = 0"
    using out_ok_facts(1) [OF sample_new(1)] by (simp add: chunk_wf_def)
  ultimately have "align_to (m_next sample_out) 3 + 4 * length [5, 6 :: ulong] \<le> m_buffer_end (cur_chunk sample_out)"
    by (simp add: align_to_consts)
  from long_array_in_chunk [OF sample_malloc_ok(1) sample_new(1) _ _ this] show ?thesis
    using sample_new(4) by auto
qed

text \<open>The chunks of a buffer that was built by one constructor and by growing: all have the same size.\<close>

definition uniform :: "iter \<Rightarrow> bool" where
  "uniform it \<longleftrightarrow> (\<forall>c \<in> set (m_chunks (m_bufferCDR it)). m_length c = m_chunk_size (m_bufferCDR it))"

lemma uniform_next:
  assumes "malloc_ok m" "out_ok it" "uniform it" "out_get_next_chunk m it = Inr it'"
  shows "uniform it'" "m_chunk_size (m_bufferCDR it') = m_chunk_size (m_bufferCDR it)"
proof -
  let ?k = "m_chunk it" and ?cs = "m_chunks (m_bufferCDR it)"
  let ?c = "set_available_end (cur_chunk it) (m_buffer_end (cur_chunk it))"
  have k: "m_current_chunk_num it = ?k" "?k < length ?cs" and s: "size_ok (m_chunk_size (m_bufferCDR it))"
    using assms(2) by (auto simp: out_ok_def iter_wf_def)
  from out_get_next_chunk_result [OF assms(4) k(1)]
  have R: "m_chunk_size (m_bufferCDR it') = m_chunk_size (m_bufferCDR it)"
    "m_chunks (m_bufferCDR it') = ?cs[?k := ?c] \<or> (\<exists>d n. m_chunks (m_bufferCDR it') = ?cs[?k := ?c] @ [d] \<and>
      ChunkCDR m n (m_chunk_size (m_bufferCDR it)) = Inr d)" by auto
  have "m_length ?c = m_chunk_size (m_bufferCDR it)" using assms(3) k by (simp add: uniform_def cur_chunk_def)
  with assms(3) have u: "\<forall>c \<in> set (?cs[?k := ?c]). m_length c = m_chunk_size (m_bufferCDR it)"
    using set_update_subset_insert [of ?cs ?k ?c] by (auto simp: uniform_def)
  with R ChunkCDR_wf [OF assms(1) s] show "uniform it'"
    by (auto simp: uniform_def)
  show "m_chunk_size (m_bufferCDR it') = m_chunk_size (m_bufferCDR it)" by (rule R(1))
qed

lemma uniform_put:
  assumes "out_ok it" "uniform it" "put_bytes bs it = Inr it'"
  shows "uniform it'" "m_chunk_size (m_bufferCDR it') = m_chunk_size (m_bufferCDR it)"
proof -
  from assms(3) obtain c where c: "store (cur_chunk it) (m_next it) bs = Inr c" "it' = (upd_chunk it c)\<lparr>m_next := m_next it + length bs\<rparr>"
    by (auto simp: put_bytes_def)
  have "m_length c = m_chunk_size (m_bufferCDR it)"
    using store_frame(4) [OF c(1)] assms(2) out_ok_facts(5) [OF assms(1)] by (simp add: uniform_def cur_chunk_def)
  with assms(2) c(2) set_update_subset_insert [of "m_chunks (m_bufferCDR it)" "m_chunk it" c]
  show "uniform it'" "m_chunk_size (m_bufferCDR it') = m_chunk_size (m_bufferCDR it)"
    by (auto simp: uniform_def)
qed

text \<open>The loop never ends when every round takes away an even number of values from an odd counter.\<close>

lemma data_array_diverges:
  assumes "malloc_ok m" "length v = 4 * unat n"
  shows "out_ok it \<Longrightarrow> uniform it \<Longrightarrow> m_next it = m_buffer (cur_chunk it) \<Longrightarrow> odd remain \<Longrightarrow>
    unat (m_chunk_size (m_bufferCDR it)) < 4 * unat n \<Longrightarrow>
    write_data_array_loop fuel m v n 4 remain it = Inl NO_FUEL \<or>
    (write_data_array_loop fuel m v n 4 remain it = Inl NO_MEMORY \<and> \<not> malloc_total m)"
proof (induction fuel arbitrary: remain it)
  case (Suc fuel)
  define k where "k = unat (m_chunk_size (m_bufferCDR it)) div 4"
  note ok = Suc.prems(1)
  have cs: "unat (m_chunk_size (m_bufferCDR it)) mod 8 = 0" using ok by (simp add: out_ok_def)
  then have k4: "unat (m_chunk_size (m_bufferCDR it)) = 4 * k" and "even k" unfolding k_def by presburger+
  have len: "m_buffer_end (cur_chunk it) = m_next it + 4 * k"
    using out_ok_facts(1,5) [OF ok] Suc.prems(2,3) k4 by (simp add: chunk_wf_def uniform_def cur_chunk_def)
  have kn: "k < unat n" using Suc.prems(5) k4 by simp
  have R: "write_data_array_loop (Suc fuel) m v n 4 remain it =
      rbind (put_bytes (take (k * 4) v) it) (\<lambda>it. if remain - of_nat k > 0
        then rbind (out_get_next_chunk m it) (write_data_array_loop fuel m v n 4 (remain - of_nat k))
        else Inr (bump_available it))"
    by (rule data_array_round [OF ok]) (use len kn in auto)
  have tl: "length (take (k * 4) v) = 4 * k" using assms(2) kn by simp
  then obtain it1 where P: "put_bytes (take (k * 4) v) it = Inr it1" "out_ok it1" "m_next it1 = m_buffer_end (cur_chunk it1)"
    using put_bytes_step [OF ok, of "take (k * 4) v"] len by auto
  note U = uniform_put [OF ok Suc.prems(2) P(1)]
  have "even (of_nat k :: ulong)" using \<open>even k\<close> by (auto elim!: evenE)
  then have o: "odd (remain - of_nat k)" using Suc.prems(4) by simp
  then have "remain - of_nat k > 0" by (auto simp: word_gt_0)
  with R P(1) have R': "write_data_array_loop (Suc fuel) m v n 4 remain it =
      rbind (out_get_next_chunk m it1) (write_data_array_loop fuel m v n 4 (remain - of_nat k))" by simp
  show ?case
  proof (cases "out_get_next_chunk m it1")
    case (Inl e)
    with R' out_get_next_chunk_error [OF P(2)] show ?thesis by (auto simp: alloc_failure_def)
  next
    case (Inr it2)
    note N = out_get_next_chunk_step [OF assms(1) P(2) Inr P(3)] uniform_next [OF assms(1) P(2) U(1) Inr]
    then have "write_data_array_loop fuel m v n 4 (remain - of_nat k) it2 = Inl NO_FUEL \<or>
        (write_data_array_loop fuel m v n 4 (remain - of_nat k) it2 = Inl NO_MEMORY \<and> \<not> malloc_total m)"
      using o U(2) Suc.prems(5) by (intro Suc.IH) auto
    with R' Inr show ?thesis by simp
  qed
qed simp



end
