(* ===== verification/Giop_Header.thy ===== *)
theory Giop_Header
  imports Cdr_Encapsulation
begin

unbundle bit_operations_syntax

text \<open>
  The header of a GIOP message (\<^verbatim>\<open>core/comm/iiop/GIOPHeader.C\<close>, \<^verbatim>\<open>MsgType.C\<close>, and the marshalling of
  \<^verbatim>\<open>Version.C\<close>): twelve octets that tell the version, the byte order, the type and the size of the message. The
  first four are written and read as one integer in the order of the host.
\<close>

section \<open>Version\<close>

definition version_write :: "malloc \<Rightarrow> version \<Rightarrow> iter \<Rightarrow> iter res" where
  "version_write m v it = rbind (write_octet m (ucast (ver_major v)) it) (write_octet m (ucast (ver_minor v)))"

definition version_read :: "iter \<Rightarrow> (version \<times> iter) res" where
  "version_read it =
     rbind (read_octet it) (\<lambda>(major, it).
     rbind (read_octet it) (\<lambda>(minor, it).
       let v = \<lparr>ver_major = ucast major, ver_minor = ucast minor\<rparr> in
       if ver_major v \<noteq> 1 \<or> ver_minor v > 2 then Inl MARSHAL else Inr (v, it)))"

section \<open>Message types\<close>

datatype MsgType = Request | Reply | CancelRequest | LocateRequest | LocateReply | CloseConnection | MessageError | Fragment

fun MsgType_to_int :: "MsgType \<Rightarrow> nat" where
  "MsgType_to_int Request = 0"
| "MsgType_to_int Reply = 1"
| "MsgType_to_int CancelRequest = 2"
| "MsgType_to_int LocateRequest = 3"
| "MsgType_to_int LocateReply = 4"
| "MsgType_to_int CloseConnection = 5"
| "MsgType_to_int MessageError = 6"
| "MsgType_to_int Fragment = 7"

definition MsgType_from_int :: "ulong \<Rightarrow> MsgType res" where
  "MsgType_from_int type =
     (if type > word_of_nat (MsgType_to_int Fragment) then Inl MARSHAL
      else Inr ([Request, Reply, CancelRequest, LocateRequest, LocateReply, CloseConnection, MessageError, Fragment] ! unat type))"

section \<open>Header\<close>

record giop_header =
  hd_version :: version
  hd_byte_order :: bool
  message_type :: MsgType
  message_size :: ulong
  more_fragments :: bool
  compressed :: bool

definition GIOPHeader :: "bool \<Rightarrow> giop_header" where
  "GIOPHeader local_order = \<lparr>hd_version = VERSION_1_2, hd_byte_order = local_order, message_type = Request, message_size = 0,
     more_fragments = False, compressed = False\<rparr>"

definition GIOPHeader_type :: "bool \<Rightarrow> version \<Rightarrow> MsgType \<Rightarrow> giop_header" where
  "GIOPHeader_type local_order ver type = \<lparr>hd_version = ver, hd_byte_order = local_order, message_type = type,
     message_size = 0, more_fragments = False, compressed = False\<rparr>"

definition setByteOrder :: "bool \<Rightarrow> giop_header \<Rightarrow> giop_header" where
  "setByteOrder order h = h\<lparr>hd_byte_order := order\<rparr>"

definition setMoreFragments :: "bool \<Rightarrow> giop_header \<Rightarrow> giop_header" where
  "setMoreFragments b h = h\<lparr>more_fragments := b\<rparr>"

definition hasMoreFragments :: "giop_header \<Rightarrow> bool" where
  "hasMoreFragments h = (if ver_minor (hd_version h) = 0 then False else more_fragments h)"

definition setSize :: "ulong \<Rightarrow> giop_header \<Rightarrow> giop_header" where
  "setSize n h = h\<lparr>message_size := n\<rparr>"

definition setCompressed :: "bool \<Rightarrow> giop_header \<Rightarrow> giop_header" where
  "setCompressed c h = h\<lparr>compressed := c\<rparr>"

text \<open>The identifier of the header as an integer, by byte order and compression.\<close>

fun magic :: "bool \<Rightarrow> bool \<Rightarrow> ulong" where
  "magic True True = 1347373402"
| "magic True False = 1347373383"
| "magic False True = 1514753872"
| "magic False False = 1195986768"

definition header_flag :: "giop_header \<Rightarrow> ulong" where
  "header_flag h = (let flag = 0; flag = (if hd_byte_order h then flag OR 1 else flag) in
     if more_fragments h then flag OR 2 else flag)"

definition header_write :: "malloc \<Rightarrow> giop_header \<Rightarrow> iter \<Rightarrow> iter res" where
  "header_write m h it =
     rbind (write_long m (magic (hd_byte_order h) (compressed h)) it) (\<lambda>it.
     rbind (version_write m (hd_version h) it) (\<lambda>it.
     rbind (if Version_eq (hd_version h) VERSION_1_0 then write_boolean m (hd_byte_order h) it
            else write_octet m (ucast (header_flag h)) it) (\<lambda>it.
     rbind (write_octet m (word_of_nat (MsgType_to_int (message_type h))) it) (\<lambda>it.
       write_ulong m (message_size h) it))))"

text \<open>\<^verbatim>\<open>read\<close> tests the identifier against the byte order that the header had before; \<open>header_read_rest\<close> is its part
  after the identifier.\<close>

definition header_read_rest :: "giop_header \<Rightarrow> iter \<Rightarrow> (giop_header \<times> iter) res" where
  "header_read_rest h it =
     rbind (version_read it) (\<lambda>(v, it). let h = h\<lparr>hd_version := v\<rparr> in
     rbind (read_octet it) (\<lambda>(flag, it).
       let h = (if Version_eq v VERSION_1_0 then h\<lparr>hd_byte_order := (flag \<noteq> 0)\<rparr>
                else h\<lparr>hd_byte_order := (flag AND 1 \<noteq> 0), more_fragments := (flag AND 2 \<noteq> 0)\<rparr>);
           it = set_byte_order (hd_byte_order h) it in
       rbind (read_octet it) (\<lambda>(tipo, it).
       rbind (MsgType_from_int (ucast tipo)) (\<lambda>t. let h = h\<lparr>message_type := t\<rparr> in
       rbind (read_ulong it) (\<lambda>(n, it). Inr (h\<lparr>message_size := n\<rparr>, it))))))"

definition header_read :: "giop_header \<Rightarrow> iter \<Rightarrow> (giop_header \<times> iter) res" where
  "header_read h it =
     rbind (read_long it) (\<lambda>(giop, it).
     if (hd_byte_order h \<and> giop \<noteq> 1347373383 \<and> giop \<noteq> 1347373402) \<or>
        (\<not> hd_byte_order h \<and> giop \<noteq> 1195986768 \<and> giop \<noteq> 1514753872) then Inl MARSHAL
     else header_read_rest (h\<lparr>compressed := (giop = 1347373402 \<or> giop = 1514753872)\<rparr>) it)"

section \<open>Codecs\<close>

interpretation octet_pair: cdr_codec_pair write_octet "\<lambda>_. read_octet" "\<lambda>_. ()" "\<lambda>_. True" "\<lambda>_. True" "\<lambda>order pos v. prim_image 1 [v] pos"
  "\<lambda>v. v" write_octet "\<lambda>_. read_octet" "\<lambda>_. ()" "\<lambda>_. True" "\<lambda>order pos v. prim_image 1 [v] pos" "\<lambda>v. v"
  by unfold_locales

definition version_ok :: "version \<Rightarrow> bool" where
  "version_ok v \<longleftrightarrow> ver_major v = 1 \<and> ver_minor v \<le> 2"

lemma version_ok_cases: "version_ok v \<longleftrightarrow> v = VERSION_1_0 \<or> v = VERSION_1_1 \<or> v = VERSION_1_2"
proof -
  have "ver_minor v \<le> 2 \<longleftrightarrow> ver_minor v = 0 \<or> ver_minor v = 1 \<or> ver_minor v = 2"
  proof
    assume "ver_minor v \<le> 2"
    then have "unat (ver_minor v) \<le> 2" by (simp add: word_le_nat_alt)
    then have "unat (ver_minor v) = 0 \<or> unat (ver_minor v) = 1 \<or> unat (ver_minor v) = 2" by linarith
    then show "ver_minor v = 0 \<or> ver_minor v = 1 \<or> ver_minor v = 2" by (simp add: word_unat_eq_iff)
  qed auto
  then show ?thesis by (cases v) (auto simp: version_ok_def VERSION_1_0_def VERSION_1_1_def VERSION_1_2_def)
qed

interpretation version: cdr_codec version_write "\<lambda>_. version_read" "\<lambda>_. ()" version_ok "\<lambda>_. True"
  "\<lambda>order pos v bs. bs = [ucast (ver_major v), ucast (ver_minor v)]" "\<lambda>v. v"
proof (standard, goal_cases)
  case (2 m it v)
  have "writes m it (pair_image (\<lambda>order pos v. prim_image 1 [v] pos) (\<lambda>order pos v. prim_image 1 [v] pos) (local_byte_order it)
      (length (out_data it)) (ucast (ver_major v), ucast (ver_minor v))) (version_write m v it)"
    unfolding version_write_def by (rule octet_pair.pair_writes) (use 2 in auto)
  then show ?case by (rule writes_mono) (auto simp: pair_image_def octet_image_plain)
next
  case (3 it v bs rest)
  let ?a = "ucast (ver_major v) :: octet" and ?b = "ucast (ver_minor v) :: octet"
  have "reads it (?a, ?b) (length bs) (rbind (read_octet it) (\<lambda>(v, it). rbind (read_octet it) (\<lambda>(w, it). Inr ((v, w), it))))"
    by (rule octet_pair.pair_reads) (use 3 in \<open>auto simp: pair_image_def octet_image_plain\<close>)
  then obtain it' where it': "rbind (read_octet it) (\<lambda>(v, it). rbind (read_octet it) (\<lambda>(w, it). Inr ((v, w), it))) = Inr ((?a, ?b), it')"
    "in_ok it'" "same_input it it'" "in_pos it' = in_pos it + length bs" by (auto simp: reads_def)
  then obtain it1 where "read_octet it = Inr (?a, it1)" "read_octet it1 = Inr (?b, it')" by auto
  moreover have "ucast ?a = ver_major v" "ucast ?b = ver_minor v"
    using 3(3) by (auto simp: version_ok_cases VERSION_1_0_def VERSION_1_1_def VERSION_1_2_def)
  ultimately have "version_read it = (let w = v in if ver_major w \<noteq> 1 \<or> ver_minor w > 2 then Inl MARSHAL else Inr (w, it'))"
    by (simp only: version_read_def rbind.simps split_conv) simp
  then have "version_read it = Inr (v, it')" using 3(3) by (simp add: version_ok_def not_less)
  with it' show ?case by (auto simp: reads_def)
qed auto

section \<open>Reading given octets\<close>

lemma host_bytes_host_val: "length bs = n \<Longrightarrow> host_bytes order n (host_val order bs) = bs"
  using le_bytes_le_val [of bs] le_bytes_le_val [of "rev bs"] by (auto simp: host_bytes_def host_val_def)

lemma host_val_bound: "host_val order bs < 256 ^ length bs"
  using le_val_bound [of bs] le_val_bound [of "rev bs"] by (simp add: host_val_def)

abbreviation host_long :: "bool \<Rightarrow> octet list \<Rightarrow> ulong" where
  "host_long order bs \<equiv> word_of_nat (host_val order bs)"

lemma unat_host_long: "length bs = 4 \<Longrightarrow> unat (host_long order bs) = host_val order bs"
  using host_val_bound [of order bs] by (simp add: unat_of_nat)

lemma prim_image_aligned: "pos mod 4 = 0 \<Longrightarrow> prim_image 4 b pos bs \<longleftrightarrow> bs = b"
proof -
  assume "pos mod 4 = 0"
  then have "(pos + 3) div 4 * 4 - pos = 0" by presburger
  then show ?thesis by (simp add: prim_image_def align_to_consts)
qed

lemma read_octet_at:
  assumes "in_ok it" "drop (in_pos it) (in_data it) = v # rest"
  shows "\<exists>it'. read_octet it = Inr (v, it') \<and> in_ok it' \<and> same_input it it' \<and> in_pos it' = Suc (in_pos it) \<and>
    drop (in_pos it') (in_data it') = rest"
proof -
  have "reads it v (length [v]) (read_octet it)"
    by (rule octet.rd_step [of it v "[v]" rest]) (use assms in \<open>auto simp: octet_image_plain\<close>)
  moreover have "drop (Suc (in_pos it)) (in_data it) = rest" using assms(2) by (metis drop_Suc list.sel(3) tl_drop)
  ultimately show ?thesis by (auto simp: reads_def same_input_def)
qed

lemma read_long_at:
  assumes "in_ok it" "in_pos it mod 4 = 0" "length bs = 4" "drop (in_pos it) (in_data it) = bs @ rest"
  shows "\<exists>it'. read_long it = Inr (host_long (wire_order it) bs, it') \<and> read_ulong it = Inr (host_long (wire_order it) bs, it') \<and>
    in_ok it' \<and> same_input it it' \<and> in_pos it' = in_pos it + 4 \<and> drop (in_pos it') (in_data it') = rest"
proof -
  let ?v = "host_long (wire_order it) bs"
  have img: "word_image 4 (wire_order it) (in_pos it) ?v bs"
    using assms(2,3) by (simp add: prim_image_aligned unat_host_long host_bytes_host_val)
  have "reads it ?v (length bs) (read_long it)" using long.rd_step [OF assms(1) _ _ img assms(4)] by simp
  moreover have "drop (in_pos it + 4) (in_data it) = rest"
    using arg_cong [OF assms(4), of "drop 4"] assms(3) by (simp add: add.commute)
  moreover have "read_ulong it = read_long it" by (simp add: read_ulong_def read_long_def)
  ultimately show ?thesis using assms(3) by (auto simp: reads_def same_input_def)
qed

section \<open>The identifier\<close>

definition giop_bytes :: "bool \<Rightarrow> octet list" where
  "giop_bytes c = [if c then 90 else 71, 73, 79, 80]"

lemma le_bytes_4: "le_bytes 4 x = [word_of_nat x, word_of_nat (x div 256), word_of_nat (x div 65536), word_of_nat (x div 16777216)]"
proof -
  have "4 = Suc (Suc (Suc (Suc 0)))" by simp
  then show ?thesis by (simp only: le_bytes.simps div_mult2_eq [symmetric]) simp
qed

lemma magic_bytes: "host_bytes order 4 (unat (magic order c)) = giop_bytes c"
  by (cases order; cases c) (simp_all add: host_bytes_def giop_bytes_def le_bytes_4)

lemma magic_test: "length bs = 4 \<Longrightarrow> host_long order bs = magic order c \<longleftrightarrow> bs = giop_bytes c"
  using magic_bytes [of order c] unat_host_long [of bs order] host_bytes_host_val [of bs 4 order]
    host_val_host_bytes [of "unat (magic order c)" 4 order] unat_bound(3) [of "magic order c"]
  by (auto simp: word_unat_eq_iff)

section \<open>Reading a header\<close>

text \<open>What \<^verbatim>\<open>read\<close> makes of the octets of a header, given the header before.\<close>

definition header_of :: "giop_header \<Rightarrow> octet list \<Rightarrow> giop_header res" where
  "header_of h bs =
     (if take 4 bs \<notin> {giop_bytes False, giop_bytes True} \<or> bs ! 4 \<noteq> 1 \<or> bs ! 5 > 2 \<or> bs ! 7 > 7 then Inl MARSHAL
      else let order = (if bs ! 5 = 0 then bs ! 6 \<noteq> 0 else bs ! 6 AND 1 \<noteq> 0) in
        Inr \<lparr>hd_version = \<lparr>ver_major = 1, ver_minor = ucast (bs ! 5)\<rparr>, hd_byte_order = order,
             message_type = [Request, Reply, CancelRequest, LocateRequest, LocateReply, CloseConnection, MessageError, Fragment] ! unat (bs ! 7),
             message_size = host_long order (drop 8 bs),
             more_fragments = (if bs ! 5 = 0 then more_fragments h else bs ! 6 AND 2 \<noteq> 0), compressed = (take 4 bs = giop_bytes True)\<rparr>)"

lemma octet_tests:
  "(ucast (b :: octet) :: ulong) = 1 \<longleftrightarrow> b = 1" "(ucast b :: ulong) > 2 \<longleftrightarrow> b > 2" "(ucast b :: ulong) > 7 \<longleftrightarrow> b > 7"
  "(ucast b :: ulong) = 0 \<longleftrightarrow> b = 0" "unat (ucast b :: ulong) = unat b"
proof -
  have u: "unat (ucast b :: ulong) = unat b" using unat_bound(1) [of b] by (simp add: unsigned_ucast_eq take_bit_nat_eq_self)
  show "unat (ucast b :: ulong) = unat b" by (rule u)
  show "(ucast b :: ulong) = 1 \<longleftrightarrow> b = 1" "(ucast b :: ulong) = 0 \<longleftrightarrow> b = 0" using u by (simp_all add: word_unat_eq_iff)
  show "(ucast b :: ulong) > 2 \<longleftrightarrow> b > 2" "(ucast b :: ulong) > 7 \<longleftrightarrow> b > 7" using u by (simp_all add: word_less_nat_alt)
qed

text \<open>The part after the identifier.\<close>

lemma version_read_at:
  assumes "in_ok it" "drop (in_pos it) (in_data it) = major # minor # rest"
  shows "(major \<noteq> 1 \<or> minor > 2 \<longrightarrow> version_read it = Inl MARSHAL) \<and>
    (major = 1 \<and> \<not> minor > 2 \<longrightarrow> (\<exists>it'. version_read it = Inr (\<lparr>ver_major = 1, ver_minor = ucast minor\<rparr>, it') \<and>
       in_ok it' \<and> same_input it it' \<and> in_pos it' = in_pos it + 2 \<and> drop (in_pos it') (in_data it') = rest))"
proof -
  from read_octet_at [OF assms] obtain i1 where i1: "read_octet it = Inr (major, i1)" "in_ok i1" "same_input it i1"
    "in_pos i1 = Suc (in_pos it)" "drop (in_pos i1) (in_data i1) = minor # rest" by blast
  from read_octet_at [OF i1(2,5)] obtain i2 where i2: "read_octet i1 = Inr (minor, i2)" "in_ok i2" "same_input i1 i2"
    "in_pos i2 = Suc (in_pos i1)" "drop (in_pos i2) (in_data i2) = rest" by blast
  show ?thesis
    using i1 i2 by (auto simp: version_read_def Let_def octet_tests intro: same_input_trans)
qed

lemma header_of_compressed: "header_of (h\<lparr>compressed := c\<rparr>) bs = header_of h bs"
proof -
  have "more_fragments (h\<lparr>compressed := c\<rparr>) = more_fragments h" by simp
  then show ?thesis by (simp only: header_of_def)
qed

lemma MsgType_from_octet:
  "MsgType_from_int (ucast (tipo :: octet)) = (if tipo > 7 then Inl MARSHAL
     else Inr ([Request, Reply, CancelRequest, LocateRequest, LocateReply, CloseConnection, MessageError, Fragment] ! unat tipo))"
  by (simp add: MsgType_from_int_def octet_tests)

text \<open>What \<^verbatim>\<open>read\<close> does to the stream: it moves over the octets and takes the byte order of the message.\<close>

definition header_done :: "iter \<Rightarrow> nat \<Rightarrow> giop_header \<Rightarrow> iter \<Rightarrow> bool" where
  "header_done it n h it' \<longleftrightarrow> in_ok it' \<and> in_data it' = in_data it \<and> in_pos it' = in_pos it + n \<and> wire_order it' = hd_byte_order h \<and>
     local_byte_order it' = local_byte_order it"

lemma header_read_rest_spec:
  assumes "in_ok it" "in_pos it mod 4 = 0" "length g = 4" "length sz = 4" "g \<in> {giop_bytes False, giop_bytes True}"
    "compressed h = (g = giop_bytes True)" "drop (in_pos it) (in_data it) = major # minor # flag # tipo # sz @ rest"
  shows "case header_of h (g @ major # minor # flag # tipo # sz) of Inl e \<Rightarrow> header_read_rest h it = Inl e
    | Inr h' \<Rightarrow> \<exists>it'. header_read_rest h it = Inr (h', it') \<and> header_done it 8 h' it'"
proof (cases "major = 1 \<and> \<not> minor > 2")
  case False
  then show ?thesis
    using version_read_at [OF assms(1,7)] assms(3) by (auto simp: header_of_def header_read_rest_def nth_append)
next
  case True
  from version_read_at [OF assms(1,7)] True obtain i1 where
    i1: "version_read it = Inr (\<lparr>ver_major = 1, ver_minor = ucast minor\<rparr>, i1)" "in_ok i1" "same_input it i1"
    "in_pos i1 = in_pos it + 2" "drop (in_pos i1) (in_data i1) = flag # tipo # sz @ rest" by blast
  from read_octet_at [OF i1(2,5)] obtain i2 where i2: "read_octet i1 = Inr (flag, i2)" "in_ok i2" "same_input i1 i2"
    "in_pos i2 = Suc (in_pos i1)" "drop (in_pos i2) (in_data i2) = tipo # sz @ rest" by blast
  define order where "order = (if minor = 0 then flag \<noteq> 0 else flag AND 1 \<noteq> 0)"
  define i3 where "i3 = set_byte_order order i2"
  have i3: "in_ok i3" "in_pos i3 = in_pos i2" "in_data i3 = in_data i2" "wire_order i3 = order" "local_byte_order i3 = local_byte_order i2"
    by (simp_all add: i3_def set_byte_order_view i2)
  from read_octet_at [OF i3(1), of tipo "sz @ rest"] i2(5) i3 obtain i4 where
    i4: "read_octet i3 = Inr (tipo, i4)" "in_ok i4" "same_input i3 i4" "in_pos i4 = Suc (in_pos i3)"
    "drop (in_pos i4) (in_data i4) = sz @ rest" by auto
  have "in_pos i4 = in_pos it + 4" using i4 i3 i2 i1 by simp
  then have "in_pos i4 mod 4 = 0" using assms(2) by presburger
  from read_long_at [OF i4(2) this assms(4) i4(5)] obtain i5 where
    i5: "read_ulong i4 = Inr (host_long (wire_order i4) sz, i5)" "in_ok i5" "same_input i4 i5" "in_pos i5 = in_pos i4 + 4" by blast
  have w: "wire_order i4 = order" "wire_order i5 = order"
    using wire_order_same [of i3 i4] wire_order_same [of i4 i5] i4 i5 i3 by (simp_all add: same_input_def)
  define h1 where "h1 = (if minor = 0 then h\<lparr>hd_version := \<lparr>ver_major = 1, ver_minor = ucast minor\<rparr>, hd_byte_order := order\<rparr>
    else h\<lparr>hd_version := \<lparr>ver_major = 1, ver_minor = ucast minor\<rparr>, hd_byte_order := order, more_fragments := (flag AND 2 \<noteq> 0)\<rparr>)"
  have "header_read_rest h it = rbind (MsgType_from_int (ucast tipo)) (\<lambda>t. Inr (h1\<lparr>message_type := t, message_size := host_long order sz\<rparr>, i5))"
    using i1(1) i2(1) i4(1) i5(1) w(1)
    by (cases "minor = 0") (simp_all add: header_read_rest_def Version_eq_def VERSION_1_0_def octet_tests Let_def i3_def order_def h1_def)
  moreover have "header_of h (g @ major # minor # flag # tipo # sz) =
      rbind (MsgType_from_int (ucast tipo)) (\<lambda>t. Inr (h1\<lparr>message_type := t, message_size := host_long order sz\<rparr>))"
  proof -
    have "g \<notin> {giop_bytes False, giop_bytes True} \<or> major \<noteq> 1 \<or> minor > 2 \<or> tipo > 7 \<longleftrightarrow> tipo > 7" using True assms(5) by simp
    then show ?thesis
      using True assms(3,6) unfolding header_of_def by (cases "tipo > 7"; cases "minor = 0")
        (simp_all add: nth_append MsgType_from_octet h1_def order_def Let_def)
  qed
  moreover have "header_done it 8 (h1\<lparr>message_type := t, message_size := n\<rparr>) i5" for t n
    using i1 i2 i3 i4 i5 w by (auto simp: header_done_def same_input_def same_mode_def h1_def)
  ultimately show ?thesis by (cases "MsgType_from_int (ucast tipo)") auto
qed

lemma header_parts:
  assumes "length bs = 12"
  obtains g major minor flag tipo sz where "bs = g @ major # minor # flag # tipo # sz" "length g = 4" "length sz = (4 :: nat)"
    "take 4 bs = g" "bs ! 4 = major" "bs ! 5 = minor" "bs ! 6 = flag" "bs ! 7 = tipo" "drop 8 bs = sz"
proof -
  have "bs = take 4 bs @ bs ! 4 # bs ! 5 # bs ! 6 # bs ! 7 # drop 8 bs"
    using assms by (intro nth_equalityI) (auto simp: nth_append nth_Cons' numeral_eq_Suc less_Suc_eq)
  then show ?thesis using assms by (intro that [of "take 4 bs" "bs ! 4" "bs ! 5" "bs ! 6" "bs ! 7" "drop 8 bs"]) simp_all
qed

lemma header_read_spec:
  assumes "in_ok it" "in_pos it mod 4 = 0" "wire_order it = hd_byte_order h" "length bs = 12"
    "drop (in_pos it) (in_data it) = bs @ rest"
  shows "case header_of h bs of Inl e \<Rightarrow> header_read h it = Inl e
    | Inr h' \<Rightarrow> \<exists>it'. header_read h it = Inr (h', it') \<and> header_done it 12 h' it'"
proof -
  obtain g major minor flag tipo sz where bs: "bs = g @ major # minor # flag # tipo # sz" and len: "length g = 4" "length sz = 4"
    and parts: "take 4 bs = g" "bs ! 4 = major" "bs ! 5 = minor" "bs ! 6 = flag" "bs ! 7 = tipo" "drop 8 bs = sz"
    by (rule header_parts [OF assms(4)])
  have "drop (in_pos it) (in_data it) = g @ (major # minor # flag # tipo # sz @ rest)" using assms(5) bs by simp
  from read_long_at [OF assms(1,2) len(1) this] obtain i1 where i1: "read_long it = Inr (host_long (hd_byte_order h) g, i1)"
    "in_ok i1" "same_input it i1" "in_pos i1 = in_pos it + 4" "drop (in_pos i1) (in_data i1) = major # minor # flag # tipo # sz @ rest"
    using assms(3) by auto
  note mt = magic_test [OF len(1), of "hd_byte_order h"]
  have bad: "(hd_byte_order h \<and> host_long (hd_byte_order h) g \<noteq> 1347373383 \<and> host_long (hd_byte_order h) g \<noteq> 1347373402) \<or>
     (\<not> hd_byte_order h \<and> host_long (hd_byte_order h) g \<noteq> 1195986768 \<and> host_long (hd_byte_order h) g \<noteq> 1514753872)
     \<longleftrightarrow> g \<notin> {giop_bytes False, giop_bytes True}"
    using mt [of True] mt [of False] by (cases "hd_byte_order h") auto
  show ?thesis
  proof (cases "g \<in> {giop_bytes False, giop_bytes True}")
    case False
    then show ?thesis using i1(1) bad by (simp add: header_of_def parts header_read_def)
  next
    case True
    have comp: "(host_long (hd_byte_order h) g = 1347373402 \<or> host_long (hd_byte_order h) g = 1514753872) \<longleftrightarrow> g = giop_bytes True"
      using mt [of True] mt [of False] True by (cases "hd_byte_order h") (auto simp: giop_bytes_def)
    from i1(4) assms(2) have "in_pos i1 mod 4 = 0" by presburger
    from header_read_rest_spec [OF i1(2) this len True _ i1(5), of "h\<lparr>compressed := (g = giop_bytes True)\<rparr>"]
    have "case header_of h bs of Inl e \<Rightarrow> header_read_rest (h\<lparr>compressed := (g = giop_bytes True)\<rparr>) i1 = Inl e
      | Inr h' \<Rightarrow> \<exists>it'. header_read_rest (h\<lparr>compressed := (g = giop_bytes True)\<rparr>) i1 = Inr (h', it') \<and> header_done i1 8 h' it'"
      unfolding bs [symmetric] header_of_compressed by simp
    moreover have "header_read h it = header_read_rest (h\<lparr>compressed := (g = giop_bytes True)\<rparr>) i1"
      by (simp only: header_read_def i1(1) rbind.simps split_conv bad comp) (use True in simp)
    moreover have "header_done i1 8 h' it' \<Longrightarrow> header_done it 12 h' it'" for h' it'
      using i1(3,4) by (simp add: header_done_def same_input_def same_mode_def)
    ultimately show ?thesis by (cases "header_of h bs") auto
  qed
qed

section \<open>Writing a header\<close>

definition header_bytes :: "giop_header \<Rightarrow> octet list" where
  "header_bytes h = giop_bytes (compressed h) @ [ucast (ver_major (hd_version h)), ucast (ver_minor (hd_version h)),
     if hd_version h = VERSION_1_0 then (if hd_byte_order h then 1 else 0) else ucast (header_flag h),
     word_of_nat (MsgType_to_int (message_type h))] @ host_bytes (hd_byte_order h) 4 (unat (message_size h))"

lemma writes_then:
  assumes "writes m it (\<lambda>bs. bs = b) r"
    and "\<And>it'. out_ok it' \<Longrightarrow> same_mode it it' \<Longrightarrow> out_data it' = out_data it @ b \<Longrightarrow> writes m it' (\<lambda>bs. bs = cs) (f it')"
  shows "writes m it (\<lambda>bs. bs = b @ cs) (rbind r f)"
  by (rule writes_mono [OF writes_bind [OF assms(1)]]) (use assms(2) in auto)

lemma writes_octet: "malloc_ok m \<Longrightarrow> out_ok it \<Longrightarrow> writes m it (\<lambda>bs. bs = [v]) (write_octet m v it)"
  using octet.wr_step [of m it v] by (auto simp: octet_image_plain elim: writes_mono)

lemma writes_long:
  assumes "malloc_ok m" "out_ok it" "length (out_data it) mod 4 = 0"
  shows "writes m it (\<lambda>bs. bs = host_bytes (local_byte_order it) 4 (unat v)) (write_long m v it)"
    "writes m it (\<lambda>bs. bs = host_bytes (local_byte_order it) 4 (unat v)) (write_ulong m v it)"
  using long.wr_step [of m it v] ulong.wr_step [of m it v] assms by (auto simp: prim_image_aligned elim: writes_mono)

lemma header_writes:
  assumes "malloc_ok m" "out_ok it" "length (out_data it) mod 4 = 0" "local_byte_order it = hd_byte_order h"
    "version_ok (hd_version h)"
  shows "writes m it (\<lambda>bs. bs = header_bytes h) (header_write m h it)"
proof -
  let ?v = "hd_version h" and ?b = "hd_byte_order h"
  let ?flag = "if ?v = VERSION_1_0 then (if ?b then 1 else 0) else ucast (header_flag h) :: octet"
  have flag: "writes m it (\<lambda>bs. bs = [?flag]) (if Version_eq ?v VERSION_1_0 then write_boolean m ?b it else write_octet m (ucast (header_flag h)) it)"
    if "out_ok it" for it
    using writes_octet [OF assms(1) that] by (simp add: Version_eq_iff write_boolean_def)
  have size: "writes m it (\<lambda>bs. bs = host_bytes ?b 4 (unat (message_size h))) (write_ulong m (message_size h) it)"
    if "out_ok it" "length (out_data it) mod 4 = 0" "local_byte_order it = ?b" for it
    using writes_long(2) [OF assms(1) that(1,2), of "message_size h"] that(3) by simp
  have len: "length (giop_bytes c) = 4" for c by (simp add: giop_bytes_def)
  have mag: "writes m it (\<lambda>bs. bs = giop_bytes (compressed h)) (write_long m (magic ?b (compressed h)) it)"
    using writes_long(1) [OF assms(1-3), of "magic ?b (compressed h)"] by (simp add: assms(4) magic_bytes)
  have "writes m it (\<lambda>bs. bs = giop_bytes (compressed h) @ [ucast (ver_major ?v), ucast (ver_minor ?v)] @ [?flag] @
      [word_of_nat (MsgType_to_int (message_type h))] @ host_bytes ?b 4 (unat (message_size h))) (header_write m h it)"
    unfolding header_write_def
    by (intro writes_then [OF mag] writes_then [OF version.wr_step [OF assms(1)]] writes_then [OF flag]
        writes_then [OF writes_octet [OF assms(1)]] size)
      (use assms len in \<open>auto simp: same_mode_def\<close>)
  then show ?thesis by (simp add: header_bytes_def)
qed

lemma header_flag_bits:
  "(ucast (header_flag h) AND 1 \<noteq> (0 :: octet)) = hd_byte_order h" "(ucast (header_flag h) AND 2 \<noteq> (0 :: octet)) = more_fragments h"
  by (cases "hd_byte_order h"; cases "more_fragments h"; simp add: header_flag_def)+

lemma MsgType_octet:
  "MsgType_to_int t mod 256 = MsgType_to_int t" "\<not> word_of_nat (MsgType_to_int t) > (7 :: octet)"
  "[Request, Reply, CancelRequest, LocateRequest, LocateReply, CloseConnection, MessageError, Fragment] ! MsgType_to_int t = t"
  by (cases t; simp)+

lemma host_long_bytes: "host_long order (host_bytes order 4 (unat n)) = n"
  using unat_bound(3) [of n] by (simp add: host_val_host_bytes)

lemma giop_bytes_cases: "giop_bytes c \<in> {giop_bytes False, giop_bytes True}" "(giop_bytes c = giop_bytes True) = c"
  by (cases c; simp add: giop_bytes_def)+

text \<open>A header of version 1.0 does not carry the flag of the fragments, which stays as it was.\<close>

lemma header_of_bytes:
  assumes "version_ok (hd_version h)"
  shows "header_of h0 (header_bytes h) = Inr (if hd_version h = VERSION_1_0 then h\<lparr>more_fragments := more_fragments h0\<rparr> else h)"
proof -
  have parts: "take 4 (header_bytes h) = giop_bytes (compressed h)" "header_bytes h ! 4 = ucast (ver_major (hd_version h))"
    "header_bytes h ! 5 = ucast (ver_minor (hd_version h))" "header_bytes h ! 7 = word_of_nat (MsgType_to_int (message_type h))"
    "header_bytes h ! 6 = (if hd_version h = VERSION_1_0 then (if hd_byte_order h then 1 else 0) else ucast (header_flag h))"
    "drop 8 (header_bytes h) = host_bytes (hd_byte_order h) 4 (unat (message_size h))"
    by (simp_all add: header_bytes_def giop_bytes_def nth_Cons')
  show ?thesis
    using assms giop_bytes_cases(1) [of "compressed h"] unfolding version_ok_cases header_of_def parts
    by (elim disjE; cases "hd_byte_order h"; cases h)
      (simp_all add: giop_bytes_cases(2) VERSION_1_0_def VERSION_1_1_def VERSION_1_2_def MsgType_octet header_flag_bits host_long_bytes Let_def)
qed

section \<open>Properties\<close>

text \<open>C10. A header written by one host is read by another one, with any byte orders: the reader, which starts with a
  header in its own byte order, gets the version, type, size, compression and, from version 1.1 on, the fragment flag
  of the message, and continues to read in the byte order of the writer.\<close>

theorem header_roundtrip:
  assumes "malloc_ok m" "out_ok out" "length (out_data out) mod 4 = 0" "local_byte_order out = hd_byte_order h"
    and "version_ok (hd_version h)" "header_write m h out = Inr out'"
    and "in_ok inp" "in_pos inp = length (out_data out)" "in_data inp = out_data out' @ rest" "wire_order inp = hd_byte_order h0"
  shows "\<exists>inp'. header_read h0 inp =
      Inr (if hd_version h = VERSION_1_0 then h\<lparr>more_fragments := more_fragments h0\<rparr> else h, inp') \<and>
    in_ok inp' \<and> in_pos inp' = length (out_data out') \<and> wire_order inp' = hd_byte_order h"
proof -
  have d: "out_data out' = out_data out @ header_bytes h" using header_writes [OF assms(1-5)] assms(6) by (auto simp: writes_def)
  have len: "length (header_bytes h) = 12" by (simp add: header_bytes_def giop_bytes_def)
  have "drop (in_pos inp) (in_data inp) = header_bytes h @ rest" using assms(8,9) d by simp
  from header_read_spec [OF assms(7) _ assms(10) len this] assms(3,5,8) obtain inp' where
    "header_read h0 inp = Inr (if hd_version h = VERSION_1_0 then h\<lparr>more_fragments := more_fragments h0\<rparr> else h, inp')"
    "header_done inp 12 (if hd_version h = VERSION_1_0 then h\<lparr>more_fragments := more_fragments h0\<rparr> else h) inp'"
    by (auto simp: header_of_bytes)
  then show ?thesis using assms(8) d len by (auto simp: header_done_def split: if_splits)
qed

text \<open>A message is rejected with \<^verbatim>\<open>MARSHAL\<close> exactly when it does not begin with \<^verbatim>\<open>GIOP\<close> or \<^verbatim>\<open>ZIOP\<close>, its version is not
  1.0, 1.1 or 1.2, or its type is not one of the eight, whatever the byte order of the host; every other sequence of
  twelve octets is a header.\<close>

theorem header_rejected:
  assumes "in_ok inp" "in_pos inp mod 4 = 0" "wire_order inp = hd_byte_order h" "length bs = 12"
    "drop (in_pos inp) (in_data inp) = bs @ rest"
  shows "if take 4 bs \<in> {[71, 73, 79, 80], [90, 73, 79, 80]} \<and> bs ! 4 = 1 \<and> bs ! 5 \<le> 2 \<and> bs ! 7 \<le> 7
    then \<exists>h' inp'. header_read h inp = Inr (h', inp') \<and> version_ok (hd_version h') \<and> in_pos inp' = in_pos inp + 12
    else header_read h inp = Inl MARSHAL"
proof -
  have v: "version_ok \<lparr>ver_major = 1, ver_minor = ucast (bs ! 5)\<rparr> \<longleftrightarrow> bs ! 5 \<le> 2"
    by (simp add: version_ok_def octet_tests flip: not_less)
  show ?thesis
    using header_read_spec [OF assms] v
    by (auto simp: header_of_def giop_bytes_def header_done_def Let_def not_less not_le split: if_splits)
qed

section \<open>Applied to a message\<close>

definition sample_header :: giop_header where
  "sample_header = setMoreFragments True (setSize 100 (GIOPHeader_type True VERSION_1_1 Reply))"

theorem header_roundtrip_witness:
  "\<exists>out' inp inp'. header_write sample_malloc sample_header sample_out = Inr out' \<and> in_data inp = out_data out' \<and>
     wire_order inp = False \<and> header_read (GIOPHeader False) inp = Inr (sample_header, inp') \<and> wire_order inp'"
proof -
  have h: "hd_byte_order sample_header" "hd_version sample_header = VERSION_1_1" "VERSION_1_1 \<noteq> VERSION_1_0" "version_ok VERSION_1_1"
    by (simp_all add: sample_header_def setMoreFragments_def setSize_def GIOPHeader_type_def version_ok_cases VERSION_1_0_def VERSION_1_1_def)
  have pre: "length (out_data sample_out) mod 4 = 0" "local_byte_order sample_out = hd_byte_order sample_header"
    using sample_new h by simp_all
  have ver: "version_ok (hd_version sample_header)" using h by simp
  from header_writes [OF sample_malloc_ok(1) sample_new(1) pre ver] obtain out' where
    w: "header_write sample_malloc sample_header sample_out = Inr out'" "out_data out' = header_bytes sample_header"
    using sample_malloc_ok(2) sample_new(3) by (auto simp: writes_def alloc_failure_def split: sum.splits)
  have "length (header_bytes sample_header) = 12" by (simp add: header_bytes_def giop_bytes_def)
  then obtain inp where inp: "in_ok inp" "in_pos inp = 0" "in_data inp = out_data out'" "wire_order inp = False"
    using received_message [of "out_data out'" False] w(2) by (auto simp flip: length_greater_0_conv)
  from header_roundtrip [OF sample_malloc_ok(1) sample_new(1) pre ver w(1) inp(1), of "[]" "GIOPHeader False"] inp sample_new(3) h w(1)
  show ?thesis by (auto simp: GIOPHeader_def)
qed

theorem header_rejected_witness:
  "\<exists>inp. in_data inp = replicate 12 0 \<and> header_read (GIOPHeader True) inp = Inl MARSHAL"
proof -
  obtain inp where inp: "in_ok inp" "in_pos inp = 0" "in_data inp = replicate 12 0" "wire_order inp = True"
    using received_message [of "replicate 12 0" True] by auto
  from header_rejected [OF inp(1), of "GIOPHeader True" "replicate 12 0" "[]"] inp show ?thesis
    by (auto simp: GIOPHeader_def)
qed

end
