(* ===== verification/Big_Int.thy ===== *)
theory Big_Int
  imports Prelude
begin

text \<open>
  Integers of 256 bits with a sign (\<^verbatim>\<open>types/BigInt.C\<close>), which carry the value of the IDL type \<^verbatim>\<open>fixed\<close>: the
  operations as the code has them, on a magnitude of 32 octets, least significant first. The sign is
  one of -1, 0 and 1. The strings that the class caches are not part of the model: every operation that
  changes a value invalidates them.
\<close>

section \<open>Values\<close>

definition MAG_SIZE :: nat where "MAG_SIZE = 32"

datatype big_sign = Neg | Zero | Pos

record bigint =
  mag :: "octet list"
  sign :: big_sign

definition LOWBYTE :: "ulong \<Rightarrow> octet" where
  "LOWBYTE x = ucast x"

definition HIBYTE :: "ulong \<Rightarrow> octet" where
  "HIBYTE x = ucast (drop_bit 8 x AND 0xff)"

definition BigInt :: bigint where
  "BigInt = \<lparr>mag = replicate MAG_SIZE 0, sign = Zero\<rparr>"

text \<open>The constructor from an \<^verbatim>\<open>int\<close> and the assignment of one: only the two lower octets are taken.\<close>

definition BigInt_int :: "int \<Rightarrow> bigint" where
  "BigInt_int val =
     (let v = (word_of_int (if val < 0 then - val else val) :: ulong) in
      \<lparr>mag = [LOWBYTE v, HIBYTE v] @ replicate (MAG_SIZE - 2) 0,
       sign = (if val > 0 then Pos else if val < 0 then Neg else Zero)\<rparr>)"

section \<open>Sign and order\<close>

fun neg_sign :: "big_sign \<Rightarrow> big_sign" where
  "neg_sign Neg = Pos" | "neg_sign Zero = Zero" | "neg_sign Pos = Neg"

fun mul_sign :: "big_sign \<Rightarrow> big_sign \<Rightarrow> big_sign" where
  "mul_sign Zero _ = Zero" | "mul_sign _ Zero = Zero"
| "mul_sign Pos s = s" | "mul_sign Neg s = neg_sign s"

definition big_neg :: "bigint \<Rightarrow> bigint" where
  "big_neg a = a\<lparr>sign := neg_sign (sign a)\<rparr>"

definition big_abs :: "bigint \<Rightarrow> bigint" where
  "big_abs a = (if sign a \<noteq> Zero then a\<lparr>sign := Pos\<rparr> else a)"

text \<open>The loops that compare the magnitudes run from the most significant octet down; here they get the
  reversed lists. The first result is for a smaller, the second for equal magnitudes.\<close>

fun cmp_loop :: "'a \<Rightarrow> 'a \<Rightarrow> 'a \<Rightarrow> octet list \<Rightarrow> octet list \<Rightarrow> 'a" where
  "cmp_loop lt eq gt (x # xs) (y # ys) =
     (if x < y then lt else if x = y then cmp_loop lt eq gt xs ys else gt)"
| "cmp_loop lt eq gt _ _ = eq"

definition big_eq :: "bigint \<Rightarrow> bigint \<Rightarrow> bool" where
  "big_eq a b \<longleftrightarrow> (if sign a \<noteq> sign b then False
     else cmp_loop False True False (rev (mag a)) (rev (mag b)))"

definition big_neq :: "bigint \<Rightarrow> bigint \<Rightarrow> bool" where
  "big_neq a b \<longleftrightarrow> \<not> big_eq a b"

definition big_lt :: "bigint \<Rightarrow> bigint \<Rightarrow> bool" where
  "big_lt a b \<longleftrightarrow>
     (if sign a = sign b then
        (if sign a = Zero then False
         else cmp_loop (sign a = Pos) False (sign a \<noteq> Pos) (rev (mag a)) (rev (mag b)))
      else if sign a = Pos then False
      else if sign a = Zero then (if sign b = Neg then False else True)
      else True)"

definition big_le :: "bigint \<Rightarrow> bigint \<Rightarrow> bool" where
  "big_le a b \<longleftrightarrow>
     (if sign a = sign b then
        (if sign a = Zero then True
         else cmp_loop (sign a = Pos) False (sign a \<noteq> Pos) (rev (mag a)) (rev (mag b)))
      else if sign a = Pos then False else True)"

definition big_gt :: "bigint \<Rightarrow> bigint \<Rightarrow> bool" where
  "big_gt a b \<longleftrightarrow> \<not> big_le a b"

definition big_ge :: "bigint \<Rightarrow> bigint \<Rightarrow> bool" where
  "big_ge a b \<longleftrightarrow> \<not> big_lt a b"

section \<open>Addition and subtraction\<close>

text \<open>The loop of the addition of magnitudes; \<open>resInt\<close> is the sum of the last round.\<close>

fun add_loop :: "octet list \<Rightarrow> octet list \<Rightarrow> ulong \<Rightarrow> octet list \<times> ulong" where
  "add_loop (x # xs) (y # ys) resInt =
     (let resInt = ucast x + ucast y + ucast (HIBYTE resInt); (zs, r) = add_loop xs ys resInt in (LOWBYTE resInt # zs, r))"
| "add_loop _ _ resInt = ([], resInt)"

text \<open>The loop of the subtraction, with the borrow of the last round.\<close>

fun sub_loop :: "octet list \<Rightarrow> octet list \<Rightarrow> ulong \<Rightarrow> octet list" where
  "sub_loop (x # xs) (y # ys) borrow =
     (let ireg = (256 + ucast x) - ucast y - borrow in
      LOWBYTE ireg # sub_loop xs ys (if ireg \<ge> 256 then 0 else 1))"
| "sub_loop _ _ borrow = []"

lemma big_sign_cases: "s = Neg \<or> s = Zero \<or> s = Pos"
  by (cases s) auto

lemma cmp_loop_flip: "cmp_loop True False False xs ys \<Longrightarrow> cmp_loop False False True ys xs"
  by (induction "True" "False" "False" xs ys rule: cmp_loop.induct) (auto split: if_splits)

lemma cmp_loop_asym:
  "cmp_loop True False False xs ys \<Longrightarrow> \<not> cmp_loop True False False ys xs"
  "cmp_loop False False True xs ys \<Longrightarrow> \<not> cmp_loop False False True ys xs"
  by (induction "True" "False" "False" xs ys rule: cmp_loop.induct) (auto split: if_splits)

lemma big_lt_asym: "big_lt a b \<Longrightarrow> \<not> big_lt b a"
  unfolding big_lt_def by (cases "sign a"; cases "sign b") (auto dest: cmp_loop_asym)

text \<open>
  \<^verbatim>\<open>operator+\<close> and \<^verbatim>\<open>operator-\<close> call each other. In the case of a positive number plus a negative one,
  \<^verbatim>\<open>operator+\<close> computes the difference and returns \<^verbatim>\<open>*this\<close>.
\<close>

function (sequential) big_add :: "bigint \<Rightarrow> bigint \<Rightarrow> bigint res"
  and big_sub :: "bigint \<Rightarrow> bigint \<Rightarrow> bigint res" where
  "big_add a b =
     (if sign a = Zero then Inr b
      else if sign b = Zero then Inr a
      else if sign a = sign b then
        (let (m, resInt) = add_loop (mag a) (mag b) 0 in
         if HIBYTE resInt \<noteq> 0 then Inl DATA_CONVERSION else Inr \<lparr>mag = m, sign = sign a\<rparr>)
      else if sign a = Neg then big_sub b (big_neg a)
      else rbind (big_sub a b) (\<lambda>_. Inr a))"
| "big_sub a b =
     (if big_lt a b then rbind (big_sub b a) (\<lambda>r. Inr (big_neg r))
      else if sign a = sign b then
        (if sign a = Zero then Inr (BigInt_int 0)
         else let m = sub_loop (mag a) (mag b) 0 in
           Inr \<lparr>mag = m, sign = (if list_all (\<lambda>x. x = 0) m then Zero else Pos)\<rparr>)
      else if sign a = Neg then rbind (big_add (big_neg a) b) (\<lambda>r. Inr (r\<lparr>sign := Neg\<rparr>))
      else if sign b = Neg then big_add a (big_neg b)
      else if sign a = Zero then Inr (big_neg b)
      else Inr a)"
  by pat_completeness auto
termination
proof (relation "measure (\<lambda>x. case x of
      Inl (a, b) \<Rightarrow> (if sign a = sign b \<or> sign a = Zero \<or> sign b = Zero then 0 else 5)
    | Inr (a, b) \<Rightarrow> (if big_lt a b then 3 else 2))", goal_cases)
  case (4 a b)
  then show ?case using big_lt_asym [of a b] by simp
qed (auto simp: big_neg_def split: if_splits, (metis big_sign.exhaust)+)

declare big_add.simps [simp del] big_sub.simps [simp del]

section \<open>Multiplication\<close>

fun mul_loop :: "octet list \<Rightarrow> int \<Rightarrow> ulong \<Rightarrow> octet list \<times> ulong" where
  "mul_loop (x # xs) v resInt =
     (let resInt = ucast x * word_of_int v + ucast (HIBYTE resInt); (zs, r) = mul_loop xs v resInt in (LOWBYTE resInt # zs, r))"
| "mul_loop [] v resInt = ([], resInt)"

function big_mul_int :: "bigint \<Rightarrow> int \<Rightarrow> bigint res" where
  "big_mul_int a v =
     (if sign a = Pos \<and> v \<noteq> 0 then
        (let (m, resInt) = mul_loop (mag a) v 0 in
         if HIBYTE resInt \<noteq> 0 then Inl DATA_CONVERSION
         else Inr \<lparr>mag = m, sign = (if v > 0 then Pos else Neg)\<rparr>)
      else if sign a = Zero \<or> v = 0 then Inr (BigInt_int 0)
      else big_mul_int (big_neg a) (- v))"
  by pat_completeness auto
termination
  by (relation "measure (\<lambda>(a, v). if sign a = Neg then 1 else 0)")
    (auto simp: big_neg_def intro: big_sign.exhaust)

declare big_mul_int.simps [simp del]

text \<open>\<^verbatim>\<open>shiftLeft\<close>: the octets are shifted in 32 bits and the part that leaves an octet is added to the next.\<close>

fun shift_loop :: "octet list \<Rightarrow> nat \<Rightarrow> octet \<Rightarrow> octet list \<times> octet" where
  "shift_loop (x # xs) pos previousMag =
     (let current = push_bit pos (ucast x :: ulong); (zs, r) = shift_loop xs pos (HIBYTE current)
      in ((LOWBYTE current + previousMag) # zs, r))"
| "shift_loop [] pos previousMag = ([], previousMag)"

definition shiftLeft :: "nat \<Rightarrow> bigint \<Rightarrow> bigint res" where
  "shiftLeft pos a =
     (if pos = 0 then Inr a
      else let (m, previousMag) = shift_loop (mag a) pos 0 in
        if previousMag > 0 then Inl DATA_CONVERSION else Inr (a\<lparr>mag := m\<rparr>))"

definition shiftBytesLeft :: "nat \<Rightarrow> bigint \<Rightarrow> bigint res" where
  "shiftBytesLeft pos a =
     (if \<exists>x \<in> set (drop (MAG_SIZE - pos) (mag a)). x \<noteq> 0 then Inl DATA_CONVERSION
      else Inr (a\<lparr>mag := replicate pos 0 @ take (MAG_SIZE - pos) (mag a)\<rparr>))"

text \<open>Multiplication by a power of 100.\<close>

fun x100 :: "nat \<Rightarrow> bigint \<Rightarrow> bigint res" where
  "x100 0 a = Inr a"
| "x100 (Suc n) a =
     rbind (shiftLeft 6 a) (\<lambda>temp64. rbind (shiftLeft 5 a) (\<lambda>temp32. rbind (shiftLeft 2 a) (\<lambda>temp4.
     rbind (big_add temp64 temp32) (\<lambda>temp. rbind (big_add temp temp4) (x100 n)))))"

fun big_mul_loop :: "bigint \<Rightarrow> octet list \<Rightarrow> nat \<Rightarrow> bigint \<Rightarrow> bigint res" where
  "big_mul_loop op1 [] i result = Inr result"
| "big_mul_loop op1 (y # ys) i result =
     (if y \<noteq> 0 then
        rbind (big_mul_int op1 (int (unat y))) (\<lambda>values. rbind (shiftBytesLeft i values) (\<lambda>values.
        rbind (big_add result values) (big_mul_loop op1 ys (Suc i))))
      else big_mul_loop op1 ys (Suc i) result)"

definition big_mul :: "bigint \<Rightarrow> bigint \<Rightarrow> bigint res" where
  "big_mul a b =
     rbind (big_mul_loop (a\<lparr>sign := Pos\<rparr>) (mag b) 0 (BigInt_int 0)) (\<lambda>result.
       Inr (result\<lparr>sign := mul_sign (sign a) (sign b)\<rparr>))"

section \<open>Division\<close>

text \<open>The search for the next octet of the quotient; the fuel bounds the number of trials, and 256 of them are
  enough.\<close>

fun div_search :: "nat \<Rightarrow> bigint \<Rightarrow> bigint \<Rightarrow> int \<Rightarrow> (int \<times> bigint) res" where
  "div_search 0 dividendo divisor indicador = Inl NO_FUEL"
| "div_search (Suc fuel) dividendo divisor indicador =
     rbind (big_mul_int divisor indicador) (\<lambda>sustraendo. rbind (big_sub dividendo sustraendo) (\<lambda>resto.
       if big_lt resto divisor then Inr (indicador, resto)
       else div_search fuel dividendo divisor (indicador + 1)))"

text \<open>The outer loop. \<open>digits\<close> are the octets of the dividend that have not been used, the most significant
  one first; the result is the quotient and the remainder.\<close>

fun div_loop :: "octet list \<Rightarrow> bigint \<Rightarrow> bigint \<Rightarrow> bigint \<Rightarrow> (bigint \<times> bigint) res" where
  "div_loop digits divisor dividendo cociente =
     (if big_lt dividendo divisor then
        rbind (shiftBytesLeft 1 cociente) (\<lambda>cociente.
          case digits of [] \<Rightarrow> Inr (cociente, dividendo)
          | d # ds \<Rightarrow> rbind (shiftBytesLeft 1 dividendo) (\<lambda>dividendo.
              rbind (big_add dividendo (BigInt_int (int (unat d)))) (\<lambda>dividendo. div_loop ds divisor dividendo cociente)))
      else
        rbind (div_search 256 dividendo divisor 1) (\<lambda>(indicador, resto).
        rbind (shiftBytesLeft 1 cociente) (\<lambda>cociente. rbind (big_add cociente (BigInt_int indicador)) (\<lambda>cociente.
          case digits of [] \<Rightarrow> Inr (cociente, resto)
          | d # ds \<Rightarrow> rbind (shiftBytesLeft 1 resto) (\<lambda>resto.
              rbind (big_add resto (BigInt_int (int (unat d)))) (\<lambda>dividendo. div_loop ds divisor dividendo cociente))))))"

declare div_loop.simps [simp del]

text \<open>\<^verbatim>\<open>div\<close>: the arguments \<open>q\<close> and \<open>r\<close> are the values the reference parameters have before the call; they are left
  as they are for a divisor of zero.\<close>

definition big_div :: "bigint \<Rightarrow> bigint \<Rightarrow> bigint \<Rightarrow> bigint \<Rightarrow> (bigint \<times> bigint) res" where
  "big_div q divider divisor r =
     (if sign divisor = Zero then Inr (q, r)
      else if sign divider = Zero then Inr (BigInt_int 0, BigInt_int 0)
      else if big_lt (big_abs divider) (big_abs divisor) then Inr (BigInt_int 0, divider)
      else
        (let digits = rev (mag divider); divisorTemporal = (if sign divisor = Neg then divisor\<lparr>sign := Pos\<rparr> else divisor) in
         rbind (div_loop (tl digits) divisorTemporal (BigInt_int (int (unat (hd digits)))) BigInt) (\<lambda>(cociente, dividendo).
           if sign divider = sign divisor \<and> sign divisor = Pos then Inr (cociente, dividendo)
           else if sign divider = sign divisor \<and> sign divisor = Neg then Inr (cociente, big_neg dividendo)
           else if sign divider = Neg then Inr (big_neg cociente, big_neg dividendo)
           else Inr (big_neg cociente, dividendo))))"

definition big_divide :: "bigint \<Rightarrow> bigint \<Rightarrow> bigint res" where
  "big_divide a v = rbind (big_div (BigInt_int 0) a v (BigInt_int 0)) (\<lambda>(quotient, _). Inr quotient)"

text \<open>The operators that are written with the ones above: the sum with an \<^verbatim>\<open>int\<close>, the assignments with an operation
  (the value \<^verbatim>\<open>*this\<close> has afterwards), and the increments and decrements, where the ones written after the operand
  also return its old value.\<close>

definition big_add_int :: "bigint \<Rightarrow> int \<Rightarrow> bigint res" where
  "big_add_int a v = big_add a (BigInt_int v)"

definition big_add_assign :: "bigint \<Rightarrow> bigint \<Rightarrow> bigint res" where
  "big_add_assign a b = big_add a b"

definition big_sub_assign :: "bigint \<Rightarrow> bigint \<Rightarrow> bigint res" where
  "big_sub_assign a b = big_sub a b"

definition big_mul_assign :: "bigint \<Rightarrow> bigint \<Rightarrow> bigint res" where
  "big_mul_assign a b = big_mul a b"

definition big_div_assign :: "bigint \<Rightarrow> bigint \<Rightarrow> bigint res" where
  "big_div_assign a b = big_divide a b"

definition big_move :: "bigint \<Rightarrow> bigint \<Rightarrow> bigint" where
  "big_move a r = r\<lparr>mag := mag a\<rparr>"

definition big_post_inc :: "bigint \<Rightarrow> (bigint \<times> bigint) res" where
  "big_post_inc a = rbind (big_add_int a 1) (\<lambda>b. Inr (b, a))"

definition big_post_dec :: "bigint \<Rightarrow> (bigint \<times> bigint) res" where
  "big_post_dec a = rbind (big_sub a (BigInt_int 1)) (\<lambda>b. Inr (b, a))"

definition big_inc :: "bigint \<Rightarrow> bigint res" where
  "big_inc a = big_add_int a 1"

definition big_dec :: "bigint \<Rightarrow> bigint res" where
  "big_dec a = big_sub a (BigInt_int 1)"

definition big_not :: "bigint \<Rightarrow> bool" where
  "big_not a \<longleftrightarrow> sign a = Zero"

section \<open>Strings\<close>

definition isdigit :: "char \<Rightarrow> bool" where
  "isdigit c \<longleftrightarrow> 48 \<le> (of_char c :: nat) \<and> (of_char c :: nat) \<le> 57"

text \<open>The loop of the constructor from a string takes two digits from the end in every round; here the string
  is reversed. \<open>n\<close> is the number of pairs before.\<close>

fun parse_loop :: "string \<Rightarrow> nat \<Rightarrow> bigint \<Rightarrow> bigint res" where
  "parse_loop (lo # hi # cs) n acc =
     (if \<not> isdigit lo then Inl DATA_CONVERSION
      else if \<not> isdigit hi then Inl DATA_CONVERSION
      else rbind (x100 n (BigInt_int (int ((of_char hi - 48) * 10 + (of_char lo - 48))))) (\<lambda>aux.
        rbind (big_add acc aux) (parse_loop cs (Suc n))))"
| "parse_loop _ n acc = Inr acc"

definition BigInt_string :: "string \<Rightarrow> bigint res" where
  "BigInt_string val =
     (let negativize = CHR ''-'' \<in> set val;
          number = (if negativize then tl val else val);
          number = (if length number mod 2 = 1 then CHR ''0'' # number else number) in
      rbind (parse_loop (rev number) 0 BigInt) (\<lambda>acc.
        Inr (if negativize then acc\<lparr>sign := Neg\<rparr> else acc)))"

definition decimal_converter :: "nat list list" where
  "decimal_converter =
    [[1, 1, 6, 6, 6, 6, 6, 6, 6, 6, 6, 6, 6, 6, 6, 6, 6, 6, 6, 6, 6, 6, 6, 6, 6, 6, 6, 6, 6, 6, 6, 6, 6, 6, 6],
     [2, 0, 5, 3, 1, 9, 7, 5, 3, 1, 9, 7, 5, 3, 1, 9, 7, 5, 3, 1, 9, 7, 5, 3, 1, 9, 7, 5, 3, 1, 9, 7, 5, 3, 1],
     [2, 0, 2, 5, 2, 2, 7, 6, 9, 6, 6, 1, 0, 3, 0, 0, 5, 4, 7, 4, 4, 9, 8, 1, 8, 8, 3, 2, 5, 2, 2, 7, 6, 9, 6],
     [3, 0, 0, 5, 7, 7, 7, 0, 7, 1, 3, 6, 1, 0, 6, 0, 4, 1, 2, 0, 6, 2, 1, 5, 4, 2, 1, 2, 7, 9, 9, 9, 2, 9, 3],
     [3, 0, 0, 6, 7, 6, 2, 1, 2, 5, 1, 0, 8, 5, 8, 2, 4, 1, 3, 8, 8, 4, 0, 7, 3, 1, 0, 5, 7, 4, 9, 1, 6, 3, 2],
     [4, 0, 0, 0, 7, 9, 6, 7, 9, 5, 2, 7, 7, 9, 2, 2, 3, 2, 1, 9, 9, 5, 0, 4, 6, 5, 3, 1, 9, 2, 7, 6, 6, 6, 8],
     [4, 0, 0, 0, 6, 4, 1, 6, 7, 9, 5, 4, 4, 3, 1, 9, 0, 8, 2, 5, 0, 2, 1, 6, 7, 4, 5, 7, 0, 0, 3, 2, 0, 9, 7],
     [4, 0, 0, 0, 1, 9, 1, 7, 3, 0, 4, 7, 2, 4, 5, 2, 8, 6, 6, 0, 3, 3, 3, 3, 3, 3, 3, 3, 1, 1, 2, 9, 1, 2, 8],
     [5, 0, 0, 0, 0, 2, 5, 9, 0, 7, 6, 1, 7, 5, 2, 3, 2, 7, 6, 5, 5, 9, 7, 1, 9, 0, 8, 8, 3, 6, 2, 2, 9, 1, 1],
     [5, 0, 0, 0, 0, 4, 9, 4, 4, 3, 9, 9, 8, 3, 7, 6, 0, 1, 2, 1, 5, 5, 8, 5, 4, 4, 2, 5, 4, 3, 4, 1, 0, 3, 1],
     [6, 0, 0, 0, 0, 0, 9, 7, 9, 7, 6, 2, 6, 9, 4, 9, 6, 3, 3, 6, 4, 5, 1, 9, 5, 6, 9, 6, 5, 0, 2, 0, 3, 1, 6],
     [6, 0, 0, 0, 0, 0, 0, 4, 5, 0, 8, 6, 0, 5, 9, 4, 0, 4, 5, 3, 5, 6, 9, 1, 9, 4, 7, 9, 2, 1, 5, 2, 5, 9, 7],
     [6, 0, 0, 0, 0, 0, 1, 1, 7, 4, 2, 4, 5, 7, 3, 0, 7, 7, 2, 8, 0, 9, 1, 1, 5, 4, 2, 4, 1, 1, 2, 6, 7, 7, 5],
     [7, 0, 0, 0, 0, 0, 0, 8, 5, 4, 8, 1, 4, 3, 2, 3, 0, 0, 0, 4, 8, 1, 3, 7, 2, 4, 8, 9, 1, 8, 6, 0, 8, 0, 2],
     [7, 0, 0, 0, 0, 0, 0, 2, 0, 7, 4, 6, 3, 3, 4, 5, 8, 6, 5, 6, 9, 0, 0, 1, 8, 4, 7, 3, 1, 4, 1, 6, 1, 0, 0],
     [8, 0, 0, 0, 0, 0, 0, 0, 2, 6, 6, 9, 1, 4, 0, 8, 3, 4, 9, 2, 7, 3, 3, 6, 9, 5, 3, 8, 9, 2, 5, 1, 1, 4, 6],
     [8, 0, 0, 0, 0, 0, 0, 0, 7, 4, 6, 1, 2, 6, 7, 2, 0, 7, 9, 7, 9, 8, 5, 7, 9, 5, 9, 0, 4, 7, 5, 2, 3, 8, 0],
     [9, 0, 0, 0, 0, 0, 0, 0, 0, 4, 3, 8, 8, 2, 6, 6, 9, 3, 8, 2, 7, 2, 4, 9, 8, 3, 9, 4, 5, 5, 5, 1, 1, 5, 5],
     [9, 0, 0, 0, 0, 0, 0, 0, 0, 8, 2, 5, 9, 4, 1, 7, 2, 3, 3, 8, 7, 6, 8, 3, 7, 2, 2, 6, 0, 0, 6, 8, 9, 7, 1],
     [9, 0, 0, 0, 0, 0, 0, 0, 0, 1, 2, 2, 0, 1, 5, 2, 7, 6, 2, 1, 7, 1, 6, 2, 3, 0, 0, 6, 0, 4, 8, 5, 7, 5, 4],
     [10, 0, 0, 0, 0, 0, 0, 0, 0, 0, 7, 9, 0, 5, 6, 8, 8, 4, 6, 7, 8, 7, 3, 3, 9, 1, 2, 9, 4, 5, 3, 9, 2, 4, 1],
     [10, 0, 0, 0, 0, 0, 0, 0, 0, 0, 4, 8, 5, 2, 3, 4, 5, 3, 6, 5, 3, 2, 5, 4, 6, 6, 2, 3, 5, 2, 0, 8, 3, 9, 1],
     [10, 0, 0, 0, 0, 0, 0, 0, 0, 0, 0, 0, 8, 6, 0, 3, 1, 6, 4, 3, 4, 3, 7, 9, 4, 1, 2, 8, 9, 2, 7, 1, 5, 3, 0],
     [11, 0, 0, 0, 0, 0, 0, 0, 0, 0, 0, 2, 4, 1, 6, 5, 9, 4, 6, 5, 1, 8, 1, 8, 9, 4, 5, 6, 0, 4, 1, 6, 4, 0, 1],
     [11, 0, 0, 0, 0, 0, 0, 0, 0, 0, 0, 1, 9, 8, 9, 8, 4, 8, 6, 1, 3, 4, 7, 6, 4, 6, 2, 5, 5, 4, 2, 5, 8, 4, 4],
     [12, 0, 0, 0, 0, 0, 0, 0, 0, 0, 0, 0, 0, 2, 0, 5, 8, 3, 4, 4, 3, 8, 1, 9, 0, 6, 0, 4, 9, 4, 7, 7, 5, 6, 9],
     [12, 0, 0, 0, 0, 0, 0, 0, 0, 0, 0, 0, 3, 2, 4, 8, 7, 9, 2, 1, 2, 6, 3, 1, 4, 6, 6, 2, 8, 1, 9, 8, 1, 5, 3],
     [13, 0, 0, 0, 0, 0, 0, 0, 0, 0, 0, 0, 0, 9, 2, 6, 5, 0, 0, 3, 4, 3, 3, 9, 4, 7, 2, 6, 8, 7, 8, 6, 0, 0, 4],
     [13, 0, 0, 0, 0, 0, 0, 0, 0, 0, 0, 0, 0, 7, 8, 9, 9, 2, 6, 2, 2, 0, 4, 8, 3, 0, 6, 2, 1, 3, 0, 9, 0, 4, 8],
     [14, 0, 0, 0, 0, 0, 0, 0, 0, 0, 0, 0, 0, 0, 2, 2, 9, 9, 7, 6, 5, 2, 1, 6, 4, 2, 1, 6, 3, 6, 1, 8, 6, 6, 9],
     [14, 0, 0, 0, 0, 0, 0, 0, 0, 0, 0, 0, 0, 0, 0, 2, 7, 6, 1, 0, 9, 8, 0, 6, 2, 3, 1, 7, 2, 3, 1, 3, 7, 5, 3],
     [14, 0, 0, 0, 0, 0, 0, 0, 0, 0, 0, 0, 0, 0, 2, 9, 2, 6, 3, 3, 3, 1, 6, 9, 5, 2, 4, 3, 3, 7, 5, 8, 7, 6, 0],
     [15, 0, 0, 0, 0, 0, 0, 0, 0, 0, 0, 0, 0, 0, 0, 1, 2, 3, 9, 5, 8, 9, 0, 3, 5, 4, 3, 3, 4, 6, 4, 4, 8, 6, 4],
     [15, 0, 0, 0, 0, 0, 0, 0, 0, 0, 0, 0, 0, 0, 0, 5, 9, 2, 5, 8, 3, 2, 7, 7, 3, 9, 2, 9, 0, 0, 2, 7, 5, 4, 4],
     [16, 0, 0, 0, 0, 0, 0, 0, 0, 0, 0, 0, 0, 0, 0, 0, 2, 8, 8, 9, 2, 0, 4, 4, 3, 8, 9, 3, 7, 3, 5, 2, 3, 8, 7],
     [16, 0, 0, 0, 0, 0, 0, 0, 0, 0, 0, 0, 0, 0, 0, 0, 3, 2, 2, 1, 8, 9, 1, 6, 7, 7, 0, 6, 6, 6, 4, 8, 8, 9, 0],
     [16, 0, 0, 0, 0, 0, 0, 0, 0, 0, 0, 0, 0, 0, 0, 0, 1, 0, 2, 5, 0, 0, 1, 3, 3, 5, 2, 5, 3, 9, 5, 5, 1, 9, 6],
     [17, 0, 0, 0, 0, 0, 0, 0, 0, 0, 0, 0, 0, 0, 0, 0, 0, 4, 1, 4, 7, 3, 1, 5, 3, 3, 6, 9, 8, 1, 2, 1, 5, 6, 1],
     [17, 0, 0, 0, 0, 0, 0, 0, 0, 0, 0, 0, 0, 0, 0, 0, 0, 3, 1, 7, 7, 3, 7, 0, 7, 8, 9, 2, 6, 0, 0, 5, 0, 2, 1],
     [18, 0, 0, 0, 0, 0, 0, 0, 0, 0, 0, 0, 0, 0, 0, 0, 0, 0, 7, 0, 0, 7, 6, 8, 1, 3, 1, 2, 7, 7, 7, 8, 0, 3, 7],
     [18, 0, 0, 0, 0, 0, 0, 0, 0, 0, 0, 0, 0, 0, 0, 0, 0, 0, 8, 0, 9, 3, 5, 1, 2, 6, 4, 4, 2, 8, 7, 1, 4, 5, 3],
     [19, 0, 0, 0, 0, 0, 0, 0, 0, 0, 0, 0, 0, 0, 0, 0, 0, 0, 0, 3, 9, 6, 1, 1, 2, 7, 5, 7, 0, 0, 2, 9, 1, 8, 4],
     [19, 0, 0, 0, 0, 0, 0, 0, 0, 0, 0, 0, 0, 0, 0, 0, 0, 0, 0, 2, 8, 1, 9, 4, 4, 0, 5, 8, 8, 5, 2, 2, 7, 7, 0],
     [19, 0, 0, 0, 0, 0, 0, 0, 0, 0, 0, 0, 0, 0, 0, 0, 0, 0, 0, 2, 0, 0, 1, 0, 5, 8, 7, 3, 1, 1, 6, 4, 8, 0, 1],
     [20, 0, 0, 0, 0, 0, 0, 0, 0, 0, 0, 0, 0, 0, 0, 0, 0, 0, 0, 0, 7, 5, 4, 3, 8, 6, 2, 5, 9, 0, 8, 7, 1, 9, 4],
     [20, 0, 0, 0, 0, 0, 0, 0, 0, 0, 0, 0, 0, 0, 0, 0, 0, 0, 0, 0, 5, 1, 4, 1, 3, 6, 0, 0, 7, 7, 5, 0, 0, 7, 4],
     [21, 0, 0, 0, 0, 0, 0, 0, 0, 0, 0, 0, 0, 0, 0, 0, 0, 0, 0, 0, 0, 6, 4, 7, 5, 8, 9, 1, 9, 6, 5, 0, 9, 8, 0],
     [21, 0, 0, 0, 0, 0, 0, 0, 0, 0, 0, 0, 0, 0, 0, 0, 0, 0, 0, 0, 0, 4, 1, 9, 6, 3, 9, 5, 6, 6, 7, 5, 1, 6, 1],
     [21, 0, 0, 0, 0, 0, 0, 0, 0, 0, 0, 0, 0, 0, 0, 0, 0, 0, 0, 0, 0, 1, 4, 0, 8, 5, 8, 1, 6, 4, 4, 7, 0, 8, 4],
     [22, 0, 0, 0, 0, 0, 0, 0, 0, 0, 0, 0, 0, 0, 0, 0, 0, 0, 0, 0, 0, 0, 7, 8, 2, 3, 5, 0, 8, 9, 3, 9, 6, 0, 2],
     [22, 0, 0, 0, 0, 0, 0, 0, 0, 0, 0, 0, 0, 0, 0, 0, 0, 0, 0, 0, 0, 0, 3, 7, 9, 7, 2, 3, 1, 7, 4, 2, 1, 0, 2],
     [23, 0, 0, 0, 0, 0, 0, 0, 0, 0, 0, 0, 0, 0, 0, 0, 0, 0, 0, 0, 0, 0, 0, 5, 9, 1, 4, 0, 7, 9, 7, 3, 4, 5, 2],
     [23, 0, 0, 0, 0, 0, 0, 0, 0, 0, 0, 0, 0, 0, 0, 0, 0, 0, 0, 0, 0, 0, 0, 9, 1, 0, 4, 3, 5, 3, 8, 8, 2, 8, 6],
     [24, 0, 0, 0, 0, 0, 0, 0, 0, 0, 0, 0, 0, 0, 0, 0, 0, 0, 0, 0, 0, 0, 0, 0, 5, 1, 0, 3, 5, 6, 7, 5, 3, 9, 1],
     [24, 0, 0, 0, 0, 0, 0, 0, 0, 0, 0, 0, 0, 0, 0, 0, 0, 0, 0, 0, 0, 0, 0, 0, 4, 7, 8, 9, 8, 0, 3, 9, 3, 0, 2],
     [24, 0, 0, 0, 0, 0, 0, 0, 0, 0, 0, 0, 0, 0, 0, 0, 0, 0, 0, 0, 0, 0, 0, 0, 2, 7, 3, 3, 6, 5, 6, 2, 7, 7, 7],
     [25, 0, 0, 0, 0, 0, 0, 0, 0, 0, 0, 0, 0, 0, 0, 0, 0, 0, 0, 0, 0, 0, 0, 0, 0, 2, 9, 1, 6, 1, 5, 3, 3, 5, 1],
     [25, 0, 0, 0, 0, 0, 0, 0, 0, 0, 0, 0, 0, 0, 0, 0, 0, 0, 0, 0, 0, 0, 0, 0, 0, 6, 6, 6, 1, 7, 0, 4, 8, 3, 4],
     [26, 0, 0, 0, 0, 0, 0, 0, 0, 0, 0, 0, 0, 0, 0, 0, 0, 0, 0, 0, 0, 0, 0, 0, 0, 0, 0, 7, 9, 6, 9, 8, 8, 2, 3],
     [26, 0, 0, 0, 0, 0, 0, 0, 0, 0, 0, 0, 0, 0, 0, 0, 0, 0, 0, 0, 0, 0, 0, 0, 0, 0, 6, 3, 2, 6, 7, 3, 3, 4, 4],
     [26, 0, 0, 0, 0, 0, 0, 0, 0, 0, 0, 0, 0, 0, 0, 0, 0, 0, 0, 0, 0, 0, 0, 0, 0, 0, 1, 1, 2, 6, 6, 8, 6, 5, 8],
     [27, 0, 0, 0, 0, 0, 0, 0, 0, 0, 0, 0, 0, 0, 0, 0, 0, 0, 0, 0, 0, 0, 0, 0, 0, 0, 0, 1, 1, 4, 4, 7, 6, 9, 2],
     [27, 0, 0, 0, 0, 0, 0, 0, 0, 0, 0, 0, 0, 0, 0, 0, 0, 0, 0, 0, 0, 0, 0, 0, 0, 0, 0, 4, 3, 9, 3, 7, 2, 1, 0],
     [28, 0, 0, 0, 0, 0, 0, 0, 0, 0, 0, 0, 0, 0, 0, 0, 0, 0, 0, 0, 0, 0, 0, 0, 0, 0, 0, 0, 5, 9, 6, 4, 3, 6, 6],
     [28, 0, 0, 0, 0, 0, 0, 0, 0, 0, 0, 0, 0, 0, 0, 0, 0, 0, 0, 0, 0, 0, 0, 0, 0, 0, 0, 0, 0, 5, 4, 6, 8, 1, 4],
     [28, 0, 0, 0, 0, 0, 0, 0, 0, 0, 0, 0, 0, 0, 0, 0, 0, 0, 0, 0, 0, 0, 0, 0, 0, 0, 0, 0, 1, 9, 7, 0, 5, 3, 9],
     [29, 0, 0, 0, 0, 0, 0, 0, 0, 0, 0, 0, 0, 0, 0, 0, 0, 0, 0, 0, 0, 0, 0, 0, 0, 0, 0, 0, 0, 6, 1, 7, 8, 7, 2],
     [29, 0, 0, 0, 0, 0, 0, 0, 0, 0, 0, 0, 0, 0, 0, 0, 0, 0, 0, 0, 0, 0, 0, 0, 0, 0, 0, 0, 0, 2, 0, 4, 4, 3, 5],
     [30, 0, 0, 0, 0, 0, 0, 0, 0, 0, 0, 0, 0, 0, 0, 0, 0, 0, 0, 0, 0, 0, 0, 0, 0, 0, 0, 0, 0, 0, 9, 8, 8, 2, 7],
     [30, 0, 0, 0, 0, 0, 0, 0, 0, 0, 0, 0, 0, 0, 0, 0, 0, 0, 0, 0, 0, 0, 0, 0, 0, 0, 0, 0, 0, 0, 6, 6, 2, 9, 4],
     [31, 0, 0, 0, 0, 0, 0, 0, 0, 0, 0, 0, 0, 0, 0, 0, 0, 0, 0, 0, 0, 0, 0, 0, 0, 0, 0, 0, 0, 0, 0, 6, 1, 8, 4],
     [31, 0, 0, 0, 0, 0, 0, 0, 0, 0, 0, 0, 0, 0, 0, 0, 0, 0, 0, 0, 0, 0, 0, 0, 0, 0, 0, 0, 0, 0, 0, 7, 3, 0, 8],
     [31, 0, 0, 0, 0, 0, 0, 0, 0, 0, 0, 0, 0, 0, 0, 0, 0, 0, 0, 0, 0, 0, 0, 0, 0, 0, 0, 0, 0, 0, 0, 1, 2, 2, 4],
     [32, 0, 0, 0, 0, 0, 0, 0, 0, 0, 0, 0, 0, 0, 0, 0, 0, 0, 0, 0, 0, 0, 0, 0, 0, 0, 0, 0, 0, 0, 0, 0, 5, 9, 7],
     [32, 0, 0, 0, 0, 0, 0, 0, 0, 0, 0, 0, 0, 0, 0, 0, 0, 0, 0, 0, 0, 0, 0, 0, 0, 0, 0, 0, 0, 0, 0, 0, 4, 7, 7],
     [33, 0, 0, 0, 0, 0, 0, 0, 0, 0, 0, 0, 0, 0, 0, 0, 0, 0, 0, 0, 0, 0, 0, 0, 0, 0, 0, 0, 0, 0, 0, 0, 0, 5, 2],
     [33, 0, 0, 0, 0, 0, 0, 0, 0, 0, 0, 0, 0, 0, 0, 0, 0, 0, 0, 0, 0, 0, 0, 0, 0, 0, 0, 0, 0, 0, 0, 0, 0, 1, 4],
     [33, 0, 0, 0, 0, 0, 0, 0, 0, 0, 0, 0, 0, 0, 0, 0, 0, 0, 0, 0, 0, 0, 0, 0, 0, 0, 0, 0, 0, 0, 0, 0, 0, 1, 6],
     [34, 0, 0, 0, 0, 0, 0, 0, 0, 0, 0, 0, 0, 0, 0, 0, 0, 0, 0, 0, 0, 0, 0, 0, 0, 0, 0, 0, 0, 0, 0, 0, 0, 0, 9],
     [34, 0, 0, 0, 0, 0, 0, 0, 0, 0, 0, 0, 0, 0, 0, 0, 0, 0, 0, 0, 0, 0, 0, 0, 0, 0, 0, 0, 0, 0, 0, 0, 0, 0, 2]]"

text \<open>One more than the index of the most significant octet that is not zero, or zero.\<close>

fun representative :: "octet list \<Rightarrow> nat \<Rightarrow> nat" where
  "representative m 0 = 0"
| "representative m (Suc k) = (if m ! k \<noteq> 0 then Suc k else representative m k)"

text \<open>The loop over the rows of the table: a row holds one decimal digit of every power of 256, and the
  column of the first digit that is not zero. The digits of the result come out least significant first;
  the loop also returns the carry and the number of the last rows that contributed nothing.\<close>

definition row_sum :: "octet list \<Rightarrow> nat list \<Rightarrow> nat \<Rightarrow> nat" where
  "row_sum m row n = (\<Sum>i \<leftarrow> [row ! 0 ..< n + 1]. unat (m ! (i - 1)) * row ! i)"

fun digit_rows :: "octet list \<Rightarrow> nat \<Rightarrow> nat list list \<Rightarrow> nat \<Rightarrow> nat \<Rightarrow> (nat list \<times> nat \<times> nat) res" where
  "digit_rows m n [] ireg zeros = Inl OUT_OF_BOUNDS"
| "digit_rows m n (row # rows) ireg zeros =
     (if row ! 0 \<le> n then
        let ireg = ireg + row_sum m row n; zeros = (if ireg = 0 then Suc zeros else 0) in
        rbind (digit_rows m n rows (ireg div 10) zeros) (\<lambda>(ds, r). Inr (ireg mod 10 # ds, r))
      else Inr ([], ireg, zeros))"

fun carry_digits :: "nat \<Rightarrow> nat list" where
  "carry_digits ireg = (if ireg = 0 then [] else ireg mod 10 # carry_digits (ireg div 10))"

declare carry_digits.simps [simp del]

definition big_toString :: "bigint \<Rightarrow> string res" where
  "big_toString a =
     (let n = representative (mag a) MAG_SIZE in
      if n = 0 then Inr ''0''
      else rbind (digit_rows (mag a) n decimal_converter 0 0) (\<lambda>(ds, ireg, zeros).
        let ds = (if ireg = 0 then take (length ds - zeros) ds else ds @ carry_digits ireg);
            text = map (\<lambda>d. char_of (d + 48)) (rev ds) in
        Inr (if sign a = Neg then CHR ''-'' # text else text)))"

definition big_digits :: "bigint \<Rightarrow> nat res" where
  "big_digits a = rbind (big_toString a) (\<lambda>s. Inr (if sign a = Neg then length s - 1 else length s))"

text \<open>Two hexadecimal digits of an octet, as \<^verbatim>\<open>sprintf\<close> prints them with a leading zero where it has one digit.\<close>

definition hex_digit :: "nat \<Rightarrow> char" where
  "hex_digit d = (if d < 10 then char_of (48 + d) else char_of (87 + d))"

fun hex_loop :: "octet list \<Rightarrow> bool \<Rightarrow> string" where
  "hex_loop [] oneShowed = (if oneShowed then [] else ''0'')"
| "hex_loop (x # xs) oneShowed =
     (if x \<noteq> 0 \<or> oneShowed then hex_digit (unat x div 16) # hex_digit (unat x mod 16) # hex_loop xs True
      else hex_loop xs oneShowed)"

definition big_toHexString :: "bigint \<Rightarrow> string" where
  "big_toHexString a = (if sign a = Neg then ''-'' else []) @ hex_loop (rev (mag a)) False"

end
