(* ===== verification/Fixed_Point.thy ===== *)
theory Fixed_Point
  imports Big_Int "HOL-Library.Signed_Division"
begin

text \<open>
  Model of \<^verbatim>\<open>CORBA::Fixed\<close> (core/Fixed.C): decimal numbers of a fixed scale over \<^verbatim>\<open>BigInt\<close>. A number is the integer
  \<open>fixed_value\<close> divided by ten to the power \<open>fixed_scale\<close>; \<open>fixed_digits\<close> is the count of digits the IDL rules for the
  result types are written with. The conversions of \<^verbatim>\<open>int\<close> to the 16-bit types are written out.
\<close>

section \<open>State\<close>

record fixed =
  fixed_digits :: int
  fixed_scale :: int
  fixed_value :: bigint

definition to_short :: "int \<Rightarrow> int" where
  "to_short x = sint (word_of_int x :: ushort)"

definition to_ushort :: "int \<Rightarrow> int" where
  "to_ushort x = uint (word_of_int x :: ushort)"

definition Fixed :: fixed where
  "Fixed = \<lparr>fixed_digits = 0, fixed_scale = 0, fixed_value = BigInt_int 0\<rparr>"

definition Fixed_BigInt :: "bigint \<Rightarrow> fixed" where
  "Fixed_BigInt val = \<lparr>fixed_digits = 0, fixed_scale = 0, fixed_value = val\<rparr>"

definition Fixed_scaled :: "bigint \<Rightarrow> int \<Rightarrow> fixed" where
  "Fixed_scaled val s = \<lparr>fixed_digits = 0, fixed_scale = s, fixed_value = val\<rparr>"

definition Fixed_type :: "int \<Rightarrow> int \<Rightarrow> fixed res" where
  "Fixed_type d s =
     (if d > 31 \<or> s > 31 then Inl DATA_CONVERSION
      else Inr \<lparr>fixed_digits = d, fixed_scale = s, fixed_value = BigInt_int 0\<rparr>)"

section \<open>Powers of ten and scales\<close>

text \<open>\<^verbatim>\<open>power10\<close>: the C++ division and remainder of \<^verbatim>\<open>int\<close> truncate; a negative number of rounds is none.\<close>

definition power10 :: "int \<Rightarrow> bigint res" where
  "power10 x =
     (let hundredTimes = x sdiv 2; tenTimes = x smod 2 in
      rbind (if hundredTimes \<noteq> 0 then x100 (nat hundredTimes) (BigInt_int 1) else Inr (BigInt_int 1)) (\<lambda>resul.
        if tenTimes \<noteq> 0 then big_mul_assign resul (BigInt_int 10) else Inr resul))"

definition timesTenToThe :: "bigint \<Rightarrow> int \<Rightarrow> bigint res" where
  "timesTenToThe intPart scale =
     (let hundredTimes = scale div 2; tenTimes = scale mod 2 in
      rbind (if hundredTimes \<noteq> 0 then x100 (nat hundredTimes) intPart else Inr intPart) (\<lambda>val.
        if tenTimes \<noteq> 0 then big_mul_int val (10 * tenTimes) else Inr val))"

definition transform :: "fixed \<Rightarrow> int \<Rightarrow> bigint res" where
  "transform f nscale =
     (let fscale = to_short (nscale - fixed_scale f) in
      if fscale = 0 then Inr (fixed_value f)
      else rbind (power10 fscale) (\<lambda>p. big_mul (fixed_value f) p))"

text \<open>\<^verbatim>\<open>rescale\<close>: with fewer decimals the number is rounded, by adding five units of the first digit that is lost, or
  truncated.\<close>

definition rescale :: "int \<Rightarrow> int \<Rightarrow> bigint \<Rightarrow> bool \<Rightarrow> bigint res" where
  "rescale nscale oscale val rounding =
     (let fscale = to_short (nscale - oscale) in
      if fscale = 0 then Inr val
      else if fscale < 0 then
        rbind (if rounding then rbind (power10 (- fscale - 1)) (\<lambda>p. big_mul (BigInt_int 5) p) else Inr (BigInt_int 0)) (\<lambda>cincoPotScale.
        rbind (if sign val = Neg then big_mul_assign cincoPotScale (BigInt_int (- 1)) else Inr cincoPotScale) (\<lambda>cincoPotScale.
        rbind (big_add val cincoPotScale) (\<lambda>sum. rbind (power10 (- fscale)) (\<lambda>p.
        rbind (big_div (BigInt_int 0) sum p (BigInt_int 0)) (\<lambda>(coc, _). Inr coc)))))
      else rbind (power10 fscale) (\<lambda>pot. big_mul val pot))"

text \<open>\<^verbatim>\<open>digits\<close>: the length of the decimal text without the sign.\<close>

definition digits_of :: "bigint \<Rightarrow> int res" where
  "digits_of val =
     rbind (big_toString val) (\<lambda>cad. Inr (to_ushort (if sign val = Neg then int (length cad) - 1 else int (length cad))))"

text \<open>\<^verbatim>\<open>adjust\<close> removes the zeros at the end of the number. The fuel bounds the divisions by ten: a number of 32
  octets has at most 78 digits.\<close>

fun adjust_loop :: "nat \<Rightarrow> bigint \<Rightarrow> int \<Rightarrow> (bigint \<times> int) res" where
  "adjust_loop 0 coc nscale = Inl NO_FUEL"
| "adjust_loop (Suc fuel) coc nscale =
     rbind (big_div coc coc (BigInt_int 10) (BigInt_int 0)) (\<lambda>(coc', previo).
       if big_eq previo (BigInt_int 0) then adjust_loop fuel coc' (nscale + 1) else Inr (coc, nscale + 1))"

definition adjust :: "fixed \<Rightarrow> fixed res" where
  "adjust f =
     (if sign (fixed_value f) \<noteq> Zero \<and> fixed_scale f \<noteq> 0 then
        rbind (adjust_loop 80 (fixed_value f) 0) (\<lambda>(d, nscale).
          Inr (f\<lparr>fixed_scale := to_short (fixed_scale f - (nscale - 1)), fixed_value := d\<rparr>))
      else Inr f)"

section \<open>Arithmetic\<close>

text \<open>The operands with the larger of their two scales, as the four operations compute them.\<close>

definition common_scale :: "fixed \<Rightarrow> fixed \<Rightarrow> (int \<times> bigint \<times> bigint) res" where
  "common_scale a1 a2 =
     (if fixed_scale a1 = fixed_scale a2 then Inr (fixed_scale a1, fixed_value a1, fixed_value a2)
      else if fixed_scale a1 > fixed_scale a2 then
        rbind (transform a2 (fixed_scale a1)) (\<lambda>op2. Inr (fixed_scale a1, fixed_value a1, op2))
      else rbind (transform a1 (fixed_scale a2)) (\<lambda>op1. Inr (fixed_scale a2, op1, fixed_value a2)))"

definition store_result :: "fixed \<Rightarrow> int \<Rightarrow> bigint \<Rightarrow> fixed res" where
  "store_result r res_scale val =
     rbind (rescale (fixed_scale r) res_scale val True) (\<lambda>v. rbind (digits_of v) (\<lambda>d.
       Inr (r\<lparr>fixed_value := v, fixed_digits := d\<rparr>)))"

definition fixed_add :: "fixed \<Rightarrow> fixed \<Rightarrow> fixed \<Rightarrow> fixed res" where
  "fixed_add r a1 a2 =
     rbind (common_scale a1 a2) (\<lambda>(res_scale, op1, op2). rbind (big_add op1 op2) (store_result r res_scale))"

definition fixed_sub :: "fixed \<Rightarrow> fixed \<Rightarrow> fixed \<Rightarrow> fixed res" where
  "fixed_sub r a1 a2 =
     rbind (common_scale a1 a2) (\<lambda>(res_scale, op1, op2). rbind (big_sub op1 op2) (store_result r res_scale))"

definition fixed_mul :: "fixed \<Rightarrow> fixed \<Rightarrow> fixed \<Rightarrow> fixed res" where
  "fixed_mul r a1 a2 =
     rbind (common_scale a1 a2) (\<lambda>(res_scale, op1, op2).
       rbind (big_mul op1 op2) (store_result r (to_short (res_scale * 2))))"

definition fixed_div :: "fixed \<Rightarrow> fixed \<Rightarrow> fixed \<Rightarrow> fixed res" where
  "fixed_div r a1 a2 =
     rbind (common_scale a1 a2) (\<lambda>(res_scale, dividendo, divisor).
     rbind (power10 (fixed_scale r + 1)) (\<lambda>p. rbind (big_mul_assign dividendo p) (\<lambda>dividendo.
     rbind (big_div (BigInt_int 0) dividendo divisor (BigInt_int 0)) (\<lambda>(coc, resto).
       let aux = (Fixed_BigInt coc)\<lparr>fixed_scale := to_short (fixed_scale r + 1)\<rparr> in
       store_result r (fixed_scale aux) (fixed_value aux)))))"

definition fixed_assign :: "fixed \<Rightarrow> fixed \<Rightarrow> fixed res" where
  "fixed_assign this f =
     rbind (rescale (fixed_scale this) (fixed_scale f) (fixed_value f) True) (\<lambda>v. rbind (digits_of v) (\<lambda>d.
       if d > 31 then Inl DATA_CONVERSION else Inr (this\<lparr>fixed_value := v, fixed_digits := d\<rparr>)))"

text \<open>\<^verbatim>\<open>+=\<close>, \<^verbatim>\<open>-=\<close>, \<^verbatim>\<open>*=\<close> and \<^verbatim>\<open>/=\<close>.\<close>

definition assign_op :: "(fixed \<Rightarrow> fixed \<Rightarrow> fixed \<Rightarrow> fixed res) \<Rightarrow> fixed \<Rightarrow> fixed \<Rightarrow> fixed res" where
  "assign_op oper this f =
     rbind (Fixed_type (fixed_digits this) (fixed_scale this)) (\<lambda>r. rbind (oper r this f) (fixed_assign this))"

definition fixed_add_assign :: "fixed \<Rightarrow> fixed \<Rightarrow> fixed res" where
  "fixed_add_assign = assign_op fixed_add"

definition fixed_sub_assign :: "fixed \<Rightarrow> fixed \<Rightarrow> fixed res" where
  "fixed_sub_assign = assign_op fixed_sub"

definition fixed_mul_assign :: "fixed \<Rightarrow> fixed \<Rightarrow> fixed res" where
  "fixed_mul_assign = assign_op fixed_mul"

definition fixed_div_assign :: "fixed \<Rightarrow> fixed \<Rightarrow> fixed res" where
  "fixed_div_assign = assign_op fixed_div"

text \<open>The binary operators: the digits and the scale of the result by the rules of IDL, cut to 31 digits.\<close>

definition cut_type :: "int \<Rightarrow> int \<Rightarrow> fixed res" where
  "cut_type digits scale =
     (if digits > 31 then Fixed_type 31 (to_short (31 - digits + scale)) else Fixed_type digits scale)"

definition sum_type :: "fixed \<Rightarrow> fixed \<Rightarrow> fixed res" where
  "sum_type a f =
     (let scale = max (fixed_scale a) (fixed_scale f) in
      cut_type (to_ushort (1 + scale + max (fixed_digits a - fixed_scale a) (fixed_digits f - fixed_scale f))) scale)"

definition fixed_plus :: "fixed \<Rightarrow> fixed \<Rightarrow> fixed res" where
  "fixed_plus a f = rbind (sum_type a f) (\<lambda>r. fixed_add r a f)"

definition fixed_minus :: "fixed \<Rightarrow> fixed \<Rightarrow> fixed res" where
  "fixed_minus a f = rbind (sum_type a f) (\<lambda>r. fixed_sub r a f)"

definition fixed_times :: "fixed \<Rightarrow> fixed \<Rightarrow> fixed res" where
  "fixed_times a f =
     rbind (cut_type (to_ushort (fixed_digits a + fixed_digits f)) (to_short (fixed_scale a + fixed_scale f)))
       (\<lambda>r. fixed_mul r a f)"

definition fixed_divide :: "fixed \<Rightarrow> fixed \<Rightarrow> fixed res" where
  "fixed_divide a f = rbind (Fixed_type (fixed_digits a) (fixed_scale a)) (\<lambda>r. fixed_div r a f)"

definition fixed_neg :: "fixed \<Rightarrow> fixed res" where
  "fixed_neg f =
     rbind (Fixed_type (fixed_digits f) (fixed_scale f)) (\<lambda>r.
     rbind (rescale (fixed_scale r) (fixed_scale f) (big_neg (fixed_value f)) True) (\<lambda>v. rbind (digits_of v) (\<lambda>d.
       Inr (r\<lparr>fixed_value := v, fixed_digits := d\<rparr>))))"

definition fixed_not :: "fixed \<Rightarrow> bool" where
  "fixed_not f = big_not (fixed_value f)"

definition fixed_round :: "fixed \<Rightarrow> int \<Rightarrow> fixed res" where
  "fixed_round f nscale =
     rbind (Fixed_type (fixed_digits f) nscale) (\<lambda>r. rbind (rescale nscale (fixed_scale f) (fixed_value f) True) (\<lambda>v.
       Inr (r\<lparr>fixed_value := v\<rparr>)))"

definition fixed_truncate :: "fixed \<Rightarrow> int \<Rightarrow> fixed res" where
  "fixed_truncate f nscale =
     rbind (Fixed_type (fixed_digits f) nscale) (\<lambda>r. rbind (rescale nscale (fixed_scale f) (fixed_value f) False) (\<lambda>v.
       Inr (r\<lparr>fixed_value := v\<rparr>)))"

section \<open>Comparison\<close>

definition compare_with :: "(bigint \<Rightarrow> bigint \<Rightarrow> bool) \<Rightarrow> fixed \<Rightarrow> fixed \<Rightarrow> bool res" where
  "compare_with rel a f =
     (if fixed_scale a = fixed_scale f then Inr (rel (fixed_value a) (fixed_value f))
      else if fixed_scale a > fixed_scale f then rbind (transform f (fixed_scale a)) (\<lambda>v. Inr (rel (fixed_value a) v))
      else rbind (transform a (fixed_scale f)) (\<lambda>v. Inr (rel v (fixed_value f))))"

definition fixed_eq :: "fixed \<Rightarrow> fixed \<Rightarrow> bool res" where
  "fixed_eq a f = compare_with big_eq a f"

definition fixed_neq :: "fixed \<Rightarrow> fixed \<Rightarrow> bool res" where
  "fixed_neq a f = rbind (fixed_eq a f) (\<lambda>b. Inr (\<not> b))"

definition fixed_lt :: "fixed \<Rightarrow> fixed \<Rightarrow> bool res" where
  "fixed_lt a f = compare_with big_lt a f"

definition fixed_le :: "fixed \<Rightarrow> fixed \<Rightarrow> bool res" where
  "fixed_le a f = compare_with big_le a f"

definition fixed_gt :: "fixed \<Rightarrow> fixed \<Rightarrow> bool res" where
  "fixed_gt a f = rbind (fixed_le a f) (\<lambda>b. Inr (\<not> b))"

definition fixed_ge :: "fixed \<Rightarrow> fixed \<Rightarrow> bool res" where
  "fixed_ge a f = rbind (fixed_lt a f) (\<lambda>b. Inr (\<not> b))"

section \<open>Text\<close>

definition isspace :: "char \<Rightarrow> bool" where
  "isspace c \<longleftrightarrow> (of_char c :: nat) = 32 \<or> (9 \<le> (of_char c :: nat) \<and> (of_char c :: nat) \<le> 13)"

fun strchr :: "string \<Rightarrow> char \<Rightarrow> nat option" where
  "strchr [] c = None"
| "strchr (x # xs) c = (if x = c then Some 0 else map_option Suc (strchr xs c))"

definition either_case :: "string \<Rightarrow> char \<Rightarrow> char \<Rightarrow> nat option" where
  "either_case s c d = (case strchr s c of None \<Rightarrow> strchr s d | Some i \<Rightarrow> Some i)"

fun atoi_digits :: "string \<Rightarrow> int \<Rightarrow> int" where
  "atoi_digits [] acc = acc"
| "atoi_digits (c # cs) acc = (if isdigit c then atoi_digits cs (acc * 10 + (of_char c - 48)) else acc)"

text \<open>\<^verbatim>\<open>atoi\<close>, for a number that an \<^verbatim>\<open>int\<close> can hold (it is undefined for others).\<close>

definition atoi :: "string \<Rightarrow> int" where
  "atoi s =
     (case dropWhile isspace s of
        [] \<Rightarrow> 0
      | c # cs \<Rightarrow> if c = CHR ''-'' then - atoi_digits cs 0 else if c = CHR ''+'' then atoi_digits cs 0
                else atoi_digits (c # cs) 0)"

text \<open>The steps of \<^verbatim>\<open>extractFromString\<close>: the leading sign, the suffix \<open>d\<close>, the exponent, the significand.\<close>

definition leading_plus :: "string \<Rightarrow> string res" where
  "leading_plus str =
     (case dropWhile isspace str of
        [] \<Rightarrow> Inr []
      | c # cs \<Rightarrow> if c = CHR ''+'' then (if cs \<noteq> [] \<and> hd cs = CHR ''-'' then Inl DATA_CONVERSION else Inr cs)
                else Inr (c # cs))"

definition remove_d :: "string \<Rightarrow> string res" where
  "remove_d str =
     (case either_case str CHR ''d'' CHR ''D'' of
        None \<Rightarrow> Inr str
      | Some i \<Rightarrow> if Suc i = length str then Inr (take i str) else Inl DATA_CONVERSION)"

definition split_exponent :: "string \<Rightarrow> string \<Rightarrow> (string \<times> int) res" where
  "split_exponent str decimalPart =
     (case either_case str CHR ''e'' CHR ''E'' of
        None \<Rightarrow> Inr (decimalPart, 0)
      | Some i \<Rightarrow> if i = 0 then Inl DATA_CONVERSION else Inr (take i decimalPart, atoi (drop (Suc i) str)))"

definition drop_last_zeros :: "string \<Rightarrow> string" where
  "drop_last_zeros s = rev (dropWhile (\<lambda>c. c = CHR ''0'') (rev s))"

text \<open>The significand: its value, its digits and its scale.\<close>

definition whole_number :: "string \<Rightarrow> (bigint \<times> int \<times> int) res" where
  "whole_number s =
     rbind (BigInt_string s) (\<lambda>intPart. rbind (timesTenToThe intPart 0) (\<lambda>intValue. rbind (big_digits intValue) (\<lambda>d.
       Inr (intValue, to_ushort (int d), 0))))"

definition with_fraction :: "string \<Rightarrow> string \<Rightarrow> (bigint \<times> int \<times> int) res" where
  "with_fraction whole fr =
     (if fr \<noteq> [] \<and> hd fr = CHR ''-'' then Inl DATA_CONVERSION
      else let fr = drop_last_zeros fr; zeroCounter = length (takeWhile (\<lambda>c. c = CHR ''0'') fr) in
        rbind (BigInt_string fr) (\<lambda>fraction. rbind (big_digits fraction) (\<lambda>d.
          let scale = to_short (int (d + zeroCounter)); digits = to_ushort scale in
          if whole = [] then Inr (fraction, digits, scale)
          else if whole = ''-'' then Inr (big_neg fraction, digits, scale)
          else
            let is_negative = (hd whole = CHR ''-''); intString = (if is_negative then tl whole else whole) in
            rbind (BigInt_string intString) (\<lambda>intPart. rbind (timesTenToThe intPart (to_ushort scale)) (\<lambda>intValue.
            rbind (if is_negative then rbind (big_add_assign intValue fraction) (\<lambda>v. big_mul_assign v (BigInt_int (- 1)))
                   else if sign intValue = Neg then big_sub_assign intValue fraction
                   else big_add_assign intValue fraction) (\<lambda>intValue.
            rbind (big_digits intValue) (\<lambda>d. Inr (intValue, to_ushort (int d), scale))))))))"

definition significand :: "string \<Rightarrow> (bigint \<times> int \<times> int) res" where
  "significand decimalPart =
     (case strchr decimalPart CHR ''.'' of
        None \<Rightarrow> whole_number decimalPart
      | Some p \<Rightarrow> if Suc p = length decimalPart then whole_number (take p decimalPart)
                else with_fraction (take p decimalPart) (drop (Suc p) decimalPart))"

definition extractFromString :: "string \<Rightarrow> fixed res" where
  "extractFromString str =
     rbind (leading_plus str) (\<lambda>str. rbind (remove_d str) (\<lambda>decimalPart.
     rbind (split_exponent str decimalPart) (\<lambda>(decimalPart, exponent).
     rbind (significand decimalPart) (\<lambda>(intValue, digits, scale).
       if exponent > 31 \<or> digits > 32 then Inl DATA_CONVERSION
       else let scale = to_short (scale - exponent) in
         if scale < 0 then
           rbind (big_digits intValue) (\<lambda>d. rbind (timesTenToThe intValue (to_ushort (- scale))) (\<lambda>v.
             Inr \<lparr>fixed_digits = to_ushort (int d), fixed_scale = 0, fixed_value = v\<rparr>))
         else Inr \<lparr>fixed_digits = digits, fixed_scale = scale, fixed_value = intValue\<rparr>))))"

definition from_string :: "string \<Rightarrow> fixed res" where
  "from_string s = extractFromString s"

text \<open>The constructors from integers print the number and read the text; \<^verbatim>\<open>ULong\<close> and \<^verbatim>\<open>ULongLong\<close> are printed with
  \<^verbatim>\<open>%d\<close>, that is as a signed \<^verbatim>\<open>int\<close>.\<close>

definition int_text :: "int \<Rightarrow> string" where
  "int_text v =
     (if v < 0 then ''-'' else []) @
     (if v = 0 then ''0'' else map (\<lambda>d. char_of (d + 48)) (rev (carry_digits (nat \<bar>v\<bar>))))"

definition Fixed_Long :: "32 word \<Rightarrow> fixed res" where
  "Fixed_Long v = rbind (extractFromString (int_text (sint v))) adjust"

definition Fixed_ULong :: "ulong \<Rightarrow> fixed res" where
  "Fixed_ULong v = rbind (extractFromString (int_text (sint v))) adjust"

definition Fixed_ULongLong :: "ulonglong \<Rightarrow> fixed res" where
  "Fixed_ULongLong v = rbind (extractFromString (int_text (sint (ucast v :: 32 word)))) adjust"

text \<open>\<^verbatim>\<open>Fixed((CORBA::LongDouble) 1.0)\<close>: the text that \<^verbatim>\<open>%LE\<close> prints for one.\<close>

definition fixed_one :: "fixed res" where
  "fixed_one = rbind (extractFromString ''1.000000E+00'') adjust"

definition fixed_inc :: "fixed \<Rightarrow> fixed res" where
  "fixed_inc f = rbind fixed_one (fixed_add_assign f)"

definition fixed_dec :: "fixed \<Rightarrow> fixed res" where
  "fixed_dec f = rbind fixed_one (fixed_sub_assign f)"

definition fixed_post_inc :: "fixed \<Rightarrow> (fixed \<times> fixed) res" where
  "fixed_post_inc f = rbind fixed_one (\<lambda>one. rbind (fixed_add f f one) (\<lambda>g. Inr (g, f)))"

definition fixed_post_dec :: "fixed \<Rightarrow> (fixed \<times> fixed) res" where
  "fixed_post_dec f = rbind fixed_one (\<lambda>one. rbind (fixed_sub f f one) (\<lambda>g. Inr (g, f)))"

text \<open>\<^verbatim>\<open>to_string\<close>: the digits with the point in its place. The loop prints a digit that is not zero, the first
  digit, and a zero once a digit or the point has been printed.\<close>

fun print_loop :: "string \<Rightarrow> int \<Rightarrow> int \<Rightarrow> bool \<Rightarrow> bool \<Rightarrow> string \<times> bool" where
  "print_loop [] i pos existsDot existsImportant = ([], existsDot)"
| "print_loop (r # rs) i pos existsDot existsImportant =
     (let dot = (i = pos \<and> \<not> existsDot); existsDot = (existsDot \<or> dot);
          shown = (r \<noteq> CHR ''0'' \<or> i = 0 \<or> existsImportant \<or> existsDot);
          (out, d) = print_loop rs (i + 1) pos existsDot (existsImportant \<or> r \<noteq> CHR ''0'')
      in ((if dot then ''.'' else []) @ (if shown then [r] else []) @ out, d))"

text \<open>The zeros at the end of the buffer are overwritten; when the point is then the last character the one after
  it becomes a zero again, unless it is the place of the final NUL.\<close>

definition cut_zeros :: "string \<Rightarrow> string" where
  "cut_zeros s =
     (let t = drop_last_zeros s in
      if t \<noteq> [] \<and> last t = CHR ''.'' \<and> length t < length s then t @ ''0'' else t)"

definition to_string :: "fixed \<Rightarrow> string res" where
  "to_string f =
     (if sign (fixed_value f) = Zero then Inr ''0''
      else rbind (big_toString (fixed_value f)) (\<lambda>numero.
        let negative = (sign (fixed_value f) = Neg); numero = (if negative then tl numero else numero);
            digitos = int (length numero);
            lead = (if fixed_scale f \<ge> digitos
              then ''0.'' @ replicate (nat (fixed_scale f - fixed_digits f)) CHR ''0'' else []);
            (body, existsDot) = print_loop numero 0 (digitos - fixed_scale f) (lead \<noteq> []) False;
            out = (if negative then ''-'' else []) @ lead @ body;
            out = (if existsDot then out else out @ replicate (nat (- fixed_scale f)) CHR ''0'') in
        if length out \<ge> 100 then Inl OUT_OF_BOUNDS
        else Inr (if existsDot then cut_zeros out else out)))"

end
