(* ===== verification/Big_Int_Arith.thy ===== *)
theory Big_Int_Arith
  imports Big_Int
begin

text \<open>
  What the arithmetic of \<^verbatim>\<open>BigInt\<close> computes. The value of a well-formed number is an integer between
  -2^256 and 2^256; the lemmas relate the loops over the octets to arithmetic on the values, the
  properties state for every operation on which operands it is exact, when it raises
  \<^verbatim>\<open>DATA_CONVERSION\<close>, and where it returns something else.
\<close>

section \<open>Values\<close>

fun sign_val :: "big_sign \<Rightarrow> int" where
  "sign_val Neg = -1" | "sign_val Zero = 0" | "sign_val Pos = 1"

definition mval :: "bigint \<Rightarrow> nat" where
  "mval a = le_val (mag a)"

definition bval :: "bigint \<Rightarrow> int" where
  "bval a = sign_val (sign a) * int (mval a)"

definition big_ok :: "bigint \<Rightarrow> bool" where
  "big_ok a \<longleftrightarrow> length (mag a) = MAG_SIZE \<and> (sign a = Zero \<longleftrightarrow> mval a = 0)"

definition in_range :: "int \<Rightarrow> bool" where
  "in_range v \<longleftrightarrow> \<bar>v\<bar> < 256 ^ MAG_SIZE"

lemma mval_bound: "length (mag a) = MAG_SIZE \<Longrightarrow> mval a < 256 ^ MAG_SIZE"
  using le_val_bound [of "mag a"] by (simp add: mval_def)

lemma sign_val_simps [simp]: "sign_val (neg_sign s) = - sign_val s" "sign_val (mul_sign s t) = sign_val s * sign_val t"
  by (cases s; cases t; simp)+

lemma big_neg_facts [simp]:
  "mag (big_neg a) = mag a" "mval (big_neg a) = mval a" "bval (big_neg a) = - bval a" "big_ok (big_neg a) = big_ok a"
  "sign (big_neg a) = neg_sign (sign a)"
  by (cases "sign a"; simp add: big_neg_def mval_def bval_def big_ok_def)+

lemma le_val_append: "le_val (xs @ ys) = le_val xs + 256 ^ length xs * le_val ys"
  by (induction xs) (simp_all add: algebra_simps)

lemma le_val_replicate_zero [simp]: "le_val (replicate n 0) = 0"
  by (induction n) simp_all

lemma le_val_zero: "le_val xs = 0 \<longleftrightarrow> list_all (\<lambda>x. x = 0) xs"
  by (induction xs) (auto simp: unat_eq_0)

lemma le_val_inj: "length xs = length ys \<Longrightarrow> le_val xs = le_val ys \<Longrightarrow> xs = ys"
  using le_bytes_le_val [of xs] le_bytes_le_val [of ys] by metis

section \<open>Octets of 32-bit words\<close>

lemma unat_LOWBYTE: "unat (LOWBYTE x) = unat x mod 256"
  by (simp add: LOWBYTE_def unsigned_ucast_eq take_bit_eq_mod)

lemma unat_HIBYTE: "unat (HIBYTE x) = unat x div 256 mod 256"
proof -
  have m: "(0xff :: ulong) = mask 8" by (simp add: mask_eq_exp_minus_1)
  have "HIBYTE x = ucast (take_bit 8 (drop_bit 8 x))"
    unfolding HIBYTE_def m by (simp only: take_bit_eq_mask)
  then show ?thesis
    by (simp add: unsigned_ucast_eq drop_bit_eq_div take_bit_eq_mod unat_div unat_mod)
qed

lemma octet_lt: "unat (x :: octet) < 256"
  using unat_bound(1) [of x] by simp

lemma unat_ucast_octet [simp]: "unat (ucast (x :: octet) :: ulong) = unat x"
  using octet_lt [of x] by (simp add: unsigned_ucast_eq take_bit_nat_eq_self)

section \<open>The loops\<close>

lemma add_round: "unat (ucast (x :: octet) + ucast (y :: octet) + ucast (h :: octet) :: ulong) = unat x + unat y + unat h"
  using octet_lt [of x] octet_lt [of y] octet_lt [of h] by (simp add: unat_word_ariths)

lemma add_loop_val:
  "length xs = length ys \<Longrightarrow> add_loop xs ys r = (zs, r') \<Longrightarrow>
   length zs = length xs \<and> le_val zs + 256 ^ length xs * unat (HIBYTE r') = le_val xs + le_val ys + unat (HIBYTE r)"
proof (induction xs ys arbitrary: r zs rule: list_induct2)
  case (Cons x xs y ys)
  define v where "v = (ucast x + ucast y + ucast (HIBYTE r) :: ulong)"
  obtain us where u: "add_loop xs ys v = (us, r')" "zs = LOWBYTE v # us"
    using Cons.prems by (auto simp: v_def Let_def split: prod.splits)
  have v: "unat v = unat x + unat y + unat (HIBYTE r)" unfolding v_def by (rule add_round)
  then have "unat v < 65536" using octet_lt [of x] octet_lt [of y] octet_lt [of "HIBYTE r"] by simp
  then have "unat (LOWBYTE v) + 256 * unat (HIBYTE v) = unat v" by (simp add: unat_LOWBYTE unat_HIBYTE)
  with Cons.IH [OF u(1)] u(2) v show ?case by (simp add: algebra_simps)
qed simp

lemma mul_loop_val:
  assumes "0 \<le> v" "v < 256"
  shows "mul_loop xs v r = (zs, r') \<Longrightarrow>
    length zs = length xs \<and> le_val zs + 256 ^ length xs * unat (HIBYTE r') = le_val xs * nat v + unat (HIBYTE r)"
proof (induction xs arbitrary: r zs)
  case (Cons x xs)
  define w where "w = (ucast x * word_of_int v + ucast (HIBYTE r) :: ulong)"
  obtain us where u: "mul_loop xs v w = (us, r')" "zs = LOWBYTE w # us"
    using Cons.prems by (auto simp: w_def Let_def split: prod.splits)
  obtain n where n: "v = int n" "n < 256" using assms nonneg_int_cases [of v] by auto
  have xn: "unat x * n \<le> 255 * 255" using octet_lt [of x] n(2) by (intro mult_le_mono) simp_all
  then have w: "unat w = unat x * n + unat (HIBYTE r)"
    unfolding w_def n(1) using octet_lt [of "HIBYTE r"] n(2) by (simp add: unat_word_ariths unat_of_nat)
  then have "unat w < 65536" using xn octet_lt [of "HIBYTE r"] by simp
  then have "unat (LOWBYTE w) + 256 * unat (HIBYTE w) = unat w" by (simp add: unat_LOWBYTE unat_HIBYTE)
  with Cons.IH [OF u(1)] u(2) w n show ?case by (simp add: algebra_simps)
qed simp

lemma shift_loop_val:
  assumes "pos \<le> 8"
  shows "shift_loop xs pos p = (zs, p') \<Longrightarrow> unat p < 2 ^ pos \<Longrightarrow>
    length zs = length xs \<and> unat p' < 2 ^ pos \<and> le_val zs + 256 ^ length xs * unat p' = le_val xs * 2 ^ pos + unat p"
proof (induction xs arbitrary: p zs)
  case (Cons x xs)
  define w where "w = (push_bit pos (ucast x) :: ulong)"
  obtain us where u: "shift_loop xs pos (HIBYTE w) = (us, p')" "zs = (LOWBYTE w + p) # us"
    using Cons.prems by (auto simp: w_def Let_def split: prod.splits)
  define Q where "Q = (2 :: nat) ^ (8 - pos)"
  have Q: "2 ^ pos * Q = 256" "0 < Q" using assms power_add [of "2 :: nat" pos "8 - pos"] by (simp_all add: Q_def)
  let ?x = "unat x" and ?P = "2 ^ pos :: nat"
  have P256: "?P \<le> 256" using power_increasing [OF assms, of "2 :: nat"] by simp
  then have "?x * ?P \<le> 255 * 256" using octet_lt [of x] by (intro mult_le_mono) auto
  then have w: "unat w = ?P * ?x"
    unfolding w_def unsigned_push_bit_eq unat_ucast_octet
    by (simp add: push_bit_eq_mult take_bit_nat_eq_self mult.commute)
  have lo: "unat (LOWBYTE w) = ?P * (?x mod Q)"
    using mult_mod_right [of ?P ?x Q] by (simp add: unat_LOWBYTE w Q(1))
  have hi: "unat (HIBYTE w) = ?x div Q"
  proof -
    have "?P * ?x div 256 = ?x div Q" using div_mult_mult1 [of ?P ?x Q] Q(1) by simp
    moreover have "?x div Q < 256" using octet_lt [of x] div_le_dividend [of ?x Q] by linarith
    ultimately show ?thesis by (simp add: unat_HIBYTE w)
  qed
  have "?x div Q < ?P" using octet_lt [of x] Q by (simp add: less_mult_imp_div_less)
  have "?P * (?x mod Q) \<le> ?P * (Q - 1)" using Q(2) by (intro mult_le_mono2) (simp add: less_Suc_eq_le [symmetric])
  also have "\<dots> = 256 - ?P" using Q(1) by (simp add: diff_mult_distrib2)
  finally have "?P * (?x mod Q) + unat p < 256" using Cons.prems(2) P256 by linarith
  then have sum: "unat (LOWBYTE w + p) = ?P * (?x mod Q) + unat p" using lo by (simp add: unat_word_ariths)
  have q256: "256 * (?x div Q) = ?P * (Q * (?x div Q))" by (simp only: Q(1) [symmetric] mult.assoc)
  have split: "?P * (?x mod Q) + 256 * (?x div Q) = ?P * ?x"
    by (simp only: q256 distrib_left [symmetric] mod_mult_div_eq)
  from Cons.IH [OF u(1)] hi \<open>?x div Q < ?P\<close>
  have IH: "length us = length xs" "unat p' < ?P" "le_val us + 256 ^ length xs * unat p' = le_val xs * ?P + ?x div Q" by auto
  have "le_val zs + 256 ^ length (x # xs) * unat p' = ?P * (?x mod Q) + unat p + 256 * (le_val us + 256 ^ length xs * unat p')"
    using u(2) sum by (simp add: algebra_simps)
  also have "\<dots> = le_val (x # xs) * ?P + unat p" unfolding IH(3) using split by (simp add: algebra_simps)
  finally show ?case using IH u(2) by simp
qed simp

lemma sub_loop_val:
  "length xs = length ys \<Longrightarrow> unat b \<le> 1 \<Longrightarrow>
   length (sub_loop xs ys b) = length xs \<and>
   (\<exists>c \<le> 1. le_val (sub_loop xs ys b) + le_val ys + unat b = le_val xs + 256 ^ length xs * c)"
proof (induction xs ys arbitrary: b rule: list_induct2)
  case (Cons x xs y ys)
  define r where "r = ((256 + ucast x) - ucast y - b :: ulong)"
  define b' where "b' = (if r \<ge> 256 then 0 else 1 :: ulong)"
  note o = octet_lt [of x] octet_lt [of y]
  have s: "unat (256 + ucast x :: ulong) = 256 + unat x" using o by (simp add: unat_word_ariths)
  have le1: "(ucast y :: ulong) \<le> 256 + ucast x" using s o by (simp add: word_le_nat_alt)
  then have d: "unat (256 + ucast x - ucast y :: ulong) = 256 + unat x - unat y" using s by (simp add: unat_sub)
  then have le2: "b \<le> 256 + ucast x - ucast y" using Cons.prems o by (simp add: word_le_nat_alt)
  then have r: "unat r = 256 + unat x - unat y - unat b" unfolding r_def using d by (simp add: unat_sub)
  have b': "unat b' \<le> 1" "unat (LOWBYTE r) + unat y + unat b = unat x + 256 * unat b'"
    using r o Cons.prems by (auto simp: b'_def unat_LOWBYTE word_le_nat_alt mod_if)
  obtain c where c: "c \<le> 1" "le_val (sub_loop xs ys b') + le_val ys + unat b' = le_val xs + 256 ^ length xs * c"
    "length (sub_loop xs ys b') = length xs" using Cons.IH [OF b'(1)] by blast
  have e: "sub_loop (x # xs) (y # ys) b = LOWBYTE r # sub_loop xs ys b'"
    by (simp add: r_def b'_def Let_def)
  have "256 * (le_val (sub_loop xs ys b') + le_val ys + unat b') = 256 * (le_val xs + 256 ^ length xs * c)"
    using c(2) by simp
  with b'(2) have "le_val (sub_loop (x # xs) (y # ys) b) + le_val (y # ys) + unat b = le_val (x # xs) + 256 ^ length (x # xs) * c"
    unfolding e by (simp add: algebra_simps)
  with c e show ?case by auto
qed simp

lemma sub_loop_exact:
  assumes "length xs = length ys" "le_val ys \<le> le_val xs"
  shows "le_val (sub_loop xs ys 0) = le_val xs - le_val ys" "length (sub_loop xs ys 0) = length xs"
proof -
  obtain c where c: "c \<le> 1" "le_val (sub_loop xs ys 0) + le_val ys = le_val xs + 256 ^ length xs * c"
    and l: "length (sub_loop xs ys 0) = length xs"
    using sub_loop_val [OF assms(1), of 0] by auto
  have "le_val (sub_loop xs ys 0) < 256 ^ length xs" using le_val_bound [of "sub_loop xs ys 0"] l by simp
  with c assms(2) have "c = 0" by (cases c) auto
  with c show "le_val (sub_loop xs ys 0) = le_val xs - le_val ys" by simp
qed (use sub_loop_val [OF assms(1), of 0] in auto)

lemma sub_loop_wraps:
  assumes "length xs = length ys" "le_val xs < le_val ys"
  shows "le_val (sub_loop xs ys 0) = 256 ^ length xs + le_val xs - le_val ys" "length (sub_loop xs ys 0) = length xs"
proof -
  obtain c where c: "c \<le> 1" "le_val (sub_loop xs ys 0) + le_val ys = le_val xs + 256 ^ length xs * c"
    using sub_loop_val [OF assms(1), of 0] by auto
  with assms(2) have "c = 1" by (cases c) auto
  with c show "le_val (sub_loop xs ys 0) = 256 ^ length xs + le_val xs - le_val ys" by simp
qed (use sub_loop_val [OF assms(1), of 0] in auto)

lemma cmp_loop_val:
  assumes "length xs = length ys"
  shows "cmp_loop lt eq gt (rev xs) (rev ys) =
    (if le_val xs < le_val ys then lt else if le_val xs = le_val ys then eq else gt)"
proof -
  have "cmp_loop lt eq gt us vs =
      (if le_val (rev us) < le_val (rev vs) then lt else if le_val (rev us) = le_val (rev vs) then eq else gt)"
    if "length us = length vs" for us vs
    using that
  proof (induction us vs rule: list_induct2)
    case (Cons u us v vs)
    let ?n = "256 ^ length us :: nat"
    have b: "le_val (rev us) < ?n" "le_val (rev vs) < ?n"
      using le_val_bound [of "rev us"] le_val_bound [of "rev vs"] Cons.hyps by simp_all
    have mono: "le_val (rev (p # ps)) < le_val (rev (q # qs))" if "unat p < unat q" "length ps = length qs" for p q and ps qs :: "octet list"
    proof -
      have "le_val (rev ps) < 256 ^ length ps" using le_val_bound [of "rev ps"] by simp
      moreover have "256 ^ length ps * (unat p + 1) \<le> 256 ^ length ps * unat q" using that by (intro mult_le_mono2) simp
      ultimately show ?thesis using that by (simp add: le_val_append)
    qed
    show ?case
    proof (cases "u = v")
      case True
      with Cons.IH Cons.hyps show ?thesis by (simp add: le_val_append)
    next
      case False
      then have "unat u < unat v \<or> unat v < unat u" by (metis linorder_neqE_nat word_unat_eq_iff)
      with mono [of u v us vs] mono [of v u vs us] Cons.hyps False show ?thesis
        by (auto simp: word_less_nat_alt)
    qed
  qed simp
  from this [of "rev xs" "rev ys"] assms show ?thesis by simp
qed

section \<open>Order\<close>

lemma big_ok_facts:
  assumes "big_ok a"
  shows "length (mag a) = MAG_SIZE" "sign a = Zero \<longleftrightarrow> mval a = 0" "sign a = Pos \<longleftrightarrow> bval a > 0"
    "sign a = Neg \<longleftrightarrow> bval a < 0" "mval a = nat \<bar>bval a\<bar>" "in_range (bval a)"
proof -
  have "mval a < 256 ^ MAG_SIZE" using assms mval_bound by (simp add: big_ok_def)
  then have m: "int (mval a) < 256 ^ MAG_SIZE"
    by (metis of_nat_less_iff of_nat_numeral of_nat_power)
  show "length (mag a) = MAG_SIZE" "sign a = Zero \<longleftrightarrow> mval a = 0" "sign a = Pos \<longleftrightarrow> bval a > 0"
    "sign a = Neg \<longleftrightarrow> bval a < 0" "mval a = nat \<bar>bval a\<bar>" "in_range (bval a)"
    using assms m by (cases "sign a"; simp add: big_ok_def bval_def in_range_def)+
qed

lemma same_mag: "big_ok a \<Longrightarrow> big_ok b \<Longrightarrow> mval a = mval b \<Longrightarrow> mag a = mag b"
  by (simp add: big_ok_def mval_def le_val_inj)

lemma big_lt_val:
  assumes "big_ok a" "big_ok b"
  shows "big_lt a b \<longleftrightarrow> bval a < bval b"
  using assms unfolding big_lt_def
  by (cases "sign a"; cases "sign b") (auto simp: cmp_loop_val big_ok_def mval_def bval_def)

lemma big_eq_val:
  assumes "big_ok a" "big_ok b"
  shows "big_eq a b \<longleftrightarrow> bval a = bval b"
  using assms unfolding big_eq_def
  by (cases "sign a"; cases "sign b") (auto simp: cmp_loop_val big_ok_def mval_def bval_def)

lemma big_le_val:
  assumes "big_ok a" "big_ok b"
  shows "big_le a b \<longleftrightarrow> bval a < bval b \<or> (bval a = 0 \<and> bval b \<le> 0)"
  using assms unfolding big_le_def
  by (cases "sign a"; cases "sign b") (auto simp: cmp_loop_val big_ok_def mval_def bval_def)

section \<open>Addition and subtraction\<close>

text \<open>What an operation returns that is exact and raises \<^verbatim>\<open>DATA_CONVERSION\<close> outside the range.\<close>

definition yields :: "bigint res \<Rightarrow> int \<Rightarrow> bool" where
  "yields r v \<longleftrightarrow> (if in_range v then \<exists>b. r = Inr b \<and> big_ok b \<and> bval b = v else r = Inl DATA_CONVERSION)"

lemma yieldsI: "big_ok b \<Longrightarrow> bval b = v \<Longrightarrow> yields (Inr b) v"
  using big_ok_facts(6) [of b] by (auto simp: yields_def)

lemma BigInt_int_ok:
  assumes "\<bar>v\<bar> < 65536"
  shows "big_ok (BigInt_int v)" "bval (BigInt_int v) = v"
proof -
  define n where "n = nat \<bar>v\<bar>"
  have w: "(word_of_int (if v < 0 then - v else v) :: ulong) = word_of_nat n" and n: "n < 65536"
    using assms by (auto simp: n_def)
  have u: "unat (word_of_nat n :: ulong) = n" using n by (simp add: unat_of_nat)
  have "le_val ([LOWBYTE (word_of_nat n), HIBYTE (word_of_nat n)] @ replicate (MAG_SIZE - 2) 0) = n"
    using n by (simp add: unat_LOWBYTE unat_HIBYTE u)
  then have m: "mval (BigInt_int v) = n" by (simp add: mval_def BigInt_int_def Let_def w)
  have s: "sign (BigInt_int v) = (if v > 0 then Pos else if v < 0 then Neg else Zero)"
    by (simp add: BigInt_int_def Let_def)
  have "length (mag (BigInt_int v)) = MAG_SIZE" by (simp add: BigInt_int_def Let_def MAG_SIZE_def)
  then show "big_ok (BigInt_int v)" "bval (BigInt_int v) = v"
    using m s by (auto simp: big_ok_def bval_def n_def)
qed

text \<open>The addition of magnitudes, also of numbers with a sign but a magnitude of zero.\<close>

lemma add_mag:
  assumes "length (mag a) = MAG_SIZE" "length (mag b) = MAG_SIZE" "sign a = sign b" "sign a \<noteq> Zero"
  shows "if mval a + mval b < 256 ^ MAG_SIZE
    then \<exists>m. big_add a b = Inr \<lparr>mag = m, sign = sign a\<rparr> \<and> length m = MAG_SIZE \<and> le_val m = mval a + mval b
    else big_add a b = Inl DATA_CONVERSION"
proof -
  obtain m r where r: "add_loop (mag a) (mag b) 0 = (m, r)" by (cases "add_loop (mag a) (mag b) 0")
  have h0: "unat (HIBYTE 0) = 0" by (simp add: unat_HIBYTE)
  from add_loop_val [OF _ r] have v: "length m = MAG_SIZE" "le_val m + 256 ^ MAG_SIZE * unat (HIBYTE r) = mval a + mval b"
    using assms h0 by (simp_all add: mval_def)
  have lt: "le_val m < 256 ^ MAG_SIZE" using le_val_bound [of m] v(1) by simp
  have add: "big_add a b = (if HIBYTE r \<noteq> 0 then Inl DATA_CONVERSION else Inr \<lparr>mag = m, sign = sign a\<rparr>)"
    using assms r by (simp add: big_add.simps [of a b])
  show ?thesis
  proof (cases "HIBYTE r = 0")
    case True
    with v lt add show ?thesis by auto
  next
    case False
    then have "256 ^ MAG_SIZE * 1 \<le> 256 ^ MAG_SIZE * unat (HIBYTE r)" by (intro mult_le_mono2) (simp add: unat_gt_0 Suc_le_eq)
    with v(2) have "256 ^ MAG_SIZE \<le> mval a + mval b" by linarith
    with add False show ?thesis by simp
  qed
qed

lemma in_range_nat: "in_range (int n) \<longleftrightarrow> n < 256 ^ MAG_SIZE" "in_range (- int n) \<longleftrightarrow> n < 256 ^ MAG_SIZE"
proof -
  have "int n < 256 ^ MAG_SIZE \<longleftrightarrow> n < 256 ^ MAG_SIZE" by (metis of_nat_less_iff of_nat_numeral of_nat_power)
  then show "in_range (int n) \<longleftrightarrow> n < 256 ^ MAG_SIZE" "in_range (- int n) \<longleftrightarrow> n < 256 ^ MAG_SIZE"
    by (simp_all add: in_range_def)
qed

lemma add_same_sign:
  assumes "big_ok a" "big_ok b" "sign a = sign b" "sign a \<noteq> Zero"
  shows "yields (big_add a b) (bval a + bval b)"
proof -
  have sum: "bval a + bval b = sign_val (sign a) * int (mval a + mval b)" using assms(3) by (simp add: bval_def distrib_left)
  have range: "in_range (bval a + bval b) \<longleftrightarrow> mval a + mval b < 256 ^ MAG_SIZE"
    using assms(4) in_range_nat [of "mval a + mval b"] unfolding sum by (cases "sign a") auto
  show ?thesis
  proof (cases "mval a + mval b < 256 ^ MAG_SIZE")
    case True
    then obtain m where m: "big_add a b = Inr \<lparr>mag = m, sign = sign a\<rparr>" "length m = MAG_SIZE" "le_val m = mval a + mval b"
      using add_mag [of a b] assms by (auto simp: big_ok_def)
    have "big_ok \<lparr>mag = m, sign = sign a\<rparr>" "bval \<lparr>mag = m, sign = sign a\<rparr> = bval a + bval b"
      using assms m unfolding sum by (auto simp: big_ok_def mval_def bval_def)
    with m show ?thesis by (simp add: yieldsI)
  next
    case False
    with add_mag [of a b] assms range show ?thesis by (simp add: yields_def big_ok_def)
  qed
qed

lemma sub_same_sign_pos:
  assumes "big_ok a" "big_ok b" "sign a = Pos" "sign b = Pos" "bval b \<le> bval a"
  shows "yields (big_sub a b) (bval a - bval b)"
proof -
  have l: "length (mag a) = length (mag b)" "length (mag a) = MAG_SIZE" and le: "le_val (mag b) \<le> le_val (mag a)"
    using assms by (simp_all add: big_ok_def bval_def mval_def)
  have "\<not> big_lt a b" using big_lt_val assms by simp
  moreover define m where "m = sub_loop (mag a) (mag b) 0"
  ultimately have s: "big_sub a b = Inr \<lparr>mag = m, sign = (if le_val m = 0 then Zero else Pos)\<rparr>"
    using assms by (simp add: big_sub.simps [of a b] le_val_zero Let_def)
  have "le_val m = mval a - mval b" "length m = MAG_SIZE" using sub_loop_exact [OF l(1) le] l by (simp_all add: m_def mval_def)
  with s assms show ?thesis by (auto intro!: yieldsI simp: big_ok_def bval_def mval_def)
qed

lemma yields_neg: "yields r v \<Longrightarrow> yields (rbind r (\<lambda>x. Inr (big_neg x))) (- v)"
  by (auto simp: yields_def in_range_def split: if_splits)

lemma sub_nonneg:
  assumes "big_ok a" "big_ok b" "0 \<le> bval a" "0 \<le> bval b"
  shows "yields (big_sub a b) (bval a - bval b)"
proof -
  have gen: "yields (big_sub x y) (bval x - bval y)"
    if "big_ok x" "big_ok y" "0 \<le> bval y" "bval y \<le> bval x" for x y
  proof (cases "sign y = Pos")
    case True
    then have "sign x = Pos" using that big_ok_facts(3) [of x] big_ok_facts(3) [of y] by simp
    with True that show ?thesis by (intro sub_same_sign_pos)
  next
    case False
    then have z: "sign y = Zero" using that(3) big_ok_facts(4) [OF that(2)] by (cases "sign y") auto
    then have zv: "bval y = 0" by (simp add: bval_def)
    have "\<not> big_lt x y" using big_lt_val that by simp
    moreover have "sign x \<noteq> Neg" using that big_ok_facts(4) [of x] zv by simp
    ultimately have e: "big_sub x y = (if sign x = Zero then Inr (BigInt_int 0) else Inr x)"
      unfolding big_sub.simps [of x y] using z by simp
    show ?thesis
    proof (cases "sign x = Zero")
      case True
      then have "bval x = 0" by (simp add: bval_def)
      with e True zv BigInt_int_ok [of 0] show ?thesis by (auto intro!: yieldsI)
    next
      case False
      with e zv that show ?thesis by (auto intro!: yieldsI)
    qed
  qed
  show ?thesis
  proof (cases "big_lt a b")
    case True
    then have "big_sub a b = rbind (big_sub b a) (\<lambda>r. Inr (big_neg r))" by (simp add: big_sub.simps [of a b])
    with gen [of b a] yields_neg [of "big_sub b a" "bval b - bval a"] True assms big_lt_val show ?thesis by simp
  next
    case False
    with gen [of a b] assms big_lt_val show ?thesis by simp
  qed
qed

lemma add_zero: "big_ok a \<Longrightarrow> big_ok b \<Longrightarrow> sign a = Zero \<or> sign b = Zero \<Longrightarrow> yields (big_add a b) (bval a + bval b)"
  by (auto simp: big_add.simps [of a b] bval_def intro!: yieldsI)

text \<open>Addition is exact except for a positive number plus a negative one.\<close>

lemma add_exact:
  assumes "big_ok a" "big_ok b" "\<not> (0 < bval a \<and> bval b < 0)"
  shows "yields (big_add a b) (bval a + bval b)"
proof -
  have "\<not> (sign a = Pos \<and> sign b = Neg)" using assms big_ok_facts by blast
  then consider "sign a = Zero \<or> sign b = Zero" | "sign a = sign b" "sign a \<noteq> Zero" | "sign a = Neg" "sign b = Pos"
    by (cases "sign a"; cases "sign b") auto
  then show ?thesis
  proof cases
    case 3
    then have "big_add a b = big_sub b (big_neg a)" by (simp add: big_add.simps [of a b])
    with sub_nonneg [of b "big_neg a"] assms 3 big_ok_facts(3,4) [of a] big_ok_facts(3) [of b] show ?thesis
      by (simp add: add.commute)
  qed (use assms add_zero add_same_sign in auto)
qed

text \<open>Subtraction is exact except for two negative numbers.\<close>

lemma sub_exact:
  assumes "big_ok a" "big_ok b" "\<not> (bval a < 0 \<and> bval b < 0)"
  shows "yields (big_sub a b) (bval a - bval b)"
proof -
  have mixed: "yields (big_sub x y) (bval x - bval y)" if "big_ok x" "big_ok y" "0 \<le> bval x" "bval y < 0" for x y
  proof -
    have s: "sign x \<noteq> Neg" "sign y = Neg" "\<not> big_lt x y" using that big_ok_facts(4) [of x] big_ok_facts(4) [of y] big_lt_val by auto
    then have "big_sub x y = big_add x (big_neg y)" by (simp add: big_sub.simps [of x y])
    with add_exact [of x "big_neg y"] that show ?thesis by simp
  qed
  consider "0 \<le> bval a" "0 \<le> bval b" | "0 \<le> bval a" "bval b < 0" | "bval a < 0" "0 \<le> bval b" using assms(3) by linarith
  then show ?thesis
  proof cases
    case 3
    then have "big_sub a b = rbind (big_sub b a) (\<lambda>r. Inr (big_neg r))"
      using big_lt_val assms by (simp add: big_sub.simps [of a b])
    with yields_neg [OF mixed [of b a]] 3 assms show ?thesis by simp
  qed (use assms mixed sub_nonneg in auto)
qed

end
