(* ===== verification/Big_Int_Muldiv.thy ===== *)
theory Big_Int_Muldiv
  imports Big_Int_Arith
begin

text \<open>Multiplication, division and the conversion from decimal strings of \<^verbatim>\<open>BigInt\<close>.\<close>

section \<open>Multiplication\<close>

lemma mul_int_pos:
  assumes "length (mag a) = MAG_SIZE" "sign a = Pos" "0 < v" "v < 256"
  shows "if mval a * nat v < 256 ^ MAG_SIZE
    then \<exists>m. big_mul_int a v = Inr \<lparr>mag = m, sign = Pos\<rparr> \<and> length m = MAG_SIZE \<and> le_val m = mval a * nat v
    else big_mul_int a v = Inl DATA_CONVERSION"
proof -
  obtain m r where r: "mul_loop (mag a) v 0 = (m, r)" by (cases "mul_loop (mag a) v 0")
  have h0: "unat (HIBYTE 0) = 0" by (simp add: unat_HIBYTE)
  from mul_loop_val [OF _ assms(4) r] have v: "length m = MAG_SIZE" "le_val m + 256 ^ MAG_SIZE * unat (HIBYTE r) = mval a * nat v"
    using assms h0 by (simp_all add: mval_def)
  have lt: "le_val m < 256 ^ MAG_SIZE" using le_val_bound [of m] v(1) by simp
  have mul: "big_mul_int a v = (if HIBYTE r \<noteq> 0 then Inl DATA_CONVERSION else Inr \<lparr>mag = m, sign = Pos\<rparr>)"
    using assms r by (simp add: big_mul_int.simps [of a v])
  show ?thesis
  proof (cases "HIBYTE r = 0")
    case True
    with v lt mul show ?thesis by auto
  next
    case False
    then have "256 ^ MAG_SIZE * 1 \<le> 256 ^ MAG_SIZE * unat (HIBYTE r)" by (intro mult_le_mono2) (simp add: unat_gt_0 Suc_le_eq)
    with v(2) have "256 ^ MAG_SIZE \<le> mval a * nat v" by linarith
    with mul False show ?thesis by simp
  qed
qed

lemma shiftBytesLeft_val:
  assumes "length (mag a) = MAG_SIZE" "i \<le> MAG_SIZE"
  shows "if mval a * 256 ^ i < 256 ^ MAG_SIZE
    then \<exists>m. shiftBytesLeft i a = Inr (a\<lparr>mag := m\<rparr>) \<and> length m = MAG_SIZE \<and> le_val m = mval a * 256 ^ i
    else shiftBytesLeft i a = Inl DATA_CONVERSION"
proof -
  let ?lo = "take (MAG_SIZE - i) (mag a)" and ?hi = "drop (MAG_SIZE - i) (mag a)"
  have split: "mval a = le_val ?lo + 256 ^ (MAG_SIZE - i) * le_val ?hi"
    using le_val_append [of ?lo ?hi] assms by (simp add: mval_def)
  have pw: "256 ^ (MAG_SIZE - i) * 256 ^ i = (256 :: nat) ^ MAG_SIZE" using assms(2) by (simp flip: power_add)
  have lt: "mval a * 256 ^ i < 256 ^ MAG_SIZE \<longleftrightarrow> mval a < 256 ^ (MAG_SIZE - i)"
    by (simp flip: pw)
  have z: "(\<exists>x \<in> set ?hi. x \<noteq> 0) \<longleftrightarrow> le_val ?hi \<noteq> 0" unfolding le_val_zero by (auto simp: list_all_iff)
  have lo: "le_val ?lo < 256 ^ (MAG_SIZE - i)" using le_val_bound [of ?lo] assms by simp
  show ?thesis
  proof (cases "le_val ?hi = 0")
    case True
    then have "mval a < 256 ^ (MAG_SIZE - i)" and m: "mval a = le_val ?lo" using split lo by simp_all
    moreover have "le_val (replicate i 0 @ ?lo) = mval a * 256 ^ i" using m by (simp add: le_val_append)
    ultimately show ?thesis using True z lt assms by (auto simp: shiftBytesLeft_def)
  next
    case False
    then have "256 ^ (MAG_SIZE - i) * 1 \<le> 256 ^ (MAG_SIZE - i) * le_val ?hi" by (intro mult_le_mono2) simp
    then have "\<not> mval a < 256 ^ (MAG_SIZE - i)" using split by linarith
    with False z lt show ?thesis by (simp add: shiftBytesLeft_def)
  qed
qed

definition accumulates :: "bigint res \<Rightarrow> nat \<Rightarrow> bool" where
  "accumulates r v \<longleftrightarrow> (if v < 256 ^ MAG_SIZE
     then \<exists>b. r = Inr b \<and> length (mag b) = MAG_SIZE \<and> mval b = v \<and> sign b \<noteq> Neg \<and> (sign b = Zero \<longrightarrow> v = 0)
     else r = Inl DATA_CONVERSION)"

lemma mul_round:
  fixes y :: octet
  assumes "length (mag p) = MAG_SIZE" "sign p = Pos" "y \<noteq> 0" "i \<le> MAG_SIZE"
    "length (mag acc) = MAG_SIZE" "sign acc \<noteq> Neg" "sign acc = Zero \<longrightarrow> mval acc = 0"
  shows "accumulates (rbind (big_mul_int p (int (unat y))) (\<lambda>values. rbind (shiftBytesLeft i values) (big_add acc)))
    (mval acc + mval p * unat y * 256 ^ i)"
proof -
  let ?v = "mval p * unat y"
  have y: "0 < int (unat y)" "int (unat y) < 256" using assms(3) octet_lt [of y] by (simp_all add: unat_gt_0 del: of_nat_unat)
  note M = mul_int_pos [OF assms(1,2) y, unfolded nat_int]
  have big: "mval acc + ?v * 256 ^ i \<ge> 256 ^ MAG_SIZE" if "\<not> ?v * 256 ^ i < 256 ^ MAG_SIZE" using that by simp
  show ?thesis
  proof (cases "?v < 256 ^ MAG_SIZE")
    case True
    then obtain m where m: "big_mul_int p (int (unat y)) = Inr \<lparr>mag = m, sign = Pos\<rparr>" "length m = MAG_SIZE" "le_val m = ?v"
      using M by auto
    note S = shiftBytesLeft_val [of "\<lparr>mag = m, sign = Pos\<rparr>", OF _ assms(4)]
    show ?thesis
    proof (cases "?v * 256 ^ i < 256 ^ MAG_SIZE")
      case T: True
      then obtain n where n: "shiftBytesLeft i \<lparr>mag = m, sign = Pos\<rparr> = Inr \<lparr>mag = n, sign = Pos\<rparr>" "length n = MAG_SIZE"
        "le_val n = ?v * 256 ^ i" using S m by (auto simp: mval_def)
      show ?thesis
      proof (cases "sign acc = Zero")
        case True
        then have "big_add acc \<lparr>mag = n, sign = Pos\<rparr> = Inr \<lparr>mag = n, sign = Pos\<rparr>" by (simp add: big_add.simps)
        with m n T True assms(7) show ?thesis by (simp add: accumulates_def mval_def)
      next
        case False
        then have "sign acc = Pos" using assms(6) by (cases "sign acc") auto
        with add_mag [of acc "\<lparr>mag = n, sign = Pos\<rparr>"] m n assms(5) show ?thesis
          by (auto simp: accumulates_def mval_def split: if_splits)
      qed
    qed (use m S big in \<open>auto simp: accumulates_def mval_def\<close>)
  next
    case False
    then have "\<not> ?v * 256 ^ i < 256 ^ MAG_SIZE" by (metis not_less order_trans le_add1 mult_le_mono2 nat_mult_1_right one_le_power one_le_numeral)
    with False M big show ?thesis by (simp add: accumulates_def)
  qed
qed

lemma big_mul_loop_val:
  assumes "length (mag p) = MAG_SIZE" "sign p = Pos"
  shows "i + length ys = MAG_SIZE \<Longrightarrow> length (mag acc) = MAG_SIZE \<Longrightarrow> sign acc \<noteq> Neg \<Longrightarrow> (sign acc = Zero \<longrightarrow> mval acc = 0) \<Longrightarrow>
    accumulates (big_mul_loop p ys i acc) (mval acc + mval p * 256 ^ i * le_val ys)"
proof (induction ys arbitrary: i acc)
  case Nil
  then show ?case using mval_bound [of acc] by (simp add: accumulates_def)
next
  case (Cons y ys)
  have eq: "mval acc + mval p * 256 ^ i * le_val (y # ys) = mval acc + mval p * unat y * 256 ^ i + mval p * 256 ^ Suc i * le_val ys"
    by (simp add: algebra_simps)
  show ?case
  proof (cases "y = 0")
    case True
    with Cons.IH [of "Suc i" acc] Cons.prems show ?thesis unfolding eq by simp
  next
    case False
    let ?R = "rbind (big_mul_int p (int (unat y))) (\<lambda>values. rbind (shiftBytesLeft i values) (big_add acc))"
    have A: "accumulates ?R (mval acc + mval p * unat y * 256 ^ i)"
      using mul_round [OF assms False, of i acc] Cons.prems by simp
    have step: "big_mul_loop p (y # ys) i acc = rbind ?R (big_mul_loop p ys (Suc i))"
      using False by (simp add: rbind_assoc)
    show ?thesis
    proof (cases "mval acc + mval p * unat y * 256 ^ i < 256 ^ MAG_SIZE")
      case True
      with A obtain b where b: "?R = Inr b" "length (mag b) = MAG_SIZE" "mval b = mval acc + mval p * unat y * 256 ^ i"
        "sign b \<noteq> Neg" "sign b = Zero \<longrightarrow> mval b = 0" by (auto simp: accumulates_def)
      have "accumulates (big_mul_loop p ys (Suc i) b) (mval b + mval p * 256 ^ Suc i * le_val ys)"
        using Cons.prems b by (intro Cons.IH) auto
      then show ?thesis unfolding step eq b(1) rbind.simps b(3) .
    next
      case False
      with A have "?R = Inl DATA_CONVERSION" by (simp add: accumulates_def)
      with False show ?thesis unfolding step eq by (simp add: accumulates_def)
    qed
  qed
qed

lemma mul_exact:
  assumes "big_ok a" "big_ok b"
  shows "yields (big_mul a b) (bval a * bval b)"
proof -
  let ?p = "a\<lparr>sign := Pos\<rparr>" and ?v = "mval a * mval b"
  have v0: "length (mag (BigInt_int 0)) = MAG_SIZE" "sign (BigInt_int 0) = Zero" "mval (BigInt_int 0) = 0"
    using BigInt_int_ok(1) [of 0] by (simp_all add: big_ok_def) (simp_all add: BigInt_int_def Let_def)
  have A: "accumulates (big_mul_loop ?p (mag b) 0 (BigInt_int 0)) ?v"
    using big_mul_loop_val [of ?p 0 "mag b" "BigInt_int 0"] assms v0 by (simp add: big_ok_def mval_def)
  have val: "bval a * bval b = sign_val (mul_sign (sign a) (sign b)) * int ?v"
    by (simp add: bval_def algebra_simps)
  have sg: "mul_sign (sign a) (sign b) = Zero \<longleftrightarrow> ?v = 0"
    using assms by (cases "sign a"; cases "sign b") (auto simp: big_ok_def)
  have range: "in_range (bval a * bval b) \<longleftrightarrow> ?v < 256 ^ MAG_SIZE"
    using in_range_nat [of ?v] sg unfolding val by (cases "mul_sign (sign a) (sign b)") auto
  show ?thesis
  proof (cases "?v < 256 ^ MAG_SIZE")
    case True
    with A obtain r where r: "big_mul_loop ?p (mag b) 0 (BigInt_int 0) = Inr r" "length (mag r) = MAG_SIZE" "mval r = ?v"
      by (auto simp: accumulates_def)
    let ?r = "r\<lparr>sign := mul_sign (sign a) (sign b)\<rparr>"
    have "mval ?r = ?v" using r(3) by (simp add: mval_def)
    then have "big_ok ?r" "bval ?r = bval a * bval b" unfolding val using r sg by (auto simp: big_ok_def bval_def)
    then show ?thesis using r(1) by (simp add: big_mul_def yieldsI)
  next
    case False
    with A range show ?thesis by (simp add: yields_def accumulates_def big_mul_def)
  qed
qed

section \<open>Powers of one hundred and decimal strings\<close>

lemma shiftLeft_val:
  assumes "big_ok a" "0 \<le> bval a" "0 < pos" "pos \<le> 8"
  shows "yields (shiftLeft pos a) (bval a * 2 ^ pos)"
proof -
  obtain m q where m: "shift_loop (mag a) pos 0 = (m, q)" by (cases "shift_loop (mag a) pos 0")
  from shift_loop_val [OF assms(4) m] have v: "length m = MAG_SIZE" "le_val m + 256 ^ MAG_SIZE * unat q = mval a * 2 ^ pos"
    using assms(1) by (simp_all add: big_ok_def mval_def)
  have s: "shiftLeft pos a = (if q > 0 then Inl DATA_CONVERSION else Inr (a\<lparr>mag := m\<rparr>))"
    using assms(3) m by (simp add: shiftLeft_def)
  have b: "bval a = int (mval a)" "sign a \<noteq> Neg" using assms(2) big_ok_facts(4,5) [OF assms(1)] by simp_all
  have range: "in_range (bval a * 2 ^ pos) \<longleftrightarrow> mval a * 2 ^ pos < 256 ^ MAG_SIZE"
    using in_range_nat(1) [of "mval a * 2 ^ pos"] b by simp
  have lt: "le_val m < 256 ^ MAG_SIZE" using le_val_bound [of m] v(1) by simp
  show ?thesis
  proof (cases "q = 0")
    case True
    then have le: "le_val m = mval a * 2 ^ pos" using v by simp
    let ?r = "a\<lparr>mag := m\<rparr>"
    have "mval ?r = mval a * 2 ^ pos" using le by (simp add: mval_def)
    moreover have "bval ?r = sign_val (sign a) * int (mval ?r)" by (simp add: bval_def)
    ultimately have "big_ok ?r" "bval ?r = bval a * 2 ^ pos" using assms(1) v(1) by (auto simp: big_ok_def bval_def)
    with s True show ?thesis by (simp add: yieldsI)
  next
    case False
    then have "256 ^ MAG_SIZE * 1 \<le> 256 ^ MAG_SIZE * unat q" by (intro mult_le_mono2) (simp add: unat_gt_0 Suc_le_eq)
    then have "\<not> mval a * 2 ^ pos < 256 ^ MAG_SIZE" using v(2) by linarith
    with s False range show ?thesis by (simp add: yields_def word_gt_0)
  qed
qed

lemma in_range_mono: "in_range v \<Longrightarrow> 0 \<le> w \<Longrightarrow> w \<le> v \<Longrightarrow> in_range w"
  by (simp add: in_range_def)

lemma yieldsD: "yields r v \<Longrightarrow> in_range v \<Longrightarrow> \<exists>b. r = Inr b \<and> big_ok b \<and> bval b = v"
  "yields r v \<Longrightarrow> \<not> in_range v \<Longrightarrow> r = Inl DATA_CONVERSION"
  by (simp_all add: yields_def)

text \<open>Sequencing of exact operations on numbers that are not negative: if the final value is in range, so are
  the intermediate ones.\<close>

lemma yields_bind:
  assumes "yields r v" "\<And>b. big_ok b \<Longrightarrow> bval b = v \<Longrightarrow> yields (f b) w" "in_range w \<Longrightarrow> in_range v"
  shows "yields (rbind r f) w"
  using assms by (cases "in_range v") (auto simp: yields_def)

lemma x100_step:
  assumes "big_ok a" "0 \<le> bval a"
  shows "yields (rbind (shiftLeft 6 a) (\<lambda>t64. rbind (shiftLeft 5 a) (\<lambda>t32. rbind (shiftLeft 2 a) (\<lambda>t4.
    rbind (big_add t64 t32) (\<lambda>t. big_add t t4))))) (bval a * 100)"
proof (rule yields_bind [OF shiftLeft_val [OF assms]])
  fix t64 assume t64: "big_ok t64" "bval t64 = bval a * 2 ^ 6"
  show "yields (rbind (shiftLeft 5 a) (\<lambda>t32. rbind (shiftLeft 2 a) (\<lambda>t4. rbind (big_add t64 t32) (\<lambda>t. big_add t t4)))) (bval a * 100)"
  proof (rule yields_bind [OF shiftLeft_val [OF assms]])
    fix t32 assume t32: "big_ok t32" "bval t32 = bval a * 2 ^ 5"
    show "yields (rbind (shiftLeft 2 a) (\<lambda>t4. rbind (big_add t64 t32) (\<lambda>t. big_add t t4))) (bval a * 100)"
    proof (rule yields_bind [OF shiftLeft_val [OF assms]])
      fix t4 assume t4: "big_ok t4" "bval t4 = bval a * 2 ^ 2"
      show "yields (rbind (big_add t64 t32) (\<lambda>t. big_add t t4)) (bval a * 100)"
      proof (rule yields_bind [OF add_exact [OF t64(1) t32(1)]])
        fix t assume t: "big_ok t" "bval t = bval t64 + bval t32"
        have "yields (big_add t t4) (bval t + bval t4)" using t t4 t64 t32 assms by (intro add_exact) auto
        then show "yields (big_add t t4) (bval a * 100)" using t t4 t64 t32 by (simp add: algebra_simps)
      qed (use t64 t32 assms in \<open>auto intro: in_range_mono\<close>)
    qed (use assms in \<open>auto intro: in_range_mono\<close>)
  qed (use assms in \<open>auto intro: in_range_mono\<close>)
qed (use assms in \<open>auto intro: in_range_mono\<close>)

lemma x100_val: "big_ok a \<Longrightarrow> 0 \<le> bval a \<Longrightarrow> yields (x100 n a) (bval a * 100 ^ n)"
proof (induction n arbitrary: a)
  case (Suc n)
  have "yields (rbind (rbind (shiftLeft 6 a) (\<lambda>t64. rbind (shiftLeft 5 a) (\<lambda>t32. rbind (shiftLeft 2 a) (\<lambda>t4.
    rbind (big_add t64 t32) (\<lambda>t. big_add t t4))))) (x100 n)) (bval a * 100 ^ Suc n)"
  proof (rule yields_bind [OF x100_step [OF Suc.prems]])
    fix b assume "big_ok b" "bval b = bval a * 100"
    with Suc.IH [of b] Suc.prems show "yields (x100 n b) (bval a * 100 ^ Suc n)" by (simp add: algebra_simps)
  next
    have "bval a * 100 * 1 \<le> bval a * 100 * 100 ^ n" using Suc.prems by (intro mult_left_mono) auto
    then show "in_range (bval a * 100 ^ Suc n) \<Longrightarrow> in_range (bval a * 100)"
      using Suc.prems by (auto intro: in_range_mono simp: algebra_simps)
  qed
  then show ?case by (simp add: rbind_assoc)
qed (simp add: yieldsI)

definition digit_val :: "char \<Rightarrow> nat" where
  "digit_val c = of_char c - 48"

fun rdec :: "string \<Rightarrow> nat" where
  "rdec [] = 0"
| "rdec (c # cs) = digit_val c + 10 * rdec cs"

text \<open>The number that a decimal string denotes, most significant digit first.\<close>

definition dec_val :: "string \<Rightarrow> nat" where
  "dec_val s = rdec (rev s)"

lemma digit_val_lt: "isdigit c \<Longrightarrow> digit_val c < 10"
  by (auto simp: isdigit_def digit_val_def)

lemma parse_loop_val:
  "list_all isdigit cs \<Longrightarrow> even (length cs) \<Longrightarrow> big_ok acc \<Longrightarrow> 0 \<le> bval acc \<Longrightarrow>
   yields (parse_loop cs n acc) (bval acc + 100 ^ n * int (rdec cs))"
proof (induction cs arbitrary: n acc rule: induct_list012)
  case (3 lo hi cs)
  let ?v = "int (digit_val hi * 10 + digit_val lo)"
  have d: "digit_val lo < 10" "digit_val hi < 10" using 3(3) by (auto intro: digit_val_lt)
  then have b: "big_ok (BigInt_int ?v)" "bval (BigInt_int ?v) = ?v" by (auto intro!: BigInt_int_ok)
  have fin: "bval acc + 100 ^ n * int (rdec (lo # hi # cs)) = bval acc + ?v * 100 ^ n + 100 ^ Suc n * int (rdec cs)"
    by (simp add: algebra_simps)
  have "yields (rbind (x100 n (BigInt_int ?v)) (\<lambda>aux. rbind (big_add acc aux) (parse_loop cs (Suc n))))
     (bval acc + 100 ^ n * int (rdec (lo # hi # cs)))"
    unfolding fin
  proof (rule yields_bind [OF x100_val [OF b(1)]])
    fix aux assume aux: "big_ok aux" "bval aux = bval (BigInt_int ?v) * 100 ^ n"
    have pos: "0 \<le> bval aux" using aux b by simp
    then have na: "\<not> (0 < bval acc \<and> bval aux < 0)" by simp
    show "yields (rbind (big_add acc aux) (parse_loop cs (Suc n))) (bval acc + ?v * 100 ^ n + 100 ^ Suc n * int (rdec cs))"
    proof (rule yields_bind [OF add_exact [OF 3(5) aux(1) na]])
      fix t assume t: "big_ok t" "bval t = bval acc + bval aux"
      have "yields (parse_loop cs (Suc n) t) (bval t + 100 ^ Suc n * int (rdec cs))"
        using 3 t pos by (intro "3.IH"(1)) auto
      then show "yields (parse_loop cs (Suc n) t) (bval acc + ?v * 100 ^ n + 100 ^ Suc n * int (rdec cs))"
        using t aux b by simp
    qed (use 3 pos aux b in \<open>auto intro: in_range_mono\<close>)
  qed (use 3 b in \<open>auto intro: in_range_mono\<close>)
  with 3(3) show ?case by (simp add: digit_val_def)
qed (auto intro: yieldsI)

lemma rdec_append: "rdec (xs @ ys) = rdec xs + 10 ^ length xs * rdec ys"
  by (induction xs) (simp_all add: algebra_simps)

lemma BigInt_zero: "big_ok BigInt" "bval BigInt = 0" "mval BigInt = 0" "sign BigInt = Zero"
  by (simp_all add: BigInt_def big_ok_def bval_def mval_def MAG_SIZE_def del: replicate.simps)

lemma dash_not_digit: "list_all isdigit s \<Longrightarrow> CHR ''-'' \<notin> set s"
  by (induction s) (auto simp: isdigit_def)

lemma parse_digits:
  assumes "list_all isdigit s"
  shows "yields (parse_loop (rev (if length s mod 2 = 1 then CHR ''0'' # s else s)) 0 BigInt) (int (dec_val s))"
proof -
  let ?t = "if length s mod 2 = 1 then CHR ''0'' # s else s"
  have "list_all isdigit (rev ?t)" using assms by (auto simp: isdigit_def list_all_rev)
  moreover have "even (length (rev ?t))" by (auto simp: odd_iff_mod_2_eq_one)
  moreover have "rdec (rev ?t) = dec_val s" by (simp add: dec_val_def rdec_append digit_val_def)
  ultimately show ?thesis using parse_loop_val [of "rev ?t" BigInt 0] BigInt_zero by simp
qed

lemma BigInt_string_digits: "list_all isdigit s \<Longrightarrow> yields (BigInt_string s) (int (dec_val s))"
proof -
  assume d: "list_all isdigit s"
  then have "BigInt_string s = rbind (parse_loop (rev (if length s mod 2 = 1 then CHR ''0'' # s else s)) 0 BigInt) (\<lambda>x. Inr x)"
    using dash_not_digit by (simp add: BigInt_string_def Let_def)
  with parse_digits [OF d] show ?thesis by (auto simp: yields_def split: if_splits)
qed

lemma BigInt_string_negative:
  assumes "list_all isdigit s" "dec_val s \<noteq> 0"
  shows "yields (BigInt_string (CHR ''-'' # s)) (- int (dec_val s))"
proof -
  let ?P = "parse_loop (rev (if length s mod 2 = 1 then CHR ''0'' # s else s)) 0 BigInt"
  have e: "BigInt_string (CHR ''-'' # s) = rbind ?P (\<lambda>x. Inr (x\<lparr>sign := Neg\<rparr>))"
    by (simp add: BigInt_string_def Let_def)
  show ?thesis
  proof (cases "in_range (int (dec_val s))")
    case True
    with parse_digits [OF assms(1)] obtain b where b: "?P = Inr b" "big_ok b" "bval b = int (dec_val s)"
      by (auto simp: yields_def)
    then have "mval b = dec_val s" using big_ok_facts(5) [OF b(2)] by simp
    then have "big_ok (b\<lparr>sign := Neg\<rparr>)" "bval (b\<lparr>sign := Neg\<rparr>) = - int (dec_val s)"
      using b assms(2) by (simp_all add: big_ok_def bval_def mval_def)
    with e b show ?thesis by (simp add: yieldsI)
  next
    case False
    with parse_digits [OF assms(1)] e show ?thesis by (simp add: yields_def in_range_def)
  qed
qed

section \<open>Division\<close>

lemma shiftBytes_exact:
  assumes "big_ok a" "0 \<le> bval a" "i \<le> MAG_SIZE"
  shows "yields (shiftBytesLeft i a) (bval a * 256 ^ i)"
proof -
  have b: "bval a = int (mval a)" using assms(2) big_ok_facts(5) [OF assms(1)] by simp
  have range: "in_range (bval a * 256 ^ i) \<longleftrightarrow> mval a * 256 ^ i < 256 ^ MAG_SIZE"
    using in_range_nat(1) [of "mval a * 256 ^ i"] b by simp
  note S = shiftBytesLeft_val [OF _ assms(3), of a]
  show ?thesis
  proof (cases "mval a * 256 ^ i < 256 ^ MAG_SIZE")
    case True
    then obtain m where m: "shiftBytesLeft i a = Inr (a\<lparr>mag := m\<rparr>)" "length m = MAG_SIZE" "le_val m = mval a * 256 ^ i"
      using S assms(1) by (auto simp: big_ok_def)
    then have "big_ok (a\<lparr>mag := m\<rparr>)" "bval (a\<lparr>mag := m\<rparr>) = bval a * 256 ^ i"
      using assms(1) by (auto simp: big_ok_def bval_def mval_def)
    with m show ?thesis by (simp add: yieldsI)
  next
    case False
    with S assms(1) range show ?thesis by (simp add: yields_def big_ok_def)
  qed
qed

lemma mul_int_exact:
  assumes "big_ok a" "0 < bval a" "0 < v" "v < 256"
  shows "yields (big_mul_int a v) (bval a * v)"
proof -
  have p: "sign a = Pos" "bval a = int (mval a)" "mval a > 0" using assms(2) big_ok_facts(3,5) [OF assms(1)] by auto
  have v: "v = int (nat v)" using assms(3) by simp
  have range: "in_range (bval a * v) \<longleftrightarrow> mval a * nat v < 256 ^ MAG_SIZE"
    using in_range_nat(1) [of "mval a * nat v"] p v by (metis of_nat_mult)
  note M = mul_int_pos [OF _ p(1) assms(3,4)]
  show ?thesis
  proof (cases "mval a * nat v < 256 ^ MAG_SIZE")
    case True
    then obtain m where m: "big_mul_int a v = Inr \<lparr>mag = m, sign = Pos\<rparr>" "length m = MAG_SIZE" "le_val m = mval a * nat v"
      using M assms(1) by (auto simp: big_ok_def)
    then have "big_ok \<lparr>mag = m, sign = Pos\<rparr>" "bval \<lparr>mag = m, sign = Pos\<rparr> = bval a * v"
      using p v assms(3) by (auto simp: big_ok_def bval_def mval_def)
    with m show ?thesis by (simp add: yieldsI)
  next
    case False
    with M assms(1) range show ?thesis by (simp add: yields_def big_ok_def)
  qed
qed

lemma div_lt_256:
  assumes "0 < v" "d < 256 * (v :: int)"
  shows "d div v < 256"
proof (rule ccontr)
  assume "\<not> d div v < 256"
  then have "v * 256 \<le> v * (d div v)" using assms(1) by (intro mult_left_mono) auto
  moreover have "d = v * (d div v) + d mod v" "0 \<le> d mod v" using assms(1) by simp_all
  ultimately show False using assms(2) by linarith
qed

text \<open>The search finds the quotient of the partial dividend, which is at most 255.\<close>

lemma div_search_finds:
  assumes d: "big_ok d" and v: "big_ok v" "0 < bval v" and small: "bval d < 256 * bval v"
  shows "1 \<le> k \<Longrightarrow> k \<le> bval d div bval v \<Longrightarrow> bval d div bval v - k < int fuel \<Longrightarrow>
    \<exists>r. div_search fuel d v k = Inr (bval d div bval v, r) \<and> big_ok r \<and> bval r = bval d mod bval v"
proof (induction fuel arbitrary: k)
  case (Suc fuel)
  let ?q = "bval d div bval v"
  have dq: "bval d = bval v * ?q + bval d mod bval v" by simp
  have m: "0 \<le> bval d mod bval v" "bval d mod bval v < bval v" using v(2) by simp_all
  have q256: "?q < 256" using small v(2) by (rule div_lt_256 [rotated])
  have le: "bval v * k \<le> bval v * ?q" using Suc.prems(2) v(2) by (intro mult_left_mono) auto
  have vk: "0 \<le> bval v * k" "bval v * k \<le> bval d" using Suc.prems(1) v(2) le dq m by (simp, linarith)
  then have "in_range (bval v * k)" using big_ok_facts(6) [OF d] in_range_mono by blast
  moreover have "yields (big_mul_int v k) (bval v * k)" using v Suc.prems q256 by (intro mul_int_exact) auto
  ultimately obtain s where s: "big_mul_int v k = Inr s" "big_ok s" "bval s = bval v * k" by (auto dest: yieldsD)
  have "yields (big_sub d s) (bval d - bval s)" using d s vk by (intro sub_nonneg) auto
  moreover have "in_range (bval d - bval s)" using vk s(3) big_ok_facts(6) [OF d] by (auto intro: in_range_mono)
  ultimately obtain r where r: "big_sub d s = Inr r" "big_ok r" "bval r = bval d - bval v * k" using s by (auto dest: yieldsD)
  have lt: "big_lt r v \<longleftrightarrow> bval d - bval v * k < bval v" using big_lt_val r v(1) by simp
  show ?case
  proof (cases "k = ?q")
    case True
    then have "bval r = bval d mod bval v" using r(3) by (simp add: minus_mult_div_eq_mod)
    with True s r lt m show ?thesis by auto
  next
    case False
    then have "bval v * (k + 1) \<le> bval v * ?q" using Suc.prems(2) v(2) by (intro mult_left_mono) auto
    then have "\<not> big_lt r v" using lt dq m by (simp add: distrib_left)
    with s r Suc.IH [of "k + 1"] Suc.prems False show ?thesis by simp
  qed
qed simp

definition be_val :: "octet list \<Rightarrow> int" where
  "be_val ds = int (le_val (rev ds))"

lemma be_val_Cons: "be_val (x # xs) = int (unat x) * 256 ^ length xs + be_val xs"
  by (simp add: be_val_def le_val_append)

text \<open>One octet of the quotient, in both branches of the loop.\<close>

lemma quotient_octet:
  assumes d: "big_ok d" "0 \<le> bval d" and v: "big_ok v" "0 < bval v" and small: "bval d < 256 * bval v"
    and c: "big_ok c" "0 \<le> bval c" "in_range (bval c * 256 + bval d div bval v)"
  shows "\<exists>c' r. div_loop ds v d c = (case ds of [] \<Rightarrow> Inr (c', r)
      | x # xs \<Rightarrow> rbind (shiftBytesLeft 1 r) (\<lambda>r. rbind (big_add r (BigInt_int (int (unat x)))) (\<lambda>d. div_loop xs v d c'))) \<and>
    big_ok c' \<and> bval c' = bval c * 256 + bval d div bval v \<and> big_ok r \<and> bval r = bval d mod bval v"
proof -
  have q0: "0 \<le> bval d div bval v" using d(2) v(2) by (simp add: pos_imp_zdiv_nonneg_iff)
  then have "in_range (bval c * 256)" using c by (auto intro: in_range_mono)
  moreover have "yields (shiftBytesLeft 1 c) (bval c * 256)" using shiftBytes_exact [OF c(1,2), of 1] by (simp add: MAG_SIZE_def)
  ultimately obtain c1 where c1: "shiftBytesLeft 1 c = Inr c1" "big_ok c1" "bval c1 = bval c * 256" by (auto dest: yieldsD)
  show ?thesis
  proof (cases "big_lt d v")
    case True
    then have "bval d < bval v" using big_lt_val d v by simp
    then have "bval d div bval v = 0" "bval d mod bval v = bval d" using d(2) by simp_all
    with True c1 d show ?thesis
      by (intro exI [of _ c1] exI [of _ d]) (auto simp: div_loop.simps [of ds v d c] split: list.splits)
  next
    case False
    then have ge: "bval v \<le> bval d" using big_lt_val d v by simp
    let ?q = "bval d div bval v"
    have q: "1 \<le> ?q" "?q < 256" using ge v(2) div_lt_256 [OF v(2) small]
      by (simp_all add: pos_imp_zdiv_pos_iff int_one_le_iff_zero_less)
    then obtain r where r: "div_search 256 d v 1 = Inr (?q, r)" "big_ok r" "bval r = bval d mod bval v"
      using div_search_finds [OF d(1) v small, of 1 256] by auto
    have bq: "big_ok (BigInt_int ?q)" "bval (BigInt_int ?q) = ?q" using q by (auto intro!: BigInt_int_ok)
    have "yields (big_add c1 (BigInt_int ?q)) (bval c1 + bval (BigInt_int ?q))" using c1 bq q c by (intro add_exact) auto
    then obtain c2 where c2: "big_add c1 (BigInt_int ?q) = Inr c2" "big_ok c2" "bval c2 = bval c * 256 + ?q"
      using c(3) c1(3) bq by (auto dest: yieldsD)
    from False r c1 c2 show ?thesis
      by (intro exI [of _ c2] exI [of _ r]) (auto simp: div_loop.simps [of ds v d c] split: list.splits)
  qed
qed

lemma div_loop_val:
  assumes v: "big_ok v" "0 < bval v" "bval v \<le> 256 ^ 31"
  shows "big_ok d \<Longrightarrow> 0 \<le> bval d \<Longrightarrow> bval d < 256 * bval v \<Longrightarrow> big_ok c \<Longrightarrow> 0 \<le> bval c \<Longrightarrow>
    N = bval d * 256 ^ length ds + be_val ds \<Longrightarrow> in_range (bval c * 256 ^ Suc (length ds) + N div bval v) \<Longrightarrow>
    \<exists>q r. div_loop ds v d c = Inr (q, r) \<and> big_ok q \<and> bval q = bval c * 256 ^ Suc (length ds) + N div bval v \<and>
      big_ok r \<and> bval r = N mod bval v"
proof (induction ds arbitrary: d c N)
  case Nil
  then have N: "N = bval d" by (simp add: be_val_def)
  from quotient_octet [OF Nil.prems(1,2) v(1,2) Nil.prems(3-5), of "[]"] Nil.prems(7) N show ?case by (auto simp: mult.commute)
next
  case (Cons x xs)
  let ?q = "bval d div bval v" and ?r = "bval d mod bval v" and ?n = "length xs"
  define N' where "N' = (?r * 256 + int (unat x)) * 256 ^ ?n + be_val xs"
  have x: "0 \<le> int (unat x)" "int (unat x) < 256" using octet_lt [of x] by (simp_all del: of_nat_unat)
  have be: "0 \<le> be_val xs" by (simp add: be_val_def)
  have r: "0 \<le> ?r" "?r < bval v" using v(2) by simp_all
  have NN: "N = ?q * 256 ^ Suc ?n * bval v + N'"
  proof -
    define Q R where QR: "Q = ?q" "R = ?r"
    have d: "bval d = bval v * Q + R" by (simp add: QR)
    show ?thesis unfolding Cons.prems(6) N'_def be_val_Cons QR [symmetric] unfolding d by (simp add: algebra_simps)
  qed
  then have dv: "N div bval v = ?q * 256 ^ Suc ?n + N' div bval v" and md: "N mod bval v = N' mod bval v"
    using v(2) by simp_all
  have N'0: "0 \<le> N' div bval v" using r x be v(2) by (simp add: N'_def pos_imp_zdiv_nonneg_iff)
  have q0: "0 \<le> ?q" using Cons.prems(2) v(2) by (simp add: pos_imp_zdiv_nonneg_iff)
  have fin: "bval c * 256 ^ Suc (length (x # xs)) + N div bval v = (bval c * 256 + ?q) * 256 ^ Suc ?n + N' div bval v"
    by (simp add: dv algebra_simps)
  have "bval c * 256 + ?q \<le> (bval c * 256 + ?q) * 256 ^ Suc ?n"
    using mult_left_mono [OF one_le_power [of "256 :: int" "Suc ?n"], of "bval c * 256 + ?q"] Cons.prems(5) q0
    by (simp del: power_Suc)
  then have "in_range (bval c * 256 + ?q)"
    using Cons.prems(5,7) q0 N'0 unfolding fin by (auto elim!: in_range_mono)
  from quotient_octet [OF Cons.prems(1,2) v(1,2) Cons.prems(3-5) this, of "x # xs"]
  obtain c' t where Q: "div_loop (x # xs) v d c = rbind (shiftBytesLeft 1 t) (\<lambda>r. rbind (big_add r (BigInt_int (int (unat x)))) (\<lambda>d. div_loop xs v d c'))"
    "big_ok c'" "bval c' = bval c * 256 + ?q" "big_ok t" "bval t = ?r" by auto
  have rng: "?r * 256 + int (unat x) < 256 * bval v" using r x by linarith
  then have "?r * 256 + int (unat x) < 256 ^ MAG_SIZE" using v(3) by (simp add: MAG_SIZE_def)
  then have ir: "in_range (?r * 256 + int (unat x))" using r x by (simp add: in_range_def del: of_nat_unat)
  then have "in_range (?r * 256)" using r x by (auto elim!: in_range_mono)
  moreover have "yields (shiftBytesLeft 1 t) (?r * 256)" using shiftBytes_exact [OF Q(4), of 1] Q(5) r by (simp add: MAG_SIZE_def)
  ultimately obtain t1 where t1: "shiftBytesLeft 1 t = Inr t1" "big_ok t1" "bval t1 = ?r * 256" by (auto dest: yieldsD)
  have bx: "big_ok (BigInt_int (int (unat x)))" "bval (BigInt_int (int (unat x))) = int (unat x)"
    using x by (auto intro!: BigInt_int_ok simp del: of_nat_unat)
  have "\<not> (0 < bval t1 \<and> bval (BigInt_int (int (unat x))) < 0)" using bx(2) x by simp
  from add_exact [OF t1(2) bx(1) this] ir obtain d' where
    d': "big_add t1 (BigInt_int (int (unat x))) = Inr d'" "big_ok d'" "bval d' = ?r * 256 + int (unat x)"
    using t1(3) bx(2) by (auto dest: yieldsD)
  have "\<exists>q r. div_loop xs v d' c' = Inr (q, r) \<and> big_ok q \<and> bval q = bval c' * 256 ^ Suc ?n + N' div bval v \<and>
      big_ok r \<and> bval r = N' mod bval v"
  proof (rule Cons.IH)
    show "in_range (bval c' * 256 ^ Suc ?n + N' div bval v)" using Cons.prems(7) Q(3) unfolding fin by simp
  qed (use d' Q rng r x Cons.prems(5) q0 in \<open>auto simp: N'_def simp del: of_nat_unat\<close>)
  then obtain q r where qr: "div_loop xs v d' c' = Inr (q, r)" "big_ok q" "bval q = bval c' * 256 ^ Suc ?n + N' div bval v"
    "big_ok r" "bval r = N' mod bval v" by blast
  have "div_loop (x # xs) v d c = Inr (q, r)" unfolding Q(1) t1(1) rbind.simps d'(1) by (rule qr(1))
  with qr Q(3) show ?case unfolding fin md by auto
qed

end
