(* ===== verification/Big_Int_Decimal.thy ===== *)
theory Big_Int_Decimal
  imports Big_Int_Muldiv
begin

text \<open>
  The conversion of a \<^verbatim>\<open>BigInt\<close> to a decimal string by the table of the digits of the powers of 256, and
  that it is the inverse of the constructor from a string. The table is checked column by column
  against the powers.
\<close>

section \<open>The table\<close>

fun col_val :: "nat list list \<Rightarrow> nat \<Rightarrow> nat" where
  "col_val [] i = 0"
| "col_val (r # rs) i = r ! i + 10 * col_val rs i"

definition row_ok :: "nat list \<Rightarrow> bool" where
  "row_ok r \<longleftrightarrow> list_all (\<lambda>x. x = 0) (take (r ! 0 - 1) (drop 1 r)) \<and> length r = 35 \<and> 0 < r ! 0"

lemma table_columns:
  "list_all (\<lambda>i. col_val decimal_converter i = 256 ^ (i - 1))
     [1, 2, 3, 4, 5, 6, 7, 8, 9, 10, 11, 12, 13, 14, 15, 16,
      17, 18, 19, 20, 21, 22, 23, 24, 25, 26, 27, 28, 29, 30, 31, 32]"
  by (simp add: decimal_converter_def)

lemma table_rows: "list_all row_ok decimal_converter"
  by (simp add: decimal_converter_def row_ok_def)

lemma table_sorted: "sorted (map (\<lambda>r. r ! 0) decimal_converter)"
  by (simp add: decimal_converter_def)

lemma table_end: "last decimal_converter ! 0 = 34"
  by (simp add: decimal_converter_def)

lemma column: "1 \<le> i \<Longrightarrow> i \<le> 32 \<Longrightarrow> col_val decimal_converter i = 256 ^ (i - 1)"
proof -
  assume "1 \<le> i" "i \<le> 32"
  then have "i \<in> set [1..<33]" by simp
  also have "[1..<33] = [1, 2, 3, 4, 5, 6, 7, 8, 9, 10, 11, 12, 13, 14, 15, 16,
      17, 18, 19, 20, 21, 22, 23, 24, 25, 26, 27, 28, 29, 30, 31, 32]" by (simp add: upt_rec)
  finally show ?thesis using table_columns unfolding list_all_iff by blast
qed

lemma row_zero: "row_ok r \<Longrightarrow> 1 \<le> i \<Longrightarrow> i < r ! 0 \<Longrightarrow> i \<le> 32 \<Longrightarrow> r ! i = 0"
proof -
  assume r: "row_ok r" "1 \<le> i" "i < r ! 0" "i \<le> 32"
  then have "\<forall>n < length (take (r ! 0 - 1) (drop 1 r)). take (r ! 0 - 1) (drop 1 r) ! n = 0" "length r = 35"
    unfolding row_ok_def list_all_length by blast+
  moreover have "i - 1 < length (take (r ! 0 - 1) (drop 1 r))" using r \<open>length r = 35\<close> by auto
  ultimately have "take (r ! 0 - 1) (drop 1 r) ! (i - 1) = 0" by blast
  with r \<open>length r = 35\<close> show ?thesis by (simp add: nth_drop)
qed

lemma row_ok_pos: "row_ok r \<Longrightarrow> Suc 0 \<le> r ! 0"
  by (simp add: row_ok_def)

section \<open>Sums over the rows\<close>

text \<open>The contribution of a row when all its columns are taken.\<close>

definition full_sum :: "octet list \<Rightarrow> nat list \<Rightarrow> nat \<Rightarrow> nat" where
  "full_sum m row n = (\<Sum>i = 1..n. unat (m ! (i - 1)) * row ! i)"

lemma row_sum_full:
  assumes "row_ok row" "row ! 0 \<le> n" "n \<le> 32"
  shows "row_sum m row n = full_sum m row n"
proof -
  have "row_sum m row n = (\<Sum>i = row ! 0..n. unat (m ! (i - 1)) * row ! i)"
    unfolding row_sum_def by (simp add: sum_list_distinct_conv_sum_set atLeastLessThanSuc_atLeastAtMost del: upt_Suc)
  also have "\<dots> = (\<Sum>i = 1..n. unat (m ! (i - 1)) * row ! i)"
    using assms by (intro sum.mono_neutral_left) (auto simp: row_zero [OF assms(1)] dest: row_ok_pos)
  finally show ?thesis by (simp add: full_sum_def)
qed

lemma row_sum_none:
  assumes "row_ok row" "\<not> row ! 0 \<le> n" "n \<le> 32"
  shows "full_sum m row n = 0"
  using assms by (auto simp: full_sum_def row_zero [OF assms(1)])

fun rows_val :: "octet list \<Rightarrow> nat \<Rightarrow> nat list list \<Rightarrow> nat" where
  "rows_val m n [] = 0"
| "rows_val m n (row # rows) = full_sum m row n + 10 * rows_val m n rows"

lemma rows_val_columns: "rows_val m n rows = (\<Sum>i = 1..n. unat (m ! (i - 1)) * col_val rows i)"
  by (induction rows) (simp_all add: full_sum_def sum_distrib_left algebra_simps sum.distrib)

lemma le_val_sum: "n \<le> length m \<Longrightarrow> le_val (take n m) = (\<Sum>i = 1..n. unat (m ! (i - 1)) * 256 ^ (i - 1))"
proof (induction n)
  case (Suc n)
  then have "le_val (take (Suc n) m) = le_val (take n m) + 256 ^ n * unat (m ! n)"
    by (simp add: take_Suc_conv_app_nth le_val_append)
  with Suc show ?case by (simp add: mult.commute)
qed simp

lemma representative_props:
  "representative m k \<le> k" "(\<And>i. representative m k \<le> i \<Longrightarrow> i < k \<Longrightarrow> m ! i = 0)"
  by (induction k) (auto simp: less_Suc_eq le_Suc_eq split: if_splits)

lemma representative_val:
  assumes "length m = MAG_SIZE"
  shows "le_val m = rows_val m (representative m MAG_SIZE) decimal_converter"
proof -
  let ?n = "representative m MAG_SIZE"
  have n: "?n \<le> MAG_SIZE" by (rule representative_props)
  have "list_all (\<lambda>x. x = 0) (drop ?n m)"
    using representative_props(2) [of m MAG_SIZE] assms by (auto simp: list_all_length)
  then have "le_val (drop ?n m) = 0" by (simp add: le_val_zero)
  then have "le_val m = le_val (take ?n m)" using le_val_append [of "take ?n m" "drop ?n m"] by simp
  also have "\<dots> = (\<Sum>i = 1..?n. unat (m ! (i - 1)) * 256 ^ (i - 1))" using n assms by (intro le_val_sum) simp
  also have "\<dots> = (\<Sum>i = 1..?n. unat (m ! (i - 1)) * col_val decimal_converter i)"
    using n by (intro sum.cong) (auto simp: column MAG_SIZE_def)
  finally show ?thesis by (simp add: rows_val_columns)
qed

section \<open>The digits\<close>

fun dsum :: "nat list \<Rightarrow> nat" where
  "dsum [] = 0"
| "dsum (d # ds) = d + 10 * dsum ds"

lemma dsum_append: "dsum (xs @ ys) = dsum xs + 10 ^ length xs * dsum ys"
  by (induction xs) (simp_all add: algebra_simps)

lemma dsum_zero: "list_all (\<lambda>d. d = 0) ds \<Longrightarrow> dsum ds = 0"
  by (induction ds) auto

lemma rows_val_none: "list_all row_ok rows \<Longrightarrow> \<forall>r \<in> set rows. \<not> r ! 0 \<le> n \<Longrightarrow> n \<le> 32 \<Longrightarrow> rows_val m n rows = 0"
  by (induction rows) (auto simp: row_sum_none)

lemma digit_rows_val:
  "list_all row_ok rows \<Longrightarrow> sorted (map (\<lambda>r. r ! 0) rows) \<Longrightarrow> rows \<noteq> [] \<Longrightarrow> last rows ! 0 > n \<Longrightarrow> n \<le> 32 \<Longrightarrow>
   \<exists>ds c z. digit_rows m n rows ireg zeros = Inr (ds, c, z) \<and> list_all (\<lambda>d. d < 10) ds \<and>
     dsum ds + 10 ^ length ds * c = ireg + rows_val m n rows"
proof (induction rows arbitrary: ireg zeros)
  case (Cons row rows)
  show ?case
  proof (cases "row ! 0 \<le> n")
    case True
    then have ne: "rows \<noteq> []" using Cons.prems by auto
    define v where "v = ireg + row_sum m row n"
    have v: "v = ireg + full_sum m row n" using row_sum_full Cons.prems True by (simp add: v_def)
    obtain ds c z where R: "digit_rows m n rows (v div 10) (if v = 0 then Suc zeros else 0) = Inr (ds, c, z)"
      "list_all (\<lambda>d. d < 10) ds" "dsum ds + 10 ^ length ds * c = v div 10 + rows_val m n rows"
      using Cons.IH [of "v div 10" "if v = 0 then Suc zeros else 0"] Cons.prems ne by auto
    have "digit_rows m n (row # rows) ireg zeros = Inr (v mod 10 # ds, c, z)"
      using True R(1) by (simp add: Let_def v_def [symmetric])
    moreover have "dsum (v mod 10 # ds) + 10 ^ length (v mod 10 # ds) * c = v mod 10 + 10 * (dsum ds + 10 ^ length ds * c)"
      by (simp add: algebra_simps)
    ultimately show ?thesis using R v by auto
  next
    case False
    then have "\<forall>r \<in> set (row # rows). \<not> r ! 0 \<le> n" using Cons.prems(2) by auto
    then have "rows_val m n (row # rows) = 0" using Cons.prems by (intro rows_val_none) auto
    with False show ?thesis by auto
  qed
qed simp

text \<open>The count of the rows without a contribution tells how many leading zeros to drop.\<close>

definition trailing :: "nat list \<Rightarrow> nat \<Rightarrow> nat \<Rightarrow> bool" where
  "trailing ds c z \<longleftrightarrow> z < length ds \<and> list_all (\<lambda>d. d = 0) (drop (length ds - z) ds) \<and> (0 < z \<longrightarrow> c = 0) \<and>
     (c = 0 \<longrightarrow> ds ! (length ds - z - 1) \<noteq> 0)"

lemma trailing_Cons: "trailing ds c z \<Longrightarrow> trailing (d # ds) c z"
proof -
  assume t: "trailing ds c z"
  then have "Suc (length ds) - z = Suc (length ds - z)" "0 < length ds - z"
    unfolding trailing_def by auto
  with t show ?thesis unfolding trailing_def by (auto simp: nth_Cons' )
qed

lemma digit_rows_zeros:
  "digit_rows m n rows ireg zeros = Inr (ds, c, z) \<Longrightarrow>
   (z = zeros + length ds \<and> list_all (\<lambda>d. d = 0) ds \<and> c = ireg \<and> (ds \<noteq> [] \<longrightarrow> ireg = 0)) \<or> trailing ds c z"
proof (induction rows arbitrary: ireg zeros ds)
  case (Cons row rows)
  show ?case
  proof (cases "row ! 0 \<le> n")
    case True
    define v where "v = ireg + row_sum m row n"
    obtain es where R: "digit_rows m n rows (v div 10) (if v = 0 then Suc zeros else 0) = Inr (es, c, z)" "ds = v mod 10 # es"
      using Cons.prems True by (auto simp: Let_def v_def [symmetric] split: prod.splits)
    from Cons.IH [OF R(1)] show ?thesis
    proof
      assume "trailing es c z"
      then show ?thesis using R(2) trailing_Cons by simp
    next
      assume a: "z = (if v = 0 then Suc zeros else 0) + length es \<and> list_all (\<lambda>d. d = 0) es \<and> c = v div 10 \<and> (es \<noteq> [] \<longrightarrow> v div 10 = 0)"
      show ?thesis
      proof (cases "v = 0")
        case True
        with a R(2) show ?thesis by (auto simp: v_def)
      next
        case False
        then have "c = 0 \<Longrightarrow> v mod 10 \<noteq> 0" using a by (metis add_cancel_right_left div_mult_mod_eq mult_is_0)
        with a False R(2) have "trailing ds c z" by (auto simp: trailing_def)
        then show ?thesis ..
      qed
    qed
  next
    case False
    with Cons.prems show ?thesis by simp
  qed
qed simp

lemma carry_digits_0 [simp]: "carry_digits 0 = []"
  by (simp add: carry_digits.simps)

lemma carry_digits_val: "dsum (carry_digits c) = c" "list_all (\<lambda>d. d < 10) (carry_digits c)"
  "c \<noteq> 0 \<Longrightarrow> carry_digits c \<noteq> [] \<and> last (carry_digits c) \<noteq> 0"
proof (induction c rule: carry_digits.induct)
  case (1 c)
  {
    case 1
    then show ?case using "1.IH"(1) by (cases "c = 0") (simp_all add: carry_digits.simps [of c])
  next
    case 2
    then show ?case using "1.IH"(2) by (cases "c = 0") (simp_all add: carry_digits.simps [of c])
  next
    case 3
    then show ?case using "1.IH"(3) by (cases "c div 10 = 0") (auto simp: carry_digits.simps [of c] carry_digits.simps [of "c div 10"])
  }
qed

section \<open>The text\<close>

definition digits_text :: "nat list \<Rightarrow> string" where
  "digits_text ds = map (\<lambda>d. char_of (d + 48)) (rev ds)"

lemma digits_text_isdigit: "list_all (\<lambda>d. d < 10) ds \<Longrightarrow> list_all isdigit (digits_text ds)"
  by (auto simp: digits_text_def list_all_iff isdigit_def)

lemma digits_text_val: "list_all (\<lambda>d. d < 10) ds \<Longrightarrow> dec_val (digits_text ds) = dsum ds"
  unfolding digits_text_def dec_val_def rev_map [symmetric] rev_rev_ident
  by (induction ds) (auto simp: digit_val_def)

lemma drop_zero_digits:
  assumes "list_all (\<lambda>d. d = 0) (drop k ds)"
  shows "dsum (take k ds) = dsum ds"
  using dsum_append [of "take k ds" "drop k ds"] dsum_zero [OF assms] by simp

lemma representative_0: "length m = MAG_SIZE \<Longrightarrow> representative m MAG_SIZE = 0 \<longleftrightarrow> le_val m = 0"
proof -
  assume l: "length m = MAG_SIZE"
  have "representative m k = 0 \<longleftrightarrow> (\<forall>i < k. m ! i = 0)" for k
    by (induction k) (auto simp: less_Suc_eq)
  with l show ?thesis by (simp add: le_val_zero list_all_length)
qed

text \<open>The digits that the loops produce, least significant first, with no zero at the end.\<close>

lemma toString_digits:
  assumes "length (mag a) = MAG_SIZE" "mval a \<noteq> 0"
  shows "\<exists>ds. big_toString a = Inr ((if sign a = Neg then ''-'' else []) @ digits_text ds) \<and>
    list_all (\<lambda>d. d < 10) ds \<and> dsum ds = mval a \<and> ds \<noteq> [] \<and> last ds \<noteq> 0"
proof -
  let ?n = "representative (mag a) MAG_SIZE"
  have n: "?n \<noteq> 0" "?n \<le> 32" using representative_0 [OF assms(1)] assms(2) representative_props(1) [of "mag a" MAG_SIZE]
    by (simp_all add: mval_def MAG_SIZE_def)
  have "decimal_converter \<noteq> []" by (simp add: decimal_converter_def)
  then obtain ds c z where R: "digit_rows (mag a) ?n decimal_converter 0 0 = Inr (ds, c, z)" "list_all (\<lambda>d. d < 10) ds"
      "dsum ds + 10 ^ length ds * c = 0 + rows_val (mag a) ?n decimal_converter"
    using digit_rows_val [of decimal_converter ?n "mag a" 0 0] table_rows table_sorted table_end n by auto
  then have v: "dsum ds + 10 ^ length ds * c = mval a" using representative_val [OF assms(1)] by (simp add: mval_def)
  have t: "trailing ds c z"
  proof (rule ccontr)
    assume "\<not> trailing ds c z"
    then have "list_all (\<lambda>d. d = 0) ds" "c = 0" using digit_rows_zeros [OF R(1)] by auto
    with v assms(2) show False by (simp add: dsum_zero)
  qed
  let ?es = "if c = 0 then take (length ds - z) ds else ds @ carry_digits c"
  have e: "big_toString a = Inr ((if sign a = Neg then ''-'' else []) @ digits_text ?es)"
    using n(1) R(1) by (simp add: big_toString_def Let_def digits_text_def)
  have "list_all (\<lambda>d. d < 10) ?es" using R(2) carry_digits_val(2) by (auto simp: list_all_iff dest: in_set_takeD)
  moreover have "dsum ?es = mval a"
    using v t drop_zero_digits [of "length ds - z" ds] by (auto simp: trailing_def dsum_append carry_digits_val(1))
  moreover have "?es \<noteq> [] \<and> last ?es \<noteq> 0"
  proof (cases "c = 0")
    case True
    with t have "last ?es = ds ! (length ds - z - 1)" by (subst last_conv_nth) (auto simp: trailing_def)
    with True t show ?thesis by (auto simp: trailing_def)
  next
    case False
    with carry_digits_val(3) [of c] show ?thesis by simp
  qed
  ultimately show ?thesis using e by blast
qed

lemma toString_zero: "length (mag a) = MAG_SIZE \<Longrightarrow> mval a = 0 \<Longrightarrow> big_toString a = Inr ''0''"
  using representative_0 by (simp add: big_toString_def Let_def mval_def)

text \<open>Every number has one well-formed object.\<close>

lemma big_ok_unique: "big_ok a \<Longrightarrow> big_ok b \<Longrightarrow> bval a = bval b \<Longrightarrow> a = b"
proof -
  assume ok: "big_ok a" "big_ok b" and v: "bval a = bval b"
  then have "mval a = mval b" using big_ok_facts(5) by metis
  with ok have "mag a = mag b" by (auto simp: big_ok_def mval_def intro: le_val_inj)
  moreover have "sign a = sign b" using big_ok_facts(3,4) [OF ok(1)] big_ok_facts(3,4) [OF ok(2)] v
    by (cases "sign a"; cases "sign b") auto
  ultimately show ?thesis by simp
qed

lemma yields_ok: "big_ok a \<Longrightarrow> yields r (bval a) \<Longrightarrow> r = Inr a"
  using big_ok_facts(6) [of a] by (auto simp: yields_def dest: big_ok_unique)

end
