(* ===== verification/Big_Int_Correct.thy ===== *)
theory Big_Int_Correct
  imports Big_Int_Decimal
begin

text \<open>
  What the operations of \<^verbatim>\<open>BigInt\<close> (types/BigInt.C) compute, over the integer \<open>bval a\<close> that an object denotes:
  the arithmetic that is exact or raises \<^verbatim>\<open>DATA_CONVERSION\<close>, the combinations of signs where it is not, and the
  conversions from and to decimal text.
\<close>

section \<open>Helper facts\<close>

lemma sub_two_negative:
  assumes "big_ok a" "big_ok b" "bval b < bval a" "bval a < 0"
  shows "big_sub a b = Inr \<lparr>mag = sub_loop (mag a) (mag b) 0, sign = Pos\<rparr>"
proof -
  have s: "sign a = Neg" "sign b = Neg" "\<not> big_lt a b"
    using assms big_ok_facts(4) [OF assms(1)] big_ok_facts(4) [OF assms(2)] big_lt_val [OF assms(1,2)] by auto
  have lt: "le_val (mag a) < le_val (mag b)"
    using assms big_ok_facts(5) [OF assms(1)] big_ok_facts(5) [OF assms(2)] by (simp add: mval_def)
  have l: "length (mag a) = length (mag b)" "length (mag b) = MAG_SIZE" using assms by (simp_all add: big_ok_def)
  have "le_val (mag b) < 256 ^ length (mag b)" by (rule le_val_bound)
  then have "le_val (sub_loop (mag a) (mag b) 0) \<noteq> 0" using sub_loop_wraps [OF l(1) lt] l by simp
  then show ?thesis using s by (simp add: big_sub.simps [of a b] le_val_zero [symmetric] Let_def)
qed

lemma div_le_dividend_int: "0 \<le> (x::int) \<Longrightarrow> 0 < y \<Longrightarrow> x div y \<le> x"
  by (metis div_by_1 int_one_le_iff_zero_less zdiv_mono2 zero_less_one)

lemma div_same_sign:
  assumes "big_ok a" "big_ok b" "\<bar>bval b\<bar> \<le> \<bar>bval a\<bar>" "bval b \<noteq> 0" "\<bar>bval b\<bar> \<le> 256 ^ 31"
  shows "\<exists>q r. div_loop (tl (rev (mag a))) (if sign b = Neg then b\<lparr>sign := Pos\<rparr> else b)
      (BigInt_int (int (unat (hd (rev (mag a)))))) BigInt = Inr (q, r) \<and>
    big_ok q \<and> bval q = \<bar>bval a\<bar> div \<bar>bval b\<bar> \<and> big_ok r \<and> bval r = \<bar>bval a\<bar> mod \<bar>bval b\<bar>"
proof -
  let ?v = "if sign b = Neg then b\<lparr>sign := Pos\<rparr> else b" and ?ds = "rev (mag a)"
  have b: "bval ?v = \<bar>bval b\<bar>" "big_ok ?v"
    using assms(2,4) big_ok_facts(2-4) [OF assms(2)] by (auto simp: big_ok_def bval_def mval_def)
  have ne: "?ds \<noteq> []" "length ?ds = MAG_SIZE" using big_ok_facts(1) [OF assms(1)] by (auto simp: MAG_SIZE_def)
  let ?x = "hd ?ds"
  have xb: "unat ?x < 256" using unat_bound(1) [of ?x] by simp
  have x: "big_ok (BigInt_int (int (unat ?x)))" "bval (BigInt_int (int (unat ?x))) = int (unat ?x)"
    by (rule BigInt_int_ok; use xb in linarith)+
  have "\<bar>bval a\<bar> = be_val ?ds" using big_ok_facts(5) [OF assms(1)] by (simp add: be_val_def mval_def)
  also have "\<dots> = int (unat ?x) * 256 ^ length (tl ?ds) + be_val (tl ?ds)"
    using ne be_val_Cons [of ?x "tl ?ds"] by simp
  finally have N: "\<bar>bval a\<bar> = bval (BigInt_int (int (unat ?x))) * 256 ^ length (tl ?ds) + be_val (tl ?ds)" using x by simp
  have "\<bar>bval a\<bar> div \<bar>bval b\<bar> \<le> \<bar>bval a\<bar>" using assms(4) div_le_dividend_int by simp
  moreover have "0 \<le> \<bar>bval a\<bar> div \<bar>bval b\<bar>" using assms(4) by (simp add: pos_imp_zdiv_nonneg_iff)
  ultimately have r: "in_range (bval BigInt * 256 ^ Suc (length (tl ?ds)) + \<bar>bval a\<bar> div bval ?v)"
    using big_ok_facts(6) [OF assms(1)] b BigInt_zero by (simp add: in_range_def)
  have small: "bval (BigInt_int (int (unat ?x))) < 256 * bval ?v"
  proof -
    have "int (unat ?x) < 256" using xb by linarith
    also have "256 \<le> 256 * \<bar>bval b\<bar>" using assms(4) by linarith
    finally show ?thesis unfolding x(2) b(1) .
  qed
  show ?thesis
    using div_loop_val [OF b(2) _ _ x(1) _ small BigInt_zero(1) _ N r] assms b x BigInt_zero by simp
qed

lemma abs_val: "big_ok a \<Longrightarrow> big_ok (big_abs a)" "big_ok a \<Longrightarrow> bval (big_abs a) = \<bar>bval a\<bar>"
  by (cases "sign a"; simp add: big_abs_def big_ok_def bval_def mval_def)+

lemma neg_val: "big_ok a \<Longrightarrow> big_ok (big_neg a)" "bval (big_neg a) = - bval a"
  by (cases "sign a"; simp add: big_neg_def big_ok_def bval_def mval_def)+

lemma quot_rem_signs: "(x::int) = sgn x * sgn y * (\<bar>x\<bar> div \<bar>y\<bar>) * y + sgn x * (\<bar>x\<bar> mod \<bar>y\<bar>)"
proof -
  have "sgn x * sgn y * (\<bar>x\<bar> div \<bar>y\<bar>) * y + sgn x * (\<bar>x\<bar> mod \<bar>y\<bar>) = sgn x * (\<bar>x\<bar> div \<bar>y\<bar> * \<bar>y\<bar> + \<bar>x\<bar> mod \<bar>y\<bar>)"
    by (simp add: abs_sgn [of y] algebra_simps del: div_mult_mod_eq)
  then show ?thesis by (simp add: sgn_mult_abs)
qed

lemma div_val:
  assumes "big_ok a" "big_ok b" "bval b \<noteq> 0" "\<bar>bval b\<bar> \<le> 256 ^ 31"
  shows "\<exists>q r. big_div q0 a b r0 = Inr (q, r) \<and> big_ok q \<and> big_ok r \<and>
    bval q = sgn (bval a) * sgn (bval b) * (\<bar>bval a\<bar> div \<bar>bval b\<bar>) \<and> bval r = sgn (bval a) * (\<bar>bval a\<bar> mod \<bar>bval b\<bar>)"
proof -
  have sb: "sign b \<noteq> Zero" using assms(3) by (auto simp: bval_def)
  have z: "big_ok (BigInt_int 0)" "bval (BigInt_int 0) = 0" using BigInt_int_ok [of 0] by simp_all
  have lt: "big_lt (big_abs a) (big_abs b) \<longleftrightarrow> \<bar>bval a\<bar> < \<bar>bval b\<bar>" using assms abs_val big_lt_val by simp
  consider "sign a = Zero" | "sign a \<noteq> Zero" "\<bar>bval a\<bar> < \<bar>bval b\<bar>" | "sign a \<noteq> Zero" "\<bar>bval b\<bar> \<le> \<bar>bval a\<bar>" by linarith
  then show ?thesis
  proof cases
    case 1
    then have "bval a = 0" by (simp add: bval_def)
    with 1 sb z show ?thesis by (simp add: big_div_def)
  next
    case 2
    then show ?thesis using sb lt z assms(1) by (simp add: big_div_def sgn_mult_abs)
  next
    case 3
    obtain q r where d: "div_loop (tl (rev (mag a))) (if sign b = Neg then b\<lparr>sign := Pos\<rparr> else b)
        (BigInt_int (int (unat (hd (rev (mag a)))))) BigInt = Inr (q, r)"
      and ok: "big_ok q" "big_ok r" and v: "bval q = \<bar>bval a\<bar> div \<bar>bval b\<bar>" "bval r = \<bar>bval a\<bar> mod \<bar>bval b\<bar>"
      using div_same_sign [OF assms(1,2) 3(2) assms(3,4)] by blast
    have sg: "sign a = Pos \<longleftrightarrow> bval a > 0" "sign a = Neg \<longleftrightarrow> bval a < 0" "sign b = Pos \<longleftrightarrow> bval b > 0" "sign b = Neg \<longleftrightarrow> bval b < 0"
      using big_ok_facts(3,4) [OF assms(1)] big_ok_facts(3,4) [OF assms(2)] by simp_all
    have nl: "\<not> big_lt (big_abs a) (big_abs b)" using lt 3 by simp
    have D: "big_div q0 a b r0 = Inr (if sign a = sign b then q else big_neg q, if sign a = Neg then big_neg r else r)"
      using sb 3(1) nl d by (cases "sign a"; cases "sign b") (simp_all add: big_div_def Let_def)
    show ?thesis unfolding D using ok sg sb 3(1) v
      by (cases "sign a"; cases "sign b") (auto simp: neg_val)
  qed
qed

text \<open>The sample operands of the witnesses.\<close>

definition five :: bigint where
  "five = BigInt_int 5"

definition minus_seven :: bigint where
  "minus_seven = BigInt_int (- 7)"

lemma sample_val:
  "big_ok five" "bval five = 5" "big_ok minus_seven" "bval minus_seven = - 7"
  using BigInt_int_ok [of 5] BigInt_int_ok [of "- 7"] by (simp_all add: five_def minus_seven_def)

section \<open>Properties\<close>

text \<open>\<^verbatim>\<open>operator+\<close> returns the exact sum when it fits in 32 octets and raises \<^verbatim>\<open>DATA_CONVERSION\<close> when it does not,
  for every pair of operands except a positive first and a negative second one.\<close>

theorem bigint_add_exact:
  assumes "big_ok a" "big_ok b" "\<not> (0 < bval a \<and> bval b < 0)"
  shows "if in_range (bval a + bval b) then \<exists>s. big_add a b = Inr s \<and> big_ok s \<and> bval s = bval a + bval b
    else big_add a b = Inl DATA_CONVERSION"
  using add_exact [OF assms] by (simp add: yields_def)

theorem bigint_add_exact_witness: "\<exists>s. big_add minus_seven five = Inr s \<and> big_ok s \<and> bval s = - 2"
  using bigint_add_exact [of minus_seven five] sample_val by (simp add: in_range_def MAG_SIZE_def)

text \<open>The remaining combination of \<^verbatim>\<open>operator+\<close>: a positive number plus a negative one returns the first operand
  and ignores the second, where the difference was computed and dropped (or raises when that is out of range).\<close>

theorem bigint_add_mixed:
  assumes "big_ok a" "big_ok b" "0 < bval a" "bval b < 0"
  shows "big_add a b = (if in_range (bval a - bval b) then Inr a else Inl DATA_CONVERSION)"
proof -
  have s: "sign a = Pos" "sign b = Neg" using assms big_ok_facts(3,4) by blast+
  have "yields (big_sub a b) (bval a - bval b)" using assms by (intro sub_exact) auto
  then show ?thesis using s by (auto simp: big_add.simps [of a b] yields_def)
qed

theorem bigint_add_mixed_witness: "big_add five minus_seven = Inr five"
  using bigint_add_mixed [of five minus_seven] sample_val by (simp add: in_range_def MAG_SIZE_def)

text \<open>Binary \<^verbatim>\<open>operator-\<close> returns the exact difference or raises \<^verbatim>\<open>DATA_CONVERSION\<close>, unless both operands are
  negative.\<close>

theorem bigint_sub_exact:
  assumes "big_ok a" "big_ok b" "\<not> (bval a < 0 \<and> bval b < 0)"
  shows "if in_range (bval a - bval b) then \<exists>s. big_sub a b = Inr s \<and> big_ok s \<and> bval s = bval a - bval b
    else big_sub a b = Inl DATA_CONVERSION"
  using sub_exact [OF assms] by (simp add: yields_def)

theorem bigint_sub_exact_witness: "\<exists>s. big_sub minus_seven five = Inr s \<and> big_ok s \<and> bval s = - 12"
  using bigint_sub_exact [of minus_seven five] sample_val by (simp add: in_range_def MAG_SIZE_def)

text \<open>The difference of two negative numbers, the larger one first, is the difference of the magnitudes modulo
  \<open>256 ^ 32\<close>: the loop borrows past the last octet and the result is far from the exact value.\<close>

theorem bigint_sub_negative_wraps:
  assumes "big_ok a" "big_ok b" "bval b < bval a" "bval a < 0"
  shows "\<exists>s. big_sub a b = Inr s \<and> bval s = 256 ^ MAG_SIZE - (bval a - bval b)"
proof -
  have l: "length (mag a) = length (mag b)" "length (mag a) = MAG_SIZE" using assms by (simp_all add: big_ok_def)
  have v: "int (mval a) = - bval a" "int (mval b) = - bval b" using assms big_ok_facts(5) by auto
  have lt: "le_val (mag a) < le_val (mag b)" using v assms(3) by (simp add: mval_def)
  have "le_val (mag b) < 256 ^ MAG_SIZE" using le_val_bound [of "mag b"] l by simp
  then have "int (le_val (sub_loop (mag a) (mag b) 0)) = 256 ^ MAG_SIZE + int (mval a) - int (mval b)"
    using sub_loop_wraps(1) [OF l(1) lt] l by (simp add: mval_def of_nat_diff)
  with v show ?thesis using sub_two_negative [OF assms] by (simp add: bval_def mval_def)
qed

theorem bigint_sub_negative_wraps_witness:
  "\<exists>s. big_sub (BigInt_int (- 1)) minus_seven = Inr s \<and> bval s = 256 ^ MAG_SIZE - 6"
  using bigint_sub_negative_wraps [of "BigInt_int (- 1)" minus_seven] sample_val BigInt_int_ok [of "- 1"] by simp

text \<open>\<^verbatim>\<open>operator*\<close> returns the exact product with the rule of signs, or raises \<^verbatim>\<open>DATA_CONVERSION\<close>: it never
  wraps.\<close>

theorem bigint_mul_exact:
  assumes "big_ok a" "big_ok b"
  shows "if in_range (bval a * bval b) then \<exists>s. big_mul a b = Inr s \<and> big_ok s \<and> bval s = bval a * bval b
    else big_mul a b = Inl DATA_CONVERSION"
  using mul_exact [OF assms] by (simp add: yields_def)

theorem bigint_mul_exact_witness: "\<exists>s. big_mul five minus_seven = Inr s \<and> big_ok s \<and> bval s = - 35"
  using bigint_mul_exact [of five minus_seven] sample_val by (simp add: in_range_def MAG_SIZE_def)

text \<open>C38. \<^verbatim>\<open>div\<close> returns, for a divisor that is not zero and whose magnitude is at most \<open>256 ^ 31\<close>, the quotient rounded
  towards zero and the remainder that has the sign of the dividend; the search for each octet of the quotient ends
  within its 256 trials.\<close>

theorem bigint_div_exact:
  assumes "big_ok a" "big_ok b" "bval b \<noteq> 0" "\<bar>bval b\<bar> \<le> 256 ^ 31"
  shows "\<exists>q r. big_div q0 a b r0 = Inr (q, r) \<and> big_ok q \<and> big_ok r \<and> bval a = bval q * bval b + bval r \<and>
    \<bar>bval r\<bar> < \<bar>bval b\<bar> \<and> (bval r = 0 \<or> sgn (bval r) = sgn (bval a))"
proof -
  obtain q r where d: "big_div q0 a b r0 = Inr (q, r)" "big_ok q" "big_ok r"
      and v: "bval q = sgn (bval a) * sgn (bval b) * (\<bar>bval a\<bar> div \<bar>bval b\<bar>)" "bval r = sgn (bval a) * (\<bar>bval a\<bar> mod \<bar>bval b\<bar>)"
    using div_val [OF assms] by blast
  have "bval a = bval q * bval b + bval r" unfolding v using quot_rem_signs by blast
  moreover have "\<bar>bval r\<bar> < \<bar>bval b\<bar>" using v assms(3) by (auto simp: sgn_if abs_mult)
  moreover have "bval r = 0 \<or> sgn (bval r) = sgn (bval a)" 
  proof -
    have "0 \<le> \<bar>bval a\<bar> mod \<bar>bval b\<bar>" using assms(3) by simp
    then show ?thesis unfolding v(2) by (auto simp: sgn_mult sgn_pos)
  qed
  ultimately show ?thesis using d by blast
qed

theorem bigint_div_exact_witness:
  "\<exists>q r. big_div five minus_seven (BigInt_int 2) five = Inr (q, r) \<and> big_ok q \<and> big_ok r \<and> - 7 = bval q * 2 + bval r \<and>
    \<bar>bval r\<bar> < 2 \<and> (bval r = 0 \<or> sgn (bval r) = - 1)"
  using bigint_div_exact [of minus_seven "BigInt_int 2" five five] sample_val BigInt_int_ok [of 2] by simp

text \<open>\<^verbatim>\<open>operator<\<close> and \<^verbatim>\<open>operator==\<close> decide the order of the numbers; \<^verbatim>\<open>operator<=\<close> does not: it is false for two equal
  numbers that are not zero and true for zero and any negative number.\<close>

theorem bigint_order:
  assumes "big_ok a" "big_ok b"
  shows "(big_lt a b \<longleftrightarrow> bval a < bval b) \<and> (big_eq a b \<longleftrightarrow> bval a = bval b) \<and>
    (big_le a b \<longleftrightarrow> (bval a \<le> bval b \<and> \<not> (bval a = bval b \<and> bval a \<noteq> 0)) \<or> (bval a = 0 \<and> bval b < 0))"
  using big_lt_val [OF assms] big_eq_val [OF assms] big_le_val [OF assms] by auto

theorem bigint_order_witness: "big_lt minus_seven five \<and> \<not> big_le five five \<and> big_le (BigInt_int 0) minus_seven"
  using bigint_order [of minus_seven five] bigint_order [of five five] bigint_order [of "BigInt_int 0" minus_seven]
    sample_val BigInt_int_ok [of 0] by simp

text \<open>C37. \<^verbatim>\<open>toString\<close> prints the decimal digits of the number with no leading zero and the constructor from a string
  reads them back: the round trip returns the same object for every number of 32 octets and either sign.\<close>

theorem bigint_decimal_roundtrip:
  assumes "big_ok a"
  shows "\<exists>s. big_toString a = Inr s \<and> BigInt_string s = Inr a"
proof (cases "mval a = 0")
  case True
  then have z: "big_toString a = Inr ''0''" "bval a = 0" using assms by (simp_all add: toString_zero big_ok_def bval_def)
  have "yields (BigInt_string ''0'') (int (dec_val ''0''))" by (rule BigInt_string_digits) (simp add: isdigit_def)
  then have "BigInt_string ''0'' = Inr a" using z assms by (intro yields_ok) (simp_all add: dec_val_def digit_val_def)
  with z show ?thesis by blast
next
  case False
  then obtain ds where d: "big_toString a = Inr ((if sign a = Neg then ''-'' else []) @ digits_text ds)"
      "list_all (\<lambda>d. d < 10) ds" "dsum ds = mval a"
    using toString_digits assms by (auto simp: big_ok_def)
  note t = digits_text_isdigit [OF d(2)] digits_text_val [OF d(2)]
  have "yields (BigInt_string ((if sign a = Neg then ''-'' else []) @ digits_text ds)) (bval a)"
  proof (cases "sign a = Neg")
    case True
    then show ?thesis using BigInt_string_negative [OF t(1)] t(2) d(3) False by (simp add: bval_def)
  next
    case False
    then have "bval a = int (mval a)" using assms by (cases "sign a") (simp_all add: bval_def big_ok_def)
    then show ?thesis using BigInt_string_digits [OF t(1)] t(2) d(3) False by simp
  qed
  with d assms show ?thesis by (auto intro: yields_ok)
qed

theorem bigint_decimal_roundtrip_witness: "\<exists>s. big_toString minus_seven = Inr s \<and> BigInt_string s = Inr minus_seven"
  using bigint_decimal_roundtrip [of minus_seven] sample_val by simp

text \<open>The constructor from a string of decimal digits returns the number they denote, or raises
  \<^verbatim>\<open>DATA_CONVERSION\<close> when 32 octets cannot hold it.\<close>

theorem bigint_parse:
  assumes "list_all isdigit s"
  shows "if in_range (int (dec_val s)) then \<exists>b. BigInt_string s = Inr b \<and> big_ok b \<and> bval b = int (dec_val s)
    else BigInt_string s = Inl DATA_CONVERSION"
  using BigInt_string_digits [OF assms] by (simp add: yields_def)

theorem bigint_parse_witness: "\<exists>b. BigInt_string ''120'' = Inr b \<and> big_ok b \<and> bval b = 120"
  using bigint_parse [of "''120''"] by (simp add: isdigit_def dec_val_def digit_val_def in_range_def MAG_SIZE_def)

end
