(* ===== verification/Fixed_Correct.thy ===== *)
theory Fixed_Correct
  imports Complex_Main Fixed_Point Big_Int_Correct
begin

text \<open>
  What the operations of \<^verbatim>\<open>CORBA::Fixed\<close> compute. The lemmas about powers of ten and about \<^verbatim>\<open>rescale\<close> carry the
  results about the four operations, the comparisons and \<^verbatim>\<open>adjust\<close>; they rest on the exactness lemmas of
  \<^verbatim>\<open>BigInt\<close>.
\<close>

section \<open>16-bit conversions and powers of ten\<close>

lemma to_short_id [simp]: "- 32768 \<le> x \<Longrightarrow> x < 32768 \<Longrightarrow> to_short x = x"
  by (simp add: to_short_def sint_sbintrunc' signed_take_bit_int_eq_self_iff)

lemma to_ushort_id [simp]: "0 \<le> x \<Longrightarrow> x < 65536 \<Longrightarrow> to_ushort x = x"
  by (simp add: to_ushort_def unsigned_of_int take_bit_int_eq_self_iff)

lemma small_val [simp]:
  "big_ok (BigInt_int 0)" "bval (BigInt_int 0) = 0" "big_ok (BigInt_int 1)" "bval (BigInt_int 1) = 1"
  "big_ok (BigInt_int 5)" "bval (BigInt_int 5) = 5" "big_ok (BigInt_int 10)" "bval (BigInt_int 10) = 10"
  "big_ok (BigInt_int (- 1))" "bval (BigInt_int (- 1)) = - 1"
  using BigInt_int_ok [of 0] BigInt_int_ok [of 1] BigInt_int_ok [of 5] BigInt_int_ok [of 10] BigInt_int_ok [of "- 1"]
  by simp_all

lemma power10_val:
  assumes "0 \<le> x"
  shows "yields (power10 x) (10 ^ nat x)"
proof -
  have x: "x sdiv 2 = x div 2" "x smod 2 = x mod 2"
    using assms by (cases "x = 0"; simp add: signed_divide_int_def signed_modulo_int_def)+
  let ?h = "nat (x div 2)"
  have H: "yields (if x div 2 \<noteq> 0 then x100 ?h (BigInt_int 1) else Inr (BigInt_int 1)) (100 ^ ?h)"
    using x100_val [of "BigInt_int 1" ?h] by (auto intro: yieldsI)
  have e: "(10::int) ^ nat x = 100 ^ ?h * 10 ^ nat (x mod 2)"
  proof -
    have "nat x = nat (2 * (x div 2) + x mod 2)" by simp
    also have "\<dots> = 2 * ?h + nat (x mod 2)" using assms by (subst nat_add_distrib) (simp_all add: nat_mult_distrib)
    finally have "nat x = 2 * ?h + nat (x mod 2)" .
    then show ?thesis by (simp add: power_add power_mult)
  qed
  show ?thesis unfolding power10_def Let_def x big_mul_assign_def
  proof (rule yields_bind [OF H])
    fix b assume b: "big_ok b" "bval b = 100 ^ ?h"
    show "yields (if x mod 2 \<noteq> 0 then big_mul b (BigInt_int 10) else Inr b) (10 ^ nat x)"
    proof (cases "x mod 2 = 0")
      case True
      then show ?thesis using b e by (auto intro: yieldsI)
    next
      case False
      then have "x mod 2 = 1" by presburger
      then show ?thesis using mul_exact [OF b(1), of "BigInt_int 10"] b e by simp
    qed
  qed (use e in \<open>auto intro: in_range_mono\<close>)
qed

lemma power10_ok:
  assumes "0 \<le> x" "x \<le> 74"
  shows "\<exists>p. power10 x = Inr p \<and> big_ok p \<and> bval p = 10 ^ nat x \<and> 10 ^ nat x \<le> (256 ^ 31 :: int)"
proof -
  have "(10::int) ^ nat x \<le> 10 ^ 74" using assms by (intro power_increasing) auto
  also have "\<dots> \<le> 256 ^ 31" by simp
  finally have le: "(10::int) ^ nat x \<le> 256 ^ 31" .
  then have "in_range (10 ^ nat x)" by (simp add: in_range_def MAG_SIZE_def)
  with power10_val [OF assms(1)] le show ?thesis by (auto dest: yieldsD)
qed

section \<open>Rounding\<close>

text \<open>The integer nearest to \<open>n / d\<close>, the one away from zero when two are equally near, and the one towards
  zero.\<close>

definition round_away :: "int \<Rightarrow> int \<Rightarrow> int" where
  "round_away n d = sgn n * ((\<bar>n\<bar> + d div 2) div d)"

definition trunc_quot :: "int \<Rightarrow> int \<Rightarrow> int" where
  "trunc_quot n d = sgn n * (\<bar>n\<bar> div d)"

lemma nearest_half: "a + h = p + r \<Longrightarrow> 0 \<le> r \<Longrightarrow> r < d \<Longrightarrow> 2 * h = d \<Longrightarrow> 2 * \<bar>p - a\<bar> \<le> (d :: int)"
  unfolding abs_le_iff by (auto simp: abs_if)

lemma round_away_nearest:
  assumes "0 < d" "even d"
  shows "2 * \<bar>round_away n d * d - n\<bar> \<le> d"
proof -
  let ?m = "\<bar>n\<bar> + d div 2"
  have "2 * \<bar>?m div d * d - \<bar>n\<bar>\<bar> \<le> d"
    by (rule nearest_half [of _ "d div 2" _ "?m mod d"]) (use assms in auto)
  moreover have "round_away n d * d - n = sgn n * (?m div d * d - \<bar>n\<bar>)"
    unfolding round_away_def right_diff_distrib sgn_mult_abs mult.assoc ..
  moreover have "\<bar>sgn n * x\<bar> \<le> \<bar>x\<bar>" for x by (simp add: abs_mult abs_sgn_eq)
  ultimately show ?thesis by (metis (no_types) mult_le_cancel_left_pos order_trans zero_less_numeral)
qed

lemma round_away_exact: "0 < d \<Longrightarrow> round_away (q * d) d = q"
proof -
  assume d: "0 < d"
  have "(\<bar>q\<bar> * d + d div 2) div d = \<bar>q\<bar>" using d by simp
  with d show ?thesis by (simp add: round_away_def abs_mult sgn_mult sgn_mult_abs)
qed

lemma round_away_0 [simp]: "round_away 0 d = 0"
  by (simp add: round_away_def)

lemma round_away_1 [simp]: "round_away n 1 = n"
  by (simp add: round_away_def sgn_mult_abs)

section \<open>Changes of scale\<close>

lemma rescale_same: "rescale n n v r = Inr v"
  by (simp add: rescale_def)

lemma rescale_up:
  assumes "big_ok v" "n < m" "m - n \<le> 74"
  shows "yields (rescale m n v r) (bval v * 10 ^ nat (m - n))"
proof -
  obtain p where p: "power10 (m - n) = Inr p" "big_ok p" "bval p = 10 ^ nat (m - n)"
    using power10_ok [of "m - n"] assms by auto
  then show ?thesis using mul_exact [OF assms(1) p(2)] assms by (simp add: rescale_def)
qed

lemma transform_val:
  assumes "big_ok (fixed_value f)" "fixed_scale f \<le> m" "m - fixed_scale f \<le> 74"
  shows "yields (transform f m) (bval (fixed_value f) * 10 ^ nat (m - fixed_scale f))"
proof (cases "fixed_scale f = m")
  case True
  then show ?thesis using assms by (auto simp: transform_def intro: yieldsI)
next
  case False
  then obtain p where p: "power10 (m - fixed_scale f) = Inr p" "big_ok p" "bval p = 10 ^ nat (m - fixed_scale f)"
    using power10_ok [of "m - fixed_scale f"] assms by auto
  then show ?thesis using mul_exact [OF assms(1) p(2)] assms False by (simp add: transform_def)
qed

text \<open>Fewer decimals: the division by the power of ten of \<open>v\<close> plus a correction of the same sign.\<close>

lemma rescale_down_sum:
  assumes "big_ok v" "big_ok s" "\<bar>bval s\<bar> = \<bar>bval v\<bar> + c" "0 \<le> c" "bval v \<noteq> 0 \<Longrightarrow> sgn (bval s) = sgn (bval v)"
    "0 < k" "k \<le> 74" "c < 10 ^ nat k"
  shows "\<exists>q. rbind (power10 k) (\<lambda>p. rbind (big_div (BigInt_int 0) s p (BigInt_int 0)) (\<lambda>(coc, _). Inr coc)) = Inr q \<and>
    big_ok q \<and> bval q = sgn (bval v) * ((\<bar>bval v\<bar> + c) div 10 ^ nat k)"
proof -
  obtain p where p: "power10 k = Inr p" "big_ok p" "bval p = 10 ^ nat k" "10 ^ nat k \<le> (256 ^ 31 :: int)"
    using power10_ok [of k] assms by auto
  then obtain q r where q: "big_div (BigInt_int 0) s p (BigInt_int 0) = Inr (q, r)" "big_ok q"
      "bval q = sgn (bval s) * sgn (bval p) * (\<bar>bval s\<bar> div \<bar>bval p\<bar>)"
    using div_val [OF assms(2) p(2), of "BigInt_int 0" "BigInt_int 0"] by auto
  have "bval q = sgn (bval v) * ((\<bar>bval v\<bar> + c) div 10 ^ nat k)"
  proof (cases "bval v = 0")
    case True
    then have "\<bar>bval s\<bar> div 10 ^ nat k = 0" using assms(3,4,8) by (simp add: div_pos_pos_trivial)
    with True q(3) p(3) show ?thesis by simp
  next
    case False
    with q(3) p(3) assms(3,5) show ?thesis by simp
  qed
  with p q show ?thesis by auto
qed

lemma rescale_down_round:
  assumes "big_ok v" "m < n" "n - m \<le> 74" "in_range (\<bar>bval v\<bar> + 5 * 10 ^ nat (n - m - 1))"
  shows "\<exists>q. rescale m n v True = Inr q \<and> big_ok q \<and> bval q = round_away (bval v) (10 ^ nat (n - m))"
proof -
  define k c where "k = n - m" and "c = (5 * 10 ^ nat (k - 1) :: int)"
  have k: "0 < k" "k \<le> 74" and fs: "to_short (m - n) = - k" using assms by (simp_all add: k_def)
  have c: "0 \<le> c" and R: "in_range (\<bar>bval v\<bar> + c)" using assms(4) by (simp_all add: c_def k_def)
  have half: "(10::int) ^ nat k = 2 * c"
    unfolding c_def using k(1) by (simp flip: power_Suc add: nat_diff_distrib Suc_diff_le del: power_Suc)
  obtain p1 where p1: "power10 (k - 1) = Inr p1" "big_ok p1" "bval p1 = 10 ^ nat (k - 1)"
    using power10_ok [of "k - 1"] k by auto
  have "in_range c" using R c by (auto simp: in_range_def)
  then obtain c1 where c1: "big_mul (BigInt_int 5) p1 = Inr c1" "big_ok c1" "bval c1 = c"
    using mul_exact [OF _ p1(2), of "BigInt_int 5"] p1(3) by (auto simp: c_def dest: yieldsD)
  obtain c2 where c2: "(if sign v = Neg then big_mul_assign c1 (BigInt_int (- 1)) else Inr c1) = Inr c2" "big_ok c2"
      "bval c2 = (if bval v < 0 then - c else c)"
  proof (cases "sign v = Neg")
    case True
    have "in_range (- c)" using \<open>in_range c\<close> by (simp add: in_range_def)
    then obtain d where "big_mul c1 (BigInt_int (- 1)) = Inr d" "big_ok d" "bval d = - c"
      using mul_exact [OF c1(2), of "BigInt_int (- 1)"] c1 by (auto dest: yieldsD)
    with True show ?thesis using that big_ok_facts(4) [OF assms(1)] by (simp add: big_mul_assign_def)
  next
    case False
    with c1 show ?thesis using that big_ok_facts(4) [OF assms(1)] by simp
  qed
  have sum: "in_range (bval v + bval c2)" using R c c2(3) by (auto simp: in_range_def)
  then obtain s where s: "big_add v c2 = Inr s" "big_ok s" "bval s = bval v + bval c2"
    using add_exact [OF assms(1) c2(2)] c2(3) c by (auto dest: yieldsD)
  have sg: "\<bar>bval s\<bar> = \<bar>bval v\<bar> + c" "bval v \<noteq> 0 \<Longrightarrow> sgn (bval s) = sgn (bval v)"
    using s(3) c2(3) c by (auto simp: sgn_if)
  have "c < 10 ^ nat k" using half by (simp add: c_def)
  from rescale_down_sum [OF assms(1) s(2) sg(1) c sg(2) k this]
  obtain q where q: "rbind (power10 k) (\<lambda>p. rbind (big_div (BigInt_int 0) s p (BigInt_int 0)) (\<lambda>(coc, _). Inr coc)) = Inr q"
      "big_ok q" "bval q = sgn (bval v) * ((\<bar>bval v\<bar> + c) div 10 ^ nat k)" by blast
  have "rescale m n v True = Inr q"
    using k p1(1) c1(1) c2(1) s(1) q(1) by (simp add: rescale_def fs Let_def)
  moreover have "(10 ^ nat k) div 2 = c" using half by simp
  ultimately show ?thesis using q by (auto simp: round_away_def k_def [symmetric])
qed

lemma rescale_down_trunc:
  assumes "big_ok v" "m < n" "n - m \<le> 74"
  shows "\<exists>q. rescale m n v False = Inr q \<and> big_ok q \<and> bval q = trunc_quot (bval v) (10 ^ nat (n - m))"
proof -
  have z: "big_mul_assign (BigInt_int 0) (BigInt_int (- 1)) = Inr (BigInt_int 0)"
    using mul_exact [of "BigInt_int 0" "BigInt_int (- 1)"] yields_ok [of "BigInt_int 0"] by (simp add: big_mul_assign_def)
  have s: "big_add v (BigInt_int 0) = Inr v"
    using add_exact [OF assms(1), of "BigInt_int 0"] yields_ok [OF assms(1)] by simp
  from rescale_down_sum [OF assms(1,1), of 0 "n - m"] assms obtain q where
    q: "rbind (power10 (n - m)) (\<lambda>p. rbind (big_div (BigInt_int 0) v p (BigInt_int 0)) (\<lambda>(coc, _). Inr coc)) = Inr q"
      "big_ok q" "bval q = sgn (bval v) * (\<bar>bval v\<bar> div 10 ^ nat (n - m))" by auto
  then have "rescale m n v False = Inr q" using assms z s by (simp add: rescale_def Let_def)
  with q show ?thesis by (simp add: trunc_quot_def)
qed

section \<open>Digits\<close>

lemma dsum_bounds:
  "list_all (\<lambda>d. d < 10) ds \<Longrightarrow> dsum ds < 10 ^ length ds"
  "ds \<noteq> [] \<Longrightarrow> last ds \<noteq> 0 \<Longrightarrow> 10 ^ (length ds - 1) \<le> dsum ds"
proof (induction ds)
  case (Cons d ds)
  {
    case 1
    then show ?case using Cons.IH(1) by simp
  next
    case 2
    show ?case
    proof (cases "ds = []")
      case False
      then have "10 ^ length ds = 10 * (10 ^ (length ds - 1) :: nat)" by (cases ds) auto
      with False 2 Cons.IH(2) show ?thesis by auto
    qed (use 2 in auto)
  }
qed auto

text \<open>The number of decimal digits of a number, one for zero.\<close>

definition ndigits :: "int \<Rightarrow> int" where
  "ndigits v = (if v = 0 then 1 else int (length (carry_digits (nat \<bar>v\<bar>))))"

lemma length_unique:
  "(10::nat) ^ (j - 1) \<le> x \<Longrightarrow> x < 10 ^ j \<Longrightarrow> 10 ^ (k - 1) \<le> x \<Longrightarrow> x < 10 ^ k \<Longrightarrow> 0 < j \<Longrightarrow> 0 < k \<Longrightarrow> j = k"
proof (rule ccontr)
  assume a: "(10::nat) ^ (j - 1) \<le> x" "x < 10 ^ j" "10 ^ (k - 1) \<le> x" "x < 10 ^ k" "0 < j" "0 < k" "j \<noteq> k"
  then consider "j \<le> k - 1" | "k \<le> j - 1" by linarith
  then show False
  proof cases
    case 1
    then have "(10::nat) ^ j \<le> 10 ^ (k - 1)" by (rule power_increasing) simp
    with a show False by linarith
  next
    case 2
    then have "(10::nat) ^ k \<le> 10 ^ (j - 1)" by (rule power_increasing) simp
    with a show False by linarith
  qed
qed

lemma ndigits_bounds:
  assumes "v \<noteq> 0"
  shows "10 ^ nat (ndigits v - 1) \<le> \<bar>v\<bar>" "\<bar>v\<bar> < 10 ^ nat (ndigits v)" "0 < ndigits v"
proof -
  let ?ds = "carry_digits (nat \<bar>v\<bar>)"
  have ne: "?ds \<noteq> []" "last ?ds \<noteq> 0" using carry_digits_val(3) [of "nat \<bar>v\<bar>"] assms by auto
  have "10 ^ (length ?ds - 1) \<le> nat \<bar>v\<bar>" "nat \<bar>v\<bar> < 10 ^ length ?ds"
    using dsum_bounds(2) [OF ne] dsum_bounds(1) [OF carry_digits_val(2)] by (simp_all add: carry_digits_val(1))
  then have "(10::int) ^ (length ?ds - 1) \<le> \<bar>v\<bar>" "\<bar>v\<bar> < 10 ^ length ?ds"
    by (simp_all add: le_nat_iff nat_less_iff)
  moreover have "nat (ndigits v) = length ?ds" "nat (ndigits v - 1) = length ?ds - 1" "0 < ndigits v"
    using assms ne by (auto simp: ndigits_def nat_diff_distrib)
  ultimately show "10 ^ nat (ndigits v - 1) \<le> \<bar>v\<bar>" "\<bar>v\<bar> < 10 ^ nat (ndigits v)" "0 < ndigits v" by auto
qed

lemma ndigits_le: "\<bar>v\<bar> < 10 ^ n \<Longrightarrow> 0 < n \<Longrightarrow> ndigits v \<le> int n"
proof (cases "v = 0")
  case False
  assume a: "\<bar>v\<bar> < 10 ^ n"
  show ?thesis
  proof (rule ccontr)
    assume "\<not> ?thesis"
    then have "n \<le> nat (ndigits v - 1)" by linarith
    then have "(10::int) ^ n \<le> 10 ^ nat (ndigits v - 1)" by (rule power_increasing) simp
    with a ndigits_bounds(1) [OF False] show False by linarith
  qed
qed (simp add: ndigits_def)

lemma toString_length:
  assumes "big_ok v"
  shows "\<exists>s. big_toString v = Inr s \<and> int (length s) = ndigits (bval v) + (if sign v = Neg then 1 else 0)"
proof (cases "mval v = 0")
  case True
  then show ?thesis using assms by (auto simp: toString_zero big_ok_def bval_def ndigits_def)
next
  case False
  then obtain ds where d: "big_toString v = Inr ((if sign v = Neg then ''-'' else []) @ digits_text ds)"
      "list_all (\<lambda>d. d < 10) ds" "dsum ds = mval v" "ds \<noteq> []" "last ds \<noteq> 0"
    using toString_digits assms by (auto simp: big_ok_def)
  let ?es = "carry_digits (mval v)"
  have ne: "?es \<noteq> []" "last ?es \<noteq> 0" using carry_digits_val(3) False by auto
  have "length ds = length ?es"
    using length_unique [of "length ds" "mval v" "length ?es"] dsum_bounds(1) [OF d(2)] dsum_bounds(2) [OF d(4,5)]
      dsum_bounds(1) [OF carry_digits_val(2)] dsum_bounds(2) [OF ne] d(3,4) ne by (simp add: carry_digits_val(1))
  moreover have "bval v \<noteq> 0" "nat \<bar>bval v\<bar> = mval v" using False big_ok_facts(5) [OF assms] by auto
  ultimately show ?thesis using d(1) by (simp add: ndigits_def digits_text_def)
qed

lemma ndigits_range: "in_range v \<Longrightarrow> 0 < ndigits v \<and> ndigits v \<le> 78"
proof -
  assume "in_range v"
  then have "\<bar>v\<bar> < 10 ^ 78" by (simp add: in_range_def MAG_SIZE_def)
  then have "ndigits v \<le> int 78" by (rule ndigits_le) simp
  then show ?thesis using ndigits_bounds(3) [of v] by (cases "v = 0") (auto simp: ndigits_def)
qed

lemma digits_of_val: "big_ok v \<Longrightarrow> digits_of v = Inr (ndigits (bval v))"
  using toString_length [of v] ndigits_range [OF big_ok_facts(6) [of v]] by (auto simp: digits_of_def)

end
