(* ===== verification/Fixed_Arith.thy ===== *)
theory Fixed_Arith
  imports Fixed_Correct
begin

text \<open>
  The arithmetic of \<^verbatim>\<open>CORBA::Fixed\<close> over the rational number an object denotes: each operation returns the nearest
  number of the scale of its result, the comparisons decide the order of the numbers, \<^verbatim>\<open>adjust\<close> keeps the number.
\<close>

section \<open>The number an object denotes\<close>

definition fval :: "fixed \<Rightarrow> real" where
  "fval f = real_of_int (bval (fixed_value f)) / 10 powi fixed_scale f"

text \<open>Objects as the IDL type \<^verbatim>\<open>fixed<d,s>\<close> has them: at most 31 digits and a scale of at most 31.\<close>

definition fixed_ok :: "fixed \<Rightarrow> bool" where
  "fixed_ok f \<longleftrightarrow> big_ok (fixed_value f) \<and> \<bar>bval (fixed_value f)\<bar> < 10 ^ 31 \<and>
     0 \<le> fixed_digits f \<and> fixed_digits f \<le> 31 \<and> 0 \<le> fixed_scale f \<and> fixed_scale f \<le> 31"

definition at_scale :: "fixed \<Rightarrow> int \<Rightarrow> int" where
  "at_scale f m = bval (fixed_value f) * 10 ^ nat (m - fixed_scale f)"

lemma fval_at_scale: "fixed_scale f \<le> m \<Longrightarrow> fval f = real_of_int (at_scale f m) / 10 powi m"
proof -
  assume "fixed_scale f \<le> m"
  then have "(10::real) powi m = 10 powi fixed_scale f * 10 ^ nat (m - fixed_scale f)"
    by (metis add.commute diff_add_cancel int_nat_eq power_int_add power_int_of_nat diff_ge_0_iff_ge zero_neq_numeral)
  then show ?thesis by (simp add: fval_def at_scale_def)
qed

lemma fval_sign: "fval f < 0 \<longleftrightarrow> bval (fixed_value f) < 0" "0 < fval f \<longleftrightarrow> 0 < bval (fixed_value f)"
proof -
  have "\<not> (10::real) powi fixed_scale f < 0" by (simp add: not_less)
  then show "fval f < 0 \<longleftrightarrow> bval (fixed_value f) < 0" "0 < fval f \<longleftrightarrow> 0 < bval (fixed_value f)"
    by (simp_all add: fval_def divide_less_0_iff zero_less_divide_iff)
qed

lemma at_scale_sign: "at_scale f m < 0 \<longleftrightarrow> bval (fixed_value f) < 0" "0 < at_scale f m \<longleftrightarrow> 0 < bval (fixed_value f)"
  by (simp_all add: at_scale_def zero_less_mult_iff mult_less_0_iff)

lemma at_scale_bound: "fixed_ok f \<Longrightarrow> m \<le> 31 \<Longrightarrow> \<bar>at_scale f m\<bar> < 10 ^ 62"
proof -
  assume f: "fixed_ok f" "m \<le> 31"
  have "\<bar>bval (fixed_value f)\<bar> * 10 ^ nat (m - fixed_scale f) < 10 ^ 31 * 10 ^ nat (m - fixed_scale f)"
    using f by (simp add: fixed_ok_def)
  also have "\<dots> \<le> 10 ^ 31 * (10 :: int) ^ 31"
    using f by (intro mult_left_mono power_increasing) (auto simp: fixed_ok_def)
  finally show ?thesis by (simp add: at_scale_def abs_mult)
qed

lemma transform_ok:
  assumes "fixed_ok f" "fixed_scale f \<le> m" "m \<le> 31"
  shows "\<exists>v. transform f m = Inr v \<and> big_ok v \<and> bval v = at_scale f m"
proof -
  have "in_range (at_scale f m)" using at_scale_bound [OF assms(1,3)] by (simp add: in_range_def MAG_SIZE_def)
  then show ?thesis using transform_val [of f m] assms by (auto simp: fixed_ok_def at_scale_def dest: yieldsD)
qed

lemma common_scale_ok:
  assumes "fixed_ok a" "fixed_ok b" "m = max (fixed_scale a) (fixed_scale b)"
  shows "\<exists>x y. common_scale a b = Inr (m, x, y) \<and> big_ok x \<and> bval x = at_scale a m \<and> big_ok y \<and> bval y = at_scale b m"
proof -
  have m: "m \<le> 31" "fixed_scale a \<le> m" "fixed_scale b \<le> m" using assms by (auto simp: fixed_ok_def)
  have id: "at_scale f (fixed_scale f) = bval (fixed_value f)" for f by (simp add: at_scale_def)
  consider "fixed_scale a = fixed_scale b" | "fixed_scale a > fixed_scale b" | "fixed_scale a < fixed_scale b" by linarith
  then show ?thesis
  proof cases
    case 1
    then show ?thesis using assms id [of a] id [of b] by (simp add: common_scale_def fixed_ok_def)
  next
    case 2
    then show ?thesis using assms id [of a] transform_ok [OF assms(2) m(3,1)] by (auto simp: common_scale_def fixed_ok_def)
  next
    case 3
    then show ?thesis using assms id [of b] transform_ok [OF assms(1) m(2,1)] by (auto simp: common_scale_def fixed_ok_def)
  qed
qed

text \<open>The last step of the operations: \<open>v\<close> at scale \<open>n\<close> is rounded to the scale of the result.\<close>

lemma store_result_ok:
  assumes "big_ok v" "fixed_scale r \<le> n" "n - fixed_scale r \<le> 74" "\<bar>bval v\<bar> \<le> 10 ^ 76"
  shows "\<exists>r'. store_result r n v = Inr r' \<and> big_ok (fixed_value r') \<and> fixed_scale r' = fixed_scale r \<and>
    bval (fixed_value r') = round_away (bval v) (10 ^ nat (n - fixed_scale r)) \<and>
    fixed_digits r' = ndigits (bval (fixed_value r'))"
proof -
  obtain q where q: "rescale (fixed_scale r) n v True = Inr q" "big_ok q"
      "bval q = round_away (bval v) (10 ^ nat (n - fixed_scale r))"
  proof (cases "fixed_scale r = n")
    case True
    then show ?thesis using that [of v] rescale_same assms by simp
  next
    case False
    have "5 * (10::int) ^ nat (n - fixed_scale r - 1) \<le> 5 * 10 ^ 73" using assms by (intro mult_left_mono power_increasing) auto
    then have "in_range (\<bar>bval v\<bar> + 5 * 10 ^ nat (n - fixed_scale r - 1))" using assms(4) by (simp add: in_range_def MAG_SIZE_def)
    then show ?thesis using rescale_down_round [of v "fixed_scale r" n] assms False that by auto
  qed
  then show ?thesis using digits_of_val [OF q(2)] by (auto simp: store_result_def)
qed

text \<open>The error of a rounded result, and that there is none when nothing is cut.\<close>

lemma fval_round:
  assumes "bval (fixed_value r) = round_away N (10 ^ nat (n - fixed_scale r))" "fixed_scale r \<le> n"
  shows "\<bar>fval r - real_of_int N / 10 powi n\<bar> \<le> 10 powi (- fixed_scale r) / 2"
proof -
  let ?k = "nat (n - fixed_scale r)"
  have pw: "(10::real) powi n = 10 powi fixed_scale r * 10 ^ ?k"
    using assms(2) by (metis add.commute diff_add_cancel int_nat_eq power_int_add power_int_of_nat diff_ge_0_iff_ge zero_neq_numeral)
  have "2 * \<bar>bval (fixed_value r) * 10 ^ ?k - N\<bar> \<le> 10 ^ ?k"
  proof (cases "?k = 0")
    case True
    then show ?thesis using assms(1) by simp
  next
    case False
    then show ?thesis unfolding assms(1) by (intro round_away_nearest) auto
  qed
  then have "real_of_int (2 * \<bar>bval (fixed_value r) * 10 ^ ?k - N\<bar>) \<le> real_of_int (10 ^ ?k)"
    by (simp only: of_int_le_iff)
  then have e: "2 * \<bar>real_of_int (bval (fixed_value r)) * 10 ^ ?k - real_of_int N\<bar> \<le> 10 ^ ?k" by simp
  have pos: "(0::real) < 10 powi fixed_scale r * 10 ^ ?k" by (simp add: zero_less_power_int)
  have "fval r - real_of_int N / 10 powi n = (real_of_int (bval (fixed_value r)) * 10 ^ ?k - real_of_int N) / (10 powi fixed_scale r * 10 ^ ?k)"
    unfolding pw fval_def by (simp add: diff_divide_distrib)
  then have "\<bar>fval r - real_of_int N / 10 powi n\<bar> = \<bar>real_of_int (bval (fixed_value r)) * 10 ^ ?k - real_of_int N\<bar> / (10 powi fixed_scale r * 10 ^ ?k)"
    using pos by (simp add: abs_divide)
  also have "\<dots> \<le> (10 ^ ?k / 2) / (10 powi fixed_scale r * 10 ^ ?k)" using e pos by (intro divide_right_mono) auto
  also have "\<dots> = 10 powi (- fixed_scale r) / 2" by (simp add: power_int_minus divide_simps)
  finally show ?thesis .
qed

lemma fval_exact:
  assumes "bval (fixed_value r) = N" "fixed_scale r = n"
  shows "fval r = real_of_int N / 10 powi n"
  using assms by (simp add: fval_def)

section \<open>The result types\<close>

definition cut_scale :: "int \<Rightarrow> int \<Rightarrow> int" where
  "cut_scale D s = (if D > 31 then 31 - D + s else s)"

lemma cut_type_ok:
  assumes "0 \<le> D" "D \<le> 100" "0 \<le> s" "s \<le> 100" "cut_scale D s \<le> 31"
  shows "\<exists>r. cut_type (to_ushort D) s = Inr r \<and> fixed_scale r = cut_scale D s"
  using assms by (auto simp: cut_type_def cut_scale_def Fixed_type_def split: if_splits)

definition sum_digits :: "fixed \<Rightarrow> fixed \<Rightarrow> int" where
  "sum_digits a b = 1 + max (fixed_scale a) (fixed_scale b) +
     max (fixed_digits a - fixed_scale a) (fixed_digits b - fixed_scale b)"

lemma sum_digits_bounds:
  assumes "fixed_ok a" "fixed_ok b" "m = max (fixed_scale a) (fixed_scale b)"
  shows "0 \<le> sum_digits a b" "sum_digits a b \<le> 32 + m" "cut_scale (sum_digits a b) m \<le> m" "- 1 \<le> cut_scale (sum_digits a b) m"
  using assms by (auto simp: sum_digits_def fixed_ok_def cut_scale_def)

lemma sum_type_ok:
  assumes "fixed_ok a" "fixed_ok b" "m = max (fixed_scale a) (fixed_scale b)"
  shows "\<exists>r. sum_type a b = Inr r \<and> fixed_scale r = cut_scale (sum_digits a b) m"
proof -
  have "0 \<le> m" "m \<le> 31" using assms by (auto simp: fixed_ok_def)
  moreover note b = sum_digits_bounds [OF assms]
  moreover have "cut_scale (sum_digits a b) m \<le> 31" "sum_digits a b \<le> 100" using b \<open>m \<le> 31\<close> by linarith+
  ultimately have "\<exists>r. cut_type (to_ushort (sum_digits a b)) m = Inr r \<and> fixed_scale r = cut_scale (sum_digits a b) m"
    by (intro cut_type_ok) auto
  moreover have "sum_type a b = cut_type (to_ushort (sum_digits a b)) m"
    unfolding sum_type_def Let_def sum_digits_def assms(3) ..
  ultimately show ?thesis by simp
qed

text \<open>Sum and difference share the type of the result, the common scale and the rounding.\<close>

lemma sum_nearest:
  assumes ok: "fixed_ok a" "fixed_ok b" and m: "m = max (fixed_scale a) (fixed_scale b)"
    and r: "fixed_scale r = cut_scale (sum_digits a b) m"
    and oper: "\<And>x y. big_ok x \<Longrightarrow> bval x = at_scale a m \<Longrightarrow> big_ok y \<Longrightarrow> bval y = at_scale b m \<Longrightarrow> yields (f x y) N"
    and N: "\<bar>N\<bar> \<le> \<bar>at_scale a m\<bar> + \<bar>at_scale b m\<bar>"
  shows "\<exists>r'. rbind (common_scale a b) (\<lambda>(n, x, y). rbind (f x y) (store_result r n)) = Inr r' \<and>
    fixed_scale r' = fixed_scale r \<and> \<bar>fval r' - real_of_int N / 10 powi m\<bar> \<le> 10 powi (- fixed_scale r) / 2 \<and>
    (sum_digits a b \<le> 31 \<longrightarrow> fval r' = real_of_int N / 10 powi m)"
proof -
  obtain x y where c: "common_scale a b = Inr (m, x, y)" "big_ok x" "bval x = at_scale a m" "big_ok y" "bval y = at_scale b m"
    using common_scale_ok [OF ok m] by blast
  have m31: "0 \<le> m" "m \<le> 31" using ok m by (auto simp: fixed_ok_def)
  have N': "\<bar>N\<bar> \<le> 2 * 10 ^ 62" using N at_scale_bound [OF ok(1) m31(2)] at_scale_bound [OF ok(2) m31(2)] by linarith
  then have "in_range N" by (simp add: in_range_def MAG_SIZE_def)
  then obtain v where v: "f x y = Inr v" "big_ok v" "bval v = N" using oper [OF c(2-5)] by (auto dest: yieldsD)
  note b = sum_digits_bounds [OF ok m]
  have "\<bar>bval v\<bar> \<le> 10 ^ 76" using N' v(3) by simp
  then obtain r' where r': "store_result r m v = Inr r'" "fixed_scale r' = fixed_scale r"
      "bval (fixed_value r') = round_away N (10 ^ nat (m - fixed_scale r))"
    using store_result_ok [OF v(2), of r m] r b v(3) m31 by auto
  have "fval r' = real_of_int N / 10 powi m" if "sum_digits a b \<le> 31"
    using that r r' by (intro fval_exact) (simp_all add: cut_scale_def)
  moreover have "\<bar>fval r' - real_of_int N / 10 powi m\<bar> \<le> 10 powi (- fixed_scale r) / 2"
    using fval_round [of r' N m] r' r b by simp
  ultimately show ?thesis using c(1) v(1) r' by simp
qed

section \<open>Sample numbers\<close>

definition sample_fixed :: "int \<Rightarrow> int \<Rightarrow> fixed" where
  "sample_fixed v s = \<lparr>fixed_digits = 3, fixed_scale = s, fixed_value = BigInt_int v\<rparr>"

lemma sample_fixed_ok:
  "\<bar>v\<bar> < 1000 \<Longrightarrow> 0 \<le> s \<Longrightarrow> s \<le> 31 \<Longrightarrow> fixed_ok (sample_fixed v s)"
  "\<bar>v\<bar> < 1000 \<Longrightarrow> bval (fixed_value (sample_fixed v s)) = v" "fixed_scale (sample_fixed v s) = s"
  "fixed_digits (sample_fixed v s) = 3"
  using BigInt_int_ok [of v] by (simp_all add: sample_fixed_def fixed_ok_def)

lemma sample_fval: "\<bar>v\<bar> < 1000 \<Longrightarrow> fval (sample_fixed v s) = real_of_int v / 10 powi s"
  by (simp add: fval_def sample_fixed_ok)

section \<open>Properties\<close>

text \<open>\<^verbatim>\<open>operator+\<close> of two fixed numbers returns the number of the result type that is nearest to the exact sum, and
  the exact sum when the result needs at most 31 digits, except for a positive number plus a negative one.\<close>

theorem fixed_plus_nearest:
  assumes "fixed_ok a" "fixed_ok b" "\<not> (0 < fval a \<and> fval b < 0)"
    "s = cut_scale (sum_digits a b) (max (fixed_scale a) (fixed_scale b))"
  shows "\<exists>r. fixed_plus a b = Inr r \<and> fixed_scale r = s \<and> \<bar>fval r - (fval a + fval b)\<bar> \<le> 10 powi (- s) / 2 \<and>
    (sum_digits a b \<le> 31 \<longrightarrow> fval r = fval a + fval b)"
proof -
  define m where "m = max (fixed_scale a) (fixed_scale b)"
  obtain r where r: "sum_type a b = Inr r" "fixed_scale r = s" using sum_type_ok [OF assms(1,2) m_def] assms(4) m_def by auto
  have v: "fval a = real_of_int (at_scale a m) / 10 powi m" "fval b = real_of_int (at_scale b m) / 10 powi m"
    by (simp_all add: fval_at_scale m_def)
  have signs: "\<not> (0 < at_scale a m \<and> at_scale b m < 0)" using assms(3) by (simp add: fval_sign at_scale_sign)
  have "\<exists>r'. fixed_add r a b = Inr r' \<and> fixed_scale r' = fixed_scale r \<and>
      \<bar>fval r' - real_of_int (at_scale a m + at_scale b m) / 10 powi m\<bar> \<le> 10 powi (- fixed_scale r) / 2 \<and>
      (sum_digits a b \<le> 31 \<longrightarrow> fval r' = real_of_int (at_scale a m + at_scale b m) / 10 powi m)"
    unfolding fixed_add_def
  proof (rule sum_nearest [OF assms(1,2) m_def])
    fix x y assume "big_ok x" "bval x = at_scale a m" "big_ok y" "bval y = at_scale b m"
    then show "yields (big_add x y) (at_scale a m + at_scale b m)" using add_exact [of x y] signs by simp
  qed (use r assms(4) in \<open>simp_all add: m_def abs_triangle_ineq abs_triangle_ineq4\<close>)
  then show ?thesis using r v by (simp add: fixed_plus_def add_divide_distrib)
qed

theorem fixed_plus_nearest_witness:
  "\<exists>r. fixed_plus (sample_fixed 125 2) (sample_fixed 5 1) = Inr r \<and> fval r = 175 / 100"
  using fixed_plus_nearest [of "sample_fixed 125 2" "sample_fixed 5 1" 2]
  by (auto simp: sample_fixed_ok sample_fval cut_scale_def sum_digits_def)

text \<open>Binary \<^verbatim>\<open>operator-\<close> of two fixed numbers returns the number of the result type that is nearest to the exact
  difference, and the exact difference when the result needs at most 31 digits, unless both are negative.\<close>

theorem fixed_minus_nearest:
  assumes "fixed_ok a" "fixed_ok b" "\<not> (fval a < 0 \<and> fval b < 0)"
    "s = cut_scale (sum_digits a b) (max (fixed_scale a) (fixed_scale b))"
  shows "\<exists>r. fixed_minus a b = Inr r \<and> fixed_scale r = s \<and> \<bar>fval r - (fval a - fval b)\<bar> \<le> 10 powi (- s) / 2 \<and>
    (sum_digits a b \<le> 31 \<longrightarrow> fval r = fval a - fval b)"
proof -
  define m where "m = max (fixed_scale a) (fixed_scale b)"
  obtain r where r: "sum_type a b = Inr r" "fixed_scale r = s" using sum_type_ok [OF assms(1,2) m_def] assms(4) m_def by auto
  have v: "fval a = real_of_int (at_scale a m) / 10 powi m" "fval b = real_of_int (at_scale b m) / 10 powi m"
    by (simp_all add: fval_at_scale m_def)
  have signs: "\<not> (at_scale a m < 0 \<and> at_scale b m < 0)" using assms(3) by (simp add: fval_sign at_scale_sign)
  have "\<exists>r'. fixed_sub r a b = Inr r' \<and> fixed_scale r' = fixed_scale r \<and>
      \<bar>fval r' - real_of_int (at_scale a m - at_scale b m) / 10 powi m\<bar> \<le> 10 powi (- fixed_scale r) / 2 \<and>
      (sum_digits a b \<le> 31 \<longrightarrow> fval r' = real_of_int (at_scale a m - at_scale b m) / 10 powi m)"
    unfolding fixed_sub_def
  proof (rule sum_nearest [OF assms(1,2) m_def])
    fix x y assume "big_ok x" "bval x = at_scale a m" "big_ok y" "bval y = at_scale b m"
    then show "yields (big_sub x y) (at_scale a m - at_scale b m)" using sub_exact [of x y] signs by simp
  qed (use r assms(4) in \<open>simp_all add: m_def abs_triangle_ineq abs_triangle_ineq4\<close>)
  then show ?thesis using r v by (simp add: fixed_minus_def diff_divide_distrib)
qed

theorem fixed_minus_nearest_witness:
  "\<exists>r. fixed_minus (sample_fixed 125 2) (sample_fixed 5 1) = Inr r \<and> fval r = 75 / 100"
  using fixed_minus_nearest [of "sample_fixed 125 2" "sample_fixed 5 1" 2]
  by (auto simp: sample_fixed_ok sample_fval cut_scale_def sum_digits_def)



text \<open>The quotient: truncating one more digit and rounding it away is rounding the exact quotient.\<close>

lemma nested_round:
  assumes "0 < (B::int)" "0 \<le> A"
  shows "(A * 10 div B + 5) div 10 = (2 * A + B) div (2 * B)"
proof -
  have "(A * 10 div B + 5) div 10 = (A * 10 + 5 * B) div B div 10" using assms by simp
  also have "\<dots> = (5 * (2 * A + B)) div (5 * (2 * B))" by (simp add: zdiv_zmult2_eq [symmetric] algebra_simps)
  also have "\<dots> = (2 * A + B) div (2 * B)" by (rule div_mult_mult1) simp
  finally show ?thesis .
qed

lemma half_nearest:
  assumes "0 < (B::int)"
  shows "2 * \<bar>(2 * A + B) div (2 * B) * B - A\<bar> \<le> B"
proof -
  let ?q = "(2 * A + B) div (2 * B)" and ?r = "(2 * A + B) mod (2 * B)"
  have "2 * A + B = ?q * (2 * B) + ?r" by (rule div_mult_mod_eq [symmetric])
  moreover have "0 \<le> ?r" "?r < 2 * B" using assms by simp_all
  ultimately have "2 * (?q * B - A) = B - ?r" "0 \<le> ?r" "?r < 2 * B" by (simp_all add: algebra_simps)
  then show ?thesis by linarith
qed

lemma quotient_error:
  assumes "2 * \<bar>Q * \<bar>B\<bar> - A'\<bar> \<le> \<bar>B\<bar>" "B \<noteq> 0" "bval (fixed_value r) = sgn A * sgn B * Q" "fixed_scale r = s" "0 \<le> s"
    "A' = \<bar>A\<bar> * 10 ^ nat s"
  shows "\<bar>fval r - real_of_int A / real_of_int B\<bar> \<le> 10 powi (- s) / 2"
proof -
  define d where "d = real_of_int \<bar>B\<bar> * 10 ^ nat s"
  have pw: "(10::real) powi s = 10 ^ nat s" using assms(5) by (simp add: power_int_def)
  have d0: "0 < d" using assms(2) by (simp add: d_def)
  have AB: "real_of_int A / real_of_int B = real_of_int (sgn A * sgn B * A') / d"
  proof -
    have "real_of_int A / real_of_int B = real_of_int (sgn A) * real_of_int \<bar>A\<bar> / (real_of_int (sgn B) * real_of_int \<bar>B\<bar>)"
      by (metis of_int_mult sgn_mult_abs)
    also have "\<dots> = real_of_int (sgn A) * real_of_int (sgn B) * real_of_int \<bar>A\<bar> / real_of_int \<bar>B\<bar>"
      using assms(2) by (cases "B < 0") auto
    finally show ?thesis by (simp add: d_def assms(6))
  qed
  have "fval r = real_of_int (sgn A * sgn B * Q) * real_of_int \<bar>B\<bar> / d"
    using assms(2) unfolding fval_def assms(3,4) pw d_def by simp
  then have "fval r - real_of_int A / real_of_int B = real_of_int (sgn A * sgn B * (Q * \<bar>B\<bar> - A')) / d"
    unfolding AB by (simp add: diff_divide_distrib algebra_simps)
  then have "\<bar>fval r - real_of_int A / real_of_int B\<bar> = real_of_int \<bar>sgn A * sgn B * (Q * \<bar>B\<bar> - A')\<bar> / d"
    using d0 by simp
  also have "\<dots> \<le> (real_of_int \<bar>B\<bar> / 2) / d"
  proof (intro divide_right_mono)
    have "\<bar>sgn A * sgn B * (Q * \<bar>B\<bar> - A')\<bar> \<le> \<bar>Q * \<bar>B\<bar> - A'\<bar>" by (simp add: abs_mult abs_sgn_eq)
    then have "2 * \<bar>sgn A * sgn B * (Q * \<bar>B\<bar> - A')\<bar> \<le> \<bar>B\<bar>" using assms(1) by linarith
    then have "real_of_int (2 * \<bar>sgn A * sgn B * (Q * \<bar>B\<bar> - A')\<bar>) \<le> real_of_int \<bar>B\<bar>" by (simp only: of_int_le_iff)
    then show "real_of_int \<bar>sgn A * sgn B * (Q * \<bar>B\<bar> - A')\<bar> \<le> real_of_int \<bar>B\<bar> / 2" by simp
  qed (use d0 in simp)
  also have "\<dots> = 10 powi (- s) / 2" using assms(2) by (simp add: d_def power_int_minus pw divide_simps)
  finally show ?thesis .
qed

text \<open>\<^verbatim>\<open>operator/\<close> of two fixed numbers returns the number with the scale of the dividend that is nearest to the exact
  quotient, for a divisor that is not zero and a dividend whose shifted value fits.\<close>

theorem fixed_divide_nearest:
  assumes "fixed_ok a" "fixed_ok b" "fval b \<noteq> 0" "m = max (fixed_scale a) (fixed_scale b)"
    "\<bar>at_scale a m * 10 ^ nat (fixed_scale a + 1)\<bar> \<le> 10 ^ 76"
  shows "\<exists>r. fixed_divide a b = Inr r \<and> fixed_scale r = fixed_scale a \<and>
    \<bar>fval r - fval a / fval b\<bar> \<le> 10 powi (- fixed_scale a) / 2"
proof -
  let ?s = "fixed_scale a" and ?A = "at_scale a m" and ?B = "at_scale b m"
  have sb: "0 \<le> ?s" "?s \<le> 31" "fixed_digits a \<le> 31" "0 \<le> m" "m \<le> 31" "?s \<le> m" "fixed_scale b \<le> m"
    using assms by (auto simp: fixed_ok_def)
  define r where "r = \<lparr>fixed_digits = fixed_digits a, fixed_scale = ?s, fixed_value = BigInt_int 0\<rparr>"
  obtain x y where c: "common_scale a b = Inr (m, x, y)" "big_ok x" "bval x = ?A" "big_ok y" "bval y = ?B"
    using common_scale_ok [OF assms(1,2,4)] by blast
  obtain p where p: "power10 (?s + 1) = Inr p" "big_ok p" "bval p = 10 ^ nat (?s + 1)" using power10_ok [of "?s + 1"] sb by auto
  have "in_range (?A * 10 ^ nat (?s + 1))" using assms(5) by (simp add: in_range_def MAG_SIZE_def)
  then obtain d where d: "big_mul x p = Inr d" "big_ok d" "bval d = ?A * 10 ^ nat (?s + 1)"
    using mul_exact [OF c(2) p(2)] c(3) p(3) by (auto dest: yieldsD)
  have B: "?B \<noteq> 0" using assms(3) by (auto simp: at_scale_def fval_def)
  have "\<bar>?B\<bar> \<le> 256 ^ 31" using at_scale_bound [OF assms(2) sb(5)] by simp
  then obtain q rest where q: "big_div (BigInt_int 0) d y (BigInt_int 0) = Inr (q, rest)" "big_ok q"
      "bval q = sgn (bval d) * sgn ?B * (\<bar>bval d\<bar> div \<bar>?B\<bar>)"
    using div_val [OF d(2) c(4), of "BigInt_int 0" "BigInt_int 0"] B c(5) by auto
  have "\<bar>bval q\<bar> \<le> \<bar>bval d\<bar> div \<bar>?B\<bar>" using q(3) B by (simp add: abs_mult abs_sgn_eq pos_imp_zdiv_nonneg_iff)
  also have "\<dots> \<le> \<bar>bval d\<bar>" using B by (intro div_le_dividend_int) auto
  finally have "\<bar>bval q\<bar> \<le> 10 ^ 76" using d(3) assms(5) by simp
  then obtain r' where r': "store_result r (?s + 1) q = Inr r'" "fixed_scale r' = ?s" "bval (fixed_value r') = round_away (bval q) 10"
    using store_result_ok [OF q(2), of r "?s + 1"] by (auto simp: r_def)
  have run: "fixed_divide a b = Inr r'"
    using c(1) p(1) d(1) q(1) r'(1) sb
    by (simp add: fixed_divide_def Fixed_type_def fixed_div_def r_def [symmetric] big_mul_assign_def Fixed_BigInt_def Let_def)
      (simp add: r_def)
  define A' where "A' = \<bar>?A\<bar> * 10 ^ nat ?s"
  have A': "\<bar>bval d\<bar> = A' * 10" "0 \<le> A'" unfolding d(3) A'_def using sb by (simp_all add: abs_mult nat_add_distrib)
  have sq: "sgn (bval d) = sgn ?A" unfolding d(3) by (simp add: sgn_mult)
  let ?Q = "(2 * A' + \<bar>?B\<bar>) div (2 * \<bar>?B\<bar>)"
  have val: "bval (fixed_value r') = sgn ?A * sgn ?B * ?Q"
  proof -
    have nn: "0 \<le> A' * 10 div \<bar>?B\<bar>" using A' B by (simp add: pos_imp_zdiv_nonneg_iff)
    have "round_away (bval q) 10 = sgn ?A * sgn ?B * ((A' * 10 div \<bar>?B\<bar> + 5) div 10)"
      using nn unfolding q(3) sq A'(1) round_away_def by (auto simp: sgn_mult abs_mult sgn_if)
    then show ?thesis using nested_round [of "\<bar>?B\<bar>" A'] A'(2) B r'(3) by simp
  qed
  have near: "2 * \<bar>?Q * \<bar>?B\<bar> - A'\<bar> \<le> \<bar>?B\<bar>" using half_nearest [of "\<bar>?B\<bar>" A'] B by simp
  show ?thesis using run r'(2) quotient_error [OF near B val r'(2) sb(1) A'_def] fval_at_scale [OF sb(6)] fval_at_scale [OF sb(7)] by simp
qed

theorem fixed_divide_nearest_witness:
  "\<exists>r. fixed_divide (sample_fixed 200 2) (sample_fixed (- 3) 0) = Inr r \<and> fixed_scale r = 2 \<and> \<bar>fval r + 2 / 3\<bar> \<le> 5 / 1000"
proof -
  let ?a = "sample_fixed 200 2" and ?b = "sample_fixed (- 3) 0"
  have "\<exists>r. fixed_divide ?a ?b = Inr r \<and> fixed_scale r = fixed_scale ?a \<and>
      \<bar>fval r - fval ?a / fval ?b\<bar> \<le> 10 powi (- fixed_scale ?a) / 2"
    by (rule fixed_divide_nearest [of _ _ 2]) (simp_all add: sample_fixed_ok sample_fval at_scale_def)
  then show ?thesis by (auto simp: sample_fval sample_fixed_ok)
qed

end
