(* ===== verification/Fixed_Order.thy ===== *)
theory Fixed_Order
  imports Fixed_Arith
begin

text \<open>
  Comparison, rounding, normalisation and the error cases of \<^verbatim>\<open>CORBA::Fixed\<close>.
\<close>

section \<open>Comparison\<close>

lemma fval_order:
  assumes "fixed_scale a \<le> m" "fixed_scale b \<le> m"
  shows "fval a < fval b \<longleftrightarrow> at_scale a m < at_scale b m" "fval a = fval b \<longleftrightarrow> at_scale a m = at_scale b m"
proof -
  have "\<not> (10::real) powi m < 0" by (simp add: not_less)
  then show "fval a < fval b \<longleftrightarrow> at_scale a m < at_scale b m" "fval a = fval b \<longleftrightarrow> at_scale a m = at_scale b m"
    using fval_at_scale [OF assms(1)] fval_at_scale [OF assms(2)] by (simp_all add: divide_less_cancel)
qed

text \<open>The three cases of a comparison are one: the relation of the values at the common scale.\<close>

lemma compare_with_ok:
  assumes "fixed_ok a" "fixed_ok b" "m = max (fixed_scale a) (fixed_scale b)"
  shows "\<exists>x y. compare_with rel a b = Inr (rel x y) \<and> big_ok x \<and> bval x = at_scale a m \<and> big_ok y \<and> bval y = at_scale b m"
proof -
  obtain x y where c: "common_scale a b = Inr (m, x, y)" "big_ok x" "bval x = at_scale a m" "big_ok y" "bval y = at_scale b m"
    using common_scale_ok [OF assms] by blast
  have "compare_with rel a b = rbind (common_scale a b) (\<lambda>(_, x, y). Inr (rel x y))"
    by (simp add: compare_with_def common_scale_def rbind_assoc)
  with c show ?thesis by auto
qed

section \<open>Removal of zeros\<close>

lemma ten_dvd_step:
  assumes "big_ok c" "bval c \<noteq> 0"
  shows "\<exists>q r. big_div c c (BigInt_int 10) (BigInt_int 0) = Inr (q, r) \<and> big_ok q \<and> big_ok r \<and>
    (if 10 dvd bval c then bval c = 10 * bval q \<and> bval r = 0 else bval r \<noteq> 0)"
proof -
  obtain q r where d: "big_div c c (BigInt_int 10) (BigInt_int 0) = Inr (q, r)" "big_ok q" "big_ok r"
      "bval q = sgn (bval c) * (\<bar>bval c\<bar> div 10)" "bval r = sgn (bval c) * (\<bar>bval c\<bar> mod 10)"
    using div_val [OF assms(1), of "BigInt_int 10" c "BigInt_int 0"] by auto
  have e: "bval c = bval q * 10 + bval r" using quot_rem_signs [of "bval c" 10] d(4,5) by simp
  have "bval r = 0 \<longleftrightarrow> 10 dvd bval c" using d(5) assms(2) by (simp add: dvd_eq_mod_eq_0 [symmetric] sgn_0_0)
  with e have "if 10 dvd bval c then bval c = 10 * bval q \<and> bval r = 0 else bval r \<noteq> 0" by (simp split: if_splits)
  with d(1-3) show ?thesis by blast
qed

lemma adjust_loop_ok:
  "big_ok c \<Longrightarrow> bval c \<noteq> 0 \<Longrightarrow> \<bar>bval c\<bar> < 10 ^ fuel \<Longrightarrow>
   \<exists>d j. adjust_loop (Suc fuel) c n = Inr (d, n + 1 + int j) \<and> j \<le> fuel \<and> big_ok d \<and> bval c = bval d * 10 ^ j \<and> \<not> 10 dvd bval d"
proof (induction fuel arbitrary: c n)
  case (Suc fuel)
  obtain q r where d: "big_div c c (BigInt_int 10) (BigInt_int 0) = Inr (q, r)" "big_ok q" "big_ok r"
      "if 10 dvd bval c then bval c = 10 * bval q \<and> bval r = 0 else bval r \<noteq> 0"
    using ten_dvd_step Suc.prems(1,2) by blast
  have z: "big_eq r (BigInt_int 0) \<longleftrightarrow> bval r = 0" using big_eq_val [OF d(3)] by simp
  show ?case
  proof (cases "10 dvd bval c")
    case True
    then have q: "bval c = 10 * bval q" "bval q \<noteq> 0" "\<bar>bval q\<bar> < 10 ^ fuel" using d(4) Suc.prems by auto
    obtain e j where "adjust_loop (Suc fuel) q (n + 1) = Inr (e, n + 1 + 1 + int j)" "j \<le> fuel" "big_ok e"
        "bval q = bval e * 10 ^ j" "\<not> 10 dvd bval e"
      using Suc.IH [OF d(2) q(2,3)] by blast
    moreover have "adjust_loop (Suc (Suc fuel)) c n = adjust_loop (Suc fuel) q (n + 1)"
      using True d z by (subst adjust_loop.simps(2)) simp
    ultimately show ?thesis using q by (intro exI [of _ e] exI [of _ "Suc j"]) (auto simp del: adjust_loop.simps)
  next
    case False
    with d z show ?thesis by (intro exI [of _ c] exI [of _ 0]) (auto simp: Suc.prems)
  qed
qed simp

section \<open>Properties\<close>

text \<open>The comparison operators \<^verbatim>\<open><\<close>, \<^verbatim>\<open>==\<close>, \<^verbatim>\<open>>=\<close> and \<^verbatim>\<open>!=\<close> of fixed numbers decide the order of the numbers, whatever
  their scales; \<^verbatim>\<open><=\<close> is false for two equal numbers that are not zero and true for zero and a negative number, and \<^verbatim>\<open>>\<close> is its
  negation.\<close>

theorem fixed_order:
  assumes "fixed_ok a" "fixed_ok b"
  shows "fixed_lt a b = Inr (fval a < fval b) \<and> fixed_eq a b = Inr (fval a = fval b) \<and>
    fixed_ge a b = Inr (fval a \<ge> fval b) \<and> fixed_neq a b = Inr (fval a \<noteq> fval b) \<and>
    fixed_le a b = Inr (fval a < fval b \<or> (fval a = 0 \<and> fval b \<le> 0)) \<and>
    fixed_gt a b = Inr (\<not> (fval a < fval b \<or> (fval a = 0 \<and> fval b \<le> 0)))"
proof -
  define m where "m = max (fixed_scale a) (fixed_scale b)"
  have m: "fixed_scale a \<le> m" "fixed_scale b \<le> m" by (simp_all add: m_def)
  have lt: "fixed_lt a b = Inr (fval a < fval b)"
    using compare_with_ok [OF assms m_def, of big_lt] big_lt_val fval_order(1) [OF m] by (auto simp: fixed_lt_def)
  have eq: "fixed_eq a b = Inr (fval a = fval b)"
    using compare_with_ok [OF assms m_def, of big_eq] big_eq_val fval_order(2) [OF m] by (auto simp: fixed_eq_def)
  have z: "fval f = 0 \<longleftrightarrow> at_scale f m = 0" "fval f \<le> 0 \<longleftrightarrow> at_scale f m \<le> 0" for f
    using fval_sign [of f] at_scale_sign [of f m] by linarith+
  have le: "fixed_le a b = Inr (fval a < fval b \<or> (fval a = 0 \<and> fval b \<le> 0))"
    using compare_with_ok [OF assms m_def, of big_le] big_le_val fval_order(1) [OF m] z by (auto simp: fixed_le_def)
  from lt eq le show ?thesis by (simp add: fixed_ge_def fixed_neq_def fixed_gt_def not_less)
qed

theorem fixed_order_witness:
  "fixed_lt (sample_fixed 15 1) (sample_fixed 151 2) = Inr True \<and> fixed_eq (sample_fixed 15 1) (sample_fixed 150 2) = Inr True \<and>
   fixed_le (sample_fixed 15 1) (sample_fixed 15 1) = Inr False \<and> fixed_gt (sample_fixed 15 1) (sample_fixed 15 1) = Inr True"
  using fixed_order [of "sample_fixed 15 1" "sample_fixed 151 2"] fixed_order [of "sample_fixed 15 1" "sample_fixed 150 2"]
    fixed_order [of "sample_fixed 15 1" "sample_fixed 15 1"] by (simp add: sample_fixed_ok sample_fval)

text \<open>\<^verbatim>\<open>round\<close> and \<^verbatim>\<open>truncate\<close> to fewer decimals return the number of that scale that is nearest to the given one (away
  from zero when two are equally near), and the one next to it towards zero.\<close>

theorem fixed_round_truncate:
  assumes "fixed_ok f" "0 \<le> n" "n < fixed_scale f"
  shows "\<exists>r t. fixed_round f n = Inr r \<and> fixed_truncate f n = Inr t \<and> fixed_scale r = n \<and> fixed_scale t = n \<and>
    bval (fixed_value r) = round_away (bval (fixed_value f)) (10 ^ nat (fixed_scale f - n)) \<and>
    bval (fixed_value t) = trunc_quot (bval (fixed_value f)) (10 ^ nat (fixed_scale f - n)) \<and>
    \<bar>fval r - fval f\<bar> \<le> 10 powi (- n) / 2"
proof -
  have f: "big_ok (fixed_value f)" "\<bar>bval (fixed_value f)\<bar> < 10 ^ 31" "fixed_digits f \<le> 31" "fixed_scale f \<le> 31"
    using assms(1) by (simp_all add: fixed_ok_def)
  have "5 * (10::int) ^ nat (fixed_scale f - n - 1) \<le> 5 * 10 ^ 31" using assms f by (intro mult_left_mono power_increasing) auto
  then have "in_range (\<bar>bval (fixed_value f)\<bar> + 5 * 10 ^ nat (fixed_scale f - n - 1))" using f by (simp add: in_range_def MAG_SIZE_def)
  then obtain q where q: "rescale n (fixed_scale f) (fixed_value f) True = Inr q"
      "bval q = round_away (bval (fixed_value f)) (10 ^ nat (fixed_scale f - n))"
    using rescale_down_round [OF f(1) assms(3)] f assms by auto
  obtain p where p: "rescale n (fixed_scale f) (fixed_value f) False = Inr p"
      "bval p = trunc_quot (bval (fixed_value f)) (10 ^ nat (fixed_scale f - n))"
    using rescale_down_trunc [OF f(1) assms(3)] f assms by auto
  let ?r = "\<lparr>fixed_digits = fixed_digits f, fixed_scale = n, fixed_value = q\<rparr>"
  have "\<bar>fval ?r - fval f\<bar> \<le> 10 powi (- n) / 2"
    using fval_round [of ?r "bval (fixed_value f)" "fixed_scale f"] q assms by (simp add: fval_def [of f])
  then show ?thesis using p q f assms by (simp add: fixed_round_def fixed_truncate_def Fixed_type_def)
qed

theorem fixed_round_truncate_witness:
  "\<exists>r t. fixed_round (sample_fixed (- 125) 2) 1 = Inr r \<and> fixed_truncate (sample_fixed (- 125) 2) 1 = Inr t \<and>
     bval (fixed_value r) = - 13 \<and> bval (fixed_value t) = - 12"
  using fixed_round_truncate [of "sample_fixed (- 125) 2" 1] by (auto simp: sample_fixed_ok round_away_def trunc_quot_def)

text \<open>\<^verbatim>\<open>adjust\<close> ends, keeps the number, and leaves no zero at the end of its digits.\<close>

theorem adjust_normal:
  assumes "big_ok (fixed_value f)" "fval f \<noteq> 0" "fixed_scale f \<noteq> 0" "\<bar>fixed_scale f\<bar> \<le> 100"
  shows "\<exists>g. adjust f = Inr g \<and> fval g = fval f \<and> big_ok (fixed_value g) \<and> \<not> 10 dvd bval (fixed_value g)"
proof -
  have nz: "bval (fixed_value f) \<noteq> 0" using assms(2) by (auto simp: fval_def)
  have "\<bar>bval (fixed_value f)\<bar> < 10 ^ 79" using big_ok_facts(6) [OF assms(1)] by (simp add: in_range_def MAG_SIZE_def)
  from adjust_loop_ok [OF assms(1) nz this, of 0] obtain d j where
    d: "adjust_loop 80 (fixed_value f) 0 = Inr (d, 0 + 1 + int j)" "j \<le> 79" "big_ok d"
      "bval (fixed_value f) = bval d * 10 ^ j" "\<not> 10 dvd bval d" by auto
  let ?g = "f\<lparr>fixed_scale := fixed_scale f - int j, fixed_value := d\<rparr>"
  have "(10::real) powi fixed_scale f = 10 powi (fixed_scale f - int j) * 10 ^ j"
    by (metis diff_add_cancel power_int_add power_int_of_nat zero_neq_numeral)
  then have "fval ?g = fval f" using d(4) by (simp add: fval_def)
  moreover have "adjust f = Inr ?g"
    using d(1,2) assms(3,4) nz by (auto simp: adjust_def bval_def simp del: adjust_loop.simps)
  ultimately show ?thesis using d by auto
qed

theorem adjust_normal_witness:
  "\<exists>g. adjust (sample_fixed 120 3) = Inr g \<and> fval g = 120 / 1000 \<and> \<not> 10 dvd bval (fixed_value g)"
  using adjust_normal [of "sample_fixed 120 3"] sample_fixed_ok(1) [of 120 3] by (auto simp: sample_fixed_ok sample_fval fixed_ok_def)

text \<open>Division by zero raises no exception: \<^verbatim>\<open>BigInt::div\<close> leaves the quotient as it is, and the result is zero.\<close>

theorem fixed_divide_by_zero:
  assumes "fixed_ok a" "fixed_ok b" "fval b = 0" "m = max (fixed_scale a) (fixed_scale b)"
    "\<bar>at_scale a m * 10 ^ nat (fixed_scale a + 1)\<bar> \<le> 10 ^ 76"
  shows "\<exists>r. fixed_divide a b = Inr r \<and> fval r = 0"
proof -
  let ?s = "fixed_scale a"
  have sb: "0 \<le> ?s" "?s \<le> 31" "fixed_digits a \<le> 31" using assms by (auto simp: fixed_ok_def)
  define r where "r = \<lparr>fixed_digits = fixed_digits a, fixed_scale = ?s, fixed_value = BigInt_int 0\<rparr>"
  obtain x y where c: "common_scale a b = Inr (m, x, y)" "big_ok x" "bval x = at_scale a m" "big_ok y" "bval y = at_scale b m"
    using common_scale_ok [OF assms(1,2,4)] by blast
  have "at_scale b m = 0" using fval_sign [of b] at_scale_sign [of b m] assms(3) by linarith
  then have y0: "sign y = Zero" using c(4,5) big_ok_facts(3,4) [OF c(4)] by (cases "sign y") auto
  obtain p where p: "power10 (?s + 1) = Inr p" "big_ok p" "bval p = 10 ^ nat (?s + 1)" using power10_ok [of "?s + 1"] sb by auto
  have "in_range (at_scale a m * 10 ^ nat (?s + 1))" using assms(5) by (simp add: in_range_def MAG_SIZE_def)
  then obtain d where d: "big_mul x p = Inr d" using mul_exact [OF c(2) p(2)] c(3) p(3) by (auto dest: yieldsD)
  obtain r' where r': "store_result r (?s + 1) (BigInt_int 0) = Inr r'" "bval (fixed_value r') = 0"
    using store_result_ok [of "BigInt_int 0" r "?s + 1"] by (auto simp: r_def)
  have "fixed_divide a b = Inr r'"
    using c(1) p(1) d y0 r'(1) sb
    by (simp add: fixed_divide_def Fixed_type_def fixed_div_def r_def [symmetric] big_mul_assign_def Fixed_BigInt_def Let_def big_div_def)
      (simp add: r_def)
  with r' show ?thesis by (simp add: fval_def)
qed

theorem fixed_divide_by_zero_witness: "\<exists>r. fixed_divide (sample_fixed 15 1) (sample_fixed 0 0) = Inr r \<and> fval r = 0"
  using fixed_divide_by_zero [of "sample_fixed 15 1" "sample_fixed 0 0" 1] by (simp add: sample_fixed_ok sample_fval at_scale_def)

end
