(* ===== verification/Fixed_Text.thy ===== *)
theory Fixed_Text
  imports Fixed_Order
begin

text \<open>
  The decimal text of \<^verbatim>\<open>CORBA::Fixed\<close>: \<^verbatim>\<open>from_string\<close> reads back what \<^verbatim>\<open>to_string\<close> prints.
\<close>

section \<open>Printing\<close>

lemma print_loop_plain:
  "existsImportant \<or> rs = [] \<or> hd rs \<noteq> CHR ''0'' \<Longrightarrow> existsDot \<or> pos < i \<or> i + int (length rs) \<le> pos \<Longrightarrow>
   print_loop rs i pos existsDot existsImportant = (rs, existsDot)"
proof (induction rs arbitrary: i existsImportant)
  case (Cons r rs)
  have e: "print_loop rs (i + 1) pos existsDot (existsImportant \<or> r \<noteq> CHR ''0'') = (rs, existsDot)"
    by (rule Cons.IH) (use Cons.prems in auto)
  have d: "(i = pos \<and> \<not> existsDot) = False" and sh: "r \<noteq> CHR ''0'' \<or> i = 0 \<or> existsImportant \<or> existsDot"
    using Cons.prems by auto
  show ?case using e sh unfolding print_loop.simps(2) Let_def d by simp
qed simp

lemma print_loop_dot:
  "existsImportant \<or> rs = [] \<or> hd rs \<noteq> CHR ''0'' \<Longrightarrow> i \<le> pos \<Longrightarrow> pos < i + int (length rs) \<Longrightarrow>
   print_loop rs i pos False existsImportant = (take (nat (pos - i)) rs @ ''.'' @ drop (nat (pos - i)) rs, True)"
proof (induction rs arbitrary: i existsImportant)
  case (Cons r rs)
  show ?case
  proof (cases "i = pos")
    case True
    then show ?thesis using Cons.prems print_loop_plain [of "existsImportant \<or> r \<noteq> CHR ''0''" rs True pos "i + 1"]
      by (auto simp: Let_def)
  next
    case False
    then have n: "nat (pos - i) = Suc (nat (pos - (i + 1)))" using Cons.prems by simp
    have "print_loop rs (i + 1) pos False (existsImportant \<or> r \<noteq> CHR ''0'') =
        (take (nat (pos - (i + 1))) rs @ ''.'' @ drop (nat (pos - (i + 1))) rs, True)"
      using Cons.prems False by (intro Cons.IH) auto
    then show ?thesis using Cons.prems False by (auto simp: Let_def n)
  qed
qed simp

lemma drop_last_zeros_id: "s \<noteq> [] \<Longrightarrow> last s \<noteq> CHR ''0'' \<Longrightarrow> drop_last_zeros s = s"
  by (cases s rule: rev_cases) (auto simp: drop_last_zeros_def)

section \<open>Reading\<close>

lemma timesTenToThe_val:
  assumes "big_ok v" "0 \<le> bval v" "0 \<le> k"
  shows "yields (timesTenToThe v k) (bval v * 10 ^ nat k)"
proof -
  let ?h = "nat (k div 2)"
  have H: "yields (if k div 2 \<noteq> 0 then x100 ?h v else Inr v) (bval v * 100 ^ ?h)"
    using x100_val [OF assms(1,2), of ?h] assms by (auto intro: yieldsI)
  have e: "(10::int) ^ nat k = 100 ^ ?h * 10 ^ nat (k mod 2)"
  proof -
    have "nat k = nat (2 * (k div 2) + k mod 2)" by simp
    also have "\<dots> = 2 * ?h + nat (k mod 2)" using assms by (subst nat_add_distrib) (simp_all add: nat_mult_distrib)
    finally show ?thesis by (simp add: power_add power_mult)
  qed
  have le: "bval v * 100 ^ ?h \<le> bval v * 10 ^ nat k"
    unfolding e using assms(2) by (intro mult_left_mono) (auto simp: mult_le_cancel_left1)
  show ?thesis unfolding timesTenToThe_def Let_def
  proof (rule yields_bind [OF H])
    fix b assume b: "big_ok b" "bval b = bval v * 100 ^ ?h"
    show "yields (if k mod 2 \<noteq> 0 then big_mul_int b (10 * (k mod 2)) else Inr b) (bval v * 10 ^ nat k)"
    proof (cases "k mod 2 = 0")
      case True
      then show ?thesis using b e by (auto intro: yieldsI)
    next
      case False
      then have k1: "k mod 2 = 1" by presburger
      have "yields (big_mul_int b 10) (bval b * 10)"
      proof (cases "bval b = 0")
        case True
        then have "sign b = Zero" using b(1) big_ok_facts(3,4) [OF b(1)] by (cases "sign b") auto
        then show ?thesis using True by (auto simp: big_mul_int.simps intro: yieldsI)
      next
        case False
        then have "0 < bval b" using b(2) assms(2) by (simp add: order_less_le)
        then show ?thesis using mul_int_exact [OF b(1)] by simp
      qed
      then show ?thesis using k1 b e by (simp add: mult.assoc)
    qed
  next
    assume "in_range (bval v * 10 ^ nat k)"
    then show "in_range (bval v * 100 ^ ?h)" using in_range_mono le assms(2) by simp
  qed
qed

lemma big_digits_val: "big_ok v \<Longrightarrow> big_digits v = Inr (nat (ndigits (bval v)))"
proof -
  assume v: "big_ok v"
  then obtain s where s: "big_toString v = Inr s" "int (length s) = ndigits (bval v) + (if sign v = Neg then 1 else 0)"
    using toString_length by blast
  then show ?thesis by (auto simp: big_digits_def)
qed

lemma strchr_none: "c \<notin> set s \<Longrightarrow> strchr s c = None"
  by (induction s) auto

lemma strchr_first: "c \<notin> set s \<Longrightarrow> strchr (s @ c # t) c = Some (length s)"
  by (induction s) auto

lemma digit_not: "isdigit c \<Longrightarrow> c \<noteq> CHR ''d'' \<and> c \<noteq> CHR ''D'' \<and> c \<noteq> CHR ''e'' \<and> c \<noteq> CHR ''E'' \<and> c \<noteq> CHR ''.'' \<and>
    c \<noteq> CHR ''-'' \<and> c \<noteq> CHR ''+'' \<and> \<not> isspace c"
  by (auto simp: isdigit_def isspace_def)

text \<open>A text of digits, with a sign and a point, passes the first steps of \<^verbatim>\<open>extractFromString\<close> unchanged.\<close>

definition plain_char :: "char \<Rightarrow> bool" where
  "plain_char c \<longleftrightarrow> isdigit c \<or> c = CHR ''-'' \<or> c = CHR ''.''"

lemma extract_plain:
  assumes "s \<noteq> []" "list_all plain_char s"
  shows "leading_plus s = Inr s" "remove_d s = Inr s" "split_exponent s s = Inr (s, 0)"
proof -
  have p: "plain_char c \<Longrightarrow> c \<noteq> CHR ''d'' \<and> c \<noteq> CHR ''D'' \<and> c \<noteq> CHR ''e'' \<and> c \<noteq> CHR ''E'' \<and> c \<noteq> CHR ''+'' \<and> \<not> isspace c" for c
    using digit_not [of c] by (auto simp: plain_char_def isspace_def)
  have n: "CHR ''d'' \<notin> set s" "CHR ''D'' \<notin> set s" "CHR ''e'' \<notin> set s" "CHR ''E'' \<notin> set s"
    using assms(2) p by (auto simp: list_all_iff)
  then show "remove_d s = Inr s" "split_exponent s s = Inr (s, 0)"
    by (simp_all add: remove_d_def split_exponent_def either_case_def strchr_none)
  obtain c cs where "s = c # cs" using assms(1) by (cases s) auto
  with assms(2) p [of c] show "leading_plus s = Inr s" by (simp add: leading_plus_def)
qed

section \<open>Leading zeros\<close>

lemma rdec_dsum: "rdec s = dsum (map digit_val s)"
  by (induction s) auto

lemma digit_zero: "isdigit c \<Longrightarrow> digit_val c = 0 \<longleftrightarrow> c = CHR ''0''"
proof -
  assume "isdigit c"
  then have "digit_val c = 0 \<longleftrightarrow> of_char c = (48::nat)" by (auto simp: isdigit_def digit_val_def)
  also have "\<dots> \<longleftrightarrow> of_char c = (of_char CHR ''0'' :: nat)" by simp
  finally show ?thesis by (simp only: of_char_eq_iff)
qed

lemma digit_text_id: "list_all isdigit s \<Longrightarrow> map (\<lambda>x. char_of (digit_val x + 48)) s = s"
  by (induction s) (auto simp: isdigit_def digit_val_def)

lemma ndigits_unique:
  assumes "10 ^ (k - 1) \<le> n" "n < 10 ^ k" "0 < k"
  shows "ndigits (int n) = int k"
proof -
  have "0 < n" using assms(1) by (metis gr_zeroI le_zero_eq power_not_zero zero_neq_numeral)
  let ?es = "carry_digits n"
  have ne: "?es \<noteq> []" "last ?es \<noteq> 0" using carry_digits_val(3) \<open>0 < n\<close> by auto
  have "length ?es = k"
    using length_unique [of "length ?es" n k] dsum_bounds(1) [OF carry_digits_val(2)] dsum_bounds(2) [OF ne] ne assms
    by (simp add: carry_digits_val(1))
  then show ?thesis using \<open>0 < n\<close> by (simp add: ndigits_def)
qed

lemma dec_val_bounds:
  assumes "list_all isdigit t" "t \<noteq> []" "hd t \<noteq> CHR ''0''"
  shows "ndigits (int (dec_val t)) = int (length t)" "dec_val t \<noteq> 0"
proof -
  let ?ds = "map digit_val (rev t)"
  have l: "list_all (\<lambda>d. d < 10) ?ds" using assms(1) by (auto simp: list_all_iff intro: digit_val_lt)
  have "last ?ds = digit_val (hd t)" using assms(2) by (simp add: last_map last_rev)
  then have n: "?ds \<noteq> []" "last ?ds \<noteq> 0" using assms digit_zero [of "hd t"] by (auto simp: list_all_iff)
  have b: "10 ^ (length t - 1) \<le> dec_val t" "dec_val t < 10 ^ length t"
    using dsum_bounds(1) [OF l] dsum_bounds(2) [OF n] by (simp_all add: dec_val_def rdec_dsum)
  then show "ndigits (int (dec_val t)) = int (length t)" using assms(2) by (intro ndigits_unique) auto
  show "dec_val t \<noteq> 0" using b(1) by (metis le_zero_eq power_not_zero zero_neq_numeral)
qed

lemma dec_val_append: "dec_val (s @ t) = dec_val s * 10 ^ length t + dec_val t"
  by (simp add: dec_val_def rdec_append)

lemma dec_val_zeros: "dec_val (replicate n CHR ''0'' @ t) = dec_val t"
proof -
  have "rdec (replicate n CHR ''0'') = 0" by (induction n) (auto simp: digit_val_def)
  then show ?thesis by (simp add: dec_val_def rdec_append)
qed

lemma leading_zeros:
  assumes "list_all isdigit t" "t \<noteq> []" "last t \<noteq> CHR ''0''"
  shows "ndigits (int (dec_val t)) + int (length (takeWhile (\<lambda>c. c = CHR ''0'') t)) = int (length t)" "dec_val t \<noteq> 0"
proof -
  let ?z = "takeWhile (\<lambda>c. c = CHR ''0'') t" and ?u = "dropWhile (\<lambda>c. c = CHR ''0'') t"
  have z: "?z = replicate (length ?z) CHR ''0''"
    by (rule replicate_length_same [symmetric]) (blast dest: set_takeWhileD)
  have u: "?u \<noteq> []"
  proof
    assume "?u = []"
    then have "\<forall>c \<in> set t. c = CHR ''0''" by (simp only: dropWhile_eq_Nil_conv)
    with assms(2,3) show False using last_in_set by blast
  qed
  then have h: "hd ?u \<noteq> CHR ''0''" using hd_dropWhile by blast
  have "dec_val t = dec_val ?u" using dec_val_zeros [of "length ?z" ?u] z by (metis takeWhile_dropWhile_id)
  moreover have "list_all isdigit ?u" using assms(1) by (auto simp: list_all_iff dest: set_dropWhileD)
  moreover have "length t = length ?z + length ?u" by (metis length_append takeWhile_dropWhile_id)
  ultimately show "ndigits (int (dec_val t)) + int (length ?z) = int (length t)" "dec_val t \<noteq> 0"
    using dec_val_bounds [of ?u] u h by simp_all
qed

section \<open>The significand\<close>

lemma whole_number_ok:
  assumes "big_ok v" "BigInt_string s = Inr v"
  shows "whole_number s = Inr (v, ndigits (bval v), 0)"
  using assms big_digits_val [OF assms(1)] ndigits_range [OF big_ok_facts(6) [OF assms(1)]]
  by (simp add: whole_number_def timesTenToThe_def)

lemma with_fraction_ok:
  assumes "list_all isdigit w" "w \<noteq> []" "list_all isdigit fr" "fr \<noteq> []" "last fr \<noteq> CHR ''0''" "length fr \<le> 31"
    and v: "big_ok v" "\<bar>bval v\<bar> = int (dec_val (w @ fr))"
  shows "with_fraction ((if bval v < 0 then ''-'' else []) @ w) fr = Inr (v, ndigits (bval v), int (length fr))"
proof -
  let ?W = "int (dec_val w)" and ?F = "int (dec_val fr)"
  have sum: "\<bar>bval v\<bar> = ?W * 10 ^ length fr + ?F" using v(2) by (simp add: dec_val_append)
  have R: "in_range (?W * 10 ^ length fr + ?F)" using big_ok_facts(6) [OF v(1)] sum by (simp add: in_range_def)
  have "?W \<le> ?W * 10 ^ length fr" by (simp add: mult_le_cancel_left1)
  then have rW: "in_range ?W" "in_range ?F" "in_range (?W * 10 ^ length fr)" using in_range_mono [OF R] by simp_all
  obtain f where f: "BigInt_string fr = Inr f" "big_ok f" "bval f = ?F"
    using BigInt_string_digits [OF assms(3)] rW by (auto dest: yieldsD)
  obtain i where i: "BigInt_string w = Inr i" "big_ok i" "bval i = ?W"
    using BigInt_string_digits [OF assms(1)] rW by (auto dest: yieldsD)
  obtain t where t: "timesTenToThe i (int (length fr)) = Inr t" "big_ok t" "bval t = ?W * 10 ^ length fr"
    using timesTenToThe_val [OF i(2), of "int (length fr)"] i(3) rW by (auto dest: yieldsD)
  obtain a where a: "big_add t f = Inr a" "big_ok a" "bval a = \<bar>bval v\<bar>"
    using add_exact [OF t(2) f(2)] t(3) f(3) R sum by (auto dest: yieldsD)
  have pos: "bval v > 0 \<or> bval v < 0" 
  proof -
    have "0 \<le> ?W * 10 ^ length fr" "0 < ?F" using leading_zeros(2) [OF assms(3-5)] by simp_all
    with sum show ?thesis by linarith
  qed
  have fin: "(if bval v < 0 then rbind (big_add t f) (\<lambda>v. big_mul v (BigInt_int (- 1))) else big_add t f) = Inr v"
  proof (cases "bval v < 0")
    case True
    have "yields (big_mul a (BigInt_int (- 1))) (bval v)" using mul_exact [OF a(2), of "BigInt_int (- 1)"] a(3) True by simp
    then show ?thesis using yields_ok [OF v(1)] True a(1) by simp
  next
    case False
    then show ?thesis using a big_ok_unique [OF a(2) v(1)] by simp
  qed
  have st: "sign t \<noteq> Neg" using big_ok_facts(4) [OF t(2)] t(3) by (simp add: not_less)
  have hd: "hd fr \<noteq> CHR ''-''" "hd w \<noteq> CHR ''-''" using assms(1-4) digit_not by (auto simp: list_all_iff)
  have z: "nat (ndigits ?F) + length (takeWhile (\<lambda>c. c = CHR ''0'') fr) = length fr"
    using leading_zeros(1) [OF assms(3-5)] ndigits_range [OF rW(2)] by linarith
  note dg = big_digits_val [OF f(2), unfolded f(3)] big_digits_val [OF v(1)]
  have nd: "to_ushort (int (nat (ndigits (bval v)))) = ndigits (bval v)" using ndigits_range [OF big_ok_facts(6) [OF v(1)]] by simp
  define whole where "whole = (if bval v < 0 then ''-'' else []) @ w"
  have wh: "whole \<noteq> []" "whole \<noteq> ''-''" "hd whole = CHR ''-'' \<longleftrightarrow> bval v < 0" "bval v < 0 \<Longrightarrow> tl whole = w" "\<not> bval v < 0 \<Longrightarrow> whole = w"
    using assms(2) hd by (auto simp: whole_def)
  have sc: "to_short (int (nat (ndigits ?F) + length (takeWhile (\<lambda>c. c = CHR ''0'') fr))) = int (length fr)"
      "to_ushort (int (length fr)) = int (length fr)"
    unfolding z using assms(6) by simp_all
  have "with_fraction whole fr = Inr (v, ndigits (bval v), int (length fr))"
    unfolding with_fraction_def Let_def drop_last_zeros_id [OF assms(4,5)] big_add_assign_def big_mul_assign_def
    using hd(1) f(1) dg nd sc wh(1-3) i(1) t(1) st a(1) fin wh(4,5) by (cases "bval v < 0") simp_all
  then show ?thesis by (simp only: whole_def)
qed

section \<open>The text of a number\<close>

text \<open>The digits of the number before and after the point.\<close>

definition split_digits :: "string \<Rightarrow> nat \<Rightarrow> string \<times> string" where
  "split_digits T s = (if s < length T then (take (length T - s) T, drop (length T - s) T)
     else (''0'', replicate (s - length T) CHR ''0'' @ T))"

lemma split_digits_ok:
  assumes "split_digits T s = (w, fr)" "list_all isdigit T" "T \<noteq> []" "last T \<noteq> CHR ''0''" "0 < s"
  shows "list_all isdigit w" "w \<noteq> []" "list_all isdigit fr" "fr \<noteq> []" "last fr \<noteq> CHR ''0''" "length fr = s"
    "dec_val (w @ fr) = dec_val T"
proof -
  have z: "dec_val (''0'' @ replicate n CHR ''0'' @ T) = dec_val T" for n
    using dec_val_zeros [of "Suc n" T] by simp
  have d0: "isdigit CHR ''0''" by (simp add: isdigit_def)
  show "list_all isdigit w" "w \<noteq> []" "list_all isdigit fr" "fr \<noteq> []" "last fr \<noteq> CHR ''0''" "length fr = s"
    "dec_val (w @ fr) = dec_val T"
    using assms z d0 by (auto simp: split_digits_def list_all_iff dest: in_set_takeD in_set_dropD split: if_splits)
qed

lemma to_string_text:
  assumes v: "big_ok (fixed_value f)" "big_toString (fixed_value f) = Inr ((if sign (fixed_value f) = Neg then ''-'' else []) @ T)"
    "list_all isdigit T" "T \<noteq> []" "hd T \<noteq> CHR ''0''" "length T \<le> 31" "sign (fixed_value f) \<noteq> Zero"
    and s: "0 \<le> fixed_scale f" "fixed_scale f \<le> 31" "fixed_digits f = int (length T)"
    and z: "0 < fixed_scale f \<Longrightarrow> last T \<noteq> CHR ''0''" and wf: "split_digits T (nat (fixed_scale f)) = (w, fr)"
  shows "to_string f = Inr ((if sign (fixed_value f) = Neg then ''-'' else []) @
    (if fixed_scale f = 0 then T else w @ ''.'' @ fr))"
proof -
  let ?sg = "if sign (fixed_value f) = Neg then ''-'' else []" and ?n = "int (length T)" and ?s = "fixed_scale f"
  have num: "(if sign (fixed_value f) = Neg then tl (?sg @ T) else ?sg @ T) = T" by simp
  consider "?s = 0" | "0 < ?s" "?s < ?n" | "?n \<le> ?s" "0 < ?s" using s(1) v(4) by fastforce
  then show ?thesis
  proof cases
    case 1
    have "print_loop T 0 (?n - ?s) False False = (T, False)" using 1 v(5) by (intro print_loop_plain) auto
    then show ?thesis using 1 v num by (simp add: to_string_def Let_def)
  next
    case 2
    have "print_loop T 0 (?n - ?s) False False = (take (nat (?n - ?s - 0)) T @ ''.'' @ drop (nat (?n - ?s - 0)) T, True)"
      using 2 v(5) by (intro print_loop_dot) auto
    moreover have "nat (?n - ?s - 0) = length T - nat ?s" using 2 by linarith
    ultimately have p: "print_loop T 0 (?n - ?s) False False = (w @ ''.'' @ fr, True)" using wf 2 by (auto simp: split_digits_def nat_less_iff)
    have fr: "fr \<noteq> []" "last fr \<noteq> CHR ''0''" "length (w @ fr) = length T"
      using split_digits_ok(4,5) [OF wf v(3,4) z] 2 wf by (auto simp: split_digits_def nat_less_iff)
    have "cut_zeros (?sg @ w @ ''.'' @ fr) = ?sg @ w @ ''.'' @ fr"
      using fr drop_last_zeros_id [of "?sg @ w @ ''.'' @ fr"] by (simp add: cut_zeros_def Let_def)
    then show ?thesis using 2 v num p fr by (simp add: to_string_def Let_def)
  next
    case 3
    have p: "print_loop T 0 (?n - ?s) True False = (T, True)" using v(5) by (intro print_loop_plain) auto
    have w: "w = ''0''" "fr = replicate (nat (?s - ?n)) CHR ''0'' @ T"
      using wf 3 by (auto simp: split_digits_def nat_diff_distrib split: if_splits)
    have "cut_zeros (?sg @ w @ ''.'' @ fr) = ?sg @ w @ ''.'' @ fr"
      using z [OF 3(2)] v(4) w drop_last_zeros_id [of "?sg @ w @ ''.'' @ fr"] by (simp add: cut_zeros_def Let_def)
    moreover have "nat (?s - ?n) + length T \<le> 31" using 3 s(2) by linarith
    ultimately show ?thesis using 3 v num p w s by (simp add: to_string_def Let_def)
  qed
qed

lemma from_string_text:
  assumes "big_ok v" "list_all isdigit T" "T \<noteq> []" "\<bar>bval v\<bar> = int (dec_val T)" "ndigits (bval v) \<le> 31" "s \<le> 31"
    "bval v \<noteq> 0" "0 < s \<Longrightarrow> last T \<noteq> CHR ''0''" "split_digits T s = (w, fr)"
  shows "from_string ((if bval v < 0 then ''-'' else []) @ (if s = 0 then T else w @ ''.'' @ fr)) =
    Inr \<lparr>fixed_digits = ndigits (bval v), fixed_scale = int s, fixed_value = v\<rparr>"
proof -
  let ?sg = "if bval v < 0 then ''-'' else []" and ?x = "(if s = 0 then T else w @ ''.'' @ fr)"
  have no_dot: "CHR ''.'' \<notin> set ?sg" "list_all isdigit t \<Longrightarrow> CHR ''.'' \<notin> set t" for t using digit_not by (auto simp: list_all_iff)
  have "significand (?sg @ ?x) = Inr (v, ndigits (bval v), int s) \<and> list_all plain_char (?sg @ ?x)"
  proof (cases "s = 0")
    case True
    have "yields (BigInt_string (?sg @ T)) (bval v)"
    proof (cases "bval v < 0")
      case True
      then have e: "bval v = - int (dec_val T)" "dec_val T \<noteq> 0" using assms(4) by auto
      then show ?thesis using BigInt_string_negative [OF assms(2)] True by simp
    next
      case False
      then show ?thesis using BigInt_string_digits [OF assms(2)] assms(4) by simp
    qed
    then have "whole_number (?sg @ T) = Inr (v, ndigits (bval v), 0)" using assms(1) by (intro whole_number_ok yields_ok)
    moreover have "strchr (?sg @ T) CHR ''.'' = None" using no_dot assms(2) by (intro strchr_none) auto
    ultimately have "significand (?sg @ ?x) = Inr (v, ndigits (bval v), int s)" using True by (simp add: significand_def)
    moreover have "list_all plain_char (?sg @ ?x)" using True assms(2) by (auto simp: plain_char_def list_all_iff)
    ultimately show ?thesis ..
  next
    case False
    note sd = split_digits_ok [OF assms(9,2,3) assms(8)]
    have "strchr ((?sg @ w) @ ''.'' @ fr) CHR ''.'' = Some (length (?sg @ w))"
      using no_dot sd(1) False strchr_first [of "CHR ''.''" "?sg @ w" fr] by simp
    moreover have "with_fraction (?sg @ w) fr = Inr (v, ndigits (bval v), int (length fr))"
      using sd False assms by (intro with_fraction_ok) auto
    ultimately have "significand (?sg @ ?x) = Inr (v, ndigits (bval v), int s)"
      using False sd by (simp add: significand_def)
    moreover have "list_all plain_char (?sg @ ?x)" using False sd by (auto simp: plain_char_def list_all_iff)
    ultimately show ?thesis ..
  qed
  then have sig: "significand (?sg @ ?x) = Inr (v, ndigits (bval v), int s)" and pl: "list_all plain_char (?sg @ ?x)" by auto
  have ne: "?sg @ ?x \<noteq> []" using assms(3) by auto
  show ?thesis using extract_plain [OF ne pl] sig assms(5,6)
    by (simp add: from_string_def extractFromString_def Let_def)
qed

section \<open>Property\<close>



lemma digits_unique:
  "list_all (\<lambda>d. d < 10) ds \<Longrightarrow> list_all (\<lambda>d. d < 10) es \<Longrightarrow> (ds \<noteq> [] \<longrightarrow> last ds \<noteq> 0) \<Longrightarrow> (es \<noteq> [] \<longrightarrow> last es \<noteq> 0) \<Longrightarrow>
   dsum ds = dsum es \<Longrightarrow> ds = es"
proof (induction ds arbitrary: es)
  case Nil
  then show ?case using dsum_bounds(2) [of es] by (cases "es = []") auto
next
  case (Cons d ds)
  have "10 ^ (length (d # ds) - 1) \<le> dsum (d # ds)" using Cons.prems(3) by (intro dsum_bounds(2)) auto
  then have "dsum (d # ds) \<noteq> 0" by (metis le_zero_eq power_not_zero zero_neq_numeral)
  then obtain e es' where es: "es = e # es'" using Cons.prems(5) by (cases es) auto
  have "d + 10 * dsum ds = e + 10 * dsum es'" "d < 10" "e < 10" using Cons.prems es by auto
  then have "(d + 10 * dsum ds) mod 10 = (e + 10 * dsum es') mod 10" "d < 10" "e < 10" by simp_all
  then have "d = e" by simp
  moreover from this have "dsum ds = dsum es'" using Cons.prems(5) es by simp
  moreover have "ds \<noteq> [] \<longrightarrow> last ds \<noteq> 0" "es' \<noteq> [] \<longrightarrow> last es' \<noteq> 0" using Cons.prems(3,4) es by auto
  moreover have "list_all (\<lambda>d. d < 10) ds" "list_all (\<lambda>d. d < 10) es'" using Cons.prems(1,2) es by auto
  ultimately show ?case using Cons.IH [of es'] es by blast
qed

text \<open>A text that starts with the point loses the zeros after it: the digit count that \<^verbatim>\<open>extractFromString\<close> stores for it
  includes them, and \<^verbatim>\<open>to_string\<close> prints only as many zeros as the scale exceeds that count. The number \<^verbatim>\<open>.05\<close> is printed
  as \<^verbatim>\<open>0.5\<close>.\<close>

theorem fixed_point_first:
  assumes "list_all isdigit fr" "fr \<noteq> []" "last fr \<noteq> CHR ''0''" "length fr \<le> 31"
  shows "\<exists>f. from_string (''.'' @ fr) = Inr f \<and> fval f = real (dec_val fr) / 10 ^ length fr \<and>
    to_string f = Inr (''0.'' @ dropWhile (\<lambda>c. c = CHR ''0'') fr)"
proof -
  let ?u = "dropWhile (\<lambda>c. c = CHR ''0'') fr" and ?n = "int (length fr)" and ?F = "int (dec_val fr)"
  note lz = leading_zeros [OF assms(1-3)]
  have len: "length fr = length (takeWhile (\<lambda>c. c = CHR ''0'') fr) + length ?u" by (metis length_append takeWhile_dropWhile_id)
  then have nd: "ndigits ?F = int (length ?u)" using lz(1) by linarith
  have "?F < 10 ^ nat (ndigits ?F)" using ndigits_bounds(2) [of ?F] lz(2) by simp
  also have "\<dots> \<le> 10 ^ 31" using nd len assms(4) by (intro power_increasing) auto
  finally have "in_range ?F" by (simp add: in_range_def MAG_SIZE_def)
  then obtain v where v: "BigInt_string fr = Inr v" "big_ok v" "bval v = ?F"
    using BigInt_string_digits [OF assms(1)] by (auto dest: yieldsD)
  define f where "f = \<lparr>fixed_digits = ?n, fixed_scale = ?n, fixed_value = v\<rparr>"
  have hd: "hd fr \<noteq> CHR ''-''" using assms(1,2) digit_not by (cases fr) auto
  have "with_fraction [] fr = Inr (v, ?n, ?n)"
    using hd v(1) big_digits_val [OF v(2)] v(3) nd len assms(4) unfolding with_fraction_def Let_def drop_last_zeros_id [OF assms(2,3)]
    by simp
  then have "significand (''.'' @ fr) = Inr (v, ?n, ?n)" using assms(2) by (simp add: significand_def)
  moreover have "list_all plain_char (''.'' @ fr)" using assms(1) by (auto simp: plain_char_def list_all_iff)
  ultimately have "from_string (''.'' @ fr) = Inr f"
    using extract_plain [of "''.'' @ fr"] assms(4) by (simp add: from_string_def extractFromString_def Let_def f_def)
  moreover have "to_string f = Inr (''0.'' @ ?u)"
  proof -
    have "mval v \<noteq> 0" "sign v = Pos" "mval v = dec_val fr"
      using v(3) lz(2) big_ok_facts(3) [OF v(2)] big_ok_facts(5) [OF v(2)] by simp_all
    then obtain ds where d: "big_toString v = Inr (digits_text ds)" "list_all (\<lambda>d. d < 10) ds" "dsum ds = dec_val fr" "ds \<noteq> []" "last ds \<noteq> 0"
      using toString_digits [of v] v(2) by (auto simp: big_ok_def)
    have un: "?u \<noteq> []" "hd ?u \<noteq> CHR ''0''" "list_all isdigit ?u" "last ?u = last fr"
    proof -
      have "0 < ndigits ?F" using ndigits_range \<open>in_range ?F\<close> by blast
      then show a: "?u \<noteq> []" using nd by (metis int_ops(1) less_irrefl list.size(3))
      show "hd ?u \<noteq> CHR ''0''" using hd_dropWhile [OF a] .
      show "list_all isdigit ?u" using assms(1) by (auto simp: list_all_iff dest: set_dropWhileD)
      show "last ?u = last fr" using a by (metis last_appendR takeWhile_dropWhile_id)
    qed
    have "dec_val ?u = dec_val fr"
    proof -
      have "takeWhile (\<lambda>c. c = CHR ''0'') fr = replicate (length (takeWhile (\<lambda>c. c = CHR ''0'') fr)) CHR ''0''"
        by (rule replicate_length_same [symmetric]) (blast dest: set_takeWhileD)
      then show ?thesis by (metis dec_val_zeros takeWhile_dropWhile_id)
    qed
    then have "dsum ds = dsum (map digit_val (rev ?u))" using d(3) by (simp add: dec_val_def rdec_dsum)
    moreover have "list_all (\<lambda>d. d < 10) (map digit_val (rev ?u))" using un(3) by (auto simp: list_all_iff intro: digit_val_lt)
    moreover have "last (map digit_val (rev ?u)) \<noteq> 0"
    proof -
      have "isdigit (hd ?u)" using un(1,3) list.set_sel(1) unfolding list_all_iff by blast
      moreover have "last (map digit_val (rev ?u)) = digit_val (hd ?u)" using un(1) by (subst last_map) (simp_all add: last_rev)
      ultimately show ?thesis using digit_zero un(2) by simp
    qed
    ultimately have "ds = map digit_val (rev ?u)" using digits_unique [OF d(2)] d(4,5) by blast
    then have T: "big_toString v = Inr ?u" using d(1) un(3) by (simp add: digits_text_def rev_map [symmetric] digit_text_id o_def)
    have p: "print_loop ?u 0 (int (length ?u) - ?n) True False = (?u, True)" using un by (intro print_loop_plain) auto
    have "cut_zeros (''0.'' @ ?u) = ''0.'' @ ?u"
      using un assms(3) drop_last_zeros_id [of "''0.'' @ ?u"] by (simp add: cut_zeros_def Let_def)
    then show ?thesis using T p len assms(4) \<open>sign v = Pos\<close> by (simp add: to_string_def f_def Let_def)
  qed
  ultimately show ?thesis using v(3) by (auto simp: f_def fval_def)
qed

theorem fixed_point_first_witness: "\<exists>f. from_string ''.05'' = Inr f \<and> fval f = 5 / 100 \<and> to_string f = Inr ''0.5''"
  using fixed_point_first [of "''05''"] by (simp add: isdigit_def dec_val_def digit_val_def)

end
