(* ===== verification/Poa_Queue.thy ===== *)
theory Poa_Queue
  imports Prelude "HOL-Library.Multiset"
begin

text \<open>
  Model of the request queue of a POA manager (poa/RequestQueue.C, RequestQueue.h, QueuedRequest.C): requests, the
  three comparators, and the queue with its bound. A \<^verbatim>\<open>std::priority_queue\<close> is a list with the element that
  \<^verbatim>\<open>top\<close> returns at its head.
\<close>

section \<open>Requests and comparators\<close>

text \<open>Of a request the queue reads the serial number, the priority range and the end time of its policy context
  (\<open>None\<close> where there is no context or no such policy) and the discard flag; \<open>req_id\<close> is the identity of the
  object.\<close>

record request =
  req_id :: nat
  serial :: int
  priority_range :: "(int \<times> int) option"
  end_time :: "nat option"
  mustDiscard :: bool

datatype comparator = TEMPORAL | PRIORITY | DEADLINE | NULL_REQUEST

definition temporal_less :: "request \<Rightarrow> request \<Rightarrow> bool" where
  "temporal_less request1 request2 \<longleftrightarrow> serial request1 < serial request2"

definition deadline_less :: "request \<Rightarrow> request \<Rightarrow> bool" where
  "deadline_less request1 request2 =
     (case end_time request1 of
        None \<Rightarrow> (case end_time request2 of None \<Rightarrow> serial request1 < serial request2 | Some _ \<Rightarrow> False)
      | Some val1 \<Rightarrow> (case end_time request2 of
            None \<Rightarrow> True
          | Some val2 \<Rightarrow> if val1 > val2 then False else if val1 = val2 then serial request1 < serial request2 else True))"

text \<open>The priority of a range is the half of the sum, rounded up.\<close>

definition priority_of :: "request \<Rightarrow> int" where
  "priority_of r = (case priority_range r of None \<Rightarrow> 0 | Some (mx, mn) \<Rightarrow> (mx + mn + 1) div 2)"

definition priority_less :: "request \<Rightarrow> request \<Rightarrow> bool" where
  "priority_less request1 request2 =
     (if priority_of request1 > priority_of request2 then True
      else if priority_of request1 = priority_of request2 then serial request1 < serial request2 else False)"

section \<open>The containers\<close>

text \<open>\<^verbatim>\<open>push\<close> of a priority queue: the new element goes in front of the first one that is less than it. The order of
  elements that compare equal is not fixed by the standard library; the model keeps the order of insertion.\<close>

fun pq_push :: "('a \<Rightarrow> 'a \<Rightarrow> bool) \<Rightarrow> 'a \<Rightarrow> 'a list \<Rightarrow> 'a list" where
  "pq_push lt x [] = [x]"
| "pq_push lt x (y # ys) = (if lt y x then x # y # ys else y # pq_push lt x ys)"

fun push_request :: "comparator \<Rightarrow> request \<Rightarrow> request list \<Rightarrow> request list" where
  "push_request TEMPORAL r q = pq_push temporal_less r q"
| "push_request PRIORITY r q = pq_push priority_less r q"
| "push_request DEADLINE r q = pq_push deadline_less r q"
| "push_request NULL_REQUEST r q = q @ [r]"

fun take_request :: "request list \<Rightarrow> (request \<times> request list) option" where
  "take_request [] = None"
| "take_request (r # q) = Some (r, q)"

section \<open>The queue\<close>

record queue =
  q_items :: "request list"
  q_comparator :: comparator
  q_deactivation :: bool
  q_maxAvailable :: ulonglong

definition RequestQueue :: "ulong \<Rightarrow> ulong \<Rightarrow> comparator \<Rightarrow> queue" where
  "RequestQueue maxQueued maxThreads type =
     \<lparr>q_items = [], q_comparator = type, q_deactivation = False, q_maxAvailable = ucast (maxQueued + maxThreads)\<rparr>"

definition queue_size :: "queue \<Rightarrow> ulong" where
  "queue_size q = word_of_nat (length (q_items q))"

text \<open>\<^verbatim>\<open>add\<close>: the bound is computed in \<^verbatim>\<open>unsigned long\<close>, so that it wraps when more threads are counted active than it
  allows. The result tells whether the request was queued; otherwise it is answered with \<^verbatim>\<open>TRANSIENT\<close> and
  destroyed.\<close>

definition queue_full :: "queue \<Rightarrow> ulong \<Rightarrow> bool" where
  "queue_full q actives \<longleftrightarrow> q_deactivation q \<or> ucast (queue_size q) \<ge> q_maxAvailable q - ucast actives"

definition queue_add :: "queue \<Rightarrow> ulong \<Rightarrow> request \<Rightarrow> queue \<times> bool" where
  "queue_add q actives r =
     (if queue_full q actives then (q, False)
      else (q\<lparr>q_items := push_request (q_comparator q) r (q_items q)\<rparr>, True))"

text \<open>\<^verbatim>\<open>get\<close> when it does not wait, and after the wait: the first request, or none.\<close>

definition queue_get :: "queue \<Rightarrow> queue \<times> request option" where
  "queue_get q = (case take_request (q_items q) of None \<Rightarrow> (q, None) | Some (r, rest) \<Rightarrow> (q\<lparr>q_items := rest\<rparr>, Some r))"

definition queue_waits :: "queue \<Rightarrow> bool" where
  "queue_waits q \<longleftrightarrow> q_items q = [] \<and> \<not> q_deactivation q"

definition queue_deactivate :: "queue \<Rightarrow> queue" where
  "queue_deactivate q = (if q_deactivation q then q else q\<lparr>q_deactivation := True\<rparr>)"

text \<open>\<^verbatim>\<open>discardAll\<close> marks every request and takes it out of the queue; the second result are the marked requests.\<close>

definition discardAll :: "queue \<Rightarrow> queue \<times> request list" where
  "discardAll q = (q\<lparr>q_items := []\<rparr>, map (\<lambda>r. r\<lparr>mustDiscard := True\<rparr>) (q_items q))"

definition setComparator :: "queue \<Rightarrow> comparator \<Rightarrow> queue \<times> request list" where
  "setComparator q type =
     (if q_comparator q \<noteq> type then (let (q, dropped) = discardAll q in (q\<lparr>q_comparator := type\<rparr>, dropped))
      else (q, []))"

section \<open>Interfaces\<close>

text \<open>A container of requests: what \<^verbatim>\<open>push\<close> promises its clients.\<close>

locale request_container =
  fixes push :: "'a \<Rightarrow> 'a list \<Rightarrow> 'a list"
  assumes push_mset: "mset (push x q) = add_mset x (mset q)"
begin

lemma push_length: "length (push x q) = Suc (length q)"
  using push_mset [of x q] by (metis size_add_mset size_mset)

lemma push_set: "set (push x q) = insert x (set q)"
  using push_mset [of x q] by (metis set_mset_add_mset_insert set_mset_mset)

lemma push_all: "mset (fold push xs q) = mset q + mset xs"
  by (induction xs arbitrary: q) (auto simp: push_mset)

end

text \<open>A comparator: the strict order of a \<^verbatim>\<open>std::priority_queue\<close>. The element at the head is one that no other exceeds.\<close>

locale heap_order =
  fixes lt :: "'a \<Rightarrow> 'a \<Rightarrow> bool"
  assumes lt_irrefl: "\<not> lt x x"
    and lt_trans: "lt x y \<Longrightarrow> lt y z \<Longrightarrow> lt x z"
begin

definition heap :: "'a list \<Rightarrow> bool" where
  "heap q \<longleftrightarrow> sorted_wrt (\<lambda>x y. \<not> lt x y) q"

lemma heap_Nil: "heap []"
  by (simp add: heap_def)

lemma mset_pq_push: "mset (pq_push lt x q) = add_mset x (mset q)"
  by (induction q) auto

lemma set_pq_push: "set (pq_push lt x q) = insert x (set q)"
  by (induction q) auto

lemma heap_push: "heap q \<Longrightarrow> heap (pq_push lt x q)"
proof (induction q)
  case (Cons y ys)
  show ?case
  proof (cases "lt y x")
    case True
    have "\<not> lt x z" if "z \<in> set ys" for z
      using Cons.prems that lt_trans [OF True] by (auto simp: heap_def)
    moreover have "\<not> lt x y" using lt_trans [OF True] lt_irrefl by blast
    ultimately show ?thesis using True Cons.prems by (simp add: heap_def)
  next
    case False
    then show ?thesis using Cons by (auto simp: heap_def set_pq_push)
  qed
qed (simp add: heap_def)

lemma heap_top: "heap (t # q) \<Longrightarrow> y \<in> set q \<Longrightarrow> \<not> lt t y"
  by (simp add: heap_def)

lemma heap_pop: "heap (t # q) \<Longrightarrow> heap q"
  by (simp add: heap_def)

lemma push_greatest: "(\<And>y. y \<in> set q \<Longrightarrow> lt y x) \<Longrightarrow> pq_push lt x q = x # q"
  by (cases q) auto

end

sublocale heap_order < heap_container: request_container "pq_push lt"
  by unfold_locales (rule mset_pq_push)

interpretation fifo: request_container "\<lambda>r q. q @ [r]"
  by unfold_locales simp

interpretation temporal: heap_order temporal_less
  by unfold_locales (auto simp: temporal_less_def)

interpretation priority: heap_order priority_less
  by unfold_locales (auto simp: priority_less_def split: if_splits)

interpretation deadline: heap_order deadline_less
  by unfold_locales (auto simp: deadline_less_def split: option.splits if_splits)

interpretation requests: request_container "push_request c" for c
  by unfold_locales (cases c; simp add: temporal.mset_pq_push priority.mset_pq_push deadline.mset_pq_push)

section \<open>The order of the queue\<close>

fun comparator_less :: "comparator \<Rightarrow> request \<Rightarrow> request \<Rightarrow> bool" where
  "comparator_less TEMPORAL = temporal_less"
| "comparator_less PRIORITY = priority_less"
| "comparator_less DEADLINE = deadline_less"
| "comparator_less NULL_REQUEST = (\<lambda>_ _. False)"

definition queue_ok :: "queue \<Rightarrow> bool" where
  "queue_ok q \<longleftrightarrow> sorted_wrt (\<lambda>x y. \<not> comparator_less (q_comparator q) x y) (q_items q)"

lemma push_ok:
  "sorted_wrt (\<lambda>x y. \<not> comparator_less c x y) q \<Longrightarrow> sorted_wrt (\<lambda>x y. \<not> comparator_less c x y) (push_request c r q)"
  using temporal.heap_push [of q r] priority.heap_push [of q r] deadline.heap_push [of q r]
  by (cases c) (auto simp: temporal.heap_def priority.heap_def deadline.heap_def sorted_wrt_append)

lemma queue_ok_ops [inv_intros]:
  "queue_ok (RequestQueue mq mt c)" "queue_ok q \<Longrightarrow> queue_ok (fst (queue_add q n r))" "queue_ok q \<Longrightarrow> queue_ok (fst (queue_get q))"
  "queue_ok q \<Longrightarrow> queue_ok (queue_deactivate q)" "queue_ok q \<Longrightarrow> queue_ok (fst (setComparator q c))"
proof -
  show "queue_ok (fst (queue_get q))" if "queue_ok q"
    using that by (cases "q_items q") (auto simp: queue_get_def queue_ok_def)
qed (auto simp: RequestQueue_def queue_ok_def queue_add_def queue_deactivate_def setComparator_def discardAll_def push_ok)

text \<open>The bound of the queue, as long as no more threads are counted active than it allows.\<close>

lemma queue_add_bound:
  assumes "ucast actives \<le> q_maxAvailable q" "length (q_items q) \<le> unat (q_maxAvailable q)" "unat (q_maxAvailable q) < 2 ^ 32"
  shows "length (q_items (fst (queue_add q actives r))) \<le> unat (q_maxAvailable q)"
proof (cases "queue_full q actives")
  case False
  have "length (q_items q) < 2 ^ 32" using assms by simp
  then have s: "unat (ucast (queue_size q) :: ulonglong) = length (q_items q)"
    by (simp add: queue_size_def unsigned_ucast_eq unsigned_of_nat take_bit_nat_eq_self)
  have "unat (ucast (queue_size q) :: ulonglong) < unat (q_maxAvailable q - ucast actives)"
    using False by (simp add: queue_full_def not_le flip: word_less_nat_alt)
  also have "\<dots> \<le> unat (q_maxAvailable q)" using assms(1) by (simp add: unat_sub)
  finally show ?thesis using s False requests.push_length [of "q_comparator q" r "q_items q"] by (simp add: queue_add_def)
qed (use assms in \<open>simp add: queue_add_def\<close>)

section \<open>Property\<close>

text \<open>The order in which the queue serves requests is the reverse of the one the comparators are named after: of the
  queued requests \<^verbatim>\<open>get\<close> returns, with the temporal comparator, the last one issued; with the priority comparator,
  one of the lowest priority; with the deadline comparator, the one with the latest end time, and one without an end
  time before all others.\<close>

theorem queue_order_reversed:
  assumes "queue_ok q" "queue_get q = (q', Some r)" "y \<in> set (q_items q')"
  shows "(q_comparator q = TEMPORAL \<longrightarrow> serial y \<le> serial r) \<and>
    (q_comparator q = PRIORITY \<longrightarrow> priority_of r \<le> priority_of y) \<and>
    (q_comparator q = DEADLINE \<longrightarrow> (case end_time r of None \<Rightarrow> True | Some d \<Rightarrow> \<exists>e \<le> d. end_time y = Some e))"
proof -
  obtain q2 where q: "q_items q = r # q2" "q_items q' = q2"
    using assms(2) by (cases "q_items q") (auto simp: queue_get_def)
  then have "\<not> comparator_less (q_comparator q) r y" using assms(1,3) by (simp add: queue_ok_def)
  then show ?thesis
    by (auto simp: temporal_less_def priority_less_def deadline_less_def split: option.splits if_splits)
qed

definition sample_request :: "nat \<Rightarrow> int \<Rightarrow> request" where
  "sample_request i n = \<lparr>req_id = i, serial = n, priority_range = None, end_time = None, mustDiscard = False\<rparr>"

theorem queue_order_reversed_witness:
  "\<exists>q q'. q = fst (queue_add (fst (queue_add (RequestQueue 10 5 TEMPORAL) 0 (sample_request 1 1))) 0 (sample_request 2 2)) \<and>
     queue_get q = (q', Some (sample_request 2 2)) \<and> serial (sample_request 1 1) \<le> serial (sample_request 2 2)"
proof -
  let ?q = "fst (queue_add (fst (queue_add (RequestQueue 10 5 TEMPORAL) 0 (sample_request 1 1))) 0 (sample_request 2 2))"
  let ?q' = "?q\<lparr>q_items := [sample_request 1 1]\<rparr>"
  have items: "q_items ?q = [sample_request 2 2, sample_request 1 1]" "q_comparator ?q = TEMPORAL"
    by (simp_all add: queue_add_def queue_full_def RequestQueue_def queue_size_def sample_request_def temporal_less_def not_le)
  then have get: "queue_get ?q = (?q', Some (sample_request 2 2))" by (simp add: queue_get_def)
  have ok: "queue_ok ?q" by (intro inv_intros)
  from queue_order_reversed [OF ok get, of "sample_request 1 1"] items get show ?thesis by auto
qed

end
