(* ===== verification/Poa_Pool.thy ===== *)
theory Poa_Pool
  imports Prelude
begin

text \<open>
  Model of the configuration of a POA manager, its thread pool and the waiter for the completion of its requests
  (poa/POAManagerConf.C, poa/ThreadPool.C, poa/CompletionWaiter.C). The counters are 32-bit words, as in the code.
\<close>

section \<open>Configuration\<close>

record conf =
  min_threads :: ulong
  max_threads :: ulong
  max_queued_requests :: ulong
  starving_time :: ulong
  thread_stack_size :: ulong
  bound_threads :: bool

text \<open>The setters. A test for a negative unsigned number is never true; the listener is told of a change of the number
  of threads by the caller, see \<open>set_min_threads\<close> and \<open>set_max_threads\<close>.\<close>

definition setMinThreads :: "ulong \<Rightarrow> conf \<Rightarrow> conf res" where
  "setMinThreads n c = (if n < 0 then Inl BAD_PARAM else if n > max_threads c then Inl BAD_PARAM else Inr (c\<lparr>min_threads := n\<rparr>))"

definition setMaxThreads :: "ulong \<Rightarrow> conf \<Rightarrow> conf res" where
  "setMaxThreads n c = (if n < min_threads c then Inl BAD_PARAM else Inr (c\<lparr>max_threads := n\<rparr>))"

definition setMaxQueuedRequests :: "ulong \<Rightarrow> conf \<Rightarrow> conf res" where
  "setMaxQueuedRequests n c = (if n < max_queued_requests c then Inl BAD_PARAM else Inr (c\<lparr>max_queued_requests := n\<rparr>))"

definition setStarvingTime :: "ulong \<Rightarrow> conf \<Rightarrow> conf res" where
  "setStarvingTime n c = (if n < 0 then Inl BAD_PARAM else Inr (c\<lparr>starving_time := n\<rparr>))"

definition setThreadStackSize :: "ulong \<Rightarrow> conf \<Rightarrow> conf res" where
  "setThreadStackSize n c = (if n < 0 then Inl BAD_PARAM else Inr (c\<lparr>thread_stack_size := n\<rparr>))"

definition setBoundThread :: "bool \<Rightarrow> conf \<Rightarrow> conf" where
  "setBoundThread b c = c\<lparr>bound_threads := b\<rparr>"

section \<open>Thread pool\<close>

text \<open>The threads are numbers; \<open>pl_next\<close> is the number of the next one and \<open>pl_started\<close> the ones that the system has
  started.\<close>

record pool =
  pl_threads :: "nat list"
  pl_used :: ulong
  pl_actuallyUsed :: ulong
  pl_active :: ulong
  pl_deactivated :: bool
  pl_maxThreads :: ulong
  pl_minThreads :: ulong
  pl_next :: nat
  pl_started :: "nat list"

definition ThreadPool :: "conf \<Rightarrow> pool" where
  "ThreadPool c = \<lparr>pl_threads = [], pl_used = 0, pl_actuallyUsed = 0, pl_active = 0, pl_deactivated = False,
     pl_maxThreads = max_threads c, pl_minThreads = min_threads c, pl_next = 0, pl_started = []\<rparr>"

text \<open>What the system answers when a thread is created and started; an exception is caught and printed.\<close>

datatype spawn = SPAWNED | NOT_CREATED | NOT_STARTED

fun createThread :: "spawn \<Rightarrow> pool \<Rightarrow> pool" where
  "createThread SPAWNED p = p\<lparr>pl_threads := pl_threads p @ [pl_next p], pl_used := pl_used p + 1, pl_next := Suc (pl_next p),
     pl_started := pl_started p @ [pl_next p]\<rparr>"
| "createThread NOT_CREATED p = p"
| "createThread NOT_STARTED p = p\<lparr>pl_threads := pl_threads p @ [pl_next p], pl_next := Suc (pl_next p)\<rparr>"

definition createNewReader :: "spawn \<Rightarrow> pool \<Rightarrow> pool \<times> bool" where
  "createNewReader sp p =
     (if pl_used p < pl_maxThreads p \<and> pl_actuallyUsed p = pl_active p then (createThread sp p, True) else (p, False))"

definition setActive :: "bool \<Rightarrow> pool \<Rightarrow> pool" where
  "setActive firstTime p =
     (let p = p\<lparr>pl_active := pl_active p + 1\<rparr> in
      if firstTime then p\<lparr>pl_actuallyUsed := pl_actuallyUsed p + 1\<rparr> else p)"

definition setInactive :: "pool \<Rightarrow> pool" where
  "setInactive p = p\<lparr>pl_active := pl_active p - 1\<rparr>"

definition threadHasDied :: "nat \<Rightarrow> pool \<Rightarrow> pool" where
  "threadHasDied t p =
     p\<lparr>pl_threads := removeAll t (pl_threads p), pl_used := pl_used p - 1, pl_actuallyUsed := pl_actuallyUsed p - 1,
       pl_active := pl_active p - 1\<rparr>"

definition pool_deactivation :: "pool \<Rightarrow> pool" where
  "pool_deactivation p = p\<lparr>pl_deactivated := True\<rparr>"

definition threadCanDie :: "pool \<Rightarrow> bool" where
  "threadCanDie p \<longleftrightarrow> pl_deactivated p \<or> pl_used p > pl_minThreads p"

text \<open>\<^verbatim>\<open>minThreadsHasChanged\<close>: the loop takes the answer of the system for each thread from the list.\<close>

fun spawn_loop :: "spawn list \<Rightarrow> pool \<Rightarrow> pool res" where
  "spawn_loop outs p =
     (if pl_used p < pl_minThreads p then (case outs of [] \<Rightarrow> Inl NO_FUEL | sp # outs \<Rightarrow> spawn_loop outs (createThread sp p))
      else Inr p)"

declare spawn_loop.simps [simp del]

definition minThreadsHasChanged :: "conf \<Rightarrow> spawn list \<Rightarrow> pool \<Rightarrow> pool res" where
  "minThreadsHasChanged c outs p = spawn_loop outs (p\<lparr>pl_minThreads := min_threads c\<rparr>)"

text \<open>\<^verbatim>\<open>maxThreadsHasChanged\<close>: the iterator is the index \<open>i\<close>; it starts again after a removal.\<close>

function shrink_loop :: "nat \<Rightarrow> pool \<Rightarrow> pool" where
  "shrink_loop i p =
     (if pl_used p > pl_maxThreads p \<and> i < length (pl_threads p) then
        (if threadCanDie p then shrink_loop 0 (threadHasDied (pl_threads p ! i) p) else shrink_loop (Suc i) p)
      else p)"
  by pat_completeness auto
termination
proof (relation "measures [\<lambda>(i, p). length (pl_threads p), \<lambda>(i, p). length (pl_threads p) - i]")
  fix i and p :: pool assume "pl_used p > pl_maxThreads p \<and> i < length (pl_threads p)"
  then have "pl_threads p ! i \<in> set (pl_threads p)" by simp
  then have "length (removeAll (pl_threads p ! i) (pl_threads p)) < length (pl_threads p)" by (rule length_removeAll_less)
  then show "((0, threadHasDied (pl_threads p ! i) p), i, p) \<in> measures [\<lambda>(i, p). length (pl_threads p), \<lambda>(i, p). length (pl_threads p) - i]"
    by (simp add: threadHasDied_def)
qed auto

declare shrink_loop.simps [simp del]

definition maxThreadsHasChanged :: "conf \<Rightarrow> pool \<Rightarrow> pool" where
  "maxThreadsHasChanged c p = shrink_loop 0 (p\<lparr>pl_maxThreads := max_threads c\<rparr>)"

section \<open>Completion waiter\<close>

record waiter =
  active_requests :: ulong
  stop_waiting :: bool

definition CompletionWaiter :: waiter where
  "CompletionWaiter = \<lparr>active_requests = 0, stop_waiting = False\<rparr>"

definition beginRequest :: "waiter \<Rightarrow> waiter" where
  "beginRequest w = w\<lparr>active_requests := active_requests w + 1\<rparr>"

definition endRequest :: "waiter \<Rightarrow> waiter" where
  "endRequest w = w\<lparr>active_requests := active_requests w - 1\<rparr>"

definition stopWaiting :: "waiter \<Rightarrow> waiter" where
  "stopWaiting w = w\<lparr>stop_waiting := True\<rparr>"

text \<open>\<^verbatim>\<open>waitForCompletion\<close> stays in its loop while \<open>keeps_waiting\<close> holds, and then leaves the flag cleared.\<close>

definition keeps_waiting :: "waiter \<Rightarrow> bool" where
  "keeps_waiting w \<longleftrightarrow> active_requests w \<noteq> 0 \<and> \<not> stop_waiting w"

definition waitForCompletion :: "waiter \<Rightarrow> waiter option" where
  "waitForCompletion w = (if keeps_waiting w then None else Some (w\<lparr>stop_waiting := False\<rparr>))"

section \<open>Facts\<close>

lemma conf_min_max:
  "setMinThreads n c = Inr c' \<Longrightarrow> min_threads c' \<le> max_threads c'"
  "setMaxThreads n c = Inr c' \<Longrightarrow> min_threads c' \<le> max_threads c'"
  by (auto simp: setMinThreads_def setMaxThreads_def not_less split: if_splits)

text \<open>Enough successful starts bring the pool to its minimum.\<close>

lemma spawn_loop_reaches:
  "unat (pl_minThreads p) - unat (pl_used p) \<le> n \<Longrightarrow>
   \<exists>p'. spawn_loop (replicate n SPAWNED) p = Inr p' \<and> pl_minThreads p' = pl_minThreads p \<and> \<not> pl_used p' < pl_minThreads p \<and>
     pl_active p' = pl_active p \<and> pl_actuallyUsed p' = pl_actuallyUsed p"
proof (induction n arbitrary: p)
  case 0
  then show ?case by (auto simp: spawn_loop.simps word_less_nat_alt)
next
  case (Suc n)
  show ?case
  proof (cases "pl_used p < pl_minThreads p")
    case True
    then have "unat (pl_used p + 1) = Suc (unat (pl_used p))"
      using unat_bound(3) [of "pl_minThreads p"] by (simp add: word_less_nat_alt unat_word_ariths)
    then obtain p' where "spawn_loop (replicate n SPAWNED) (createThread SPAWNED p) = Inr p'" "pl_minThreads p' = pl_minThreads p"
        "\<not> pl_used p' < pl_minThreads p" "pl_active p' = pl_active p" "pl_actuallyUsed p' = pl_actuallyUsed p"
      using Suc.IH [of "createThread SPAWNED p"] Suc.prems by fastforce
    with True show ?thesis by (subst spawn_loop.simps) simp
  next
    case False
    then show ?thesis by (subst spawn_loop.simps) simp
  qed
qed

text \<open>After the loop of \<^verbatim>\<open>maxThreadsHasChanged\<close> either the pool fits its maximum, or no thread may die, or none is
  left.\<close>

lemma shrink_loop_result:
  "let p' = shrink_loop i p in \<not> pl_used p' > pl_maxThreads p' \<or> \<not> threadCanDie p' \<or> pl_threads p' = [] \<or> i > 0"
proof (induction i p rule: shrink_loop.induct)
  case (1 i p)
  show ?case
  proof (cases "pl_used p > pl_maxThreads p \<and> i < length (pl_threads p)")
    case True
    show ?thesis
    proof (cases "threadCanDie p")
      case die: True
      from 1(1) [OF True die] show ?thesis using True die by (subst shrink_loop.simps) (auto simp: Let_def)
    next
      case False
      have "shrink_loop j p = p" for j
        by (induction "length (pl_threads p) - j" arbitrary: j) (subst shrink_loop.simps; use False in auto)+
      then show ?thesis using False by (simp add: Let_def)
    qed
  next
    case False
    then show ?thesis by (subst shrink_loop.simps) (auto simp: Let_def)
  qed
qed

end
