(* ===== verification/Poa_Manager.thy ===== *)
theory Poa_Manager
  imports Poa_Queue Poa_Pool
begin

text \<open>
  Model of a POA manager and of the threads that execute its requests (poa/POAManagerImpl.C, poa/ExecThread.C): the
  operations of the manager, the loop of a thread cut at the points where it takes or releases a lock, and the
  transitions of the whole system, in which the steps of the threads and the calls of the application interleave.
\<close>

section \<open>State\<close>

datatype mgr_state = HOLDING | ACTIVE | DISCARDING | INACTIVE

datatype ordering = ORDER_ANY | ORDER_TEMPORAL | ORDER_PRIORITY | ORDER_DEADLINE

text \<open>Where a thread is in \<^verbatim>\<open>ExecThread::run\<close>: at the head of the loop, before \<^verbatim>\<open>get\<close>, waiting in it, after it, in
  \<^verbatim>\<open>checkState\<close>, waiting in it for a change of the state, in \<^verbatim>\<open>findPOA\<close> and \<^verbatim>\<open>execute\<close>, or past the end.\<close>

datatype pc = Loop | Getting | Waiting | Got "request option" | Checking request | Holding request | Executing request | Dead

record thread =
  th_firstTime :: bool
  th_deactivated :: bool
  th_pc :: pc

text \<open>What has become of a request: executed, answered with an exception, passed to another manager, or taken out of
  the queue by \<^verbatim>\<open>discardAll\<close>.\<close>

datatype fate = Executed nat | Answered nat | Bypassed nat | Dropped nat

fun fate_id :: "fate \<Rightarrow> nat" where
  "fate_id (Executed i) = i"
| "fate_id (Answered i) = i"
| "fate_id (Bypassed i) = i"
| "fate_id (Dropped i) = i"

text \<open>The last four fields record the history of the manager: the requests that were put, those of them that were
  queued, the ones that threads took, and the fates.\<close>

record manager =
  m_state :: mgr_state
  m_conf :: conf
  m_pool :: pool
  m_queue :: queue
  m_completion :: waiter
  m_destroyed :: bool
  m_registered :: bool
  m_queue_order :: ordering
  m_threads :: "nat \<Rightarrow> thread option"
  m_put :: "nat list"
  m_queued :: "nat list"
  m_taken :: "nat list"
  m_fates :: "fate list"

section \<open>Threads\<close>

definition ExecThread :: thread where
  "ExecThread = \<lparr>th_firstTime = True, th_deactivated = False, th_pc = Loop\<rparr>"

text \<open>The threads that a change of the pool has started, from the number \<open>n\<close> on.\<close>

definition start_threads :: "nat \<Rightarrow> pool \<Rightarrow> (nat \<Rightarrow> thread option) \<Rightarrow> nat \<Rightarrow> thread option" where
  "start_threads n p th = (\<lambda>t. if n \<le> t \<and> t \<in> set (pl_started p) then Some ExecThread else th t)"

definition set_thread :: "nat \<Rightarrow> thread \<Rightarrow> manager \<Rightarrow> manager" where
  "set_thread t th m = m\<lparr>m_threads := (m_threads m)(t := Some th)\<rparr>"

text \<open>\<^verbatim>\<open>_queue->get()\<close>, the part after the wait or without it.\<close>

definition take_from_queue :: "nat \<Rightarrow> thread \<Rightarrow> manager \<Rightarrow> manager" where
  "take_from_queue t th m =
     (let (q, r) = queue_get (m_queue m) in
      set_thread t (th\<lparr>th_pc := Got r\<rparr>)
        (m\<lparr>m_queue := q, m_taken := m_taken m @ (case r of None \<Rightarrow> [] | Some r \<Rightarrow> [req_id r])\<rparr>))"

text \<open>The loop of \<^verbatim>\<open>run\<close>.\<close>

definition run_enter :: "nat \<Rightarrow> thread \<Rightarrow> manager \<Rightarrow> manager option" where
  "run_enter t th m =
     (if th_pc th = Loop \<and> \<not> th_deactivated th then
        Some (set_thread t (th\<lparr>th_pc := Getting\<rparr>) (if th_firstTime th then m else m\<lparr>m_pool := setInactive (m_pool m)\<rparr>))
      else None)"

definition run_get :: "nat \<Rightarrow> thread \<Rightarrow> manager \<Rightarrow> manager option" where
  "run_get t th m =
     (if th_pc th = Getting then
        Some (if queue_waits (m_queue m) then set_thread t (th\<lparr>th_pc := Waiting\<rparr>) m else take_from_queue t th m)
      else None)"

text \<open>The end of the wait, by a notification or because the starving time has passed.\<close>

definition run_wake :: "nat \<Rightarrow> thread \<Rightarrow> manager \<Rightarrow> manager option" where
  "run_wake t th m = (if th_pc th = Waiting then Some (take_from_queue t th m) else None)"

definition run_active :: "nat \<Rightarrow> thread \<Rightarrow> manager \<Rightarrow> manager option" where
  "run_active t th m =
     (case th_pc th of
        Got r \<Rightarrow>
          (let m = m\<lparr>m_pool := setActive (th_firstTime th) (m_pool m)\<rparr> in
           Some (case r of
              Some r \<Rightarrow> set_thread t (th\<lparr>th_pc := Checking r\<rparr>) m
            | None \<Rightarrow> if threadCanDie (m_pool m) then set_thread t (th\<lparr>th_pc := Loop, th_deactivated := True\<rparr>) m
                     else set_thread t (th\<lparr>th_pc := Loop\<rparr>) m))
      | _ \<Rightarrow> None)"

text \<open>\<^verbatim>\<open>checkState\<close>: the thread waits while the manager is holding; the result tells whether the request is to be
  executed.\<close>

definition checkState :: "manager \<Rightarrow> request \<Rightarrow> bool option" where
  "checkState m r =
     (if m_state m = ACTIVE \<and> \<not> mustDiscard r then Some True
      else if m_state m = HOLDING then None
      else if m_state m = INACTIVE then Some False
      else if m_state m = DISCARDING \<or> mustDiscard r then Some False
      else None)"

text \<open>\<^verbatim>\<open>stateMutex.notifyAll\<close>: the threads that wait in \<^verbatim>\<open>checkState\<close> read the state again.\<close>

definition notify_state :: "manager \<Rightarrow> manager" where
  "notify_state m = m\<lparr>m_threads := (\<lambda>t. map_option
     (\<lambda>th. case th_pc th of Holding r \<Rightarrow> th\<lparr>th_pc := Checking r\<rparr> | _ \<Rightarrow> th) (m_threads m t))\<rparr>"

definition end_request :: "nat \<Rightarrow> thread \<Rightarrow> fate \<Rightarrow> manager \<Rightarrow> manager" where
  "end_request t th f m =
     set_thread t (th\<lparr>th_pc := Loop, th_firstTime := False\<rparr>) (m\<lparr>m_fates := m_fates m @ [f]\<rparr>)"

definition run_check :: "nat \<Rightarrow> thread \<Rightarrow> manager \<Rightarrow> manager option" where
  "run_check t th m =
     (case th_pc th of
        Checking r \<Rightarrow>
          (case checkState m r of
             None \<Rightarrow> Some (set_thread t (th\<lparr>th_pc := Holding r\<rparr>) m)
           | Some True \<Rightarrow> Some (set_thread t (th\<lparr>th_pc := Executing r\<rparr>) m)
           | Some False \<Rightarrow> Some (end_request t th (Answered (req_id r)) m))
      | _ \<Rightarrow> None)"

text \<open>The end of \<^verbatim>\<open>findPOA\<close> and \<^verbatim>\<open>execute\<close>: the request was executed, was answered with an exception, or belongs to
  another manager.\<close>

definition run_finish :: "(nat \<Rightarrow> fate) \<Rightarrow> nat \<Rightarrow> thread \<Rightarrow> manager \<Rightarrow> manager option" where
  "run_finish f t th m = (case th_pc th of Executing r \<Rightarrow> Some (end_request t th (f (req_id r)) m) | _ \<Rightarrow> None)"

definition run_exit :: "nat \<Rightarrow> thread \<Rightarrow> manager \<Rightarrow> manager option" where
  "run_exit t th m =
     (if th_pc th = Loop \<and> th_deactivated th then
        Some (set_thread t (th\<lparr>th_pc := Dead\<rparr>) (m\<lparr>m_pool := threadHasDied t (m_pool m)\<rparr>))
      else None)"

section \<open>Operations of the manager\<close>

text \<open>The constructor; \<open>outs\<close> are the answers of the system for the threads of the minimum, \<open>ord\<close> is the value that the
  order field happens to have, as the constructor does not set it.\<close>

definition POAManagerImpl :: "conf \<Rightarrow> spawn list \<Rightarrow> ordering \<Rightarrow> manager res" where
  "POAManagerImpl c outs ord =
     rbind (minThreadsHasChanged c outs (ThreadPool c)) (\<lambda>p.
       Inr \<lparr>m_state = HOLDING, m_conf = c, m_pool = p,
            m_queue = RequestQueue (max_queued_requests c) (max_threads c) NULL_REQUEST,
            m_completion = CompletionWaiter, m_destroyed = False, m_registered = True, m_queue_order = ord,
            m_threads = start_threads 0 p (\<lambda>_. None), m_put = [], m_queued = [], m_taken = [], m_fates = []\<rparr>)"

definition poa_put :: "spawn \<Rightarrow> request \<Rightarrow> manager \<Rightarrow> manager" where
  "poa_put sp r m =
     (let (q, queued) = queue_add (m_queue m) (pl_active (m_pool m)) r; m = m\<lparr>m_queue := q, m_put := m_put m @ [req_id r]\<rparr> in
      if queued then
        (let (p, created) = createNewReader sp (m_pool m) in
         m\<lparr>m_queued := m_queued m @ [req_id r], m_pool := p, m_threads := start_threads (pl_next (m_pool m)) p (m_threads m)\<rparr>)
      else m\<lparr>m_fates := m_fates m @ [Answered (req_id r)]\<rparr>)"

definition change_state :: "mgr_state \<Rightarrow> manager \<Rightarrow> manager res" where
  "change_state s m =
     (if m_destroyed m then Inl OBJECT_NOT_EXIST
      else if m_state m = INACTIVE then Inl AdapterInactive
      else Inr (if m_state m \<noteq> s then notify_state (m\<lparr>m_completion := stopWaiting (m_completion m), m_state := s\<rparr>) else m))"

definition activate :: "manager \<Rightarrow> manager res" where
  "activate m = change_state ACTIVE m"

text \<open>\<^verbatim>\<open>hold_requests\<close> and \<^verbatim>\<open>discard_requests\<close> change the state and then wait, when they are asked to and the caller is
  not itself a request of this ORB (\<open>conditionToWait\<close>). The wait is an operation of its own, as other threads run before
  it ends.\<close>

definition hold_requests :: "manager \<Rightarrow> manager res" where
  "hold_requests m = change_state HOLDING m"

definition discard_requests :: "manager \<Rightarrow> manager res" where
  "discard_requests m = change_state DISCARDING m"

definition wait_completion :: "manager \<Rightarrow> manager option" where
  "wait_completion m = (case waitForCompletion (m_completion m) of None \<Rightarrow> None | Some w \<Rightarrow> Some (m\<lparr>m_completion := w\<rparr>))"

text \<open>\<^verbatim>\<open>deactivate\<close> does not notify the threads that wait in \<^verbatim>\<open>checkState\<close>.\<close>

definition deactivate :: "manager \<Rightarrow> manager res" where
  "deactivate m =
     (if m_destroyed m then Inl OBJECT_NOT_EXIST
      else if m_state m = INACTIVE then Inl AdapterInactive
      else Inr (m\<lparr>m_completion := stopWaiting (m_completion m), m_pool := pool_deactivation (m_pool m),
                  m_queue := queue_deactivate (m_queue m), m_state := INACTIVE, m_registered := False\<rparr>))"

definition set_min_threads :: "ulong \<Rightarrow> spawn list \<Rightarrow> manager \<Rightarrow> manager res" where
  "set_min_threads n outs m =
     rbind (setMinThreads n (m_conf m)) (\<lambda>c. rbind (minThreadsHasChanged c outs (m_pool m)) (\<lambda>p.
       Inr (m\<lparr>m_conf := c, m_pool := p, m_threads := start_threads (pl_next (m_pool m)) p (m_threads m)\<rparr>)))"

definition set_max_threads :: "ulong \<Rightarrow> manager \<Rightarrow> manager res" where
  "set_max_threads n m =
     rbind (setMaxThreads n (m_conf m)) (\<lambda>c. Inr (m\<lparr>m_conf := c, m_pool := maxThreadsHasChanged c (m_pool m)\<rparr>))"

definition set_max_queued_requests :: "ulong \<Rightarrow> manager \<Rightarrow> manager res" where
  "set_max_queued_requests n m = rbind (setMaxQueuedRequests n (m_conf m)) (\<lambda>c. Inr (m\<lparr>m_conf := c\<rparr>))"

definition use_comparator :: "comparator \<Rightarrow> manager \<Rightarrow> manager" where
  "use_comparator c m =
     (let (q, dropped) = setComparator (m_queue m) c in
      m\<lparr>m_queue := q, m_fates := m_fates m @ map (\<lambda>r. Dropped (req_id r)) dropped\<rparr>)"

definition set_queue_order :: "ordering \<Rightarrow> manager \<Rightarrow> manager" where
  "set_queue_order order m =
     (if order = ORDER_PRIORITY \<and> m_queue_order m \<noteq> ORDER_PRIORITY then
        (use_comparator PRIORITY m)\<lparr>m_queue_order := ORDER_PRIORITY\<rparr>
      else if order = ORDER_DEADLINE \<and> m_queue_order m \<noteq> ORDER_DEADLINE then
        (use_comparator DEADLINE m)\<lparr>m_queue_order := ORDER_DEADLINE\<rparr>
      else if m_queue_order m \<noteq> ORDER_TEMPORAL \<or> m_queue_order m \<noteq> ORDER_ANY then use_comparator TEMPORAL m
      else m)"

definition begin_request :: "manager \<Rightarrow> manager" where
  "begin_request m = m\<lparr>m_completion := beginRequest (m_completion m)\<rparr>"

definition finish_request :: "manager \<Rightarrow> manager" where
  "finish_request m = m\<lparr>m_completion := endRequest (m_completion m)\<rparr>"

section \<open>Transitions\<close>

text \<open>One step of a thread.\<close>

inductive thread_step :: "nat \<Rightarrow> thread \<Rightarrow> manager \<Rightarrow> manager \<Rightarrow> bool" for t th m where
  enter: "run_enter t th m = Some m' \<Longrightarrow> thread_step t th m m'"
| get: "run_get t th m = Some m' \<Longrightarrow> thread_step t th m m'"
| wake: "run_wake t th m = Some m' \<Longrightarrow> thread_step t th m m'"
| active: "run_active t th m = Some m' \<Longrightarrow> thread_step t th m m'"
| check: "run_check t th m = Some m' \<Longrightarrow> thread_step t th m m'"
| finish: "run_finish f t th m = Some m' \<Longrightarrow> f \<in> {Executed, Answered, Bypassed} \<Longrightarrow> thread_step t th m m'"
| exit: "run_exit t th m = Some m' \<Longrightarrow> thread_step t th m m'"

inductive poa_step :: "manager \<Rightarrow> manager \<Rightarrow> bool" for m where
  threads: "m_threads m t = Some th \<Longrightarrow> thread_step t th m m' \<Longrightarrow> poa_step m m'"
| put: "poa_step m (poa_put sp r m)"
| activate: "activate m = Inr m' \<Longrightarrow> poa_step m m'"
| hold: "hold_requests m = Inr m' \<Longrightarrow> poa_step m m'"
| discard: "discard_requests m = Inr m' \<Longrightarrow> poa_step m m'"
| wait: "wait_completion m = Some m' \<Longrightarrow> poa_step m m'"
| deactivate: "deactivate m = Inr m' \<Longrightarrow> poa_step m m'"
| set_min: "set_min_threads n outs m = Inr m' \<Longrightarrow> poa_step m m'"
| set_max: "set_max_threads n m = Inr m' \<Longrightarrow> poa_step m m'"
| set_max_queued: "set_max_queued_requests n m = Inr m' \<Longrightarrow> poa_step m m'"
| set_order: "poa_step m (set_queue_order order m)"
| begin_req: "poa_step m (begin_request m)"
| finish_req: "poa_step m (finish_request m)"

inductive poa_steps :: "manager \<Rightarrow> manager \<Rightarrow> bool" for m where
  start: "poa_steps m m"
| step: "poa_steps m m' \<Longrightarrow> poa_step m' m'' \<Longrightarrow> poa_steps m m''"

inductive_cases thread_stepE: "thread_step t th m m'"
inductive_cases poa_stepE: "poa_step m m'"

lemma poa_steps_trans: "poa_steps m m' \<Longrightarrow> poa_steps m' m'' \<Longrightarrow> poa_steps m m''"
  by (rotate_tac, induction rule: poa_steps.induct) (auto intro: poa_steps.intros)

end
