(* ===== verification/Poa_Safety.thy ===== *)
theory Poa_Safety
  imports Poa_Manager
begin

text \<open>
  Invariants of the POA manager and its threads under every interleaving: no request is lost or taken twice, requests
  are served in the order in which they were put, none starts after the manager is deactivated.
\<close>

section \<open>The threads that exist\<close>

definition threads_ok :: "manager \<Rightarrow> bool" where
  "threads_ok m \<longleftrightarrow> (\<forall>t. m_threads m t \<noteq> None \<longrightarrow> t < pl_next (m_pool m)) \<and> (\<forall>t \<in> set (pl_started (m_pool m)). t < pl_next (m_pool m))"

text \<open>Changes of the pool that start threads: they only extend it.\<close>

definition pool_extends :: "pool \<Rightarrow> pool \<Rightarrow> bool" where
  "pool_extends p p' \<longleftrightarrow> pl_next p \<le> pl_next p' \<and>
     ((\<forall>t \<in> set (pl_started p). t < pl_next p) \<longrightarrow> (\<forall>t \<in> set (pl_started p'). t < pl_next p'))"

lemma pool_extends_refl [simp]: "pool_extends p p"
  by (simp add: pool_extends_def)

lemma pool_extends_trans: "pool_extends p q \<Longrightarrow> pool_extends q r \<Longrightarrow> pool_extends p r"
  by (auto simp: pool_extends_def)

lemma createThread_extends: "pool_extends p (createThread sp p)"
  by (cases sp) (auto simp: pool_extends_def)

lemma createNewReader_extends: "pool_extends p (fst (createNewReader sp p))"
  by (simp add: createNewReader_def createThread_extends)

lemma spawn_loop_extends: "spawn_loop outs p = Inr p' \<Longrightarrow> pool_extends p p'"
proof (induction outs arbitrary: p)
  case Nil
  then show ?case by (subst (asm) spawn_loop.simps) (auto split: if_splits)
next
  case (Cons sp outs)
  show ?case
  proof (cases "pl_used p < pl_minThreads p")
    case True
    then have "spawn_loop outs (createThread sp p) = Inr p'"
      using Cons.prems spawn_loop.simps [of "sp # outs" p] by (simp only: if_True list.case)
    from pool_extends_trans [OF createThread_extends Cons.IH [OF this]] show ?thesis .
  next
    case False
    then have "p = p'" using Cons.prems spawn_loop.simps [of "sp # outs" p] by (simp only: if_False sum.inject)
    then show ?thesis by simp
  qed
qed

lemma minThreadsHasChanged_extends: "minThreadsHasChanged c outs p = Inr p' \<Longrightarrow> pool_extends p p'"
  using spawn_loop_extends [of outs "p\<lparr>pl_minThreads := min_threads c\<rparr>" p'] by (simp add: minThreadsHasChanged_def pool_extends_def)

lemma shrink_loop_keeps: "pl_next (shrink_loop i p) = pl_next p \<and> pl_started (shrink_loop i p) = pl_started p"
proof (induction i p rule: shrink_loop.induct)
  case (1 i p)
  then show ?case by (subst (1 2) shrink_loop.simps) (simp add: threadHasDied_def)
qed

lemma pool_simps [simp]:
  "pl_next (setActive b p) = pl_next p" "pl_started (setActive b p) = pl_started p"
  "pl_next (setInactive p) = pl_next p" "pl_started (setInactive p) = pl_started p"
  "pl_next (threadHasDied t p) = pl_next p" "pl_started (threadHasDied t p) = pl_started p"
  "pl_next (pool_deactivation p) = pl_next p" "pl_started (pool_deactivation p) = pl_started p"
  "pl_next (maxThreadsHasChanged c p) = pl_next p" "pl_started (maxThreadsHasChanged c p) = pl_started p"
  by (simp_all add: setActive_def setInactive_def threadHasDied_def pool_deactivation_def maxThreadsHasChanged_def
      shrink_loop_keeps Let_def)

section \<open>The requests that threads hold\<close>

fun held :: "thread option \<Rightarrow> nat multiset" where
  "held None = {#}"
| "held (Some th) = (case th_pc th of Got (Some r) \<Rightarrow> {#req_id r#} | Checking r \<Rightarrow> {#req_id r#} | Holding r \<Rightarrow> {#req_id r#} | Executing r \<Rightarrow> {#req_id r#} | _ \<Rightarrow> {#})"

definition held_by :: "(nat \<Rightarrow> thread option) \<Rightarrow> nat \<Rightarrow> nat multiset" where
  "held_by f n = (\<Sum>t < n. held (f t))"

lemma held_by_upd: "t < n \<Longrightarrow> held_by (f(t := th)) n + held (f t) = held_by f n + held th"
proof -
  assume t: "t < n"
  have "held_by (f(t := th)) n = held th + (\<Sum>u \<in> {..<n} - {t}. held (f u))"
    unfolding held_by_def using t by (subst sum.remove [of _ t]) (auto intro!: arg_cong2 [where f = "(+)"] sum.cong)
  moreover have "held_by f n = held (f t) + (\<Sum>u \<in> {..<n} - {t}. held (f u))"
    unfolding held_by_def using t by (subst sum.remove [of _ t]) auto
  ultimately show ?thesis by (simp add: ac_simps)
qed

lemma held_by_start:
  assumes "pool_extends p p'" "\<And>t. f t \<noteq> None \<Longrightarrow> t < pl_next p"
  shows "held_by (start_threads (pl_next p) p' f) (pl_next p') = held_by f (pl_next p)"
proof -
  have "held (start_threads (pl_next p) p' f t) = (if t < pl_next p then held (f t) else {#})" for t
    using assms(2) [of t] by (cases "f t") (auto simp: start_threads_def ExecThread_def)
  then have "held_by (start_threads (pl_next p) p' f) (pl_next p') = (\<Sum>t < pl_next p'. if t < pl_next p then held (f t) else {#})"
    by (simp add: held_by_def)
  also have "\<dots> = (\<Sum>t \<in> {..<pl_next p'} \<inter> {t. t < pl_next p}. held (f t))" by (simp add: sum.If_cases)
  also have "{..<pl_next p'} \<inter> {t. t < pl_next p} = {..<pl_next p}" using assms(1) by (auto simp: pool_extends_def)
  finally show ?thesis by (simp add: held_by_def)
qed

section \<open>Conservation of requests\<close>

definition account :: "manager \<Rightarrow> nat multiset" where
  "account m = image_mset req_id (mset (q_items (m_queue m))) + held_by (m_threads m) (pl_next (m_pool m)) + mset (map fate_id (m_fates m))"

definition conserved :: "manager \<Rightarrow> bool" where
  "conserved m \<longleftrightarrow> threads_ok m \<and> mset (m_put m) = account m"

lemma set_thread_simps [simp]:
  "m_queue (set_thread t th m) = m_queue m" "m_pool (set_thread t th m) = m_pool m" "m_fates (set_thread t th m) = m_fates m"
  "m_put (set_thread t th m) = m_put m" "m_queued (set_thread t th m) = m_queued m" "m_destroyed (set_thread t th m) = m_destroyed m"
  "m_taken (set_thread t th m) = m_taken m" "m_state (set_thread t th m) = m_state m"
  "m_threads (set_thread t th m) = (m_threads m)(t := Some th)" "m_completion (set_thread t th m) = m_completion m"
  by (simp_all add: set_thread_def)

text \<open>A step of a thread moves a request between the queue, the thread and the fates.\<close>

lemma thread_update_conserved:
  assumes "conserved m" "m_threads m t = Some th"
    "m_threads m' = (m_threads m)(t := Some th')" "pl_next (m_pool m') = pl_next (m_pool m)"
    "pl_started (m_pool m') = pl_started (m_pool m)" "m_put m' = m_put m"
    "image_mset req_id (mset (q_items (m_queue m'))) + held (Some th') + mset (map fate_id (m_fates m')) =
     image_mset req_id (mset (q_items (m_queue m))) + held (Some th) + mset (map fate_id (m_fates m))"
  shows "conserved m'"
proof -
  let ?n = "pl_next (m_pool m)" and ?H = "held_by (m_threads m) (pl_next (m_pool m))"
  have t: "t < ?n" using assms(1,2) by (simp add: conserved_def threads_ok_def)
  have "threads_ok m'" using assms(1,3,4,5) t by (auto simp: conserved_def threads_ok_def)
  moreover have "account m' = account m"
  proof -
    have "held_by (m_threads m') ?n + held (Some th) = ?H + held (Some th')"
      using held_by_upd [OF t, of "m_threads m" "Some th'"] assms(2,3) by simp
    from arg_cong2 [OF this assms(7), of "(+)"]
    have "(account m' + held (Some th)) + held (Some th') = (account m + held (Some th)) + held (Some th')"
      unfolding account_def assms(4) by (simp only: ac_simps)
    then show ?thesis by (simp only: add_right_cancel)
  qed
  ultimately show ?thesis using assms(1,6) by (simp add: conserved_def)
qed

lemma queue_get_mset:
  "queue_get q = (q', r) \<Longrightarrow>
   image_mset req_id (mset (q_items q')) + (case r of None \<Rightarrow> {#} | Some r \<Rightarrow> {#req_id r#}) = image_mset req_id (mset (q_items q))"
  by (cases "q_items q") (auto simp: queue_get_def)

lemma thread_step_conserved:
  assumes "thread_step t th m m'" "m_threads m t = Some th" "conserved m"
  shows "conserved m'"
proof -
  note U = thread_update_conserved [OF assms(3,2)]
  have tk: "conserved (take_from_queue t th m)" if "held (Some th) = {#}"
  proof -
    obtain q r where g: "queue_get (m_queue m) = (q, r)" by (cases "queue_get (m_queue m)")
    show ?thesis
      by (rule U [of _ "th\<lparr>th_pc := Got r\<rparr>"]) (use g that queue_get_mset [OF g] in \<open>auto simp: take_from_queue_def split: option.splits\<close>)
  qed
  from assms(1) show ?thesis
  proof cases
    case enter
    then show ?thesis by (intro U [of _ "th\<lparr>th_pc := Getting\<rparr>"]) (auto simp: run_enter_def split: if_splits)
  next
    case get
    then show ?thesis
    proof (cases "queue_waits (m_queue m)")
      case True
      with get show ?thesis by (intro U [of _ "th\<lparr>th_pc := Waiting\<rparr>"]) (auto simp: run_get_def split: if_splits)
    next
      case False
      with get show ?thesis using tk by (auto simp: run_get_def split: if_splits)
    qed
  next
    case wake
    then show ?thesis using tk by (auto simp: run_wake_def split: if_splits)
  next
    case active
    then obtain r where g: "th_pc th = Got r" by (auto simp: run_active_def split: pc.splits)
    define th' where "th' = (case r of Some r \<Rightarrow> th\<lparr>th_pc := Checking r\<rparr>
      | None \<Rightarrow> if threadCanDie (setActive (th_firstTime th) (m_pool m)) then th\<lparr>th_pc := Loop, th_deactivated := True\<rparr> else th\<lparr>th_pc := Loop\<rparr>)"
    have "m' = set_thread t th' (m\<lparr>m_pool := setActive (th_firstTime th) (m_pool m)\<rparr>)"
      using active g by (auto simp: run_active_def th'_def Let_def split: option.splits)
    moreover have "held (Some th') = held (Some th)" using g by (auto simp: th'_def split: option.splits)
    ultimately show ?thesis by (intro U [of _ th']) auto
  next
    case check
    then obtain r where g: "th_pc th = Checking r" by (auto simp: run_check_def split: pc.splits)
    consider "m' = set_thread t (th\<lparr>th_pc := Executing r\<rparr>) m" | "m' = set_thread t (th\<lparr>th_pc := Holding r\<rparr>) m"
      | "m' = end_request t th (Answered (req_id r)) m"
      using check g by (auto simp: run_check_def split: option.splits bool.splits)
    then show ?thesis
    proof cases
      case 1
      with g show ?thesis by (intro U [of _ "th\<lparr>th_pc := Executing r\<rparr>"]) auto
    next
      case 2
      with g show ?thesis by (intro U [of _ "th\<lparr>th_pc := Holding r\<rparr>"]) auto
    next
      case 3
      then show ?thesis using g by (intro U [of _ "th\<lparr>th_pc := Loop, th_firstTime := False\<rparr>"]) (auto simp: end_request_def)
    qed
  next
    case (finish f)
    then obtain r where g: "th_pc th = Executing r" "m' = end_request t th (f (req_id r)) m" by (auto simp: run_finish_def split: pc.splits)
    moreover have "fate_id (f i) = i" for i using finish by auto
    ultimately show ?thesis by (intro U [of _ "th\<lparr>th_pc := Loop, th_firstTime := False\<rparr>"]) (auto simp: end_request_def)
  next
    case exit
    then show ?thesis by (intro U [of _ "th\<lparr>th_pc := Dead\<rparr>"]) (auto simp: run_exit_def split: if_splits)
  qed
qed

text \<open>A change of the pool that only starts threads.\<close>

lemma start_conserved:
  assumes "conserved m" "pool_extends (m_pool m) p"
    "m_threads m' = start_threads (pl_next (m_pool m)) p (m_threads m)" "m_pool m' = p"
    "m_put m' = m_put m @ new" "m_fates m' = m_fates m"
    "image_mset req_id (mset (q_items (m_queue m'))) = image_mset req_id (mset (q_items (m_queue m))) + mset new"
  shows "conserved m'"
proof -
  have old: "t < pl_next (m_pool m)" if "m_threads m t \<noteq> None" for t using assms(1) that by (simp add: conserved_def threads_ok_def)
  have "threads_ok m'"
    unfolding threads_ok_def assms(3,4)
  proof (intro conjI allI impI ballI)
    have started: "\<forall>t \<in> set (pl_started p). t < pl_next p" and le: "pl_next (m_pool m) \<le> pl_next p"
      using assms(1,2) by (auto simp: conserved_def threads_ok_def pool_extends_def)
    then show "t < pl_next p" if "t \<in> set (pl_started p)" for t using that by blast
    show "t < pl_next p" if "start_threads (pl_next (m_pool m)) p (m_threads m) t \<noteq> None" for t
      using that started le old [of t] by (auto simp: start_threads_def split: if_splits)
  qed
  moreover have "account m' = account m + mset new"
    using assms(3,4,6,7) held_by_start [OF assms(2) old] by (simp add: account_def ac_simps)
  ultimately show ?thesis using assms(1,5) by (simp add: conserved_def)
qed

lemma notify_state_simps [simp]:
  "m_queue (notify_state m) = m_queue m" "m_pool (notify_state m) = m_pool m" "m_fates (notify_state m) = m_fates m"
  "m_put (notify_state m) = m_put m" "m_queued (notify_state m) = m_queued m" "m_taken (notify_state m) = m_taken m"
  "m_state (notify_state m) = m_state m" "m_completion (notify_state m) = m_completion m"
  "held (m_threads (notify_state m) t) = held (m_threads m t)" "m_threads (notify_state m) t = None \<longleftrightarrow> m_threads m t = None"
  by (cases "m_threads m t"; simp add: notify_state_def split: pc.splits option.splits)+

text \<open>A change that leaves to each thread the request it holds, and does not start any.\<close>

lemma plain_conserved:
  assumes "conserved m" "\<And>t. held (m_threads m' t) = held (m_threads m t) \<and> (m_threads m' t = None \<longleftrightarrow> m_threads m t = None)"
    "pl_next (m_pool m') = pl_next (m_pool m)" "pl_started (m_pool m') = pl_started (m_pool m)" "m_put m' = m_put m @ new"
    "image_mset req_id (mset (q_items (m_queue m'))) + mset (map fate_id (m_fates m')) =
     image_mset req_id (mset (q_items (m_queue m))) + mset (map fate_id (m_fates m)) + mset new"
  shows "conserved m'"
proof -
  have "account m' = (image_mset req_id (mset (q_items (m_queue m'))) + mset (map fate_id (m_fates m'))) + held_by (m_threads m) (pl_next (m_pool m))"
    unfolding account_def assms(3) by (simp add: held_by_def assms(2) ac_simps)
  then have "account m' = account m + mset new" unfolding assms(6) account_def by (simp only: ac_simps)
  then show ?thesis using assms(1,2,3,4,5) by (simp add: conserved_def threads_ok_def)
qed

lemma put_conserved: "conserved m \<Longrightarrow> conserved (poa_put sp r m)"
proof (cases "queue_full (m_queue m) (pl_active (m_pool m))")
  case True
  assume c: "conserved m"
  show ?thesis by (rule plain_conserved [OF c, of _ "[req_id r]"]) (use True in \<open>auto simp: poa_put_def queue_add_def\<close>)
next
  case False
  assume c: "conserved m"
  show ?thesis
    by (rule start_conserved [OF c createNewReader_extends [of _ sp], of _ "[req_id r]"])
      (use False in \<open>auto simp: poa_put_def queue_add_def requests.push_mset split: prod.splits\<close>)
qed

lemma use_comparator_conserved: "conserved m \<Longrightarrow> conserved (use_comparator c m)"
  by (erule plain_conserved [of m _ "[]"])
    (auto simp: use_comparator_def setComparator_def discardAll_def image_mset.compositionality comp_def)

lemma order_field_conserved [simp]: "conserved (m\<lparr>m_queue_order := q\<rparr>) = conserved m"
  by (simp add: conserved_def threads_ok_def account_def)

lemma set_queue_order_conserved: "conserved m \<Longrightarrow> conserved (set_queue_order order m)"
  using use_comparator_conserved by (simp add: set_queue_order_def)

lemma set_min_threads_conserved:
  assumes "conserved m" "set_min_threads n outs m = Inr m'"
  shows "conserved m'"
proof -
  obtain c p where "minThreadsHasChanged c outs (m_pool m) = Inr p"
    "m' = m\<lparr>m_conf := c, m_pool := p, m_threads := start_threads (pl_next (m_pool m)) p (m_threads m)\<rparr>"
    using assms(2) by (auto simp: set_min_threads_def rbind_eq_Inr)
  then show ?thesis
    by (intro start_conserved [OF assms(1) minThreadsHasChanged_extends, of c outs p _ "[]"]) auto
qed

lemmas mgr_ops = activate_def hold_requests_def discard_requests_def change_state_def wait_completion_def deactivate_def
  queue_deactivate_def set_max_threads_def set_max_queued_requests_def begin_request_def finish_request_def

lemma poa_step_conserved:
  assumes "poa_step m m'" "conserved m"
  shows "conserved m'"
  using assms(1)
proof cases
  case (threads t th)
  then show ?thesis using thread_step_conserved assms(2) by blast
next
  case (set_min n outs)
  then show ?thesis using set_min_threads_conserved assms(2) by blast
next
  case (put sp r)
  then show ?thesis using put_conserved assms(2) by blast
next
  case (set_order order)
  then show ?thesis using set_queue_order_conserved assms(2) by blast
qed (rule plain_conserved [OF assms(2), of _ "[]"]; auto simp: mgr_ops split: if_splits option.splits)+

lemma POAManagerImpl_conserved:
  assumes "POAManagerImpl c outs ord = Inr m"
  shows "conserved m"
proof -
  obtain p where p: "minThreadsHasChanged c outs (ThreadPool c) = Inr p" "m_pool m = p"
    "m_threads m = start_threads 0 p (\<lambda>_. None)" "q_items (m_queue m) = []" "m_fates m = []" "m_put m = []"
    using assms by (auto simp: POAManagerImpl_def rbind_eq_Inr RequestQueue_def)
  have e: "pool_extends (ThreadPool c) p" by (rule minThreadsHasChanged_extends [OF p(1)])
  have "held_by (m_threads m) (pl_next p) = {#}"
    using held_by_start [OF e, of "\<lambda>_. None"] p(3) by (simp add: ThreadPool_def held_by_def)
  moreover have "threads_ok m"
    using e p(2,3) by (auto simp: threads_ok_def pool_extends_def start_threads_def ThreadPool_def split: if_splits)
  ultimately show ?thesis using p by (simp add: conserved_def account_def)
qed

lemma reachable_conserved: "poa_steps m m' \<Longrightarrow> conserved m \<Longrightarrow> conserved m'"
  by (induction rule: poa_steps.induct) (auto intro: poa_step_conserved)

end
