(* ===== verification/Poa_Service.thy ===== *)
theory Poa_Service
  imports Poa_Safety
begin

text \<open>
  What the POA manager promises about the requests it is given: none is lost or served twice, they are served in the
  order of arrival, none starts after the manager is deactivated, and then every thread comes to its end.
\<close>

section \<open>Order of service\<close>

text \<open>As long as no order was set, the queue is the part of the accepted requests that no thread has taken.\<close>

definition in_order :: "manager \<Rightarrow> bool" where
  "in_order m \<longleftrightarrow> (q_comparator (m_queue m) = NULL_REQUEST \<longrightarrow> m_queued m = m_taken m @ map req_id (q_items (m_queue m)))"

lemma in_order_cong:
  "q_comparator (m_queue m') = q_comparator (m_queue m) \<Longrightarrow> q_items (m_queue m') = q_items (m_queue m) \<Longrightarrow>
   m_queued m' = m_queued m \<Longrightarrow> m_taken m' = m_taken m \<Longrightarrow> in_order m \<Longrightarrow> in_order m'"
  by (simp add: in_order_def)

lemma take_in_order: "in_order m \<Longrightarrow> in_order (take_from_queue t th m)"
  by (cases "q_items (m_queue m)") (auto simp: in_order_def take_from_queue_def queue_get_def)

lemma thread_step_in_order:
  assumes "thread_step t th m m'" "in_order m"
  shows "in_order m'"
  using assms(1)
proof cases
  case get
  then show ?thesis using assms(2) by (auto simp: run_get_def take_in_order split: if_splits intro: in_order_cong)
next
  case wake
  then show ?thesis using assms(2) by (auto simp: run_wake_def take_in_order split: if_splits)
qed (rule in_order_cong [OF _ _ _ _ assms(2)];
  auto simp: run_enter_def run_active_def run_check_def run_finish_def run_exit_def end_request_def Let_def
    split: if_splits pc.splits option.splits bool.splits)+

lemma put_in_order: "in_order m \<Longrightarrow> in_order (poa_put sp r m)"
  by (auto simp: in_order_def poa_put_def queue_add_def Let_def split: prod.splits)

lemma set_queue_order_in_order: "in_order m \<Longrightarrow> in_order (set_queue_order order m)"
  by (auto simp: in_order_def set_queue_order_def use_comparator_def setComparator_def discardAll_def)

lemma poa_step_in_order:
  assumes "poa_step m m'" "in_order m"
  shows "in_order m'"
  using assms(1)
proof cases
  case (threads t th)
  then show ?thesis using thread_step_in_order assms(2) by blast
next
  case (put sp r)
  then show ?thesis using put_in_order assms(2) by blast
next
  case (set_order order)
  then show ?thesis using set_queue_order_in_order assms(2) by blast
qed (rule in_order_cong [OF _ _ _ _ assms(2)]; auto simp: mgr_ops set_min_threads_def split: if_splits option.splits)+

lemma reachable_in_order: "poa_steps m m' \<Longrightarrow> in_order m \<Longrightarrow> in_order m'"
  by (induction rule: poa_steps.induct) (auto intro: poa_step_in_order)

lemma POAManagerImpl_in_order: "POAManagerImpl c outs ord = Inr m \<Longrightarrow> in_order m"
  by (auto simp: POAManagerImpl_def in_order_def RequestQueue_def)

section \<open>Deactivation\<close>

text \<open>Deactivation marks the queue and the pool.\<close>

definition marked :: "manager \<Rightarrow> bool" where
  "marked m \<longleftrightarrow> (m_state m = INACTIVE \<longrightarrow> q_deactivation (m_queue m) \<and> pl_deactivated (m_pool m))"

definition executing :: "manager \<Rightarrow> nat \<Rightarrow> request \<Rightarrow> bool" where
  "executing m t r \<longleftrightarrow> (\<exists>th. m_threads m t = Some th \<and> th_pc th = Executing r)"

lemma createThread_flag [simp]: "pl_deactivated (createThread sp p) = pl_deactivated p"
  by (cases sp) auto

lemma spawn_loop_flag: "spawn_loop outs p = Inr p' \<Longrightarrow> pl_deactivated p' = pl_deactivated p"
proof (induction outs p rule: spawn_loop.induct)
  case (1 outs p)
  then show ?case using spawn_loop.simps [of outs p] by (auto split: if_splits list.splits)
qed

lemma shrink_loop_flag: "pl_deactivated (shrink_loop i p) = pl_deactivated p"
proof (induction i p rule: shrink_loop.induct)
  case (1 i p)
  then show ?case by (subst shrink_loop.simps) (simp add: threadHasDied_def)
qed

lemma pool_flags [simp]:
  "pl_deactivated (setActive b p) = pl_deactivated p" "pl_deactivated (setInactive p) = pl_deactivated p"
  "pl_deactivated (threadHasDied t p) = pl_deactivated p" "pl_deactivated (maxThreadsHasChanged c p) = pl_deactivated p"
  "pl_deactivated (fst (createNewReader sp p)) = pl_deactivated p"
  by (simp_all add: setActive_def setInactive_def threadHasDied_def maxThreadsHasChanged_def shrink_loop_flag
      createNewReader_def Let_def)

lemma minThreadsHasChanged_flag: "minThreadsHasChanged c outs p = Inr p' \<Longrightarrow> pl_deactivated p' = pl_deactivated p"
  using spawn_loop_flag [of outs "p\<lparr>pl_minThreads := min_threads c\<rparr>" p'] by (simp add: minThreadsHasChanged_def)

lemma queue_flags [simp]:
  "q_deactivation (fst (queue_add q n r)) = q_deactivation q" "q_deactivation (fst (queue_get q)) = q_deactivation q"
  "q_deactivation (fst (setComparator q c)) = q_deactivation q"
  by (auto simp: queue_add_def queue_get_def setComparator_def discardAll_def split: option.splits)

lemma take_from_queue_simps [simp]:
  "m_state (take_from_queue t th m) = m_state m" "m_pool (take_from_queue t th m) = m_pool m"
  "q_deactivation (m_queue (take_from_queue t th m)) = q_deactivation (m_queue m)"
  "m_threads (take_from_queue t th m) = (m_threads m)(t := Some (th\<lparr>th_pc := Got (snd (queue_get (m_queue m)))\<rparr>))"
  by (simp_all add: take_from_queue_def Let_def case_prod_unfold)

lemma thread_step_flags:
  "thread_step t th m m' \<Longrightarrow> m_state m' = m_state m \<and> q_deactivation (m_queue m') = q_deactivation (m_queue m) \<and>
     pl_deactivated (m_pool m') = pl_deactivated (m_pool m)"
  by (erule thread_stepE)
    (auto simp: run_enter_def run_get_def run_wake_def run_active_def run_check_def run_finish_def run_exit_def
      end_request_def Let_def split: if_splits pc.splits option.splits bool.splits)

lemma put_flags [simp]:
  "m_state (poa_put sp r m) = m_state m" "q_deactivation (m_queue (poa_put sp r m)) = q_deactivation (m_queue m)"
  "pl_deactivated (m_pool (poa_put sp r m)) = pl_deactivated (m_pool m)"
  by (simp_all add: poa_put_def Let_def case_prod_unfold)

lemma set_queue_order_flags [simp]:
  "m_state (set_queue_order order m) = m_state m" "m_pool (set_queue_order order m) = m_pool m"
  "m_threads (set_queue_order order m) = m_threads m"
  "q_deactivation (m_queue (set_queue_order order m)) = q_deactivation (m_queue m)"
  by (simp_all add: set_queue_order_def use_comparator_def Let_def case_prod_unfold)

lemma poa_step_marked:
  assumes "poa_step m m'" "marked m"
  shows "marked m'"
  using assms(1)
proof cases
  case (threads t th)
  then show ?thesis using thread_step_flags assms(2) by (simp add: marked_def)
qed (use assms(2) in \<open>auto simp: marked_def mgr_ops set_min_threads_def pool_deactivation_def minThreadsHasChanged_flag
    split: if_splits option.splits\<close>)

lemma reachable_marked: "poa_steps m m' \<Longrightarrow> marked m \<Longrightarrow> marked m'"
  by (induction rule: poa_steps.induct) (auto intro: poa_step_marked)

lemma POAManagerImpl_marked: "POAManagerImpl c outs ord = Inr m \<Longrightarrow> marked m"
  by (auto simp: POAManagerImpl_def marked_def)

text \<open>No request starts to execute.\<close>

lemma thread_step_executing:
  "thread_step t th m m' \<Longrightarrow> m_threads m t = Some th \<Longrightarrow> m_state m = INACTIVE \<Longrightarrow> executing m' u r \<Longrightarrow> executing m u r"
  by (erule thread_stepE; cases "u = t")
    (auto simp: executing_def run_enter_def run_get_def run_wake_def run_active_def run_check_def run_finish_def run_exit_def
      end_request_def checkState_def Let_def split: if_splits pc.splits option.splits bool.splits)

lemma start_threads_executing:
  "start_threads n p f t = Some th \<Longrightarrow> th_pc th = Executing r \<Longrightarrow> f t = Some th"
  by (auto simp: start_threads_def ExecThread_def split: if_splits)

lemma put_executing: "executing (poa_put sp r m) u r' \<Longrightarrow> executing m u r'"
  by (auto simp: executing_def poa_put_def Let_def case_prod_unfold split: if_splits dest: start_threads_executing)

lemma poa_step_inactive:
  assumes "poa_step m m'" "m_state m = INACTIVE"
  shows "m_state m' = INACTIVE \<and> (\<forall>t r. executing m' t r \<longrightarrow> executing m t r)"
  using assms(1)
proof cases
  case (threads t th)
  then show ?thesis using thread_step_flags thread_step_executing assms(2) by metis
next
  case (set_min n outs)
  then show ?thesis using assms(2) by (clarsimp simp: set_min_threads_def executing_def) (blast dest: start_threads_executing)
next
  case (put sp r)
  then show ?thesis using assms(2) by (auto dest: put_executing)
next
  case (set_order order)
  then show ?thesis using assms(2) by (simp add: executing_def)
qed (use assms(2) in \<open>auto simp: executing_def mgr_ops split: if_splits option.splits\<close>)

lemma reachable_inactive:
  "poa_steps m m' \<Longrightarrow> m_state m = INACTIVE \<Longrightarrow> m_state m' = INACTIVE \<and> (\<forall>t r. executing m' t r \<longrightarrow> executing m t r)"
proof (induction rule: poa_steps.induct)
  case (step m' m'')
  then show ?case using poa_step_inactive [of m' m''] by blast
qed simp

section \<open>The end of the threads\<close>

definition threads_step :: "manager \<Rightarrow> manager \<Rightarrow> bool" where
  "threads_step m m' \<longleftrightarrow> (\<exists>t th. m_threads m t = Some th \<and> thread_step t th m m')"

fun steps_left :: "thread option \<Rightarrow> nat" where
  "steps_left None = 0"
| "steps_left (Some th) = (case th_pc th of Dead \<Rightarrow> 0 | Holding _ \<Rightarrow> 0 | Loop \<Rightarrow> if th_deactivated th then 1 else 5
     | Got None \<Rightarrow> 2 | Waiting \<Rightarrow> 3 | Getting \<Rightarrow> 4 | Executing _ \<Rightarrow> 6 | Checking _ \<Rightarrow> 7 | Got (Some _) \<Rightarrow> 8)"

definition work :: "manager \<Rightarrow> nat" where
  "work m = 8 * length (q_items (m_queue m)) + (\<Sum>t < pl_next (m_pool m). steps_left (m_threads m t))"

lemma work_update:
  assumes "threads_ok m" "m_threads m t = Some th" "m_threads m' = (m_threads m)(t := Some th')" "pl_next (m_pool m') = pl_next (m_pool m)"
    "8 * length (q_items (m_queue m')) + steps_left (Some th') < 8 * length (q_items (m_queue m)) + steps_left (Some th)"
  shows "work m' < work m"
proof -
  let ?n = "pl_next (m_pool m)" and ?S = "\<lambda>f t. \<Sum>u \<in> {..<pl_next (m_pool m)} - {t}. steps_left (f u)"
  have t: "t < ?n" using assms(1,2) by (simp add: threads_ok_def)
  have "(\<Sum>u < ?n. steps_left (f u)) = steps_left (f t) + ?S f t" for f using t by (subst sum.remove [of _ t]) auto
  moreover have "?S (m_threads m') t = ?S (m_threads m) t" using assms(3) by (intro sum.cong) auto
  ultimately show ?thesis using assms(2,3,4,5) by (simp add: work_def)
qed

lemma take_work:
  assumes "threads_ok m" "m_threads m t = Some th" "th_pc th = Getting \<or> th_pc th = Waiting"
  shows "work (take_from_queue t th m) < work m"
  by (rule work_update [OF assms(1,2), of _ "th\<lparr>th_pc := Got (snd (queue_get (m_queue m)))\<rparr>"])
    (use assms(3) in \<open>cases "q_items (m_queue m)"; auto simp: take_from_queue_def queue_get_def\<close>)+

lemma thread_step_work:
  assumes "thread_step t th m m'" "m_threads m t = Some th" "threads_ok m" "q_deactivation (m_queue m)" "pl_deactivated (m_pool m)"
  shows "work m' < work m"
proof -
  note U = work_update [OF assms(3,2)]
  from assms(1) show ?thesis
  proof cases
    case enter
    then show ?thesis by (intro U [of _ "th\<lparr>th_pc := Getting\<rparr>"]) (auto simp: run_enter_def split: if_splits)
  next
    case get
    then show ?thesis using take_work [OF assms(3,2)] assms(4) by (auto simp: run_get_def queue_waits_def split: if_splits)
  next
    case wake
    then show ?thesis using take_work [OF assms(3,2)] by (auto simp: run_wake_def split: if_splits)
  next
    case active
    then obtain r where g: "th_pc th = Got r" by (auto simp: run_active_def split: pc.splits)
    with active assms(5) show ?thesis
      by (intro U [of _ "case r of Some r \<Rightarrow> th\<lparr>th_pc := Checking r\<rparr> | None \<Rightarrow> th\<lparr>th_pc := Loop, th_deactivated := True\<rparr>"])
        (auto simp: run_active_def threadCanDie_def Let_def split: option.splits)
  next
    case check
    then obtain r where g: "th_pc th = Checking r" by (auto simp: run_check_def split: pc.splits)
    with check show ?thesis
      by (intro U [of _ "case checkState m r of None \<Rightarrow> th\<lparr>th_pc := Holding r\<rparr> | Some True \<Rightarrow> th\<lparr>th_pc := Executing r\<rparr>
          | Some False \<Rightarrow> th\<lparr>th_pc := Loop, th_firstTime := False\<rparr>"])
        (auto simp: run_check_def end_request_def split: option.splits bool.splits)
  next
    case (finish f)
    then show ?thesis
      by (intro U [of _ "th\<lparr>th_pc := Loop, th_firstTime := False\<rparr>"]) (auto simp: run_finish_def end_request_def split: pc.splits)
  next
    case exit
    then show ?thesis by (intro U [of _ "th\<lparr>th_pc := Dead\<rparr>"]) (auto simp: run_exit_def split: if_splits)
  qed
qed

text \<open>What holds of an inactive manager, and the threads keep.\<close>

definition stopping :: "manager \<Rightarrow> bool" where
  "stopping m \<longleftrightarrow> conserved m \<and> marked m \<and> m_state m = INACTIVE"

lemma threads_step_stopping: "threads_step m m' \<Longrightarrow> stopping m \<Longrightarrow> stopping m' \<and> work m' < work m"
  using thread_step_conserved thread_step_flags thread_step_work
  by (auto simp: threads_step_def stopping_def marked_def conserved_def)

lemma thread_enabled:
  assumes "m_threads m t = Some th" "th_pc th \<noteq> Dead" "\<forall>r. th_pc th \<noteq> Holding r"
  shows "\<exists>m'. threads_step m m'"
proof -
  have "\<exists>m'. thread_step t th m m'"
  proof (cases "th_pc th")
    case Loop
    then show ?thesis using enter [of t th m] exit [of t th m] by (cases "th_deactivated th") (auto simp: run_enter_def run_exit_def)
  next
    case Getting
    then show ?thesis using get [of t th m] by (auto simp: run_get_def)
  next
    case Waiting
    then show ?thesis using wake [of t th m] by (auto simp: run_wake_def)
  next
    case (Got r)
    then show ?thesis using active [of t th m] by (auto simp: run_active_def Let_def)
  next
    case (Checking r)
    then have "run_check t th m \<noteq> None" by (simp add: run_check_def split: option.split bool.split)
    then show ?thesis using check [of t th m] by blast
  next
    case (Executing r)
    then show ?thesis using finish [of Executed t th m] by (auto simp: run_finish_def)
  qed (use assms(2,3) in simp_all)
  then show ?thesis using assms(1) by (auto simp: threads_step_def)
qed

lemma threads_run_stopping: "(threads_step ^^ n) m m' \<Longrightarrow> stopping m \<Longrightarrow> stopping m' \<and> n + work m' \<le> work m"
proof (induction n arbitrary: m')
  case (Suc n)
  then obtain k where "(threads_step ^^ n) m k" "threads_step k m'" by auto
  then show ?case using Suc.IH [of k] Suc.prems(2) threads_step_stopping [of k m'] by auto
qed simp

section \<open>Properties\<close>


text \<open>C29. A manager to which no order was set serves its requests first in, first out: the accepted requests, in the
  order of acceptance, are the ones that threads have taken, in the order they took them, followed by the queue.\<close>

theorem fifo_service:
  assumes "POAManagerImpl c outs ord = Inr m" "poa_steps m m'" "q_comparator (m_queue m') = NULL_REQUEST"
  shows "m_queued m' = m_taken m' @ map req_id (q_items (m_queue m'))"
  using reachable_in_order [OF assms(2) POAManagerImpl_in_order [OF assms(1)]] assms(3) by (simp add: in_order_def)

text \<open>C30. Deactivation is final: whatever happens after it the manager stays inactive, every request that is put is
  answered with an exception at once, and no thread starts to execute a request.\<close>

theorem inactive_final:
  assumes "POAManagerImpl c outs ord = Inr m0" "poa_steps m0 m" "m_state m = INACTIVE" "poa_steps m m'"
  shows "m_state m' = INACTIVE \<and> (\<forall>sp r. m_fates (poa_put sp r m') = m_fates m' @ [Answered (req_id r)]) \<and>
    (\<forall>t r. executing m' t r \<longrightarrow> executing m t r)"
proof -
  have "marked m'" using reachable_marked POAManagerImpl_marked [OF assms(1)] assms(2,4) by blast
  then show ?thesis using reachable_inactive [OF assms(4,3)] by (auto simp: marked_def poa_put_def queue_add_def queue_full_def)
qed

text \<open>C31. After deactivation the threads come to their end: they can take only a bounded number of steps, and when none
  of them can take one, each has left its loop or waits in \<^verbatim>\<open>checkState\<close>.\<close>

theorem inactive_threads_end:
  assumes "POAManagerImpl c outs ord = Inr m0" "poa_steps m0 m" "m_state m = INACTIVE" "(threads_step ^^ n) m m'"
  shows "n \<le> work m \<and> ((\<nexists>m''. threads_step m' m'') \<longrightarrow> (\<forall>t th. m_threads m' t = Some th \<longrightarrow> th_pc th = Dead \<or> (\<exists>r. th_pc th = Holding r)))"
proof -
  have "stopping m"
    using reachable_marked POAManagerImpl_marked [OF assms(1)] reachable_conserved POAManagerImpl_conserved [OF assms(1)] assms(2,3)
    by (auto simp: stopping_def)
  from threads_run_stopping [OF assms(4) this] show ?thesis using thread_enabled [of m'] by fastforce
qed

section \<open>Witnesses\<close>

definition sample_conf :: conf where
  "sample_conf = \<lparr>min_threads = 1, max_threads = 2, max_queued_requests = 10, starving_time = 20000, thread_stack_size = 0,
     bound_threads = True\<rparr>"

definition sample_manager :: manager where
  "sample_manager = (case POAManagerImpl sample_conf [SPAWNED] ORDER_ANY of Inr m \<Rightarrow> m)"

lemma sample_manager: "POAManagerImpl sample_conf [SPAWNED] ORDER_ANY = Inr sample_manager"
  by (simp add: sample_manager_def POAManagerImpl_def minThreadsHasChanged_def ThreadPool_def sample_conf_def spawn_loop.simps)

definition sample_put :: manager where
  "sample_put = poa_put NOT_CREATED (sample_request 8 1) (poa_put NOT_CREATED (sample_request 7 0) sample_manager)"

lemma sample_reach: "poa_steps sample_manager sample_put"
  unfolding sample_put_def by (intro poa_steps.step [OF poa_steps.step [OF poa_steps.start poa_step.put] poa_step.put])

lemmas sample_defs = sample_put_def sample_manager_def POAManagerImpl_def minThreadsHasChanged_def ThreadPool_def
  sample_conf_def spawn_loop.simps poa_put_def queue_add_def queue_full_def RequestQueue_def queue_size_def
  createNewReader_def sample_request_def

lemma sample_put_fields:
  "m_state sample_put = HOLDING" "m_destroyed sample_put = False" "m_put sample_put = [7, 8]" "m_queued sample_put = [7, 8]"
  "m_taken sample_put = []" "m_threads sample_put 0 = Some ExecThread"
  "m_queue sample_put = (RequestQueue 10 2 NULL_REQUEST)\<lparr>q_items := [sample_request 7 0, sample_request 8 1]\<rparr>"
  by (simp_all add: sample_defs start_threads_def not_le)

definition sample_taken :: manager where
  "sample_taken = take_from_queue 0 (ExecThread\<lparr>th_pc := Getting\<rparr>) (set_thread 0 (ExecThread\<lparr>th_pc := Getting\<rparr>) sample_put)"

lemma sample_taken_reach: "poa_steps sample_manager sample_taken"
proof -
  let ?m = "set_thread 0 (ExecThread\<lparr>th_pc := Getting\<rparr>) sample_put"
  have "run_enter 0 ExecThread sample_put = Some ?m" by (simp add: run_enter_def ExecThread_def)
  then have 1: "poa_step sample_put ?m" using poa_step.threads [OF sample_put_fields(6)] thread_step.enter by blast
  have "run_get 0 (ExecThread\<lparr>th_pc := Getting\<rparr>) ?m = Some sample_taken"
    by (simp add: run_get_def sample_taken_def queue_waits_def sample_put_fields)
  then have "poa_step ?m sample_taken" using poa_step.threads [of ?m 0] thread_step.get by simp
  with 1 sample_reach show ?thesis by (blast intro: poa_steps.step)
qed

definition sample_inactive :: manager where
  "sample_inactive = (case deactivate sample_put of Inr m \<Rightarrow> m)"

lemma sample_inactive: "deactivate sample_put = Inr sample_inactive" "m_state sample_inactive = INACTIVE"
  "m_threads sample_inactive 0 = Some ExecThread"
  by (simp_all add: sample_inactive_def deactivate_def sample_put_fields)

lemma sample_inactive_reach: "poa_steps sample_manager sample_inactive"
  using poa_steps.step [OF sample_reach poa_step.deactivate [OF sample_inactive(1)]] .


theorem fifo_service_witness:
  "m_queued sample_taken = [7, 8] \<and> m_taken sample_taken = [7] \<and>
   m_queued sample_taken = m_taken sample_taken @ map req_id (q_items (m_queue sample_taken))"
proof -
  have "q_comparator (m_queue sample_taken) = NULL_REQUEST" "m_taken sample_taken = [7]" "m_queued sample_taken = [7, 8]"
    by (simp_all add: sample_taken_def take_from_queue_def queue_get_def sample_put_fields RequestQueue_def sample_request_def)
  with fifo_service [OF sample_manager sample_taken_reach] show ?thesis by simp
qed

theorem inactive_final_witness:
  "m_state (set_queue_order ORDER_DEADLINE sample_inactive) = INACTIVE \<and>
   m_fates (poa_put SPAWNED (sample_request 9 2) (set_queue_order ORDER_DEADLINE sample_inactive)) =
     m_fates (set_queue_order ORDER_DEADLINE sample_inactive) @ [Answered 9]"
  using inactive_final [OF sample_manager sample_inactive_reach sample_inactive(2) poa_steps.step [OF poa_steps.start poa_step.set_order]]
  by (simp add: sample_request_def)

theorem inactive_threads_end_witness:
  "\<exists>m'. (threads_step ^^ 1) sample_inactive m' \<and> 1 \<le> work sample_inactive"
proof -
  obtain m' where "threads_step sample_inactive m'"
    using thread_enabled [OF sample_inactive(3)] by (auto simp: ExecThread_def)
  then have "(threads_step ^^ 1) sample_inactive m'" by (simp only: relpowp_1)
  with inactive_threads_end [OF sample_manager sample_inactive_reach sample_inactive(2)] show ?thesis by blast
qed

end
