(* ===== verification/Poa_Starvation.thy ===== *)
theory Poa_Starvation
  imports Poa_Service
begin

text \<open>
  Behaviours of the POA manager that its operations do not intend: the drift of the counter of active threads while
  the manager is idle, waits for completion that never wait, and a bound on the queue that cannot be changed.
\<close>

section \<open>The counter of active threads\<close>

text \<open>A thread that waits for the starving time without a request, and may not die, has counted itself active again:
  its first-time flag is cleared only after a request.\<close>

definition idle :: "nat \<Rightarrow> manager \<Rightarrow> bool" where
  "idle t m \<longleftrightarrow> m_threads m t = Some ExecThread \<and> queue_waits (m_queue m) \<and> \<not> threadCanDie (m_pool m)"

lemma idle_cycle:
  assumes "idle t m"
  shows "poa_steps m (m\<lparr>m_pool := setActive True (m_pool m)\<rparr>)"
proof -
  let ?a = "set_thread t (ExecThread\<lparr>th_pc := Getting\<rparr>) m" and ?b = "set_thread t (ExecThread\<lparr>th_pc := Waiting\<rparr>) m"
  let ?c = "set_thread t (ExecThread\<lparr>th_pc := Got None\<rparr>) m" and ?d = "m\<lparr>m_pool := setActive True (m_pool m)\<rparr>"
  note T = poa_step.threads [where t = t]
  have "run_enter t ExecThread m = Some ?a" by (simp add: run_enter_def ExecThread_def)
  then have a: "poa_step m ?a" using assms thread_step.enter by (intro T) (auto simp: idle_def)
  have "run_get t (ExecThread\<lparr>th_pc := Getting\<rparr>) ?a = Some ?b" using assms by (simp add: run_get_def set_thread_def idle_def)
  then have b: "poa_step ?a ?b" using thread_step.get by (intro T) auto
  have "run_wake t (ExecThread\<lparr>th_pc := Waiting\<rparr>) ?b = Some ?c"
    using assms by (simp add: run_wake_def take_from_queue_def set_thread_def idle_def queue_waits_def queue_get_def)
  then have c: "poa_step ?b ?c" using thread_step.wake by (intro T) auto
  have "run_active t (ExecThread\<lparr>th_pc := Got None\<rparr>) ?c = Some ?d"
    using assms by (simp add: run_active_def set_thread_def idle_def ExecThread_def threadCanDie_def setActive_def Let_def fun_upd_idem)
  then have d: "poa_step ?c ?d" using thread_step.active by (intro T) auto
  show ?thesis by (rule poa_steps.step [OF poa_steps.step [OF poa_steps.step [OF poa_steps.step [OF poa_steps.start a] b] c] d])
qed

lemma idle_drift:
  "idle t m \<Longrightarrow> \<exists>p. poa_steps m (m\<lparr>m_pool := p\<rparr>) \<and> idle t (m\<lparr>m_pool := p\<rparr>) \<and> pl_active p = pl_active (m_pool m) + word_of_nat n"
proof (induction n)
  case 0
  then show ?case by (intro exI [of _ "m_pool m"]) (simp add: poa_steps.start)
next
  case (Suc n)
  then obtain p where p: "poa_steps m (m\<lparr>m_pool := p\<rparr>)" "idle t (m\<lparr>m_pool := p\<rparr>)" "pl_active p = pl_active (m_pool m) + word_of_nat n"
    by blast
  have "poa_steps m (m\<lparr>m_pool := setActive True p\<rparr>)" using poa_steps_trans [OF p(1) idle_cycle [OF p(2)]] by simp
  moreover have "idle t (m\<lparr>m_pool := setActive True p\<rparr>)"
    using p(2) by (simp add: idle_def threadCanDie_def setActive_def Let_def)
  ultimately show ?case using p(3) by (intro exI [of _ "setActive True p"]) (simp add: setActive_def Let_def ac_simps)
qed

lemma spawn_loop_minimum:
  "spawn_loop outs p = Inr p' \<Longrightarrow> pl_used p \<le> pl_minThreads p \<Longrightarrow>
   pl_used p' \<le> pl_minThreads p' \<and> pl_active p' = pl_active p"
proof (induction outs p rule: spawn_loop.induct)
  case (1 outs p)
  show ?case
  proof (cases "pl_used p < pl_minThreads p")
    case True
    then obtain sp outs' where outs: "outs = sp # outs'" "spawn_loop outs' (createThread sp p) = Inr p'"
      using "1.prems"(1) spawn_loop.simps [of outs p] by (auto split: list.splits)
    have "pl_used (createThread sp p) \<le> pl_minThreads (createThread sp p)"
      using True "1.prems"(2) by (cases sp) (auto simp: inc_le)
    moreover have "pl_active (createThread sp p) = pl_active p" by (cases sp) auto
    ultimately show ?thesis using "1.IH" [OF True outs(1) outs(2)] by simp
  next
    case False
    then show ?thesis using "1.prems" spawn_loop.simps [of outs p] by auto
  qed
qed

lemma new_manager_idle:
  assumes "POAManagerImpl c outs ord = Inr m" "m_threads m t \<noteq> None"
  shows "idle t m" "q_items (m_queue m) = []" "m_fates m = []" "pl_active (m_pool m) = 0"
    "q_maxAvailable (m_queue m) = ucast (max_queued_requests c + max_threads c)" "\<not> executing m u r"
proof -
  obtain p where p: "minThreadsHasChanged c outs (ThreadPool c) = Inr p" "m_pool m = p" "m_threads m = start_threads 0 p (\<lambda>_. None)"
    using assms(1) by (auto simp: POAManagerImpl_def)
  have "pl_used p \<le> pl_minThreads p \<and> pl_active p = 0"
    using spawn_loop_minimum [of outs "ThreadPool c\<lparr>pl_minThreads := min_threads c\<rparr>" p] p(1)
    by (simp add: minThreadsHasChanged_def ThreadPool_def)
  moreover have "pl_deactivated p = False" using minThreadsHasChanged_flag [OF p(1)] by (simp add: ThreadPool_def)
  ultimately show "idle t m" "pl_active (m_pool m) = 0"
    using assms p(2,3) by (auto simp: idle_def POAManagerImpl_def threadCanDie_def queue_waits_def RequestQueue_def start_threads_def not_less split: if_splits)
  show "q_items (m_queue m) = []" "m_fates m = []" "q_maxAvailable (m_queue m) = ucast (max_queued_requests c + max_threads c)"
    using assms(1) by (auto simp: POAManagerImpl_def RequestQueue_def)
  show "\<not> executing m u r" by (auto simp: executing_def p(3) start_threads_def ExecThread_def split: if_splits)
qed

text \<open>C33. A manager that is left idle comes to reject every request: the thread of the minimum counts itself active once
  in each starving period, and when the count reaches the bound of the queue, \<^verbatim>\<open>add\<close> answers \<^verbatim>\<open>TRANSIENT\<close> although the
  queue is empty and no request is being executed.\<close>

theorem idle_manager_rejects:
  assumes "POAManagerImpl c outs ord = Inr m" "m_threads m t \<noteq> None"
  shows "\<exists>m'. poa_steps m m' \<and> q_items (m_queue m') = [] \<and> (\<forall>u r. \<not> executing m' u r) \<and>
    (\<forall>sp r. m_fates (poa_put sp r m') = [Answered (req_id r)])"
proof -
  note new = new_manager_idle [OF assms]
  let ?n = "unat (max_queued_requests c + max_threads c)"
  obtain p where p: "poa_steps m (m\<lparr>m_pool := p\<rparr>)" "pl_active p = word_of_nat ?n"
    using idle_drift [OF new(1), of ?n] new(4) by auto
  have "\<not> executing (m\<lparr>m_pool := p\<rparr>) u r" for u r using new(6) by (simp add: executing_def)
  moreover have "m_fates (poa_put sp r (m\<lparr>m_pool := p\<rparr>)) = [Answered (req_id r)]" for sp r
    using new(2,3,5) p(2) by (simp add: poa_put_def queue_add_def queue_full_def)
  ultimately show ?thesis using p(1) new(2) by (intro exI [of _ "m\<lparr>m_pool := p\<rparr>"]) simp
qed

theorem idle_manager_rejects_witness:
  "\<exists>m'. poa_steps sample_manager m' \<and> q_items (m_queue m') = [] \<and> (\<forall>sp r. m_fates (poa_put sp r m') = [Answered (req_id r)])"
proof -
  have "m_threads sample_manager 0 \<noteq> None" by (simp add: sample_defs start_threads_def)
  from idle_manager_rejects [OF sample_manager this] show ?thesis by blast
qed

section \<open>Waiting for completion\<close>

text \<open>\<^verbatim>\<open>hold_requests\<close>, \<^verbatim>\<open>discard_requests\<close> and \<^verbatim>\<open>deactivate\<close> raise the stop flag of the completion waiter before they
  wait, so that a call that changes the state returns at once, however many requests are still being executed; the flag
  is then cleared, so that the caller it was meant for stays in its wait while requests are active.\<close>

theorem completion_never_waits:
  assumes "op \<in> {hold_requests, discard_requests, deactivate}" "op m = Inr m'" "m_state m' \<noteq> m_state m"
  shows "wait_completion m' = Some (m'\<lparr>m_completion := (m_completion m)\<lparr>stop_waiting := False\<rparr>\<rparr>) \<and>
    (active_requests (m_completion m) \<noteq> 0 \<longrightarrow> keeps_waiting ((m_completion m)\<lparr>stop_waiting := False\<rparr>))"
  using assms
  by (auto simp: hold_requests_def discard_requests_def deactivate_def change_state_def wait_completion_def
      waitForCompletion_def keeps_waiting_def stopWaiting_def split: if_splits)

theorem completion_never_waits_witness:
  "\<exists>m'. deactivate (begin_request sample_put) = Inr m' \<and> active_requests (m_completion m') = 1 \<and> wait_completion m' \<noteq> None"
proof -
  obtain m' where m: "deactivate (begin_request sample_put) = Inr m'" "m_state m' = INACTIVE"
    "active_requests (m_completion m') = active_requests (m_completion sample_put) + 1"
    by (simp add: deactivate_def begin_request_def beginRequest_def stopWaiting_def sample_put_fields)
  moreover have "active_requests (m_completion sample_put) = 0" by (simp add: sample_defs CompletionWaiter_def)
  ultimately show ?thesis using completion_never_waits [of deactivate "begin_request sample_put" m']
    by (simp add: begin_request_def sample_put_fields)
qed

section \<open>Threads that hold a request\<close>

text \<open>A thread that waits in \<^verbatim>\<open>checkState\<close> does nothing itself, and only \<^verbatim>\<open>activate\<close>, \<^verbatim>\<open>hold_requests\<close> and
  \<^verbatim>\<open>discard_requests\<close> notify it.\<close>

lemma thread_step_other:
  "thread_step u th m m' \<Longrightarrow> t \<noteq> u \<Longrightarrow> m_threads m' t = m_threads m t"
  by (erule thread_stepE)
    (auto simp: run_enter_def run_get_def run_wake_def run_active_def run_check_def run_finish_def run_exit_def
      end_request_def Let_def split: if_splits pc.splits option.splits bool.splits)

lemma holding_stuck: "th_pc th = Holding r \<Longrightarrow> \<not> thread_step t th m m'"
  by (auto elim!: thread_stepE
      simp: run_enter_def run_get_def run_wake_def run_active_def run_check_def run_finish_def run_exit_def split: if_splits)

lemma start_threads_old: "t < n \<Longrightarrow> start_threads n p f t = f t"
  by (simp add: start_threads_def)

lemma poa_step_holding:
  assumes "poa_step m m'" "stopping m" "m_threads m t = Some th" "th_pc th = Holding r"
  shows "m_threads m' t = Some th"
proof -
  have "t < pl_next (m_pool m)" and inactive: "m_state m = INACTIVE"
    using assms(2,3) by (auto simp: stopping_def conserved_def threads_ok_def)
  note old = start_threads_old [OF this(1)]
  from assms(1) show ?thesis
  proof cases
    case (threads u th')
    then show ?thesis using thread_step_other [of u th' m m' t] holding_stuck assms(3,4) by (cases "t = u") auto
  next
    case (put sp r)
    then show ?thesis using assms(3) by (simp add: poa_put_def case_prod_unfold Let_def old)
  next
    case (set_min n outs)
    then show ?thesis using assms(3) by (auto simp: set_min_threads_def old)
  qed (use assms(3) inactive in \<open>auto simp: mgr_ops split: if_splits option.splits\<close>)
qed

lemma poa_step_stopping: "poa_step m m' \<Longrightarrow> stopping m \<Longrightarrow> stopping m'"
  using poa_step_conserved poa_step_marked poa_step_inactive by (auto simp: stopping_def)

lemma reachable_holding:
  "poa_steps m m' \<Longrightarrow> stopping m \<Longrightarrow> m_threads m t = Some th \<Longrightarrow> th_pc th = Holding r \<Longrightarrow> stopping m' \<and> m_threads m' t = Some th"
proof (induction rule: poa_steps.induct)
  case (step m' m'')
  then show ?case using poa_step_stopping poa_step_holding by blast
qed simp

text \<open>C32. \<^verbatim>\<open>deactivate\<close> does not notify the threads that wait in \<^verbatim>\<open>checkState\<close> because the manager was holding: such a
  thread never leaves the wait, whatever happens afterwards, and its request is never answered.\<close>

theorem deactivated_holder_blocks:
  assumes "POAManagerImpl c outs ord = Inr m0" "poa_steps m0 m" "deactivate m = Inr m1"
    "m_threads m t = Some th" "th_pc th = Holding r" "poa_steps m1 m'"
  shows "m_threads m' t = Some th"
proof -
  have s: "poa_steps m0 m1" by (rule poa_steps.step [OF assms(2) poa_step.deactivate [OF assms(3)]])
  have "m_state m1 = INACTIVE" "m_threads m1 t = Some th" using assms(3,4) by (auto simp: deactivate_def split: if_splits)
  moreover have "conserved m1" "marked m1"
    using reachable_marked [OF s] POAManagerImpl_marked [OF assms(1)] reachable_conserved [OF s] POAManagerImpl_conserved [OF assms(1)] by auto
  ultimately show ?thesis using reachable_holding [OF assms(6)] assms(5) by (simp add: stopping_def)
qed

definition sample_holding :: manager where
  "sample_holding =
     (let r = sample_request 7 0; th = ExecThread\<lparr>th_pc := Got (Some r)\<rparr>;
          m = sample_taken\<lparr>m_pool := setActive True (m_pool sample_taken)\<rparr>
      in set_thread 0 (th\<lparr>th_pc := Holding r\<rparr>) m)"

lemma sample_holding_reach: "poa_steps sample_manager sample_holding"
proof -
  let ?r = "sample_request 7 0" and ?th = "ExecThread\<lparr>th_pc := Checking (sample_request 7 0)\<rparr>"
  let ?c = "set_thread 0 ?th (sample_taken\<lparr>m_pool := setActive True (m_pool sample_taken)\<rparr>)"
  have t: "m_threads sample_taken 0 = Some (ExecThread\<lparr>th_pc := Got (Some ?r)\<rparr>)" "m_state sample_taken = HOLDING"
    by (simp_all add: sample_taken_def take_from_queue_def queue_get_def sample_put_fields)
  have "run_active 0 (ExecThread\<lparr>th_pc := Got (Some ?r)\<rparr>) sample_taken = Some ?c" by (simp add: run_active_def ExecThread_def)
  then have 1: "poa_step sample_taken ?c" using poa_step.threads [OF t(1)] thread_step.active by blast
  have "run_check 0 ?th ?c = Some sample_holding"
    using t(2) by (simp add: run_check_def checkState_def sample_holding_def set_thread_def Let_def)
  then have "poa_step ?c sample_holding" using poa_step.threads [of ?c 0 ?th] thread_step.check by simp
  with 1 sample_taken_reach show ?thesis by (blast intro: poa_steps.step)
qed

theorem deactivated_holder_blocks_witness:
  "\<exists>m1. deactivate sample_holding = Inr m1 \<and>
     (\<forall>order. m_threads (set_queue_order order m1) 0 = Some (ExecThread\<lparr>th_pc := Holding (sample_request 7 0)\<rparr>))"
proof -
  have "m_state sample_holding = HOLDING" "m_destroyed sample_holding = False"
    by (simp_all add: sample_holding_def sample_taken_def take_from_queue_def case_prod_unfold Let_def sample_put_fields)
  then obtain m1 where m1: "deactivate sample_holding = Inr m1" by (simp add: deactivate_def)
  have h: "m_threads sample_holding 0 = Some (ExecThread\<lparr>th_pc := Holding (sample_request 7 0)\<rparr>)"
    by (simp add: sample_holding_def)
  have "m_threads (set_queue_order order m1) 0 = Some (ExecThread\<lparr>th_pc := Holding (sample_request 7 0)\<rparr>)" for order
    by (rule deactivated_holder_blocks [OF sample_manager sample_holding_reach m1 h _ poa_steps.step [OF poa_steps.start poa_step.set_order]])
      (simp add: ExecThread_def)
  with m1 show ?thesis by blast
qed

section \<open>The bound of the queue\<close>

text \<open>The bound on queued requests is computed when the manager is built; \<^verbatim>\<open>set_max_queued_requests\<close> changes only the
  configuration.\<close>

lemma set_max_queued_requests_no_effect:
  "set_max_queued_requests n m = Inr m' \<Longrightarrow> m_queue m' = m_queue m \<and> m_pool m' = m_pool m \<and> max_queued_requests (m_conf m') = n"
  by (auto simp: set_max_queued_requests_def setMaxQueuedRequests_def split: if_splits)

text \<open>Setting the order that the manager already has undoes it: the queue goes over to the temporal order, and every
  request in it is dropped without an answer.\<close>

theorem set_order_twice:
  assumes "order \<in> {ORDER_PRIORITY, ORDER_DEADLINE}" "m_queue_order m = order" "q_comparator (m_queue m) \<noteq> TEMPORAL"
  shows "q_comparator (m_queue (set_queue_order order m)) = TEMPORAL \<and> m_queue_order (set_queue_order order m) = order \<and>
    q_items (m_queue (set_queue_order order m)) = [] \<and>
    m_fates (set_queue_order order m) = m_fates m @ map (\<lambda>r. Dropped (req_id r)) (q_items (m_queue m))"
  using assms by (auto simp: set_queue_order_def use_comparator_def setComparator_def discardAll_def)

theorem set_order_twice_witness:
  "q_comparator (m_queue (set_queue_order ORDER_PRIORITY (set_queue_order ORDER_PRIORITY sample_manager))) = TEMPORAL"
proof -
  have "m_queue_order (set_queue_order ORDER_PRIORITY sample_manager) = ORDER_PRIORITY"
    "q_comparator (m_queue (set_queue_order ORDER_PRIORITY sample_manager)) = PRIORITY"
    by (simp_all add: set_queue_order_def use_comparator_def setComparator_def discardAll_def sample_defs)
  with set_order_twice [of ORDER_PRIORITY "set_queue_order ORDER_PRIORITY sample_manager"] show ?thesis by simp
qed

end
