(* ===== verification/Object_Map.thy ===== *)
theory Object_Map
  imports Prelude
begin

text \<open>
  The active object map of a POA (\<^verbatim>\<open>core/poa/ActiveObjectMap.C\<close>) and the order of object ids it is sorted by
  (\<^verbatim>\<open>core/poa/OID.C\<close>). The \<^verbatim>\<open>std::map\<close> is a list of keys and elements in increasing order; the reference counts of
  the servants, which the elements hold, are part of the state.
\<close>

section \<open>Object ids\<close>

type_synonym oid = "octet list"

text \<open>The sign of \<^verbatim>\<open>memcmp\<close> on two blocks of the same length.\<close>

fun memcmp :: "octet list \<Rightarrow> octet list \<Rightarrow> int" where
  "memcmp (x # xs) (y # ys) = (if x < y then - 1 else if x > y then 1 else memcmp xs ys)"
| "memcmp _ _ = 0"

definition OID_eq :: "oid \<Rightarrow> oid \<Rightarrow> bool" where
  "OID_eq a b \<longleftrightarrow> (if length a \<noteq> length b then False else if length a = 0 then True else memcmp a b = 0)"

definition OID_lt :: "oid \<Rightarrow> oid \<Rightarrow> bool" where
  "OID_lt a b \<longleftrightarrow>
     (if length a > length b then False else if length a < length b then True
      else if length a = 0 then False else memcmp a b < 0)"

section \<open>Sorted tables\<close>

text \<open>\<^verbatim>\<open>std::map\<close> with the order \<open>lt\<close> of its keys: two keys are the same when neither precedes the other.\<close>

fun map_find :: "('k \<Rightarrow> 'k \<Rightarrow> bool) \<Rightarrow> 'k \<Rightarrow> ('k \<times> 'v) list \<Rightarrow> 'v option" where
  "map_find lt k [] = None"
| "map_find lt k ((k', v) # t) = (if \<not> lt k k' \<and> \<not> lt k' k then Some v else map_find lt k t)"

fun map_assign :: "('k \<Rightarrow> 'k \<Rightarrow> bool) \<Rightarrow> 'k \<Rightarrow> 'v \<Rightarrow> ('k \<times> 'v) list \<Rightarrow> ('k \<times> 'v) list" where
  "map_assign lt k v [] = [(k, v)]"
| "map_assign lt k v ((k', v') # t) =
     (if lt k k' then (k, v) # (k', v') # t else if lt k' k then (k', v') # map_assign lt k v t else (k', v) # t)"

fun map_erase :: "('k \<Rightarrow> 'k \<Rightarrow> bool) \<Rightarrow> 'k \<Rightarrow> ('k \<times> 'v) list \<Rightarrow> ('k \<times> 'v) list" where
  "map_erase lt k [] = []"
| "map_erase lt k ((k', v) # t) = (if \<not> lt k k' \<and> \<not> lt k' k then t else (k', v) # map_erase lt k t)"

section \<open>The active object map\<close>

record aom_element =
  num_users :: ulong
  servant :: nat
  destroying :: bool

record aom =
  aom_table :: "(oid \<times> aom_element) list"
  servant_refs :: "nat \<Rightarrow> int"

definition AOMElement :: "nat \<Rightarrow> aom_element" where
  "AOMElement s = \<lparr>num_users = 1, servant = s, destroying = False\<rparr>"

definition add_ref :: "nat \<Rightarrow> aom \<Rightarrow> aom" where
  "add_ref s a = a\<lparr>servant_refs := (servant_refs a)(s := servant_refs a s + 1)\<rparr>"

definition remove_ref :: "nat \<Rightarrow> aom \<Rightarrow> aom" where
  "remove_ref s a = a\<lparr>servant_refs := (servant_refs a)(s := servant_refs a s - 1)\<rparr>"

definition aom_find :: "oid \<Rightarrow> aom \<Rightarrow> aom_element option" where
  "aom_find oid a = map_find OID_lt oid (aom_table a)"

fun contains_loop :: "nat \<Rightarrow> (oid \<times> aom_element) list \<Rightarrow> bool" where
  "contains_loop s [] = False"
| "contains_loop s ((k, e) # t) = (if servant e = s then True else contains_loop s t)"

definition aom_contains :: "nat \<Rightarrow> aom \<Rightarrow> bool" where
  "aom_contains s a = contains_loop s (aom_table a)"

definition aom_put :: "oid \<Rightarrow> nat \<Rightarrow> bool \<Rightarrow> aom \<Rightarrow> aom res" where
  "aom_put oid s uniqueId a =
     (if aom_find oid a \<noteq> None then Inl ObjectAlreadyActive
      else if uniqueId \<and> aom_contains s a then Inl ServantAlreadyActive
      else Inr ((add_ref s a)\<lparr>aom_table := map_assign OID_lt oid (AOMElement s) (aom_table a)\<rparr>))"

definition aom_get :: "oid \<Rightarrow> aom \<Rightarrow> nat res" where
  "aom_get oid a = (case aom_find oid a of None \<Rightarrow> Inl ObjectNotActive | Some e \<Rightarrow> Inr (servant e))"

definition get_if_Active :: "oid \<Rightarrow> aom \<Rightarrow> nat option" where
  "get_if_Active oid a = (case aom_find oid a of None \<Rightarrow> None | Some e \<Rightarrow> Some (servant e))"

text \<open>The erased element is destroyed, and gives its reference to the servant back.\<close>

definition aom_remove :: "oid \<Rightarrow> aom \<Rightarrow> (nat \<times> aom) res" where
  "aom_remove oid a =
     (case aom_find oid a of None \<Rightarrow> Inl ObjectNotActive
      | Some e \<Rightarrow> Inr (servant e, (remove_ref (servant e) a)\<lparr>aom_table := map_erase OID_lt oid (aom_table a)\<rparr>))"

definition get_and_remove :: "oid \<Rightarrow> aom \<Rightarrow> (nat \<times> aom) res" where
  "get_and_remove oid a =
     (case aom_find oid a of None \<Rightarrow> Inl ObjectNotActive
      | Some e \<Rightarrow> Inr (servant e, (remove_ref (servant e) (add_ref (servant e) a))\<lparr>aom_table := map_erase OID_lt oid (aom_table a)\<rparr>))"

definition isActive :: "oid \<Rightarrow> aom \<Rightarrow> bool" where
  "isActive oid a \<longleftrightarrow> aom_find oid a \<noteq> None"

fun get_oid_loop :: "nat \<Rightarrow> (oid \<times> aom_element) list \<Rightarrow> oid res" where
  "get_oid_loop s [] = Inl ServantNotFound"
| "get_oid_loop s ((k, e) # t) = (if servant e = s then Inr k else get_oid_loop s t)"

definition get_oid :: "nat \<Rightarrow> aom \<Rightarrow> oid res" where
  "get_oid s a = get_oid_loop s (aom_table a)"

definition set_element :: "oid \<Rightarrow> aom_element \<Rightarrow> aom \<Rightarrow> aom" where
  "set_element oid e a = a\<lparr>aom_table := map_assign OID_lt oid e (aom_table a)\<rparr>"

definition addUser_if_Active :: "oid \<Rightarrow> aom \<Rightarrow> bool \<times> aom" where
  "addUser_if_Active oid a =
     (case aom_find oid a of None \<Rightarrow> (False, a) | Some e \<Rightarrow> (True, set_element oid (e\<lparr>num_users := num_users e + 1\<rparr>) a))"

definition addUser :: "oid \<Rightarrow> aom \<Rightarrow> aom res" where
  "addUser oid a =
     (case aom_find oid a of None \<Rightarrow> Inl ObjectNotActive | Some e \<Rightarrow> Inr (set_element oid (e\<lparr>num_users := num_users e + 1\<rparr>) a))"

definition removeUser :: "oid \<Rightarrow> aom \<Rightarrow> (bool \<times> aom) res" where
  "removeUser oid a =
     (case aom_find oid a of None \<Rightarrow> Inl ObjectNotActive
      | Some e \<Rightarrow> (let e = e\<lparr>num_users := num_users e - 1\<rparr> in Inr (num_users e \<le> 0, set_element oid e a)))"

definition removeUser_if_Active :: "oid \<Rightarrow> aom \<Rightarrow> bool \<times> aom" where
  "removeUser_if_Active oid a =
     (case aom_find oid a of None \<Rightarrow> (False, a)
      | Some e \<Rightarrow> (let e = e\<lparr>num_users := num_users e - 1\<rparr> in (num_users e \<le> 0, set_element oid e a)))"

definition aom_destroy :: "oid \<Rightarrow> aom \<Rightarrow> aom res" where
  "aom_destroy oid a =
     (case aom_find oid a of None \<Rightarrow> Inl ObjectNotActive | Some e \<Rightarrow> Inr (set_element oid (e\<lparr>destroying := True\<rparr>) a))"

definition isDestroying :: "oid \<Rightarrow> aom \<Rightarrow> aom_element option" where
  "isDestroying oid a = (case aom_find oid a of None \<Rightarrow> None | Some e \<Rightarrow> if destroying e then Some e else None)"

section \<open>What a sorted table promises\<close>

locale key_order =
  fixes lt :: "'k \<Rightarrow> 'k \<Rightarrow> bool"
  assumes lt_irrefl: "\<not> lt x x"
    and lt_trans: "lt x y \<Longrightarrow> lt y z \<Longrightarrow> lt x z"
    and lt_total: "lt x y \<or> x = y \<or> lt y x"
begin

lemma same_iff: "\<not> lt x y \<and> \<not> lt y x \<longleftrightarrow> x = y"
  using lt_irrefl lt_total by blast

definition ordered :: "('k \<times> 'v) list \<Rightarrow> bool" where
  "ordered t \<longleftrightarrow> sorted_wrt (\<lambda>x y. lt (fst x) (fst y)) t"

lemma ordered_Cons: "ordered (p # t) \<longleftrightarrow> (\<forall>q \<in> set t. lt (fst p) (fst q)) \<and> ordered t"
  by (simp add: ordered_def)

lemma ordered_distinct: "ordered t \<Longrightarrow> distinct (map fst t)"
  by (induction t) (auto simp: ordered_Cons lt_irrefl)

lemma find_map_of: "map_find lt k t = map_of t k"
  by (induction t) (auto simp: same_iff lt_irrefl)

lemma assign_keys: "fst ` set (map_assign lt k v t) = insert k (fst ` set t)"
proof (induction t)
  case (Cons p t)
  then show ?case using lt_total by (cases p) (force simp: image_iff)
qed simp

lemma assign_ordered: "ordered t \<Longrightarrow> ordered (map_assign lt k v t)"
proof (induction t)
  case (Cons p t)
  obtain k' v' where p: "p = (k', v')" by (cases p)
  have "lt k' (fst q)" if q: "q \<in> set (map_assign lt k v t)" "lt k' k" for q
  proof -
    have "fst q \<in> insert k (fst ` set t)" using imageI [OF q(1), of fst] by (simp only: assign_keys)
    then show ?thesis using q(2) Cons.prems p by (auto simp: ordered_Cons)
  qed
  moreover have "lt k (fst q)" if "q \<in> set t" "lt k k'" for q
    using that Cons.prems p lt_trans by (auto simp: ordered_Cons)
  ultimately show ?case using Cons p by (auto simp: ordered_Cons)
qed (simp add: ordered_def)

lemma assign_map_of: "map_of (map_assign lt k v t) = (map_of t)(k \<mapsto> v)"
proof (induction t)
  case (Cons p t)
  then show ?case using lt_irrefl lt_total by (cases p) (fastforce simp: fun_eq_iff)
qed simp

lemma erase_subset: "set (map_erase lt k t) \<subseteq> set t"
  by (induction t) (auto split: if_splits)

lemma erase_ordered: "ordered t \<Longrightarrow> ordered (map_erase lt k t)"
proof (induction t)
  case (Cons p t)
  then show ?case using erase_subset [of k t] by (cases p) (auto simp: ordered_Cons)
qed simp

lemma erase_map_of: "ordered t \<Longrightarrow> map_of (map_erase lt k t) = (map_of t)(k := None)"
proof (induction t)
  case (Cons p t)
  obtain k' v where p: "p = (k', v)" by (cases p)
  have "map_of t k' = None" using Cons.prems p lt_irrefl by (force simp: ordered_Cons map_of_eq_None_iff)
  then show ?case using Cons p by (auto simp: ordered_Cons same_iff fun_eq_iff)
qed simp

end

section \<open>The order of object ids\<close>

lemma memcmp_sym: "length a = length b \<Longrightarrow> memcmp b a = - memcmp a b"
  by (induction a b rule: list_induct2) auto

lemma memcmp_zero: "length a = length b \<Longrightarrow> memcmp a b = 0 \<longleftrightarrow> a = b"
  by (induction a b rule: list_induct2) auto

lemma memcmp_trans: "length a = length b \<Longrightarrow> length b = length c \<Longrightarrow> memcmp a b < 0 \<Longrightarrow> memcmp b c < 0 \<Longrightarrow> memcmp a c < 0"
  by (induction a b c rule: list_induct3) (auto split: if_splits)

interpretation oids: key_order OID_lt
proof
  fix x y z :: oid
  show "\<not> OID_lt x x" using memcmp_zero [of x x] by (simp add: OID_lt_def)
  show "OID_lt x y \<Longrightarrow> OID_lt y z \<Longrightarrow> OID_lt x z"
    using memcmp_trans [of x y z] by (auto simp: OID_lt_def split: if_splits)
  show "OID_lt x y \<or> x = y \<or> OID_lt y x"
  proof (cases "length x = length y")
    case True
    then have "memcmp x y < 0 \<or> x = y \<or> memcmp y x < 0" using memcmp_zero [OF True] memcmp_sym [OF True] by linarith
    then show ?thesis using True by (auto simp: OID_lt_def)
  qed (auto simp: OID_lt_def)
qed

lemma OID_eq_iff: "OID_eq a b \<longleftrightarrow> a = b"
  using memcmp_zero [of a b] by (auto simp: OID_eq_def)

section \<open>Operations as values\<close>

text \<open>The operations that change the map, and a map of object ids as their specification.\<close>

datatype aom_op = Put oid nat bool | Remove oid | Get_and_remove oid | Add_user oid | Remove_user oid | Destroy oid

fun aom_step :: "aom_op \<Rightarrow> aom \<Rightarrow> aom res" where
  "aom_step (Put k s u) a = aom_put k s u a"
| "aom_step (Remove k) a = rbind (aom_remove k a) (\<lambda>(s, a). Inr a)"
| "aom_step (Get_and_remove k) a = rbind (get_and_remove k a) (\<lambda>(s, a). Inr a)"
| "aom_step (Add_user k) a = addUser k a"
| "aom_step (Remove_user k) a = rbind (removeUser k a) (\<lambda>(last, a). Inr a)"
| "aom_step (Destroy k) a = aom_destroy k a"

definition update_if_active :: "(aom_element \<Rightarrow> aom_element option) \<Rightarrow> oid \<Rightarrow> (oid \<rightharpoonup> aom_element) \<Rightarrow> (oid \<rightharpoonup> aom_element) res" where
  "update_if_active f k M = (case M k of None \<Rightarrow> Inl ObjectNotActive | Some e \<Rightarrow> Inr (M(k := f e)))"

fun spec_step :: "aom_op \<Rightarrow> (oid \<rightharpoonup> aom_element) \<Rightarrow> (oid \<rightharpoonup> aom_element) res" where
  "spec_step (Put k s u) M =
     (if M k \<noteq> None then Inl ObjectAlreadyActive
      else if u \<and> (\<exists>e \<in> ran M. servant e = s) then Inl ServantAlreadyActive
      else Inr (M(k \<mapsto> \<lparr>num_users = 1, servant = s, destroying = False\<rparr>)))"
| "spec_step (Remove k) M = update_if_active (\<lambda>e. None) k M"
| "spec_step (Get_and_remove k) M = update_if_active (\<lambda>e. None) k M"
| "spec_step (Add_user k) M = update_if_active (\<lambda>e. Some (e\<lparr>num_users := num_users e + 1\<rparr>)) k M"
| "spec_step (Remove_user k) M = update_if_active (\<lambda>e. Some (e\<lparr>num_users := num_users e - 1\<rparr>)) k M"
| "spec_step (Destroy k) M = update_if_active (\<lambda>e. Some (e\<lparr>destroying := True\<rparr>)) k M"

fun run_ops :: "('o \<Rightarrow> 's \<Rightarrow> 's res) \<Rightarrow> 'o list \<Rightarrow> 's \<Rightarrow> 's" where
  "run_ops f [] s = s"
| "run_ops f (x # xs) s = run_ops f xs (case f x s of Inl _ \<Rightarrow> s | Inr s' \<Rightarrow> s')"

section \<open>Refinement\<close>

definition aom_ok :: "aom \<Rightarrow> bool" where
  "aom_ok a \<longleftrightarrow> oids.ordered (aom_table a)"

definition aom_abs :: "aom \<Rightarrow> oid \<rightharpoonup> aom_element" where
  "aom_abs a = map_of (aom_table a)"

lemma aom_find_abs: "aom_find k a = aom_abs a k"
  by (simp add: aom_find_def aom_abs_def oids.find_map_of)

lemma contains_iff: "aom_ok a \<Longrightarrow> aom_contains s a \<longleftrightarrow> (\<exists>e \<in> ran (aom_abs a). servant e = s)"
proof -
  assume "aom_ok a"
  then have "ran (aom_abs a) = snd ` set (aom_table a)"
    using oids.ordered_distinct ran_distinct by (auto simp: aom_ok_def aom_abs_def)
  moreover have "contains_loop s t \<longleftrightarrow> (\<exists>p \<in> set t. servant (snd p) = s)" for t
    by (induction t rule: contains_loop.induct) auto
  ultimately show ?thesis by (simp add: aom_contains_def)
qed

lemma aom_step_refines:
  assumes "aom_ok a"
  shows "case aom_step op a of Inl e \<Rightarrow> spec_step op (aom_abs a) = Inl e
    | Inr a' \<Rightarrow> aom_ok a' \<and> spec_step op (aom_abs a) = Inr (aom_abs a')"
proof -
  note defs = aom_put_def aom_remove_def get_and_remove_def addUser_def removeUser_def aom_destroy_def set_element_def
    add_ref_def remove_ref_def AOMElement_def update_if_active_def aom_find_abs contains_iff [OF assms] Let_def
  have ok: "oids.ordered (aom_table a)" using assms by (simp add: aom_ok_def)
  show ?thesis
    by (cases op)
      (auto simp: defs aom_ok_def aom_abs_def oids.assign_ordered oids.erase_ordered oids.assign_map_of oids.erase_map_of ok split: option.splits)
qed

definition aom_new :: "(nat \<Rightarrow> int) \<Rightarrow> aom" where
  "aom_new r = \<lparr>aom_table = [], servant_refs = r\<rparr>"

lemma aom_new_ok: "aom_ok (aom_new r)" "aom_abs (aom_new r) = Map.empty"
  by (simp_all add: aom_new_def aom_ok_def aom_abs_def oids.ordered_def)

lemma aom_step_ok: "aom_ok a \<Longrightarrow> aom_step op a = Inr a' \<Longrightarrow> aom_ok a'"
  using aom_step_refines [of a op] by simp

lemma run_ops_inv:
  assumes "\<And>x s s'. P s \<Longrightarrow> x \<in> set xs \<Longrightarrow> f x s = Inr s' \<Longrightarrow> P s'" "P s"
  shows "P (run_ops f xs s)"
  using assms
proof (induction xs arbitrary: s)
  case (Cons x xs)
  have "P (case f x s of Inl _ \<Rightarrow> s | Inr s' \<Rightarrow> s')"
    using Cons.prems(1) [of s x] Cons.prems(2) by (cases "f x s") auto
  moreover have "\<And>y s s'. P s \<Longrightarrow> y \<in> set xs \<Longrightarrow> f y s = Inr s' \<Longrightarrow> P s'" using Cons.prems(1) by (meson list.set_intros(2))
  ultimately show ?case using Cons.IH by simp
qed simp

lemma run_aom_ok: "aom_ok a \<Longrightarrow> aom_ok (run_ops aom_step ops a)"
  by (rule run_ops_inv [where P = aom_ok]) (auto dest: aom_step_ok)

lemma run_aom_refines: "aom_ok a \<Longrightarrow> aom_abs (run_ops aom_step ops a) = run_ops spec_step ops (aom_abs a)"
proof (induction ops arbitrary: a)
  case (Cons op ops)
  then show ?case using aom_step_refines [OF Cons.prems, of op] by (auto split: sum.splits)
qed simp

section \<open>References\<close>

definition entries :: "nat \<Rightarrow> (oid \<times> aom_element) list \<Rightarrow> int" where
  "entries s t = int (length (filter (\<lambda>p. servant (snd p) = s) t))"

lemma entries_simps [simp]:
  "entries s [] = 0" "entries s ((k, e) # t) = (if servant e = s then 1 else 0) + entries s t"
  by (simp_all add: entries_def)

lemma entries_assign:
  "entries s (map_assign OID_lt k e t) = entries s t + (if servant e = s then 1 else 0) -
     (case map_find OID_lt k t of None \<Rightarrow> 0 | Some e' \<Rightarrow> if servant e' = s then 1 else 0)"
  if "oids.ordered t"
  using that
proof (induction t)
  case (Cons p t)
  obtain k' e' where p: "p = (k', e')" by (cases p)
  have "map_find OID_lt k t = None" if "OID_lt k k'"
  proof -
    have "OID_lt k (fst q)" if "q \<in> set t" for q
      using Cons.prems p \<open>OID_lt k k'\<close> oids.lt_trans that by (auto simp: oids.ordered_Cons)
    then show ?thesis using oids.lt_irrefl by (force simp: oids.find_map_of map_of_eq_None_iff)
  qed
  then show ?case using Cons p by (auto simp: oids.ordered_Cons split: option.splits)
qed simp

lemma entries_erase:
  "entries s (map_erase OID_lt k t) = entries s t - (case map_find OID_lt k t of None \<Rightarrow> 0 | Some e \<Rightarrow> if servant e = s then 1 else 0)"
  by (induction t) (auto split: option.splits if_splits)

definition refs_ok :: "(nat \<Rightarrow> int) \<Rightarrow> aom \<Rightarrow> bool" where
  "refs_ok r a \<longleftrightarrow> aom_ok a \<and> (\<forall>s. r s + entries s (aom_table a) \<le> servant_refs a s)"

lemma aom_step_refs: "refs_ok r a \<Longrightarrow> aom_step op a = Inr a' \<Longrightarrow> refs_ok r a'"
proof -
  assume r: "refs_ok r a" and st: "aom_step op a = Inr a'"
  note defs = aom_put_def aom_remove_def get_and_remove_def addUser_def removeUser_def aom_destroy_def set_element_def
    add_ref_def remove_ref_def AOMElement_def aom_find_def Let_def
  have "aom_ok a'" using r st aom_step_ok by (auto simp: refs_ok_def)
  moreover have "r s + entries s (aom_table a') \<le> servant_refs a' s" for s
  proof -
    have "r s + entries s (aom_table a) \<le> servant_refs a s" "oids.ordered (aom_table a)" using r by (auto simp: refs_ok_def aom_ok_def)
    then show ?thesis using st by (cases op) (auto simp: defs entries_assign entries_erase split: option.splits if_splits)
  qed
  ultimately show ?thesis by (simp add: refs_ok_def)
qed

section \<open>Unique ids\<close>

definition unique_servants :: "(oid \<rightharpoonup> aom_element) \<Rightarrow> bool" where
  "unique_servants M \<longleftrightarrow> (\<forall>k k' e e'. M k = Some e \<longrightarrow> M k' = Some e' \<longrightarrow> servant e = servant e' \<longrightarrow> k = k')"

fun unique_op :: "aom_op \<Rightarrow> bool" where
  "unique_op (Put k s u) = u"
| "unique_op _ = True"

lemma spec_step_unique:
  "unique_servants M \<Longrightarrow> unique_op op \<Longrightarrow> spec_step op M = Inr M' \<Longrightarrow> unique_servants M'"
proof (cases op)
  case (Put k s u)
  assume "unique_servants M" "unique_op op" "spec_step op M = Inr M'"
  then have "M' = M(k \<mapsto> \<lparr>num_users = 1, servant = s, destroying = False\<rparr>)" "\<forall>k' e. M k' = Some e \<longrightarrow> servant e \<noteq> s"
    using Put by (auto simp: ran_def split: if_splits)
  then show ?thesis using \<open>unique_servants M\<close> by (auto simp: unique_servants_def split: if_splits)
qed (auto simp: update_if_active_def unique_servants_def split: option.splits if_splits)

lemma get_oid_found: "get_oid_loop s t = Inr k \<Longrightarrow> \<exists>e. (k, e) \<in> set t \<and> servant e = s"
  by (induction t rule: get_oid_loop.induct) (auto split: if_splits)

lemma get_oid_total: "(k, e) \<in> set t \<Longrightarrow> servant e = s \<Longrightarrow> \<exists>k. get_oid_loop s t = Inr k"
  by (induction t rule: get_oid_loop.induct) auto

lemma get_oid_unique:
  assumes "aom_ok a" "unique_servants (aom_abs a)" "aom_abs a k = Some e"
  shows "get_oid (servant e) a = Inr k"
proof -
  obtain k' where k': "get_oid (servant e) a = Inr k'"
    using get_oid_total [of k e] assms(3) map_of_SomeD by (fastforce simp: get_oid_def aom_abs_def)
  then obtain e' where "(k', e') \<in> set (aom_table a)" "servant e' = servant e" by (auto simp: get_oid_def dest: get_oid_found)
  moreover from this have "aom_abs a k' = Some e'"
    using oids.ordered_distinct [of "aom_table a"] assms(1) by (simp add: aom_ok_def aom_abs_def)
  ultimately have "k' = k" using assms(2,3) by (auto simp: unique_servants_def)
  with k' show ?thesis by simp
qed

section \<open>Properties\<close>

text \<open>C34. The active object map refines a partial function from object ids to elements: after any sequence of
  operations, failed ones included, the table represents what the same operations make of the function, and the next
  operation fails with the same exception or has the corresponding result.\<close>

theorem aom_refines_map:
  "let a = run_ops aom_step ops (aom_new r); M = run_ops spec_step ops Map.empty in
   aom_abs a = M \<and> map_sum id aom_abs (aom_step op a) = spec_step op M"
proof -
  let ?a = "run_ops aom_step ops (aom_new r)"
  have "aom_abs ?a = run_ops spec_step ops Map.empty" using run_aom_refines [OF aom_new_ok(1), of ops r] by (simp add: aom_new_ok)
  moreover have "map_sum id aom_abs (aom_step op ?a) = spec_step op (aom_abs ?a)"
    using aom_step_refines [OF run_aom_ok [OF aom_new_ok(1)], of op ops r] by (auto split: sum.splits)
  ultimately show ?thesis by (simp add: Let_def)
qed

text \<open>C35. The table stays well formed: its keys are distinct and increase in the order of object ids, and every servant
  in it has at least one reference for each of its entries, beyond the references from outside.\<close>

theorem aom_well_formed:
  "let a = run_ops aom_step ops (aom_new r) in
   sorted_wrt OID_lt (map fst (aom_table a)) \<and> distinct (map fst (aom_table a)) \<and>
   (\<forall>s. r s + int (length (filter (\<lambda>p. servant (snd p) = s) (aom_table a))) \<le> servant_refs a s)"
proof -
  have "refs_ok r (run_ops aom_step ops (aom_new r))"
    by (rule run_ops_inv [where P = "refs_ok r"]) (erule aom_step_refs, assumption, simp add: refs_ok_def aom_new_ok, simp add: aom_new_def)
  then show ?thesis
    using oids.ordered_distinct [of "aom_table (run_ops aom_step ops (aom_new r))"]
    by (simp add: refs_ok_def aom_ok_def oids.ordered_def sorted_wrt_map entries_def Let_def)
qed

text \<open>With the unique id policy the two lookups are inverse: the id of the servant that an object id is active with
  is that object id.\<close>

theorem unique_id_roundtrip:
  assumes "list_all unique_op ops" "aom_get k (run_ops aom_step ops (aom_new r)) = Inr s"
  shows "get_oid s (run_ops aom_step ops (aom_new r)) = Inr k"
proof -
  let ?a = "run_ops aom_step ops (aom_new r)"
  have "unique_servants (run_ops spec_step ops Map.empty)"
  proof (rule run_ops_inv [where P = unique_servants])
    show "unique_servants M'" if "unique_servants M" "op \<in> set ops" "spec_step op M = Inr M'" for op M M'
      using that assms(1) spec_step_unique by (auto simp: list_all_iff)
  qed (simp add: unique_servants_def)
  then have "unique_servants (aom_abs ?a)" using run_aom_refines [OF aom_new_ok(1), of ops r] by (simp add: aom_new_ok)
  with get_oid_unique [OF run_aom_ok [OF aom_new_ok(1)] this] assms(2) show ?thesis
    by (auto simp: aom_get_def aom_find_abs split: option.splits)
qed

theorem unique_id_roundtrip_witness:
  "let a = run_ops aom_step [Put [2, 1] 7 True, Put [9] 8 True, Put [1, 3] 8 True] (aom_new (\<lambda>_. 0)) in
   aom_get [9] a = Inr 8 \<and> get_oid 8 a = Inr [9]"
proof -
  have "aom_get [9] (run_ops aom_step [Put [2, 1] 7 True, Put [9] 8 True, Put [1, 3] 8 True] (aom_new (\<lambda>_. 0))) = Inr 8"
    by (simp add: aom_new_def aom_put_def aom_find_def aom_get_def aom_contains_def OID_lt_def add_ref_def AOMElement_def)
  with unique_id_roundtrip [OF _ this] show ?thesis by simp
qed

end
