(* ===== verification/Object_Key.thy ===== *)
theory Object_Key
  imports Cdr_Encapsulation Object_Map
begin

text \<open>
  Object keys: the key that a POA gives to an object (\<^verbatim>\<open>core/poa/POAKey.C\<close>), its object id (\<^verbatim>\<open>core/poa/OID.C\<close>), and
  the key as it travels in a message, an encapsulation that hosts of either byte order read
  (\<^verbatim>\<open>core/comm/iiop/ObjectKey.C\<close>). The helper that the IDL compiler generates for \<^verbatim>\<open>ObjectId\<close>, a sequence of octets,
  is a parameter.
\<close>

section \<open>Object ids in a stream\<close>

type_synonym oid_helper = "malloc \<Rightarrow> oid \<Rightarrow> iter \<Rightarrow> iter res"

definition oid_read :: "iter \<Rightarrow> (oid \<times> iter) res" where
  "oid_read it =
     rbind (read_ulong it) (\<lambda>(buffer_length, it).
       if buffer_length = 0 then Inl MARSHAL else read_octet_array (unat buffer_length) it)"

definition oid_write :: "oid_helper \<Rightarrow> malloc \<Rightarrow> oid \<Rightarrow> iter \<Rightarrow> iter res" where
  "oid_write helper m v it = helper m v it"

section \<open>POA keys\<close>

record poa_key =
  poas :: "octet list list"
  poa_id :: ulonglong
  key_oid :: oid

text \<open>The streams are set to version 1.2. The version they had is kept by reference, so that setting it again at the end
  changes nothing.\<close>

definition poa_key_write :: "oid_helper \<Rightarrow> malloc \<Rightarrow> poa_key \<Rightarrow> iter \<Rightarrow> iter res" where
  "poa_key_write helper m k it =
     (let it = set_version VERSION_1_2 it in
      rbind (write_ulong m (word_of_nat (length (poas k))) it) (\<lambda>it.
      rbind (write_seq (\<lambda>s. write_string m (Some s)) (poas k) it) (\<lambda>it.
      rbind (write_ulonglong m (poa_id k) it) (\<lambda>it.
      rbind (oid_write helper m (key_oid k) it) (\<lambda>it. Inr (set_version (m_version it) it))))))"

text \<open>A string that is read is the C string at the pointer.\<close>

definition c_string :: "octet list \<Rightarrow> octet list" where
  "c_string s = takeWhile (\<lambda>b. b \<noteq> 0) s"

definition poa_key_read :: "iter \<Rightarrow> (poa_key \<times> iter) res" where
  "poa_key_read it =
     (let it = set_version VERSION_1_2 it in
      rbind (read_ulong it) (\<lambda>(n, it).
      if n < 0 \<or> n > 65536 then Inl MARSHAL else
      rbind (read_seq (\<lambda>_. read_string) (replicate (unat n) ()) it) (\<lambda>(ss, it).
      rbind (read_ulonglong it) (\<lambda>(i, it).
      rbind (oid_read it) (\<lambda>(v, it). Inr (\<lparr>poas = map c_string ss, poa_id = i, key_oid = v\<rparr>, set_version (m_version it) it))))))"

fun same_path :: "octet list list \<Rightarrow> octet list list \<Rightarrow> bool" where
  "same_path (a # as) (b # bs) = (if c_string a \<noteq> c_string b then False else same_path as bs)"
| "same_path _ _ = True"

definition samePOA :: "poa_key \<Rightarrow> poa_key \<Rightarrow> bool" where
  "samePOA k k' =
     (if poa_id k \<noteq> poa_id k' then False else if length (poas k) \<noteq> length (poas k') then False else same_path (poas k) (poas k'))"

definition POAKey_eq :: "poa_key \<Rightarrow> poa_key \<Rightarrow> bool" where
  "POAKey_eq k k' =
     (if poa_id k \<noteq> poa_id k' then False else if length (poas k) \<noteq> length (poas k') then False else same_path (poas k) (poas k'))"

section \<open>Object keys\<close>

text \<open>\<^verbatim>\<open>getMarshaledKey\<close> writes the key into a stream of its own, after the byte order; \<^verbatim>\<open>write\<close> copies the buffer of that
  stream into the message. \<open>s\<close> is the size of the chunks of the new buffer.\<close>

definition getMarshaledKey :: "oid_helper \<Rightarrow> malloc \<Rightarrow> ulong \<Rightarrow> bool \<Rightarrow> poa_key \<Rightarrow> iter res" where
  "getMarshaledKey helper m s local_order k =
     rbind (BufferCDR m local_order s None 0) (\<lambda>b.
     rbind (IteratorCDR local_order b) (\<lambda>encapsulation.
     rbind (write_boolean m (m_byte_order encapsulation) encapsulation) (poa_key_write helper m k)))"

definition object_key_write :: "oid_helper \<Rightarrow> malloc \<Rightarrow> ulong \<Rightarrow> poa_key \<Rightarrow> iter \<Rightarrow> iter res" where
  "object_key_write helper m s k it =
     rbind (getMarshaledKey helper m s (local_byte_order it) k) (\<lambda>e. write_buffer m (m_bufferCDR e) it)"

text \<open>\<^verbatim>\<open>read\<close> keeps the encapsulation, \<^verbatim>\<open>get_key\<close> reads the key from it.\<close>

definition object_key_read :: "malloc \<Rightarrow> iter \<Rightarrow> (iter \<times> iter) res" where
  "object_key_read m it = read_encapsulation m it"

definition get_key :: "iter \<Rightarrow> poa_key res" where
  "get_key marshaled = rbind (poa_key_read (set_version VERSION_1_2 marshaled)) (\<lambda>(k, it). Inr k)"

section \<open>Reading and writing a key\<close>

definition oid_image :: "bool \<Rightarrow> nat \<Rightarrow> oid \<Rightarrow> octet list \<Rightarrow> bool" where
  "oid_image order pos v bs \<longleftrightarrow> (\<exists>b. bs = b @ v \<and> word_image 4 order pos (word_of_nat (length v) :: ulong) b)"

text \<open>What CORBA says of a sequence of octets: the length, as an unsigned long, and the octets.\<close>

definition helper_ok :: "oid_helper \<Rightarrow> bool" where
  "helper_ok helper \<longleftrightarrow> (\<forall>m it v. malloc_ok m \<longrightarrow> out_ok it \<longrightarrow> length v < 2 ^ 32 \<longrightarrow>
     writes m it (oid_image (local_byte_order it) (length (out_data it)) v) (helper m v it))"

definition key_ok :: "poa_key \<Rightarrow> bool" where
  "key_ok k \<longleftrightarrow> length (poas k) \<le> 65536 \<and> list_all string_ok (poas k) \<and> key_oid k \<noteq> [] \<and> length (key_oid k) < 2 ^ 32"

definition key_image :: "bool \<Rightarrow> nat \<Rightarrow> poa_key \<Rightarrow> octet list \<Rightarrow> bool" where
  "key_image order pos k bs \<longleftrightarrow> (\<exists>b cs. bs = b @ cs \<and> word_image 4 order pos (word_of_nat (length (poas k)) :: ulong) b \<and>
     (\<exists>b' cs'. cs = b' @ cs' \<and> seq_image string_image order (pos + length b) (poas k) b' \<and>
     (\<exists>b'' cs''. cs' = b'' @ cs'' \<and> word_image 8 order (pos + length b + length b') (poa_id k) b'' \<and>
        oid_image order (pos + length b + length b' + length b'') (key_oid k) cs'')))"

lemma set_version_self [simp]: "set_version (m_version it) it = it"
  by (simp add: set_version_def)

lemma set_version_view [simp]:
  "out_ok (set_version v it) = out_ok it" "out_data (set_version v it) = out_data it" "in_ok (set_version v it) = in_ok it"
  "in_data (set_version v it) = in_data it" "in_pos (set_version v it) = in_pos it" "wire_order (set_version v it) = wire_order it"
  "local_byte_order (set_version v it) = local_byte_order it" "settled (set_version v it) = settled it"
  by (simp_all add: set_version_def out_ok_def out_data_def in_ok_def in_data_def in_pos_def wire_order_def settled_def iter_wf_def
      iter_al_def data_before_def cur_chunk_def)

lemma rbind_Inr [simp]: "rbind r Inr = r"
  by (cases r) auto

lemma key_body_writes:
  assumes "malloc_ok m" "out_ok it" "key_ok k" "helper_ok helper"
  shows "writes m it (key_image (local_byte_order it) (length (out_data it)) k)
    (rbind (write_ulong m (word_of_nat (length (poas k))) it) (\<lambda>it.
     rbind (write_seq (\<lambda>s. write_string m (Some s)) (poas k) it) (\<lambda>it.
     rbind (write_ulonglong m (poa_id k) it) (helper m (key_oid k)))))"
  unfolding key_image_def
proof (rule writes_bind [OF ulong.wr_step])
  fix i1 b1
  assume 1: "out_ok i1" "same_mode it i1" "out_data i1 = out_data it @ b1"
  have s: "writes m i1 (seq_image string_image (local_byte_order it) (length (out_data it) + length b1) (poas k))
      (write_seq (\<lambda>s. write_string m (Some s)) (poas k) i1)"
    using str.array_writes [OF assms(1) 1(1), of "poas k"] 1 assms(3) by (simp add: same_mode_def key_ok_def)
  show "writes m i1 (\<lambda>cs. \<exists>b' cs'. cs = b' @ cs' \<and>
      seq_image string_image (local_byte_order it) (length (out_data it) + length b1) (poas k) b' \<and>
      (\<exists>b'' cs''. cs' = b'' @ cs'' \<and> word_image 8 (local_byte_order it) (length (out_data it) + length b1 + length b') (poa_id k) b'' \<and>
         oid_image (local_byte_order it) (length (out_data it) + length b1 + length b' + length b'') (key_oid k) cs''))
    (rbind (write_seq (\<lambda>s. write_string m (Some s)) (poas k) i1) (\<lambda>it. rbind (write_ulonglong m (poa_id k) it) (helper m (key_oid k))))"
  proof (rule writes_bind [OF s])
    fix i2 b2
    assume 2: "out_ok i2" "same_mode i1 i2" "out_data i2 = out_data i1 @ b2"
    have l: "writes m i2 (word_image 8 (local_byte_order it) (length (out_data it) + length b1 + length b2) (poa_id k)) (write_ulonglong m (poa_id k) i2)"
      using ulonglong.wr_step [OF assms(1) 2(1), of "poa_id k"] 1 2 by (simp add: same_mode_def add.assoc)
    show "writes m i2 (\<lambda>cs'. \<exists>b'' cs''. cs' = b'' @ cs'' \<and>
        word_image 8 (local_byte_order it) (length (out_data it) + length b1 + length b2) (poa_id k) b'' \<and>
        oid_image (local_byte_order it) (length (out_data it) + length b1 + length b2 + length b'') (key_oid k) cs'')
      (rbind (write_ulonglong m (poa_id k) i2) (helper m (key_oid k)))"
    proof (rule writes_bind [OF l])
      fix i3 b3
      assume "out_ok i3" "same_mode i2 i3" "out_data i3 = out_data i2 @ b3"
      then show "writes m i3 (oid_image (local_byte_order it) (length (out_data it) + length b1 + length b2 + length b3) (key_oid k)) (helper m (key_oid k) i3)"
        using assms 1 2 by (auto simp: helper_ok_def key_ok_def same_mode_def add.assoc dest!: spec [of _ m] spec [of _ i3] spec [of _ "key_oid k"])
    qed
  qed
qed (use assms in simp_all)

lemma poa_key_writes:
  assumes "malloc_ok m" "out_ok it" "key_ok k" "helper_ok helper"
  shows "writes m (set_version VERSION_1_2 it) (key_image (local_byte_order it) (length (out_data it)) k) (poa_key_write helper m k it)"
  using key_body_writes [of m "set_version VERSION_1_2 it" k helper] assms by (simp add: poa_key_write_def oid_write_def)

lemma oid_reads:
  assumes "in_ok it" "v \<noteq> []" "length v < 2 ^ 32" "oid_image (wire_order it) (in_pos it) v bs" "drop (in_pos it) (in_data it) = bs @ rest"
  shows "reads it v (length bs) (oid_read it)"
proof -
  let ?n = "word_of_nat (length v) :: ulong"
  from assms(4) obtain b where b: "bs = b @ v" "word_image 4 (wire_order it) (in_pos it) ?n b" by (auto simp: oid_image_def)
  have n: "unat ?n = length v" "?n \<noteq> 0" using assms(2,3) by (auto simp: unat_of_nat word_unat_eq_iff)
  have "reads it v (length b + length v) (oid_read it)"
    unfolding oid_read_def
  proof (rule reads_bind [OF ulong.rd_step [OF assms(1) _ _ b(2)]])
    fix i1
    assume "in_ok i1" "same_input it i1" "in_pos i1 = in_pos it + length b"
    then have "reads i1 v (length v) (read_octet_array (length v) i1)"
      using assms b by (intro octets.rd_step) (auto simp: same_input_def add.commute [of "in_pos it"] drop_drop [symmetric] simp del: drop_drop)
    with n show "reads i1 v (length v) (case (?n, i1) of (buffer_length, it) \<Rightarrow>
        if buffer_length = 0 then Inl MARSHAL else read_octet_array (unat buffer_length) it)" by simp
  qed (use assms b in auto)
  with b show ?thesis by simp
qed

lemma next_octets:
  "same_input it it' \<Longrightarrow> in_pos it' = in_pos it + length b \<Longrightarrow> drop (in_pos it) (in_data it) = b @ cs \<Longrightarrow> drop (in_pos it') (in_data it') = cs"
  by (simp add: same_input_def add.commute [of "in_pos it"] drop_drop [symmetric] del: drop_drop)

lemma wire_order_next: "same_input it it' \<Longrightarrow> wire_order it' = wire_order it"
  by (simp add: same_input_def wire_order_same)

lemma poa_key_reads:
  assumes "in_ok it" "key_ok k" "key_image (wire_order it) (in_pos it) k bs" "drop (in_pos it) (in_data it) = bs @ rest"
    "m_version it = VERSION_1_2"
  shows "reads it k (length bs) (poa_key_read it)"
proof -
  let ?n = "word_of_nat (length (poas k)) :: ulong"
  from assms(3) obtain b1 b2 b3 b4 where bs: "bs = b1 @ b2 @ b3 @ b4"
    and 1: "word_image 4 (wire_order it) (in_pos it) ?n b1"
    and 2: "seq_image string_image (wire_order it) (in_pos it + length b1) (poas k) b2"
    and 3: "word_image 8 (wire_order it) (in_pos it + length b1 + length b2) (poa_id k) b3"
    and 4: "oid_image (wire_order it) (in_pos it + length b1 + length b2 + length b3) (key_oid k) b4"
    unfolding key_image_def by blast
  have k: "length (poas k) \<le> 65536" "list_all string_ok (poas k)" "key_oid k \<noteq> []" "length (key_oid k) < 2 ^ 32"
    using assms(2) by (auto simp: key_ok_def)
  have n: "unat ?n = length (poas k)" "\<not> (?n < 0 \<or> ?n > 65536)" using k(1) by (auto simp: unat_of_nat word_less_nat_alt)
  have strings: "map c_string (map (\<lambda>s. s @ [0]) (poas k)) = poas k"
    using k(2) by (auto simp: c_string_def string_ok_def list_all_iff takeWhile_terminated intro!: map_idI)
  from ulong.rd_step [OF assms(1) _ _ 1, of "b2 @ b3 @ b4 @ rest"] assms(4) bs obtain i1 where
    i1: "read_ulong it = Inr (?n, i1)" "in_ok i1" "same_input it i1" "in_pos i1 = in_pos it + length b1" by (auto simp: reads_def)
  have d1: "drop (in_pos i1) (in_data i1) = b2 @ b3 @ b4 @ rest" using next_octets [OF i1(3,4)] assms(4) bs by simp
  have "seq_image string_image (wire_order i1) (in_pos i1) (poas k) b2" using 2 i1 wire_order_next by simp
  from str.array_reads [OF i1(2) _ k(2) this d1] obtain i2 where
    i2: "read_seq (\<lambda>_. read_string) (replicate (unat ?n) ()) i1 = Inr (map (\<lambda>s. s @ [0]) (poas k), i2)" "in_ok i2" "same_input i1 i2"
    "in_pos i2 = in_pos i1 + length b2" using n(1) by (auto simp: reads_def map_replicate_const)
  have d2: "drop (in_pos i2) (in_data i2) = b3 @ b4 @ rest" using next_octets [OF i2(3,4)] d1 by simp
  have "word_image 8 (wire_order i2) (in_pos i2) (poa_id k) b3" using 3 i1 i2 wire_order_next by simp
  from ulonglong.rd_step [OF i2(2) _ _ this d2] obtain i3 where
    i3: "read_ulonglong i2 = Inr (poa_id k, i3)" "in_ok i3" "same_input i2 i3" "in_pos i3 = in_pos i2 + length b3" by (auto simp: reads_def)
  have d3: "drop (in_pos i3) (in_data i3) = b4 @ rest" using next_octets [OF i3(3,4)] d2 by simp
  have "oid_image (wire_order i3) (in_pos i3) (key_oid k) b4" using 4 i1 i2 i3 wire_order_next by simp
  from oid_reads [OF i3(2) k(3,4) this d3] obtain i4 where
    i4: "oid_read i3 = Inr (key_oid k, i4)" "in_ok i4" "same_input i3 i4" "in_pos i4 = in_pos i3 + length b4" by (auto simp: reads_def)
  have "set_version VERSION_1_2 it = it" using assms(5) set_version_self [of it] by simp
  then have "poa_key_read it = Inr (k, i4)"
    using i1(1) i2(1) i3(1) i4(1) n(2) strings unfolding poa_key_read_def Let_def by simp
  moreover have "same_input it i4" using i1 i2 i3 i4 by (blast intro: same_input_trans)
  ultimately show ?thesis using i1 i2 i3 i4 bs by (simp add: reads_def)
qed

lemma key_codec:
  assumes "helper_ok helper"
  shows "cdr_codec (poa_key_write helper) (\<lambda>_. poa_key_read) (\<lambda>_. ()) key_ok (\<lambda>it. m_version it = VERSION_1_2) key_image (\<lambda>k. k)"
proof (standard, goal_cases)
  case (1 it it')
  then show ?case by (simp add: same_mode_def)
next
  case (2 m it k)
  then have "set_version VERSION_1_2 it = it" using set_version_self [of it] by simp
  then show ?case using poa_key_writes [OF 2(1,2,4) assms] by simp
next
  case (3 it k bs rest)
  then show ?case using poa_key_reads by blast
qed

section \<open>The key in a message\<close>

lemma marshaled_key:
  assumes "malloc_ok m" "block_ok s" "key_ok k" "helper_ok helper" "getMarshaledKey helper m s order k = Inr e"
  shows "out_ok e" "settled e" "\<exists>kbs. out_data e = (if order then 1 else 0) # kbs \<and> key_image order 1 k kbs"
proof -
  from assms(5) obtain b e0 e1 where E: "BufferCDR m order s None 0 = Inr b" "IteratorCDR order b = Inr e0"
    "write_boolean m (m_byte_order e0) e0 = Inr e1" "poa_key_write helper m k e1 = Inr e"
    by (auto simp: getMarshaledKey_def)
  note n = new_stream_ok [OF assms(1,2) E(1,2)]
  have mb: "m_byte_order e0 = order" using E(2) by (auto simp: IteratorCDR_def split: option.splits)
  have "writes m e0 (prim_image 1 [if m_byte_order e0 then 1 else 0] (length (out_data e0))) (Inr e1)"
    using boolean.wr_step [of m e0 "m_byte_order e0"] assms(1) n(1) E(3) by simp
  then have e1: "out_ok e1" "settled e1" "out_data e1 = [if order then 1 else 0]" "m_version e1 = VERSION_1_2" "local_byte_order e1 = order"
    using n mb by (auto simp: writes_def octet_image_plain same_mode_def)
  have "writes m (set_version VERSION_1_2 e1) (key_image order 1 k) (Inr e)"
    using poa_key_writes [OF assms(1) e1(1) assms(3,4)] E(4) e1(3,5) by simp
  then show "out_ok e" "settled e" "\<exists>kbs. out_data e = (if order then 1 else 0) # kbs \<and> key_image order 1 k kbs"
    using e1 by (auto simp: writes_def)
qed

lemma get_key_reads:
  assumes "in_ok e" "key_ok k" "key_image (wire_order e) (in_pos e) k bs" "drop (in_pos e) (in_data e) = bs"
  shows "get_key e = Inr k"
proof -
  have "reads (set_version VERSION_1_2 e) k (length bs) (poa_key_read (set_version VERSION_1_2 e))"
    by (rule poa_key_reads [where rest = "[]"]) (use assms in \<open>simp_all, simp add: set_version_def\<close>)
  then show ?thesis by (auto simp: get_key_def reads_def)
qed

section \<open>Properties\<close>

text \<open>C4. An object key travels: the key that a POA gives to an object, written into a message as an encapsulation, is the
  key that the receiver gets from it, for every byte order of the two hosts, chunk size and position in the message.\<close>

theorem object_key_roundtrip:
  assumes "malloc_ok m" "block_ok s" "out_ok out" "key_ok k" "helper_ok helper"
    and "getMarshaledKey helper m s (local_byte_order out) k = Inr e" "length (out_data e) < 2 ^ 31 - 16"
    and "object_key_write helper m s k out = Inr out'"
    and "malloc_ok m'" "malloc_total m'" "in_ok inp" "wire_order inp = local_byte_order out"
    and "in_pos inp = length (out_data out)" "in_data inp = out_data out' @ rest"
  shows "\<exists>mk inp'. object_key_read m' inp = Inr (mk, inp') \<and> in_ok inp' \<and> in_pos inp' = length (out_data out') \<and> get_key mk = Inr k"
proof -
  note E = marshaled_key [OF assms(1,2,4,5,6)]
  obtain kbs where kbs: "out_data e = (if local_byte_order out then 1 else 0) # kbs" "key_image (local_byte_order out) 1 k kbs" using E(3) by blast
  have bd: "buffer_data (m_bufferCDR e) = out_data e" unfolding buffer_data_def by (rule written_buffer_data [OF E(1,2)])
  have "buffer_ok (m_bufferCDR e)"
    using E(1) written_buffer_packed [OF E(1)] assms(7) bd by (auto simp: buffer_ok_def out_ok_def iter_wf_def)
  from write_buffer_writes [OF assms(1,3) this] assms(6,8)
  obtain p where p: "word_image 4 (local_byte_order out) (length (out_data out)) (word_of_nat (length (out_data e)) :: ulong) p"
    "out_data out' = out_data out @ p @ out_data e" by (auto simp: writes_def bd object_key_write_def)
  have img: "word_image 4 (wire_order inp) (in_pos inp) (word_of_nat (length (out_data e)) :: ulong) p" using p(1) assms(12,13) by simp
  have dr: "drop (in_pos inp) (in_data inp) = (p @ out_data e) @ rest" using assms(13,14) p(2) by simp
  have ne: "out_data e \<noteq> []" using kbs(1) by simp
  from read_encapsulation_reads [OF assms(11,9,10,7) ne img dr]
  obtain mk inp' where R: "read_encapsulation m' inp = Inr (mk, inp')" "in_ok inp'" "in_pos inp' = in_pos inp + length (p @ out_data e)"
    "in_ok mk" "in_data mk = out_data e" "in_pos mk = 1" "wire_order mk = (hd (out_data e) \<noteq> 0)" by blast
  have "wire_order mk = local_byte_order out" using R(7) kbs(1) by simp
  then have "get_key mk = Inr k" using get_key_reads [OF R(4) assms(4), of kbs] R(5,6) kbs by simp
  then show ?thesis using R p(2) assms(13) by (auto simp: object_key_read_def)
qed

text \<open>Two keys of one POA are equal for \<^verbatim>\<open>operator==\<close> whatever their object ids.\<close>

lemma POAKey_eq_ignores_oid: "POAKey_eq k (k\<lparr>key_oid := v\<rparr>)"
proof -
  have "same_path p p" for p by (induction p) auto
  then show ?thesis by (simp add: POAKey_eq_def)
qed

section \<open>Applied to a message\<close>

definition octet_seq_helper :: oid_helper where
  "octet_seq_helper m v it = rbind (write_ulong m (word_of_nat (length v)) it) (write_octet_array m (Some v))"

lemma octet_seq_helper_ok: "helper_ok octet_seq_helper"
  unfolding helper_ok_def octet_seq_helper_def
proof (intro allI impI)
  fix m it and v :: oid
  assume a: "malloc_ok m" "out_ok it"
  have "writes m it (\<lambda>bs. \<exists>b cs. bs = b @ cs \<and> word_image 4 (local_byte_order it) (length (out_data it)) (word_of_nat (length v) :: ulong) b \<and> cs = v)
    (rbind (write_ulong m (word_of_nat (length v)) it) (write_octet_array m (Some v)))"
    by (rule writes_bind [OF ulong.wr_step]) (use a octets.wr_step [OF a(1)] in auto)
  then show "writes m it (oid_image (local_byte_order it) (length (out_data it)) v)
    (rbind (write_ulong m (word_of_nat (length v)) it) (write_octet_array m (Some v)))"
    by (rule writes_mono) (auto simp: oid_image_def)
qed

definition sample_key :: poa_key where
  "sample_key = \<lparr>poas = [[82, 80], [97]], poa_id = 5, key_oid = [1, 2, 3]\<rparr>"

lemma sample_key_ok: "key_ok sample_key"
  by (simp add: key_ok_def sample_key_def string_ok_def)

lemma prim_image_length: "prim_image s b pos bs \<Longrightarrow> length bs = align_to pos (s - 1) - pos + length b"
  by (auto simp: prim_image_def)

lemma sample_key_length: "key_image order 1 sample_key kbs \<Longrightarrow> length kbs < 100"
  by (auto simp: key_image_def sample_key_def string_image_def oid_image_def align_to_consts dest!: prim_image_length)

lemma writes_total: "writes m it P r \<Longrightarrow> malloc_total m \<Longrightarrow> \<exists>it' bs. r = Inr it' \<and> out_ok it' \<and> P bs \<and> out_data it' = out_data it @ bs"
  by (auto simp: writes_def alloc_failure_def split: sum.splits)

lemma marshaled_key_total:
  assumes "malloc_ok m" "malloc_total m" "block_ok s" "key_ok k" "helper_ok helper"
  shows "\<exists>e. getMarshaledKey helper m s order k = Inr e"
proof -
  obtain b where b: "BufferCDR m order s None 0 = Inr b"
    using assms(2) by (fastforce simp: BufferCDR_def ChunkCDR_def malloc_total_def Let_def split: option.splits)
  then obtain e0 where e0: "IteratorCDR order b = Inr e0" by (auto simp: BufferCDR_def IteratorCDR_def get_chunk_def)
  obtain e1 where e1: "write_boolean m (m_byte_order e0) e0 = Inr e1" "out_ok e1"
    using writes_total [OF boolean.wr_step [of m e0 "m_byte_order e0"] assms(2)] assms(1) new_stream_ok(1) [OF assms(1,3) b e0] by auto
  obtain e where "poa_key_write helper m k e1 = Inr e"
    using writes_total [OF poa_key_writes [OF assms(1) e1(2) assms(4,5)] assms(2)] by blast
  with b e0 e1 show ?thesis by (auto simp: getMarshaledKey_def)
qed

theorem object_key_roundtrip_witness:
  "\<exists>out' inp mk inp'. object_key_write octet_seq_helper sample_malloc 16 sample_key sample_out = Inr out' \<and>
     in_data inp = out_data out' \<and> object_key_read sample_malloc inp = Inr (mk, inp') \<and> get_key mk = Inr sample_key"
proof -
  note m = sample_malloc_ok and o0 = sample_new(1) and k = sample_key_ok and h = octet_seq_helper_ok
  obtain e where e: "getMarshaledKey octet_seq_helper sample_malloc 16 (local_byte_order sample_out) sample_key = Inr e"
    using marshaled_key_total [OF m sample_block_ok k h] by blast
  note E = marshaled_key [OF m(1) sample_block_ok k h e]
  have len: "length (out_data e) < 200" using E(3) sample_key_length by fastforce
  have bd: "buffer_data (m_bufferCDR e) = out_data e" unfolding buffer_data_def by (rule written_buffer_data [OF E(1,2)])
  have "buffer_ok (m_bufferCDR e)"
    using E(1) written_buffer_packed [OF E(1)] len bd by (auto simp: buffer_ok_def out_ok_def iter_wf_def)
  from writes_total [OF write_buffer_writes [OF m(1) o0 this] m(2)]
  obtain out' p where o': "write_buffer sample_malloc (m_bufferCDR e) sample_out = Inr out'" "out_data out' = p @ out_data e"
    "length p = 4" using sample_new(3) by (auto simp: bd align_to_consts dest: prim_image_length)
  then have w: "object_key_write octet_seq_helper sample_malloc 16 sample_key sample_out = Inr out'" using e by (simp add: object_key_write_def)
  obtain inp where inp: "in_ok inp" "in_pos inp = 0" "in_data inp = out_data out'" "wire_order inp"
    using received_message [of "out_data out'" True] o' len by fastforce
  have "\<exists>mk inp'. object_key_read sample_malloc inp = Inr (mk, inp') \<and> in_ok inp' \<and> in_pos inp' = length (out_data out') \<and>
      get_key mk = Inr sample_key"
    by (rule object_key_roundtrip [OF m(1) sample_block_ok o0 k h e _ w m inp(1), of "[]"]) (use inp sample_new len in simp_all)
  with w inp show ?thesis by blast
qed

end
