(* ===== verification/Type_Code.thy ===== *)
theory Type_Code
  imports Cdr_Values
begin

text \<open>
  Type codes (\<^verbatim>\<open>core/typecode/*.C\<close>): the description of an IDL type at run time. One constructor of \<open>type_code\<close> for each
  class of the hierarchy, its first argument the flag \<^verbatim>\<open>m_exhaustive_equal\<close> where the class reads it; the members of
  structures, unions and values are those of \<^verbatim>\<open>CORBA::StructMember\<close>, \<^verbatim>\<open>UnionMember\<close> and \<^verbatim>\<open>ValueMember\<close>. Then the access to
  the parts of a type code, with \<open>BadKind\<close> and \<open>Bounds\<close>, and the comparisons \<^verbatim>\<open>equal\<close> and \<^verbatim>\<open>equivalent\<close>. Names and
  repository ids are the octets of the C strings.
\<close>

section \<open>Data\<close>

datatype TCKind =
    tk_null | tk_void | tk_short | tk_long | tk_ushort | tk_ulong | tk_float | tk_double | tk_boolean | tk_char
  | tk_octet | tk_any | tk_TypeCode | tk_Principal | tk_objref | tk_struct | tk_union | tk_enum | tk_string
  | tk_sequence | tk_array | tk_alias | tk_except | tk_longlong | tk_ulonglong | tk_longdouble | tk_wchar | tk_wstring
  | tk_fixed | tk_value | tk_value_box | tk_native | tk_abstract_interface | tk_local_interface

type_synonym name = "octet list"

text \<open>The label of a case of a union is an Any of a discriminator type; it is given by its type and the value it holds.\<close>

datatype type_code =
    TypeCodeImpl TCKind
  | StringTypeCode ulong
  | WStringTypeCode ulong
  | FixedTypeCode ushort ushort
  | ArrayTypeCode bool type_code ulong
  | SequenceTypeCode bool type_code ulong
  | StructTypeCode bool name name "struct_member list"
  | ExceptionTypeCode bool name name "struct_member list"
  | EnumTypeCode bool name name "name list"
  | AliasTypeCode name name type_code
  | UnionTypeCode bool name name type_code int "union_member list"
  | ValueTypeCode bool name name ushort "type_code option" "value_member list"
  | ValueBoxTypeCode bool name name type_code
  | ObjectRefTypeCode name name
  | NativeTypeCode name name
  | AbstractInterfaceTypeCode name name
  | LocalInterfaceTypeCode name name
  | RecursiveTypeCode name
and struct_member = StructMember (sm_name: name) (sm_type: type_code)
and union_member = UnionMember (um_label_type: type_code) (um_label: cdr_value) (um_name: name) (um_type: type_code)
and value_member = ValueMember (vm_name: name) (vm_type: type_code) (vm_access: ushort)

section \<open>Access to the parts\<close>

fun tc_kind :: "type_code \<Rightarrow> TCKind" where
  "tc_kind (TypeCodeImpl k) = k"
| "tc_kind (StringTypeCode _) = tk_string"
| "tc_kind (WStringTypeCode _) = tk_wstring"
| "tc_kind (FixedTypeCode _ _) = tk_fixed"
| "tc_kind (ArrayTypeCode _ _ _) = tk_array"
| "tc_kind (SequenceTypeCode _ _ _) = tk_sequence"
| "tc_kind (StructTypeCode _ _ _ _) = tk_struct"
| "tc_kind (ExceptionTypeCode _ _ _ _) = tk_except"
| "tc_kind (EnumTypeCode _ _ _ _) = tk_enum"
| "tc_kind (AliasTypeCode _ _ _) = tk_alias"
| "tc_kind (UnionTypeCode _ _ _ _ _ _) = tk_union"
| "tc_kind (ValueTypeCode _ _ _ _ _ _) = tk_value"
| "tc_kind (ValueBoxTypeCode _ _ _ _) = tk_value_box"
| "tc_kind (ObjectRefTypeCode _ _) = tk_objref"
| "tc_kind (NativeTypeCode _ _) = tk_native"
| "tc_kind (AbstractInterfaceTypeCode _ _) = tk_abstract_interface"
| "tc_kind (LocalInterfaceTypeCode _ _) = tk_local_interface"
| "tc_kind (RecursiveTypeCode _) = tk_null"

text \<open>The id and the name of the classes derived from \<^verbatim>\<open>ComplexTypeCode\<close>; a recursive type code has an id only.\<close>

fun complex_names :: "type_code \<Rightarrow> (name \<times> name) option" where
  "complex_names (StructTypeCode _ i n _) = Some (i, n)"
| "complex_names (ExceptionTypeCode _ i n _) = Some (i, n)"
| "complex_names (EnumTypeCode _ i n _) = Some (i, n)"
| "complex_names (AliasTypeCode i n _) = Some (i, n)"
| "complex_names (UnionTypeCode _ i n _ _ _) = Some (i, n)"
| "complex_names (ValueTypeCode _ i n _ _ _) = Some (i, n)"
| "complex_names (ValueBoxTypeCode _ i n _) = Some (i, n)"
| "complex_names (ObjectRefTypeCode i n) = Some (i, n)"
| "complex_names (NativeTypeCode i n) = Some (i, n)"
| "complex_names (AbstractInterfaceTypeCode i n) = Some (i, n)"
| "complex_names (LocalInterfaceTypeCode i n) = Some (i, n)"
| "complex_names _ = None"

definition tc_id :: "type_code \<Rightarrow> name res" where
  "tc_id t = (case t of RecursiveTypeCode i \<Rightarrow> Inr i | _ \<Rightarrow> (case complex_names t of Some (i, n) \<Rightarrow> Inr i | None \<Rightarrow> Inl BadKind))"

definition tc_name :: "type_code \<Rightarrow> name res" where
  "tc_name t = (case complex_names t of Some (i, n) \<Rightarrow> Inr n | None \<Rightarrow> Inl BadKind)"

fun member_names :: "type_code \<Rightarrow> name list option" where
  "member_names (StructTypeCode _ _ _ ms) = Some (map sm_name ms)"
| "member_names (ExceptionTypeCode _ _ _ ms) = Some (map sm_name ms)"
| "member_names (EnumTypeCode _ _ _ ms) = Some ms"
| "member_names (UnionTypeCode _ _ _ _ _ ms) = Some (map um_name ms)"
| "member_names (ValueTypeCode _ _ _ _ _ ms) = Some (map vm_name ms)"
| "member_names _ = None"

fun member_types :: "type_code \<Rightarrow> type_code list option" where
  "member_types (StructTypeCode _ _ _ ms) = Some (map sm_type ms)"
| "member_types (ExceptionTypeCode _ _ _ ms) = Some (map sm_type ms)"
| "member_types (UnionTypeCode _ _ _ _ _ ms) = Some (map um_type ms)"
| "member_types (ValueTypeCode _ _ _ _ _ ms) = Some (map vm_type ms)"
| "member_types _ = None"

definition at_index :: "'a list \<Rightarrow> nat \<Rightarrow> 'a res" where
  "at_index xs i = (if i < length xs then Inr (xs ! i) else Inl Bounds)"

definition member_count :: "type_code \<Rightarrow> nat res" where
  "member_count t = (case member_names t of Some ns \<Rightarrow> Inr (length ns) | None \<Rightarrow> Inl BadKind)"

definition member_name :: "type_code \<Rightarrow> nat \<Rightarrow> name res" where
  "member_name t i = (case member_names t of Some ns \<Rightarrow> at_index ns i | None \<Rightarrow> Inl BadKind)"

definition member_type :: "type_code \<Rightarrow> nat \<Rightarrow> type_code res" where
  "member_type t i = (case member_types t of Some ts \<Rightarrow> at_index ts i | None \<Rightarrow> Inl BadKind)"

definition member_label :: "type_code \<Rightarrow> nat \<Rightarrow> (type_code \<times> cdr_value) res" where
  "member_label t i = (case t of UnionTypeCode _ _ _ _ _ ms \<Rightarrow> at_index (map (\<lambda>m. (um_label_type m, um_label m)) ms) i | _ \<Rightarrow> Inl BadKind)"

definition member_visibility :: "type_code \<Rightarrow> nat \<Rightarrow> ushort res" where
  "member_visibility t i = (case t of ValueTypeCode _ _ _ _ _ ms \<Rightarrow> at_index (map vm_access ms) i | _ \<Rightarrow> Inl BadKind)"

definition discriminator_type :: "type_code \<Rightarrow> type_code res" where
  "discriminator_type t = (case t of UnionTypeCode _ _ _ d _ _ \<Rightarrow> Inr d | _ \<Rightarrow> Inl BadKind)"

definition default_index :: "type_code \<Rightarrow> int res" where
  "default_index t = (case t of UnionTypeCode _ _ _ _ i _ \<Rightarrow> Inr i | _ \<Rightarrow> Inl BadKind)"

fun tc_length :: "type_code \<Rightarrow> ulong res" where
  "tc_length (StringTypeCode l) = Inr l"
| "tc_length (WStringTypeCode l) = Inr l"
| "tc_length (ArrayTypeCode _ _ l) = Inr l"
| "tc_length (SequenceTypeCode _ _ l) = Inr l"
| "tc_length _ = Inl BadKind"

fun content_type :: "type_code \<Rightarrow> type_code res" where
  "content_type (ArrayTypeCode _ t _) = Inr t"
| "content_type (SequenceTypeCode _ t _) = Inr t"
| "content_type (AliasTypeCode _ _ t) = Inr t"
| "content_type (ValueBoxTypeCode _ _ _ t) = Inr t"
| "content_type _ = Inl BadKind"

definition tc_fixed_digits :: "type_code \<Rightarrow> ushort res" where
  "tc_fixed_digits t = (case t of FixedTypeCode d s \<Rightarrow> Inr d | _ \<Rightarrow> Inl BadKind)"

definition tc_fixed_scale :: "type_code \<Rightarrow> ushort res" where
  "tc_fixed_scale t = (case t of FixedTypeCode d s \<Rightarrow> Inr s | _ \<Rightarrow> Inl BadKind)"

definition type_modifier :: "type_code \<Rightarrow> ushort res" where
  "type_modifier t = (case t of ValueTypeCode _ _ _ v _ _ \<Rightarrow> Inr v | _ \<Rightarrow> Inl BadKind)"

definition concrete_base_type :: "type_code \<Rightarrow> type_code option res" where
  "concrete_base_type t = (case t of ValueTypeCode _ _ _ _ b _ \<Rightarrow> Inr b | _ \<Rightarrow> Inl BadKind)"

section \<open>Equality\<close>

text \<open>A null argument is \<open>None\<close>. The comparisons of a class start with those of its base class.\<close>

definition catch_bad :: "bool res \<Rightarrow> bool res" where
  "catch_bad r = (case r of Inl e \<Rightarrow> if e = BadKind \<or> e = Bounds then Inr False else Inl e | Inr b \<Rightarrow> Inr b)"

definition impl_equal :: "TCKind \<Rightarrow> type_code option \<Rightarrow> bool res" where
  "impl_equal k u = (case u of None \<Rightarrow> Inl BAD_PARAM | Some u \<Rightarrow> Inr (k = tc_kind u))"

definition same_names :: "name \<Rightarrow> name \<Rightarrow> type_code \<Rightarrow> bool res" where
  "same_names i n u = catch_bad (rbind (tc_id u) (\<lambda>i'. if i \<noteq> i' then Inr False else rbind (tc_name u) (\<lambda>n'. Inr (n = n'))))"

definition complex_equal :: "TCKind \<Rightarrow> name \<Rightarrow> name \<Rightarrow> type_code option \<Rightarrow> bool res" where
  "complex_equal k i n u =
     rbind (impl_equal k u) (\<lambda>b. if \<not> b then Inr False else case u of Some u \<Rightarrow> same_names i n u | None \<Rightarrow> Inl BAD_PARAM)"

text \<open>\<open>and_then r u f\<close>: the rest \<open>f\<close> of a comparison, if the first part \<open>r\<close> said true.\<close>

definition and_then :: "bool res \<Rightarrow> type_code option \<Rightarrow> (type_code \<Rightarrow> bool res) \<Rightarrow> bool res" where
  "and_then r u f = rbind r (\<lambda>b. if \<not> b then Inr False else case u of Some u \<Rightarrow> f u | None \<Rightarrow> Inl BAD_PARAM)"

fun equal_names :: "name list \<Rightarrow> nat \<Rightarrow> type_code \<Rightarrow> bool res" where
  "equal_names [] i u = Inr True"
| "equal_names (n # ns) i u = rbind (member_name u i) (\<lambda>n'. if n \<noteq> n' then Inr False else equal_names ns (Suc i) u)"

text \<open>What the operations of a class compare once the kinds, and the names, are the same. The comparison of the parts is
  an argument: \<^verbatim>\<open>equal\<close> and \<^verbatim>\<open>equivalent\<close> of a class differ in it only.\<close>

definition same_bound :: "ulong \<Rightarrow> type_code \<Rightarrow> bool res" where
  [simp]: "same_bound l u = catch_bad (rbind (tc_length u) (\<lambda>l'. Inr (l = l')))"

definition same_fixed :: "ushort \<Rightarrow> ushort \<Rightarrow> type_code \<Rightarrow> bool res" where
  [simp]: "same_fixed d s u =
     catch_bad (rbind (tc_fixed_digits u) (\<lambda>d'. if d \<noteq> d' then Inr False else rbind (tc_fixed_scale u) (\<lambda>s'. Inr (s = s'))))"

definition same_elements :: "bool \<Rightarrow> ulong \<Rightarrow> (type_code \<Rightarrow> bool res) \<Rightarrow> type_code \<Rightarrow> bool res" where
  [simp]: "same_elements ex l eq u = (if \<not> ex then Inr True else
     catch_bad (rbind (tc_length u) (\<lambda>l'. if l \<noteq> l' then Inr False else rbind (content_type u) eq)))"

definition same_members :: "bool \<Rightarrow> nat \<Rightarrow> (type_code \<Rightarrow> bool res) \<Rightarrow> type_code \<Rightarrow> bool res" where
  [simp]: "same_members ex c eq u = (if \<not> ex then Inr True else
     catch_bad (rbind (member_count u) (\<lambda>c'. if c \<noteq> c' then Inr False else eq u)))"

definition same_content :: "(type_code \<Rightarrow> bool res) \<Rightarrow> type_code \<Rightarrow> bool res" where
  [simp]: "same_content eq u = catch_bad (rbind (content_type u) eq)"

definition same_union :: "bool \<Rightarrow> nat \<Rightarrow> (type_code \<Rightarrow> bool res) \<Rightarrow> (union_member list \<Rightarrow> bool res) \<Rightarrow> type_code \<Rightarrow> bool res" where
  [simp]: "same_union ex c eq eqc u = (if \<not> ex then Inr True else
     (case u of UnionTypeCode _ _ _ d' _ ms' \<Rightarrow>
        if c \<noteq> length ms' then Inr False
        else rbind (eq d') (\<lambda>b. if \<not> b then Inr False else eqc ms')
      | _ \<Rightarrow> Inr False))"

definition same_value_type ::
  "bool \<Rightarrow> ushort \<Rightarrow> (type_code option \<Rightarrow> bool res) option \<Rightarrow> nat \<Rightarrow> (value_member list \<Rightarrow> bool res) \<Rightarrow> type_code \<Rightarrow> bool res" where
  [simp]: "same_value_type ex v base c eqf u = (if \<not> ex then Inr True else
     (case u of ValueTypeCode _ _ _ v' b' ms' \<Rightarrow>
        if v \<noteq> v' then Inr False
        else (case base of None \<Rightarrow> Inr (b' = None)
              | Some eq \<Rightarrow> rbind (eq b') (\<lambda>e. if \<not> e then Inr False
                  else if c \<noteq> length ms' then Inr False else eqf ms'))
      | _ \<Rightarrow> Inr False))"

definition same_box :: "bool \<Rightarrow> (type_code \<Rightarrow> bool res) \<Rightarrow> type_code \<Rightarrow> bool res" where
  [simp]: "same_box ex eq u = (if \<not> ex then Inr True else
     (case u of ValueBoxTypeCode _ _ _ t' \<Rightarrow> eq t' | _ \<Rightarrow> Inr False))"

lemma same_shallow [simp]:
  "same_elements False l eq = (\<lambda>u. Inr True)" "same_members False c eq = (\<lambda>u. Inr True)" "same_union False c eq eqc = (\<lambda>u. Inr True)"
  "same_value_type False v base c eqf = (\<lambda>u. Inr True)" "same_box False eq = (\<lambda>u. Inr True)"
  by (simp_all add: fun_eq_iff)

definition enum_equal :: "bool \<Rightarrow> name \<Rightarrow> name \<Rightarrow> name list \<Rightarrow> type_code option \<Rightarrow> bool res" where
  "enum_equal ex i n ms u = and_then (complex_equal tk_enum i n u) u (same_members ex (length ms) (equal_names ms 0))"

text \<open>The comparison of Any values of discriminator types (\<^verbatim>\<open>AnyImpl::operator==\<close>): the types are equivalent and the values
  are the same. The discriminator types of IDL are the basic ones, enumerations, and aliases of them; \<open>disc_equivalent\<close>
  is \<^verbatim>\<open>equivalent\<close> on them, as is shown below.\<close>

fun disc_equivalent :: "type_code \<Rightarrow> type_code \<Rightarrow> bool" where
  "disc_equivalent (AliasTypeCode i n t) u = disc_equivalent t u"
| "disc_equivalent (TypeCodeImpl k) (AliasTypeCode i n u) = disc_equivalent (TypeCodeImpl k) u"
| "disc_equivalent (TypeCodeImpl k) u = (k = tc_kind u)"
| "disc_equivalent (EnumTypeCode ex i n ms) (AliasTypeCode i' n' u) = (disc_equivalent (EnumTypeCode ex i n ms) u \<and> \<not> ex)"
| "disc_equivalent (EnumTypeCode ex i n ms) u = (enum_equal ex i n ms (Some u) = Inr True)"
| "disc_equivalent t u = False"

definition any_eq :: "type_code \<times> cdr_value \<Rightarrow> type_code \<times> cdr_value \<Rightarrow> bool" where
  "any_eq a b = (if \<not> disc_equivalent (fst a) (fst b) then False else snd a = snd b)"

fun tc_equal :: "type_code \<Rightarrow> type_code option \<Rightarrow> bool res"
  and equal_members :: "struct_member list \<Rightarrow> nat \<Rightarrow> type_code \<Rightarrow> bool res"
  and equal_cases :: "union_member list \<Rightarrow> union_member list \<Rightarrow> bool res"
  and equal_fields :: "value_member list \<Rightarrow> value_member list \<Rightarrow> bool res" where
  "tc_equal (TypeCodeImpl k) u = impl_equal k u"
| "tc_equal (StringTypeCode l) u = and_then (impl_equal tk_string u) u (same_bound l)"
| "tc_equal (WStringTypeCode l) u = and_then (impl_equal tk_wstring u) u (same_bound l)"
| "tc_equal (FixedTypeCode d s) u = and_then (impl_equal tk_fixed u) u (same_fixed d s)"
| "tc_equal (ArrayTypeCode ex t l) u = and_then (impl_equal tk_array u) u (same_elements ex l (\<lambda>t'. tc_equal t (Some t')))"
| "tc_equal (SequenceTypeCode ex t l) u = and_then (impl_equal tk_sequence u) u (same_elements ex l (\<lambda>t'. tc_equal t (Some t')))"
| "tc_equal (StructTypeCode ex i n ms) u =
     and_then (complex_equal tk_struct i n u) u (same_members ex (length ms) (\<lambda>u. equal_members ms 0 u))"
| "tc_equal (ExceptionTypeCode ex i n ms) u =
     and_then (complex_equal tk_except i n u) u (same_members ex (length ms) (\<lambda>u. equal_members ms 0 u))"
| "tc_equal (EnumTypeCode ex i n ms) u = enum_equal ex i n ms u"
| "tc_equal (AliasTypeCode i n t) u = and_then (complex_equal tk_alias i n u) u (same_content (\<lambda>t'. tc_equal t (Some t')))"
| "tc_equal (UnionTypeCode ex i n d x ms) u = and_then (complex_equal tk_union i n u) u
     (same_union ex (length ms) (\<lambda>d'. tc_equal d (Some d')) (\<lambda>ms'. equal_cases ms ms'))"
| "tc_equal (ValueTypeCode ex i n v b ms) u = and_then (complex_equal tk_value i n u) u
     (same_value_type ex v (map_option (\<lambda>t b'. tc_equal t b') b) (length ms) (\<lambda>ms'. equal_fields ms ms'))"
| "tc_equal (ValueBoxTypeCode ex i n t) u =
     and_then (complex_equal tk_value_box i n u) u (same_box ex (\<lambda>t'. tc_equal t (Some t')))"
| "tc_equal (ObjectRefTypeCode i n) u = complex_equal tk_objref i n u"
| "tc_equal (NativeTypeCode i n) u = complex_equal tk_native i n u"
| "tc_equal (AbstractInterfaceTypeCode i n) u = complex_equal tk_abstract_interface i n u"
| "tc_equal (LocalInterfaceTypeCode i n) u = complex_equal tk_local_interface i n u"
| "tc_equal (RecursiveTypeCode i) u = (case u of Some (RecursiveTypeCode i') \<Rightarrow> Inr (i' = i) | _ \<Rightarrow> Inr False)"
| "equal_members [] k u = Inr True"
| "equal_members (StructMember n t # ms) k u =
     rbind (member_name u k) (\<lambda>n'. if n \<noteq> n' then Inr False
     else rbind (member_type u k) (\<lambda>t'. rbind (tc_equal t (Some t')) (\<lambda>b. if \<not> b then Inr False else equal_members ms (Suc k) u)))"
| "equal_cases (UnionMember lt l n t # ms) (UnionMember lt' l' n' t' # ms') =
     (if n \<noteq> n' then Inr False else if \<not> any_eq (lt, l) (lt', l') then Inr False
      else rbind (tc_equal t (Some t')) (\<lambda>b. if \<not> b then Inr False else equal_cases ms ms'))"
| "equal_cases _ _ = Inr True"
| "equal_fields (ValueMember n t a # ms) (ValueMember n' t' a' # ms') =
     (if n \<noteq> n' then Inr False else if a \<noteq> a' then Inr False
      else rbind (tc_equal t (Some t')) (\<lambda>b. if \<not> b then Inr False else equal_fields ms ms'))"
| "equal_fields _ _ = Inr True"

section \<open>Equivalence\<close>

text \<open>\<^verbatim>\<open>TypeCodeImpl::equivalent\<close>, which the classes call first, follows an alias in the argument and calls \<^verbatim>\<open>equivalent\<close>
  again with its content; the rest of the comparison of a class goes on with the argument itself, the alias.\<close>

definition impl_equivalent :: "(type_code option \<Rightarrow> bool res) \<Rightarrow> (type_code \<Rightarrow> bool res) \<Rightarrow> type_code \<Rightarrow> bool res" where
  [simp]: "impl_equivalent eq eqv u = (case u of AliasTypeCode _ _ w \<Rightarrow> eqv w | _ \<Rightarrow> eq (Some u))"

lemma impl_equivalent_cong [fundef_cong]:
  "eq = eq' \<Longrightarrow> u = u' \<Longrightarrow> (\<And>i n w. u' = AliasTypeCode i n w \<Longrightarrow> eqv w = eqv' w) \<Longrightarrow> impl_equivalent eq eqv u = impl_equivalent eq' eqv' u'"
  by (cases u') auto

fun tc_equivalent :: "type_code \<Rightarrow> type_code \<Rightarrow> bool res"
  and equivalent_members :: "struct_member list \<Rightarrow> nat \<Rightarrow> type_code \<Rightarrow> bool res"
  and equivalent_cases :: "union_member list \<Rightarrow> union_member list \<Rightarrow> bool res" where
  "tc_equivalent (AliasTypeCode i n t) u = tc_equivalent t u"
| "tc_equivalent (TypeCodeImpl k) u = impl_equivalent (tc_equal (TypeCodeImpl k)) (\<lambda>w. tc_equivalent (TypeCodeImpl k) w) u"
| "tc_equivalent (StringTypeCode l) u = impl_equivalent (tc_equal (StringTypeCode l)) (\<lambda>w. tc_equivalent (StringTypeCode l) w) u"
| "tc_equivalent (WStringTypeCode l) u = impl_equivalent (tc_equal (WStringTypeCode l)) (\<lambda>w. tc_equivalent (WStringTypeCode l) w) u"
| "tc_equivalent (RecursiveTypeCode i) u = impl_equivalent (tc_equal (RecursiveTypeCode i)) (\<lambda>w. tc_equivalent (RecursiveTypeCode i) w) u"
| "tc_equivalent (FixedTypeCode d s) u = and_then
     (impl_equivalent (tc_equal (FixedTypeCode d s)) (\<lambda>w. tc_equivalent (FixedTypeCode d s) w) u) (Some u)
     (same_fixed d s)"
| "tc_equivalent (ArrayTypeCode ex t l) u = and_then
     (impl_equivalent (tc_equal (ArrayTypeCode ex t l)) (\<lambda>w. tc_equivalent (ArrayTypeCode ex t l) w) u) (Some u)
     (same_elements ex l (\<lambda>t'. tc_equal t (Some t')))"
| "tc_equivalent (SequenceTypeCode ex t l) u = and_then
     (impl_equivalent (tc_equal (SequenceTypeCode ex t l)) (\<lambda>w. tc_equivalent (SequenceTypeCode ex t l) w) u) (Some u)
     (same_elements ex l (\<lambda>t'. tc_equal t (Some t')))"
| "tc_equivalent (StructTypeCode ex i n ms) u = and_then
     (impl_equivalent (tc_equal (StructTypeCode ex i n ms)) (\<lambda>w. tc_equivalent (StructTypeCode ex i n ms) w) u) (Some u)
     (same_members ex (length ms) (\<lambda>u. equivalent_members ms 0 u))"
| "tc_equivalent (ExceptionTypeCode ex i n ms) u = and_then
     (impl_equivalent (tc_equal (ExceptionTypeCode ex i n ms)) (\<lambda>w. tc_equivalent (ExceptionTypeCode ex i n ms) w) u) (Some u)
     (same_members ex (length ms) (\<lambda>u. equivalent_members ms 0 u))"
| "tc_equivalent (EnumTypeCode ex i n ms) u = and_then
     (impl_equivalent (tc_equal (EnumTypeCode ex i n ms)) (\<lambda>w. tc_equivalent (EnumTypeCode ex i n ms) w) u) (Some u)
     (same_members ex (length ms) (equal_names ms 0))"
| "tc_equivalent (UnionTypeCode ex i n d x ms) u = and_then
     (impl_equivalent (tc_equal (UnionTypeCode ex i n d x ms)) (\<lambda>w. tc_equivalent (UnionTypeCode ex i n d x ms) w) u) (Some u)
     (same_union ex (length ms) (\<lambda>d'. tc_equivalent d d') (\<lambda>ms'. equivalent_cases ms ms'))"
| "tc_equivalent (ValueTypeCode ex i n v b ms) u = and_then
     (impl_equivalent (tc_equal (ValueTypeCode ex i n v b ms)) (\<lambda>w. tc_equivalent (ValueTypeCode ex i n v b ms) w) u) (Some u)
     (same_value_type ex v (map_option tc_equal b) (length ms) (equal_fields ms))"
| "tc_equivalent (ValueBoxTypeCode ex i n t) u = and_then
     (impl_equivalent (tc_equal (ValueBoxTypeCode ex i n t)) (\<lambda>w. tc_equivalent (ValueBoxTypeCode ex i n t) w) u) (Some u)
     (same_box ex (\<lambda>t'. tc_equivalent t t'))"
| "tc_equivalent (ObjectRefTypeCode i n) u = and_then
     (impl_equivalent (tc_equal (ObjectRefTypeCode i n)) (\<lambda>w. tc_equivalent (ObjectRefTypeCode i n) w) u) (Some u)
     (same_names i n)"
| "tc_equivalent (NativeTypeCode i n) u = and_then
     (impl_equivalent (tc_equal (NativeTypeCode i n)) (\<lambda>w. tc_equivalent (NativeTypeCode i n) w) u) (Some u)
     (same_names i n)"
| "tc_equivalent (AbstractInterfaceTypeCode i n) u = and_then
     (impl_equivalent (tc_equal (AbstractInterfaceTypeCode i n)) (\<lambda>w. tc_equivalent (AbstractInterfaceTypeCode i n) w) u) (Some u)
     (same_names i n)"
| "tc_equivalent (LocalInterfaceTypeCode i n) u = and_then
     (impl_equivalent (tc_equal (LocalInterfaceTypeCode i n)) (\<lambda>w. tc_equivalent (LocalInterfaceTypeCode i n) w) u) (Some u)
     (same_names i n)"
| "equivalent_members [] k u = Inr True"
| "equivalent_members (StructMember n t # ms) k u =
     rbind (member_name u k) (\<lambda>n'. if n \<noteq> n' then Inr False
     else rbind (member_type u k) (\<lambda>t'. rbind (tc_equivalent t t') (\<lambda>b. if \<not> b then Inr False else equivalent_members ms (Suc k) u)))"
| "equivalent_cases (UnionMember lt l n t # ms) (UnionMember lt' l' n' t' # ms') =
     (if n \<noteq> n' then Inr False else if \<not> any_eq (lt, l) (lt', l') then Inr False
      else rbind (tc_equivalent t t') (\<lambda>b. if \<not> b then Inr False else equivalent_cases ms ms'))"
| "equivalent_cases _ _ = Inr True"

text \<open>The operation with its check for a null argument.\<close>

definition equivalent_arg :: "type_code \<Rightarrow> type_code option \<Rightarrow> bool res" where
  "equivalent_arg t u = (case u of None \<Rightarrow> Inl BAD_PARAM | Some u \<Rightarrow> tc_equivalent t u)"

end
