(* ===== verification/Type_Compare.thy ===== *)
theory Type_Compare
  imports Type_Code
begin

text \<open>
  What the comparisons of type codes decide. With the flag \<^verbatim>\<open>m_exhaustive_equal\<close> set, \<^verbatim>\<open>equal\<close> decides whether two well-formed
  type codes are the same; without it, it looks at the outermost constructor only. \<^verbatim>\<open>equivalent\<close> is meant to see through
  aliases and does so for some classes only.
\<close>

section \<open>Well-formed type codes\<close>

definition basic_kind :: "TCKind \<Rightarrow> bool" where
  "basic_kind k \<longleftrightarrow> k \<in> {tk_void, tk_short, tk_long, tk_ushort, tk_ulong, tk_float, tk_double, tk_boolean, tk_char, tk_octet,
     tk_any, tk_TypeCode, tk_Principal, tk_longlong, tk_ulonglong, tk_longdouble, tk_wchar}"

definition disc_type :: "type_code \<Rightarrow> bool" where
  "disc_type d = (case d of
     TypeCodeImpl k \<Rightarrow> k \<in> {tk_short, tk_long, tk_longlong, tk_ushort, tk_ulong, tk_ulonglong, tk_boolean, tk_char, tk_wchar}
   | EnumTypeCode ex i n ms \<Rightarrow> True
   | _ \<Rightarrow> False)"

text \<open>The index of the default case of a union, as its constructor finds it: the first label that is an octet.\<close>

fun find_default :: "union_member list \<Rightarrow> nat \<Rightarrow> int" where
  "find_default [] i = -1"
| "find_default (m # ms) i = (if impl_equal tk_octet (Some (um_label_type m)) = Inr True then int i else find_default ms (Suc i))"

text \<open>\<open>complete ex t\<close>: a type code as an IDL compiler makes it, all of whose flags are \<open>ex\<close>. Its basic types are basic; the
  discriminator of a union and its labels are of one type that is no alias, but for a default label; the base of a value
  type is there. Recursive type codes are not yet resolved and left out.\<close>

fun complete :: "bool \<Rightarrow> type_code \<Rightarrow> bool" where
  "complete ex (TypeCodeImpl k) = basic_kind k"
| "complete ex (ArrayTypeCode e t l) = (e = ex \<and> complete ex t)"
| "complete ex (SequenceTypeCode e t l) = (e = ex \<and> complete ex t)"
| "complete ex (StructTypeCode e i n ms) = (e = ex \<and> list_all (\<lambda>m. case m of StructMember n t \<Rightarrow> complete ex t) ms)"
| "complete ex (ExceptionTypeCode e i n ms) = (e = ex \<and> list_all (\<lambda>m. case m of StructMember n t \<Rightarrow> complete ex t) ms)"
| "complete ex (EnumTypeCode e i n ms) = (e = ex)"
| "complete ex (AliasTypeCode i n t) = complete ex t"
| "complete ex (UnionTypeCode e i n d x ms) = (e = ex \<and> disc_type d \<and> complete ex d \<and> x = find_default ms 0 \<and>
     list_all (\<lambda>m. case m of UnionMember lt l n t \<Rightarrow> (lt = d \<or> lt = TypeCodeImpl tk_octet) \<and> complete ex t) ms)"
| "complete ex (ValueTypeCode e i n v b ms) = (e = ex \<and> (case b of Some t \<Rightarrow> complete ex t | None \<Rightarrow> False) \<and>
     list_all (\<lambda>m. case m of ValueMember n t a \<Rightarrow> complete ex t) ms)"
| "complete ex (ValueBoxTypeCode e i n t) = (e = ex \<and> complete ex t)"
| "complete ex (RecursiveTypeCode i) = False"
| "complete ex _ = True"

section \<open>The loops\<close>

lemma catch_bad_Inr [simp]: "catch_bad (Inr b) = Inr b"
  by (simp add: catch_bad_def)

lemma and_then_simps [simp]: "and_then (Inr b) (Some u) f = (if b then f u else Inr False)"
  by (simp add: and_then_def)

lemma at_index_drop: "k < length xs \<Longrightarrow> at_index xs k = Inr (xs ! k)"
  by (simp add: at_index_def)

definition decides :: "type_code \<Rightarrow> bool" where
  "decides t \<longleftrightarrow> (\<forall>u. complete True t \<longrightarrow> complete True u \<longrightarrow> tc_equal t (Some u) = Inr (t = u))"

lemma equal_names_decides:
  "member_names u = Some us \<Longrightarrow> k + length ns = length us \<Longrightarrow> equal_names ns k u = Inr (ns = drop k us)"
proof (induction ns arbitrary: k)
  case (Cons n ns)
  then have "drop k us = us ! k # drop (Suc k) us" by (simp add: Cons_nth_drop_Suc)
  with Cons show ?case by (auto simp: member_name_def at_index_drop)
qed simp

lemma equal_members_decides:
  assumes "member_names u = Some (map sm_name us)" "member_types u = Some (map sm_type us)"
    and "list_all (\<lambda>m. case m of StructMember n t \<Rightarrow> complete True t) us"
  shows "list_all (\<lambda>m. case m of StructMember n t \<Rightarrow> complete True t \<and> decides t) ms \<Longrightarrow> k + length ms = length us \<Longrightarrow>
    equal_members ms k u = Inr (ms = drop k us)"
proof (induction ms arbitrary: k)
  case (Cons m ms)
  obtain n t where m: "m = StructMember n t" by (cases m)
  obtain n' t' where u: "us ! k = StructMember n' t'" by (cases "us ! k")
  have "drop k us = us ! k # drop (Suc k) us" using Cons.prems by (simp add: Cons_nth_drop_Suc)
  moreover have "complete True t'" using assms(3) Cons.prems(2) u unfolding list_all_length by (auto dest!: spec [of _ k])
  ultimately show ?case using Cons m u assms by (auto simp: member_name_def member_type_def at_index_drop decides_def)
qed simp

lemma equal_fields_decides:
  "list_all (\<lambda>m. case m of ValueMember n t a \<Rightarrow> complete True t \<and> decides t) ms \<Longrightarrow>
   list_all (\<lambda>m. case m of ValueMember n t a \<Rightarrow> complete True t) us \<Longrightarrow> length ms = length us \<Longrightarrow>
   equal_fields ms us = Inr (ms = us)"
proof (induction ms us rule: list_induct2')
  case (4 m ms u us)
  then show ?case by (cases m; cases u) (auto simp: decides_def)
qed simp_all

lemma enum_equal_decides:
  "enum_equal True i n ms (Some (EnumTypeCode True i' n' ms')) = Inr (i = i' \<and> n = n' \<and> ms = ms')"
  using equal_names_decides [of "EnumTypeCode True i' n' ms'" ms' 0 ms]
  by (auto simp: enum_equal_def complex_equal_def impl_equal_def same_names_def tc_id_def tc_name_def member_count_def)

lemma disc_equivalent_refl: "disc_type d \<Longrightarrow> complete True d \<Longrightarrow> disc_equivalent d d"
  using enum_equal_decides by (cases d) (auto simp: disc_type_def)

lemma disc_not_octet: "disc_type d \<Longrightarrow> \<not> disc_equivalent d (TypeCodeImpl tk_octet) \<and> \<not> disc_equivalent (TypeCodeImpl tk_octet) d"
  by (cases d) (auto simp: disc_type_def enum_equal_def complex_equal_def impl_equal_def)

lemma label_decides:
  assumes "disc_type d" "complete True d" "lt = d \<or> lt = TypeCodeImpl tk_octet" "lt' = d \<or> lt' = TypeCodeImpl tk_octet"
  shows "any_eq (lt, l) (lt', l') \<longleftrightarrow> (lt, l) = (lt', l')"
  using assms disc_equivalent_refl [of d] disc_not_octet [of d] by (auto simp: any_eq_def)

lemma equal_cases_decides:
  assumes "disc_type d" "complete True d"
  shows "list_all (\<lambda>m. case m of UnionMember lt l n t \<Rightarrow> (lt = d \<or> lt = TypeCodeImpl tk_octet) \<and> complete True t \<and> decides t) ms \<Longrightarrow>
   list_all (\<lambda>m. case m of UnionMember lt l n t \<Rightarrow> (lt = d \<or> lt = TypeCodeImpl tk_octet) \<and> complete True t) us \<Longrightarrow>
   length ms = length us \<Longrightarrow> equal_cases ms us = Inr (ms = us)"
proof (induction ms us rule: list_induct2')
  case (4 m ms u us)
  obtain lt l n t where m: "m = UnionMember lt l n t" by (cases m)
  obtain lt' l' n' t' where u: "u = UnionMember lt' l' n' t'" by (cases u)
  have "any_eq (lt, l) (lt', l') \<longleftrightarrow> (lt, l) = (lt', l')" using 4 m u assms by (intro label_decides) auto
  with 4 m u show ?case by (auto simp: decides_def)
qed simp_all

section \<open>What equal decides\<close>

lemmas equal_unfold = impl_equal_def complex_equal_def same_names_def tc_id_def tc_name_def member_count_def basic_kind_def

lemma kinds_differ: "tc_kind t \<noteq> tc_kind u \<Longrightarrow> tc_equal t (Some u) = Inr False"
  by (cases t) (simp_all add: impl_equal_def complex_equal_def and_then_def enum_equal_def, cases u, simp_all)

lemma decidesI:
  "(\<And>u. complete True t \<Longrightarrow> complete True u \<Longrightarrow> tc_kind u = tc_kind t \<Longrightarrow> tc_equal t (Some u) = Inr (t = u)) \<Longrightarrow> decides t"
  unfolding decides_def by (metis kinds_differ)

lemma members_conj:
  "list_all (\<lambda>m. case m of StructMember n t \<Rightarrow> P t) ms \<Longrightarrow> (\<And>m. m \<in> set ms \<Longrightarrow> Q (sm_type m)) \<Longrightarrow>
   list_all (\<lambda>m. case m of StructMember n t \<Rightarrow> P t \<and> Q t) ms"
  "list_all (\<lambda>m. case m of UnionMember lt l n t \<Rightarrow> R lt \<and> P t) cs \<Longrightarrow> (\<And>m. m \<in> set cs \<Longrightarrow> Q (um_type m)) \<Longrightarrow>
   list_all (\<lambda>m. case m of UnionMember lt l n t \<Rightarrow> R lt \<and> P t \<and> Q t) cs"
  "list_all (\<lambda>m. case m of ValueMember n t a \<Rightarrow> P t) vs \<Longrightarrow> (\<And>m. m \<in> set vs \<Longrightarrow> Q (vm_type m)) \<Longrightarrow>
   list_all (\<lambda>m. case m of ValueMember n t a \<Rightarrow> P t \<and> Q t) vs"
  by (simp_all add: list_all_iff struct_member.case_eq_if union_member.case_eq_if value_member.case_eq_if)

text \<open>The classes without parts that are compared by their own comparison.\<close>

lemma decides_leaf:
  shows "decides (TypeCodeImpl k)"
    and "decides (StringTypeCode l)"
    and "decides (WStringTypeCode l)"
    and "decides (FixedTypeCode d s)"
    and "decides (EnumTypeCode e i n ns)"
    and "decides (ObjectRefTypeCode i n)"
    and "decides (NativeTypeCode i n)"
    and "decides (AbstractInterfaceTypeCode i n)"
    and "decides (LocalInterfaceTypeCode i n)"
    and "decides (RecursiveTypeCode i)"
proof -
  show "decides (TypeCodeImpl k)"
    by (rule decidesI, case_tac u) (auto simp: equal_unfold enum_equal_decides tc_fixed_digits_def tc_fixed_scale_def)
  show "decides (StringTypeCode l)"
    by (rule decidesI, case_tac u) (auto simp: equal_unfold enum_equal_decides tc_fixed_digits_def tc_fixed_scale_def)
  show "decides (WStringTypeCode l)"
    by (rule decidesI, case_tac u) (auto simp: equal_unfold enum_equal_decides tc_fixed_digits_def tc_fixed_scale_def)
  show "decides (FixedTypeCode d s)"
    by (rule decidesI, case_tac u) (auto simp: equal_unfold enum_equal_decides tc_fixed_digits_def tc_fixed_scale_def)
  show "decides (EnumTypeCode e i n ns)"
    by (rule decidesI, case_tac u) (auto simp: equal_unfold enum_equal_decides tc_fixed_digits_def tc_fixed_scale_def)
  show "decides (ObjectRefTypeCode i n)"
    by (rule decidesI, case_tac u) (auto simp: equal_unfold enum_equal_decides tc_fixed_digits_def tc_fixed_scale_def)
  show "decides (NativeTypeCode i n)"
    by (rule decidesI, case_tac u) (auto simp: equal_unfold enum_equal_decides tc_fixed_digits_def tc_fixed_scale_def)
  show "decides (AbstractInterfaceTypeCode i n)"
    by (rule decidesI, case_tac u) (auto simp: equal_unfold enum_equal_decides tc_fixed_digits_def tc_fixed_scale_def)
  show "decides (LocalInterfaceTypeCode i n)"
    by (rule decidesI, case_tac u) (auto simp: equal_unfold enum_equal_decides tc_fixed_digits_def tc_fixed_scale_def)
  show "decides (RecursiveTypeCode i)"
    by (rule decidesI, case_tac u) (auto simp: equal_unfold enum_equal_decides tc_fixed_digits_def tc_fixed_scale_def)
qed

lemma decides_content:
  assumes "decides t"
  shows "decides (ArrayTypeCode e t l)"
    and "decides (SequenceTypeCode e t l)"
    and "decides (AliasTypeCode i n t)"
    and "decides (ValueBoxTypeCode e i n t)"
proof -
  show "decides (ArrayTypeCode e t l)" using assms
    by (intro decidesI, case_tac u) (auto simp: equal_unfold decides_def)
  show "decides (SequenceTypeCode e t l)" using assms
    by (intro decidesI, case_tac u) (auto simp: equal_unfold decides_def)
  show "decides (AliasTypeCode i n t)" using assms
    by (intro decidesI, case_tac u) (auto simp: equal_unfold decides_def)
  show "decides (ValueBoxTypeCode e i n t)" using assms
    by (intro decidesI, case_tac u) (auto simp: equal_unfold decides_def)
qed

lemma decides_struct:
  assumes "\<And>m. m \<in> set ms \<Longrightarrow> decides (sm_type m)"
  shows "decides (StructTypeCode e i n ms)" "decides (ExceptionTypeCode e i n ms)"
proof -
  have loop: "equal_members ms 0 u = Inr (ms = us)" if "length ms = length us" "member_names u = Some (map sm_name us)" "member_types u = Some (map sm_type us)"
    "list_all (\<lambda>m. case m of StructMember n t \<Rightarrow> complete True t) ms" "list_all (\<lambda>m. case m of StructMember n t \<Rightarrow> complete True t) us" for u us
    using equal_members_decides [of u us ms 0] members_conj(1) [of "complete True" ms decides] that assms by simp
  show "decides (StructTypeCode e i n ms)" by (rule decidesI, case_tac u) (auto simp: equal_unfold loop)
  show "decides (ExceptionTypeCode e i n ms)" by (rule decidesI, case_tac u) (auto simp: equal_unfold loop)
qed

lemma decides_value:
  assumes "\<And>t. t \<in> set_option b \<Longrightarrow> decides t" "\<And>m. m \<in> set ms \<Longrightarrow> decides (vm_type m)"
  shows "decides (ValueTypeCode e i n v b ms)"
proof (rule decidesI)
  fix u assume c: "complete True (ValueTypeCode e i n v b ms)" "complete True u" "tc_kind u = tc_kind (ValueTypeCode e i n v b ms)"
  then obtain i' n' v' b' us where u: "u = ValueTypeCode True i' n' v' b' us" by (cases u) (auto simp: basic_kind_def)
  have f: "equal_fields ms us = Inr (ms = us)" if "length ms = length us"
    using equal_fields_decides [of ms us] members_conj(3) [of "complete True" ms decides] c u that assms(2) by simp
  obtain t t' where t: "b = Some t" "b' = Some t'" "complete True t" "complete True t'" using c u by (auto split: option.splits)
  then have "tc_equal t (Some t') = Inr (t = t')" using assms(1) by (auto simp: decides_def)
  then show "tc_equal (ValueTypeCode e i n v b ms) (Some u) = Inr (ValueTypeCode e i n v b ms = u)"
    using c u f t by (auto simp: equal_unfold)
qed

lemma decides_union:
  assumes "decides d" "\<And>m. m \<in> set ms \<Longrightarrow> decides (um_type m)"
  shows "decides (UnionTypeCode e i n d x ms)"
proof (rule decidesI)
  fix u assume c: "complete True (UnionTypeCode e i n d x ms)" "complete True u" "tc_kind u = tc_kind (UnionTypeCode e i n d x ms)"
  then obtain i' n' d' x' us where u: "u = UnionTypeCode True i' n' d' x' us" by (cases u) (auto simp: basic_kind_def)
  have f: "equal_cases ms us = Inr (ms = us)" if "length ms = length us" "d' = d"
    using equal_cases_decides [of d ms us] members_conj(2) [of "\<lambda>lt. lt = d \<or> lt = TypeCodeImpl tk_octet" "complete True" ms decides]
      c u that assms(2) by simp
  have "tc_equal d (Some d') = Inr (d = d')" using assms(1) c u by (auto simp: decides_def)
  then show "tc_equal (UnionTypeCode e i n d x ms) (Some u) = Inr (UnionTypeCode e i n d x ms = u)"
    using c u f by (auto simp: equal_unfold)
qed

lemma tc_equal_decides: "decides t"
  by (induction t rule: type_code.induct [where ?P2.0 = "\<lambda>m. decides (sm_type m)" and ?P3.0 = "\<lambda>m. decides (um_type m)"
      and ?P4.0 = "\<lambda>m. decides (vm_type m)"])
    (simp_all add: decides_leaf decides_content decides_struct decides_union, rule decides_value, simp_all)

section \<open>Aliases\<close>

fun unalias :: "type_code \<Rightarrow> type_code" where
  "unalias (AliasTypeCode i n t) = unalias t"
| "unalias t = t"

text \<open>The classes whose comparison ends with that of \<^verbatim>\<open>TypeCodeImpl\<close>, and those that go on with the parts of the argument.\<close>

fun alias_aware :: "type_code \<Rightarrow> bool" where
  "alias_aware (ArrayTypeCode ex _ _) = (\<not> ex)"
| "alias_aware (SequenceTypeCode ex _ _) = (\<not> ex)"
| "alias_aware (StructTypeCode ex _ _ _) = (\<not> ex)"
| "alias_aware (ExceptionTypeCode ex _ _ _) = (\<not> ex)"
| "alias_aware (EnumTypeCode ex _ _ _) = (\<not> ex)"
| "alias_aware (UnionTypeCode ex _ _ _ _ _) = (\<not> ex)"
| "alias_aware (ValueTypeCode ex _ _ _ _ _) = (\<not> ex)"
| "alias_aware (ValueBoxTypeCode ex _ _ _) = (\<not> ex)"
| "alias_aware (TypeCodeImpl k) = True"
| "alias_aware (StringTypeCode l) = True"
| "alias_aware (WStringTypeCode l) = True"
| "alias_aware (RecursiveTypeCode i) = True"
| "alias_aware _ = False"

fun alias_blind :: "type_code \<Rightarrow> bool" where
  "alias_blind (ArrayTypeCode ex _ _) = ex"
| "alias_blind (SequenceTypeCode ex _ _) = ex"
| "alias_blind (StructTypeCode ex _ _ _) = ex"
| "alias_blind (ExceptionTypeCode ex _ _ _) = ex"
| "alias_blind (EnumTypeCode ex _ _ _) = ex"
| "alias_blind (UnionTypeCode ex _ _ _ _ _) = ex"
| "alias_blind (ValueTypeCode ex _ _ _ _ _) = ex"
| "alias_blind (ValueBoxTypeCode ex _ _ _) = ex"
| "alias_blind (FixedTypeCode d s) = True"
| "alias_blind _ = False"

lemma and_then_id [simp]: "and_then r (Some u) (\<lambda>u. Inr True) = r"
  by (cases r) (auto simp: and_then_def)

lemma equivalent_alias: "alias_aware t \<Longrightarrow> tc_equivalent t (AliasTypeCode i n u) = tc_equivalent t u"
  by (cases t) simp_all

lemma unalias_no_alias: "unalias t \<noteq> AliasTypeCode i n u"
  by (induction t rule: unalias.induct) simp_all

lemma equivalent_plain: "alias_aware t \<Longrightarrow> unalias u = u \<Longrightarrow> tc_equivalent t u = tc_equal t (Some u)"
  using unalias_no_alias by (cases t; cases u) simp_all

lemma unalias_unalias [simp]: "unalias (unalias t) = unalias t"
  by (induction t rule: unalias.induct) simp_all

lemma equivalent_unalias: "alias_aware t \<Longrightarrow> tc_equivalent t u = tc_equal t (Some (unalias u))"
proof (induction u rule: unalias.induct)
  case (1 i n u)
  then show ?case by (simp add: equivalent_alias)
qed (simp_all add: equivalent_plain)

lemma equivalent_through: "tc_equivalent t u = tc_equivalent (unalias t) u"
  by (induction t rule: unalias.induct) simp_all

text \<open>On discriminator types, and aliases of them, \<open>disc_equivalent\<close> is \<^verbatim>\<open>equivalent\<close>.\<close>

lemma equal_names_bad: "equal_names ns k u = Inl e \<Longrightarrow> e = BadKind \<or> e = Bounds"
  by (induction ns arbitrary: k) (auto simp: rbind_eq_Inl member_name_def at_index_def split: if_splits option.splits)

lemma complex_equal_total: "\<not> isl (complex_equal k i n (Some u))"
  by (cases u) (simp_all add: complex_equal_def impl_equal_def same_names_def tc_id_def tc_name_def catch_bad_def)

lemma names_total: "\<not> isl (catch_bad (rbind (member_count u) (\<lambda>c. if length ms \<noteq> c then Inr False else equal_names ms 0 u)))"
  using equal_names_bad [of ms 0 u]
  by (cases "equal_names ms 0 u") (auto simp: catch_bad_def member_count_def split: option.splits)

lemma enum_twice:
  "and_then (enum_equal ex i n ms (Some u)) (Some u) (same_members ex (length ms) (equal_names ms 0)) =
   Inr (enum_equal ex i n ms (Some u) = Inr True)"
proof -
  obtain c d where "complex_equal tk_enum i n (Some u) = Inr c"
    "catch_bad (rbind (member_count u) (\<lambda>c. if length ms \<noteq> c then Inr False else equal_names ms 0 u)) = Inr d"
    using complex_equal_total [of tk_enum i n u] names_total [of u ms] unfolding isl_def by (metis sum.exhaust)
  then show ?thesis by (simp add: enum_equal_def)
qed

lemma disc_simple: "tc_equivalent (TypeCodeImpl k) u = Inr (disc_equivalent (TypeCodeImpl k) u)"
  by (induction u rule: unalias.induct) (simp_all add: impl_equal_def)

lemma disc_enum: "tc_equivalent (EnumTypeCode ex i n ms) u = Inr (disc_equivalent (EnumTypeCode ex i n ms) u)"
proof (induction u rule: unalias.induct)
  case (1 i' n' u)
  then show ?case by (simp add: catch_bad_def member_count_def)
qed (simp_all add: enum_twice)

lemma disc_equivalent_correct:
  "unalias d = TypeCodeImpl k \<or> unalias d = EnumTypeCode ex i n ms \<Longrightarrow> tc_equivalent d u = Inr (disc_equivalent d u)"
  by (induction d rule: unalias.induct) (auto simp: disc_simple disc_enum simp del: tc_equivalent.simps disc_equivalent.simps
    simp: tc_equivalent.simps(1) disc_equivalent.simps(1))

section \<open>Properties\<close>


text \<open>Without the flag, the default of the ORB, \<^verbatim>\<open>equal\<close> says that any two sequences are the same type, and any two arrays,
  whatever their elements and lengths, and that two structures, exceptions, enumerations, unions, values or boxes with
  the same id and name are, whatever their members.\<close>

theorem equal_shallow:
  "tc_equal (SequenceTypeCode False t l) (Some (SequenceTypeCode e t' l')) = Inr True \<and>
   tc_equal (ArrayTypeCode False t l) (Some (ArrayTypeCode e t' l')) = Inr True \<and>
   tc_equal (StructTypeCode False i n ms) (Some (StructTypeCode e i n ms')) = Inr True \<and>
   tc_equal (ExceptionTypeCode False i n ms) (Some (ExceptionTypeCode e i n ms')) = Inr True \<and>
   tc_equal (EnumTypeCode False i n ns) (Some (EnumTypeCode e i n ns')) = Inr True \<and>
   tc_equal (UnionTypeCode False i n d x cs) (Some (UnionTypeCode e i n d' x' cs')) = Inr True \<and>
   tc_equal (ValueTypeCode False i n v b vs) (Some (ValueTypeCode e i n v' b' vs')) = Inr True \<and>
   tc_equal (ValueBoxTypeCode False i n t) (Some (ValueBoxTypeCode e i n t')) = Inr True"
  by (simp add: equal_unfold enum_equal_def)

text \<open>C9. \<^verbatim>\<open>equivalent\<close> sees through aliases, on both sides and at any depth, for basic types, strings, and all classes that
  do not compare their parts: it is \<^verbatim>\<open>equal\<close> of what is under the aliases.\<close>

theorem equivalent_sees_through:
  assumes "alias_aware (unalias t)"
  shows "tc_equivalent t u = tc_equal (unalias t) (Some (unalias u))"
  using equivalent_through [of t u] equivalent_unalias [OF assms] by simp

text \<open>\<^verbatim>\<open>equivalent\<close> never says that a fixed type, or a type that compares its parts, is equivalent to an alias, not even to an
  alias of the type itself, and never that two aliases of such types are equivalent, not even an alias to itself: the rest
  of the comparison is made with the alias, which has no such parts. For an interface it compares the id with that of
  the alias.\<close>

theorem equivalent_blind:
  assumes "alias_blind t"
  shows "tc_equivalent t (AliasTypeCode i n u) \<noteq> Inr True \<and>
    tc_equivalent (AliasTypeCode i' n' t) (AliasTypeCode i n u) \<noteq> Inr True \<and>
    tc_equivalent (ObjectRefTypeCode j m) (AliasTypeCode i n (ObjectRefTypeCode j m)) = Inr (j = i \<and> m = n)"
proof -
  have "tc_equivalent t (AliasTypeCode i n u) \<noteq> Inr True" using assms
    by (cases t) (simp_all add: and_then_def catch_bad_def member_count_def tc_fixed_digits_def)
  moreover from this have "tc_equivalent (AliasTypeCode i' n' t) (AliasTypeCode i n u) \<noteq> Inr True" by simp
  ultimately show ?thesis by (simp add: equal_unfold)
qed

section \<open>Witnesses\<close>

definition sample_union :: "bool \<Rightarrow> type_code" where
  "sample_union ex = UnionTypeCode ex [1] [2] (TypeCodeImpl tk_long) 1
     [UnionMember (TypeCodeImpl tk_long) (VLong 7) [3] (SequenceTypeCode ex (StringTypeCode 0) 5),
      UnionMember (TypeCodeImpl tk_octet) (VOctet 0) [4] (EnumTypeCode ex [5] [6] [[7], [8]])]"

definition sample_struct :: "bool \<Rightarrow> type_code" where
  "sample_struct ex = StructTypeCode ex [9] [10] [StructMember [11] (sample_union ex), StructMember [12] (FixedTypeCode 5 2)]"

lemma sample_complete: "complete ex (sample_struct ex)"
  by (simp add: sample_struct_def sample_union_def basic_kind_def disc_type_def impl_equal_def)


theorem equivalent_sees_through_witness:
  "tc_equivalent (AliasTypeCode [1] [1] (StringTypeCode 4)) (AliasTypeCode [2] [2] (AliasTypeCode [3] [3] (StringTypeCode 4))) = Inr True"
  using equivalent_sees_through [of "AliasTypeCode [1] [1] (StringTypeCode 4)" "AliasTypeCode [2] [2] (AliasTypeCode [3] [3] (StringTypeCode 4))"]
  by (simp add: equal_unfold)

theorem equivalent_blind_witness:
  "tc_equivalent (AliasTypeCode [1] [1] (sample_struct True)) (AliasTypeCode [1] [1] (sample_struct True)) \<noteq> Inr True"
  using equivalent_blind [of "sample_struct True" "[1]" "[1]" "sample_struct True" "[1]" "[1]" "[]" "[]"] by (simp add: sample_struct_def)

end
