(* ===== verification/Cdr_Skip.thy ===== *)
theory Cdr_Skip
  imports Cdr_Values
begin

text \<open>
  The operations that move an input stream over a value without reading it (\<^verbatim>\<open>skip\<close>, \<^verbatim>\<open>skip_type\<close>, \<^verbatim>\<open>skip_type_array\<close>,
  \<^verbatim>\<open>skip_string\<close>, \<^verbatim>\<open>skip_wstring\<close> of \<^verbatim>\<open>core/cdr/CDRInputStream.C\<close>) move it over the octets of the value, across chunks.
\<close>

definition moves :: "iter \<Rightarrow> nat \<Rightarrow> iter res \<Rightarrow> bool" where
  "moves it n r \<longleftrightarrow> (\<exists>it'. r = Inr it' \<and> in_ok it' \<and> same_input it it' \<and> in_pos it' = in_pos it + n)"

lemma moves_trans: "moves it n (Inr it1) \<Longrightarrow> moves it1 m r \<Longrightarrow> moves it (n + m) r"
  by (auto simp: moves_def intro: same_input_trans)

lemma reads_moves: "reads it v n r \<Longrightarrow> (\<And>it'. in_ok it' \<Longrightarrow> same_input it it' \<Longrightarrow> in_pos it' = in_pos it + n \<Longrightarrow> moves it' m (f (v, it'))) \<Longrightarrow>
  moves it (n + m) (rbind r f)"
  by (fastforce simp: reads_def moves_def intro: same_input_trans)

lemma moves_reads: "moves it n r \<Longrightarrow> reads it v n (rbind r (\<lambda>it. Inr (v, it)))"
  by (auto simp: reads_def moves_def)

text \<open>Where there is data after the end of the current chunk, the next one has it.\<close>

lemma next_chunk_moves:
  assumes "in_ok it" "in_pos it + (m_available_end (cur_chunk it) - m_next it) < length (in_data it)"
  shows "moves it (m_available_end (cur_chunk it) - m_next it) (next_chunk it)" "data_after it \<noteq> []"
proof -
  let ?e = "m_available_end (cur_chunk it)"
  let ?i = "it\<lparr>m_next := ?e\<rparr>"
  note w = in_ok_facts [OF assms(1)]
  have i: "in_ok ?i" "in_pos ?i = in_pos it + (?e - m_next it)" using in_move_step [OF assms(1), of ?e] w by auto
  have len: "length (in_data it) = length (data_before it) + (?e - m_buffer (cur_chunk it)) + length (data_after it)"
    using w by (simp add: length_chunk_data)
  then show ne: "data_after it \<noteq> []" using assms(2) w by (auto simp: in_pos_def)
  have c: "cur_chunk ?i = cur_chunk it" "data_after ?i = data_after it" by (simp_all add: data_after_def)
  from next_chunk_step [OF i(1)] ne c obtain it' where "next_chunk it = Inr it'" "in_ok it'" "same_input it it'" "in_pos it' = in_pos ?i"
    by (auto simp: next_chunk_next)
  with i(2) show "moves it (?e - m_next it) (next_chunk it)" by (simp add: moves_def)
qed

lemma in_skip_moves: "in_ok it \<Longrightarrow> in_pos it + n \<le> length (in_data it) \<Longrightarrow> moves it n (in_skip n it)"
proof (induction "chunks_left it" arbitrary: it n rule: less_induct)
  case less
  let ?a = "m_available_end (cur_chunk it) - m_next it"
  note w = in_ok_facts [OF less.prems(1)]
  have run: "in_skip n it = (if n \<le> ?a then Inr (it\<lparr>m_next := m_next it + n\<rparr>) else rbind (next_chunk it) (in_skip (n - ?a)))"
    by (simp add: in_skip.simps [of n it] available_step [OF less.prems(1)] Let_def)
  show ?case
  proof (cases "n \<le> ?a")
    case True
    with in_move_step [OF less.prems(1), of "m_next it + n"] w show ?thesis by (auto simp: run moves_def)
  next
    case False
    with next_chunk_moves [OF less.prems(1)] less.prems(2) obtain it' where N: "next_chunk it = Inr it'" "in_ok it'"
      "same_input it it'" "in_pos it' = in_pos it + ?a" by (auto simp: moves_def)
    then have "moves it' (n - ?a) (in_skip (n - ?a) it')"
      using next_chunk_left [OF N(1)] less.hyps [of it' "n - ?a"] less.prems(2) False by (simp add: same_input_def)
    then show ?thesis using moves_trans [of it ?a it' "n - ?a" "in_skip (n - ?a) it'"] N False by (simp add: run moves_def)
  qed
qed

section \<open>Primitive types\<close>

lemma skip_type_moves:
  assumes "in_ok it" "prim_size s" "align_to (in_pos it) (s - 1) + s \<le> length (in_data it)"
  shows "moves it (align_to (in_pos it) (s - 1) + s - in_pos it) (skip_type s it)"
proof -
  from in_alignment_step [OF assms] obtain it1 where A: "in_alignment s it = Inr it1" "in_ok it1" "same_input it it1"
    "in_pos it1 = align_to (in_pos it) (s - 1)" "m_next it1 + s \<le> m_available_end (cur_chunk it1)" by auto
  with in_move_step [OF A(2), of "m_next it1 + s"] align_to_prim(2) [OF assms(2), of "in_pos it"]
  show ?thesis by (auto simp: skip_type_def moves_def intro: same_input_trans)
qed

lemma prim_image_room:
  assumes "prim_size s" "prim_image s b pos bs" "length b = s" "drop pos data = bs @ rest"
  shows "align_to pos (s - 1) + s \<le> length data" "length bs = align_to pos (s - 1) + s - pos"
proof -
  from assms(2) have l: "length bs = align_to pos (s - 1) - pos + s" using assms(3) by (auto simp: prim_image_def)
  with align_to_prim(2) [OF assms(1), of pos] show "length bs = align_to pos (s - 1) + s - pos" by simp
  have "length data - pos = length bs + length rest" using arg_cong [OF assms(4), of length] by simp
  with l align_to_prim(2) [OF assms(1), of pos] assms(1) show "align_to pos (s - 1) + s \<le> length data"
    by (cases "s = 0") (auto simp: prim_size_def)
qed

lemma skip_prim:
  assumes "in_ok it" "prim_size s" "prim_image s b (in_pos it) bs" "length b = s" "drop (in_pos it) (in_data it) = bs @ rest"
  shows "moves it (length bs) (skip_type s it)"
  using skip_type_moves [OF assms(1,2)] prim_image_room [OF assms(2-5)] by simp

section \<open>Arrays\<close>

text \<open>The part of a chunk after an aligned position, up to the end of a full chunk, is a whole number of elements.\<close>

lemma aligned_rest:
  assumes "in_ok it" "prim_size s" "in_pos it mod s = 0" "data_after it \<noteq> []" "in_pos it < length (in_data it)"
  shows "(m_available_end (cur_chunk it) - m_next it) mod s = 0"
proof -
  let ?c = "cur_chunk it"
  note w = in_ok_facts [OF assms(1)]
  have b: "m_buffer ?c mod 8 = 0" using w(1) unfolding chunk_wf_def by presburger
  have d: "length (data_before it) mod 8 = 0" using in_pos_lt [OF assms(1,5)] by simp
  have e: "m_available_end ?c mod 8 = 0"
    using data_after_full [OF assms(1,4)] chunk_end_mod w(1) by (simp add: chunk_full_def)
  have "s dvd 8" using assms(2) by (auto simp: prim_size_def)
  then have dv: "s dvd m_buffer ?c" "s dvd length (data_before it)" "s dvd m_available_end ?c"
    using b d e by (auto simp: mod_eq_0_iff_dvd intro: dvd_trans)
  have "s dvd length (data_before it) + (m_next it - m_buffer ?c)" using assms(3) by (simp add: in_pos_def mod_eq_0_iff_dvd)
  then have "s dvd (m_next it - m_buffer ?c) + m_buffer ?c" using dv by (simp add: dvd_add_right_iff)
  then have "s dvd m_next it" using w by simp
  with dv(3) show ?thesis by (simp add: mod_eq_0_iff_dvd)
qed

lemma skip_type_array_moves:
  "in_ok it \<Longrightarrow> prim_size s \<Longrightarrow> 0 < n \<Longrightarrow> n * s < 2 ^ 32 \<Longrightarrow> align_to (in_pos it) (s - 1) + n * s \<le> length (in_data it) \<Longrightarrow>
   moves it (align_to (in_pos it) (s - 1) + n * s - in_pos it) (skip_type_array n s it)"
proof (induction "chunks_left it" arbitrary: it n rule: less_induct)
  case less
  have s: "1 \<le> s" "8 mod s = 0" using less.prems(2) by (auto simp: prim_size_def)
  let ?p = "align_to (in_pos it) (s - 1)"
  note le = align_to_prim [OF less.prems(2), of "in_pos it"]
  have "s \<le> n * s" using less.prems(3) by (cases n) auto
  then have "?p + s \<le> length (in_data it)" using less.prems(5) by linarith
  with in_alignment_step [OF less.prems(1,2)] obtain it1 where A: "in_alignment s it = Inr it1" "in_ok it1"
    "same_input it it1" "in_pos it1 = ?p" "m_next it1 + s \<le> m_available_end (cur_chunk it1)" by auto
  let ?a = "m_available_end (cur_chunk it1) - m_next it1"
  define k where "k = (if n * s < ?a then n * s else ?a)"
  let ?i = "it1\<lparr>m_next := m_next it1 + k\<rparr>"
  have oct: "unat (of_nat n * of_nat s :: ulong) = n * s"
    using less.prems(4) by (simp add: unat_of_nat flip: of_nat_mult)
  have run: "skip_type_array n s it = (if n - k div s > 0 then rbind (next_chunk ?i) (skip_type_array (n - k div s) s) else Inr ?i)"
    using less.prems(3) A(1) by (simp add: skip_type_array.simps [of n s it] oct available_step [OF A(2)] Let_def k_def)
  have i: "in_ok ?i" "same_input it ?i" "in_pos ?i = ?p + k"
    using in_move_step [OF A(2), of "m_next it1 + k"] A by (auto simp: k_def intro: same_input_trans)
  show ?case
  proof (cases "n * s \<le> ?a")
    case True
    then have "k = n * s" by (simp add: k_def)
    then show ?thesis using run i le s by (simp add: moves_def)
  next
    case False
    then have k: "k = ?a" by (simp add: k_def)
    have more: "in_pos it1 + ?a < length (in_data it1)" using False A less.prems(5) by (simp add: same_input_def)
    from next_chunk_moves [OF A(2) more] obtain it2 where N: "next_chunk it1 = Inr it2" "in_ok it2" "same_input it1 it2"
      "in_pos it2 = ?p + ?a" and ne: "data_after it1 \<noteq> []" using A(4) by (auto simp: moves_def)
    have ps: "?p mod s = 0" using le(1) by simp
    have "in_pos it1 mod s = 0" "in_pos it1 < length (in_data it1)" using ps A(4) more by simp_all
    then have as: "?a mod s = 0" by (intro aligned_rest [OF A(2) less.prems(2) _ ne])
    define j where "j = ?a div s"
    have j: "?a = j * s" using as by (auto simp: j_def)
    have nj: "j < n" using False j s by (metis not_le mult_le_mono1)
    have al: "align_to (in_pos it2) (s - 1) = in_pos it2"
      using N(4) ps as by (intro align_to_prim(4) [OF less.prems(2)]) (metis mod_add_eq add_0 mod_0)
    have nm: "(n - j) * s = n * s - ?a" unfolding j by (simp add: diff_mult_distrib)
    then have small: "(n - j) * s < 2 ^ 32" using less.prems(4) by linarith
    have "chunks_left it2 < chunks_left it" using next_chunk_left [OF N(1)] in_alignment_left [OF A(1)] by simp
    then have "moves it2 (align_to (in_pos it2) (s - 1) + (n - j) * s - in_pos it2) (skip_type_array (n - j) s it2)"
      by (rule less.hyps [OF _ N(2) less.prems(2)])
        (use nj nm small less.prems(5) N(3,4) A(3) False al in \<open>auto simp: same_input_def\<close>)
    then have "moves it2 (n * s - ?a) (skip_type_array (n - j) s it2)" using al nm by simp
    then have "moves it (?p + ?a - in_pos it + (n * s - ?a)) (skip_type_array (n - j) s it2)"
      by (intro moves_trans [of it _ it2]) (use N A le in \<open>auto simp: moves_def intro: same_input_trans\<close>)
    then show ?thesis using run N(1) k nj le False by (simp add: next_chunk_next j_def)
  qed
qed

section \<open>Strings\<close>

lemma word_room: "word_image 4 order pos (v :: ulong) b \<Longrightarrow> drop pos data = (b @ s) @ rest \<Longrightarrow> pos + length b + length s \<le> length data"
proof -
  assume a: "word_image 4 order pos v b" "drop pos data = (b @ s) @ rest"
  have "b \<noteq> []" using a(1) by (auto simp: prim_image_def dest: arg_cong [of _ _ length])
  with arg_cong [OF a(2), of length] show ?thesis by (cases "pos \<le> length data") auto
qed

lemma skip_string_moves:
  assumes "in_ok it" "string_ok s" "string_image (wire_order it) (in_pos it) s bs" "drop (in_pos it) (in_data it) = bs @ rest"
  shows "moves it (length bs) (skip_string it)"
proof -
  let ?n = "word_of_nat (length s) + 1 :: ulong"
  from assms(3) obtain b where b: "bs = b @ s @ [0]" "word_image 4 (wire_order it) (in_pos it) ?n b" by (auto simp: string_image_def)
  have n: "unat ?n = length s + 1" using assms(2) unat_len(2) by (simp add: string_ok_def)
  have "moves it (length b + (length s + 1)) (skip_string it)"
    unfolding skip_string_def
  proof (rule reads_moves [OF ulong.rd_step [OF assms(1) _ _ b(2)]])
    fix it' assume "in_ok it'" "same_input it it'" "in_pos it' = in_pos it + length b"
    then show "moves it' (length s + 1) (case (?n, it') of (len, it) \<Rightarrow> in_skip (unat len) it)"
      using in_skip_moves [of it' "length s + 1"] word_room [OF b(2), of "in_data it" "s @ [0]" rest] b assms(4) n
      by (simp add: same_input_def)
  qed (use assms b in auto)
  then show ?thesis using b by simp
qed

section \<open>Arrays of primitive values\<close>

text \<open>The octets of consecutive values of one size: padding before the first one only.\<close>

lemma prim_seq_length:
  assumes "prim_size s"
  shows "seq_image (\<lambda>order pos v. prim_image s (f order v) pos) order pos vs bs \<Longrightarrow> (\<And>v. length (f order v) = s) \<Longrightarrow> vs \<noteq> [] \<Longrightarrow>
    length bs = align_to pos (s - 1) + length vs * s - pos"
proof (induction vs arbitrary: pos bs)
  case (Cons v vs)
  note le = align_to_prim [OF assms, of pos]
  from Cons.prems obtain b cs where b: "bs = b @ cs" "prim_image s (f order v) pos b"
    "seq_image (\<lambda>order pos v. prim_image s (f order v) pos) order (pos + length b) vs cs" by auto
  have lb: "pos + length b = align_to pos (s - 1) + s" using b(2) Cons.prems(2) le(2) by (auto simp: prim_image_def)
  have "align_to (align_to pos (s - 1) + s) (s - 1) = align_to pos (s - 1) + s" using le(1) align_to_prim(4) [OF assms] by simp
  then show ?case using Cons.IH [OF b(3) Cons.prems(2)] b lb le by (cases "vs = []") auto
qed simp

lemma skip_prim_array:
  assumes "in_ok it" "prim_size s" "seq_image (\<lambda>order pos v. prim_image s (f order v) pos) order (in_pos it) vs bs"
    and "\<And>v. length (f order v) = s" "length vs * s < 2 ^ 32" "drop (in_pos it) (in_data it) = bs @ rest"
  shows "moves it (length bs) (skip_type_array (length vs) s it)"
proof (cases "vs = []")
  case True
  with assms show ?thesis by (simp add: moves_def skip_type_array.simps)
next
  case False
  have s: "1 \<le> s" using assms(2) by (auto simp: prim_size_def)
  note le = align_to_prim [OF assms(2), of "in_pos it"] and l = prim_seq_length [OF assms(2,3,4) False]
  have "0 < length vs * s" using False s by simp
  moreover have "length (in_data it) - in_pos it = length bs + length rest" using arg_cong [OF assms(6), of length] by simp
  ultimately have "align_to (in_pos it) (s - 1) + length vs * s \<le> length (in_data it)" using l le by linarith
  from skip_type_array_moves [OF assms(1,2) _ assms(5) this] False l show ?thesis by simp
qed

lemma skip_wstring_moves:
  assumes "in_ok it" "wstring_ok s" "wstring_image VERSION_1_2 (wire_order it) (in_pos it) s bs" "drop (in_pos it) (in_data it) = bs @ rest"
  shows "moves it (length bs) (skip_wstring it)"
proof -
  let ?n = "wstring_len VERSION_1_2 (length s)"
  from assms(3) obtain b cs where b: "bs = b @ cs" "word_image 4 (wire_order it) (in_pos it) ?n b"
    "seq_image (\<lambda>order pos w. word_image 2 order pos (ucast w :: ushort)) (wire_order it) (in_pos it + length b) (s @ [0]) cs"
    by (auto simp: wstring_image_def)
  have p4: "prim_size 4" "prim_size 2" by (simp_all add: prim_size_def)
  have "in_pos it + length b = align_to (in_pos it) 3 + 4" using b(2) align_to_prim(2) [OF p4(1), of "in_pos it"] by (auto simp: prim_image_def)
  then have "(in_pos it + length b) mod 2 = 0" using align_to_prim(1) [OF p4(1), of "in_pos it"] by simp presburger
  then have cs: "length cs = 2 * (length s + 1)"
    using prim_seq_length [OF p4(2) b(3)] align_to_prim(4) [OF p4(2), of "in_pos it + length b"] by simp
  have small: "(length s + 1) * 2 < 2 ^ 32" using assms(2) by (simp only: wstring_ok_def)
  have "unat (word_of_nat ((length s + 1) * 2) :: ulong) = (length s + 1) * 2"
    using small by (simp only: unat_of_nat) simp
  then have n: "unat ?n = 2 * (length s + 1)" by (simp only: wstring_len_def refl if_True mult.commute)
  have "moves it (length b + length cs) (skip_wstring it)"
    unfolding skip_wstring_def
  proof (rule reads_moves [OF ulong.rd_step [OF assms(1) _ _ b(2)]])
    fix it' assume "in_ok it'" "same_input it it'" "in_pos it' = in_pos it + length b"
    then show "moves it' (length cs) (case (?n, it') of (len, it) \<Rightarrow> in_skip (unat len) it)"
      using in_skip_moves [of it' "length cs"] word_room [OF b(2), of "in_data it" cs rest] b assms(4) n cs
      by (simp add: same_input_def)
  qed (use assms b in auto)
  then show ?thesis using b by simp
qed

end
