(* ===== verification/Type_Value.thy ===== *)
theory Type_Value
  imports Type_Compare Cdr_Skip
begin

text \<open>
  The operations of type codes on marshalled values (\<^verbatim>\<open>skip_value\<close>, \<^verbatim>\<open>remarshal_value\<close> and \<^verbatim>\<open>values_equal\<close> of
  \<^verbatim>\<open>core/typecode/*.C\<close>): moving an input stream over a value, copying it to an output stream, comparing it with another
  one. The kinds whose values are read by other components (Any, TypeCode, object references, values, abstract
  interfaces), the comparison of long doubles, which is that of the platform, and of fixed numbers are parameters.
\<close>

section \<open>Operations\<close>

record others =
  skip_other :: "type_code \<Rightarrow> iter \<Rightarrow> (bool \<times> iter) res"
  remarshal_other :: "malloc \<Rightarrow> type_code \<Rightarrow> iter \<Rightarrow> iter \<Rightarrow> (iter \<times> iter) res"
  equal_other :: "type_code \<Rightarrow> iter \<Rightarrow> iter \<Rightarrow> (bool \<times> iter \<times> iter) res"

text \<open>The operation of the streams for a basic kind.\<close>

fun simple_kind :: "TCKind \<Rightarrow> cdr_kind option" where
  "simple_kind tk_short = Some KShort"
| "simple_kind tk_long = Some KLong"
| "simple_kind tk_longlong = Some KLongLong"
| "simple_kind tk_ushort = Some KUShort"
| "simple_kind tk_ulong = Some KULong"
| "simple_kind tk_ulonglong = Some KULongLong"
| "simple_kind tk_float = Some KFloat"
| "simple_kind tk_double = Some KDouble"
| "simple_kind tk_boolean = Some KBoolean"
| "simple_kind tk_char = Some KChar"
| "simple_kind tk_wchar = Some KWChar"
| "simple_kind tk_octet = Some KOctet"
| "simple_kind _ = None"

fun kind_size :: "cdr_kind \<Rightarrow> nat" where
  "kind_size KOctet = OCTET_SIZE"
| "kind_size KBoolean = OCTET_SIZE"
| "kind_size KChar = OCTET_SIZE"
| "kind_size KWChar = WCHAR_SIZE"
| "kind_size KShort = SHORT_SIZE"
| "kind_size KUShort = SHORT_SIZE"
| "kind_size KLong = LONG_SIZE"
| "kind_size KULong = ULONG_SIZE"
| "kind_size KFloat = LONG_SIZE"
| "kind_size KLongLong = LONGLONG_SIZE"
| "kind_size KULongLong = LONGLONG_SIZE"
| "kind_size KDouble = LONGLONG_SIZE"
| "kind_size _ = 0"

definition skipped :: "iter res \<Rightarrow> (bool \<times> iter) res" where
  "skipped r = rbind r (\<lambda>it. Inr (True, it))"

definition skip_simple :: "others \<Rightarrow> TCKind \<Rightarrow> iter \<Rightarrow> (bool \<times> iter) res" where
  "skip_simple oth k it = (case simple_kind k of
     Some c \<Rightarrow> skipped (skip_type (kind_size c) it)
   | None \<Rightarrow>
       if k = tk_longdouble then skipped (skip_type LONG_DOUBLE_SIZE it)
       else if k = tk_any \<or> k = tk_TypeCode then skip_other oth (TypeCodeImpl k) it
       else if k = tk_Principal then skipped (skip_string it)
       else if k = tk_null \<or> k = tk_void then Inr (True, it)
       else Inl INTERNAL)"

fun skip_loop :: "nat \<Rightarrow> (iter \<Rightarrow> (bool \<times> iter) res) \<Rightarrow> iter \<Rightarrow> (bool \<times> iter) res" where
  "skip_loop 0 f it = Inr (True, it)"
| "skip_loop (Suc n) f it = rbind (f it) (\<lambda>(b, it). if \<not> b then Inr (False, it) else skip_loop n f it)"

text \<open>\<^verbatim>\<open>TypeCodeMarshaler::skip_value_array\<close>; \<open>f\<close> is \<^verbatim>\<open>skip_value\<close> of the element type.\<close>

definition skip_value_array :: "TCKind \<Rightarrow> nat \<Rightarrow> (iter \<Rightarrow> (bool \<times> iter) res) \<Rightarrow> iter \<Rightarrow> (bool \<times> iter) res" where
  "skip_value_array k n f it = (case simple_kind k of
     Some c \<Rightarrow> if k = tk_octet \<or> k = tk_boolean \<or> k = tk_char then skipped (in_skip n it)
       else skipped (skip_type_array n (kind_size c) it)
   | None \<Rightarrow> skip_loop n f it)"

definition value_length :: "ushort \<Rightarrow> nat" where
  "value_length digits = (unat digits + unat digits mod 2) div 2"

text \<open>The discriminator of a union is read into an Any, which keeps the value of a basic type and the position in the
  stream of an enumeration; \<open>search_member_index\<close> compares it with the labels.\<close>

definition read_discriminator :: "type_code \<Rightarrow> iter \<Rightarrow> (cdr_value \<times> iter) res" where
  "read_discriminator d it = (case unalias d of
     TypeCodeImpl k \<Rightarrow> (case simple_kind k of Some c \<Rightarrow> read_value c it | None \<Rightarrow> Inl BAD_TYPECODE)
   | EnumTypeCode ex i n ms \<Rightarrow> read_value KULong it
   | _ \<Rightarrow> Inl BAD_TYPECODE)"

definition write_discriminator :: "malloc \<Rightarrow> type_code \<Rightarrow> cdr_value \<Rightarrow> iter \<Rightarrow> iter res" where
  "write_discriminator m d v out = (case (unalias d, v) of
     (EnumTypeCode ex i n ms, VULong w) \<Rightarrow> if unat w \<ge> length ms then Inl MARSHAL else write_ulong m w out
   | (_, v) \<Rightarrow> write_value m v out)"

fun search_member_index :: "union_member list \<Rightarrow> int \<Rightarrow> nat \<Rightarrow> type_code \<times> cdr_value \<Rightarrow> int" where
  "search_member_index [] x i v = x"
| "search_member_index (m # ms) x i v = (if any_eq v (um_label_type m, um_label m) then int i else search_member_index ms x (Suc i) v)"

definition case_of :: "union_member list \<Rightarrow> int \<Rightarrow> type_code \<times> cdr_value \<Rightarrow> nat option res" where
  "case_of ms x v = (let index = search_member_index ms x 0 v in
     if index = -1 then Inr None else if index < 0 \<or> index \<ge> int (length ms) then Inl MARSHAL else Inr (Some (nat index)))"

text \<open>What the classes do with the operations of their parts: \<open>elem\<close>, \<open>members\<close> and \<open>branch\<close> are \<^verbatim>\<open>skip_value\<close> of the
  element type, of the members in turn and of the selected member of a union.\<close>

definition sequence_skip :: "ulong \<Rightarrow> TCKind \<Rightarrow> (iter \<Rightarrow> (bool \<times> iter) res) \<Rightarrow> iter \<Rightarrow> (bool \<times> iter) res" where
  [simp]: "sequence_skip l k elem it = rbind (read_ulong it) (\<lambda>(len, it).
     if l > 0 \<and> len > l then Inl MARSHAL else skip_value_array k (unat len) elem it)"

definition exception_skip :: "(iter \<Rightarrow> (bool \<times> iter) res) \<Rightarrow> iter \<Rightarrow> (bool \<times> iter) res" where
  [simp]: "exception_skip members it = rbind (skip_string it) members"

definition union_skip :: "type_code \<Rightarrow> int \<Rightarrow> union_member list \<Rightarrow> (nat \<Rightarrow> iter \<Rightarrow> (bool \<times> iter) res) \<Rightarrow> iter \<Rightarrow> (bool \<times> iter) res" where
  [simp]: "union_skip d x ms branch it =
     rbind (read_discriminator d it) (\<lambda>(v, it).
     rbind (case_of ms x (d, v)) (\<lambda>c. case c of None \<Rightarrow> Inr (True, it)
       | Some j \<Rightarrow> rbind (branch j it) (\<lambda>(b, it). Inr (True, it))))"

fun skip_value :: "others \<Rightarrow> type_code \<Rightarrow> iter \<Rightarrow> (bool \<times> iter) res"
  and skip_members :: "others \<Rightarrow> struct_member list \<Rightarrow> iter \<Rightarrow> (bool \<times> iter) res"
  and skip_case :: "others \<Rightarrow> union_member list \<Rightarrow> nat \<Rightarrow> iter \<Rightarrow> (bool \<times> iter) res" where
  "skip_value oth (TypeCodeImpl k) it = skip_simple oth k it"
| "skip_value oth (StringTypeCode l) it = skipped (skip_string it)"
| "skip_value oth (WStringTypeCode l) it = skipped (skip_wstring it)"
| "skip_value oth (FixedTypeCode d s) it = skipped (in_skip (value_length d) it)"
| "skip_value oth (ArrayTypeCode ex t l) it = skip_value_array (tc_kind t) (unat l) (\<lambda>it. skip_value oth t it) it"
| "skip_value oth (SequenceTypeCode ex t l) it = sequence_skip l (tc_kind t) (\<lambda>it. skip_value oth t it) it"
| "skip_value oth (StructTypeCode ex i n ms) it = skip_members oth ms it"
| "skip_value oth (ExceptionTypeCode ex i n ms) it = exception_skip (\<lambda>it. skip_members oth ms it) it"
| "skip_value oth (EnumTypeCode ex i n ms) it = skipped (skip_type ULONG_SIZE it)"
| "skip_value oth (AliasTypeCode i n t) it = skip_value oth t it"
| "skip_value oth (UnionTypeCode ex i n d x ms) it = union_skip d x ms (\<lambda>j it. skip_case oth ms j it) it"
| "skip_value oth (ValueBoxTypeCode ex i n t) it = skip_value oth t it"
| "skip_value oth (NativeTypeCode i n) it = Inl INTERNAL"
| "skip_value oth (LocalInterfaceTypeCode i n) it = Inl NO_IMPLEMENT"
| "skip_value oth (RecursiveTypeCode i) it = skip_simple oth tk_null it"
| "skip_value oth t it = skip_other oth t it"
| "skip_members oth [] it = Inr (True, it)"
| "skip_members oth (StructMember n t # ms) it =
     rbind (skip_value oth t it) (\<lambda>(b, it). if \<not> b then Inr (False, it) else skip_members oth ms it)"
| "skip_case oth (UnionMember lt l n t # ms) j it = (if j = 0 then skip_value oth t it else skip_case oth ms (j - 1) it)"
| "skip_case oth [] j it = Inl MARSHAL"

text \<open>Copying. \<^verbatim>\<open>TypeCodeImpl::remarshal_value\<close> has no \<^verbatim>\<open>break\<close> after the case of a TypeCode, so that it goes on to copy a
  Principal, a string.\<close>

definition copy_value :: "malloc \<Rightarrow> cdr_kind \<Rightarrow> iter \<Rightarrow> iter \<Rightarrow> (iter \<times> iter) res" where
  "copy_value m k inp out = rbind (read_value k inp) (\<lambda>(v, inp). rbind (write_value m v out) (\<lambda>out. Inr (inp, out)))"

fun copy_loop :: "nat \<Rightarrow> (iter \<Rightarrow> iter \<Rightarrow> (iter \<times> iter) res) \<Rightarrow> iter \<Rightarrow> iter \<Rightarrow> (iter \<times> iter) res" where
  "copy_loop 0 f inp out = Inr (inp, out)"
| "copy_loop (Suc n) f inp out = rbind (f inp out) (\<lambda>(inp, out). copy_loop n f inp out)"

definition remarshal_simple :: "others \<Rightarrow> malloc \<Rightarrow> TCKind \<Rightarrow> iter \<Rightarrow> iter \<Rightarrow> (iter \<times> iter) res" where
  "remarshal_simple oth m k inp out = (case simple_kind k of
     Some c \<Rightarrow> copy_value m c inp out
   | None \<Rightarrow>
       if k = tk_longdouble then rbind (read_longdouble inp) (\<lambda>(v, inp). rbind (write_longdouble m v out) (\<lambda>out. Inr (inp, out)))
       else if k = tk_any then remarshal_other oth m (TypeCodeImpl k) inp out
       else if k = tk_TypeCode then
         rbind (remarshal_other oth m (TypeCodeImpl k) inp out) (\<lambda>(inp, out). copy_value m KString inp out)
       else if k = tk_Principal then copy_value m KString inp out
       else if k = tk_null \<or> k = tk_void then Inr (inp, out)
       else Inl MARSHAL)"

definition sequence_remarshal :: "malloc \<Rightarrow> ulong \<Rightarrow> (iter \<Rightarrow> iter \<Rightarrow> (iter \<times> iter) res) \<Rightarrow> iter \<Rightarrow> iter \<Rightarrow> (iter \<times> iter) res" where
  [simp]: "sequence_remarshal m l elem inp out = rbind (read_ulong inp) (\<lambda>(len, inp).
     if l > 0 \<and> len > l then Inl MARSHAL
     else rbind (write_long m len out) (\<lambda>out. copy_loop (unat len) elem inp out))"

definition exception_remarshal :: "malloc \<Rightarrow> (iter \<Rightarrow> iter \<Rightarrow> (iter \<times> iter) res) \<Rightarrow> iter \<Rightarrow> iter \<Rightarrow> (iter \<times> iter) res" where
  [simp]: "exception_remarshal m members inp out = rbind (copy_value m KString inp out) (\<lambda>(inp, out). members inp out)"

definition enum_remarshal :: "malloc \<Rightarrow> nat \<Rightarrow> iter \<Rightarrow> iter \<Rightarrow> (iter \<times> iter) res" where
  [simp]: "enum_remarshal m c inp out = rbind (read_ulong inp) (\<lambda>(v, inp).
     if unat v \<ge> c then Inl MARSHAL else rbind (write_ulong m v out) (\<lambda>out. Inr (inp, out)))"

definition union_remarshal ::
  "malloc \<Rightarrow> type_code \<Rightarrow> int \<Rightarrow> union_member list \<Rightarrow> (nat \<Rightarrow> iter \<Rightarrow> iter \<Rightarrow> (iter \<times> iter) res) \<Rightarrow> iter \<Rightarrow> iter \<Rightarrow> (iter \<times> iter) res" where
  [simp]: "union_remarshal m d x ms branch inp out =
     rbind (read_discriminator d inp) (\<lambda>(v, inp).
     rbind (write_discriminator m d v out) (\<lambda>out.
     rbind (case_of ms x (d, v)) (\<lambda>c. case c of None \<Rightarrow> Inr (inp, out) | Some j \<Rightarrow> branch j inp out)))"

fun remarshal_value :: "others \<Rightarrow> malloc \<Rightarrow> type_code \<Rightarrow> iter \<Rightarrow> iter \<Rightarrow> (iter \<times> iter) res"
  and remarshal_members :: "others \<Rightarrow> malloc \<Rightarrow> struct_member list \<Rightarrow> iter \<Rightarrow> iter \<Rightarrow> (iter \<times> iter) res"
  and remarshal_case :: "others \<Rightarrow> malloc \<Rightarrow> union_member list \<Rightarrow> nat \<Rightarrow> iter \<Rightarrow> iter \<Rightarrow> (iter \<times> iter) res" where
  "remarshal_value oth m (TypeCodeImpl k) inp out = remarshal_simple oth m k inp out"
| "remarshal_value oth m (StringTypeCode l) inp out = copy_value m KString inp out"
| "remarshal_value oth m (WStringTypeCode l) inp out = copy_value m KWString inp out"
| "remarshal_value oth m (FixedTypeCode d s) inp out = copy_loop (value_length d) (copy_value m KOctet) inp out"
| "remarshal_value oth m (ArrayTypeCode ex t l) inp out = copy_loop (unat l) (\<lambda>inp out. remarshal_value oth m t inp out) inp out"
| "remarshal_value oth m (SequenceTypeCode ex t l) inp out = sequence_remarshal m l (\<lambda>inp out. remarshal_value oth m t inp out) inp out"
| "remarshal_value oth m (StructTypeCode ex i n ms) inp out = remarshal_members oth m ms inp out"
| "remarshal_value oth m (ExceptionTypeCode ex i n ms) inp out = exception_remarshal m (\<lambda>inp out. remarshal_members oth m ms inp out) inp out"
| "remarshal_value oth m (EnumTypeCode ex i n ms) inp out = enum_remarshal m (length ms) inp out"
| "remarshal_value oth m (AliasTypeCode i n t) inp out = remarshal_value oth m t inp out"
| "remarshal_value oth m (UnionTypeCode ex i n d x ms) inp out = union_remarshal m d x ms (\<lambda>j inp out. remarshal_case oth m ms j inp out) inp out"
| "remarshal_value oth m (ValueBoxTypeCode ex i n t) inp out = remarshal_value oth m t inp out"
| "remarshal_value oth m (NativeTypeCode i n) inp out = Inl MARSHAL"
| "remarshal_value oth m (LocalInterfaceTypeCode i n) inp out = Inl NO_IMPLEMENT"
| "remarshal_value oth m (RecursiveTypeCode i) inp out = remarshal_simple oth m tk_null inp out"
| "remarshal_value oth m t inp out = remarshal_other oth m t inp out"
| "remarshal_members oth m [] inp out = Inr (inp, out)"
| "remarshal_members oth m (StructMember n t # ms) inp out =
     rbind (remarshal_value oth m t inp out) (\<lambda>(inp, out). remarshal_members oth m ms inp out)"
| "remarshal_case oth m (UnionMember lt l n t # ms) j inp out =
     (if j = 0 then remarshal_value oth m t inp out else remarshal_case oth m ms (j - 1) inp out)"
| "remarshal_case oth m [] j inp out = Inl MARSHAL"

text \<open>Comparing. Numbers in floating point are compared as IEEE 754 has it: a NaN differs from all, the two zeros are equal.\<close>

definition float_eq :: "ulong \<Rightarrow> ulong \<Rightarrow> bool" where
  "float_eq a b = (let nan = (\<lambda>w. w AND 0x7fffffff > (0x7f800000 :: ulong)); zero = (\<lambda>w. w AND 0x7fffffff = (0 :: ulong)) in
     \<not> nan a \<and> \<not> nan b \<and> (a = b \<or> zero a \<and> zero b))"

definition double_eq :: "ulonglong \<Rightarrow> ulonglong \<Rightarrow> bool" where
  "double_eq a b = (let nan = (\<lambda>w. w AND 0x7fffffffffffffff > (0x7ff0000000000000 :: ulonglong));
       zero = (\<lambda>w. w AND 0x7fffffffffffffff = (0 :: ulonglong)) in
     \<not> nan a \<and> \<not> nan b \<and> (a = b \<or> zero a \<and> zero b))"

fun same_value :: "cdr_value \<Rightarrow> cdr_value \<Rightarrow> bool" where
  "same_value (VFloat a) (VFloat b) = float_eq a b"
| "same_value (VDouble a) (VDouble b) = double_eq a b"
| "same_value v w = (v = w)"

definition compare_value :: "cdr_kind \<Rightarrow> iter \<Rightarrow> iter \<Rightarrow> (bool \<times> iter \<times> iter) res" where
  "compare_value k a b = rbind (read_value k a) (\<lambda>(v, a). rbind (read_value k b) (\<lambda>(w, b). Inr (same_value v w, a, b)))"

fun equal_each :: "nat \<Rightarrow> (iter \<Rightarrow> iter \<Rightarrow> (bool \<times> iter \<times> iter) res) \<Rightarrow> iter \<Rightarrow> iter \<Rightarrow> (bool \<times> iter \<times> iter) res" where
  "equal_each 0 f a b = Inr (True, a, b)"
| "equal_each (Suc n) f a b = rbind (f a b) (\<lambda>(e, a, b). if \<not> e then Inr (False, a, b) else equal_each n f a b)"

definition equal_simple :: "others \<Rightarrow> TCKind \<Rightarrow> iter \<Rightarrow> iter \<Rightarrow> (bool \<times> iter \<times> iter) res" where
  "equal_simple oth k a b = (case simple_kind k of
     Some c \<Rightarrow> compare_value c a b
   | None \<Rightarrow>
       if k = tk_longdouble \<or> k = tk_any \<or> k = tk_TypeCode then equal_other oth (TypeCodeImpl k) a b
       else if k = tk_Principal then compare_value KString a b
       else if k = tk_null \<or> k = tk_void then Inr (True, a, b)
       else Inl MARSHAL)"

text \<open>\<^verbatim>\<open>CORBA::Any::operator!=\<close>, which returns what \<^verbatim>\<open>operator==\<close> returns.\<close>

definition any_neq :: "type_code \<times> cdr_value \<Rightarrow> type_code \<times> cdr_value \<Rightarrow> bool" where
  "any_neq a b = any_eq a b"

definition sequence_equal :: "ulong \<Rightarrow> (iter \<Rightarrow> iter \<Rightarrow> (bool \<times> iter \<times> iter) res) \<Rightarrow> iter \<Rightarrow> iter \<Rightarrow> (bool \<times> iter \<times> iter) res" where
  [simp]: "sequence_equal l elem a b =
     rbind (read_ulong a) (\<lambda>(length_a, a). rbind (read_ulong b) (\<lambda>(length_b, b).
     if length_a \<noteq> length_b then Inr (False, a, b) else if length_a > l then Inl MARSHAL
     else equal_each (unat length_a) elem a b))"

definition exception_equal :: "(iter \<Rightarrow> iter \<Rightarrow> (bool \<times> iter \<times> iter) res) \<Rightarrow> iter \<Rightarrow> iter \<Rightarrow> (bool \<times> iter \<times> iter) res" where
  [simp]: "exception_equal members a b =
     rbind (compare_value KString a b) (\<lambda>(e, a, b). if \<not> e then Inr (False, a, b) else members a b)"

definition union_equal ::
  "type_code \<Rightarrow> int \<Rightarrow> union_member list \<Rightarrow> (nat \<Rightarrow> iter \<Rightarrow> iter \<Rightarrow> (bool \<times> iter \<times> iter) res) \<Rightarrow> iter \<Rightarrow> iter \<Rightarrow> (bool \<times> iter \<times> iter) res" where
  [simp]: "union_equal d x ms branch a b =
     rbind (read_discriminator d a) (\<lambda>(v, a). rbind (read_discriminator d b) (\<lambda>(w, b).
     if any_neq (d, v) (d, w) then Inr (False, a, b)
     else rbind (case_of ms x (d, v)) (\<lambda>c. case c of None \<Rightarrow> Inr (True, a, b) | Some j \<Rightarrow> branch j a b)))"

fun values_equal :: "others \<Rightarrow> type_code \<Rightarrow> iter \<Rightarrow> iter \<Rightarrow> (bool \<times> iter \<times> iter) res"
  and members_equal :: "others \<Rightarrow> struct_member list \<Rightarrow> iter \<Rightarrow> iter \<Rightarrow> (bool \<times> iter \<times> iter) res"
  and case_equal :: "others \<Rightarrow> union_member list \<Rightarrow> nat \<Rightarrow> iter \<Rightarrow> iter \<Rightarrow> (bool \<times> iter \<times> iter) res"
  and fields_equal :: "others \<Rightarrow> value_member list \<Rightarrow> iter \<Rightarrow> iter \<Rightarrow> (bool \<times> iter \<times> iter) res" where
  "values_equal oth (TypeCodeImpl k) a b = equal_simple oth k a b"
| "values_equal oth (StringTypeCode l) a b = compare_value KString a b"
| "values_equal oth (WStringTypeCode l) a b = compare_value KWString a b"
| "values_equal oth (ArrayTypeCode ex t l) a b = equal_each (unat l) (\<lambda>a b. values_equal oth t a b) a b"
| "values_equal oth (SequenceTypeCode ex t l) a b = sequence_equal l (\<lambda>a b. values_equal oth t a b) a b"
| "values_equal oth (StructTypeCode ex i n ms) a b = members_equal oth ms a b"
| "values_equal oth (ExceptionTypeCode ex i n ms) a b = exception_equal (\<lambda>a b. members_equal oth ms a b) a b"
| "values_equal oth (EnumTypeCode ex i n ms) a b = compare_value KULong a b"
| "values_equal oth (AliasTypeCode i n t) a b = values_equal oth t a b"
| "values_equal oth (UnionTypeCode ex i n d x ms) a b = union_equal d x ms (\<lambda>j a b. case_equal oth ms j a b) a b"
| "values_equal oth (ValueTypeCode ex i n v base ms) a b = fields_equal oth ms a b"
| "values_equal oth (ValueBoxTypeCode ex i n t) a b = values_equal oth t a b"
| "values_equal oth (NativeTypeCode i n) a b = Inl MARSHAL"
| "values_equal oth (AbstractInterfaceTypeCode i n) a b = Inl NO_IMPLEMENT"
| "values_equal oth (LocalInterfaceTypeCode i n) a b = Inl NO_IMPLEMENT"
| "values_equal oth (RecursiveTypeCode i) a b = equal_simple oth tk_null a b"
| "values_equal oth t a b = equal_other oth t a b"
| "members_equal oth [] a b = Inr (True, a, b)"
| "members_equal oth (StructMember n t # ms) a b =
     rbind (values_equal oth t a b) (\<lambda>(e, a, b). if \<not> e then Inr (False, a, b) else members_equal oth ms a b)"
| "case_equal oth (UnionMember lt l n t # ms) j a b = (if j = 0 then values_equal oth t a b else case_equal oth ms (j - 1) a b)"
| "case_equal oth [] j a b = Inl MARSHAL"
| "fields_equal oth [] a b = Inr (True, a, b)"
| "fields_equal oth (ValueMember n t v # ms) a b =
     rbind (values_equal oth t a b) (\<lambda>(e, a, b). if \<not> e then Inr (False, a, b) else fields_equal oth ms a b)"

section \<open>Values of a type\<close>

text \<open>A marshalled value is a sequence of values of basic types, strings and lengths, that is written in this order.\<close>

definition disc_value :: "type_code \<Rightarrow> cdr_value \<Rightarrow> bool" where
  "disc_value d v = (case unalias d of
     TypeCodeImpl k \<Rightarrow> simple_kind k = Some (kind_of v) \<and> k \<noteq> tk_float \<and> k \<noteq> tk_double
   | EnumTypeCode ex i n ms \<Rightarrow> (case v of VULong w \<Rightarrow> unat w < length ms | _ \<Rightarrow> False)
   | _ \<Rightarrow> False)"

inductive typed :: "type_code \<Rightarrow> cdr_value list \<Rightarrow> bool"
  and typed_n :: "type_code \<Rightarrow> nat \<Rightarrow> cdr_value list \<Rightarrow> bool"
  and typed_members :: "struct_member list \<Rightarrow> cdr_value list \<Rightarrow> bool" where
  t_simple: "simple_kind k = Some (kind_of v) \<Longrightarrow> typed (TypeCodeImpl k) [v]"
| t_principal: "typed (TypeCodeImpl tk_Principal) [VString s]"
| t_none: "k = tk_null \<or> k = tk_void \<Longrightarrow> typed (TypeCodeImpl k) []"
| t_string: "typed (StringTypeCode l) [VString s]"
| t_wstring: "typed (WStringTypeCode l) [VWString w]"
| t_fixed: "length os = value_length d \<Longrightarrow> typed (FixedTypeCode d s) (map VOctet os)"
| t_array: "typed_n t (unat l) vs \<Longrightarrow> typed (ArrayTypeCode ex t l) vs"
| t_sequence: "l = 0 \<or> n \<le> l \<Longrightarrow> typed_n t (unat n) vs \<Longrightarrow> typed (SequenceTypeCode ex t l) (VULong n # vs)"
| t_struct: "typed_members ms vs \<Longrightarrow> typed (StructTypeCode ex i n ms) vs"
| t_exception: "typed_members ms vs \<Longrightarrow> typed (ExceptionTypeCode ex i n ms) (VString s # vs)"
| t_enum: "unat v < length ms \<Longrightarrow> typed (EnumTypeCode ex i n ms) [VULong v]"
| t_alias: "typed t vs \<Longrightarrow> typed (AliasTypeCode i n t) vs"
| t_box: "typed t vs \<Longrightarrow> typed (ValueBoxTypeCode ex i n t) vs"
| t_union_none: "disc_value d v \<Longrightarrow> case_of ms x (d, v) = Inr None \<Longrightarrow> typed (UnionTypeCode ex i n d x ms) [v]"
| t_union: "disc_value d v \<Longrightarrow> case_of ms x (d, v) = Inr (Some j) \<Longrightarrow> typed (um_type (ms ! j)) vs \<Longrightarrow>
    typed (UnionTypeCode ex i n d x ms) (v # vs)"
| t_zero: "typed_n t 0 []"
| t_more: "typed t vs \<Longrightarrow> typed_n t n ws \<Longrightarrow> typed_n t (Suc n) (vs @ ws)"
| t_no_member: "typed_members [] []"
| t_member: "typed t vs \<Longrightarrow> typed_members ms ws \<Longrightarrow> typed_members (StructMember n t # ms) (vs @ ws)"

end
