(* ===== verification/Type_Skip.thy ===== *)
theory Type_Skip
  imports Type_Value
begin

text \<open>
  \<^verbatim>\<open>skip_value\<close> moves an input stream over exactly the octets of a value of the type, for every byte order and every
  cutting into chunks.
\<close>

section \<open>A value in a stream\<close>

definition holds :: "iter \<Rightarrow> cdr_value list \<Rightarrow> octet list \<Rightarrow> bool" where
  "holds it vs bs \<longleftrightarrow> in_ok it \<and> m_version it = VERSION_1_2 \<and> list_all value_ok vs \<and>
     seq_image (value_image VERSION_1_2) (wire_order it) (in_pos it) vs bs \<and> (\<exists>rest. drop (in_pos it) (in_data it) = bs @ rest)"

lemma seq_image_append:
  "seq_image img order pos (vs @ ws) bs \<longleftrightarrow>
     (\<exists>b cs. bs = b @ cs \<and> seq_image img order pos vs b \<and> seq_image img order (pos + length b) ws cs)"
proof (induction vs arbitrary: pos bs)
  case (Cons v vs)
  have "(\<exists>b cs b' cs'. bs = b @ cs \<and> img order pos v b \<and> cs = b' @ cs' \<and> seq_image img order (pos + length b) vs b' \<and>
      seq_image img order (pos + length b + length b') ws cs') \<longleftrightarrow>
    (\<exists>b cs. bs = b @ cs \<and> (\<exists>b1 b2. b = b1 @ b2 \<and> img order pos v b1 \<and> seq_image img order (pos + length b1) vs b2) \<and>
      seq_image img order (pos + length b) ws cs)" (is "?l \<longleftrightarrow> ?r")
  proof
    assume ?l
    then obtain b b' cs' where "bs = (b @ b') @ cs'" "img order pos v b" "seq_image img order (pos + length b) vs b'"
      "seq_image img order (pos + length (b @ b')) ws cs'" by (auto simp: add.assoc)
    then show ?r by blast
  next
    assume ?r
    then obtain b1 b2 cs where "bs = b1 @ (b2 @ cs)" "img order pos v b1" "seq_image img order (pos + length b1) vs b2"
      "seq_image img order (pos + length b1 + length b2) ws cs" by (auto simp: add.assoc)
    then show ?l by blast
  qed
  with Cons.IH show ?case by simp
qed simp

lemma holds_append:
  assumes "holds it (vs @ ws) bs"
  obtains b cs where "bs = b @ cs" "holds it vs b"
    "\<And>it'. in_ok it' \<Longrightarrow> same_input it it' \<Longrightarrow> in_pos it' = in_pos it + length b \<Longrightarrow> holds it' ws cs"
proof -
  from assms obtain b cs rest where b: "bs = b @ cs" "seq_image (value_image VERSION_1_2) (wire_order it) (in_pos it) vs b"
    "seq_image (value_image VERSION_1_2) (wire_order it) (in_pos it + length b) ws cs" "drop (in_pos it) (in_data it) = b @ cs @ rest"
    by (auto simp: holds_def seq_image_append)
  have nx: "drop (in_pos it + length b) (in_data it) = cs @ rest" using b(4) by (metis add.commute append_eq_conv_conj drop_drop)
  show thesis
  proof (rule that [OF b(1)])
    show "holds it vs b" using assms b by (auto simp: holds_def)
    show "holds it' ws cs" if "in_ok it'" "same_input it it'" "in_pos it' = in_pos it + length b" for it'
      using assms b(3) nx that wire_order_same [of it it'] by (auto simp: holds_def same_input_def same_mode_def)
  qed
qed

lemma holds_single:
  "holds it [v] bs \<Longrightarrow> value_image VERSION_1_2 (wire_order it) (in_pos it) v bs \<and> value_ok v \<and> in_ok it \<and>
   (\<exists>rest. drop (in_pos it) (in_data it) = bs @ rest)"
  by (auto simp: holds_def)

lemma holds_read: "holds it [v] bs \<Longrightarrow> reads it v (length bs) (read_value (kind_of v) it)"
  unfolding holds_def using cdr_val.rd_step [of it VERSION_1_2 v bs] by auto

lemma reads_step:
  "reads it v n r \<Longrightarrow> (\<And>it'. in_ok it' \<Longrightarrow> same_input it it' \<Longrightarrow> in_pos it' = in_pos it + n \<Longrightarrow> reads it' w k (f (v, it'))) \<Longrightarrow>
   m = n + k \<Longrightarrow> reads it w m (rbind r f)"
  using reads_bind by metis

section \<open>Basic kinds\<close>

lemma kind_size_prim: "simple_kind k = Some c \<Longrightarrow> prim_size (kind_size c)"
  by (cases k) (auto simp: prim_size_def)

definition value_bytes :: "bool \<Rightarrow> cdr_value \<Rightarrow> octet list" where
  "value_bytes order v = (case v of VOctet x \<Rightarrow> [x] | VBoolean x \<Rightarrow> [if x then 1 else 0] | VChar x \<Rightarrow> [x]
     | VWChar x \<Rightarrow> host_bytes order 2 (unat (ucast x :: ushort)) | VShort x \<Rightarrow> host_bytes order 2 (unat x)
     | VUShort x \<Rightarrow> host_bytes order 2 (unat x) | VLong x \<Rightarrow> host_bytes order 4 (unat x) | VULong x \<Rightarrow> host_bytes order 4 (unat x)
     | VFloat x \<Rightarrow> host_bytes order 4 (unat x) | VLongLong x \<Rightarrow> host_bytes order 8 (unat x)
     | VULongLong x \<Rightarrow> host_bytes order 8 (unat x) | VDouble x \<Rightarrow> host_bytes order 8 (unat x) | _ \<Rightarrow> [])"

lemma value_image_prim:
  "simple_kind k = Some (kind_of v) \<Longrightarrow> value_image ver order pos v = prim_image (kind_size (kind_of v)) (value_bytes order v) pos"
  "simple_kind k = Some (kind_of v) \<Longrightarrow> length (value_bytes order v) = kind_size (kind_of v)"
  by (cases v; cases k; auto simp: value_bytes_def)+

lemma skipped_reads: "moves it n r \<Longrightarrow> reads it True n (skipped r)"
  unfolding skipped_def by (rule moves_reads)

lemma skip_simple_reads:
  assumes "simple_kind k = Some (kind_of v)" "holds it [v] bs"
  shows "reads it True (length bs) (skip_simple oth k it)"
proof -
  from holds_single [OF assms(2)] obtain rest where h: "in_ok it" "drop (in_pos it) (in_data it) = bs @ rest"
    "prim_image (kind_size (kind_of v)) (value_bytes (wire_order it) v) (in_pos it) bs"
    using value_image_prim(1) [OF assms(1)] by auto
  have "moves it (length bs) (skip_type (kind_size (kind_of v)) it)"
    by (rule skip_prim [OF h(1) kind_size_prim [OF assms(1)] h(3) value_image_prim(2) [OF assms(1)] h(2)])
  with assms(1) show ?thesis by (simp add: skip_simple_def skipped_reads)
qed

section \<open>Arrays of basic kinds\<close>

lemma seq_image_prims:
  assumes "simple_kind k = Some c"
  shows "list_all (\<lambda>v. kind_of v = c) vs \<Longrightarrow> seq_image (value_image ver) order pos vs bs \<Longrightarrow>
    seq_image (\<lambda>order pos v. prim_image (kind_size c) (if kind_of v = c then value_bytes order v else replicate (kind_size c) 0) pos) order pos vs bs"
proof (induction vs arbitrary: pos bs)
  case (Cons v vs)
  have "value_image ver order pos v = prim_image (kind_size c) (value_bytes order v) pos"
    using value_image_prim(1) [of k v ver order pos] Cons.prems(1) assms by simp
  with Cons show ?case by fastforce
qed simp

lemma value_bytes_length:
  "simple_kind k = Some c \<Longrightarrow> length (if kind_of v = c then value_bytes order v else replicate (kind_size c) 0) = kind_size c"
  using value_image_prim(2) by auto

lemma skip_array_reads:
  assumes "simple_kind k = Some c" "list_all (\<lambda>v. kind_of v = c) vs" "holds it vs bs" "length bs < 2 ^ 32"
  shows "reads it True (length bs) (skip_value_array k (length vs) f it)"
proof -
  let ?s = "kind_size c" and ?f = "\<lambda>order v. if kind_of v = c then value_bytes order v else replicate (kind_size c) 0"
  from assms(3) obtain rest where h: "in_ok it" "drop (in_pos it) (in_data it) = bs @ rest"
    "seq_image (\<lambda>order pos v. prim_image ?s (?f order v) pos) (wire_order it) (in_pos it) vs bs"
    using seq_image_prims [OF assms(1,2)] by (auto simp: holds_def)
  note p = kind_size_prim [OF assms(1)] and fl = value_bytes_length [OF assms(1)]
  have len: "vs \<noteq> [] \<Longrightarrow> length bs = align_to (in_pos it) (?s - 1) + length vs * ?s - in_pos it"
    using prim_seq_length [OF p h(3) fl] by simp
  have "length vs * ?s \<le> length bs"
    using len align_to_prim(2) [OF p, of "in_pos it"] by (cases "vs = []") auto
  then have m: "moves it (length bs) (skip_type_array (length vs) ?s it)"
    by (intro skip_prim_array [OF h(1) p h(3) fl _ h(2)]) (use assms(4) in linarith)
  have oct: "moves it (length bs) (in_skip (length vs) it)" if "?s = 1"
  proof -
    have "length bs = length vs" using len that h(3) by (cases "vs = []") (auto simp: align_to_consts)
    moreover have "in_pos it + length bs \<le> length (in_data it)" if "bs \<noteq> []"
      using arg_cong [OF h(2), of length] that by (cases "in_pos it \<le> length (in_data it)") auto
    ultimately show ?thesis using in_skip_moves [OF h(1), of "length vs"] h(1)
      by (cases "bs = []") (auto simp: moves_def in_skip.simps)
  qed
  show ?thesis using m oct assms(1) by (cases k) (auto simp: skip_value_array_def intro!: skipped_reads)
qed

section \<open>All types\<close>

lemma skip_loop_step:
  assumes "reads it True n (f it)" "\<And>it'. in_ok it' \<Longrightarrow> same_input it it' \<Longrightarrow> in_pos it' = in_pos it + n \<Longrightarrow> reads it' True k (skip_loop j f it')"
  shows "reads it True (n + k) (skip_loop (Suc j) f it)"
  unfolding skip_loop.simps by (rule reads_step [OF assms(1)]) (use assms(2) in auto)

lemma array_simple:
  "typed t vs \<Longrightarrow> True"
  "typed_n t n vs \<Longrightarrow> t = TypeCodeImpl k \<Longrightarrow> simple_kind k = Some c \<Longrightarrow> list_all (\<lambda>v. kind_of v = c) vs \<and> length vs = n"
  "typed_members ms vs \<Longrightarrow> True"
proof (induction rule: typed_typed_n_typed_members.inducts)
  case (t_more t vs n ws)
  from t_more.hyps(1) t_more.prems have "\<exists>v. vs = [v] \<and> kind_of v = c" by (cases rule: typed.cases) auto
  with t_more show ?case by auto
qed auto

lemma simple_class: "simple_kind (tc_kind t) = Some c \<Longrightarrow> t = TypeCodeImpl (tc_kind t)"
  by (cases t) auto

lemma skip_case_nth: "j < length ms \<Longrightarrow> skip_case oth ms j it = skip_value oth (um_type (ms ! j)) it"
proof (induction ms arbitrary: j)
  case (Cons m ms)
  then show ?case by (cases m; cases j) auto
qed simp

lemma case_of_bound: "case_of ms x v = Inr (Some j) \<Longrightarrow> j < length ms"
  by (auto simp: case_of_def Let_def split: if_splits)

text \<open>\<open>skips f vs\<close>: the operation \<open>f\<close> moves a stream over the value \<open>vs\<close>.\<close>

definition skips :: "(iter \<Rightarrow> (bool \<times> iter) res) \<Rightarrow> cdr_value list \<Rightarrow> bool" where
  "skips f vs \<longleftrightarrow> (\<forall>it bs. holds it vs bs \<longrightarrow> length bs < 2 ^ 32 \<longrightarrow> reads it True (length bs) (f it))"

lemma skips_bind:
  assumes "\<And>it bs. holds it vs bs \<Longrightarrow> length bs < 2 ^ 32 \<Longrightarrow> reads it x (length bs) (f it)" "skips (\<lambda>it. g (x, it)) ws"
  shows "skips (\<lambda>it. rbind (f it) g) (vs @ ws)"
  unfolding skips_def
proof (intro allI impI)
  fix it bs
  assume h: "holds it (vs @ ws) bs" and l: "length bs < 2 ^ 32"
  from h obtain b cs where b: "bs = b @ cs" "holds it vs b"
    "\<And>it'. in_ok it' \<Longrightarrow> same_input it it' \<Longrightarrow> in_pos it' = in_pos it + length b \<Longrightarrow> holds it' ws cs" by (rule holds_append) blast
  show "reads it True (length bs) (rbind (f it) g)"
    by (rule reads_step [OF assms(1) [OF b(2)]]) (use b l assms(2) in \<open>auto simp: skips_def\<close>)
qed

lemma skips_and:
  assumes "skips f vs" "skips g ws"
  shows "skips (\<lambda>it. rbind (f it) (\<lambda>(b, it). if \<not> b then Inr (False, it) else g it)) (vs @ ws)"
  by (rule skips_bind [where x = True]) (use assms in \<open>auto simp: skips_def\<close>)

lemma skips_none [simp]: "skips (\<lambda>it. Inr (True, it)) []"
  by (auto simp: skips_def holds_def reads_def)

lemma skips_moves:
  "(\<And>it bs. holds it vs bs \<Longrightarrow> length bs < 2 ^ 32 \<Longrightarrow> moves it (length bs) (f it)) \<Longrightarrow> skips (\<lambda>it. skipped (f it)) vs"
  by (auto simp: skips_def intro: skipped_reads)

lemma holds_ulong: "holds it [VULong n] bs \<Longrightarrow> reads it n (length bs) (read_ulong it)"
  using holds_single [of it "VULong n" bs] ulong.rd_step [of it n bs] by auto

lemma holds_string: "holds it [VString s] bs \<Longrightarrow> moves it (length bs) (skip_string it)"
  using holds_single [of it "VString s" bs] skip_string_moves [of it s bs] by auto

lemma holds_wstring: "holds it [VWString s] bs \<Longrightarrow> moves it (length bs) (skip_wstring it)"
  using holds_single [of it "VWString s" bs] skip_wstring_moves [of it s bs] by auto

lemma skips_octets: "skips (\<lambda>it. skipped (in_skip (length os) it)) (map VOctet os)"
  unfolding skips_def
proof (intro allI impI)
  fix it bs
  assume h: "holds it (map VOctet os) bs" "length bs < 2 ^ 32"
  have "simple_kind tk_octet = Some KOctet" "list_all (\<lambda>v. kind_of v = KOctet) (map VOctet os)" by (simp_all add: list_all_iff)
  from skip_array_reads [OF this h, of undefined] show "reads it True (length bs) (skipped (in_skip (length os) it))"
    by (simp add: skip_value_array_def)
qed

lemma skips_enum: "skips (\<lambda>it. skipped (skip_type 4 it)) [VULong v]"
  unfolding skips_def using skip_simple_reads [of tk_ulong "VULong v"] by (auto simp: skip_simple_def)

lemma skips_string: "skips (\<lambda>it. skipped (skip_string it)) [VString s]"
  by (rule skips_moves) (rule holds_string)

lemma read_discriminator_reads: "disc_value d v \<Longrightarrow> holds it [v] bs \<Longrightarrow> reads it v (length bs) (read_discriminator d it)"
  using holds_read [of it v bs]
  by (auto simp: disc_value_def read_discriminator_def split: type_code.splits option.splits cdr_value.splits)

lemma skips_ulong: "skips (\<lambda>it. g (n, it)) ws \<Longrightarrow> skips (\<lambda>it. rbind (read_ulong it) g) (VULong n # ws)"
  using skips_bind [of "[VULong n]" n read_ulong g ws] holds_ulong by simp

lemma skips_disc: "disc_value d v \<Longrightarrow> skips (\<lambda>it. g (v, it)) ws \<Longrightarrow> skips (\<lambda>it. rbind (read_discriminator d it) g) (v # ws)"
  using skips_bind [of "[v]" v "read_discriminator d" g ws] read_discriminator_reads by simp

lemma skips_array:
  assumes "typed_n t n vs" "skips (skip_loop n f) vs"
  shows "skips (skip_value_array (tc_kind t) n f) vs"
proof (cases "simple_kind (tc_kind t)")
  case (Some c)
  with simple_class have t: "t = TypeCodeImpl (tc_kind t)" by blast
  note a = array_simple(2) [OF assms(1) t Some]
  then show ?thesis using skip_array_reads [OF Some] by (auto simp: skips_def)
next
  case None
  with assms(2) show ?thesis by (simp add: skips_def skip_value_array_def)
qed

lemma skip_value_typed:
  "typed t vs \<Longrightarrow> skips (skip_value oth t) vs"
  "typed_n t n vs \<Longrightarrow> skips (skip_loop n (skip_value oth t)) vs"
  "typed_members ms vs \<Longrightarrow> skips (skip_members oth ms) vs"
proof (induction rule: typed_typed_n_typed_members.inducts)
  case (t_simple k v)
  then show ?case by (simp add: skips_def skip_simple_reads)
next
  case (t_principal s)
  show ?case using skips_string [of s] by (simp add: skip_simple_def)
next
  case (t_wstring l w)
  show ?case using skips_moves [OF holds_wstring] by simp
next
  case (t_fixed os d s)
  show ?case using skips_octets [of os] t_fixed by simp
next
  case (t_sequence l n t vs ex)
  then have bound: "(l > 0 \<and> n > l) = False" by auto
  have "skips (\<lambda>it. case (n, it) of (len, it) \<Rightarrow> if l > 0 \<and> len > l then Inl MARSHAL
      else skip_value_array (tc_kind t) (unat len) (\<lambda>it. skip_value oth t it) it) vs"
    using skips_array [OF t_sequence(2,3)] by (simp only: bound if_False split_conv)
  from skips_ulong [OF this] show ?case by simp
next
  case (t_exception ms vs ex i n s)
  have "skips (\<lambda>it. rbind (skipped (skip_string it)) (\<lambda>(b, it). if \<not> b then Inr (False, it) else skip_members oth ms it)) ([VString s] @ vs)"
    by (rule skips_and [OF skips_string t_exception(2)])
  then show ?case by (simp add: skipped_def rbind_assoc)
next
  case (t_union_none d v ms x ex i n)
  have "skips (\<lambda>it. case (v, it) of (v, it) \<Rightarrow> rbind (case_of ms x (d, v)) (\<lambda>c. case c of None \<Rightarrow> Inr (True, it)
       | Some j \<Rightarrow> rbind (skip_case oth ms j it) (\<lambda>(b, it). Inr (True, it)))) []" using t_union_none by simp
  from skips_disc [OF t_union_none(1) this] show ?case by simp
next
  case (t_union d v ms x j vs ex i n)
  have "skips (\<lambda>it. rbind (skip_value oth (um_type (ms ! j)) it) (\<lambda>(b, it). Inr (True, it))) vs"
    using t_union(4) by (simp add: skips_def reads_def) blast
  then have "skips (\<lambda>it. case (v, it) of (v, it) \<Rightarrow> rbind (case_of ms x (d, v)) (\<lambda>c. case c of None \<Rightarrow> Inr (True, it)
       | Some j \<Rightarrow> rbind (skip_case oth ms j it) (\<lambda>(b, it). Inr (True, it)))) vs"
    using t_union(2) case_of_bound [OF t_union(2)] by (simp add: skip_case_nth)
  from skips_disc [OF t_union(1) this] show ?case by simp
next
  case (t_more t vs n ws)
  show ?case using skips_and [OF t_more(3,4)] by simp
next
  case (t_member t vs ms ws n)
  show ?case using skips_and [OF t_member(3,4)] by simp
qed (auto simp: skip_simple_def skips_string skips_enum skips_array)

section \<open>Property\<close>

text \<open>What an output stream has written is held by an input stream that receives it.\<close>

lemma written_holds:
  assumes "malloc_ok m" "out_ok out" "m_version out = VERSION_1_2" "list_all value_ok vs" "write_seq (write_value m) vs out = Inr out'"
    and "in_ok inp" "m_version inp = VERSION_1_2" "wire_order inp = local_byte_order out"
    and "in_pos inp = length (out_data out)" "in_data inp = out_data out' @ rest"
  obtains bs where "holds inp vs bs" "out_data out' = out_data out @ bs"
proof -
  from message.wr_step [OF assms(1-4)] assms(5) obtain bs where
    "seq_image (value_image VERSION_1_2) (local_byte_order out) (length (out_data out)) vs bs" "out_data out' = out_data out @ bs"
    by (auto simp: writes_def)
  with assms that show thesis by (auto simp: holds_def)
qed


section \<open>A sample value\<close>

text \<open>A structure with a number, a string, a sequence, a union and an enumeration, and its exchange between two streams.\<close>

definition sample_type :: type_code where
  "sample_type = StructTypeCode False [1] [2]
     [StructMember [3] (TypeCodeImpl tk_long), StructMember [4] (StringTypeCode 0),
      StructMember [5] (SequenceTypeCode False (TypeCodeImpl tk_short) 9),
      StructMember [6] (UnionTypeCode False [7] [8] (TypeCodeImpl tk_long) (-1) [UnionMember (TypeCodeImpl tk_long) (VLong 7) [9] (TypeCodeImpl tk_double)]),
      StructMember [10] (EnumTypeCode False [11] [12] [[13], [14]])]"

definition sample_flat :: "cdr_value list" where
  "sample_flat = [VLong 1, VString [72, 105], VULong 2, VShort 3, VShort 4, VLong 7, VDouble 5, VULong 1]"

lemma sample_typed: "typed sample_type sample_flat"
proof -
  have "typed_n (TypeCodeImpl tk_short) (Suc (Suc 0)) ([VShort 3] @ [VShort 4] @ [])"
    by (intro t_more t_zero t_simple) simp_all
  moreover have "unat (2 :: ulong) = Suc (Suc 0)" by simp
  ultimately have n: "typed_n (TypeCodeImpl tk_short) (unat (2 :: ulong)) [VShort 3, VShort 4]" by (simp only: append_Cons append_Nil)
  have s: "typed (SequenceTypeCode False (TypeCodeImpl tk_short) 9) (VULong 2 # [VShort 3, VShort 4])"
    by (rule t_sequence [OF _ n]) simp
  have u: "typed (UnionTypeCode False [7] [8] (TypeCodeImpl tk_long) (-1) [UnionMember (TypeCodeImpl tk_long) (VLong 7) [9] (TypeCodeImpl tk_double)])
    (VLong 7 # [VDouble 5])"
    by (rule t_union [where j = 0]) (simp_all add: disc_value_def case_of_def any_eq_def t_simple)
  have "typed sample_type ([VLong 1] @ [VString [72, 105]] @ (VULong 2 # [VShort 3, VShort 4]) @ (VLong 7 # [VDouble 5]) @ [VULong 1] @ [])"
    unfolding sample_type_def by (intro t_struct t_member t_no_member t_simple t_string s u t_enum) simp_all
  then show ?thesis by (simp add: sample_flat_def)
qed

lemma sample_flat_ok: "list_all value_ok sample_flat"
  by (simp add: sample_flat_def string_ok_def)

fun value_bound :: "cdr_value \<Rightarrow> nat" where
  "value_bound (VString s) = 8 + length s"
| "value_bound (VOctets s) = length s"
| "value_bound (VWString s) = 12 + 3 * length s"
| "value_bound _ = 16"

lemma prim_image_le: "prim_size s \<Longrightarrow> prim_image s b pos bs \<Longrightarrow> length bs < s + length b"
  using align_to_prim(2,3) [of s pos] by (auto simp: prim_image_def)

lemma value_image_le: "value_image ver order pos v bs \<Longrightarrow> (\<And>s. v \<noteq> VWString s) \<Longrightarrow> length bs \<le> value_bound v"
  by (cases v) (auto simp: string_image_def prim_size_def dest!: prim_image_le [rotated])

lemma seq_image_le:
  "seq_image (value_image ver) order pos vs bs \<Longrightarrow> list_all (\<lambda>v. \<forall>s. v \<noteq> VWString s) vs \<Longrightarrow> length bs \<le> sum_list (map value_bound vs)"
proof (induction vs arbitrary: pos bs)
  case (Cons v vs)
  then obtain b cs where "bs = b @ cs" "value_image ver order pos v b" "seq_image (value_image ver) order (pos + length b) vs cs" by auto
  with Cons value_image_le [of ver order pos v b] show ?case by fastforce
qed simp

lemma sample_exchange:
  assumes "list_all value_ok vs"
  obtains out' inp where "write_seq (write_value sample_malloc) vs sample_out = Inr out'" "out_ok out'"
    "in_ok inp" "in_pos inp = 0" "in_data inp = out_data out' @ []" "wire_order inp = local_byte_order sample_out" "m_version inp = VERSION_1_2"
    "list_all (\<lambda>v. \<forall>s. v \<noteq> VWString s) vs \<longrightarrow> length (out_data out') \<le> sum_list (map value_bound vs)"
proof -
  have "writes sample_malloc sample_out (seq_image (value_image VERSION_1_2) (local_byte_order sample_out)
      (length (out_data sample_out)) vs) (write_seq (write_value sample_malloc) vs sample_out)"
    by (rule message.wr_step) (use sample_malloc_ok sample_new assms in auto)
  then obtain out' bs where o: "write_seq (write_value sample_malloc) vs sample_out = Inr out'" "out_ok out'" "settled out'"
    "seq_image (value_image VERSION_1_2) (local_byte_order sample_out) 0 vs bs" "out_data out' = bs"
    using sample_malloc_ok sample_new by (auto simp: writes_def alloc_failure_def split: sum.splits)
  have "m_chunks (m_bufferCDR out') \<noteq> []" using out_ok_facts(5) [OF o(2)] by auto
  then obtain inp where i: "CDRInputStream True (m_bufferCDR out') = Inr inp"
    by (simp add: CDRInputStream_def IteratorCDR_def get_chunk_def)
  from input_of_written [OF o(2,3) i] o sample_new seq_image_le [OF o(4)] show thesis by (intro that [of out' inp]) auto
qed

definition no_others :: others where
  "no_others = \<lparr>skip_other = (\<lambda>_ _. Inl NO_IMPLEMENT), remarshal_other = (\<lambda>_ _ _ _. Inl NO_IMPLEMENT), equal_other = (\<lambda>_ _ _. Inl NO_IMPLEMENT)\<rparr>"


end
