(* ===== verification/Type_Remarshal.thy ===== *)
theory Type_Remarshal
  imports Type_Skip
begin

text \<open>
  \<^verbatim>\<open>remarshal_value\<close> copies a value from an input stream to an output stream: it reads exactly the octets of the value, in the
  byte order and at the alignment of the input, and writes the value in those of the output. This is how an Any that
  was received is sent on.
\<close>

section \<open>Copying\<close>

definition copies :: "malloc \<Rightarrow> iter \<Rightarrow> nat \<Rightarrow> iter \<Rightarrow> (octet list \<Rightarrow> bool) \<Rightarrow> (iter \<times> iter) res \<Rightarrow> bool" where
  "copies m inp n out P r \<longleftrightarrow> (case r of Inl e \<Rightarrow> alloc_failure m e
     | Inr (inp', out') \<Rightarrow> in_ok inp' \<and> same_input inp inp' \<and> in_pos inp' = in_pos inp + n \<and>
         out_ok out' \<and> (settled out \<longrightarrow> settled out') \<and> same_mode out out' \<and> (\<exists>cs. P cs \<and> out_data out' = out_data out @ cs))"

abbreviation flat_image :: "iter \<Rightarrow> cdr_value list \<Rightarrow> octet list \<Rightarrow> bool" where
  "flat_image out vs \<equiv> seq_image (value_image VERSION_1_2) (local_byte_order out) (length (out_data out)) vs"

text \<open>\<open>remarshals m f vs\<close>: the operation \<open>f\<close> copies the value \<open>vs\<close>.\<close>

definition remarshals :: "malloc \<Rightarrow> (iter \<Rightarrow> iter \<Rightarrow> (iter \<times> iter) res) \<Rightarrow> cdr_value list \<Rightarrow> bool" where
  "remarshals m f vs \<longleftrightarrow> (\<forall>inp bs out. holds inp vs bs \<longrightarrow> out_ok out \<longrightarrow> m_version out = VERSION_1_2 \<longrightarrow>
     copies m inp (length bs) out (flat_image out vs) (f inp out))"

lemma remarshals_none [simp]: "remarshals m (\<lambda>inp out. Inr (inp, out)) []"
  by (auto simp: remarshals_def copies_def holds_def)

lemma remarshals_stop [simp]: "remarshals m (copy_loop 0 f) []" "remarshals m (remarshal_members oth m []) []"
  by (auto simp: remarshals_def copies_def holds_def)

lemma remarshals_append:
  assumes "remarshals m f vs" "remarshals m g ws"
  shows "remarshals m (\<lambda>inp out. rbind (f inp out) (\<lambda>(inp, out). g inp out)) (vs @ ws)"
  unfolding remarshals_def
proof (intro allI impI)
  fix inp bs out
  assume h: "holds inp (vs @ ws) bs" and o: "out_ok out" "m_version out = VERSION_1_2"
  from h obtain b cs where b: "bs = b @ cs" "holds inp vs b"
    "\<And>it'. in_ok it' \<Longrightarrow> same_input inp it' \<Longrightarrow> in_pos it' = in_pos inp + length b \<Longrightarrow> holds it' ws cs" by (rule holds_append) blast
  from assms(1) b(2) o have F: "copies m inp (length b) out (flat_image out vs) (f inp out)" by (simp add: remarshals_def)
  show "copies m inp (length bs) out (flat_image out (vs @ ws)) (rbind (f inp out) (\<lambda>(inp, out). g inp out))"
  proof (cases "f inp out")
    case (Inl e)
    with F show ?thesis by (simp add: copies_def)
  next
    case (Inr p)
    then obtain inp1 out1 where p: "f inp out = Inr (inp1, out1)" by (cases p) auto
    with F obtain c where c: "in_ok inp1" "same_input inp inp1" "in_pos inp1 = in_pos inp + length b" "out_ok out1" "settled out \<longrightarrow> settled out1"
      "same_mode out out1" "flat_image out vs c" "out_data out1 = out_data out @ c" by (auto simp: copies_def)
    have same: "m_version out1 = VERSION_1_2" "local_byte_order out1 = local_byte_order out" using c(6) o by (simp_all add: same_mode_def)
    have "copies m inp1 (length cs) out1 (flat_image out1 ws) (g inp1 out1)"
      using assms(2) b(3) [OF c(1-3)] c(4) same(1) by (simp add: remarshals_def)
    then show ?thesis using p b(1) c same
      by (auto simp: copies_def seq_image_append split: sum.splits intro: same_input_trans same_mode_trans)
  qed
qed

text \<open>One part of the value read by \<open>rd\<close> and written by \<open>wr\<close>.\<close>

lemma remarshals_part:
  assumes "\<And>inp bs. holds inp [v] bs \<Longrightarrow> reads inp x (length bs) (rd inp)"
    and "\<And>out. value_ok v \<Longrightarrow> out_ok out \<Longrightarrow> m_version out = VERSION_1_2 \<Longrightarrow>
      writes m out (value_image VERSION_1_2 (local_byte_order out) (length (out_data out)) v) (wr out)"
  shows "remarshals m (\<lambda>inp out. rbind (rd inp) (\<lambda>(y, inp). rbind (wr out) (\<lambda>out. Inr (inp, out)))) [v]"
  unfolding remarshals_def
proof (intro allI impI)
  fix inp bs out
  assume h: "holds inp [v] bs" and o: "out_ok out" "m_version out = VERSION_1_2"
  then have "value_ok v" by (simp add: holds_def)
  from assms(1) [OF h] assms(2) [OF this o] show "copies m inp (length bs) out (flat_image out [v])
      (rbind (rd inp) (\<lambda>(y, inp). rbind (wr out) (\<lambda>out. Inr (inp, out))))"
    by (cases "wr out") (auto simp: reads_def writes_def copies_def)
qed

lemma remarshals_then:
  assumes "\<And>inp bs. holds inp [v] bs \<Longrightarrow> reads inp x (length bs) (rd inp)"
    and "\<And>out. value_ok v \<Longrightarrow> out_ok out \<Longrightarrow> m_version out = VERSION_1_2 \<Longrightarrow>
      writes m out (value_image VERSION_1_2 (local_byte_order out) (length (out_data out)) v) (wr out)"
    and "remarshals m g ws" "\<And>inp out. K x inp out = rbind (wr out) (\<lambda>out. g inp out)"
  shows "remarshals m (\<lambda>inp out. rbind (rd inp) (\<lambda>(y, inp). K y inp out)) (v # ws)"
proof -
  have "remarshals m (\<lambda>inp out. rbind (rbind (rd inp) (\<lambda>(y, inp). rbind (wr out) (\<lambda>out. Inr (inp, out)))) (\<lambda>(inp, out). g inp out)) ([v] @ ws)"
    by (rule remarshals_append [OF remarshals_part assms(3)]) (use assms in auto)
  moreover have "rbind (rbind (rd inp) (\<lambda>(y, inp). rbind (wr out) (\<lambda>out. Inr (inp, out)))) (\<lambda>(inp, out). g inp out) =
      rbind (rd inp) (\<lambda>(y, inp). K y inp out)" if "holds inp ([v] @ ws) bs" for inp bs out
  proof -
    from that obtain b where "holds inp [v] b" by (rule holds_append) blast
    from assms(1) [OF this] show ?thesis by (auto simp: reads_def assms(4) rbind_assoc)
  qed
  ultimately show ?thesis unfolding remarshals_def append_Cons append_Nil by metis
qed

lemma remarshals_copy:
  assumes "malloc_ok m" "kind_of v = k"
  shows "remarshals m (copy_value m k) [v]"
proof -
  have "remarshals m (\<lambda>inp out. rbind (read_value k inp) (\<lambda>(y, inp). rbind (write_value m y out) (\<lambda>out. Inr (inp, out)))) [v]"
    by (rule remarshals_then [where x = v and wr = "write_value m v" and g = "\<lambda>inp out. Inr (inp, out)"])
      (use holds_read assms value_writes [OF assms(1)] in auto)
  then show ?thesis by (simp add: copy_value_def [abs_def])
qed

lemma remarshals_copy_then: "malloc_ok m \<Longrightarrow> kind_of v = k \<Longrightarrow> remarshals m g ws \<Longrightarrow>
  remarshals m (\<lambda>inp out. rbind (copy_value m k inp out) (\<lambda>(inp, out). g inp out)) (v # ws)"
  using remarshals_append [OF remarshals_copy [of m v k]] by simp

section \<open>All types\<close>

lemma write_discriminator_writes:
  assumes "malloc_ok m" "disc_value d v" "value_ok v" "out_ok out" "m_version out = VERSION_1_2"
  shows "writes m out (value_image VERSION_1_2 (local_byte_order out) (length (out_data out)) v) (write_discriminator m d v out)"
proof -
  have "write_discriminator m d v out = write_value m v out"
    using assms(2) by (auto simp: write_discriminator_def disc_value_def split: type_code.splits cdr_value.splits)
  then show ?thesis using value_writes [OF assms(1,4,5,3)] by simp
qed

lemma remarshal_case_nth: "j < length ms \<Longrightarrow> remarshal_case oth m ms j inp out = remarshal_value oth m (um_type (ms ! j)) inp out"
proof (induction ms arbitrary: j)
  case (Cons c ms)
  then show ?case by (cases c; cases j) auto
qed simp

lemma remarshals_octets: "malloc_ok m \<Longrightarrow> remarshals m (copy_loop (length os) (copy_value m KOctet)) (map VOctet os)"
proof (induction os)
  case (Cons b os)
  then show ?case using remarshals_copy_then [of m "VOctet b" KOctet "copy_loop (length os) (copy_value m KOctet)" "map VOctet os"] by simp
qed simp

lemma remarshal_value_typed:
  assumes "malloc_ok m"
  shows "typed t vs \<Longrightarrow> remarshals m (remarshal_value oth m t) vs"
    and "typed_n t n vs \<Longrightarrow> remarshals m (copy_loop n (remarshal_value oth m t)) vs"
    and "typed_members ms vs \<Longrightarrow> remarshals m (remarshal_members oth m ms) vs"
proof (induction rule: typed_typed_n_typed_members.inducts)
  case (t_simple k v)
  then show ?case using remarshals_copy [OF assms, of v] by (simp add: remarshal_simple_def)
next
  case (t_sequence l n t vs ex)
  then have bound: "(l > 0 \<and> n > l) = False" by auto
  have "remarshals m (\<lambda>inp out. rbind (read_ulong inp) (\<lambda>(len, inp). if l > 0 \<and> len > l then Inl MARSHAL
     else rbind (write_long m len out) (\<lambda>out. copy_loop (unat len) (\<lambda>inp out. remarshal_value oth m t inp out) inp out))) (VULong n # vs)"
    by (rule remarshals_then [where wr = "write_long m n", OF holds_ulong _ t_sequence(3)])
      (use long.wr_step [OF assms] bound in auto)
  then show ?case by simp
next
  case (t_enum v ms ex i n)
  have "remarshals m (\<lambda>inp out. rbind (read_ulong inp) (\<lambda>(v, inp). if unat v \<ge> length ms then Inl MARSHAL
     else rbind (write_ulong m v out) (\<lambda>out. Inr (inp, out)))) [VULong v]"
    by (rule remarshals_then [where wr = "write_ulong m v", OF holds_ulong _ remarshals_none]) (use t_enum ulong.wr_step [OF assms] in auto)
  then show ?case by simp
next
  case (t_union_none d v ms x ex i n)
  have "remarshals m (\<lambda>inp out. rbind (read_discriminator d inp) (\<lambda>(v, inp). rbind (write_discriminator m d v out) (\<lambda>out.
     rbind (case_of ms x (d, v)) (\<lambda>c. case c of None \<Rightarrow> Inr (inp, out) | Some j \<Rightarrow> remarshal_case oth m ms j inp out)))) [v]"
    by (rule remarshals_then [where x = v and wr = "write_discriminator m d v", OF _ _ remarshals_none])
      (use t_union_none read_discriminator_reads write_discriminator_writes [OF assms] in simp_all)
  then show ?case by simp
next
  case (t_union d v ms x j vs ex i n)
  note c = case_of_bound [OF t_union(2)]
  have "remarshals m (\<lambda>inp out. rbind (read_discriminator d inp) (\<lambda>(v, inp). rbind (write_discriminator m d v out) (\<lambda>out.
     rbind (case_of ms x (d, v)) (\<lambda>c. case c of None \<Rightarrow> Inr (inp, out) | Some j \<Rightarrow> remarshal_case oth m ms j inp out)))) (v # vs)"
    by (rule remarshals_then [where x = v and wr = "write_discriminator m d v", OF _ _ t_union(4)])
      (use t_union c read_discriminator_reads write_discriminator_writes [OF assms] in \<open>simp_all add: remarshal_case_nth\<close>)
  then show ?case by simp
next
  case (t_exception ms vs ex i n s)
  then show ?case using remarshals_copy_then [OF assms, of "VString s" KString "remarshal_members oth m ms" vs] by simp
next
  case (t_more t vs n ws)
  then show ?case using remarshals_append [OF t_more(3,4)] by simp
next
  case (t_member t vs ms ws n)
  then show ?case using remarshals_append [OF t_member(3,4)] by simp
qed (use assms remarshals_octets [OF assms] in \<open>auto simp: remarshal_simple_def remarshals_copy dest: sym\<close>)

section \<open>Property\<close>



end
