(* ===== verification/Type_Equal.thy ===== *)
theory Type_Equal
  imports Type_Skip
begin

text \<open>
  \<^verbatim>\<open>values_equal\<close> compares two marshalled values of one type. It decides whether they are the same for the types
  that \<open>comparable\<close> lists; it is wrong for unions and raises MARSHAL for sequences without a bound.
\<close>

section \<open>Comparing two streams\<close>

text \<open>\<open>decided a i b j e r\<close>: the comparison \<open>r\<close> answers \<open>e\<close>, and when that is true it has read \<open>i\<close> octets of one stream
  and \<open>j\<close> of the other.\<close>

definition decided :: "iter \<Rightarrow> nat \<Rightarrow> iter \<Rightarrow> nat \<Rightarrow> bool \<Rightarrow> (bool \<times> iter \<times> iter) res \<Rightarrow> bool" where
  "decided a i b j e r \<longleftrightarrow> (\<exists>a' b'. r = Inr (e, a', b') \<and>
     (e \<longrightarrow> in_ok a' \<and> same_input a a' \<and> in_pos a' = in_pos a + i \<and> in_ok b' \<and> same_input b b' \<and> in_pos b' = in_pos b + j))"

definition compares :: "(iter \<Rightarrow> iter \<Rightarrow> (bool \<times> iter \<times> iter) res) \<Rightarrow> cdr_value list \<Rightarrow> cdr_value list \<Rightarrow> bool" where
  "compares f vs ws \<longleftrightarrow> (\<forall>a b bs cs. holds a vs bs \<longrightarrow> holds b ws cs \<longrightarrow>
     decided a (length bs) b (length cs) (list_all2 same_value vs ws) (f a b))"

text \<open>Of two values of one type neither is a proper beginning of the other.\<close>

definition apart :: "cdr_value list \<Rightarrow> cdr_value list \<Rightarrow> bool" where
  "apart vs ws \<longleftrightarrow> (\<forall>xs ys. list_all2 same_value (vs @ xs) (ws @ ys) \<longrightarrow> length vs = length ws)"

lemma apart_same_length: "length vs = length ws \<Longrightarrow> apart vs ws"
  by (simp add: apart_def)

lemma apart_append: "apart vs ws \<Longrightarrow> apart vs' ws' \<Longrightarrow> apart (vs @ vs') (ws @ ws')"
  unfolding apart_def by (metis append.assoc length_append list_all2_append)

lemma apart_split:
  "apart vs ws \<Longrightarrow> list_all2 same_value (vs @ vs') (ws @ ws') \<longleftrightarrow> list_all2 same_value vs ws \<and> list_all2 same_value vs' ws'"
  unfolding apart_def by (metis list_all2_append list_all2_lengthD)

lemma compares_none [simp]: "compares (\<lambda>a b. Inr (True, a, b)) [] []" "compares (equal_each 0 f) [] []"
  "compares (members_equal oth []) [] []"
  by (auto simp: compares_def decided_def holds_def)

lemma compares_append:
  assumes "compares f vs ws" "apart vs ws" "compares g vs' ws'"
  shows "compares (\<lambda>a b. rbind (f a b) (\<lambda>(e, a, b). if \<not> e then Inr (False, a, b) else g a b)) (vs @ vs') (ws @ ws')"
  unfolding compares_def
proof (intro allI impI)
  fix a b bs cs
  assume h: "holds a (vs @ vs') bs" "holds b (ws @ ws') cs"
  from h(1) obtain b1 b2 where A: "bs = b1 @ b2" "holds a vs b1"
    "\<And>it'. in_ok it' \<Longrightarrow> same_input a it' \<Longrightarrow> in_pos it' = in_pos a + length b1 \<Longrightarrow> holds it' vs' b2" by (rule holds_append) blast
  from h(2) obtain c1 c2 where B: "cs = c1 @ c2" "holds b ws c1"
    "\<And>it'. in_ok it' \<Longrightarrow> same_input b it' \<Longrightarrow> in_pos it' = in_pos b + length c1 \<Longrightarrow> holds it' ws' c2" by (rule holds_append) blast
  from assms(1) A(2) B(2) obtain a1 bb1 where r: "f a b = Inr (list_all2 same_value vs ws, a1, bb1)"
    "list_all2 same_value vs ws \<longrightarrow> in_ok a1 \<and> same_input a a1 \<and> in_pos a1 = in_pos a + length b1 \<and>
       in_ok bb1 \<and> same_input b bb1 \<and> in_pos bb1 = in_pos b + length c1"
    unfolding compares_def decided_def by blast
  show "decided a (length bs) b (length cs) (list_all2 same_value (vs @ vs') (ws @ ws'))
    (rbind (f a b) (\<lambda>(e, a, b). if \<not> e then Inr (False, a, b) else g a b))"
  proof (cases "list_all2 same_value vs ws")
    case True
    with r(2) A(3) B(3) have "holds a1 vs' b2" "holds bb1 ws' c2" by blast+
    with assms(3) have "decided a1 (length b2) bb1 (length c2) (list_all2 same_value vs' ws') (g a1 bb1)"
      by (simp add: compares_def)
    with True r show ?thesis using A(1) B(1) same_input_trans
      by (auto simp: decided_def apart_split [OF assms(2)])
  qed (simp add: r decided_def apart_split [OF assms(2)])
qed

lemma compares_value: "kind_of v = k \<Longrightarrow> kind_of w = k \<Longrightarrow> compares (compare_value k) [v] [w]"
  unfolding compares_def compare_value_def decided_def
  by (auto dest!: holds_read simp: reads_def)

section \<open>All comparable types\<close>

fun comparable :: "type_code \<Rightarrow> bool" and comparable_members :: "struct_member list \<Rightarrow> bool" where
  "comparable (TypeCodeImpl k) = (simple_kind k \<noteq> None \<or> k \<in> {tk_Principal, tk_null, tk_void})"
| "comparable (StringTypeCode l) = True"
| "comparable (WStringTypeCode l) = True"
| "comparable (ArrayTypeCode ex t l) = comparable t"
| "comparable (SequenceTypeCode ex t l) = (l > 0 \<and> comparable t)"
| "comparable (StructTypeCode ex i n ms) = comparable_members ms"
| "comparable (ExceptionTypeCode ex i n ms) = comparable_members ms"
| "comparable (EnumTypeCode ex i n ms) = True"
| "comparable (AliasTypeCode i n t) = comparable t"
| "comparable (ValueBoxTypeCode ex i n t) = comparable t"
| "comparable _ = False"
| "comparable_members [] = True"
| "comparable_members (StructMember n t # ms) = (comparable t \<and> comparable_members ms)"

inductive_cases typed_elims: "typed (TypeCodeImpl k) vs" "typed (StringTypeCode l) vs" "typed (WStringTypeCode l) vs"
  "typed (ArrayTypeCode ex t l) vs" "typed (SequenceTypeCode ex t l) vs" "typed (StructTypeCode ex i n ms) vs"
  "typed (ExceptionTypeCode ex i n ms) vs" "typed (EnumTypeCode ex i n ms) vs" "typed (AliasTypeCode i n t) vs"
  "typed (ValueBoxTypeCode ex i n t) vs" "typed_n t 0 vs" "typed_n t (Suc n) vs" "typed_members [] vs"
  "typed_members (StructMember n t # ms) vs"

text \<open>A comparison together with the separation of the values.\<close>

abbreviation agrees :: "(iter \<Rightarrow> iter \<Rightarrow> (bool \<times> iter \<times> iter) res) \<Rightarrow> cdr_value list \<Rightarrow> cdr_value list \<Rightarrow> bool" where
  "agrees f vs ws \<equiv> compares f vs ws \<and> apart vs ws"

lemma agrees_append:
  "agrees f vs ws \<Longrightarrow> agrees g vs' ws' \<Longrightarrow>
   agrees (\<lambda>a b. rbind (f a b) (\<lambda>(e, a, b). if \<not> e then Inr (False, a, b) else g a b)) (vs @ vs') (ws @ ws')"
  by (simp add: compares_append apart_append)

lemma agrees_value: "kind_of v = k \<Longrightarrow> kind_of w = k \<Longrightarrow> agrees (compare_value k) [v] [w]"
  by (simp add: compares_value apart_same_length)

lemma same_value_refl_ulong [simp]: "same_value (VULong n) w \<longleftrightarrow> w = VULong n"
  by (cases w) auto

lemma compares_cong:
  "compares f vs ws \<Longrightarrow> (\<And>a b bs cs. holds a vs bs \<Longrightarrow> holds b ws cs \<Longrightarrow> g a b = f a b) \<Longrightarrow> compares g vs ws"
  unfolding compares_def by fastforce

lemma holds_length: "holds it (VULong n # vs) bs \<Longrightarrow> \<exists>it'. read_ulong it = Inr (n, it')"
proof -
  assume "holds it (VULong n # vs) bs"
  then have "holds it ([VULong n] @ vs) bs" by simp
  then obtain b where "holds it [VULong n] b" by (rule holds_append) blast
  from holds_ulong [OF this] show ?thesis by (auto simp: reads_def)
qed

lemma agrees_sequence:
  assumes "n = k \<Longrightarrow> agrees (equal_each (unat n) f) vs ws" "n \<le> l"
  shows "agrees (sequence_equal l f) (VULong n # vs) (VULong k # ws)" (is "agrees ?f _ _")
proof (cases "n = k")
  case True
  let ?g = "\<lambda>a b. rbind (compare_value KULong a b) (\<lambda>(e, a, b). if \<not> e then Inr (False, a, b) else equal_each (unat n) f a b)"
  have "agrees ?g ([VULong n] @ vs) ([VULong k] @ ws)"
    by (rule agrees_append [OF agrees_value]) (use assms True in auto)
  moreover have "?f a b = ?g a b" if h: "holds a (VULong n # vs) bs" "holds b (VULong k # ws) cs" for a b bs cs
    using holds_length [OF h(1)] holds_length [OF h(2)] assms(2) True by (auto simp: compare_value_def as_value_def)
  ultimately show ?thesis using compares_cong [of ?g _ _ ?f] by simp
next
  case False
  have "compares ?f (VULong n # vs) (VULong k # ws)"
    unfolding compares_def
  proof (intro allI impI)
    fix a b bs cs
    assume h: "holds a (VULong n # vs) bs" "holds b (VULong k # ws) cs"
    from holds_length [OF h(1)] holds_length [OF h(2)] obtain a' b' where "read_ulong a = Inr (n, a')" "read_ulong b = Inr (k, b')" by auto
    with False show "decided a (length bs) b (length cs) (list_all2 same_value (VULong n # vs) (VULong k # ws)) (?f a b)"
      by (simp add: decided_def)
  qed
  with False show ?thesis by (simp add: apart_def)
qed

lemma values_equal_fun:
  "values_equal oth (TypeCodeImpl k) = equal_simple oth k" "values_equal oth (StringTypeCode l) = compare_value KString"
  "values_equal oth (WStringTypeCode l) = compare_value KWString" "values_equal oth (EnumTypeCode ex i n ns) = compare_value KULong"
  "values_equal oth (ArrayTypeCode ex t l) = equal_each (unat l) (values_equal oth t)"
  "values_equal oth (StructTypeCode ex i n ms) = members_equal oth ms"
  "values_equal oth (AliasTypeCode i n t) = values_equal oth t" "values_equal oth (ValueBoxTypeCode ex i n t) = values_equal oth t"
  "equal_simple oth tk_null = (\<lambda>a b. Inr (True, a, b))" "equal_simple oth tk_void = (\<lambda>a b. Inr (True, a, b))"
  "equal_simple oth tk_Principal = compare_value KString" "simple_kind c = Some d \<Longrightarrow> equal_simple oth c = compare_value d"
  by (simp_all add: fun_eq_iff equal_simple_def)

lemma values_equal_typed:
  "typed t vs \<Longrightarrow> comparable t \<Longrightarrow> typed t ws \<Longrightarrow> agrees (values_equal oth t) vs ws"
  "typed_n t n vs \<Longrightarrow> comparable t \<Longrightarrow> typed_n t n ws \<Longrightarrow> agrees (equal_each n (values_equal oth t)) vs ws"
  "typed_members ms vs \<Longrightarrow> comparable_members ms \<Longrightarrow> typed_members ms ws \<Longrightarrow> agrees (members_equal oth ms) vs ws"
proof (induction arbitrary: ws and ws and ws rule: typed_typed_n_typed_members.inducts)
  case (t_simple k v)
  then show ?case by (auto elim!: typed_elims simp: values_equal_fun intro: compares_value apart_same_length)
next
  case (t_principal s)
  then show ?case by (auto elim!: typed_elims simp: values_equal_fun intro: compares_value apart_same_length)
next
  case (t_sequence l n t vs ex)
  from t_sequence(5) obtain k ws' where w: "ws = VULong k # ws'" "typed_n t (unat k) ws'" by (auto elim: typed_elims)
  have "agrees (\<lambda>a b. values_equal oth (SequenceTypeCode ex t l) a b) (VULong n # vs) (VULong k # ws')"
    unfolding values_equal.simps by (rule agrees_sequence) (use t_sequence w in auto)
  then show ?case using w(1) by simp
next
  case (t_exception ms vs ex i n s)
  from t_exception(4) obtain s' ws' where w: "ws = VString s' # ws'" "typed_members ms ws'" by (auto elim: typed_elims)
  with t_exception agrees_append [OF agrees_value [of "VString s" KString "VString s'"] t_exception(2) [OF _ w(2)]] show ?case by simp
next
  case (t_more t vs n ws')
  from t_more(6) obtain u w where w: "ws = u @ w" "typed t u" "typed_n t n w" by (auto elim: typed_elims)
  with t_more agrees_append [OF t_more(3) [OF _ w(2)] t_more(4) [OF _ w(3)]] show ?case by simp
next
  case (t_member t vs ms ws' n)
  from t_member(6) obtain u w where w: "ws = u @ w" "typed t u" "typed_members ms w" by (auto elim: typed_elims)
  with t_member agrees_append [OF t_member(3) [OF _ w(2)] t_member(4) [OF _ w(3)]] show ?case by simp
qed (auto elim!: typed_elims simp: values_equal_fun compares_value apart_same_length)

section \<open>Properties\<close>


definition plain_type :: type_code where
  "plain_type = StructTypeCode False [1] [2]
     [StructMember [3] (TypeCodeImpl tk_long), StructMember [4] (StringTypeCode 0),
      StructMember [5] (SequenceTypeCode False (TypeCodeImpl tk_double) 9), StructMember [10] (EnumTypeCode False [11] [12] [[13], [14]])]"

definition plain_flat :: "ulonglong \<Rightarrow> cdr_value list" where
  "plain_flat d = [VLong 1, VString [72, 105], VULong 1, VDouble d, VULong 1]"

lemma plain_typed: "typed plain_type (plain_flat d)" "comparable plain_type" "list_all value_ok (plain_flat d)"
proof -
  have "typed_n (TypeCodeImpl tk_double) (Suc 0) ([VDouble d] @ [])"
    by (intro t_more t_zero t_simple) simp_all
  then have n: "typed_n (TypeCodeImpl tk_double) (unat (1 :: ulong)) [VDouble d]" by simp
  have s: "typed (SequenceTypeCode False (TypeCodeImpl tk_double) 9) (VULong 1 # [VDouble d])"
    by (rule t_sequence [OF _ n]) simp
  have "typed plain_type ([VLong 1] @ [VString [72, 105]] @ (VULong 1 # [VDouble d]) @ [VULong 1] @ [])"
    unfolding plain_type_def by (intro t_struct t_member t_no_member t_simple t_string s t_enum) simp_all
  then show "typed plain_type (plain_flat d)" by (simp add: plain_flat_def)
qed (simp_all add: plain_type_def plain_flat_def string_ok_def)

lemma sample_holds:
  assumes "list_all value_ok vs"
  obtains inp bs where "holds inp vs bs"
proof -
  obtain out' inp where E: "write_seq (write_value sample_malloc) vs sample_out = Inr out'" "out_ok out'"
    "in_ok inp" "in_pos inp = 0" "in_data inp = out_data out' @ []" "wire_order inp = local_byte_order sample_out" "m_version inp = VERSION_1_2"
    using sample_exchange [OF assms] by blast
  have "in_pos inp = length (out_data sample_out)" using E(4) sample_new by simp
  from written_holds [OF sample_malloc_ok(1) sample_new(1,5) assms E(1,3,7,6) this E(5)] that show thesis by blast
qed


text \<open>Sequences without a bound cannot be compared: \<^verbatim>\<open>values_equal\<close> of two such sequences of the same length raises
  MARSHAL, unless they are empty, although the other operations take a bound of zero as none.\<close>

theorem values_equal_unbounded:
  assumes "holds a (VULong n # vs) bs" "holds b (VULong n # ws) cs" "n \<noteq> 0"
  shows "values_equal oth (SequenceTypeCode ex t 0) a b = Inl MARSHAL"
proof -
  from holds_length [OF assms(1)] holds_length [OF assms(2)] obtain a' b' where
    "read_ulong a = Inr (n, a')" "read_ulong b = Inr (n, b')" by auto
  moreover from assms(3) have "n > 0" by (simp add: word_neq_0_conv)
  ultimately show ?thesis by simp
qed

theorem values_equal_unbounded_witness:
  "\<exists>a bs. holds a [VULong 1, VLong 5] bs \<and>
     values_equal no_others (SequenceTypeCode True (TypeCodeImpl tk_long) 0) a a = Inl MARSHAL"
proof -
  obtain a bs where a: "holds a (VULong 1 # [VLong 5]) bs" using sample_holds [of "[VULong 1, VLong 5]"] by auto
  from values_equal_unbounded [OF a a, of no_others True "TypeCodeImpl tk_long"] a show ?thesis by auto
qed

text \<open>The comparison of unions is inverted, because \<^verbatim>\<open>CORBA::Any::operator!=\<close> returns what \<^verbatim>\<open>operator==\<close> returns: two unions with
  the same discriminator, a union and itself among them, are reported as different.\<close>

theorem values_equal_union:
  assumes "disc_value d v" "disc_equivalent d d" "holds a (v # vs) bs" "holds b (v # ws) cs"
  shows "\<exists>a' b'. values_equal oth (UnionTypeCode ex i n d x ms) a b = Inr (False, a', b')"
proof -
  from assms(3,4) have "holds a ([v] @ vs) bs" "holds b ([v] @ ws) cs" by simp_all
  then obtain bs' cs' where "holds a [v] bs'" "holds b [v] cs'" by (elim holds_append)
  then obtain a' b' where "read_discriminator d a = Inr (v, a')" "read_discriminator d b = Inr (v, b')"
    using read_discriminator_reads [OF assms(1)] unfolding reads_def by metis
  with assms(2) show ?thesis by (simp add: any_neq_def any_eq_def)
qed

theorem values_equal_union_witness:
  "\<exists>a bs a' b'. holds a [VLong 7, VDouble 5] bs \<and>
     values_equal no_others (UnionTypeCode True [7] [8] (TypeCodeImpl tk_long) (-1)
       [UnionMember (TypeCodeImpl tk_long) (VLong 7) [9] (TypeCodeImpl tk_double)]) a a = Inr (False, a', b')"
proof -
  obtain a bs where a: "holds a (VLong 7 # [VDouble 5]) bs" using sample_holds [of "[VLong 7, VDouble 5]"] by auto
  have d: "disc_value (TypeCodeImpl tk_long) (VLong 7)" "disc_equivalent (TypeCodeImpl tk_long) (TypeCodeImpl tk_long)"
    by (simp_all add: disc_value_def)
  from values_equal_union [OF d a a] a show ?thesis by blast
qed

end
