(* ===== verification/Use_Table.thy ===== *)
theory Use_Table
  imports Object_Map "HOL-Library.Multiset"
begin

text \<open>
  The bounded table of objects in use (\<^verbatim>\<open>core/util/UseTable.h\<close>), which holds the connections of a communication layer
  and the messages that wait for fragments. Each entry has the round of its last use; when the table is filling, the
  entries of the oldest rounds are removed, except for those that cannot be removed, and rounds pass until there is
  space. The order \<open>lt\<close> of the keys and the virtual \<^verbatim>\<open>canBeRemoved\<close> of the objects, \<open>rm\<close>, are arguments, as those of the
  template are.
\<close>

section \<open>State and operations\<close>

type_synonym ('k, 'v) entry = "'k \<times> 'v \<times> int"

record ('k, 'v) use_table =
  ut_use :: "('k, 'v) entry list"
  ut_max :: nat
  ut_round :: int
  ut_used :: int

definition INT_MAX :: int where
  "INT_MAX = 2147483647"

definition UseTable :: "nat \<Rightarrow> ('k, 'v) use_table" where
  "UseTable n = \<lparr>ut_use = [], ut_max = n, ut_round = 0, ut_used = 0\<rparr>"

text \<open>The size is compared with \<^verbatim>\<open>getMaxSize() * 0.8\<close> in floating point. The double next to 0.8 differs from it by less than
  half a unit in the last place of the product, so that the comparison is exact for sizes below \<open>2 ^ 53\<close>.\<close>

definition above_ratio :: "nat \<Rightarrow> nat \<Rightarrow> bool" where
  "above_ratio n m = (5 * n > 4 * m)"

definition reaches_ratio :: "nat \<Rightarrow> nat \<Rightarrow> bool" where
  "reaches_ratio n m = (5 * n \<ge> 4 * m)"

definition incRound :: "('k, 'v) use_table \<Rightarrow> ('k, 'v) use_table" where
  "incRound t = (let t = t\<lparr>ut_round := ut_round t + 1\<rparr> in
     if ut_round t = INT_MAX then t\<lparr>ut_round := 0, ut_used := 0, ut_use := map (\<lambda>(k, v, r). (k, v, - 1)) (ut_use t)\<rparr> else t)"

text \<open>The inner loop of \<^verbatim>\<open>removeOldObjects\<close>: it erases the entries of old rounds; an object that cannot be removed goes
  to the map \<^verbatim>\<open>reinserted\<close>, the others to the list of removed objects.\<close>

fun sweep :: "('k \<Rightarrow> 'k \<Rightarrow> bool) \<Rightarrow> ('v \<Rightarrow> bool) \<Rightarrow> int \<Rightarrow> ('k, 'v) entry list \<Rightarrow> ('k, 'v) entry list \<Rightarrow> 'v list \<Rightarrow>
  ('k, 'v) entry list \<times> ('k, 'v) entry list \<times> 'v list" where
  "sweep lt rm rnd [] re removed = ([], re, removed)"
| "sweep lt rm rnd ((k, v, r) # es) re removed =
     (if r \<le> rnd - 4 then
        if \<not> rm v then sweep lt rm rnd es (map_assign lt k (v, rnd - 1) re) removed
        else sweep lt rm rnd es re (removed @ [v])
      else (case sweep lt rm rnd es re removed of (u, re, removed) \<Rightarrow> ((k, v, r) # u, re, removed)))"

lemma sweep_use: "fst (sweep lt rm rnd es re removed) = filter (\<lambda>(k, v, r). r > rnd - 4) es"
  by (induction lt rm rnd es re removed rule: sweep.induct) (auto split: prod.splits)

text \<open>The outer loop ends: in each turn that leaves an entry the round comes nearer to that of the newest entry, unless it is
  set back to zero, which puts all entries four turns from their end.\<close>

definition newest :: "('k, 'v) entry list \<Rightarrow> int" where
  "newest es = Max (insert (- 1) ((\<lambda>e. snd (snd e)) ` set es))"

lemma newest_le: "e \<in> set es \<Longrightarrow> snd (snd e) \<le> newest es"
  by (auto simp: newest_def)

lemma newest_sub: "set es' \<subseteq> set es \<Longrightarrow> newest es' \<le> newest es"
  unfolding newest_def by (rule Max_mono) auto

lemma newest_reset: "newest (map (\<lambda>(k, v, r). (k, v, - 1)) es) = - 1"
proof -
  have "insert (- 1) ((\<lambda>e. snd (snd e)) ` set (map (\<lambda>(k, v, r). (k, v, - 1 :: int)) es)) = {- 1}" by auto
  then show ?thesis by (simp only: newest_def Max_singleton)
qed

lemma turn_nearer:
  assumes "u = filter (\<lambda>(k, v, r). r > ut_round t - 4) (ut_use t)" "u \<noteq> []" "t' = incRound (t\<lparr>ut_use := u\<rparr>)"
  shows "newest (ut_use t') + 4 < INT_MAX \<and> newest (ut_use t) + 4 \<ge> INT_MAX \<or>
    newest (ut_use t') \<le> newest (ut_use t) \<and> ut_round t' = ut_round t + 1 \<and> ut_round t < newest (ut_use t) + 4"
proof -
  from assms(1,2) obtain e where "e \<in> set (ut_use t)" "snd (snd e) > ut_round t - 4" by (auto simp: filter_empty_conv)
  then have near: "ut_round t < newest (ut_use t) + 4" using newest_le [of e "ut_use t"] by simp
  show ?thesis
  proof (cases "ut_round t + 1 = INT_MAX")
    case True
    with assms(3) newest_reset [of u] near show ?thesis by (simp add: incRound_def INT_MAX_def)
  next
    case False
    with assms newest_sub [of u "ut_use t"] near show ?thesis by (auto simp: incRound_def)
  qed
qed

function old_loop :: "('k \<Rightarrow> 'k \<Rightarrow> bool) \<Rightarrow> ('v \<Rightarrow> bool) \<Rightarrow> ('k, 'v) use_table \<Rightarrow> ('k, 'v) entry list \<Rightarrow> 'v list \<Rightarrow>
  ('k, 'v) use_table \<times> ('k, 'v) entry list \<times> 'v list" where
  "old_loop lt rm t re removed =
     (case sweep lt rm (ut_round t) (ut_use t) re removed of (u, re, removed) \<Rightarrow>
        let full = reaches_ratio (length u + length re) (ut_max t);
            t = t\<lparr>ut_use := u\<rparr>;
            t = (if full then incRound t else t)
        in if u \<noteq> [] \<and> full then old_loop lt rm t re removed else (t, re, removed))"
  by pat_completeness auto

termination
proof (relation "measures [\<lambda>(lt, rm, t, re, removed). if newest (ut_use t) + 4 \<ge> INT_MAX then 1 else 0,
    \<lambda>(lt, rm, t, re, removed). nat (newest (ut_use t) + 4 - ut_round t)]", goal_cases)
  case (2 lt rm t re removed u y re' removed' full t1 t2)
  then have "t2 = incRound (t\<lparr>ut_use := u\<rparr>)" "u = filter (\<lambda>(k, v, r). r > ut_round t - 4) (ut_use t)"
    using sweep_use [of lt rm "ut_round t" "ut_use t" re removed] by (auto simp: fst_def split: prod.splits)
  with turn_nearer [of u t t2] 2 show ?case by auto
qed simp

declare old_loop.simps [simp del]

definition removeOldObjects :: "('k \<Rightarrow> 'k \<Rightarrow> bool) \<Rightarrow> ('v \<Rightarrow> bool) \<Rightarrow> ('k, 'v) use_table \<Rightarrow> 'v list \<times> ('k, 'v) use_table" where
  "removeOldObjects lt rm t =
     (if above_ratio (length (ut_use t)) (ut_max t) then
        (case old_loop lt rm t [] [] of (t, re, removed) \<Rightarrow>
           (removed, t\<lparr>ut_use := fold (\<lambda>(k, v, r) u. map_assign lt k (v, ut_round t - 1) u) re (ut_use t)\<rparr>))
      else ([], t))"

text \<open>\<^verbatim>\<open>append\<close> returns the removed objects, the table and whether the object was appended; otherwise it raises
  \<^verbatim>\<open>FullUseTableException\<close>.\<close>

definition append_object :: "('k \<Rightarrow> 'k \<Rightarrow> bool) \<Rightarrow> ('v \<Rightarrow> bool) \<Rightarrow> 'k \<Rightarrow> 'v \<Rightarrow> ('k, 'v) use_table \<Rightarrow> 'v list \<times> ('k, 'v) use_table \<times> bool" where
  "append_object lt rm k v t = (case removeOldObjects lt rm t of (removed, t) \<Rightarrow>
     if length (ut_use t) = ut_max t then (removed, t, False)
     else (removed, t\<lparr>ut_use := map_assign lt k (v, ut_round t - 1) (ut_use t)\<rparr>, True))"

definition ut_get :: "('k \<Rightarrow> 'k \<Rightarrow> bool) \<Rightarrow> 'k \<Rightarrow> ('k, 'v) use_table \<Rightarrow> 'v option" where
  "ut_get lt k t = map_option fst (map_find lt k (ut_use t))"

definition ut_remove :: "('k \<Rightarrow> 'k \<Rightarrow> bool) \<Rightarrow> 'k \<Rightarrow> ('k, 'v) use_table \<Rightarrow> 'v option \<times> ('k, 'v) use_table" where
  "ut_remove lt k t = (case map_find lt k (ut_use t) of None \<Rightarrow> (None, t)
     | Some (v, r) \<Rightarrow> (Some v, t\<lparr>ut_use := map_erase lt k (ut_use t)\<rparr>))"

definition use_object :: "('k \<Rightarrow> 'k \<Rightarrow> bool) \<Rightarrow> 'k \<Rightarrow> ('k, 'v) use_table \<Rightarrow> ('k, 'v) use_table" where
  "use_object lt k t = (case map_find lt k (ut_use t) of None \<Rightarrow> t
     | Some (v, r) \<Rightarrow>
         let t = (if r \<noteq> ut_round t then
                    let t = t\<lparr>ut_used := ut_used t + 1\<rparr> in
                    if ut_used t > int (ut_max t div 2) then (incRound t)\<lparr>ut_used := 0\<rparr> else t
                  else t)
         in t\<lparr>ut_use := map_assign lt k (v, ut_round t) (ut_use t)\<rparr>)"

definition ut_elements :: "('k, 'v) use_table \<Rightarrow> 'v list" where
  "ut_elements t = map (\<lambda>(k, v, r). v) (ut_use t)"

definition ut_clear :: "('k, 'v) use_table \<Rightarrow> ('k, 'v) use_table" where
  "ut_clear t = t\<lparr>ut_use := []\<rparr>"

definition object_exist :: "('k \<Rightarrow> 'k \<Rightarrow> bool) \<Rightarrow> 'k \<Rightarrow> ('k, 'v) use_table \<Rightarrow> bool" where
  "object_exist lt k t = (ut_get lt k t \<noteq> None)"

section \<open>What the operations do\<close>

text \<open>The content of a table: its keys with their objects.\<close>

abbreviation item :: "('k, 'v) entry \<Rightarrow> 'k \<times> 'v" where
  "item e \<equiv> (fst e, fst (snd e))"

abbreviation kept :: "('v \<Rightarrow> bool) \<Rightarrow> int \<Rightarrow> ('k, 'v) entry \<Rightarrow> bool" where
  "kept rm h e \<equiv> \<not> rm (fst (snd e)) \<or> snd (snd e) > h"

context key_order
begin

lemma assign_mset: "k \<notin> fst ` set t \<Longrightarrow> mset (map_assign lt k v t) = add_mset (k, v) (mset t)"
proof (induction t)
  case (Cons p t)
  then show ?case using lt_total by (cases p) auto
qed simp

lemma ordered_filter: "ordered t \<Longrightarrow> ordered (filter P t)"
  by (simp add: ordered_def sorted_wrt_filter)

lemma fold_assign:
  assumes "ordered u" "distinct (map fst re)" "fst ` set re \<inter> fst ` set u = {}"
  shows "ordered (fold (\<lambda>(k, v, r) u. map_assign lt k (v, c) u) re u) \<and>
    mset (fold (\<lambda>(k, v, r) u. map_assign lt k (v, c) u) re u) = mset (map (\<lambda>(k, v, r). (k, v, c)) re) + mset u"
  using assms
proof (induction re arbitrary: u)
  case (Cons e re)
  obtain k v r where e: "e = (k, v, r)" by (cases e)
  let ?u = "map_assign lt k (v, c) u"
  have "fst ` set re \<inter> fst ` set ?u = {}" "mset ?u = add_mset (k, v, c) (mset u)"
    using Cons.prems e by (auto simp: assign_keys assign_mset)
  with Cons.IH [of ?u] Cons.prems e show ?case by (simp add: assign_ordered)
qed simp

text \<open>What one sweep does to the entries \<open>es\<close>, to the reinserted ones and to the removed objects.\<close>

abbreviation old :: "int \<Rightarrow> ('k, 'v) entry \<Rightarrow> bool" where
  "old h e \<equiv> snd (snd e) \<le> h"

lemma sweep_spec:
  assumes "sweep lt rm rnd es re removed = (u, re', removed')" "ordered es" "ordered re" "fst ` set re \<inter> fst ` set es = {}"
  shows "u = filter (\<lambda>e. \<not> old (rnd - 4) e) es \<and> ordered re' \<and>
    image_mset item (mset re') = image_mset item (mset re) + image_mset item {#e \<in># mset es. old (rnd - 4) e \<and> \<not> rm (fst (snd e))#} \<and>
    mset removed' = mset removed + image_mset (\<lambda>e. fst (snd e)) {#e \<in># mset es. old (rnd - 4) e \<and> rm (fst (snd e))#}"
  using assms
proof (induction es arbitrary: re removed u)
  case (Cons e es)
  obtain k v r where e: "e = (k, v, r)" by (cases e)
  from Cons.prems(2) e have o: "ordered es" "k \<notin> fst ` set es" using lt_irrefl by (auto simp: ordered_Cons)
  consider (keep) "r > rnd - 4" | (pin) "r \<le> rnd - 4" "\<not> rm v" | (drop) "r \<le> rnd - 4" "rm v" by linarith
  then show ?case
  proof cases
    case keep
    with Cons.prems(1) e obtain u0 where "sweep lt rm rnd es re removed = (u0, re', removed')" "u = (k, v, r) # u0"
      by (auto split: prod.splits)
    with Cons.IH [OF this(1) o(1)] Cons.prems e keep show ?thesis by auto
  next
    case pin
    let ?re = "map_assign lt k (v, rnd - 1) re"
    have "sweep lt rm rnd es ?re removed = (u, re', removed')" "fst ` set ?re \<inter> fst ` set es = {}" "k \<notin> fst ` set re"
      using Cons.prems e pin o by (auto simp: assign_keys)
    with Cons.IH [OF this(1) o(1)] Cons.prems(3) e pin show ?thesis by (auto simp: assign_ordered assign_mset)
  next
    case drop
    with Cons.prems e have "sweep lt rm rnd es re (removed @ [v]) = (u, re', removed')" by simp
    with Cons.IH [OF this o(1)] Cons.prems e drop show ?thesis by auto
  qed
qed auto

text \<open>Where the loop stands when the entries were \<open>es\<close>: those up to round \<open>h\<close> were removed or put aside, and the rounds of
  the others are still in their order, as given by \<open>f\<close>.\<close>

definition swept :: "('v \<Rightarrow> bool) \<Rightarrow> ('k, 'v) entry list \<Rightarrow> (int \<Rightarrow> int) \<Rightarrow> int \<Rightarrow> ('k, 'v) entry list \<Rightarrow> ('k, 'v) entry list \<Rightarrow> 'v list \<Rightarrow> bool" where
  "swept rm es f h u re removed \<longleftrightarrow> mono f \<and> ordered re \<and>
     u = map (\<lambda>(k, v, r). (k, v, f r)) (filter (\<lambda>e. \<not> old h e) es) \<and>
     image_mset item (mset re) = image_mset item {#e \<in># mset es. old h e \<and> \<not> rm (fst (snd e))#} \<and>
     mset removed = image_mset (\<lambda>e. fst (snd e)) {#e \<in># mset es. old h e \<and> rm (fst (snd e))#}"

lemma below_all: "\<exists>h. \<forall>e \<in> set es. \<not> old h e"
proof -
  have "Min (insert 0 ((\<lambda>e. snd (snd e)) ` set es)) \<le> snd (snd e)" if "e \<in> set es" for e
    using that by (intro Min_le) auto
  then show ?thesis by (intro exI [of _ "Min (insert 0 ((\<lambda>e. snd (snd e)) ` set es)) - 1"]) (auto simp del: Min_insert)
qed

lemma swept_start: "\<exists>h. swept rm es (\<lambda>r. r) h es [] []"
proof -
  obtain h where h: "\<forall>e \<in> set es. \<not> old h e" using below_all by blast
  then have "filter (\<lambda>e. \<not> old h e) es = es" by (simp add: filter_id_conv)
  with h show ?thesis by (intro exI [of _ h]) (auto simp: swept_def mono_def ordered_def case_prod_beta')
qed

lemma threshold:
  assumes "mono (f :: int \<Rightarrow> int)" "finite S"
  shows "\<exists>h'. \<forall>r \<in> S. r \<le> h' \<longleftrightarrow> r \<le> h \<or> f r \<le> (c :: int)"
proof (cases "{r \<in> S. f r \<le> c} = {}")
  case True
  then show ?thesis by blast
next
  case False
  let ?m = "Max {r \<in> S. f r \<le> c}"
  have fin: "finite {r \<in> S. f r \<le> c}" using assms(2) by simp
  have "f ?m \<le> c" using Max_in [OF fin False] by blast
  then have low: "f r \<le> c" if "r \<le> ?m" for r using monoD [OF assms(1) that] by linarith
  have high: "r \<le> ?m" if "r \<in> S" "f r \<le> c" for r using Max_ge [OF fin, of r] that by blast
  have "r \<le> max h ?m \<longleftrightarrow> r \<le> h \<or> f r \<le> c" if "r \<in> S" for r using low [of r] high [OF that] unfolding le_max_iff_disj by blast
  then show ?thesis by blast
qed

lemma filter_mset_disj: "{#e \<in># M. P e#} + {#e \<in># M. \<not> P e \<and> Q e#} = {#e \<in># M. P e \<or> Q e#}"
  by (induction M) auto

text \<open>The keys of the entries that are left and of those put aside are different.\<close>

lemma swept_apart:
  assumes "ordered es" "swept rm es f h u re removed"
  shows "ordered u" "fst ` set re \<inter> fst ` set u = {}"
proof -
  from assms(2) have u: "u = map (\<lambda>(k, v, r). (k, v, f r)) (filter (\<lambda>e. \<not> old h e) es)"
    and re: "image_mset item (mset re) = image_mset item {#e \<in># mset es. old h e \<and> \<not> rm (fst (snd e))#}"
    by (simp_all add: swept_def)
  show "ordered u" using ordered_filter [OF assms(1)] unfolding u by (simp add: ordered_def sorted_wrt_map case_prod_beta')
  have "fst ` set re = fst ` set_mset (image_mset item (mset re))" by (simp add: image_image)
  also have "\<dots> = fst ` {e \<in> set es. old h e \<and> \<not> rm (fst (snd e))}" unfolding re by (simp add: image_image)
  finally have re': "fst ` set re = fst ` {e \<in> set es. old h e \<and> \<not> rm (fst (snd e))}" .
  have u': "fst ` set u = fst ` {e \<in> set es. \<not> old h e}" by (simp add: u image_image case_prod_beta')
  have "inj_on fst (set es)" using ordered_distinct [OF assms(1)] by (simp add: distinct_map)
  then show "fst ` set re \<inter> fst ` set u = {}" unfolding re' u' by (force dest: inj_onD)
qed

lemma image_filter_map: "image_mset j {#e \<in># mset (map g xs). P e#} = image_mset (\<lambda>e. j (g e)) {#e \<in># mset xs. P (g e)#}"
  by (induction xs) auto

lemma image_filter_filter: "image_mset j {#e \<in># mset (filter Q xs). P e#} = image_mset j {#e \<in># mset xs. Q e \<and> P e#}"
  by (induction xs) auto

lemma image_filter_cong: "(\<And>e. e \<in> set xs \<Longrightarrow> P e = Q e) \<Longrightarrow> image_mset j {#e \<in># mset xs. P e#} = image_mset j {#e \<in># mset xs. Q e#}"
  by (induction xs) auto

lemma swept_step:
  assumes "ordered es" "swept rm es f h u re removed" "sweep lt rm rnd u re removed = (u', re', removed')"
  shows "\<exists>h'. swept rm es f h' u' re' removed'"
proof -
  let ?g = "\<lambda>(k, v, r). (k, v, f r)" and ?v = "\<lambda>e. fst (snd e)"
  from assms(2) have S: "mono f" "ordered re" "u = map ?g (filter (\<lambda>e. \<not> old h e) es)"
    "image_mset item (mset re) = image_mset item {#e \<in># mset es. old h e \<and> \<not> rm (?v e)#}"
    "mset removed = image_mset ?v {#e \<in># mset es. old h e \<and> rm (?v e)#}" by (simp_all add: swept_def)
  obtain h' where h': "\<And>e. e \<in> set es \<Longrightarrow> old h' e \<longleftrightarrow> old h e \<or> f (snd (snd e)) \<le> rnd - 4"
    using threshold [OF S(1), of "(\<lambda>e. snd (snd e)) ` set es" h "rnd - 4"] by auto
  note sw = sweep_spec [OF assms(3) swept_apart(1) [OF assms(1,2)] S(2) swept_apart(2) [OF assms(1,2)]]
  have part: "image_mset j {#e \<in># mset es. old h e \<and> Q (?v e)#} + image_mset j {#e \<in># mset u. old (rnd - 4) e \<and> Q (?v e)#} =
      image_mset j {#e \<in># mset es. old h' e \<and> Q (?v e)#}" if "\<And>e. j (?g e) = j e" for Q j
  proof -
    have "image_mset j {#e \<in># mset u. old (rnd - 4) e \<and> Q (?v e)#} =
        image_mset j {#e \<in># mset es. \<not> (old h e \<and> Q (?v e)) \<and> f (snd (snd e)) \<le> rnd - 4 \<and> Q (?v e)#}"
      unfolding S(3) image_filter_map image_filter_filter that
      by (rule image_filter_cong) (auto simp: case_prod_beta')
    then have "image_mset j {#e \<in># mset es. old h e \<and> Q (?v e)#} + image_mset j {#e \<in># mset u. old (rnd - 4) e \<and> Q (?v e)#} =
        image_mset j {#e \<in># mset es. old h e \<and> Q (?v e) \<or> f (snd (snd e)) \<le> rnd - 4 \<and> Q (?v e)#}"
      by (simp only: image_mset_union [symmetric] filter_mset_disj)
    also have "\<dots> = image_mset j {#e \<in># mset es. old h' e \<and> Q (?v e)#}"
      by (rule image_filter_cong) (use h' in auto)
    finally show ?thesis .
  qed
  have "u' = map ?g (filter (\<lambda>e. \<not> old h' e) es)"
  proof -
    have "u' = map ?g (filter (\<lambda>e. \<not> old (rnd - 4) (?g e)) (filter (\<lambda>e. \<not> old h e) es))"
      using sw unfolding S(3) by (simp add: filter_map comp_def)
    also have "filter (\<lambda>e. \<not> old (rnd - 4) (?g e)) (filter (\<lambda>e. \<not> old h e) es) = filter (\<lambda>e. \<not> old h' e) es"
      unfolding filter_filter by (rule filter_cong) (use h' in \<open>auto simp: case_prod_beta'\<close>)
    finally show ?thesis .
  qed
  moreover have "image_mset item (mset re') = image_mset item {#e \<in># mset es. old h' e \<and> \<not> rm (?v e)#}"
    using sw part [of item "\<lambda>v. \<not> rm v"] by (simp add: S(4) case_prod_beta')
  moreover have "mset removed' = image_mset ?v {#e \<in># mset es. old h' e \<and> rm (?v e)#}"
    using sw part [of ?v rm] by (simp add: S(5) case_prod_beta')
  ultimately show ?thesis using S(1) sw unfolding swept_def by blast
qed

lemma swept_reset: "swept rm es f h u re removed \<Longrightarrow> swept rm es (\<lambda>r. - 1) h (map (\<lambda>(k, v, r). (k, v, - 1)) u) re removed"
  by (auto simp: swept_def mono_def)

lemma swept_round: "swept rm es f h (ut_use t) re removed \<Longrightarrow> \<exists>f'. swept rm es f' h (ut_use (incRound t)) re removed"
  using swept_reset [of rm es f h "ut_use t" re removed] by (auto simp: incRound_def Let_def)

text \<open>The rounds are integers of the machine: none is later than the current one, which has not reached the largest integer.\<close>

definition rounds_ok :: "('k, 'v) use_table \<Rightarrow> bool" where
  "rounds_ok t \<longleftrightarrow> 0 \<le> ut_round t \<and> ut_round t < INT_MAX \<and> (\<forall>e \<in> set (ut_use t). - 1 \<le> snd (snd e) \<and> snd (snd e) \<le> ut_round t)"

lemma rounds_incRound: "rounds_ok t \<Longrightarrow> rounds_ok (incRound t)"
  by (fastforce simp: rounds_ok_def incRound_def Let_def INT_MAX_def)

lemma incRound_keeps [simp]: "ut_max (incRound t) = ut_max t" "length (ut_use (incRound t)) = length (ut_use t)"
  by (simp_all add: incRound_def Let_def)

lemma old_loop_spec:
  assumes "ordered es" "swept rm es f h (ut_use t) re removed" "rounds_ok t" "old_loop lt rm t re removed = (t', re', removed')"
  shows "(\<exists>f h. swept rm es f h (ut_use t') re' removed') \<and> rounds_ok t' \<and> ut_max t' = ut_max t \<and>
    (ut_use t' = [] \<or> \<not> reaches_ratio (length (ut_use t') + length re') (ut_max t'))"
  using assms(2-)
proof (induction lt\<equiv>lt rm t re removed arbitrary: f h rule: old_loop.induct)
  case (1 rm t re removed)
  obtain u re1 removed1 where sw: "sweep lt rm (ut_round t) (ut_use t) re removed = (u, re1, removed1)" by (metis prod_cases3)
  from swept_step [OF assms(1) 1(2) sw] obtain h1 where s1: "swept rm es f h1 u re1 removed1" by blast
  have r1: "rounds_ok (t\<lparr>ut_use := u\<rparr>)"
    using 1(3) sweep_use [of lt rm "ut_round t" "ut_use t" re removed] sw by (auto simp: rounds_ok_def)
  note step = 1(4) [unfolded old_loop.simps [of lt rm t] sw, simplified]
  show ?case
  proof (cases "reaches_ratio (length u + length re1) (ut_max t)")
    case True
    let ?t = "incRound (t\<lparr>ut_use := u\<rparr>)"
    obtain f2 where s2: "swept rm es f2 h1 (ut_use ?t) re1 removed1" using swept_round [of rm es f h1 "t\<lparr>ut_use := u\<rparr>"] s1 by auto
    show ?thesis
    proof (cases "u = []")
      case u: True
      then have "ut_use ?t = []" by (simp add: incRound_def Let_def)
      moreover have "t' = ?t" "re' = re1" "removed' = removed1" using step True u by (auto simp: Let_def)
      ultimately show ?thesis using s2 rounds_incRound [OF r1] by (metis incRound_keeps(1) use_table.select_convs(2) use_table.surjective use_table.update_convs(1))
    next
      case False
      with step True have "old_loop lt rm ?t re1 removed1 = (t', re', removed')" by (simp add: Let_def)
      from 1(1) [OF sw [symmetric] refl refl refl refl, of f2 h1] this False True s2 rounds_incRound [OF r1] show ?thesis by auto
    qed
  next
    case False
    with step have "t' = t\<lparr>ut_use := u\<rparr>" "re' = re1" "removed' = removed1" by (simp_all add: Let_def)
    with False s1 r1 show ?thesis by auto
  qed
qed

definition table_ok :: "('k, 'v) use_table \<Rightarrow> bool" where
  "table_ok t \<longleftrightarrow> ordered (ut_use t) \<and> rounds_ok t \<and> length (ut_use t) \<le> ut_max t"

lemma item_keys: "map fst (map item es) = map fst es"
  by simp

lemma swept_items:
  assumes "swept rm es f h u re removed"
  shows "image_mset item (mset re) + image_mset item (mset u) = image_mset item {#e \<in># mset es. kept rm h e#}"
    "mset removed = image_mset (\<lambda>e. fst (snd e)) {#e \<in># mset es. \<not> kept rm h e#}" "\<And>e. e \<in> set re \<Longrightarrow> \<not> rm (fst (snd e))"
proof -
  let ?P = "\<lambda>e. old h e \<and> \<not> rm (fst (snd e))"
  from assms have S: "u = map (\<lambda>(k, v, r). (k, v, f r)) (filter (\<lambda>e. \<not> old h e) es)"
    "image_mset item (mset re) = image_mset item {#e \<in># mset es. ?P e#}"
    "mset removed = image_mset (\<lambda>e. fst (snd e)) {#e \<in># mset es. old h e \<and> rm (fst (snd e))#}" by (simp_all add: swept_def)
  have "image_mset item (mset u) = image_mset item {#e \<in># mset es. \<not> ?P e \<and> \<not> old h e#}"
    unfolding S(1) by (simp add: multiset.map_comp comp_def case_prod_beta' mset_filter conj_commute cong: conj_cong)
  then show "image_mset item (mset re) + image_mset item (mset u) = image_mset item {#e \<in># mset es. kept rm h e#}"
    unfolding S(2) by (simp only: image_mset_union [symmetric] filter_mset_disj) (rule image_filter_cong, auto)
  show "mset removed = image_mset (\<lambda>e. fst (snd e)) {#e \<in># mset es. \<not> kept rm h e#}"
    unfolding S(3) by (rule image_filter_cong) auto
  fix e
  assume "e \<in> set re"
  then have "item e \<in># image_mset item (mset re)" by simp
  then show "\<not> rm (fst (snd e))" unfolding S(2) by auto
qed

lemma removeOld_spec:
  assumes "table_ok t" "removeOldObjects lt rm t = (removed, t')"
  shows "\<exists>h. image_mset item (mset (ut_use t')) = image_mset item {#e \<in># mset (ut_use t). kept rm h e#} \<and>
      mset removed = image_mset (\<lambda>e. fst (snd e)) {#e \<in># mset (ut_use t). \<not> kept rm h e#}"
    "ordered (ut_use t') \<and> rounds_ok t' \<and> ut_max t' = ut_max t"
    "ut_max t > 0 \<Longrightarrow> length (ut_use t') \<ge> ut_max t \<Longrightarrow> \<forall>e \<in> set (ut_use t'). \<not> rm (fst (snd e))"
proof -
  let ?es = "ut_use t"
  note ok = assms(1) [unfolded table_ok_def]
  have "(\<exists>h. image_mset item (mset (ut_use t')) = image_mset item {#e \<in># mset ?es. kept rm h e#} \<and>
      mset removed = image_mset (\<lambda>e. fst (snd e)) {#e \<in># mset ?es. \<not> kept rm h e#}) \<and>
    (ordered (ut_use t') \<and> rounds_ok t' \<and> ut_max t' = ut_max t) \<and>
    (ut_max t > 0 \<longrightarrow> length (ut_use t') \<ge> ut_max t \<longrightarrow> (\<forall>e \<in> set (ut_use t'). \<not> rm (fst (snd e))))"
  proof (cases "above_ratio (length ?es) (ut_max t)")
    case False
    obtain h where h: "\<forall>e \<in> set ?es. \<not> old h e" using below_all by blast
    have "t' = t" "removed = []" using assms(2) False by (simp_all add: removeOldObjects_def)
    moreover have "image_mset item {#e \<in># mset ?es. kept rm h e#} = image_mset item (mset ?es)" "{#e \<in># mset ?es. \<not> kept rm h e#} = {#}"
      using h image_filter_cong [of ?es "kept rm h" "\<lambda>e. True" item] by fastforce+
    moreover have "ut_max t > 0 \<longrightarrow> length ?es < ut_max t" using False by (simp add: above_ratio_def)
    ultimately show ?thesis using ok by (intro conjI exI [of _ h]) auto
  next
    case True
    obtain t1 re where L: "old_loop lt rm t [] [] = (t1, re, removed)"
      "t' = t1\<lparr>ut_use := fold (\<lambda>(k, v, r) u. map_assign lt k (v, ut_round t1 - 1) u) re (ut_use t1)\<rparr>"
      using assms(2) True by (auto simp: removeOldObjects_def split: prod.splits)
    obtain h0 where "swept rm ?es (\<lambda>r. r) h0 ?es [] []" using swept_start by blast
    from old_loop_spec [OF _ this _ L(1)] ok obtain f h where S: "swept rm ?es f h (ut_use t1) re removed" "rounds_ok t1"
      "ut_max t1 = ut_max t" "ut_use t1 = [] \<or> \<not> reaches_ratio (length (ut_use t1) + length re) (ut_max t1)" by blast
    have o: "ordered (ut_use t1)" "distinct (map fst re)" "fst ` set re \<inter> fst ` set (ut_use t1) = {}"
      using swept_apart [OF _ S(1)] ok S(1) ordered_distinct [of re] by (auto simp: swept_def)
    note F = fold_assign [OF o, of "ut_round t1 - 1"]
    have m: "ordered (ut_use t')" "mset (ut_use t') = mset (map (\<lambda>(k, v, r). (k, v, ut_round t1 - 1)) re) + mset (ut_use t1)"
      using F by (simp_all add: L(2))
    have items: "image_mset item (mset (ut_use t')) = image_mset item {#e \<in># mset ?es. kept rm h e#}"
      unfolding m(2) swept_items(1) [OF S(1), symmetric] by (simp add: multiset.map_comp comp_def case_prod_beta')
    have "set (ut_use t') = set (map (\<lambda>(k, v, r). (k, v, ut_round t1 - 1)) re) \<union> set (ut_use t1)"
      using arg_cong [OF m(2), of set_mset] by simp
    then have rounds: "rounds_ok t'" and all: "ut_use t1 = [] \<Longrightarrow> \<forall>e \<in> set (ut_use t'). \<not> rm (fst (snd e))"
      using S(2) swept_items(3) [OF S(1)] by (auto simp: rounds_ok_def L(2))
    have "length (ut_use t') = length re + length (ut_use t1)" using arg_cong [OF m(2), of size] by simp
    with S(3,4) all have "ut_max t > 0 \<longrightarrow> length (ut_use t') \<ge> ut_max t \<longrightarrow> (\<forall>e \<in> set (ut_use t'). \<not> rm (fst (snd e)))"
      by (auto simp: reaches_ratio_def)
    with items swept_items(2) [OF S(1)] m(1) rounds S(3) show ?thesis by (auto simp: L(2))
  qed
  then show "\<exists>h. image_mset item (mset (ut_use t')) = image_mset item {#e \<in># mset (ut_use t). kept rm h e#} \<and>
      mset removed = image_mset (\<lambda>e. fst (snd e)) {#e \<in># mset (ut_use t). \<not> kept rm h e#}"
    "ordered (ut_use t') \<and> rounds_ok t' \<and> ut_max t' = ut_max t"
    "ut_max t > 0 \<Longrightarrow> length (ut_use t') \<ge> ut_max t \<Longrightarrow> \<forall>e \<in> set (ut_use t'). \<not> rm (fst (snd e))" by blast+
qed

lemma get_iff:
  assumes "ordered (ut_use t)"
  shows "ut_get lt k t = Some v \<longleftrightarrow> (k, v) \<in># image_mset item (mset (ut_use t))"
proof -
  have "ut_get lt k t = Some v \<longleftrightarrow> (\<exists>r. (k, v, r) \<in> set (ut_use t))"
    using ordered_distinct [OF assms] by (auto simp: ut_get_def find_map_of)
  then show ?thesis by force
qed

lemma assign_length: "length (map_assign lt k v t) \<le> Suc (length t)"
proof (induction t)
  case (Cons p t)
  then show ?case by (cases p) simp
qed simp

lemma assign_subset: "set (map_assign lt k v t) \<subseteq> insert (k, v) (set t)"
proof (induction t)
  case (Cons p t)
  obtain k' v' where "p = (k', v')" by (cases p)
  with Cons same_iff [of k k'] show ?case by auto
qed simp

lemma assign_rounds:
  "rounds_ok t \<Longrightarrow> - 1 \<le> r \<Longrightarrow> r \<le> ut_round t \<Longrightarrow> rounds_ok (t\<lparr>ut_use := map_assign lt k (v, r) (ut_use t)\<rparr>)"
  using assign_subset [of k "(v, r)" "ut_use t"] by (fastforce simp: rounds_ok_def)

lemma removeOld_shrinks:
  assumes "table_ok t" "removeOldObjects lt rm t = (removed, t')"
  shows "length (ut_use t') + length removed = length (ut_use t)"
proof -
  from removeOld_spec(1) [OF assms] obtain h where h: "image_mset item (mset (ut_use t')) = image_mset item {#e \<in># mset (ut_use t). kept rm h e#}"
    "mset removed = image_mset (\<lambda>e. fst (snd e)) {#e \<in># mset (ut_use t). \<not> kept rm h e#}" by blast
  from arg_cong [OF h(1), of size] arg_cong [OF h(2), of size]
  have "length (ut_use t') = size {#e \<in># mset (ut_use t). kept rm h e#}" "length removed = size {#e \<in># mset (ut_use t). \<not> kept rm h e#}"
    by simp_all
  moreover have sum: "size {#e \<in># mset es. P e#} + size {#e \<in># mset es. \<not> P e#} = length es" for P and es :: "('k, 'v) entry list"
    by (induction es) auto
  ultimately show ?thesis using sum [of "kept rm h" "ut_use t"] by argo
qed

lemma append_table_ok:
  assumes "table_ok t" "append_object lt rm k v t = (removed, t', ok)"
  shows "table_ok t'"
proof -
  obtain t1 where R: "removeOldObjects lt rm t = (removed, t1)"
    using assms(2) by (auto simp: append_object_def split: prod.splits if_splits)
  note S = removeOld_spec(2) [OF assms(1) R] and sz = removeOld_shrinks [OF assms(1) R]
  let ?t = "t1\<lparr>ut_use := map_assign lt k (v, ut_round t1 - 1) (ut_use t1)\<rparr>"
  have "rounds_ok ?t" using S by (intro assign_rounds) (auto simp: rounds_ok_def)
  moreover have "length (ut_use t1) \<noteq> ut_max t1 \<Longrightarrow> length (ut_use ?t) \<le> ut_max t1"
    using assign_length [of k "(v, ut_round t1 - 1)" "ut_use t1"] sz assms(1) S by (simp add: table_ok_def)
  ultimately show ?thesis using assms R S sz
    by (auto simp: append_object_def table_ok_def assign_ordered split: if_splits)
qed

text \<open>The objects after an object was appended: there is a round such that those used later, and those that cannot be
  removed, are kept, and the others are reported as removed.\<close>

lemma append_gets:
  assumes "table_ok t" "append_object lt rm k v t = (removed, t', True)"
  shows "\<exists>h. (\<forall>k'. ut_get lt k' t' = (if k' = k then Some v else
      case map_find lt k' (ut_use t) of Some (w, r) \<Rightarrow> if \<not> rm w \<or> r > h then Some w else None | None \<Rightarrow> None)) \<and>
    mset removed = image_mset (\<lambda>e. fst (snd e)) {#e \<in># mset (ut_use t). rm (fst (snd e)) \<and> snd (snd e) \<le> h#}"
proof -
  obtain t1 where R: "removeOldObjects lt rm t = (removed, t1)" "t' = t1\<lparr>ut_use := map_assign lt k (v, ut_round t1 - 1) (ut_use t1)\<rparr>"
    using assms(2) by (auto simp: append_object_def split: prod.splits if_splits)
  note S = removeOld_spec [OF assms(1) R(1)]
  from S(1) obtain h where h: "image_mset item (mset (ut_use t1)) = image_mset item {#e \<in># mset (ut_use t). kept rm h e#}"
    "mset removed = image_mset (\<lambda>e. fst (snd e)) {#e \<in># mset (ut_use t). \<not> kept rm h e#}" by blast
  have o: "ordered (ut_use t1)" "ordered (ut_use t)" using S(2) assms(1) by (simp_all add: table_ok_def)
  have g: "ut_get lt k' t1 = (case map_find lt k' (ut_use t) of Some (w, r) \<Rightarrow> if \<not> rm w \<or> r > h then Some w else None | None \<Rightarrow> None)" for k'
  proof -
    have "ut_get lt k' t1 = Some w \<longleftrightarrow> (\<exists>r. map_find lt k' (ut_use t) = Some (w, r) \<and> (\<not> rm w \<or> r > h))" for w
    proof -
      have "ut_get lt k' t1 = Some w \<longleftrightarrow> (\<exists>e \<in> set (ut_use t). kept rm h e \<and> item e = (k', w))"
        unfolding get_iff [OF o(1)] h(1) by auto
      also have "\<dots> \<longleftrightarrow> (\<exists>r. (k', w, r) \<in> set (ut_use t) \<and> (\<not> rm w \<or> r > h))" by force
      finally show ?thesis using ordered_distinct [OF o(2)] by (simp add: find_map_of)
    qed
    note G = this
    show ?thesis
    proof (cases "map_find lt k' (ut_use t)")
      case None
      then show ?thesis using G by (cases "ut_get lt k' t1") auto
    next
      case (Some p)
      obtain w r where p: "p = (w, r)" by (cases p)
      show ?thesis
      proof (cases "\<not> rm w \<or> r > h")
        case True
        then show ?thesis using G [of w] Some p by simp
      next
        case False
        then have "ut_get lt k' t1 \<noteq> Some w'" for w' using G [of w'] Some p by auto
        with False Some p show ?thesis by (cases "ut_get lt k' t1") auto
      qed
    qed
  qed
  have "ut_get lt k' t' = (if k' = k then Some v else ut_get lt k' t1)" for k'
    by (simp add: ut_get_def R(2) find_map_of assign_map_of)
  with g h(2) show ?thesis by (intro exI [of _ h]) (simp add: not_less)
qed

lemma append_full:
  assumes "table_ok t" "ut_max t > 0" "append_object lt rm k v t = (removed, t', ok)"
  shows "\<not> ok \<longleftrightarrow> length (ut_use t) = ut_max t \<and> (\<forall>e \<in> set (ut_use t). \<not> rm (fst (snd e)))"
proof -
  obtain t1 where R: "removeOldObjects lt rm t = (removed, t1)" "ok \<longleftrightarrow> length (ut_use t1) \<noteq> ut_max t1"
    using assms(3) by (auto simp: append_object_def split: prod.splits if_splits)
  note S = removeOld_spec [OF assms(1) R(1)] and sz = removeOld_shrinks [OF assms(1) R(1)]
  from S(1) obtain h where h: "image_mset item (mset (ut_use t1)) = image_mset item {#e \<in># mset (ut_use t). kept rm h e#}"
    "mset removed = image_mset (\<lambda>e. fst (snd e)) {#e \<in># mset (ut_use t). \<not> kept rm h e#}" by blast
  have le: "length (ut_use t) \<le> ut_max t" using assms(1) by (simp add: table_ok_def)
  show ?thesis
  proof
    assume "\<not> ok"
    then have n: "length (ut_use t1) = ut_max t" using R(2) S(2) by simp
    then have "length (ut_use t) = ut_max t \<and> length removed = 0" using sz le by linarith
    then have len: "length (ut_use t) = ut_max t" "removed = []" by simp_all
    have "\<not> rm (fst (snd e))" if "e \<in> set (ut_use t)" for e
    proof -
      have "fst (snd e) \<in># mset removed" if "\<not> kept rm h e"
      proof -
        have "e \<in># {#e \<in># mset (ut_use t). \<not> kept rm h e#}" using that \<open>e \<in> set (ut_use t)\<close> by simp
        then show ?thesis unfolding h(2) set_image_mset by (rule imageI)
      qed
      then have "kept rm h e" using len(2) by auto
      then have "item e \<in># image_mset item (mset (ut_use t1))" unfolding h(1) using that by auto
      then show ?thesis using S(3) [OF assms(2)] n by auto
    qed
    with len show "length (ut_use t) = ut_max t \<and> (\<forall>e \<in> set (ut_use t). \<not> rm (fst (snd e)))" by blast
  next
    assume all: "length (ut_use t) = ut_max t \<and> (\<forall>e \<in> set (ut_use t). \<not> rm (fst (snd e)))"
    then have "x \<notin># mset removed" for x unfolding h(2) by auto
    then have "removed = []" by (cases removed) auto
    with all sz R(2) S(2) show "\<not> ok" by simp
  qed
qed

lemma remove_table_ok: "table_ok t \<Longrightarrow> table_ok (snd (ut_remove lt k t))"
proof -
  assume ok: "table_ok t"
  have "length (map_erase lt k es) \<le> length es" for es :: "('k, 'v) entry list"
  proof (induction es)
    case (Cons p es)
    then show ?case by (cases p) auto
  qed simp
  then have "length (map_erase lt k (ut_use t)) \<le> ut_max t" using ok le_trans unfolding table_ok_def by blast
  moreover have "rounds_ok (t\<lparr>ut_use := map_erase lt k (ut_use t)\<rparr>)"
    using ok erase_subset [of k "ut_use t"] unfolding table_ok_def rounds_ok_def by auto
  ultimately have "table_ok (t\<lparr>ut_use := map_erase lt k (ut_use t)\<rparr>)" using ok by (simp add: table_ok_def erase_ordered)
  with ok show ?thesis by (simp add: ut_remove_def split: option.split)
qed

lemma assign_same_length: "k \<in> fst ` set es \<Longrightarrow> ordered es \<Longrightarrow> length (map_assign lt k x es) = length es"
proof (induction es)
  case (Cons p es)
  obtain k' v' where p: "p = (k', v')" by (cases p)
  from Cons.prems p have "k = k' \<or> k \<in> fst ` set es \<and> lt k' k" by (auto simp: ordered_Cons)
  then show ?case
  proof
    assume "k \<in> fst ` set es \<and> lt k' k"
    moreover from this have "\<not> lt k k'" using lt_irrefl lt_trans by blast
    ultimately show ?thesis using Cons p by (simp add: ordered_Cons)
  qed (simp add: p lt_irrefl)
qed simp

lemma incRound_table_ok: "table_ok t \<Longrightarrow> table_ok (incRound t)"
  using rounds_incRound [of t] incRound_keeps [of t]
  by (auto simp: table_ok_def incRound_def Let_def ordered_def sorted_wrt_map case_prod_beta')

lemma use_table_ok: "table_ok t \<Longrightarrow> table_ok (use_object lt k t)"
proof -
  assume ok: "table_ok t"
  have step: "table_ok (t1\<lparr>ut_use := map_assign lt k (v, ut_round t1) (ut_use t1)\<rparr>)"
    if t1: "table_ok t1" "k \<in> fst ` set (ut_use t1)" for t1 v
  proof -
    have "rounds_ok (t1\<lparr>ut_use := map_assign lt k (v, ut_round t1) (ut_use t1)\<rparr>)"
      using t1(1) by (intro assign_rounds) (auto simp: table_ok_def rounds_ok_def)
    moreover have "length (map_assign lt k (v, ut_round t1) (ut_use t1)) = length (ut_use t1)"
      using assign_same_length [OF t1(2)] t1(1) by (simp add: table_ok_def)
    ultimately show ?thesis using t1 by (simp add: table_ok_def assign_ordered)
  qed
  have keys: "fst ` set (ut_use (incRound t1)) = fst ` set (ut_use t1)" for t1 :: "('k, 'v) use_table"
    by (auto simp: incRound_def Let_def image_image case_prod_beta')
  have inc: "table_ok ((incRound t1)\<lparr>ut_used := 0\<rparr>)" if "table_ok t1" for t1 :: "('k, 'v) use_table"
    using incRound_table_ok [OF that] by (simp add: table_ok_def rounds_ok_def)
  show ?thesis
  proof (cases "map_find lt k (ut_use t)")
    case (Some p)
    obtain v r where p: "p = (v, r)" by (cases p)
    have k: "k \<in> fst ` set (ut_use t)" using Some by (force simp: find_map_of dest: map_of_SomeD)
    let ?u = "t\<lparr>ut_used := ut_used t + 1\<rparr>"
    let ?t = "if r \<noteq> ut_round t then if ut_used ?u > int (ut_max ?u div 2) then (incRound ?u)\<lparr>ut_used := 0\<rparr> else ?u else t"
    have u: "table_ok ?u" using ok by (simp add: table_ok_def rounds_ok_def)
    have "table_ok ?t" using ok u inc [OF u] by presburger
    moreover have "k \<in> fst ` set (ut_use ?t)" using k keys [of ?u] by simp
    ultimately have "table_ok (?t\<lparr>ut_use := map_assign lt k (v, ut_round ?t) (ut_use ?t)\<rparr>)" by (rule step)
    then show ?thesis by (simp only: use_object_def Some p option.case prod.case Let_def)
  qed (simp add: use_object_def ok)
qed

lemma clear_table_ok: "table_ok t \<Longrightarrow> table_ok (ut_clear t)"
  by (simp add: table_ok_def rounds_ok_def ut_clear_def ordered_def)

lemma new_table_ok: "table_ok (UseTable n)"
  by (simp add: table_ok_def rounds_ok_def UseTable_def ordered_def INT_MAX_def)

end

section \<open>Properties\<close>

text \<open>The operations that change a table, and the states they lead to.\<close>

datatype ('k, 'v) table_op = Append 'k 'v | Use 'k | Remove_key 'k | Clear | Inc_round

fun table_step :: "('k \<Rightarrow> 'k \<Rightarrow> bool) \<Rightarrow> ('v \<Rightarrow> bool) \<Rightarrow> ('k, 'v) table_op \<Rightarrow> ('k, 'v) use_table \<Rightarrow> ('k, 'v) use_table" where
  "table_step lt rm (Append k v) t = fst (snd (append_object lt rm k v t))"
| "table_step lt rm (Use k) t = use_object lt k t"
| "table_step lt rm (Remove_key k) t = snd (ut_remove lt k t)"
| "table_step lt rm Clear t = ut_clear t"
| "table_step lt rm Inc_round t = incRound t"

fun run_table :: "('k \<Rightarrow> 'k \<Rightarrow> bool) \<Rightarrow> ('v \<Rightarrow> bool) \<Rightarrow> ('k, 'v) table_op list \<Rightarrow> ('k, 'v) use_table \<Rightarrow> ('k, 'v) use_table" where
  "run_table lt rm [] t = t"
| "run_table lt rm (op # ops) t = run_table lt rm ops (table_step lt rm op t)"

context key_order
begin

lemma table_step_ok: "table_ok t \<Longrightarrow> table_ok (table_step lt rm op t)"
proof (cases op)
  case (Append k v)
  assume ok: "table_ok t"
  obtain removed t' b where "append_object lt rm k v t = (removed, t', b)" by (metis prod_cases3)
  with append_table_ok [OF ok this] Append show ?thesis by simp
qed (simp_all add: use_table_ok remove_table_ok clear_table_ok incRound_table_ok)

lemma run_table_ok: "table_ok t \<Longrightarrow> table_ok (run_table lt rm ops t)"
  by (induction ops arbitrary: t) (simp_all add: table_step_ok)

end

text \<open>Connection descriptors, the keys of the connections of a communication layer, are numbers.\<close>

definition ConnectionDescriptor_lt :: "ulong \<Rightarrow> ulong \<Rightarrow> bool" where
  "ConnectionDescriptor_lt a b = (a < b)"

interpretation conns: key_order ConnectionDescriptor_lt
  by unfold_locales (auto simp: ConnectionDescriptor_lt_def)

text \<open>C19. Whatever operations are called on a new table of connections, with any choice of the objects that can be removed,
  the table keeps its bounds: the descriptors are in order and not repeated, there are no more objects than the maximum,
  and the rounds stay within the machine integers, none later than the current one.\<close>

theorem use_table_invariant:
  "conns.table_ok (run_table ConnectionDescriptor_lt rm ops (UseTable n))"
  by (rule conns.run_table_ok) (rule conns.new_table_ok)

text \<open>C18. Appending an object removes the least recently used ones. There is a round such that the objects used after it, and
  those that cannot be removed, are found as before, and all other objects are no longer in the table and are exactly the
  ones that the caller gets to close; the new object is found under its descriptor.\<close>

theorem append_least_recently_used:
  assumes "conns.table_ok t" "append_object ConnectionDescriptor_lt rm k v t = (removed, t', True)"
  shows "\<exists>h. (\<forall>k'. ut_get ConnectionDescriptor_lt k' t' = (if k' = k then Some v else
      case map_find ConnectionDescriptor_lt k' (ut_use t) of Some (w, r) \<Rightarrow> if \<not> rm w \<or> r > h then Some w else None | None \<Rightarrow> None)) \<and>
    mset removed = image_mset (\<lambda>e. fst (snd e)) {#e \<in># mset (ut_use t). rm (fst (snd e)) \<and> snd (snd e) \<le> h#}"
  using conns.append_gets [OF assms] .

text \<open>Appending fails, with \<^verbatim>\<open>FullUseTableException\<close>, only if the table is full of objects that cannot be removed, which for
  the connections are those with requests in progress. For messages that wait for fragments, all of which can be removed,
  it does not fail.\<close>

theorem append_full_iff:
  assumes "conns.table_ok t" "ut_max t > 0" "append_object ConnectionDescriptor_lt rm k v t = (removed, t', ok)"
  shows "\<not> ok \<longleftrightarrow> length (ut_use t) = ut_max t \<and> (\<forall>e \<in> set (ut_use t). \<not> rm (fst (snd e)))"
  using conns.append_full [OF assms] .

text \<open>Five connections in a table of five: the first two were used, the third cannot be removed.\<close>

definition sample_table :: "(ulong, nat) use_table" where
  "sample_table = run_table ConnectionDescriptor_lt (\<lambda>v. v \<noteq> 3)
     [Append 1 1, Append 2 2, Append 3 3, Append 4 4, Use 1, Use 2, Append 5 5] (UseTable 5)"

lemma sample_table_eval:
  "sample_table = \<lparr>ut_use = [(1, 1, 0), (2, 2, 0), (3, 3, - 1), (4, 4, - 1), (5, 5, - 1)], ut_max = 5, ut_round = 0, ut_used = 2\<rparr>"
  by (simp add: sample_table_def UseTable_def append_object_def removeOldObjects_def above_ratio_def use_object_def ConnectionDescriptor_lt_def)

lemma sample_append:
  "append_object ConnectionDescriptor_lt (\<lambda>v. v \<noteq> 3) 6 6 sample_table =
     ([4, 5], \<lparr>ut_use = [(1, 1, 0), (2, 2, 0), (3, 3, 2), (6, 6, 2)], ut_max = 5, ut_round = 3, ut_used = 2\<rparr>, True)"
  by (simp add: sample_table_eval append_object_def removeOldObjects_def above_ratio_def reaches_ratio_def incRound_def INT_MAX_def
    ConnectionDescriptor_lt_def old_loop.simps)

theorem append_least_recently_used_witness:
  "append_object ConnectionDescriptor_lt (\<lambda>v. v \<noteq> 3) 6 6 sample_table =
     ([4, 5], \<lparr>ut_use = [(1, 1, 0), (2, 2, 0), (3, 3, 2), (6, 6, 2)], ut_max = 5, ut_round = 3, ut_used = 2\<rparr>, True) \<and>
   (\<exists>h. mset [4, 5] = image_mset (\<lambda>e. fst (snd e)) {#e \<in># mset (ut_use sample_table). fst (snd e) \<noteq> 3 \<and> snd (snd e) \<le> h#})"
  using append_least_recently_used [OF _ sample_append] conns.run_table_ok [OF conns.new_table_ok] sample_append
  unfolding sample_table_def by blast

theorem append_full_iff_witness:
  "\<not> snd (snd (append_object ConnectionDescriptor_lt (\<lambda>v. False) 6 6 sample_table)) \<and>
   snd (snd (append_object ConnectionDescriptor_lt (\<lambda>v. v = 1) 6 6 sample_table))"
proof -
  have ok: "conns.table_ok sample_table" unfolding sample_table_def by (rule conns.run_table_ok) (rule conns.new_table_ok)
  have "\<not> b" if "append_object ConnectionDescriptor_lt (\<lambda>v. False) 6 6 sample_table = (removed, t', b)" for removed t' b
    using append_full_iff [OF ok _ that] by (simp add: sample_table_eval)
  moreover have "b" if "append_object ConnectionDescriptor_lt (\<lambda>v. v = 1) 6 6 sample_table = (removed, t', b)" for removed t' b
    using append_full_iff [OF ok _ that] by (simp add: sample_table_eval)
  ultimately show ?thesis by (metis prod.collapse)
qed

end
