(* ===== verification/Comm_Locks.thy ===== *)
theory Comm_Locks
  imports Use_Table
begin

text \<open>
  How the thread that sends a request waits for its reply (\<^verbatim>\<open>core/comm/Lock.C\<close>, \<^verbatim>\<open>LockPool.C\<close>, \<^verbatim>\<open>LockList.C\<close>,
  \<^verbatim>\<open>core/util/OperationCompletion.C\<close>, \<^verbatim>\<open>Counter.C\<close>). Each connection has a list of active locks by request id; the locks come
  from a pool that all connections share, and go back to it. Locks are objects that are used again, so the model has
  them at addresses of a heap. The replies are values of an arbitrary type.
\<close>

section \<open>Request ids\<close>

definition RESERVED :: ulong where
  "RESERVED = - 1"

definition post_inc :: "ulong \<Rightarrow> ulong \<times> ulong" where
  "post_inc value = (let post_value = value; value = value + 1 in (post_value, if value = RESERVED then value + 1 else value))"

fun generated_ids :: "nat \<Rightarrow> ulong \<Rightarrow> ulong list" where
  "generated_ids 0 value = []"
| "generated_ids (Suc n) value = (case post_inc value of (i, value) \<Rightarrow> i # generated_ids n value)"

section \<open>Locks\<close>

datatype OperationStatus = INITIAL | WAITING | COMPLETED

record 'm lock =
  m_state :: OperationStatus
  request_id :: ulong
  lk_message :: "'m option"

record lock_list =
  active_locks :: "(ulong \<times> nat) list"
  ll_destroyed :: bool

text \<open>The heap of locks with the first free address, the pool, a stack, and the list of each connection.\<close>

record 'm locks =
  lk_heap :: "nat \<Rightarrow> 'm lock"
  lk_next :: nat
  lk_pool :: "nat list"
  lk_lists :: "nat \<Rightarrow> lock_list"

definition Lock :: "'m lock" where
  "Lock = \<lparr>m_state = INITIAL, request_id = 0, lk_message = None\<rparr>"

definition no_locks :: "'m locks" where
  "no_locks = \<lparr>lk_heap = (\<lambda>_. Lock), lk_next = 0, lk_pool = [], lk_lists = (\<lambda>_. \<lparr>active_locks = [], ll_destroyed = False\<rparr>)\<rparr>"

abbreviation set_lock :: "nat \<Rightarrow> 'm lock \<Rightarrow> 'm locks \<Rightarrow> 'm locks" where
  "set_lock l x w \<equiv> w\<lparr>lk_heap := (lk_heap w)(l := x)\<rparr>"

abbreviation set_list :: "nat \<Rightarrow> lock_list \<Rightarrow> 'm locks \<Rightarrow> 'm locks" where
  "set_list c x w \<equiv> w\<lparr>lk_lists := (lk_lists w)(c := x)\<rparr>"

abbreviation RequestId_lt :: "ulong \<Rightarrow> ulong \<Rightarrow> bool" where
  "RequestId_lt \<equiv> (<)"

definition recycle :: "'m lock \<Rightarrow> 'm lock" where
  "recycle x = x\<lparr>m_state := INITIAL\<rparr>"

definition set_completed :: "'m lock \<Rightarrow> 'm lock" where
  "set_completed x = x\<lparr>m_state := COMPLETED\<rparr>"

text \<open>What \<^verbatim>\<open>wait_for_completion\<close> does before the thread sleeps. It sleeps if the operation was in its initial state.\<close>

definition wait_for_completion :: "nat \<Rightarrow> 'm locks \<Rightarrow> (bool \<times> 'm locks) res" where
  "wait_for_completion l w = (let x = lk_heap w l in
     if m_state x = INITIAL then Inr (True, set_lock l (x\<lparr>m_state := WAITING\<rparr>) w)
     else if m_state x = WAITING then Inl OnlyOneThreadCanWait else Inr (False, w))"

definition lock_put_reply :: "nat \<Rightarrow> 'm \<Rightarrow> 'm locks \<Rightarrow> 'm locks" where
  "lock_put_reply l m w = set_lock l (set_completed ((lk_heap w l)\<lparr>lk_message := Some m\<rparr>)) w"

definition consume_reply :: "nat \<Rightarrow> 'm locks \<Rightarrow> 'm option \<times> 'm locks" where
  "consume_reply l w = (lk_message (lk_heap w l), set_lock l ((lk_heap w l)\<lparr>lk_message := None\<rparr>) w)"

definition lock_clear :: "nat \<Rightarrow> 'm locks \<Rightarrow> 'm locks" where
  "lock_clear l w = set_lock l ((lk_heap w l)\<lparr>lk_message := None\<rparr>) w"

definition get_lock :: "'m locks \<Rightarrow> nat \<times> 'm locks" where
  "get_lock w = (case lk_pool w of
     l # rest \<Rightarrow> (l, (set_lock l (recycle (lk_heap w l)) w)\<lparr>lk_pool := rest\<rparr>)
   | [] \<Rightarrow> (lk_next w, (set_lock (lk_next w) Lock w)\<lparr>lk_next := lk_next w + 1\<rparr>))"

definition put_lock :: "nat \<Rightarrow> 'm locks \<Rightarrow> 'm locks" where
  "put_lock l w = (let w = lock_clear l w in w\<lparr>lk_pool := l # lk_pool w\<rparr>)"

section \<open>Lists of active locks\<close>

definition activate_lock :: "nat \<Rightarrow> ulong \<Rightarrow> 'm locks \<Rightarrow> (nat \<times> 'm locks) res" where
  "activate_lock c i w = (let ll = lk_lists w c in
     if ll_destroyed ll then Inl COMM_FAILURE
     else if map_find RequestId_lt i (active_locks ll) \<noteq> None then Inl INTERNAL
     else (case get_lock w of (l, w) \<Rightarrow>
       let w = set_lock l ((lk_heap w l)\<lparr>request_id := i\<rparr>) w in
       Inr (l, set_list c (ll\<lparr>active_locks := map_assign RequestId_lt i l (active_locks ll)\<rparr>) w)))"

definition put_reply :: "nat \<Rightarrow> ulong \<Rightarrow> 'm \<Rightarrow> 'm locks \<Rightarrow> bool \<times> 'm locks" where
  "put_reply c i m w = (case map_find RequestId_lt i (active_locks (lk_lists w c)) of
     None \<Rightarrow> (False, w) | Some l \<Rightarrow> (True, lock_put_reply l m w))"

definition deactivate_lock :: "nat \<Rightarrow> ulong \<Rightarrow> 'm locks \<Rightarrow> 'm locks res" where
  "deactivate_lock c i w = (let ll = lk_lists w c in
     case map_find RequestId_lt i (active_locks ll) of None \<Rightarrow> Inl INTERNAL
     | Some l \<Rightarrow> Inr (put_lock l (set_list c (ll\<lparr>active_locks := map_erase RequestId_lt i (active_locks ll)\<rparr>) w)))"

text \<open>\<^verbatim>\<open>LockList::destroy\<close> notifies the locks, which changes no field. It means to wait until no lock is active, but the size it
  compares with zero is unsigned, so that it does not.\<close>

definition lock_list_destroy :: "nat \<Rightarrow> 'm locks \<Rightarrow> 'm locks" where
  "lock_list_destroy c w = (let ll = lk_lists w c in
     if \<not> ll_destroyed ll then set_list c (ll\<lparr>ll_destroyed := True\<rparr>) w else w)"

section \<open>Sending a request\<close>

text \<open>The use of the locks by \<^verbatim>\<open>Connection::send_request\<close>: first until the thread waits, where \<open>sent\<close> tells whether the message
  could be written; then after the wait.\<close>

definition request_begin :: "nat \<Rightarrow> ulong \<Rightarrow> bool \<Rightarrow> 'm locks \<Rightarrow> nat res \<times> 'm locks" where
  "request_begin c i sent w = (case activate_lock c i w of
     Inl e \<Rightarrow> (Inl e, w)
   | Inr (l, w) \<Rightarrow> if \<not> sent then (Inl RECOVERABLE_COMM_FAILURE, w)
       else (case wait_for_completion l w of Inl e \<Rightarrow> (Inl e, w) | Inr (b, w) \<Rightarrow> (Inr l, w)))"

definition request_end :: "nat \<Rightarrow> ulong \<Rightarrow> nat \<Rightarrow> 'm locks \<Rightarrow> 'm option res \<times> 'm locks" where
  "request_end c i l w =
     (if m_state (lk_heap w l) = COMPLETED then
        (case consume_reply l w of (m, w) \<Rightarrow>
           (case deactivate_lock c i w of Inl e \<Rightarrow> (Inl e, w)
            | Inr w \<Rightarrow> if m = None then (Inl INTERNAL, w) else (Inr m, w)))
      else (case deactivate_lock c i w of Inl e \<Rightarrow> (Inl e, w) | Inr w \<Rightarrow> (Inr None, w)))"

section \<open>Invariant\<close>

interpretation ids: key_order RequestId_lt
  by unfold_locales auto

definition active :: "nat \<Rightarrow> ulong \<Rightarrow> 'm locks \<Rightarrow> nat option" where
  "active c i w = map_of (active_locks (lk_lists w c)) i"

text \<open>A lock is in the pool once, or active once, for one request of one connection; a lock in the pool holds no reply.\<close>

definition locks_ok :: "'m locks \<Rightarrow> bool" where
  "locks_ok w \<longleftrightarrow> (\<forall>c. ids.ordered (active_locks (lk_lists w c))) \<and>
     distinct (lk_pool w) \<and> (\<forall>l \<in> set (lk_pool w). l < lk_next w \<and> lk_message (lk_heap w l) = None) \<and>
     (\<forall>c i l. active c i w = Some l \<longrightarrow> l < lk_next w \<and> l \<notin> set (lk_pool w) \<and> request_id (lk_heap w l) = i) \<and>
     (\<forall>c i c' i' l. active c i w = Some l \<longrightarrow> active c' i' w = Some l \<longrightarrow> c = c' \<and> i = i')"

lemma no_locks_ok: "locks_ok no_locks"
  by (simp add: locks_ok_def no_locks_def active_def ids.ordered_def)

lemmas lock_defs = activate_lock_def put_reply_def deactivate_lock_def lock_list_destroy_def get_lock_def put_lock_def lock_clear_def
  consume_reply_def lock_put_reply_def wait_for_completion_def set_completed_def recycle_def Lock_def Let_def

lemma get_lock_fresh:
  assumes "locks_ok w" "get_lock w = (l, w')"
  shows "lk_message (lk_heap w' l) = None" "m_state (lk_heap w' l) = INITIAL" "l \<notin> set (lk_pool w')" "l < lk_next w'"
    "lk_lists w' = lk_lists w" "\<And>c i. active c i w \<noteq> Some l" "distinct (lk_pool w')" "set (lk_pool w') \<subseteq> set (lk_pool w)"
    "lk_next w \<le> lk_next w'" "\<And>l'. l' \<noteq> l \<Longrightarrow> lk_heap w' l' = lk_heap w l'"
proof -
  have "lk_message (lk_heap w' l) = None \<and> m_state (lk_heap w' l) = INITIAL \<and> l \<notin> set (lk_pool w') \<and> l < lk_next w' \<and>
    lk_lists w' = lk_lists w \<and> (\<forall>c i. active c i w \<noteq> Some l) \<and> distinct (lk_pool w') \<and> set (lk_pool w') \<subseteq> set (lk_pool w) \<and>
    lk_next w \<le> lk_next w' \<and> (\<forall>l'. l' \<noteq> l \<longrightarrow> lk_heap w' l' = lk_heap w l')"
  proof (cases "lk_pool w")
    case Nil
    then have "active c i w \<noteq> Some (lk_next w)" for c i using assms(1) unfolding locks_ok_def by blast
    with Nil assms show ?thesis by (auto simp: lock_defs)
  next
    case (Cons a rest)
    then have "active c i w \<noteq> Some a" for c i using assms(1) unfolding locks_ok_def by (metis list.set_intros(1))
    with Cons assms show ?thesis by (auto simp: lock_defs locks_ok_def)
  qed
  then show "lk_message (lk_heap w' l) = None" "m_state (lk_heap w' l) = INITIAL" "l \<notin> set (lk_pool w')" "l < lk_next w'"
    "lk_lists w' = lk_lists w" "\<And>c i. active c i w \<noteq> Some l" "distinct (lk_pool w')" "set (lk_pool w') \<subseteq> set (lk_pool w)"
    "lk_next w \<le> lk_next w'" "\<And>l'. l' \<noteq> l \<Longrightarrow> lk_heap w' l' = lk_heap w l'" by auto
qed

lemma locks_okI:
  assumes "\<And>c. ids.ordered (active_locks (lk_lists w c))" "distinct (lk_pool w)"
    "\<And>l. l \<in> set (lk_pool w) \<Longrightarrow> l < lk_next w \<and> lk_message (lk_heap w l) = None"
    "\<And>c i l. active c i w = Some l \<Longrightarrow> l < lk_next w \<and> l \<notin> set (lk_pool w) \<and> request_id (lk_heap w l) = i"
    "\<And>c i c' i' l. active c i w = Some l \<Longrightarrow> active c' i' w = Some l \<Longrightarrow> c = c' \<and> i = i'"
  shows "locks_ok w"
  unfolding locks_ok_def using assms by blast

lemma locks_okD:
  assumes "locks_ok w"
  shows "ids.ordered (active_locks (lk_lists w c))" "distinct (lk_pool w)"
    "l \<in> set (lk_pool w) \<Longrightarrow> l < lk_next w \<and> lk_message (lk_heap w l) = None"
    "active c i w = Some l \<Longrightarrow> l < lk_next w \<and> l \<notin> set (lk_pool w) \<and> request_id (lk_heap w l) = i"
    "active c i w = Some l \<Longrightarrow> active c' i' w = Some l \<Longrightarrow> c = c' \<and> i = i'"
  using assms unfolding locks_ok_def by blast+

text \<open>The effect of the operations on the active locks, the pool and the heap.\<close>

lemma activate_spec:
  assumes "locks_ok w" "activate_lock c i w = Inr (l, w')"
  shows "active c' i' w' = (if c' = c \<and> i' = i then Some l else active c' i' w)" "active c i w = None"
    "\<And>c' i'. active c' i' w \<noteq> Some l" "lk_heap w' l = \<lparr>m_state = INITIAL, request_id = i, lk_message = None\<rparr>"
    "\<And>l'. l' \<noteq> l \<Longrightarrow> lk_heap w' l' = lk_heap w l'" "locks_ok w'"
proof -
  let ?ll = "lk_lists w c"
  obtain w1 where g: "get_lock w = (l, w1)" and w': "w' = set_list c (?ll\<lparr>active_locks := map_assign RequestId_lt i l (active_locks ?ll)\<rparr>)
      (set_lock l ((lk_heap w1 l)\<lparr>request_id := i\<rparr>) w1)" and none: "map_find RequestId_lt i (active_locks ?ll) = None"
    using assms(2) by (auto simp: activate_lock_def Let_def split: if_splits prod.splits)
  note f = get_lock_fresh [OF assms(1) g] and ok = locks_okD [OF assms(1)]
  show act: "active c' i' w' = (if c' = c \<and> i' = i then Some l else active c' i' w)" for c' i'
    using f(5) by (simp add: w' active_def ids.assign_map_of)
  show "active c i w = None" using none by (simp add: active_def ids.find_map_of)
  show new: "active c' i' w \<noteq> Some l" for c' i' by (rule f(6))
  show h: "lk_heap w' l = \<lparr>m_state = INITIAL, request_id = i, lk_message = None\<rparr>" using f(1,2) by (simp add: w')
  show h': "lk_heap w' l' = lk_heap w l'" if "l' \<noteq> l" for l' using f(10) [OF that] that by (simp add: w')
  have pool: "set (lk_pool w') \<subseteq> set (lk_pool w)" "l \<notin> set (lk_pool w')" "distinct (lk_pool w')" "lk_next w \<le> lk_next w'" "l < lk_next w'"
    using f(3,4,7,8,9) by (simp_all add: w')
  show "locks_ok w'"
  proof (rule locks_okI)
    show "ids.ordered (active_locks (lk_lists w' c'))" for c' using ok(1) f(5) by (simp add: w' ids.assign_ordered)
    show "l' < lk_next w' \<and> lk_message (lk_heap w' l') = None" if "l' \<in> set (lk_pool w')" for l'
    proof -
      have "l' \<in> set (lk_pool w)" "l' \<noteq> l" using that pool by auto
      with ok(3) [of l'] pool h' show ?thesis by simp
    qed
    show "l' < lk_next w' \<and> l' \<notin> set (lk_pool w') \<and> request_id (lk_heap w' l') = i'" if "active c' i' w' = Some l'" for c' i' l'
    proof (cases "c' = c \<and> i' = i")
      case True
      with that act h pool show ?thesis by simp
    next
      case False
      with that act new have "active c' i' w = Some l'" "l' \<noteq> l" by auto
      with ok(4) [of c' i' l'] pool h' [of l'] show ?thesis by auto
    qed
    show "c1 = c2 \<and> i1 = i2" if "active c1 i1 w' = Some l'" "active c2 i2 w' = Some l'" for c1 i1 c2 i2 l'
      using that new ok(5) by (metis act option.inject)
  qed (rule pool(3))
qed

lemma deactivate_spec:
  assumes "locks_ok w" "deactivate_lock c i w = Inr w'"
  obtains l where "active c i w = Some l" "\<And>c' i'. active c' i' w' = (if c' = c \<and> i' = i then None else active c' i' w)"
    "\<And>l'. l' \<noteq> l \<Longrightarrow> lk_heap w' l' = lk_heap w l'" "locks_ok w'"
proof -
  let ?ll = "lk_lists w c"
  note ok = locks_okD [OF assms(1)]
  obtain l where l: "active c i w = Some l" and
    w': "w' = put_lock l (set_list c (?ll\<lparr>active_locks := map_erase RequestId_lt i (active_locks ?ll)\<rparr>) w)"
    using assms(2) by (auto simp: deactivate_lock_def Let_def active_def ids.find_map_of split: option.splits)
  have act: "active c' i' w' = (if c' = c \<and> i' = i then None else active c' i' w)" for c' i'
    by (simp add: w' put_lock_def lock_clear_def Let_def active_def ids.erase_map_of [OF ok(1)])
  have h: "lk_heap w' = (lk_heap w)(l := (lk_heap w l)\<lparr>lk_message := None\<rparr>)" "lk_pool w' = l # lk_pool w" "lk_next w' = lk_next w"
    by (simp_all add: w' put_lock_def lock_clear_def Let_def)
  have "locks_ok w'"
  proof (rule locks_okI)
    show "ids.ordered (active_locks (lk_lists w' c'))" for c'
      using ok(1) by (simp add: w' put_lock_def lock_clear_def Let_def ids.erase_ordered)
    show "distinct (lk_pool w')" using ok(2,4) l h(2) by simp
    show "l' < lk_next w' \<and> lk_message (lk_heap w' l') = None" if "l' \<in> set (lk_pool w')" for l'
      using that ok(3) [of l'] ok(4) [OF l] h by auto
    show "l' < lk_next w' \<and> l' \<notin> set (lk_pool w') \<and> request_id (lk_heap w' l') = i'" if "active c' i' w' = Some l'" for c' i' l'
    proof -
      from that act have a: "active c' i' w = Some l'" "\<not> (c' = c \<and> i' = i)" by (auto split: if_splits)
      with ok(5) [OF a(1), of c i] l have "l' \<noteq> l" by auto
      with ok(4) [OF a(1)] h show ?thesis by simp
    qed
    show "c1 = c2 \<and> i1 = i2" if "active c1 i1 w' = Some l'" "active c2 i2 w' = Some l'" for c1 i1 c2 i2 l'
      using that ok(5) by (metis act option.distinct(1))
  qed
  with that l act h show ?thesis by simp
qed

text \<open>The operations that threads call on the locks, one at a time under the mutexes of the lists, the pool and the lock.\<close>

datatype 'm lock_op = Activate nat ulong | Wait nat | Put_reply nat ulong 'm | Consume nat | Deactivate nat ulong | Destroy_list nat

fun lock_step :: "'m lock_op \<Rightarrow> 'm locks \<Rightarrow> 'm locks res" where
  "lock_step (Activate c i) w = rbind (activate_lock c i w) (\<lambda>(l, w). Inr w)"
| "lock_step (Wait l) w = rbind (wait_for_completion l w) (\<lambda>(b, w). Inr w)"
| "lock_step (Put_reply c i m) w = Inr (snd (put_reply c i m w))"
| "lock_step (Consume l) w = Inr (snd (consume_reply l w))"
| "lock_step (Deactivate c i) w = deactivate_lock c i w"
| "lock_step (Destroy_list c) w = Inr (lock_list_destroy c w)"

abbreviation run_locks :: "'m lock_op list \<Rightarrow> 'm locks \<Rightarrow> 'm locks" where
  "run_locks \<equiv> run_ops lock_step"

text \<open>An operation that touches one lock, which is not in the pool or gets no reply, keeps the invariant.\<close>

lemma set_lock_ok:
  assumes "locks_ok w" "request_id x = request_id (lk_heap w l)" "l \<in> set (lk_pool w) \<Longrightarrow> lk_message x = None"
  shows "locks_ok (set_lock l x w)"
  using assms by (auto simp: locks_ok_def active_def)

lemma destroy_same [simp]:
  "active_locks (lk_lists (lock_list_destroy c w) c') = active_locks (lk_lists w c')" "lk_pool (lock_list_destroy c w) = lk_pool w"
  "lk_next (lock_list_destroy c w) = lk_next w" "lk_heap (lock_list_destroy c w) = lk_heap w"
  by (simp_all add: lock_list_destroy_def Let_def)

lemma lock_step_ok: "locks_ok w \<Longrightarrow> lock_step op w = Inr w' \<Longrightarrow> locks_ok w'"
proof (cases op)
  case (Activate c i)
  assume "locks_ok w" "lock_step op w = Inr w'"
  with Activate activate_spec(6) show ?thesis by (fastforce simp del: split_paired_All split_paired_Ex)
next
  case (Wait l)
  assume "locks_ok w" "lock_step op w = Inr w'"
  with Wait locks_okD(3) [of w l] show ?thesis
    by (auto simp: wait_for_completion_def Let_def split: if_splits intro!: set_lock_ok)
next
  case (Put_reply c i m)
  assume "locks_ok w" "lock_step op w = Inr w'"
  with Put_reply locks_okD(4) [of w c i] show ?thesis
    by (auto simp: put_reply_def lock_put_reply_def set_completed_def ids.find_map_of active_def split: option.splits intro!: set_lock_ok)
next
  case (Consume l)
  assume "locks_ok w" "lock_step op w = Inr w'"
  with Consume show ?thesis by (auto simp: consume_reply_def intro!: set_lock_ok)
next
  case (Deactivate c i)
  assume "locks_ok w" "lock_step op w = Inr w'"
  with Deactivate deactivate_spec show ?thesis by (metis lock_step.simps(5))
next
  case (Destroy_list c)
  assume "locks_ok w" "lock_step op w = Inr w'"
  with Destroy_list show ?thesis by (auto simp: locks_ok_def active_def)
qed

lemma stays_active:
  assumes "locks_ok w" "active c i w = Some l" "lock_step op w = Inr w'" "op \<noteq> Deactivate c i"
  shows "active c i w' = Some l"
proof (cases op)
  case (Activate c' i')
  with assms(3) obtain l' where a: "activate_lock c' i' w = Inr (l', w')" by auto
  show ?thesis using activate_spec(1,2) [OF assms(1) a] assms(2) by auto
next
  case (Deactivate c' i')
  with assms(3) have "deactivate_lock c' i' w = Inr w'" by simp
  then obtain l' where "active c i w' = (if c = c' \<and> i = i' then None else active c i w)" using deactivate_spec [OF assms(1)] by metis
  with assms(2,4) Deactivate show ?thesis by auto
qed (use assms in \<open>auto simp: put_reply_def lock_put_reply_def wait_for_completion_def consume_reply_def active_def Let_def
    split: option.splits if_splits\<close>)

text \<open>What the other operations leave of a lock that is active for a request.\<close>

fun spares :: "nat \<Rightarrow> ulong \<Rightarrow> nat \<Rightarrow> 'm lock_op \<Rightarrow> bool" where
  "spares c i l (Put_reply c' i' m) = (c' \<noteq> c \<or> i' \<noteq> i)"
| "spares c i l (Deactivate c' i') = (c' \<noteq> c \<or> i' \<noteq> i)"
| "spares c i l (Consume l') = (l' \<noteq> l)"
| "spares c i l _ = True"

definition holds_reply :: "nat \<Rightarrow> ulong \<Rightarrow> nat \<Rightarrow> 'm option \<Rightarrow> 'm locks \<Rightarrow> bool" where
  "holds_reply c i l m w \<longleftrightarrow> locks_ok w \<and> active c i w = Some l \<and> lk_message (lk_heap w l) = m \<and>
     (m_state (lk_heap w l) = COMPLETED \<longleftrightarrow> m \<noteq> None)"

lemma spared_heap:
  assumes "locks_ok w" "active c i w = Some l" "spares c i l op" "lock_step op w = Inr w'" "op \<noteq> Wait l"
  shows "lk_heap w' l = lk_heap w l"
proof (cases op)
  case (Activate c' i')
  with assms(4) obtain l' where a: "activate_lock c' i' w = Inr (l', w')" by auto
  have "l \<noteq> l'" using activate_spec(3) [OF assms(1) a] assms(2) by auto
  with activate_spec(5) [OF assms(1) a] show ?thesis by simp
next
  case (Deactivate c' i')
  with assms(4) have "deactivate_lock c' i' w = Inr w'" by simp
  then obtain l' where s: "active c' i' w = Some l'" "l \<noteq> l' \<Longrightarrow> lk_heap w' l = lk_heap w l" using deactivate_spec [OF assms(1)] by metis
  have "l \<noteq> l'" using locks_okD(5) [OF assms(1,2), of c' i'] s(1) assms(3) Deactivate by auto
  with s show ?thesis by simp
next
  case (Put_reply c' i' m')
  with assms(3) locks_okD(5) [OF assms(1,2), of c' i'] have "active c' i' w \<noteq> Some l" by auto
  with Put_reply assms(4) show ?thesis by (auto simp: put_reply_def lock_put_reply_def active_def ids.find_map_of split: option.splits)
qed (use assms in \<open>auto simp: wait_for_completion_def consume_reply_def Let_def split: if_splits\<close>)

lemma spares_active: "spares c i l op \<Longrightarrow> op \<noteq> Deactivate c i"
  by auto

lemma spared:
  assumes "holds_reply c i l m w" "spares c i l op" "lock_step op w = Inr w'"
  shows "holds_reply c i l m w'"
proof -
  have w: "locks_ok w" "active c i w = Some l" using assms(1) by (simp_all add: holds_reply_def)
  have w': "locks_ok w'" "active c i w' = Some l"
    using lock_step_ok [OF w(1) assms(3)] stays_active [OF w assms(3)] spares_active [OF assms(2)] by simp_all
  show ?thesis
  proof (cases "op = Wait l")
    case True
    with assms(1,3) w' show ?thesis by (auto simp: holds_reply_def wait_for_completion_def Let_def split: if_splits)
  next
    case False
    with spared_heap [OF w assms(2,3)] assms(1) w' show ?thesis by (simp add: holds_reply_def)
  qed
qed

lemma run_spared: "holds_reply c i l m w \<Longrightarrow> list_all (spares c i l) ops \<Longrightarrow> holds_reply c i l m (run_locks ops w)"
  by (rule run_ops_inv [where P = "holds_reply c i l m"]) (auto simp: list_all_iff intro: spared)

lemma activate_holds: "locks_ok w \<Longrightarrow> activate_lock c i w = Inr (l, w') \<Longrightarrow> holds_reply c i l None w'"
  using activate_spec [of w c i l w'] by (simp add: holds_reply_def)

lemma reply_holds:
  assumes "holds_reply c i l None w"
  shows "put_reply c i m w = (True, lock_put_reply l m w)" "holds_reply c i l (Some m) (lock_put_reply l m w)"
proof -
  show p: "put_reply c i m w = (True, lock_put_reply l m w)"
    using assms by (simp add: put_reply_def holds_reply_def active_def ids.find_map_of)
  then have "locks_ok (lock_put_reply l m w)" using lock_step_ok [of w "Put_reply c i m"] assms by (simp add: holds_reply_def)
  with assms show "holds_reply c i l (Some m) (lock_put_reply l m w)"
    by (auto simp: holds_reply_def lock_put_reply_def set_completed_def active_def)
qed

section \<open>Properties\<close>

lemma post_inc_mod:
  "post_inc (of_nat (j mod (2 ^ 32 - 1))) = (of_nat (j mod (2 ^ 32 - 1)), of_nat (Suc j mod (2 ^ 32 - 1)))"
proof -
  let ?M = "2 ^ 32 - 1 :: nat"
  have lt: "j mod ?M < ?M" by simp
  have rsv: "(of_nat n + 1 :: ulong) = RESERVED \<longleftrightarrow> Suc n = ?M" if "n < ?M" for n
  proof -
    have "RESERVED = of_nat ?M" by (simp add: RESERVED_def)
    moreover have "(of_nat n + 1 :: ulong) = of_nat (Suc n)" by simp
    ultimately show ?thesis using that by (simp add: word_unat_eq_iff unsigned_of_nat take_bit_nat_eq_self del: of_nat_Suc)
  qed
  show ?thesis
  proof (cases "Suc (j mod ?M) = ?M")
    case True
    then have "Suc j mod ?M = 0" by (simp add: mod_Suc)
    with True rsv [OF lt] show ?thesis by (simp add: post_inc_def Let_def RESERVED_def)
  next
    case False
    then have "Suc j mod ?M = Suc (j mod ?M)" by (simp add: mod_Suc)
    with False rsv [OF lt] show ?thesis by (simp add: post_inc_def Let_def)
  qed
qed

lemma generated_ids_eq:
  "generated_ids n (of_nat (j mod (2 ^ 32 - 1))) = map (\<lambda>k. of_nat (k mod (2 ^ 32 - 1))) [j..<j + n]"
proof (induction n arbitrary: j)
  case (Suc n)
  show ?case unfolding generated_ids.simps post_inc_mod prod.case Suc.IH by (simp add: upt_conv_Cons del: upt_Suc)
qed simp

lemma run_locks_ok: "locks_ok w \<Longrightarrow> locks_ok (run_locks ops w)"
  by (rule run_ops_inv [where P = locks_ok]) (auto dest: lock_step_ok)

lemma end_consumes:
  assumes "holds_reply c i l (Some m) w"
  shows "fst (request_end c i l w) = Inr (Some m) \<and> active c i (snd (request_end c i l w)) = None"
proof -
  have w: "active c i w = Some l" "lk_message (lk_heap w l) = Some m" "m_state (lk_heap w l) = COMPLETED" "locks_ok w"
    using assms by (simp_all add: holds_reply_def)
  let ?w = "snd (consume_reply l w)"
  have ok: "locks_ok ?w" using lock_step_ok [of w "Consume l"] w(4) by simp
  have "active c i ?w = Some l" using w(1) by (simp add: consume_reply_def active_def)
  then obtain w' where d: "deactivate_lock c i ?w = Inr w'"
    by (auto simp: deactivate_lock_def Let_def active_def ids.find_map_of split: option.splits)
  with ok have "active c i w' = None" using deactivate_spec [OF ok d] by metis
  with d w show ?thesis by (simp add: request_end_def consume_reply_def)
qed

text \<open>C15. Whatever the threads of all connections do with the locks, no lock is ever waited for by two requests, of one
  connection or of two; a lock in the pool is not active and holds no reply; and an active lock has the id of its request.\<close>

theorem locks_invariant: "locks_ok (run_locks ops no_locks)"
  by (rule run_locks_ok) (rule no_locks_ok)

text \<open>C14. A reply reaches the thread that sent its request, whatever the other threads do in between. After request \<open>i\<close> of
  connection \<open>c\<close> was given a lock, the lock holds no reply, not even one that a previous owner of the lock did not take;
  when the reply \<open>m\<close> with this id comes, it is accepted, and the thread gets \<open>m\<close> and releases the lock.\<close>

theorem reply_delivered:
  assumes "activate_lock c i (run_locks ops no_locks) = Inr (l, w)" "list_all (spares c i l) before" "list_all (spares c i l) after"
  shows "fst (consume_reply l (run_locks before w)) = None \<and>
    (\<exists>w'. put_reply c i m (run_locks before w) = (True, w') \<and>
       fst (request_end c i l (run_locks after w')) = Inr (Some m) \<and>
       active c i (snd (request_end c i l (run_locks after w'))) = None)"
proof -
  have h: "holds_reply c i l None (run_locks before w)"
    using run_spared [OF activate_holds assms(2)] run_locks_ok [OF no_locks_ok] assms(1) by blast
  note r = reply_holds [OF h, of m]
  show ?thesis using end_consumes [OF run_spared [OF r(2) assms(3)]] r(1) h by (auto simp: holds_reply_def consume_reply_def)
qed

text \<open>The ids of a connection count up from zero and start again after \<open>2 ^ 32 - 2\<close>: the id of all ones, which is reserved, is never
  generated, and the same id comes again only after all others.\<close>

theorem ids_skip_reserved:
  "generated_ids n 0 = map (\<lambda>k. of_nat (k mod (2 ^ 32 - 1))) [0..<n] \<and> RESERVED \<notin> set (generated_ids n 0)"
proof -
  have eq: "generated_ids n 0 = map (\<lambda>k. of_nat (k mod (2 ^ 32 - 1))) [0..<n]" using generated_ids_eq [of n 0] by simp
  have "of_nat (k mod (2 ^ 32 - 1)) \<noteq> RESERVED" for k
  proof -
    have "unat (of_nat (k mod (2 ^ 32 - 1)) :: ulong) < 2 ^ 32 - 1"
      using mod_less_divisor [of "2 ^ 32 - 1" k] by (simp add: unsigned_of_nat take_bit_nat_eq_self)
    moreover have "unat RESERVED = 2 ^ 32 - 1" by (simp add: RESERVED_def unsigned_minus_1_eq_mask mask_eq_exp_minus_1)
    ultimately show ?thesis by (metis less_irrefl)
  qed
  with eq show ?thesis by (metis (no_types, lifting) ex_map_conv)
qed

text \<open>When the message of a request cannot be written, \<^verbatim>\<open>send_request\<close> raises \<^verbatim>\<open>RECOVERABLE_COMM_FAILURE\<close> and keeps the lock: the
  request stays in the list and its lock out of the pool for as long as nobody deactivates it, which no code does.\<close>

theorem failed_send_keeps_lock:
  assumes "request_begin c i False (run_locks ops no_locks) = (Inl RECOVERABLE_COMM_FAILURE, w)" "Deactivate c i \<notin> set ops'"
  shows "\<exists>l. active c i (run_locks ops' w) = Some l \<and> l \<notin> set (lk_pool (run_locks ops' w))"
proof -
  let ?w0 = "run_locks ops no_locks"
  obtain l where l: "activate_lock c i ?w0 = Inr (l, w)"
    using assms(1) by (auto simp: request_begin_def activate_lock_def Let_def split: sum.splits if_splits prod.splits)
  have ok0: "locks_ok ?w0" by (rule run_locks_ok) (rule no_locks_ok)
  have "locks_ok (run_locks ops' w) \<and> active c i (run_locks ops' w) = Some l"
  proof (rule run_ops_inv [where P = "\<lambda>w. locks_ok w \<and> active c i w = Some l"])
    show "locks_ok s' \<and> active c i s' = Some l" if "locks_ok s \<and> active c i s = Some l" "op \<in> set ops'" "lock_step op s = Inr s'" for op s s'
      using that assms(2) lock_step_ok [of s op s'] stays_active [of s c i l op s'] by auto
  qed (use activate_spec [OF ok0 l] in simp)
  then show ?thesis using locks_okD(4) by blast
qed

text \<open>The threads that wait when a connection is closed are woken, but a thread that has its lock and does not wait yet is not
  stopped: it sleeps until its time is over, although the list was destroyed before and no reply can come.\<close>

theorem close_misses_thread:
  assumes "activate_lock c i (run_locks ops no_locks) = Inr (l, w)" "list_all (spares c i l) ops'" "Wait l \<notin> set ops'"
  shows "\<exists>w'. wait_for_completion l (lock_list_destroy c (run_locks ops' w)) = Inr (True, w')"
proof -
  have ok: "locks_ok (run_locks ops no_locks)" by (rule run_locks_ok) (rule no_locks_ok)
  let ?P = "\<lambda>w. locks_ok w \<and> active c i w = Some l \<and> m_state (lk_heap w l) = INITIAL"
  have "?P (run_locks ops' w)"
  proof (rule run_ops_inv [where P = ?P])
    show "?P s'" if "?P s" "op \<in> set ops'" "lock_step op s = Inr s'" for op s s'
    proof -
      have "spares c i l op" "op \<noteq> Wait l" "op \<noteq> Deactivate c i" using that(2) assms(2,3) by (auto simp: list_all_iff)
      with that spared_heap [of s c i l op s'] stays_active [of s c i l op s'] lock_step_ok [of s op s'] show ?thesis by auto
    qed
  qed (use activate_spec [OF ok assms(1)] in simp)
  then show ?thesis by (simp add: wait_for_completion_def Let_def)
qed

text \<open>Two connections: request 7 of the first one takes its lock, while request 7 of the second one is answered and done.\<close>

abbreviation sample_before :: "string lock_op list" where
  "sample_before \<equiv> [Activate 2 7, Wait 0, Put_reply 2 7 ''two'', Consume 1, Deactivate 2 7]"

abbreviation sample_after :: "string lock_op list" where
  "sample_after \<equiv> [Activate 2 8, Put_reply 2 8 ''eight'', Put_reply 1 9 ''late'', Wait 0]"

theorem reply_delivered_witness:
  "\<exists>w'. put_reply 1 7 ''one'' (run_locks sample_before (snd (projr (activate_lock 1 7 no_locks)))) = (True, w') \<and>
     fst (request_end 1 7 0 (run_locks sample_after w')) = Inr (Some ''one'')"
proof -
  have "activate_lock 1 7 (run_locks [] no_locks) = Inr (0, snd (projr (activate_lock 1 7 no_locks :: (nat \<times> string locks) res)))"
    by (simp add: no_locks_def lock_defs)
  from reply_delivered [OF this, of sample_before sample_after "''one''"] show ?thesis by auto
qed

theorem failed_send_keeps_lock_witness:
  "\<exists>l. active 1 7 (run_locks [Put_reply 1 7 ''late'', Destroy_list 1] (snd (request_begin 1 7 False no_locks))) = Some l"
proof -
  have "request_begin 1 7 False (run_locks [] no_locks) = (Inl RECOVERABLE_COMM_FAILURE, snd (request_begin 1 7 False (no_locks :: string locks)))"
    by (simp add: no_locks_def lock_defs request_begin_def)
  from failed_send_keeps_lock [OF this, of "[Put_reply 1 7 ''late'', Destroy_list 1]"] show ?thesis by auto
qed

theorem close_misses_thread_witness:
  "\<exists>w'. wait_for_completion 0 (lock_list_destroy 1 (run_locks [Activate 2 7] (snd (projr (activate_lock 1 7 (no_locks :: string locks)))))) =
     Inr (True, w')"
proof -
  have "activate_lock 1 7 (run_locks [] no_locks) = Inr (0, snd (projr (activate_lock 1 7 no_locks :: (nat \<times> string locks) res)))"
    by (simp add: no_locks_def lock_defs)
  from close_misses_thread [OF this, of "[Activate 2 7]"] show ?thesis by simp
qed

end
