(* ===== verification/Comm_Receive.thy ===== *)
theory Comm_Receive
  imports Giop_Header Cdr_Skip
begin

text \<open>
  How a connection receives the octets of a message: \<^verbatim>\<open>Connection::receive_chunk\<close> (\<^verbatim>\<open>core/comm/Connection.C\<close>) with
  \<^verbatim>\<open>TCPConnection::read\<close>, which asks the input stream of the socket again until it has all octets, and the part of
  \<^verbatim>\<open>receive_body\<close> of each kind of message that reads the request id. The socket is a list of the pieces in which it hands
  out its data, at most as much as was asked for; an empty piece is the end of the stream.
\<close>

section \<open>Receiving a chunk\<close>

text \<open>The test for the bounds of the array is the one that \<^verbatim>\<open>InputStream::read\<close> makes. The exceptions of the stream become
  \<^verbatim>\<open>COMM_FAILURE\<close>.\<close>

fun tcp_read :: "octet list list \<Rightarrow> nat \<Rightarrow> nat \<Rightarrow> nat \<Rightarrow> chunk \<Rightarrow> (chunk \<times> octet list list) res" where
  "tcp_read pieces buffer_size offset 0 c = Inr (c, pieces)"
| "tcp_read [] buffer_size offset (Suc n) c = Inl COMM_FAILURE"
| "tcp_read (p # ps) buffer_size offset (Suc n) c =
     (if offset + Suc n > buffer_size then Inl COMM_FAILURE
      else if p = [] then Inl COMM_FAILURE
      else let bs = take (Suc n) p in
        rbind (store c (m_buffer c + offset) bs)
          (tcp_read (if length p > Suc n then drop (Suc n) p # ps else ps) buffer_size (offset + length bs) (Suc n - length bs)))"

definition receive_chunk :: "malloc \<Rightarrow> nat \<Rightarrow> giop_header \<Rightarrow> octet list \<Rightarrow> octet list list \<Rightarrow> (chunk \<times> octet list list) res" where
  "receive_chunk m n h hdr pieces =
     (let body_size = message_size h; chunk_size = body_size + of_nat GIOP_HEADER_SIZE in
      rbind (ChunkCDR m n chunk_size) (\<lambda>c.
      rbind (store c (m_buffer c) hdr) (\<lambda>c.
      rbind (tcp_read pieces (unat chunk_size) GIOP_HEADER_SIZE (unat body_size) c) (\<lambda>(c, pieces).
        Inr (chunk_set_available_bytes c chunk_size, pieces)))))"

section \<open>Request ids\<close>

text \<open>The streams that the messages open on the chunk they received.\<close>

definition message_stream :: "bool \<Rightarrow> giop_header \<Rightarrow> chunk \<Rightarrow> iter res" where
  "message_stream local_order h c =
     rbind (CDRInputStream local_order (BufferCDR_of_chunk local_order c None 0)) (\<lambda>it. Inr (set_byte_order (hd_byte_order h) it))"

text \<open>\<^verbatim>\<open>GIOPFragmentedMessage::receive_body\<close>, for requests and replies: before version 1.2 the id is left at zero.\<close>

definition fragmented_receive_body :: "bool \<Rightarrow> giop_header \<Rightarrow> chunk \<Rightarrow> (ulong \<times> iter) res" where
  "fragmented_receive_body local_order h c =
     rbind (message_stream local_order h c) (\<lambda>it.
     rbind (set_message in_skip True (set_version (hd_version h) it)) (\<lambda>it.
       if Version_eq (hd_version h) VERSION_1_2 then read_ulong it else Inr (0, it)))"

definition fragment_receive_body :: "bool \<Rightarrow> giop_header \<Rightarrow> chunk \<Rightarrow> ulong res" where
  "fragment_receive_body local_order h c =
     (if Version_ge (hd_version h) VERSION_1_2 then
        rbind (message_stream local_order h c) (\<lambda>it.
        rbind (in_skip GIOP_HEADER_SIZE it) (\<lambda>it.
        rbind (read_ulong it) (\<lambda>(i, it). Inr i)))
      else Inr 0)"

definition cancel_receive_body :: "bool \<Rightarrow> giop_header \<Rightarrow> chunk \<Rightarrow> ulong res" where
  "cancel_receive_body local_order h c =
     rbind (message_stream local_order h c) (\<lambda>it. rbind (read_ulong it) (\<lambda>(i, it). Inr i))"

section \<open>Facts\<close>

text \<open>The stream fills a chunk from the offset with what the socket hands out.\<close>

lemma tcp_read_fills:
  assumes "chunk_wf c" "buffer_size = unat (m_length c)" "offset + len \<le> buffer_size" "len \<le> length (concat pieces)" "[] \<notin> set pieces"
  shows "\<exists>c' rest. tcp_read pieces buffer_size offset len c = Inr (c', rest) \<and> concat rest = drop len (concat pieces) \<and>
    chunk_wf c' \<and> m_length c' = m_length c \<and> m_buffer c' = m_buffer c \<and>
    chunk_upto c' (m_buffer c + offset + len) = chunk_upto c (m_buffer c + offset) @ take len (concat pieces)"
  using assms
proof (induction pieces buffer_size offset len c rule: tcp_read.induct)
  case (3 p ps buffer_size offset n c)
  let ?bs = "take (Suc n) p" and ?ps = "if length p > Suc n then drop (Suc n) p # ps else ps"
  have len: "length ?bs = min (length p) (Suc n)" by (simp add: min.commute)
  have "m_buffer c + offset + length ?bs \<le> m_buffer_end c" using "3.prems" by (simp add: chunk_wf_def)
  then obtain c1 where c1: "store c (m_buffer c + offset) ?bs = Inr c1"
    using store_succeeds [OF "3.prems"(1), of "m_buffer c + offset" ?bs] by auto
  note f = store_frame [OF c1] and w = store_wf [OF "3.prems"(1) c1]
  have ne: "p \<noteq> []" "\<not> offset + Suc n > buffer_size" using "3.prems"(3,5) by auto
  have tot: "Suc n \<le> length p + length (concat ps)" using "3.prems"(4) by simp
  have pre: "offset + length ?bs + (Suc n - length ?bs) \<le> buffer_size" "Suc n - length ?bs \<le> length (concat ?ps)" "[] \<notin> set ?ps"
    using "3.prems"(3,5) tot len by (auto simp: min_def)
  have cat: "concat ?ps = drop (length ?bs) (p @ concat ps)" "?bs @ take (Suc n - length ?bs) (concat ?ps) = take (Suc n) (p @ concat ps)"
    "drop (Suc n - length ?bs) (concat ?ps) = drop (Suc n) (p @ concat ps)"
    by (auto simp: min_def)
  have up: "chunk_upto c1 (m_buffer c + (offset + length ?bs)) = chunk_upto c (m_buffer c + offset) @ ?bs"
    using chunk_upto_store [OF "3.prems"(1) _ c1] by (simp add: add.assoc)
  have eq: "m_buffer c + (offset + length ?bs) + (Suc n - length ?bs) = m_buffer c + offset + Suc n" using len by simp
  obtain c' rest where r: "tcp_read ?ps buffer_size (offset + length ?bs) (Suc n - length ?bs) c1 = Inr (c', rest)"
    "concat rest = drop (Suc n - length ?bs) (concat ?ps)" "chunk_wf c'" "m_length c' = m_length c1" "m_buffer c' = m_buffer c1"
    "chunk_upto c' (m_buffer c1 + (offset + length ?bs) + (Suc n - length ?bs)) =
      chunk_upto c1 (m_buffer c1 + (offset + length ?bs)) @ take (Suc n - length ?bs) (concat ?ps)"
    using "3.IH" [OF ne(2,1) refl c1 w _ pre] "3.prems"(2) f(4) by auto
  have "tcp_read (p # ps) buffer_size offset (Suc n) c = Inr (c', rest)" using ne c1 r(1) by (simp add: Let_def)
  moreover have "chunk_upto c' (m_buffer c + offset + Suc n) = chunk_upto c (m_buffer c + offset) @ take (Suc n) (p @ concat ps)"
    using r(6) unfolding f(2) eq up append_assoc cat(2) .
  ultimately show ?case using r(2-5) f cat(3) by auto
qed auto

lemma tcp_read_overflows:
  assumes "m_real_buffer c \<le> m_buffer c" "offset + len \<le> buffer_size" "[] \<notin> set pieces"
    "length (m_bytes c) < offset + length (concat pieces)" "length (m_bytes c) < offset + len"
  shows "tcp_read pieces buffer_size offset len c = Inl OUT_OF_BOUNDS \<or> length (m_bytes c) < offset"
  using assms
proof (induction pieces buffer_size offset len c rule: tcp_read.induct)
  case (3 p ps buffer_size offset n c)
  let ?bs = "take (Suc n) p" and ?ps = "if length p > Suc n then drop (Suc n) p # ps else ps"
  have ne: "p \<noteq> []" "\<not> offset + Suc n > buffer_size" using "3.prems"(2,3) by auto
  show ?case
  proof (cases "store c (m_buffer c + offset) ?bs")
    case (Inl e)
    then have "e = OUT_OF_BOUNDS" by (auto simp: store_def Let_def split: if_splits)
    with Inl ne show ?thesis by (simp add: Let_def)
  next
    case (Inr c1)
    note f = store_frame [OF Inr]
    have fits: "\<not> length (m_bytes c1) < offset + length ?bs" using Inr f "3.prems"(1) by (auto simp: store_def Let_def split: if_splits)
    have "tcp_read ?ps buffer_size (offset + length ?bs) (Suc n - length ?bs) c1 = Inl OUT_OF_BOUNDS"
      using "3.IH" [OF ne(2,1) refl Inr] "3.prems" f fits by (auto simp: min_def)
    with ne Inr show ?thesis by (simp add: Let_def)
  qed
qed auto

lemma new_chunk:
  assumes "malloc_ok m" "malloc_total m"
  shows "\<exists>c. ChunkCDR m n s = Inr c \<and> length (m_bytes c) = chunk_alloc_size s \<and> m_real_buffer c \<le> m_buffer c \<and> m_length c = s"
proof -
  obtain a bs where ab: "m n (chunk_alloc_size s) = Some (a, bs)" using assms(2) by (fastforce simp: malloc_total_def)
  with assms(1) have "length bs = chunk_alloc_size s" unfolding malloc_ok_def by blast
  with ab show ?thesis using CDR_align_props(2) [of a] by (simp add: ChunkCDR_def Let_def)
qed

text \<open>The octets a message has and its id.\<close>

lemma message_stream_view:
  assumes "chunk_wf c" "size_ok (m_length c)"
  shows "\<exists>it. message_stream local_order h c = Inr it \<and> in_ok it \<and> in_pos it = 0 \<and> in_data it = chunk_data c \<and>
    wire_order it = hd_byte_order h \<and> m_next it = m_buffer (cur_chunk it) \<and> m_current_chunk_num it = 0"
proof -
  let ?b = "BufferCDR_of_chunk local_order c None 0"
  obtain e where e: "CDRInputStream local_order ?b = Inr e"
    by (auto simp: CDRInputStream_def IteratorCDR_def get_chunk_def BufferCDR_of_chunk_def)
  have start: "m_next e = m_buffer (cur_chunk e)" "m_current_chunk_num e = 0"
    using e by (auto simp: CDRInputStream_def IteratorCDR_def get_chunk_def BufferCDR_of_chunk_def cur_chunk_def)
  have "m_next (set_byte_order x e) = m_next e" "cur_chunk (set_byte_order x e) = cur_chunk e"
    "m_current_chunk_num (set_byte_order x e) = m_current_chunk_num e" for x
    by (simp_all add: set_byte_order_def cur_chunk_def)
  with mono_chunk_stream [OF _ assms e] e start show ?thesis
    by (auto simp: message_stream_def set_byte_order_view BufferCDR_of_chunk_def)
qed

lemma id_after_header:
  assumes "in_ok it" "in_pos it = 0" "in_data it = hdr @ i @ rest" "length hdr = 12" "length i = 4"
  shows "\<exists>it1 it2. in_skip GIOP_HEADER_SIZE it = Inr it1 \<and> read_ulong it1 = Inr (host_long (wire_order it) i, it2)"
proof -
  have "moves it 12 (in_skip 12 it)" using in_skip_moves [OF assms(1), of 12] assms by simp
  then obtain it1 where it1: "in_skip 12 it = Inr it1" "in_ok it1" "same_input it it1" "in_pos it1 = 12"
    using assms(2) by (auto simp: moves_def)
  have "drop (in_pos it1) (in_data it1) = i @ rest" using it1(3,4) assms(3,4) by (simp add: same_input_def)
  from read_long_at [OF it1(2) _ assms(5) this] it1(4)
  obtain it2 where "read_ulong it1 = Inr (host_long (wire_order it1) i, it2)" by auto
  moreover have "wire_order it1 = wire_order it" using it1(3) by (simp add: wire_order_same same_input_def)
  ultimately show ?thesis using it1(1) by (auto simp: GIOP_HEADER_SIZE_def)
qed

lemma view_upd: 
  "in_ok (it\<lparr>m_version := v, m_message := b\<rparr>) = in_ok it" "in_pos (it\<lparr>m_version := v, m_message := b\<rparr>) = in_pos it"
  "in_data (it\<lparr>m_version := v, m_message := b\<rparr>) = in_data it" "wire_order (it\<lparr>m_version := v, m_message := b\<rparr>) = wire_order it"
  by (auto simp: in_ok_def iter_wf_def in_data_def in_pos_def data_before_def cur_chunk_def wire_order_def)

lemma small_alloc: "unat (s + 16) < 16 \<Longrightarrow> chunk_alloc_size s < 16"
proof -
  assume "unat (s + 16) < 16"
  then have "int (unat (s + 16)) < 16" by linarith
  then have lt: "uint (s + 16) < 16" unfolding of_nat_unat .
  moreover have "- (2 ^ 31) \<le> uint (s + 16)" by (rule order_trans [of _ 0]) simp_all
  ultimately have "sint (s + 16) = uint (s + 16)"
    unfolding sint_uint by (intro signed_take_bit_int_eq_self) simp_all
  then have "scast (s + 16) = (word_of_int (uint (s + 16)) :: ulonglong)" by (simp only: scast_eq)
  moreover have "uint (word_of_int (uint (s + 16)) :: ulonglong) = uint (s + 16)"
    unfolding uint_word_of_int_eq by (rule take_bit_int_eq_self) (use lt in simp_all)
  ultimately show ?thesis using lt unfolding chunk_alloc_size_def unat_eq_nat_uint by (simp only: size_defs of_nat_numeral nat_less_iff)
qed

section \<open>Properties\<close>

text \<open>C16. A message of a size that fits an \<^verbatim>\<open>int\<close> is received as it was sent, in whatever pieces the socket hands it out: the chunk has
  the octets of the header and then those of the body, and the octets after the message are left to the next one.\<close>

theorem receive_chunk_complete:
  assumes "malloc_ok m" "malloc_total m" "length hdr = 12" "unat (message_size h) + 28 < 2 ^ 31"
    "length body = unat (message_size h)" "concat pieces = body @ rest" "[] \<notin> set pieces"
  shows "\<exists>c pieces'. receive_chunk m n h hdr pieces = Inr (c, pieces') \<and> chunk_wf c \<and> chunk_data c = hdr @ body \<and> concat pieces' = rest"
proof -
  let ?sz = "message_size h + 12"
  have sz: "unat ?sz = unat (message_size h) + 12" using assms(4) by (simp add: unat_word_ariths)
  then have ok: "size_ok ?sz" using assms(4) by (simp add: size_ok_def)
  obtain c0 where c0: "ChunkCDR m n ?sz = Inr c0" using new_chunk [OF assms(1,2)] by blast
  from ChunkCDR_wf [OF assms(1) ok c0] have w0: "chunk_wf c0" "m_length c0 = ?sz" by auto
  have "m_buffer c0 + length hdr \<le> m_buffer_end c0" using w0 sz assms(3) by (simp add: chunk_wf_def)
  then obtain c1 where c1: "store c0 (m_buffer c0) hdr = Inr c1" using store_succeeds [OF w0(1), of "m_buffer c0" hdr] by auto
  note f = store_frame [OF c1] and w1 = store_wf [OF w0(1) c1]
  have up1: "chunk_upto c1 (m_buffer c1 + 12) = hdr"
    using chunk_upto_store [OF w0(1) _ c1] assms(3) f(2) by (simp add: chunk_upto_def)
  obtain c2 r where r: "tcp_read pieces (unat ?sz) 12 (unat (message_size h)) c1 = Inr (c2, r)" "concat r = rest" "chunk_wf c2"
    "m_length c2 = ?sz" "m_buffer c2 = m_buffer c1" "chunk_upto c2 (m_buffer c1 + 12 + unat (message_size h)) = hdr @ body"
    using tcp_read_fills [OF w1, of "unat ?sz" 12 "unat (message_size h)" pieces] assms(5-7) sz w0(2) f(4) up1 by auto
  let ?c = "chunk_set_available_bytes c2 ?sz"
  have "receive_chunk m n h hdr pieces = Inr (?c, r)" using c0 c1 r(1) by (simp add: receive_chunk_def GIOP_HEADER_SIZE_def Let_def)
  moreover have "chunk_wf ?c" using r(3,4) by (simp add: chunk_wf_def chunk_set_available_bytes_def)
  moreover have "chunk_data ?c = hdr @ body"
    using r(4,5,6) sz by (simp add: chunk_data_upto chunk_set_available_bytes_def chunk_upto_def add.commute add.left_commute)
  ultimately show ?thesis using r(2) by blast
qed

text \<open>C17. For a declared size from \<open>2 ^ 32 - 28\<close> to \<open>2 ^ 32 - 13\<close>, the size of the block wraps around in the constructor of the chunk,
  while the length of the chunk does not: what the peer sends is written beyond the end of a block of less than sixteen octets.\<close>

theorem receive_chunk_overflow:
  assumes "malloc_ok m" "malloc_total m" "length hdr = 12" "2 ^ 32 - 28 \<le> unat (message_size h)" "unat (message_size h) < 2 ^ 32 - 12"
    "4 \<le> length (concat pieces)" "[] \<notin> set pieces"
  shows "receive_chunk m n h hdr pieces = Inl OUT_OF_BOUNDS"
proof -
  let ?sz = "message_size h + 12"
  have sz: "unat ?sz = unat (message_size h) + 12" using assms(5) by (simp add: unat_word_ariths)
  have "unat (?sz + 16) = unat ?sz + 16 - 2 ^ 32"
    using assms(4,5) sz by (simp add: unat_word_ariths le_mod_geq)
  then have k: "unat (?sz + 16) < 16" using assms(5) sz by simp
  then have alloc: "chunk_alloc_size ?sz < 16" by (rule small_alloc)
  obtain c0 where c0: "ChunkCDR m n ?sz = Inr c0" "length (m_bytes c0) = chunk_alloc_size ?sz" "m_real_buffer c0 \<le> m_buffer c0"
    "m_length c0 = ?sz"
    using new_chunk [OF assms(1,2)] by blast
  show ?thesis
  proof (cases "store c0 (m_buffer c0) hdr")
    case (Inl e)
    then have "e = OUT_OF_BOUNDS" by (auto simp: store_def Let_def split: if_splits)
    with Inl c0(1) show ?thesis by (simp add: receive_chunk_def Let_def GIOP_HEADER_SIZE_def)
  next
    case (Inr c1)
    note f = store_frame [OF Inr]
    have "12 \<le> length (m_bytes c1)" using Inr f c0(3) assms(3) by (auto simp: store_def Let_def split: if_splits)
    with tcp_read_overflows [of c1 12 "unat (message_size h)" "unat ?sz" pieces] sz assms(4,6,7) c0 f alloc
    have "tcp_read pieces (unat ?sz) 12 (unat (message_size h)) c1 = Inl OUT_OF_BOUNDS" by simp
    with Inr c0(1) show ?thesis by (simp add: receive_chunk_def Let_def GIOP_HEADER_SIZE_def)
  qed
qed

text \<open>In version 1.2, a message and its fragments have the same id for the receiver, the four octets after their headers in the byte
  order of the message, so that the fragments are added to the message they belong to.\<close>

theorem fragment_id_agrees:
  assumes "chunk_wf c" "size_ok (m_length c)" "chunk_data c = hdr @ i @ rest" "length hdr = 12" "length i = 4" "hd_version h = VERSION_1_2"
  shows "fragment_receive_body local_order h c = Inr (host_long (hd_byte_order h) i) \<and>
    (\<exists>it. fragmented_receive_body local_order h c = Inr (host_long (hd_byte_order h) i, it))"
proof -
  obtain it where it: "message_stream local_order h c = Inr it" "in_ok it" "in_pos it = 0" "in_data it = chunk_data c"
    "wire_order it = hd_byte_order h" "m_next it = m_buffer (cur_chunk it)" "m_current_chunk_num it = 0"
    using message_stream_view [OF assms(1,2)] by blast
  let ?it = "it\<lparr>m_version := VERSION_1_2, m_message := True\<rparr>"
  have msg: "set_message in_skip True (set_version VERSION_1_2 it) = in_skip GIOP_HEADER_SIZE ?it"
    using it(6,7) by (simp add: set_message_def set_version_def cur_chunk_def Let_def)
  have ver: "Version_eq VERSION_1_2 VERSION_1_2" "Version_ge VERSION_1_2 VERSION_1_2"
    by (simp_all add: Version_eq_def Version_ge_def VERSION_1_2_def)
  show ?thesis
    using id_after_header [OF it(2,3), of hdr i rest] id_after_header [of ?it hdr i rest] it assms(3-6) msg ver
    by (auto simp: fragment_receive_body_def fragmented_receive_body_def view_upd)
qed

text \<open>The id of a cancel request is read at the start of the message instead of after its header: it is always made of the
  letters GIOP, and the request that the client gave up is not the one that is cancelled.\<close>

theorem cancel_id_is_magic:
  assumes "chunk_wf c" "size_ok (m_length c)" "chunk_data c = giop_bytes False @ rest"
  shows "cancel_receive_body local_order h c = Inr (if hd_byte_order h then 0x504F4947 else 0x47494F50)"
proof -
  obtain it where it: "message_stream local_order h c = Inr it" "in_ok it" "in_pos it = 0" "in_data it = chunk_data c"
    "wire_order it = hd_byte_order h"
    using message_stream_view [OF assms(1,2)] by blast
  have "drop (in_pos it) (in_data it) = giop_bytes False @ rest" "length (giop_bytes False) = 4"
    using it(3,4) assms(3) by (simp_all add: giop_bytes_def)
  from read_long_at [OF it(2) _ this(2,1)] it(3,5) obtain it' where
    "read_ulong it = Inr (host_long (hd_byte_order h) (giop_bytes False), it')" by auto
  moreover have "host_long (hd_byte_order h) (giop_bytes False) = (if hd_byte_order h then 0x504F4947 else 0x47494F50)"
    by (cases "hd_byte_order h") (simp_all add: host_val_def giop_bytes_def)
  ultimately show ?thesis using it(1) by (simp add: cancel_receive_body_def)
qed

section \<open>Applied to messages\<close>

lemma chunk_of_message:
  assumes "length data < 2 ^ 31 - 16"
  shows "\<exists>c. chunk_wf c \<and> size_ok (m_length c) \<and> chunk_data c = data"
proof -
  define len where "len = (word_of_nat (length data) :: ulong)"
  have len: "length data = unat len" "size_ok len" using assms by (auto simp: len_def unat_of_nat size_ok_def)
  obtain c0 where "ChunkCDR sample_malloc 0 len = Inr c0" using new_chunk [OF sample_malloc_ok] by blast
  from filled_chunk [OF sample_malloc_ok(1) len(2) this len(1)] len(2) show ?thesis by metis
qed

abbreviation header_12 :: "octet list" where
  "header_12 \<equiv> [71, 73, 79, 80, 1, 2, 1, 7, 4, 0, 0, 0]"

abbreviation fragment_header :: giop_header where
  "fragment_header \<equiv> \<lparr>hd_version = VERSION_1_2, hd_byte_order = True, message_type = Fragment, message_size = 4, more_fragments = False,
     compressed = False\<rparr>"

theorem receive_chunk_complete_witness:
  "\<exists>c pieces'. receive_chunk sample_malloc 0 fragment_header header_12 [[7], [0, 0, 0, 71]] = Inr (c, pieces') \<and>
     chunk_data c = header_12 @ [7, 0, 0, 0] \<and> concat pieces' = [71]"
  using receive_chunk_complete [OF sample_malloc_ok, of header_12 fragment_header "[7, 0, 0, 0]" "[[7], [0, 0, 0, 71]]" "[71]" 0] by auto

theorem receive_chunk_overflow_witness:
  "receive_chunk sample_malloc 0 (fragment_header\<lparr>message_size := 4294967276\<rparr>) header_12 [[7], [0, 0, 0, 71]] = Inl OUT_OF_BOUNDS"
  by (rule receive_chunk_overflow [OF sample_malloc_ok]) simp_all

theorem fragment_id_agrees_witness:
  "\<exists>c. chunk_data c = header_12 @ [7, 0, 0, 0] \<and> fragment_receive_body True fragment_header c = Inr 7"
proof -
  obtain c where c: "chunk_wf c" "size_ok (m_length c)" "chunk_data c = header_12 @ [7, 0, 0, 0] @ []"
    using chunk_of_message [of "header_12 @ [7, 0, 0, 0]"] by auto
  from fragment_id_agrees [OF this, of fragment_header True] c(3) show ?thesis by (auto simp: host_val_def)
qed

theorem cancel_id_is_magic_witness:
  "\<exists>c. chunk_data c = header_12 @ [7, 0, 0, 0] \<and> cancel_receive_body True fragment_header c = Inr 0x504F4947"
proof -
  obtain c where c: "chunk_wf c" "size_ok (m_length c)" "chunk_data c = giop_bytes False @ drop 4 (header_12 @ [7, 0, 0, 0])"
    using chunk_of_message [of "header_12 @ [7, 0, 0, 0]"] by (auto simp: giop_bytes_def)
  from cancel_id_is_magic [OF this, of True fragment_header] c(3) show ?thesis by (auto simp: giop_bytes_def)
qed

end
