(* ===== verification/Comm_Connection.thy ===== *)
theory Comm_Connection
  imports Comm_Locks Comm_Receive
begin

text \<open>
  A connection (\<^verbatim>\<open>core/comm/Connection.C\<close>): its state (\<^verbatim>\<open>ConnectionState.C\<close>), how it is closed, and what it does with the
  messages it receives, the ones in fragments included (\<^verbatim>\<open>FragmentedMessagesRepository.C\<close>, \<^verbatim>\<open>GIOPFragmentedMessage.C\<close>).
  The model has one connection. The manager keeps one repository of incomplete messages for all connections, with the
  connection and the request id as the key; here the key is the id alone, since the order of the keys is that of the ids for messages
  of one connection, and no order for messages of several, as is shown below.
\<close>

section \<open>Connection state\<close>

type_synonym failure = string

datatype conn_status = OPEN_STATE | CLOSING_STATE | ERROR_STATE

record conn_state =
  cs_state :: conn_status
  connection_error :: "failure option"

definition ConnectionState :: conn_state where
  "ConnectionState = \<lparr>cs_state = OPEN_STATE, connection_error = None\<rparr>"

definition set_closing :: "conn_state \<Rightarrow> bool \<times> conn_state" where
  "set_closing s = (if cs_state s \<noteq> OPEN_STATE then (False, s) else (True, s\<lparr>cs_state := CLOSING_STATE\<rparr>))"

definition is_open :: "conn_state \<Rightarrow> bool" where
  "is_open s = (cs_state s = OPEN_STATE)"

definition set_error :: "failure \<Rightarrow> conn_state \<Rightarrow> bool \<times> conn_state" where
  "set_error e s = (if cs_state s = ERROR_STATE then (False, s)
     else (cs_state s \<noteq> CLOSING_STATE, s\<lparr>cs_state := ERROR_STATE, connection_error := Some e\<rparr>))"

text \<open>The exceptions of the two verifications; the error of a connection in the error state is there.\<close>

fun verify_reply :: "conn_state \<Rightarrow> failure option" where
  "verify_reply s = (case cs_state s of OPEN_STATE \<Rightarrow> None | CLOSING_STATE \<Rightarrow> Some ''Connection is closed.'' | ERROR_STATE \<Rightarrow> connection_error s)"

fun verify_request :: "conn_state \<Rightarrow> failure option" where
  "verify_request s = (case cs_state s of OPEN_STATE \<Rightarrow> None | CLOSING_STATE \<Rightarrow> Some ''Connection is closed.'' | ERROR_STATE \<Rightarrow> connection_error s)"

section \<open>Messages in fragments\<close>

text \<open>A message after \<^verbatim>\<open>receive_body\<close>: its header, its request id, the chunks it has so far, and the listen points in its
  bidirectional service contexts.\<close>

record giop_msg =
  g_header :: giop_header
  g_id :: ulong
  g_chunks :: "chunk list"
  message_completed :: bool
  g_contexts :: "nat list list"

definition received :: "giop_header \<Rightarrow> ulong \<Rightarrow> chunk \<Rightarrow> nat list list \<Rightarrow> giop_msg" where
  "received h i c ctx = \<lparr>g_header = h, g_id = i, g_chunks = [c], message_completed = (\<not> hasMoreFragments h), g_contexts = ctx\<rparr>"

abbreviation g_type :: "giop_msg \<Rightarrow> MsgType" where
  "g_type m \<equiv> message_type (g_header m)"

abbreviation g_more :: "giop_msg \<Rightarrow> bool" where
  "g_more m \<equiv> hasMoreFragments (g_header m)"

definition msg_add_fragment :: "giop_msg \<Rightarrow> giop_msg \<Rightarrow> giop_msg res" where
  "msg_add_fragment f m =
     (if message_completed m then Inl MARSHAL
      else if g_chunks m = [] then Inl INTERNAL
      else Inr (m\<lparr>g_chunks := g_chunks m @ take 1 (g_chunks f), message_completed := \<not> g_more f\<rparr>))"

type_synonym repository = "(ulong, giop_msg) use_table"

text \<open>\<^verbatim>\<open>MessageId::operator<\<close>, on the address of the connection and the request id.\<close>

definition MessageId_lt :: "nat \<times> ulong \<Rightarrow> nat \<times> ulong \<Rightarrow> bool" where
  "MessageId_lt a b = (if snd a < snd b then True else fst a < fst b)"

text \<open>The holders of the messages can always be removed.\<close>

definition canBeRemoved :: "giop_msg \<Rightarrow> bool" where
  "canBeRemoved m = True"

definition put_message :: "bool \<Rightarrow> ulong \<Rightarrow> giop_msg \<Rightarrow> repository \<Rightarrow> repository res" where
  "put_message destroyed i m t = (if destroyed then Inl INTERNAL
     else (case append_object RequestId_lt canBeRemoved i m t of (removed, t, ok) \<Rightarrow> Inr t))"

text \<open>The message in the holder is changed in place, which leaves the round of the entry as it is.\<close>

definition set_message_of :: "ulong \<Rightarrow> giop_msg \<Rightarrow> repository \<Rightarrow> repository" where
  "set_message_of i m t = t\<lparr>ut_use := map (\<lambda>(k, v, r). (k, if k = i then m else v, r)) (ut_use t)\<rparr>"

definition add_fragment :: "bool \<Rightarrow> ulong \<Rightarrow> giop_msg \<Rightarrow> repository \<Rightarrow> (giop_msg option \<times> repository) res" where
  "add_fragment destroyed i f t = (if destroyed then Inl INTERNAL
     else (case ut_get RequestId_lt i t of None \<Rightarrow> Inr (None, t)
       | Some m \<Rightarrow> rbind (msg_add_fragment f m) (\<lambda>m.
           if \<not> g_more f then Inr (Some m, snd (ut_remove RequestId_lt i (set_message_of i m t)))
           else Inr (None, set_message_of i m t))))"

definition repository_remove :: "ulong \<Rightarrow> repository \<Rightarrow> repository" where
  "repository_remove i t = (case ut_get RequestId_lt i t of None \<Rightarrow> t | Some m \<Rightarrow> snd (ut_remove RequestId_lt i t))"

definition repository_destroy :: "repository \<Rightarrow> repository" where
  "repository_destroy t = ut_clear t"

section \<open>Connections\<close>

datatype conn_mode = CLIENT_MODE | SERVER_MODE | BIDIRECTIONAL_MODE

text \<open>\<open>dispatched\<close> are the messages given to \<^verbatim>\<open>dispatch_request\<close>, which puts them into the queue of a POA manager; \<open>closes\<close> counts
  the calls of \<^verbatim>\<open>close\<close>, and \<open>close_sent\<close> the close messages sent. The locks are those of all connections, of which this one is
  number \<open>conn_no\<close>.\<close>

record conn =
  cn_state :: conn_state
  cn_mode :: conn_mode
  current_request_id :: ulong
  heartbeart_req_id :: ulong
  addresses :: "nat set"
  uncompleted_messages :: repository
  repository_destroyed :: bool
  lock_lists :: "giop_msg locks"
  conn_no :: nat
  dispatched :: "giop_msg list"
  closes :: nat
  close_sent :: nat

definition Connection :: "nat \<Rightarrow> conn_mode \<Rightarrow> nat \<Rightarrow> giop_msg locks \<Rightarrow> conn" where
  "Connection c m n w = \<lparr>cn_state = ConnectionState, cn_mode = m, current_request_id = 0, heartbeart_req_id = RESERVED, addresses = {},
     uncompleted_messages = UseTable n, repository_destroyed = False, lock_lists = w, conn_no = c, dispatched = [], closes = 0, close_sent = 0\<rparr>"

text \<open>\<^verbatim>\<open>TCPConnection::close\<close>\<close>

definition close :: "conn \<Rightarrow> conn" where
  "close k = k\<lparr>closes := closes k + 1, lock_lists := lock_list_destroy (conn_no k) (lock_lists k), addresses := {}\<rparr>"

definition close_by_pair :: "conn \<Rightarrow> conn" where
  "close_by_pair k = (case set_closing (cn_state k) of (b, s) \<Rightarrow> let k = k\<lparr>cn_state := s\<rparr> in if b then close k else k)"

definition close_by_manager :: "nat \<Rightarrow> conn \<Rightarrow> conn" where
  "close_by_manager max_connections k = (case set_closing (cn_state k) of (b, s) \<Rightarrow>
     let k = k\<lparr>cn_state := s\<rparr> in
     if b then
       let k = (if cn_mode k \<noteq> CLIENT_MODE then k\<lparr>close_sent := close_sent k + 1\<rparr> else k);
           lock_list_size = length (active_locks (lk_lists (lock_lists k) (conn_no k)));
           k = (if lock_list_size \<noteq> 0 then
                  if lock_list_size = max_connections
                  then k\<lparr>cn_state := snd (set_error ''Connection closed (maximum number of connections reached).'' (cn_state k))\<rparr>
                  else k\<lparr>cn_state := snd (set_error ''Connection closed.'' (cn_state k))\<rparr>
                else k)
       in close k
     else k)"

definition close_by_error :: "failure \<Rightarrow> conn \<Rightarrow> conn" where
  "close_by_error e k = (case set_error e (cn_state k) of (b, s) \<Rightarrow> let k = k\<lparr>cn_state := s\<rparr> in if b then close k else k)"

definition close_by_broken_connection :: "failure \<Rightarrow> conn \<Rightarrow> conn" where
  "close_by_broken_connection e k = (case set_error e (cn_state k) of (b, s) \<Rightarrow> let k = k\<lparr>cn_state := s\<rparr> in if b then close k else k)"

definition set_bidirectional_mode_by_peer :: "nat list \<Rightarrow> conn \<Rightarrow> conn" where
  "set_bidirectional_mode_by_peer listen_points k = k\<lparr>cn_mode := BIDIRECTIONAL_MODE, addresses := addresses k \<union> set listen_points\<rparr>"

definition service_context_received :: "nat list list \<Rightarrow> conn \<Rightarrow> conn" where
  "service_context_received ctx k = fold set_bidirectional_mode_by_peer ctx k"

text \<open>The reply goes to the lock of its request; if there is none, it is dropped.\<close>

definition conn_put_reply :: "ulong \<Rightarrow> giop_msg \<Rightarrow> conn \<Rightarrow> conn" where
  "conn_put_reply i m k = k\<lparr>lock_lists := snd (put_reply (conn_no k) i m (lock_lists k))\<rparr>"

definition dispatch_request :: "giop_msg \<Rightarrow> conn \<Rightarrow> conn" where
  "dispatch_request m k = k\<lparr>dispatched := dispatched k @ [m]\<rparr>"

definition put_uncompleted :: "ulong \<Rightarrow> giop_msg \<Rightarrow> conn \<Rightarrow> conn res" where
  "put_uncompleted i m k =
     rbind (put_message (repository_destroyed k) i m (uncompleted_messages k)) (\<lambda>t. Inr (k\<lparr>uncompleted_messages := t\<rparr>))"

text \<open>The switch at the end of \<^verbatim>\<open>manage_message\<close> for a fragment, when the message is complete.\<close>

definition message_complete :: "ulong \<Rightarrow> giop_msg \<Rightarrow> conn \<Rightarrow> conn" where
  "message_complete i m k = (case g_type m of
     Request \<Rightarrow> dispatch_request m k
   | LocateRequest \<Rightarrow> dispatch_request m k
   | Reply \<Rightarrow> conn_put_reply i m ((service_context_received (g_contexts m) k)\<lparr>current_request_id := 0\<rparr>)
   | LocateReply \<Rightarrow> conn_put_reply i m (k\<lparr>current_request_id := 0\<rparr>)
   | _ \<Rightarrow> k)"

definition manage_fragment :: "giop_msg \<Rightarrow> conn \<Rightarrow> conn res" where
  "manage_fragment f k =
     (let i = (if Version_eq VERSION_1_2 (hd_version (g_header f)) then g_id f else current_request_id k) in
      rbind (add_fragment (repository_destroyed k) i f (uncompleted_messages k)) (\<lambda>(m, t).
        let k = k\<lparr>uncompleted_messages := t\<rparr> in
        Inr (case m of None \<Rightarrow> k | Some m \<Rightarrow> message_complete i m k)))"

definition manage_reply :: "giop_msg \<Rightarrow> conn \<Rightarrow> conn res" where
  "manage_reply m k =
     (if cn_mode k = SERVER_MODE then Inr (close_by_error ''Reply has been received by Server Connection'' k)
      else let i = g_id m in
        if i = heartbeart_req_id k then Inr (k\<lparr>heartbeart_req_id := RESERVED\<rparr>)
        else if g_more m then
          put_uncompleted i m (if Version_eq VERSION_1_1 (hd_version (g_header m)) then k\<lparr>current_request_id := i\<rparr> else k)
        else Inr (conn_put_reply i m (service_context_received (g_contexts m) k)))"

definition manage_locate_reply :: "giop_msg \<Rightarrow> conn \<Rightarrow> conn res" where
  "manage_locate_reply m k =
     (if cn_mode k = SERVER_MODE then Inr (close_by_error ''LocateReply has been received by Server Connection'' k)
      else let i = g_id m in
        if g_more m then
          if Version_le VERSION_1_1 (hd_version (g_header m))
          then Inr (close_by_error ''LocateReply cannot be fragmented in GIOP 1.1.'' k)
          else put_uncompleted i m k
        else Inr (conn_put_reply i m k))"

definition manage_cancel_request :: "giop_msg \<Rightarrow> conn \<Rightarrow> conn res" where
  "manage_cancel_request m k =
     (if cn_mode k = CLIENT_MODE then Inr (close_by_error ''CancelRequest has been received by Client Connection'' k)
      else Inr (k\<lparr>uncompleted_messages := repository_remove (g_id m) (uncompleted_messages k)\<rparr>))"

definition manage_locate_request :: "giop_msg \<Rightarrow> conn \<Rightarrow> conn res" where
  "manage_locate_request m k =
     (if cn_mode k = CLIENT_MODE then Inr (close_by_error ''Request has been received by Client Connection'' k)
      else if g_more m then
        if Version_le VERSION_1_1 (hd_version (g_header m))
        then Inr (close_by_error ''LocateRequest cannot be fragmented in GIOP 1.1.'' k)
        else put_uncompleted (g_id m) m k
      else Inr (dispatch_request m k))"

definition manage_request :: "giop_msg \<Rightarrow> conn \<Rightarrow> conn res" where
  "manage_request m k =
     (if cn_mode k = CLIENT_MODE then Inr (close_by_error ''Request has been received by Client Connection'' k)
      else if g_more m then
        let i = g_id m in
        if Version_eq VERSION_1_1 (hd_version (g_header m)) then
          if current_request_id k \<noteq> 0 then Inr (close_by_error ''Fragment message expected, but Reply received.'' k)
          else put_uncompleted i m (k\<lparr>current_request_id := i\<rparr>)
        else put_uncompleted i m k
      else Inr (dispatch_request m k))"

text \<open>One turn of the loop of \<^verbatim>\<open>receive_message\<close>, after the message was received, or its reception failed with an exception.\<close>

definition manage_message :: "giop_msg \<Rightarrow> conn \<Rightarrow> conn res" where
  "manage_message m k = (case g_type m of
     Request \<Rightarrow> manage_request m k
   | Reply \<Rightarrow> manage_reply m k
   | CancelRequest \<Rightarrow> manage_cancel_request m k
   | LocateRequest \<Rightarrow> manage_locate_request m k
   | LocateReply \<Rightarrow> manage_locate_reply m k
   | Fragment \<Rightarrow> manage_fragment m k
   | CloseConnection \<Rightarrow> Inr (close_by_pair k)
   | MessageError \<Rightarrow> Inr (close_by_error ''Connection closed due to pair message error.'' k))"

fun exception_name :: "exn \<Rightarrow> string" where
  "exception_name MARSHAL = ''MARSHAL''"
| "exception_name INTERNAL = ''INTERNAL''"
| "exception_name NO_MEMORY = ''NO_MEMORY''"
| "exception_name _ = ''UNKNOWN''"

definition receive_turn :: "failure + giop_msg \<Rightarrow> conn \<Rightarrow> conn" where
  "receive_turn r k =
     (if \<not> is_open (cn_state k) then k
      else (case r of Inl e \<Rightarrow> close_by_error e k
        | Inr m \<Rightarrow> (case manage_message m k of Inl e \<Rightarrow> close_by_error (exception_name e) k | Inr k \<Rightarrow> k)))"

section \<open>Closing\<close>

text \<open>What happens to a connection: a turn of its receiving thread, closing by its manager or by a thread that could not
  write, and the operations that threads do with locks.\<close>

datatype conn_event = Turn "failure + giop_msg" | Manager_closes nat | Broken failure | Locks "giop_msg lock_op"

fun conn_step :: "conn_event \<Rightarrow> conn \<Rightarrow> conn res" where
  "conn_step (Turn r) k = Inr (receive_turn r k)"
| "conn_step (Manager_closes n) k = Inr (close_by_manager n k)"
| "conn_step (Broken e) k = Inr (close_by_broken_connection e k)"
| "conn_step (Locks op) k = (if op = Destroy_list (conn_no k) then Inr k
     else rbind (lock_step op (lock_lists k)) (\<lambda>w. Inr (k\<lparr>lock_lists := w\<rparr>)))"

definition conn_ok :: "conn \<Rightarrow> bool" where
  "conn_ok k \<longleftrightarrow> closes k = (if is_open (cn_state k) then 0 else 1) \<and>
     (ll_destroyed (lk_lists (lock_lists k) (conn_no k)) \<longleftrightarrow> \<not> is_open (cn_state k)) \<and>
     (connection_error (cn_state k) \<noteq> None \<longleftrightarrow> cs_state (cn_state k) = ERROR_STATE) \<and>
     locks_ok (lock_lists k) \<and> ids.table_ok (uncompleted_messages k)"

lemma lock_step_destroyed:
  assumes "lock_step op w = Inr w'" "op \<noteq> Destroy_list c"
  shows "ll_destroyed (lk_lists w' c) = ll_destroyed (lk_lists w c)"
proof (cases op)
  case (Activate c' i)
  with assms(1) obtain l where "activate_lock c' i w = Inr (l, w')" by auto
  then show ?thesis
    by (auto simp: activate_lock_def get_lock_def Let_def split: if_splits prod.splits list.splits)
qed (use assms in \<open>auto simp: put_reply_def lock_put_reply_def wait_for_completion_def consume_reply_def deactivate_lock_def put_lock_def
    lock_clear_def lock_list_destroy_def Let_def split: option.splits if_splits\<close>)

lemma destroy_destroys: "ll_destroyed (lk_lists (lock_list_destroy c w) c)"
  by (simp add: lock_list_destroy_def Let_def)

lemma destroy_locks_ok: "locks_ok w \<Longrightarrow> locks_ok (lock_list_destroy c w)"
  using lock_step_ok [of w "Destroy_list c"] by simp

lemmas close_defs = close_by_pair_def close_by_manager_def close_by_error_def close_by_broken_connection_def set_closing_def set_error_def
  is_open_def close_def Let_def

lemma close_ok [inv_intros]:
  assumes "conn_ok k"
  shows "conn_ok (close_by_pair k)" "conn_ok (close_by_manager n k)" "conn_ok (close_by_error e k)" "conn_ok (close_by_broken_connection e k)"
  using assms by (cases "cs_state (cn_state k)"; auto simp: conn_ok_def close_defs destroy_destroys destroy_locks_ok)+

lemma update_ok [inv_intros]:
  assumes "conn_ok k"
  shows "conn_ok (k\<lparr>cn_mode := m, addresses := a\<rparr>)" "conn_ok (k\<lparr>current_request_id := i\<rparr>)" "conn_ok (k\<lparr>heartbeart_req_id := i\<rparr>)"
    "conn_ok (dispatch_request msg k)" "ids.table_ok t \<Longrightarrow> conn_ok (k\<lparr>uncompleted_messages := t\<rparr>)"
  using assms by (simp_all add: conn_ok_def dispatch_request_def)

lemma contexts_ok [inv_intros]: "conn_ok k \<Longrightarrow> conn_ok (service_context_received ctx k)"
  unfolding service_context_received_def
  by (induction ctx arbitrary: k) (simp_all add: set_bidirectional_mode_by_peer_def update_ok)

lemma put_reply_ok [inv_intros]: "conn_ok k \<Longrightarrow> conn_ok (conn_put_reply i m k)"
  using lock_step_ok [of "lock_lists k" "Put_reply (conn_no k) i m"] lock_step_destroyed [of "Put_reply (conn_no k) i m" "lock_lists k" _ "conn_no k"]
  by (simp add: conn_ok_def conn_put_reply_def)

lemma complete_ok: "conn_ok k \<Longrightarrow> conn_ok (message_complete i m k)"
  by (auto simp: message_complete_def split: MsgType.split intro!: put_reply_ok update_ok contexts_ok)

lemma put_uncompleted_ok: "conn_ok k \<Longrightarrow> put_uncompleted i m k = Inr k' \<Longrightarrow> conn_ok k'"
  using ids.append_table_ok [of "uncompleted_messages k" canBeRemoved i m]
  by (auto simp: conn_ok_def put_uncompleted_def put_message_def split: prod.splits if_splits)

lemma set_message_ok: "ids.table_ok t \<Longrightarrow> ids.table_ok (set_message_of i m t)"
  by (auto simp: ids.table_ok_def ids.rounds_ok_def set_message_of_def ids.ordered_def sorted_wrt_map case_prod_beta')

lemma add_fragment_ok: "ids.table_ok t \<Longrightarrow> add_fragment d i f t = Inr (r, t') \<Longrightarrow> ids.table_ok t'"
  by (auto simp: add_fragment_def split: if_splits option.splits intro: set_message_ok ids.remove_table_ok)

lemma manage_ok:
  assumes "conn_ok k" "manage_message m k = Inr k'"
  shows "conn_ok k'"
proof (cases "g_type m")
  case Fragment
  with assms(2) obtain r t i where a: "add_fragment (repository_destroyed k) i m (uncompleted_messages k) = Inr (r, t)" and
    k': "k' = (case r of None \<Rightarrow> k\<lparr>uncompleted_messages := t\<rparr> | Some x \<Rightarrow> message_complete i x (k\<lparr>uncompleted_messages := t\<rparr>))"
    by (auto simp: manage_message_def manage_fragment_def Let_def)
  have "conn_ok (k\<lparr>uncompleted_messages := t\<rparr>)" using assms(1) add_fragment_ok [OF _ a] by (simp add: conn_ok_def)
  with k' show ?thesis by (auto split: option.split intro: complete_ok)
next
  case Reply
  with assms show ?thesis
    by (auto simp: manage_message_def manage_reply_def Let_def split: if_splits intro: inv_intros put_uncompleted_ok)
next
  case CancelRequest
  have "ids.table_ok (repository_remove i (uncompleted_messages k))" for i
    using assms(1) ids.remove_table_ok by (auto simp: conn_ok_def repository_remove_def split: option.split)
  with CancelRequest assms show ?thesis
    by (auto simp: manage_message_def manage_cancel_request_def split: if_splits intro: inv_intros)
qed (use assms in \<open>auto simp: manage_message_def manage_locate_request_def manage_locate_reply_def manage_request_def Let_def
    split: if_splits intro: inv_intros put_uncompleted_ok\<close>)

lemma conn_step_ok: "conn_ok k \<Longrightarrow> conn_step ev k = Inr k' \<Longrightarrow> conn_ok k'"
proof (cases ev)
  case (Turn r)
  assume "conn_ok k" "conn_step ev k = Inr k'"
  with Turn show ?thesis by (auto simp: receive_turn_def split: sum.splits if_splits intro: inv_intros manage_ok)
next
  case (Locks op)
  assume "conn_ok k" "conn_step ev k = Inr k'"
  with Locks lock_step_ok [of "lock_lists k" op] lock_step_destroyed [of op "lock_lists k" _ "conn_no k"]
  show ?thesis by (auto simp: conn_ok_def split: if_splits)
qed (auto intro: inv_intros)

section \<open>Reassembly\<close>

text \<open>What a server connection should do with requests in fragments: the requests not yet complete by their id, and the ones
  dispatched.\<close>

definition extended :: "giop_msg \<Rightarrow> giop_msg \<Rightarrow> giop_msg" where
  "extended f m = m\<lparr>g_chunks := g_chunks m @ take 1 (g_chunks f), message_completed := \<not> g_more f\<rparr>"

fun spec_message :: "giop_msg \<Rightarrow> (ulong \<rightharpoonup> giop_msg) \<times> giop_msg list \<Rightarrow> (ulong \<rightharpoonup> giop_msg) \<times> giop_msg list" where
  "spec_message m (P, D) = (case g_type m of
     Request \<Rightarrow> if g_more m then (P(g_id m \<mapsto> m), D) else (P, D @ [m])
   | Fragment \<Rightarrow> (case P (g_id m) of None \<Rightarrow> (P, D)
       | Some x \<Rightarrow> if g_more m then (P(g_id m \<mapsto> extended m x), D) else (P(g_id m := None), D @ [extended m x]))
   | CancelRequest \<Rightarrow> (P(g_id m := None), D)
   | _ \<Rightarrow> (P, D))"

definition conn_abs :: "conn \<Rightarrow> (ulong \<rightharpoonup> giop_msg) \<times> giop_msg list" where
  "conn_abs k = (\<lambda>i. ut_get RequestId_lt i (uncompleted_messages k), dispatched k)"

text \<open>A message that a server connection receives in version 1.2, and a connection that has space for \<open>n\<close> more messages in fragments
  before the oldest ones are thrown away.\<close>

definition server_msg :: "giop_msg \<Rightarrow> bool" where
  "server_msg m \<longleftrightarrow> (g_type m = Request \<or> g_type m = Fragment \<or> g_type m = CancelRequest) \<and> hd_version (g_header m) = VERSION_1_2 \<and>
     message_completed m = (\<not> g_more m) \<and> g_chunks m \<noteq> []"

definition serving :: "nat \<Rightarrow> conn \<Rightarrow> bool" where
  "serving n k \<longleftrightarrow> is_open (cn_state k) \<and> cn_mode k \<noteq> CLIENT_MODE \<and> \<not> repository_destroyed k \<and>
     ids.ordered (ut_use (uncompleted_messages k)) \<and>
     5 * (length (ut_use (uncompleted_messages k)) + n) \<le> 4 * ut_max (uncompleted_messages k) \<and>
     (\<forall>i m. fst (conn_abs k) i = Some m \<longrightarrow> g_type m = Request \<and> \<not> message_completed m \<and> g_chunks m \<noteq> [])"

lemma assign_at_most: "length (map_assign lt k v t) \<le> Suc (length t)"
  by (induction t) auto

lemma erase_at_most: "length (map_erase lt k t) \<le> length t"
  by (induction t) auto

lemma set_message_map_of:
  "map_of (ut_use (set_message_of i m t)) j = map_option (\<lambda>(v, r). (if j = i then m else v, r)) (map_of (ut_use t) j)"
proof -
  have "map_of (map (\<lambda>(k, v, r). (k, if k = i then m else v, r)) es) j = map_option (\<lambda>(v, r). (if j = i then m else v, r)) (map_of es j)"
    for es :: "(ulong, giop_msg) entry list" by (induction es) auto
  then show ?thesis by (simp add: set_message_of_def)
qed

lemma set_message_shape:
  "ids.ordered (ut_use (set_message_of i m t)) = ids.ordered (ut_use t)" "length (ut_use (set_message_of i m t)) = length (ut_use t)"
  "ut_max (set_message_of i m t) = ut_max t"
  by (simp_all add: set_message_of_def ids.ordered_def sorted_wrt_map case_prod_beta')

lemma put_effect:
  assumes "ids.ordered (ut_use t)" "5 * (length (ut_use t) + Suc n) \<le> 4 * ut_max t"
  shows "\<exists>t'. put_message False i m t = Inr t' \<and> (\<lambda>j. ut_get RequestId_lt j t') = (\<lambda>j. ut_get RequestId_lt j t)(i \<mapsto> m) \<and>
    ids.ordered (ut_use t') \<and> 5 * (length (ut_use t') + n) \<le> 4 * ut_max t'"
proof -
  have "\<not> above_ratio (length (ut_use t)) (ut_max t)" "length (ut_use t) \<noteq> ut_max t" using assms(2) by (simp_all add: above_ratio_def)
  then have "put_message False i m t = Inr (t\<lparr>ut_use := map_assign RequestId_lt i (m, ut_round t - 1) (ut_use t)\<rparr>)"
    by (simp add: put_message_def append_object_def removeOldObjects_def)
  moreover have "length (map_assign RequestId_lt i (m, ut_round t - 1) (ut_use t)) \<le> Suc (length (ut_use t))" by (rule assign_at_most)
  ultimately show ?thesis
    using assms by (auto simp: ut_get_def ids.find_map_of ids.assign_map_of ids.assign_ordered)
qed

lemma remove_effect:
  assumes "ids.ordered (ut_use t)"
  shows "(\<lambda>j. ut_get RequestId_lt j (snd (ut_remove RequestId_lt i t))) = (\<lambda>j. ut_get RequestId_lt j t)(i := None)"
    "ids.ordered (ut_use (snd (ut_remove RequestId_lt i t)))" "length (ut_use (snd (ut_remove RequestId_lt i t))) \<le> length (ut_use t)"
    "ut_max (snd (ut_remove RequestId_lt i t)) = ut_max t"
  using assms erase_at_most [of RequestId_lt i "ut_use t"]
  by (auto simp: ut_remove_def ut_get_def ids.find_map_of ids.erase_map_of ids.erase_ordered fun_eq_iff split: option.split)

lemma fragment_effect:
  assumes "ids.ordered (ut_use t)" "ut_get RequestId_lt i t = Some x" "\<not> message_completed x" "g_chunks x \<noteq> []"
  shows "\<exists>t'. add_fragment False i f t = Inr (if g_more f then None else Some (extended f x), t') \<and>
    (\<lambda>j. ut_get RequestId_lt j t') = (\<lambda>j. ut_get RequestId_lt j t)(i := if g_more f then Some (extended f x) else None) \<and>
    ids.ordered (ut_use t') \<and> length (ut_use t') \<le> length (ut_use t) \<and> ut_max t' = ut_max t"
proof -
  let ?t = "set_message_of i (extended f x) t"
  have get: "(\<lambda>j. ut_get RequestId_lt j ?t) = (\<lambda>j. ut_get RequestId_lt j t)(i \<mapsto> extended f x)"
    using assms(2) by (auto simp: ut_get_def ids.find_map_of set_message_map_of option.map_id fun_eq_iff split: prod.splits)
  note s = set_message_shape [of i "extended f x" t]
  have o: "ids.ordered (ut_use ?t)" using assms(1) s(1) by simp
  have add: "msg_add_fragment f x = Inr (extended f x)" using assms(3,4) by (simp add: msg_add_fragment_def extended_def)
  show ?thesis
    using remove_effect [OF o, of i] s o assms(2) add get by (auto simp: add_fragment_def)
qed

lemma serving_upd:
  assumes "serving n k" "ids.ordered (ut_use t)" "5 * (length (ut_use t) + n') \<le> 4 * ut_max t"
    "\<And>i m. ut_get RequestId_lt i t = Some m \<Longrightarrow> g_type m = Request \<and> \<not> message_completed m \<and> g_chunks m \<noteq> []"
  shows "serving n' (k\<lparr>uncompleted_messages := t, dispatched := D\<rparr>)"
  using assms by (simp add: serving_def conn_abs_def)

lemma extended_keeps [simp]:
  "g_header (extended f m) = g_header m" "g_id (extended f m) = g_id m" "message_completed (extended f m) = (\<not> g_more f)"
  "g_chunks (extended f m) = g_chunks m @ take 1 (g_chunks f)"
  by (simp_all add: extended_def)

lemma serving_less: "serving (Suc n) k \<Longrightarrow> serving n k"
  by (auto simp: serving_def)

lemma serving_dispatch: "serving n (k\<lparr>dispatched := D\<rparr>) = serving n k"
  by (simp add: serving_def conn_abs_def)

lemma versions: "\<not> Version_eq VERSION_1_1 VERSION_1_2" "Version_eq VERSION_1_2 VERSION_1_2"
  by (simp_all add: Version_eq_def VERSION_1_1_def VERSION_1_2_def)

lemma turn_refines:
  assumes "serving (Suc n) k" "server_msg m"
  shows "serving n (receive_turn (Inr m) k) \<and> conn_abs (receive_turn (Inr m) k) = spec_message m (conn_abs k)"
proof -
  let ?t = "uncompleted_messages k"
  note srv = assms(1) [unfolded serving_def]
  have pend: "g_type x = Request \<and> \<not> message_completed x \<and> g_chunks x \<noteq> []" if "ut_get RequestId_lt i ?t = Some x" for i x
    using srv that by (simp add: conn_abs_def)
  have ver: "hd_version (g_header m) = VERSION_1_2" using assms(2) by (simp add: server_msg_def)
  have turn: "receive_turn (Inr m) k = (case manage_message m k of Inl e \<Rightarrow> close_by_error (exception_name e) k | Inr k \<Rightarrow> k)"
    using srv by (simp add: receive_turn_def)
  have reach: "serving n k' \<and> conn_abs k' = (P, D)"
    if "k' = k\<lparr>uncompleted_messages := t, dispatched := D\<rparr>" "(\<lambda>j. ut_get RequestId_lt j t) = P" "ids.ordered (ut_use t)"
      "5 * (length (ut_use t) + n) \<le> 4 * ut_max t" "\<And>i x. P i = Some x \<Longrightarrow> g_type x = Request \<and> \<not> message_completed x \<and> g_chunks x \<noteq> []"
    for k' t P D
    using serving_upd [OF assms(1) that(3,4), of D] that by (auto simp: conn_abs_def fun_eq_iff)
  have same: "k = k\<lparr>uncompleted_messages := ?t, dispatched := dispatched k\<rparr>" by simp
  consider (whole) "g_type m = Request" "\<not> g_more m" | (first) "g_type m = Request" "g_more m"
    | (stray) "g_type m = Fragment" "ut_get RequestId_lt (g_id m) ?t = None"
    | (part) x where "g_type m = Fragment" "ut_get RequestId_lt (g_id m) ?t = Some x" | (cancel) "g_type m = CancelRequest"
    using assms(2) by (cases "ut_get RequestId_lt (g_id m) ?t") (auto simp: server_msg_def)
  then show ?thesis
  proof cases
    case whole
    then have "receive_turn (Inr m) k = dispatch_request m k" using srv turn by (simp add: manage_message_def manage_request_def)
    with whole serving_less [OF assms(1)] show ?thesis by (simp add: dispatch_request_def serving_dispatch) (simp add: conn_abs_def)
  next
    case first
    obtain t' where t': "put_message False (g_id m) m ?t = Inr t'" "(\<lambda>j. ut_get RequestId_lt j t') = (\<lambda>j. ut_get RequestId_lt j ?t)(g_id m \<mapsto> m)"
      "ids.ordered (ut_use t')" "5 * (length (ut_use t') + n) \<le> 4 * ut_max t'"
      using put_effect [of ?t n "g_id m" m] srv by blast
    have eq: "receive_turn (Inr m) k = k\<lparr>uncompleted_messages := t', dispatched := dispatched k\<rparr>"
      using first srv turn ver versions t'(1) by (simp add: manage_message_def manage_request_def put_uncompleted_def)
    have ok: "g_type x = Request \<and> \<not> message_completed x \<and> g_chunks x \<noteq> []"
      if "((\<lambda>j. ut_get RequestId_lt j ?t)(g_id m \<mapsto> m)) i = Some x" for i x
      using that first assms(2) pend by (auto simp: server_msg_def split: if_splits)
    show ?thesis using reach [OF eq t'(2,3,4) ok] first by (simp add: conn_abs_def)
  next
    case stray
    then have "receive_turn (Inr m) k = k" using srv turn ver versions by (simp add: manage_message_def manage_fragment_def add_fragment_def)
    with stray serving_less [OF assms(1)] show ?thesis by (simp add: conn_abs_def)
  next
    case (part x)
    obtain t' where t': "add_fragment False (g_id m) m ?t = Inr (if g_more m then None else Some (extended m x), t')"
      "(\<lambda>j. ut_get RequestId_lt j t') = (\<lambda>j. ut_get RequestId_lt j ?t)(g_id m := if g_more m then Some (extended m x) else None)"
      "ids.ordered (ut_use t')" "length (ut_use t') \<le> length (ut_use ?t)" "ut_max t' = ut_max ?t"
      using fragment_effect [OF _ part(2), of m] srv pend [OF part(2)] by blast
    have sp: "5 * (length (ut_use t') + n) \<le> 4 * ut_max t'" using srv t'(4,5) by simp
    have eq: "receive_turn (Inr m) k = k\<lparr>uncompleted_messages := t', dispatched := if g_more m then dispatched k else dispatched k @ [extended m x]\<rparr>"
      using part srv turn ver versions t'(1) pend [OF part(2)]
      by (simp add: manage_message_def manage_fragment_def message_complete_def dispatch_request_def)
    have ok: "g_type y = Request \<and> \<not> message_completed y \<and> g_chunks y \<noteq> []"
      if "((\<lambda>j. ut_get RequestId_lt j ?t)(g_id m := if g_more m then Some (extended m x) else None)) i = Some y" for i y
      using that pend [OF part(2)] pend by (auto split: if_splits)
    show ?thesis using reach [OF eq t'(2,3) sp ok] part by (simp add: conn_abs_def)
  next
    case cancel
    let ?r = "repository_remove (g_id m) ?t"
    note e = remove_effect [of ?t "g_id m"]
    have r: "(\<lambda>j. ut_get RequestId_lt j ?r) = (\<lambda>j. ut_get RequestId_lt j ?t)(g_id m := None)" "ids.ordered (ut_use ?r)"
      "length (ut_use ?r) \<le> length (ut_use ?t)" "ut_max ?r = ut_max ?t"
      using srv e by (auto simp: repository_remove_def fun_eq_iff split: option.split)
    have sp: "5 * (length (ut_use ?r) + n) \<le> 4 * ut_max ?r" using srv r(3,4) by simp
    have eq: "receive_turn (Inr m) k = k\<lparr>uncompleted_messages := ?r, dispatched := dispatched k\<rparr>"
      using cancel srv turn by (simp add: manage_message_def manage_cancel_request_def)
    have ok: "g_type x = Request \<and> \<not> message_completed x \<and> g_chunks x \<noteq> []"
      if "((\<lambda>j. ut_get RequestId_lt j ?t)(g_id m := None)) i = Some x" for i x
      using that pend by (auto split: if_splits)
    show ?thesis using reach [OF eq r(1,2) sp ok] cancel by (simp add: conn_abs_def)
  qed
qed

definition receive_all :: "giop_msg list \<Rightarrow> conn \<Rightarrow> conn" where
  "receive_all ms k = fold (\<lambda>m. receive_turn (Inr m)) ms k"

lemma turns_refine:
  assumes "serving (length ms) k" "list_all server_msg ms"
  shows "serving 0 (receive_all ms k) \<and> conn_abs (receive_all ms k) = fold spec_message ms (conn_abs k)"
  using assms unfolding receive_all_def
proof (induction ms arbitrary: k)
  case (Cons m ms)
  with turn_refines [of "length ms" k m] show ?case by simp
qed simp

text \<open>What the specification does with the messages of one id.\<close>

abbreviation of_id :: "ulong \<Rightarrow> giop_msg list \<Rightarrow> giop_msg list" where
  "of_id i ms \<equiv> filter (\<lambda>m. g_id m = i) ms"

definition pending_ids :: "(ulong \<rightharpoonup> giop_msg) \<Rightarrow> bool" where
  "pending_ids P \<longleftrightarrow> (\<forall>i m. P i = Some m \<longrightarrow> g_id m = i)"

lemma spec_pending: "pending_ids P \<Longrightarrow> spec_message m (P, D) = (P', D') \<Longrightarrow> pending_ids P'"
  by (auto simp: pending_ids_def split: MsgType.splits option.splits if_splits)

lemma spec_other:
  assumes "g_id m \<noteq> i" "pending_ids P" "spec_message m (P, D) = (P', D')"
  shows "P' i = P i \<and> of_id i D' = of_id i D"
  using assms by (auto simp: pending_ids_def split: MsgType.splits option.splits if_splits)

lemma spec_others:
  assumes "of_id i ms = []" "pending_ids P" "fold spec_message ms (P, D) = (P', D')"
  shows "of_id i D' = of_id i D"
  using assms
proof (induction ms arbitrary: P D)
  case (Cons m ms)
  obtain P1 D1 where s: "spec_message m (P, D) = (P1, D1)" by (metis surj_pair)
  with Cons.prems Cons.IH [of P1 D1] spec_pending [OF Cons.prems(2) s] spec_other [OF _ Cons.prems(2) s, of i]
  show ?case by (auto simp del: spec_message.simps split: if_splits)
qed simp

text \<open>The fragments of a message up to its last one, and the message that they make.\<close>

fun completes :: "giop_msg list \<Rightarrow> bool" where
  "completes [] = False"
| "completes (f # fs) = (g_type f = Fragment \<and> (if g_more f then completes fs else fs = []))"

definition joined :: "giop_msg \<Rightarrow> giop_msg list \<Rightarrow> giop_msg" where
  "joined m fs = m\<lparr>g_chunks := g_chunks m @ concat (map (\<lambda>f. take 1 (g_chunks f)) fs), message_completed := True\<rparr>"

lemma joined_id [simp]: "g_id (joined m fs) = g_id m"
  by (simp add: joined_def)

lemma joined_Cons: "joined (extended f m) fs = joined m (f # fs)"
  by (simp add: joined_def extended_def)

lemma spec_joins:
  assumes "of_id i ms = fs" "completes fs" "P i = Some m" "pending_ids P" "fold spec_message ms (P, D) = (P', D')"
  shows "of_id i D' = of_id i D @ [joined m fs]"
  using assms
proof (induction ms arbitrary: P D m fs)
  case (Cons f ms)
  obtain P1 D1 where s: "spec_message f (P, D) = (P1, D1)" by (metis surj_pair)
  note p1 = spec_pending [OF Cons.prems(4) s]
  have rest: "fold spec_message ms (P1, D1) = (P', D')" using Cons.prems(5) s by simp
  show ?case
  proof (cases "g_id f = i")
    case False
    with Cons.IH [OF _ _ _ p1 rest] spec_other [OF False Cons.prems(4) s] Cons.prems show ?thesis by simp
  next
    case True
    then obtain fs' where fs: "fs = f # fs'" "of_id i ms = fs'" using Cons.prems(1) by auto
    have m: "g_id m = i" using Cons.prems(3,4) by (simp add: pending_ids_def)
    show ?thesis
    proof (cases "g_more f")
      case more: True
      then have "P1 i = Some (extended f m)" "D1 = D" using s Cons.prems(2,3) fs True by auto
      with Cons.IH [OF fs(2) _ _ p1 rest, of "extended f m"] Cons.prems(2) fs more show ?thesis by (simp add: joined_Cons)
    next
      case last: False
      then have "D1 = D @ [extended f m]" "fs' = []" using s Cons.prems(2,3) fs True by auto
      moreover have "extended f m = joined m [f]" using last by (simp add: joined_def extended_def)
      ultimately show ?thesis using spec_others [OF _ p1 rest, of i] fs m by simp
    qed
  qed
qed simp

lemma spec_reassembles:
  assumes "of_id i ms = m # fs" "g_type m = Request" "g_more m" "completes fs" "pending_ids P" "fold spec_message ms (P, D) = (P', D')"
  shows "of_id i D' = of_id i D @ [joined m fs]"
  using assms
proof (induction ms arbitrary: P D)
  case (Cons x ms)
  obtain P1 D1 where s: "spec_message x (P, D) = (P1, D1)" by (metis surj_pair)
  note p1 = spec_pending [OF Cons.prems(5) s]
  have rest: "fold spec_message ms (P1, D1) = (P', D')" using Cons.prems(6) s by simp
  show ?case
  proof (cases "g_id x = i")
    case False
    with Cons.IH [OF _ Cons.prems(2-4) p1 rest] spec_other [OF False Cons.prems(5) s] Cons.prems(1) show ?thesis by simp
  next
    case True
    then have "x = m" "of_id i ms = fs" using Cons.prems(1) by simp_all
    moreover from this have "P1 i = Some m" "D1 = D" using s Cons.prems(2,3) True by auto
    ultimately show ?thesis using spec_joins [OF _ Cons.prems(4) _ p1 rest] by simp
  qed
qed simp

section \<open>Properties\<close>

lemma new_conn_ok: "conn_ok (Connection c m n no_locks)"
  by (simp add: conn_ok_def Connection_def ConnectionState_def is_open_def no_locks_ok ids.new_table_ok) (simp add: no_locks_def)

text \<open>C13. However a connection comes to an end, by its peer, its manager, a failure to write or a message that may not be received,
  and in whatever order these come, it is closed once; its list of locks is destroyed when it is closed and not before; and it
  has an error exactly in the error state.\<close>

theorem connection_closes_once: "conn_ok (run_ops conn_step evs (Connection c m n no_locks))"
  by (rule run_ops_inv [where P = conn_ok]) (auto intro: conn_step_ok new_conn_ok)



text \<open>The order of the keys of incomplete messages is the order of the request ids for one connection, but for two connections it
  is no order: each of two keys is less than the other if the connections and the ids are in opposite orders. The
  repository is shared by all connections.\<close>

theorem message_id_order:
  "(MessageId_lt (c, i) (c, j) \<longleftrightarrow> i < j) \<and>
   (MessageId_lt a b \<and> MessageId_lt b a \<longleftrightarrow> fst a < fst b \<and> snd b < snd a \<or> fst b < fst a \<and> snd a < snd b)"
  by (auto simp: MessageId_lt_def)

text \<open>Request 7 in three parts, with request 8 between them.\<close>

definition sample_msg :: "MsgType \<Rightarrow> bool \<Rightarrow> ulong \<Rightarrow> nat \<Rightarrow> giop_msg" where
  "sample_msg t b i n = received \<lparr>hd_version = VERSION_1_2, hd_byte_order = True, message_type = t, message_size = 4,
     more_fragments = b, compressed = False\<rparr> i
     \<lparr>m_real_buffer = 0, m_bytes = [], m_buffer = n, m_available_end = 0, m_buffer_end = 0, m_length = 0, m_with_header = False\<rparr> []"

definition sample_msgs :: "giop_msg list" where
  "sample_msgs = [sample_msg Request True 7 1, sample_msg Request True 8 2, sample_msg Fragment True 7 3, sample_msg Fragment False 8 4,
     sample_msg Fragment False 7 5]"

definition sample_conn :: conn where
  "sample_conn = Connection 1 SERVER_MODE 10 no_locks"

lemma sample_serving: "serving (length sample_msgs) sample_conn" "conn_abs sample_conn = (\<lambda>_. None, [])"
  by (simp_all add: sample_conn_def sample_msgs_def serving_def conn_abs_def Connection_def ConnectionState_def is_open_def UseTable_def ids.ordered_def ut_get_def)

lemma sample_simps [simp]: "g_type (sample_msg t b i n) = t" "g_more (sample_msg t b i n) = b" "g_id (sample_msg t b i n) = i"
  by (simp_all add: sample_msg_def received_def hasMoreFragments_def VERSION_1_2_def)

lemma sample_server: "list_all server_msg sample_msgs"
  by (simp add: sample_msgs_def server_msg_def sample_msg_def received_def hasMoreFragments_def)



end
