(* ===== verification/Cdr_Grammar.thy ===== *)
theory Cdr_Grammar
  imports Cdr_Encapsulation Cdr_Skip
begin

text \<open>
  The contract of \<^verbatim>\<open>Cdr_Codec\<close> for structures that the reader holds in another form than the writer: keys, profiles
  and contexts arrive as encapsulations that are opened later. \<open>emits\<close> says what a write appends, \<open>parses\<close> what a
  read makes of it, both compose along the calls of the code, and the locale \<open>cdr_transfer\<close> joins them for one type.
\<close>

type_synonym image = "bool \<Rightarrow> nat \<Rightarrow> octet list \<Rightarrow> bool"

definition img_nil :: image where
  "img_nil order pos bs \<longleftrightarrow> bs = []"

definition img_then :: "image \<Rightarrow> image \<Rightarrow> image" where
  "img_then f g order pos bs \<longleftrightarrow> (\<exists>b c. bs = b @ c \<and> f order pos b \<and> g order (pos + length b) c)"

lemma img_thenE:
  assumes "img_then f g order pos bs"
  obtains b c where "bs = b @ c" "f order pos b" "g order (pos + length b) c"
  using assms by (auto simp: img_then_def)

section \<open>Writing\<close>

definition emits :: "malloc \<Rightarrow> (iter \<Rightarrow> iter res) \<Rightarrow> image \<Rightarrow> bool" where
  "emits m w f \<longleftrightarrow> (\<forall>it. out_ok it \<longrightarrow> writes m it (f (local_byte_order it) (length (out_data it))) (w it))"

named_theorems emit_intros "what the write operations append"

lemma emitsI: "(\<And>it. out_ok it \<Longrightarrow> writes m it (f (local_byte_order it) (length (out_data it))) (w it)) \<Longrightarrow> emits m w f"
  by (simp add: emits_def)

lemma emitsD: "emits m w f \<Longrightarrow> out_ok it \<Longrightarrow> writes m it (f (local_byte_order it) (length (out_data it))) (w it)"
  by (simp add: emits_def)

lemma writes_img_then:
  assumes "writes m it (f (local_byte_order it) (length (out_data it))) r"
    and "\<And>it'. r = Inr it' \<Longrightarrow> out_ok it' \<Longrightarrow> same_mode it it' \<Longrightarrow> writes m it' (g (local_byte_order it') (length (out_data it'))) (k it')"
  shows "writes m it (img_then f g (local_byte_order it) (length (out_data it))) (rbind r k)"
proof -
  have "writes m it (\<lambda>bs. \<exists>b cs. bs = b @ cs \<and> f (local_byte_order it) (length (out_data it)) b \<and>
      g (local_byte_order it) (length (out_data it) + length b) cs) (rbind r k)"
  proof (rule writes_bind [OF assms(1)])
    fix it' b
    assume a: "r = Inr it'" "out_ok it'" "same_mode it it'" "out_data it' = out_data it @ b"
    with assms(2) [OF a(1-3)] show "writes m it' (g (local_byte_order it) (length (out_data it) + length b)) (k it')"
      by (simp add: same_mode_def)
  qed
  then show ?thesis by (rule writes_mono) (simp add: img_then_def)
qed

lemma emits_then [emit_intros]:
  "emits m w f \<Longrightarrow> emits m k g \<Longrightarrow> emits m (\<lambda>it. rbind (w it) k) (img_then f g)"
  by (auto simp: emits_def intro: writes_img_then)

lemma emits_nil [emit_intros]: "emits m Inr img_nil"
  by (simp add: emits_def writes_def img_nil_def)

lemma emits_fail: "alloc_failure m e \<Longrightarrow> emits m (\<lambda>it. Inl e) f"
  by (simp add: emits_def writes_def)

section \<open>Reading\<close>

text \<open>What is read at once is shorter than the largest encapsulation that a buffer of one chunk can hold.\<close>

definition gives :: "iter \<Rightarrow> ('b \<Rightarrow> bool) \<Rightarrow> nat \<Rightarrow> ('b \<times> iter) res \<Rightarrow> bool" where
  "gives it P n r \<longleftrightarrow> (\<exists>x it'. r = Inr (x, it') \<and> P x \<and> in_ok it' \<and> same_input it it' \<and> in_pos it' = in_pos it + n)"

definition parses :: "image \<Rightarrow> (iter \<Rightarrow> ('b \<times> iter) res) \<Rightarrow> ('b \<Rightarrow> bool) \<Rightarrow> bool" where
  "parses f rd P \<longleftrightarrow> (\<forall>it bs rest. in_ok it \<longrightarrow> f (wire_order it) (in_pos it) bs \<longrightarrow> drop (in_pos it) (in_data it) = bs @ rest \<longrightarrow>
     length bs < 2 ^ 31 - 16 \<longrightarrow> gives it P (length bs) (rd it))"

named_theorems parse_intros "what the read operations make of an image"

lemma parsesI:
  "(\<And>it bs rest. in_ok it \<Longrightarrow> f (wire_order it) (in_pos it) bs \<Longrightarrow> drop (in_pos it) (in_data it) = bs @ rest \<Longrightarrow>
     length bs < 2 ^ 31 - 16 \<Longrightarrow> gives it P (length bs) (rd it)) \<Longrightarrow> parses f rd P"
  unfolding parses_def by blast

lemma parsesD:
  assumes "parses f rd P" "in_ok it" "f (wire_order it) (in_pos it) bs" "drop (in_pos it) (in_data it) = bs @ rest" "length bs < 2 ^ 31 - 16"
  obtains x it' where "rd it = Inr (x, it')" "P x" "in_ok it'" "same_input it it'" "in_pos it' = in_pos it + length bs"
    "wire_order it' = wire_order it" "drop (in_pos it') (in_data it') = rest"
proof -
  from assms obtain x it' where r: "rd it = Inr (x, it')" "P x" "in_ok it'" "same_input it it'" "in_pos it' = in_pos it + length bs"
    unfolding parses_def gives_def by blast
  moreover have "wire_order it' = wire_order it" using r(4) by (simp add: same_input_def wire_order_same)
  moreover have "drop (in_pos it') (in_data it') = rest"
    using r(4,5) assms(4) by (simp add: same_input_def add.commute [of "in_pos it"] drop_drop [symmetric] del: drop_drop)
  ultimately show thesis by (rule that)
qed

lemma parses_then [parse_intros]:
  assumes "parses f rd P" "\<And>x. P x \<Longrightarrow> parses g (k x) Q"
  shows "parses (img_then f g) (\<lambda>it. rbind (rd it) (\<lambda>(x, it). k x it)) Q"
proof (rule parsesI)
  fix it bs rest
  assume a: "in_ok it" "img_then f g (wire_order it) (in_pos it) bs" "drop (in_pos it) (in_data it) = bs @ rest" "length bs < 2 ^ 31 - 16"
  then obtain b c where b: "bs = b @ c" "f (wire_order it) (in_pos it) b" "g (wire_order it) (in_pos it + length b) c"
    by (elim img_thenE)
  from a b have l: "drop (in_pos it) (in_data it) = b @ c @ rest" "length b < 2 ^ 31 - 16" "length c < 2 ^ 31 - 16" by auto
  obtain x it' where X: "rd it = Inr (x, it')" "P x" "in_ok it'" "same_input it it'"
    "in_pos it' = in_pos it + length b" "wire_order it' = wire_order it" "drop (in_pos it') (in_data it') = c @ rest"
    by (rule parsesD [OF assms(1) a(1) b(2) l(1,2)])
  have g: "g (wire_order it') (in_pos it') c" using b(3) X(5,6) by simp
  obtain y it2 where "k x it' = Inr (y, it2)" "Q y" "in_ok it2" "same_input it' it2" "in_pos it2 = in_pos it' + length c"
    by (rule parsesD [OF assms(2) [OF X(2)] X(3) g X(7) l(3)])
  with X b show "gives it Q (length bs) (rbind (rd it) (\<lambda>(x, it). k x it))"
    by (auto simp: gives_def intro: same_input_trans)
qed

lemma parses_return [parse_intros]: "P x \<Longrightarrow> parses img_nil (\<lambda>it. Inr (x, it)) P"
  by (auto simp: parses_def gives_def img_nil_def)

lemma parses_last:
  assumes "parses f rd P" "\<And>x. P x \<Longrightarrow> Q (h x)"
  shows "parses f (\<lambda>it. rbind (rd it) (\<lambda>(x, it). Inr (h x, it))) Q"
proof (rule parsesI)
  fix it bs rest
  assume a: "in_ok it" "f (wire_order it) (in_pos it) bs" "drop (in_pos it) (in_data it) = bs @ rest" "length bs < 2 ^ 31 - 16"
  obtain x it' where "rd it = Inr (x, it')" "P x" "in_ok it'" "same_input it it'" "in_pos it' = in_pos it + length bs"
    by (rule parsesD [OF assms(1) a])
  with assms(2) show "gives it Q (length bs) (rbind (rd it) (\<lambda>(x, it). Inr (h x, it)))" by (auto simp: gives_def)
qed

lemma parses_finish:
  assumes "parses f rd P" "\<And>x. P x \<Longrightarrow> \<exists>y. Q y \<and> (\<forall>it. k x it = Inr (y, it))"
  shows "parses f (\<lambda>it. rbind (rd it) (\<lambda>(x, it). k x it)) Q"
proof (rule parsesI)
  fix it bs rest
  assume a: "in_ok it" "f (wire_order it) (in_pos it) bs" "drop (in_pos it) (in_data it) = bs @ rest" "length bs < 2 ^ 31 - 16"
  obtain x it' where "rd it = Inr (x, it')" "P x" "in_ok it'" "same_input it it'" "in_pos it' = in_pos it + length bs"
    by (rule parsesD [OF assms(1) a])
  with assms(2) [of x] show "gives it Q (length bs) (rbind (rd it) (\<lambda>(x, it). k x it))" by (auto simp: gives_def)
qed

text \<open>What is skipped.\<close>

definition passes :: "image \<Rightarrow> (iter \<Rightarrow> iter res) \<Rightarrow> bool" where
  "passes f sk \<longleftrightarrow> (\<forall>it bs rest. in_ok it \<longrightarrow> f (wire_order it) (in_pos it) bs \<longrightarrow> drop (in_pos it) (in_data it) = bs @ rest \<longrightarrow>
     length bs < 2 ^ 31 - 16 \<longrightarrow> moves it (length bs) (sk it))"

lemma passes_parses: "passes f sk \<Longrightarrow> parses f (\<lambda>it. rbind (sk it) (\<lambda>it. Inr ((), it))) (\<lambda>_. True)"
  unfolding passes_def parses_def gives_def moves_def by fastforce

lemma parses_pass [parse_intros]:
  assumes "passes f sk" "parses g k Q"
  shows "parses (img_then f g) (\<lambda>it. rbind (sk it) k) Q"
proof -
  have "parses (img_then f g) (\<lambda>it. rbind (rbind (sk it) (\<lambda>it. Inr ((), it))) (\<lambda>(x, it). k it)) Q"
    by (rule parses_then [OF passes_parses [OF assms(1)]]) (rule assms(2))
  then show ?thesis by (simp add: rbind_assoc)
qed

section \<open>The contract\<close>

text \<open>A sequence of values, element by element.\<close>

fun imgs :: "('a \<Rightarrow> image) \<Rightarrow> 'a list \<Rightarrow> image" where
  "imgs img [] = img_nil"
| "imgs img (v # vs) = img_then (img v) (imgs img vs)"

locale cdr_transfer =
  fixes wr :: "malloc \<Rightarrow> 'a \<Rightarrow> iter \<Rightarrow> iter res"
    and rd :: "iter \<Rightarrow> ('b \<times> iter) res"
    and ok :: "'a \<Rightarrow> bool"
    and img :: "'a \<Rightarrow> image"
    and rel :: "'a \<Rightarrow> 'b \<Rightarrow> bool"
  assumes wr_emits: "malloc_ok m \<Longrightarrow> ok v \<Longrightarrow> emits m (wr m v) (img v)"
    and rd_parses: "ok v \<Longrightarrow> parses (img v) rd (rel v)"
begin

lemma seq_emits: "malloc_ok m \<Longrightarrow> list_all ok vs \<Longrightarrow> emits m (write_seq (wr m) vs) (imgs img vs)"
proof (induction vs)
  case (Cons v vs)
  have "emits m (\<lambda>it. rbind (wr m v it) (write_seq (wr m) vs)) (imgs img (v # vs))"
    using Cons by (auto intro!: emits_then wr_emits)
  then show ?case by (simp add: emits_def)
qed (simp add: emits_def writes_def img_nil_def)

lemma seq_parses:
  "list_all ok vs \<Longrightarrow> parses (imgs img vs) (read_seq (\<lambda>_. rd) (replicate (length vs) ())) (list_all2 rel vs)"
proof (induction vs)
  case Nil
  show ?case by (simp add: parses_def gives_def img_nil_def)
next
  case (Cons v vs)
  have "parses (imgs img (v # vs)) (\<lambda>it. rbind (rd it) (\<lambda>(x, it). rbind (read_seq (\<lambda>_. rd) (replicate (length vs) ()) it)
      (\<lambda>(xs, it). Inr (x # xs, it)))) (list_all2 rel (v # vs))"
    unfolding imgs.simps
  proof (rule parses_then)
    show "parses (img v) rd (rel v)" using Cons.prems by (auto intro: rd_parses)
    fix x assume "rel v x"
    then show "parses (imgs img vs) (\<lambda>it. rbind (read_seq (\<lambda>_. rd) (replicate (length vs) ()) it) (\<lambda>(xs, it). Inr (x # xs, it)))
        (list_all2 rel (v # vs))"
      using Cons by (intro parses_last [where P = "list_all2 rel vs"]) auto
  qed
  then show ?case by (simp add: parses_def)
qed

end

text \<open>A codec is a contract of this form.\<close>

lemma codec_transfer:
  assumes "cdr_codec wr (\<lambda>_. rd) (\<lambda>_. ()) ok (\<lambda>_. True) img val"
  shows "cdr_transfer wr rd ok (\<lambda>v order pos. img order pos v) (\<lambda>v x. x = val v)"
proof
  fix m v assume "malloc_ok m" "ok v"
  then show "emits m (wr m v) (\<lambda>order pos. img order pos v)" by (intro emitsI cdr_codec.wr_step [OF assms]) auto
next
  fix v assume "ok v"
  then show "parses (\<lambda>order pos. img order pos v) rd (\<lambda>x. x = val v)"
    by (intro parsesI) (use cdr_codec.rd_step [OF assms] in \<open>fastforce simp: reads_def gives_def\<close>)
qed

section \<open>Primitive types\<close>

definition octet_img :: "octet \<Rightarrow> image" where "octet_img v order pos = prim_image 1 [v] pos"
definition boolean_img :: "bool \<Rightarrow> image" where "boolean_img v order pos = prim_image 1 [if v then 1 else 0] pos"
definition ushort_img :: "ushort \<Rightarrow> image" where "ushort_img v order pos = word_image 2 order pos v"
definition ulong_img :: "ulong \<Rightarrow> image" where "ulong_img v order pos = word_image 4 order pos v"
definition string_img :: "octet list \<Rightarrow> image" where "string_img v order pos = string_image order pos v"
definition version_img :: "version \<Rightarrow> image" where
  "version_img v order pos bs \<longleftrightarrow> bs = [ucast (ver_major v), ucast (ver_minor v)]"

interpretation t_octet: cdr_transfer write_octet read_octet "\<lambda>_. True" octet_img "\<lambda>v x. x = v"
  using codec_transfer [OF octet.cdr_codec_axioms] by (simp add: octet_img_def [abs_def])

interpretation t_boolean: cdr_transfer write_boolean read_boolean "\<lambda>_. True" boolean_img "\<lambda>v x. x = v"
  using codec_transfer [OF boolean.cdr_codec_axioms] by (simp add: boolean_img_def [abs_def])

interpretation t_ushort: cdr_transfer write_ushort read_ushort "\<lambda>_. True" ushort_img "\<lambda>v x. x = v"
  using codec_transfer [OF ushort.cdr_codec_axioms] by (simp add: ushort_img_def [abs_def])

interpretation t_ulong: cdr_transfer write_ulong read_ulong "\<lambda>_. True" ulong_img "\<lambda>v x. x = v"
  using codec_transfer [OF ulong.cdr_codec_axioms] by (simp add: ulong_img_def [abs_def])

interpretation t_string: cdr_transfer "\<lambda>m s. write_string m (Some s)" read_string string_ok string_img "\<lambda>v x. x = v @ [0]"
  using codec_transfer [OF str.cdr_codec_axioms] by (simp add: string_img_def [abs_def])

lemmas prim_emits [emit_intros] = t_octet.wr_emits [OF _ TrueI] t_boolean.wr_emits [OF _ TrueI] t_ushort.wr_emits [OF _ TrueI]
  t_ulong.wr_emits [OF _ TrueI] t_string.wr_emits

lemmas prim_parses [parse_intros] = t_octet.rd_parses [OF TrueI] t_boolean.rd_parses [OF TrueI] t_ushort.rd_parses [OF TrueI]
  t_ulong.rd_parses [OF TrueI] t_string.rd_parses

lemma skip_string_passes: "string_ok s \<Longrightarrow> passes (string_img s) skip_string"
  by (auto simp: passes_def string_img_def intro: skip_string_moves)

section \<open>Sequences with a count\<close>

text \<open>The loops of the code over a vector: the number of its elements, then each of them.\<close>

definition write_counted :: "(malloc \<Rightarrow> 'a \<Rightarrow> iter \<Rightarrow> iter res) \<Rightarrow> malloc \<Rightarrow> 'a list \<Rightarrow> iter \<Rightarrow> iter res" where
  "write_counted wr m vs it = rbind (write_ulong m (word_of_nat (length vs)) it) (write_seq (wr m) vs)"

definition read_counted :: "(iter \<Rightarrow> ('b \<times> iter) res) \<Rightarrow> iter \<Rightarrow> ('b list \<times> iter) res" where
  "read_counted rd it = rbind (read_ulong it) (\<lambda>(n, it). read_seq (\<lambda>_. rd) (replicate (unat n) ()) it)"

definition counted_img :: "('a \<Rightarrow> image) \<Rightarrow> 'a list \<Rightarrow> image" where
  "counted_img img vs = img_then (ulong_img (word_of_nat (length vs))) (imgs img vs)"

definition counted_ok :: "('a \<Rightarrow> bool) \<Rightarrow> 'a list \<Rightarrow> bool" where
  "counted_ok ok vs \<longleftrightarrow> length vs < 2 ^ 32 \<and> list_all ok vs"

context cdr_transfer
begin

lemma counted: "cdr_transfer (write_counted wr) (read_counted rd) (counted_ok ok) (counted_img img) (list_all2 rel)"
proof
  fix m vs assume "malloc_ok m" "counted_ok ok vs"
  then show "emits m (write_counted wr m vs) (counted_img img vs)"
    unfolding write_counted_def [abs_def] counted_img_def counted_ok_def by (intro emit_intros seq_emits) auto
next
  fix vs assume a: "counted_ok ok vs"
  then have n: "unat (word_of_nat (length vs) :: ulong) = length vs" by (simp add: counted_ok_def unat_of_nat)
  show "parses (counted_img img vs) (read_counted rd) (list_all2 rel vs)"
    unfolding read_counted_def [abs_def] counted_img_def
    by (rule parses_then [OF t_ulong.rd_parses [OF TrueI]]) (use a n seq_parses in \<open>simp add: counted_ok_def\<close>)
qed

end

section \<open>Encapsulations\<close>

text \<open>A buffer that a stream writes: the number of its octets and the octets.\<close>

definition data_img :: "octet list \<Rightarrow> image" where
  "data_img d order pos bs \<longleftrightarrow> (\<exists>p. bs = p @ d \<and> ulong_img (word_of_nat (length d)) order pos p)"

definition buffer_wf :: "buffer \<Rightarrow> bool" where
  "buffer_wf b \<longleftrightarrow> (\<forall>c \<in> set (m_chunks b). chunk_wf c) \<and> packed (m_chunks b)"

lemma write_buffer_emits:
  assumes "malloc_ok m" "buffer_wf b"
  shows "emits m (write_buffer m b) (data_img (buffer_data b))"
proof (rule emitsI)
  fix it assume it: "out_ok it"
  have ok: "\<forall>c \<in> set (m_chunks b). chunk_wf c" "packed (m_chunks b)" using assms(2) by (auto simp: buffer_wf_def)
  have "writes m it (img_then (ulong_img (word_of_nat (length (buffer_data b)))) (\<lambda>order pos bs. bs = buffer_data b)
      (local_byte_order it) (length (out_data it))) (write_buffer m b it)"
    unfolding write_buffer_def buffer_available [OF ok(1)] get_num_available_chunks_def
    by (rule writes_img_then [where f = "ulong_img (word_of_nat (length (buffer_data b)))" and g = "\<lambda>order pos bs. bs = buffer_data b"])
      (use ok it emitsD [OF t_ulong.wr_emits [OF assms(1) TrueI]] write_buffer_loop_writes [OF assms(1)] in
        \<open>simp_all add: buffer_data_def\<close>)
  then show "writes m it (data_img (buffer_data b) (local_byte_order it) (length (out_data it))) (write_buffer m b it)"
    by (rule writes_mono) (auto simp: img_then_def data_img_def)
qed

text \<open>The stream over an encapsulation that was read, behind its byte order.\<close>

definition opened :: "octet list \<Rightarrow> iter \<Rightarrow> bool" where
  "opened d e \<longleftrightarrow> in_ok e \<and> in_data e = d \<and> in_pos e = 1 \<and> wire_order e = (hd d \<noteq> 0) \<and> m_version e = VERSION_1_2 \<and>
     length d < 2 ^ 31 - 16 \<and> d \<noteq> []"

lemma opened_buffer: "opened d e \<Longrightarrow> buffer_wf (m_bufferCDR e) \<and> buffer_data (m_bufferCDR e) = d"
  by (auto simp: opened_def in_ok_def iter_wf_def buffer_wf_def buffer_data_def in_data_def)

lemma read_encapsulation_parses:
  assumes "malloc_ok m" "malloc_total m" "d \<noteq> []"
  shows "parses (data_img d) (read_encapsulation m) (opened d)"
proof (rule parsesI)
  fix it bs rest
  assume a: "in_ok it" "data_img d (wire_order it) (in_pos it) bs" "drop (in_pos it) (in_data it) = bs @ rest" "length bs < 2 ^ 31 - 16"
  then obtain p where p: "bs = p @ d" "word_image 4 (wire_order it) (in_pos it) (word_of_nat (length d) :: ulong) p"
    by (auto simp: data_img_def ulong_img_def)
  with a have l: "length d < 2 ^ 31 - 16" "drop (in_pos it) (in_data it) = (p @ d) @ rest" by auto
  from read_encapsulation_reads [OF a(1) assms(1,2) l(1) assms(3) p(2) l(2)] p l assms(3)
  show "gives it (opened d) (length bs) (read_encapsulation m it)" by (auto simp: gives_def opened_def)
qed

lemma skip_encapsulation_passes: "passes (data_img d) skip_encapsulation"
  unfolding passes_def
proof (intro allI impI)
  fix it bs rest
  assume a: "in_ok it" "data_img d (wire_order it) (in_pos it) bs" "drop (in_pos it) (in_data it) = bs @ rest" "length bs < 2 ^ 31 - 16"
  then obtain p where p: "bs = p @ d" "word_image 4 (wire_order it) (in_pos it) (word_of_nat (length d) :: ulong) p"
    by (auto simp: data_img_def ulong_img_def)
  have n: "unat (word_of_nat (length d) :: ulong) = length d" using a(4) p(1) by (simp add: unat_of_nat)
  have "moves it (length p + length d) (skip_encapsulation it)"
    unfolding skip_encapsulation_def
  proof (rule reads_moves [OF ulong.rd_step [OF a(1) _ _ p(2)]])
    fix it' assume "in_ok it'" "same_input it it'" "in_pos it' = in_pos it + length p"
    then show "moves it' (length d) (case (word_of_nat (length d) :: ulong, it') of (len, it) \<Rightarrow> in_skip (unat len) it)"
      using in_skip_moves [of it' "length d"] word_room [OF p(2), of "in_data it" d rest] p a(3) n by (simp add: same_input_def)
  qed (use a p in auto)
  then show "moves it (length bs) (skip_encapsulation it)" using p(1) by simp
qed

text \<open>The streams that the code creates to write an encapsulation: the byte order, then what \<open>w\<close> writes.\<close>

definition encaps :: "malloc \<Rightarrow> ulong \<Rightarrow> bool \<Rightarrow> (iter \<Rightarrow> iter res) \<Rightarrow> iter res" where
  "encaps m s local_order w =
     rbind (BufferCDR m local_order s None 0) (\<lambda>b.
     rbind (IteratorCDR local_order b) (\<lambda>encapsulation.
     rbind (write_boolean m (m_byte_order encapsulation) encapsulation) w))"

text \<open>The octets of an encapsulation with the image \<open>f\<close>, of a host of either byte order.\<close>

definition content :: "image \<Rightarrow> octet list \<Rightarrow> bool" where
  "content f d \<longleftrightarrow> (\<exists>order body. d = (if order then 1 else 0) # body \<and> f order 1 body)"

definition content_img :: "(octet list \<Rightarrow> bool) \<Rightarrow> image" where
  "content_img C order pos bs \<longleftrightarrow> (\<exists>d. C d \<and> d \<noteq> [] \<and> data_img d order pos bs)"

definition holds :: "(octet list \<Rightarrow> bool) \<Rightarrow> iter \<Rightarrow> bool" where
  "holds C e \<longleftrightarrow> buffer_wf (m_bufferCDR e) \<and> C (buffer_data (m_bufferCDR e)) \<and> buffer_data (m_bufferCDR e) \<noteq> []"

definition makes :: "malloc \<Rightarrow> (octet list \<Rightarrow> bool) \<Rightarrow> iter res \<Rightarrow> bool" where
  "makes m C r \<longleftrightarrow> (case r of Inl e \<Rightarrow> alloc_failure m e | Inr e \<Rightarrow> holds C e)"

lemma encaps_makes:
  assumes "malloc_ok m" "block_ok s"
    and "\<And>e. out_ok e \<Longrightarrow> m_version e = VERSION_1_2 \<Longrightarrow> writes m e (f (local_byte_order e) (length (out_data e))) (w e)"
  shows "makes m (content f) (encaps m s order w)"
proof (cases "BufferCDR m order s None 0")
  case (Inl e)
  then show ?thesis
    by (auto simp: encaps_def makes_def BufferCDR_def ChunkCDR_def Let_def rbind_eq_Inl split: option.splits intro: alloc_failureI)
next
  case (Inr b)
  then obtain e0 where e0: "IteratorCDR order b = Inr e0" by (auto simp: BufferCDR_def IteratorCDR_def get_chunk_def)
  note n = new_stream_ok [OF assms(1,2) Inr e0]
  have mb: "m_byte_order e0 = order" using e0 by (auto simp: IteratorCDR_def split: option.splits)
  have W: "writes m e0 (img_then (boolean_img order) f (local_byte_order e0) (length (out_data e0))) (rbind (write_boolean m order e0) w)"
  proof (rule writes_img_then [where f = "boolean_img order"])
    show "writes m e0 (boolean_img order (local_byte_order e0) (length (out_data e0))) (write_boolean m order e0)"
      by (rule emitsD [OF t_boolean.wr_emits [OF assms(1) TrueI] n(1)])
    fix e1 assume "out_ok e1" "same_mode e0 e1"
    with assms(3) [of e1] n(5) show "writes m e1 (f (local_byte_order e1) (length (out_data e1))) (w e1)" by (simp add: same_mode_def)
  qed
  have run: "encaps m s order w = rbind (write_boolean m order e0) w" using Inr e0 mb by (simp add: encaps_def)
  note W = W [folded run]
  show ?thesis
  proof (cases "encaps m s order w")
    case (Inl x)
    with W show ?thesis by (simp add: makes_def writes_def)
  next
    case (Inr e)
    from W have "writes m e0 (img_then (boolean_img order) f order 0) (Inr e)" by (simp only: Inr n(3,4) list.size)
    then have e: "out_ok e" "settled e" "img_then (boolean_img order) f order 0 (out_data e)" using n(2,3) by (auto simp: writes_def)
    then obtain b c where "out_data e = b @ c" "boolean_img order order 0 b" "f order (0 + length b) c" by (elim img_thenE)
    moreover from this(2) have "b = [if order then 1 else 0]" by (simp add: boolean_img_def octet_image_plain)
    ultimately have "out_data e = (if order then 1 else 0) # c" "f order 1 c" by simp_all
    then have "content f (out_data e)" "out_data e \<noteq> []" unfolding content_def by (blast, simp)
    moreover have "buffer_wf (m_bufferCDR e)"
      using e(1) written_buffer_packed [OF e(1)] by (auto simp: buffer_wf_def out_ok_def iter_wf_def)
    ultimately show ?thesis using Inr written_buffer_data [OF e(1,2)] by (simp add: makes_def holds_def buffer_data_def)
  qed
qed

lemma emits_makes: "malloc_ok m \<Longrightarrow> block_ok s \<Longrightarrow> emits m w f \<Longrightarrow> makes m (content f) (encaps m s order w)"
  by (rule encaps_makes) (auto dest: emitsD)

lemma makes_writes:
  assumes "malloc_ok m" "out_ok it" "makes m C r"
  shows "writes m it (content_img C (local_byte_order it) (length (out_data it))) (rbind r (\<lambda>e. write_buffer m (m_bufferCDR e) it))"
proof (cases r)
  case (Inl e)
  with assms(3) show ?thesis by (simp add: makes_def writes_def)
next
  case (Inr e)
  with assms(3) have "buffer_wf (m_bufferCDR e)" "C (buffer_data (m_bufferCDR e))" "buffer_data (m_bufferCDR e) \<noteq> []"
    by (auto simp: makes_def holds_def)
  note h = this
  have "writes m it (content_img C (local_byte_order it) (length (out_data it))) (write_buffer m (m_bufferCDR e) it)"
    by (rule writes_mono [OF emitsD [OF write_buffer_emits [OF assms(1) h(1)] assms(2)]]) (use h in \<open>auto simp: content_img_def\<close>)
  with Inr show ?thesis by simp
qed

lemma makes_emits [emit_intros]:
  "malloc_ok m \<Longrightarrow> (\<And>order. makes m C (r order)) \<Longrightarrow>
   emits m (\<lambda>it. rbind (r (local_byte_order it)) (\<lambda>e. write_buffer m (m_bufferCDR e) it)) (content_img C)"
  by (intro emitsI makes_writes) auto

lemma makes_emits_after:
  assumes "malloc_ok m" "\<And>order. makes m C (r order)" "emits m pre f"
  shows "emits m (\<lambda>it. rbind (r (local_byte_order it)) (\<lambda>e. rbind (pre it) (write_buffer m (m_bufferCDR e)))) (img_then f (content_img C))"
proof (rule emitsI)
  fix it assume it: "out_ok it"
  show "writes m it (img_then f (content_img C) (local_byte_order it) (length (out_data it)))
    (rbind (r (local_byte_order it)) (\<lambda>e. rbind (pre it) (write_buffer m (m_bufferCDR e))))"
  proof (cases "r (local_byte_order it)")
    case (Inl e)
    with assms(2) [of "local_byte_order it"] show ?thesis by (simp add: makes_def writes_def)
  next
    case (Inr e)
    have "writes m it (img_then f (content_img C) (local_byte_order it) (length (out_data it)))
        (rbind (pre it) (\<lambda>it'. rbind (Inr e) (\<lambda>e. write_buffer m (m_bufferCDR e) it')))"
      by (rule writes_img_then [where f = f]) (use assms it Inr emitsD [OF assms(3) it] makes_writes [OF assms(1), of _ C "Inr e"] in \<open>metis\<close>)+
    with Inr show ?thesis by simp
  qed
qed

lemma holds_makes: "holds C e \<Longrightarrow> makes m C (Inr e)"
  by (simp add: makes_def)

lemma holds_emits [emit_intros]:
  assumes "malloc_ok m" "holds C e"
  shows "emits m (write_buffer m (m_bufferCDR e)) (content_img C)"
  using makes_emits [OF assms(1), of C "\<lambda>_. Inr e"] assms(2) by (simp add: makes_def)

text \<open>Reading and opening.\<close>

definition arrived :: "(octet list \<Rightarrow> bool) \<Rightarrow> iter \<Rightarrow> bool" where
  "arrived C e \<longleftrightarrow> (\<exists>d. C d \<and> opened d e)"

lemma arrived_holds: "arrived C e \<Longrightarrow> holds C e"
  using opened_buffer by (fastforce simp: arrived_def holds_def opened_def)

lemma content_parses [parse_intros]:
  assumes "malloc_ok m" "malloc_total m"
  shows "parses (content_img C) (read_encapsulation m) (arrived C)"
proof (rule parsesI)
  fix it bs rest
  assume a: "in_ok it" "content_img C (wire_order it) (in_pos it) bs" "drop (in_pos it) (in_data it) = bs @ rest" "length bs < 2 ^ 31 - 16"
  then obtain d where d: "C d" "d \<noteq> []" "data_img d (wire_order it) (in_pos it) bs" by (auto simp: content_img_def)
  obtain e it' where "read_encapsulation m it = Inr (e, it')" "opened d e" "in_ok it'" "same_input it it'" "in_pos it' = in_pos it + length bs"
    by (rule parsesD [OF read_encapsulation_parses [OF assms d(2)] a(1) d(3) a(3,4)])
  with d(1) show "gives it (arrived C) (length bs) (read_encapsulation m it)" by (auto simp: gives_def arrived_def)
qed

lemma content_passes: "passes (content_img C) skip_encapsulation"
  using skip_encapsulation_passes unfolding passes_def content_img_def by blast

lemma open_content:
  assumes "arrived (content f) e" "parses f rd P"
  obtains x e' where "rd e = Inr (x, e')" "P x" "in_ok e'" "in_data e' = in_data e"
proof -
  from assms(1) obtain order body where d: "in_ok e" "in_data e = (if order then 1 else 0) # body" "f order 1 body" "in_pos e = 1"
    "wire_order e = order" "length body < 2 ^ 31 - 16"
    by (fastforce simp: arrived_def content_def opened_def split: if_splits)
  then have f: "f (wire_order e) (in_pos e) body" "drop (in_pos e) (in_data e) = body @ []" by auto
  obtain x e' where e': "rd e = Inr (x, e')" "P x" "in_ok e'" "same_input e e'" by (rule parsesD [OF assms(2) d(1) f d(6)])
  show thesis by (rule that [OF e'(1-3)]) (use e'(4) in \<open>simp add: same_input_def\<close>)
qed

text \<open>What has arrived can be written again.\<close>

lemma holds_again: "arrived C e \<Longrightarrow> in_ok e' \<Longrightarrow> in_data e' = in_data e \<Longrightarrow> holds C (rewind e')"
  by (auto simp: arrived_def opened_def holds_def rewind_def goBack_def buffer_wf_def buffer_data_def in_data_def in_ok_def iter_wf_def)

section \<open>Padding\<close>

definition pad_img :: "nat \<Rightarrow> image" where
  "pad_img s order pos bs \<longleftrightarrow> length bs = align_to pos (s - 1) - pos"

lemma fix_next_emits [emit_intros]:
  assumes "malloc_ok m" "prim_size s"
  shows "emits m (fix_next_aligned_position m s) (pad_img s)"
proof (rule emitsI)
  fix it assume it: "out_ok it"
  note w = out_ok_facts [OF it]
  note e = chunk_end_mod [OF w(1,2)]
  let ?a = "m_next it" and ?p = "align_to (m_next it) (s - 1)" and ?c = "cur_chunk it"
  note p = align_to_prim [OF assms(2), of ?a]
  have shift: "align_to (length (out_data it)) (s - 1) - length (out_data it) = ?p - ?a"
    using align_to_shift [OF assms(2) w(6) _ w(3)] e w p by simp
  let ?i = "it\<lparr>m_next := ?p\<rparr>"
  have le: "?p \<le> m_buffer_end ?c" using aligned_le [OF assms(2) p(1), of "m_buffer_end ?c"] prim_room [OF assms(2) p(1) conjunct1 [OF e]]
      p w e by linarith
  from out_move_step [OF it p(2) le] obtain pad where i: "out_ok ?i" "out_data ?i = out_data it @ pad" "length pad = ?p - ?a" by blast
  have done_at: "writes m it (pad_img s (local_byte_order it) (length (out_data it))) (Inr (bump_available it'))"
    if "out_ok it'" "same_mode it it'" "out_data it' = out_data it @ pad" for it'
    using bump_available_step [OF that(1)] that i(3) shift by (auto simp: writes_def pad_img_def intro: same_mode_trans)
  show "writes m it (pad_img s (local_byte_order it) (length (out_data it))) (fix_next_aligned_position m s it)"
  proof (cases "?p < m_buffer_end ?c")
    case True
    with done_at [of ?i] i show ?thesis by (simp add: fix_next_aligned_position_def go_next_aligned_position_def)
  next
    case False
    then have run: "fix_next_aligned_position m s it = rbind (out_get_next_chunk m ?i) (\<lambda>it. Inr (bump_available it))"
      unfolding out_get_next_chunk_next by (simp add: fix_next_aligned_position_def go_next_aligned_position_def)
    show ?thesis
    proof (cases "out_get_next_chunk m ?i")
      case (Inl x)
      with out_get_next_chunk_error [OF i(1)] run show ?thesis by (simp add: writes_def)
    next
      case (Inr it1)
      from False le have "m_next ?i = m_buffer_end (cur_chunk ?i)" by simp
      note S = out_get_next_chunk_step [OF assms(1) i(1) Inr this]
      then have "same_mode it it1" by (intro same_mode_trans [of it ?i it1]) auto
      with S i done_at [of it1] run Inr show ?thesis by simp
    qed
  qed
qed

lemma in_go_next_step:
  assumes "in_ok it" "prim_size s" "align_to (in_pos it) (s - 1) < length (in_data it)"
  shows "\<exists>it'. go_next_aligned_position next_chunk s it = Inr it' \<and> in_ok it' \<and> same_input it it' \<and> in_pos it' = align_to (in_pos it) (s - 1)"
proof -
  let ?a = "m_next it" and ?p = "align_to (m_next it) (s - 1)" and ?c = "cur_chunk it"
  note w = in_ok_facts [OF assms(1)]
  have "in_pos it < length (in_data it)" using assms(3) align_to_prim(2) [OF assms(2), of "in_pos it"] by linarith
  note b = in_pos_lt [OF assms(1) this] and p = align_to_prim [OF assms(2), of ?a]
  have b8: "m_buffer ?c mod 8 = 0" using w(1) unfolding chunk_wf_def by presburger
  have pos: "align_to (in_pos it) (s - 1) = length (data_before it) + (?p - m_buffer ?c)"
    unfolding in_pos_def by (rule align_to_shift [OF assms(2) b(1) b8 w(2)])
  have len: "length (in_data it) = length (data_before it) + (m_available_end ?c - m_buffer ?c) + length (data_after it)"
    using w by (simp add: length_chunk_data)
  have av: "m_available_end ?c \<le> m_buffer_end ?c" using w(1) by (simp add: chunk_wf_def)
  show ?thesis
  proof (cases "?p < m_buffer_end ?c")
    case True
    have "?p \<le> m_available_end ?c"
    proof (cases "data_after it = []")
      case False
      with data_after_full [OF assms(1)] True show ?thesis by (simp add: chunk_full_def)
    qed (use assms(3) pos len p(2) w(2,3) in simp)
    with True in_move_step [OF assms(1), of ?p] p pos w show ?thesis
      by (auto simp: go_next_aligned_position_def in_pos_def)
  next
    case False
    have ne: "data_after it \<noteq> []" using assms(3) pos len False av p w by (intro notI) simp
    have full: "m_available_end ?c = m_buffer_end ?c \<and> m_buffer_end ?c mod 8 = 0"
      using data_after_full [OF assms(1) ne] chunk_end_mod w(1) by (simp add: chunk_full_def)
    then have q: "?p = m_available_end ?c"
      using aligned_le [OF assms(2) p(1), of "m_buffer_end ?c"] p w False av by auto
    let ?i = "it\<lparr>m_next := ?p\<rparr>"
    have i: "in_ok ?i" "in_pos ?i = align_to (in_pos it) (s - 1)" "data_after ?i = data_after it"
      using in_move_step [OF assms(1), of ?p] p q pos w by (simp_all add: in_pos_def data_after_def)
    with ne q obtain it1 where "next_chunk it = Inr it1" "in_ok it1" "same_input it it1" "in_pos it1 = in_pos ?i"
      using next_chunk_step [of ?i] by (auto simp: next_chunk_next intro: same_input_trans [of it ?i])
    with False i show ?thesis by (auto simp: go_next_aligned_position_def)
  qed
qed

section \<open>How long an image is\<close>

definition img_le :: "image \<Rightarrow> nat \<Rightarrow> bool" where
  "img_le f n \<longleftrightarrow> (\<forall>order pos bs. f order pos bs \<longrightarrow> length bs \<le> n)"

named_theorems img_le_intros "bounds for the images of the types"

lemma img_le_prim: "prim_size s \<Longrightarrow> prim_image s b pos bs \<Longrightarrow> length bs \<le> s - 1 + length b"
  using align_to_prim(3) [of s pos] by (auto simp: prim_image_def prim_size_def)

lemma img_le_then [img_le_intros]: "img_le f a \<Longrightarrow> img_le g b \<Longrightarrow> img_le (img_then f g) (a + b)"
  unfolding img_le_def img_then_def by (fastforce intro: add_mono)

lemma img_le_nil [img_le_intros]: "img_le img_nil 0"
  by (simp add: img_le_def img_nil_def)

lemma img_le_octet [img_le_intros]: "img_le (octet_img v) 1"
  by (simp add: img_le_def octet_img_def octet_image_plain)

lemma img_le_boolean [img_le_intros]: "img_le (boolean_img v) 1"
  by (simp add: img_le_def boolean_img_def octet_image_plain)

lemma img_le_ushort [img_le_intros]: "img_le (ushort_img v) 3"
  using img_le_prim [of 2] by (fastforce simp: img_le_def ushort_img_def prim_size_def)

lemma img_le_ulong [img_le_intros]: "img_le (ulong_img v) 7"
  using img_le_prim [of 4] by (fastforce simp: img_le_def ulong_img_def prim_size_def)

lemma img_le_string [img_le_intros]: "img_le (string_img s) (length s + 8)"
  using img_le_ulong by (fastforce simp: img_le_def string_img_def string_image_def ulong_img_def)

lemma img_le_version [img_le_intros]: "img_le (version_img v) 2"
  by (simp add: img_le_def version_img_def)

lemma img_le_pad [img_le_intros]: "prim_size s \<Longrightarrow> img_le (pad_img s) s"
  unfolding img_le_def pad_img_def by (metis align_to_prim(3) le_diff_conv less_imp_le add.commute)

lemma img_le_content [img_le_intros]: "(\<And>d. C d \<Longrightarrow> length d \<le> n) \<Longrightarrow> img_le (content_img C) (n + 7)"
  using img_le_ulong by (fastforce simp: img_le_def content_img_def data_img_def intro: add_mono)

lemma content_le: "img_le f n \<Longrightarrow> content f d \<Longrightarrow> length d \<le> Suc n"
  by (auto simp: img_le_def content_def)

lemma img_le_counted [img_le_intros]: "img_le (imgs f vs) n \<Longrightarrow> img_le (counted_img f vs) (7 + n)"
  unfolding counted_img_def by (intro img_le_intros)

lemma img_le_weaken: "img_le f a \<Longrightarrow> a \<le> b \<Longrightarrow> img_le f b"
  unfolding img_le_def by (meson order_trans)

text \<open>With an allocator that does not fail, what can be written is written.\<close>

lemma makes_total: "makes m C r \<Longrightarrow> malloc_total m \<Longrightarrow> \<exists>e. r = Inr e \<and> holds C e"
  by (auto simp: makes_def alloc_failure_def split: sum.splits)

end
