(* ===== verification/Iop_Profile.thy ===== *)
theory Iop_Profile
  imports Cdr_Grammar Giop_Header Object_Key
begin

text \<open>
  The profiles of an object reference: where the object is and under which key. Modelled are the listen points
  (\<^verbatim>\<open>core/comm/iiop/ListenPoint.C\<close>), the tagged components (\<^verbatim>\<open>core/iop/TaggedComponent.C\<close>, \<^verbatim>\<open>TaggedComponentReader.C\<close>,
  \<^verbatim>\<open>ORBComponent.C\<close>, \<^verbatim>\<open>core/comm/FT/AlternateIIOPAddress.C\<close>, \<^verbatim>\<open>HeartbeatEnabled.C\<close>), the profiles themselves
  (\<^verbatim>\<open>core/iop/TaggedProfile.C\<close>, \<^verbatim>\<open>TaggedProfileReader.C\<close>, \<^verbatim>\<open>ProfileMultipleComponents.C\<close>, \<^verbatim>\<open>core/comm/iiop/ProfileIIOP.C\<close>) and
  the key in them (\<^verbatim>\<open>core/comm/iiop/ObjectKey.C\<close>). The chunk sizes \<open>s\<close> and \<open>d\<close> are those of a stream that is created
  with the configuration of the ORB and with the default.
\<close>

section \<open>Listen points\<close>

record listen_point =
  lp_host :: "octet list option"
  lp_port :: ushort
  lp_ssl_port :: ushort

definition ListenPoint_null :: listen_point where
  "ListenPoint_null = \<lparr>lp_host = None, lp_port = 0, lp_ssl_port = 0\<rparr>"

definition ListenPoint :: "octet list \<Rightarrow> ushort \<Rightarrow> listen_point" where
  "ListenPoint host port = \<lparr>lp_host = Some host, lp_port = port, lp_ssl_port = 0\<rparr>"

text \<open>\<^verbatim>\<open>strcmp\<close> with a null pointer is undefined.\<close>

definition ListenPoint_eq :: "listen_point \<Rightarrow> listen_point \<Rightarrow> bool res" where
  "ListenPoint_eq p q =
     (if lp_port p \<noteq> lp_port q then Inr False
      else case (lp_host p, lp_host q) of (Some a, Some b) \<Rightarrow> Inr (c_string a = c_string b) | _ \<Rightarrow> Inl OUT_OF_BOUNDS)"

definition listen_point_read :: "listen_point \<Rightarrow> iter \<Rightarrow> (listen_point \<times> iter) res" where
  "listen_point_read p it =
     rbind (read_string it) (\<lambda>(host, it).
     rbind (read_ushort it) (\<lambda>(port, it). Inr (p\<lparr>lp_host := Some (c_string host), lp_port := port\<rparr>, it)))"

definition listen_point_write :: "malloc \<Rightarrow> listen_point \<Rightarrow> iter \<Rightarrow> iter res" where
  "listen_point_write m p it =
     rbind (write_string m (Some (case lp_host p of Some host \<Rightarrow> host | None \<Rightarrow> [])) it) (write_ushort m (lp_port p))"

section \<open>Object keys\<close>

text \<open>An object key that a POA has made, or one that has been received and is kept as the encapsulation it came in.\<close>

datatype object_key = Key poa_key | Marshaled iter

definition object_key_data :: "oid_helper \<Rightarrow> malloc \<Rightarrow> ulong \<Rightarrow> bool \<Rightarrow> object_key \<Rightarrow> iter res" where
  "object_key_data helper m d local_order k =
     (case k of Key pk \<Rightarrow> getMarshaledKey helper m d local_order pk | Marshaled e \<Rightarrow> Inr e)"

definition any_key_write :: "oid_helper \<Rightarrow> malloc \<Rightarrow> ulong \<Rightarrow> object_key \<Rightarrow> iter \<Rightarrow> iter res" where
  "any_key_write helper m d k it =
     rbind (object_key_data helper m d (local_byte_order it) k) (\<lambda>e. write_buffer m (m_bufferCDR e) it)"

definition any_key_read :: "malloc \<Rightarrow> iter \<Rightarrow> (object_key \<times> iter) res" where
  "any_key_read m it = rbind (read_encapsulation m it) (\<lambda>(e, it). Inr (Marshaled e, it))"

definition key_value :: "object_key \<Rightarrow> poa_key res" where
  "key_value k = (case k of Key pk \<Rightarrow> Inr pk | Marshaled e \<Rightarrow> get_key e)"

definition ObjectKey_eq :: "oid_helper \<Rightarrow> malloc \<Rightarrow> ulong \<Rightarrow> bool \<Rightarrow> object_key \<Rightarrow> object_key \<Rightarrow> bool res" where
  "ObjectKey_eq helper m d local_order a b =
     rbind (object_key_data helper m d local_order a) (\<lambda>x. rbind (object_key_data helper m d local_order b) (\<lambda>y.
       buffer_equal (m_bufferCDR x) (m_bufferCDR y)))"

section \<open>Tagged components\<close>

text \<open>The components whose content the ORB knows, with the encapsulation they were read from or none when they have
  not been written yet, and all others, of which it keeps the encapsulation. A component that is written keeps the
  encapsulation for the next time; that the second write gives the same octets without it is why the model does not.\<close>

datatype tagged_component =
    ORBComponent ulong "iter option"
  | AlternateIIOPAddress listen_point "iter option"
  | HeartbeatEnabled bool "iter option"
  | TaggedComponent ulong iter

definition TAG_ORB_TYPE :: ulong where "TAG_ORB_TYPE = 0"
definition TAG_ALTERNATE_IIOP_ADDRESS :: ulong where "TAG_ALTERNATE_IIOP_ADDRESS = 3"
definition TAG_FT_HEARTBEAT_ENABLED :: ulong where "TAG_FT_HEARTBEAT_ENABLED = 29"
definition TAG_SSL_SEC_TRANS :: ulong where "TAG_SSL_SEC_TRANS = 20"

text \<open>\<^verbatim>\<open>TAG_POLICIES\<close>, \<^verbatim>\<open>TAG_SSL_SEC_TRANS\<close>, \<^verbatim>\<open>TAG_CSI_SEC_MECH_LIST\<close>, \<^verbatim>\<open>TAG_GROUP\<close> and \<^verbatim>\<open>TAG_GROUP_IIOP\<close>: components that are
  read by the helpers of their IDL types, which the build generates.\<close>

definition special_tags :: "ulong list" where "special_tags = [2, 20, 33, 39, 40]"

fun component_tag :: "tagged_component \<Rightarrow> ulong" where
  "component_tag (ORBComponent _ _) = TAG_ORB_TYPE"
| "component_tag (AlternateIIOPAddress _ _) = TAG_ALTERNATE_IIOP_ADDRESS"
| "component_tag (HeartbeatEnabled _ _) = TAG_FT_HEARTBEAT_ENABLED"
| "component_tag (TaggedComponent t _) = t"

fun component_data :: "malloc \<Rightarrow> ulong \<Rightarrow> bool \<Rightarrow> tagged_component \<Rightarrow> iter res" where
  "component_data m d local_order (ORBComponent t None) = encaps m (2 * of_nat ULONG_SIZE) local_order (write_ulong m t)"
| "component_data m d local_order (AlternateIIOPAddress p None) =
     encaps m d local_order (\<lambda>it. rbind (write_string m (lp_host p) it) (write_ushort m (lp_port p)))"
| "component_data m d local_order (HeartbeatEnabled b None) = encaps m d local_order (write_boolean m b)"
| "component_data m d local_order (ORBComponent _ (Some e)) = Inr e"
| "component_data m d local_order (AlternateIIOPAddress _ (Some e)) = Inr e"
| "component_data m d local_order (HeartbeatEnabled _ (Some e)) = Inr e"
| "component_data m d local_order (TaggedComponent _ e) = Inr e"

definition component_write :: "ulong \<Rightarrow> malloc \<Rightarrow> tagged_component \<Rightarrow> iter \<Rightarrow> iter res" where
  "component_write d m c it =
     rbind (component_data m d (local_byte_order it) c) (\<lambda>e.
     rbind (write_ulong m (component_tag c) it) (write_buffer m (m_bufferCDR e)))"

text \<open>\<open>special\<close> stands for the reading of the components of those types: it gets the encapsulation and returns it as it
  leaves it. \<open>ssl_port\<close> is the port that such a component tells.\<close>

record readers =
  special :: "ulong \<Rightarrow> iter \<Rightarrow> iter res"
  ssl_port :: "iter \<Rightarrow> ushort"

definition component_read :: "readers \<Rightarrow> malloc \<Rightarrow> iter \<Rightarrow> (tagged_component \<times> iter) res" where
  "component_read rs m it =
     rbind (read_ulong it) (\<lambda>(tag, it).
     rbind (read_encapsulation m it) (\<lambda>(e, it).
       if tag = TAG_ORB_TYPE then rbind (read_ulong e) (\<lambda>(t, e). Inr (ORBComponent t (Some (rewind e)), it))
       else if tag = TAG_ALTERNATE_IIOP_ADDRESS then
         rbind (listen_point_read ListenPoint_null e) (\<lambda>(p, e). Inr (AlternateIIOPAddress p (Some (rewind e)), it))
       else if tag = TAG_FT_HEARTBEAT_ENABLED then rbind (read_boolean e) (\<lambda>(b, e). Inr (HeartbeatEnabled b (Some (rewind e)), it))
       else if tag \<in> set special_tags then rbind (special rs tag e) (\<lambda>e. Inr (TaggedComponent tag e, it))
       else Inr (TaggedComponent tag e, it)))"

section \<open>Profiles\<close>

record profile_iiop =
  pf_version :: version
  pf_listen_points :: "listen_point list"
  pf_key :: "object_key option"
  pf_components :: "tagged_component list"
  pf_data :: "iter option"
  pf_extracted :: bool

definition ProfileIIOP_new :: profile_iiop where
  "ProfileIIOP_new = \<lparr>pf_version = VERSION_1_2, pf_listen_points = [], pf_key = None, pf_components = [], pf_data = None,
     pf_extracted = False\<rparr>"

definition ProfileIIOP_of :: "version \<Rightarrow> listen_point \<Rightarrow> object_key \<Rightarrow> tagged_component list \<Rightarrow> profile_iiop" where
  "ProfileIIOP_of v p k cs = \<lparr>pf_version = v, pf_listen_points = [p], pf_key = Some k, pf_components = cs, pf_data = None,
     pf_extracted = True\<rparr>"

text \<open>A multicast profile and the second form of a profile of components are kept as they were received. In the second
  form the stream is a copy of that of the message, and not of the encapsulation.\<close>

datatype tagged_profile =
    ProfileIIOP profile_iiop
  | ProfileMIOP iter
  | MultipleComponents "tagged_component list"
  | MultipleComponents_received iter

definition TAG_INTERNET_IOP :: ulong where "TAG_INTERNET_IOP = 0"
definition TAG_MULTIPLE_COMPONENTS :: ulong where "TAG_MULTIPLE_COMPONENTS = 1"
definition TAG_UIPMC :: ulong where "TAG_UIPMC = 3"

fun profile_tag :: "tagged_profile \<Rightarrow> ulong" where
  "profile_tag (ProfileIIOP _) = TAG_INTERNET_IOP"
| "profile_tag (ProfileMIOP _) = TAG_UIPMC"
| "profile_tag (MultipleComponents _) = TAG_MULTIPLE_COMPONENTS"
| "profile_tag (MultipleComponents_received _) = TAG_MULTIPLE_COMPONENTS"

text \<open>\<^verbatim>\<open>partial_write\<close> of an IIOP profile: the encapsulation that it has, or one with its members.\<close>

definition profile_body_write :: "oid_helper \<Rightarrow> malloc \<Rightarrow> ulong \<Rightarrow> profile_iiop \<Rightarrow> iter \<Rightarrow> iter res" where
  "profile_body_write helper m d p it =
     rbind (version_write m (pf_version p) it) (\<lambda>it.
     case pf_listen_points p of [] \<Rightarrow> Inl OUT_OF_BOUNDS | lp # _ \<Rightarrow>
     rbind (listen_point_write m lp it) (\<lambda>it.
     case pf_key p of None \<Rightarrow> Inl OUT_OF_BOUNDS | Some k \<Rightarrow>
     rbind (any_key_write helper m d k it) (\<lambda>it.
     if Version_gt (pf_version p) VERSION_1_0 then write_counted (component_write d) m (pf_components p) it else Inr it)))"

definition profile_data :: "oid_helper \<Rightarrow> malloc \<Rightarrow> ulong \<Rightarrow> ulong \<Rightarrow> bool \<Rightarrow> profile_iiop \<Rightarrow> iter res" where
  "profile_data helper m s d local_order p =
     (case pf_data p of Some e \<Rightarrow> Inr e | None \<Rightarrow> encaps m s local_order (profile_body_write helper m d p))"

definition profile_write :: "oid_helper \<Rightarrow> ulong \<Rightarrow> ulong \<Rightarrow> malloc \<Rightarrow> tagged_profile \<Rightarrow> iter \<Rightarrow> iter res" where
  "profile_write helper s d m p it =
     rbind (write_ulong m (profile_tag p) it) (\<lambda>it.
     case p of
       ProfileIIOP p \<Rightarrow> rbind (profile_data helper m s d (local_byte_order it) p) (\<lambda>e. write_buffer m (m_bufferCDR e) it)
     | ProfileMIOP e \<Rightarrow> write_buffer m (m_bufferCDR e) it
     | MultipleComponents cs \<Rightarrow> write_counted (component_write d) m cs it
     | MultipleComponents_received e \<Rightarrow> write_buffer m (m_bufferCDR e) it)"

definition profile_skip :: "iter \<Rightarrow> iter res" where
  "profile_skip it = rbind (skip_type ULONG_SIZE it) skip_encapsulation"

definition profile_read :: "malloc \<Rightarrow> iter \<Rightarrow> (tagged_profile \<times> iter) res" where
  "profile_read m it =
     rbind (read_ulong it) (\<lambda>(tag, it).
       if tag = TAG_INTERNET_IOP then
         rbind (read_encapsulation m it) (\<lambda>(e, it). Inr (ProfileIIOP (ProfileIIOP_new\<lparr>pf_data := Some e\<rparr>), it))
       else if tag = TAG_MULTIPLE_COMPONENTS then
         rbind (skip_encapsulation it) (\<lambda>it'. Inr (MultipleComponents_received it, it'))
       else if tag = TAG_UIPMC then rbind (read_encapsulation m it) (\<lambda>(e, it). Inr (ProfileMIOP e, it))
       else Inl MARSHAL)"

text \<open>\<^verbatim>\<open>extract_members\<close> opens the encapsulation of a profile. The addresses of the components are added to the listen
  points while they are read, and the vector is cleared after that.\<close>

definition component_address :: "tagged_component \<Rightarrow> listen_point list" where
  "component_address c = (case c of AlternateIIOPAddress p _ \<Rightarrow> [p] | _ \<Rightarrow> [])"

fun point_ssl :: "readers \<Rightarrow> tagged_component list \<Rightarrow> listen_point \<Rightarrow> listen_point" where
  "point_ssl rs [] p = p"
| "point_ssl rs (c # cs) p = point_ssl rs cs
     (case c of TaggedComponent t e \<Rightarrow> if t = TAG_SSL_SEC_TRANS then p\<lparr>lp_ssl_port := ssl_port rs e\<rparr> else p | _ \<Rightarrow> p)"

definition extract_members :: "readers \<Rightarrow> malloc \<Rightarrow> profile_iiop \<Rightarrow> profile_iiop res" where
  "extract_members rs m p =
     (if pf_extracted p then Inr p
      else case pf_data p of None \<Rightarrow> Inl INTERNAL | Some e \<Rightarrow>
        rbind (version_read e) (\<lambda>(v, e).
        rbind (listen_point_read ListenPoint_null e) (\<lambda>(point, e).
        rbind (any_key_read m e) (\<lambda>(k, e).
        rbind (if Version_gt v VERSION_1_0 then read_counted (component_read rs m) e else Inr (pf_components p, e)) (\<lambda>(cs, e).
          let points = pf_listen_points p @ concat (map component_address cs);
              point = (if Version_gt v VERSION_1_0 then point_ssl rs cs point else point);
              points = [point] in
          Inr (p\<lparr>pf_version := v, pf_listen_points := points, pf_key := Some k, pf_components := cs, pf_data := Some e,
            pf_extracted := True\<rparr>))))))"

definition getObjectKey :: "readers \<Rightarrow> malloc \<Rightarrow> profile_iiop \<Rightarrow> object_key option res" where
  "getObjectKey rs m p = rbind (extract_members rs m p) (\<lambda>p. Inr (pf_key p))"

definition getListenPoint :: "readers \<Rightarrow> malloc \<Rightarrow> profile_iiop \<Rightarrow> listen_point res" where
  "getListenPoint rs m p =
     rbind (extract_members rs m p) (\<lambda>p. case pf_listen_points p of [] \<Rightarrow> Inl OUT_OF_BOUNDS | lp # _ \<Rightarrow> Inr lp)"

definition ProfileIIOP_eq :: "oid_helper \<Rightarrow> readers \<Rightarrow> malloc \<Rightarrow> ulong \<Rightarrow> bool \<Rightarrow> profile_iiop \<Rightarrow> profile_iiop \<Rightarrow> bool res" where
  "ProfileIIOP_eq helper rs m d local_order p q =
     rbind (extract_members rs m p) (\<lambda>p. rbind (extract_members rs m q) (\<lambda>q.
       if Version_neq (pf_version p) (pf_version q) then Inr False
       else case (pf_listen_points p, pf_listen_points q) of
         (a # _, b # _) \<Rightarrow> rbind (ListenPoint_eq a b) (\<lambda>same.
           if \<not> same then Inr False
           else case (pf_key p, pf_key q) of (Some k, Some l) \<Rightarrow> ObjectKey_eq helper m d local_order k l | _ \<Rightarrow> Inl OUT_OF_BOUNDS)
       | _ \<Rightarrow> Inl OUT_OF_BOUNDS))"

section \<open>What is written and what arrives\<close>

definition host_octets :: "listen_point \<Rightarrow> octet list" where
  "host_octets p = (case lp_host p of Some host \<Rightarrow> host | None \<Rightarrow> [])"

definition listen_point_ok :: "listen_point \<Rightarrow> bool" where
  "listen_point_ok p \<longleftrightarrow> string_ok (host_octets p)"

definition listen_point_img :: "listen_point \<Rightarrow> image" where
  "listen_point_img p = img_then (string_img (host_octets p)) (ushort_img (lp_port p))"

definition same_address :: "listen_point \<Rightarrow> listen_point \<Rightarrow> bool" where
  "same_address p q \<longleftrightarrow> lp_host q = Some (host_octets p) \<and> lp_port q = lp_port p"

lemma c_string_sent: "string_ok s \<Longrightarrow> c_string (s @ [0]) = s"
  by (simp add: c_string_def string_ok_def takeWhile_terminated)

interpretation listen: cdr_transfer listen_point_write "listen_point_read p0" listen_point_ok listen_point_img same_address for p0
proof
  fix m p assume "malloc_ok m" "listen_point_ok p"
  then show "emits m (listen_point_write m p) (listen_point_img p)"
    unfolding listen_point_write_def [abs_def] listen_point_img_def listen_point_ok_def host_octets_def by (intro emit_intros)
next
  fix p assume p: "listen_point_ok p"
  show "parses (listen_point_img p) (listen_point_read p0) (same_address p)"
    unfolding listen_point_read_def [abs_def] listen_point_img_def
    by (rule parses_then [OF t_string.rd_parses], use p in \<open>simp add: listen_point_ok_def\<close>,
        rule parses_last [OF t_ushort.rd_parses [OF TrueI]])
      (use p in \<open>simp add: same_address_def listen_point_ok_def c_string_sent\<close>)
qed

text \<open>Keys. A key that was received is carried on octet by octet.\<close>

definition key_img :: "poa_key \<Rightarrow> image" where
  "key_img k order pos = key_image order pos k"

definition octets_of :: "iter \<Rightarrow> octet list" where
  "octets_of e = buffer_data (m_bufferCDR e)"

definition stored :: "iter \<Rightarrow> bool" where
  "stored e \<longleftrightarrow> holds (\<lambda>d. d = octets_of e) e"

fun key_content :: "object_key \<Rightarrow> octet list \<Rightarrow> bool" where
  "key_content (Key pk) = content (key_img pk)"
| "key_content (Marshaled e) = (\<lambda>d. d = octets_of e)"

fun any_key_ok :: "object_key \<Rightarrow> bool" where
  "any_key_ok (Key pk) \<longleftrightarrow> key_ok pk"
| "any_key_ok (Marshaled e) \<longleftrightarrow> stored e"

definition key_rel :: "object_key \<Rightarrow> object_key \<Rightarrow> bool" where
  "key_rel k l \<longleftrightarrow> (\<exists>e. l = Marshaled e \<and> arrived (key_content k) e)"

lemma object_key_data_makes:
  assumes "malloc_ok m" "block_ok d" "helper_ok helper" "any_key_ok k"
  shows "makes m (key_content k) (object_key_data helper m d order k)"
proof (cases k)
  case (Key pk)
  have "makes m (content (key_img pk)) (encaps m d order (poa_key_write helper m pk))"
  proof (rule encaps_makes [OF assms(1,2)])
    fix e assume e: "out_ok e" "m_version e = VERSION_1_2"
    from e(2) have "set_version VERSION_1_2 e = e" using set_version_self [of e] by simp
    with poa_key_writes [OF assms(1) e(1), of pk helper] assms(3,4) Key
    show "writes m e (key_img pk (local_byte_order e) (length (out_data e))) (poa_key_write helper m pk e)"
      by (simp add: key_img_def [abs_def])
  qed
  with Key show ?thesis by (simp add: object_key_data_def getMarshaledKey_def encaps_def)
next
  case (Marshaled e)
  with assms(4) show ?thesis by (simp add: object_key_data_def makes_def stored_def)
qed

lemma key_transfer:
  assumes "malloc_ok m'" "malloc_total m'" "block_ok d" "helper_ok helper"
  shows "cdr_transfer (\<lambda>m. any_key_write helper m d) (any_key_read m') any_key_ok (\<lambda>k. content_img (key_content k)) key_rel"
proof
  fix m k assume a: "malloc_ok m" "any_key_ok k"
  show "emits m (any_key_write helper m d k) (content_img (key_content k))"
    unfolding any_key_write_def [abs_def] by (intro makes_emits a object_key_data_makes assms)
next
  fix k assume "any_key_ok k"
  show "parses (content_img (key_content k)) (any_key_read m') (key_rel k)"
    unfolding any_key_read_def [abs_def] by (rule parses_last [OF content_parses [OF assms(1,2)]]) (simp add: key_rel_def)
qed

lemma key_arrives: "key_rel (Key pk) l \<Longrightarrow> key_ok pk \<Longrightarrow> key_value l = Inr pk"
proof -
  assume "key_rel (Key pk) l" and ok: "key_ok pk"
  then obtain e order body where e: "l = Marshaled e" "opened ((if order then 1 else 0) # body) e" "key_image order 1 pk body"
    by (auto simp: key_rel_def arrived_def content_def key_img_def)
  then have "get_key e = Inr pk" by (intro get_key_reads [OF _ ok, of _ body]) (auto simp: opened_def split: if_splits)
  with e(1) show ?thesis by (simp add: key_value_def)
qed

text \<open>Components.\<close>

fun component_content :: "tagged_component \<Rightarrow> octet list \<Rightarrow> bool" where
  "component_content (ORBComponent t None) = content (ulong_img t)"
| "component_content (AlternateIIOPAddress p None) = content (listen_point_img p)"
| "component_content (HeartbeatEnabled b None) = content (boolean_img b)"
| "component_content (ORBComponent _ (Some e)) = (\<lambda>d. d = octets_of e)"
| "component_content (AlternateIIOPAddress _ (Some e)) = (\<lambda>d. d = octets_of e)"
| "component_content (HeartbeatEnabled _ (Some e)) = (\<lambda>d. d = octets_of e)"
| "component_content (TaggedComponent _ e) = (\<lambda>d. d = octets_of e)"

definition cache_ok :: "image \<Rightarrow> iter option \<Rightarrow> bool" where
  "cache_ok f x \<longleftrightarrow> (case x of None \<Rightarrow> True | Some e \<Rightarrow> stored e \<and> content f (octets_of e))"

fun component_ok :: "readers \<Rightarrow> tagged_component \<Rightarrow> bool" where
  "component_ok rs (ORBComponent t x) \<longleftrightarrow> cache_ok (ulong_img t) x"
| "component_ok rs (AlternateIIOPAddress p x) \<longleftrightarrow> lp_host p \<noteq> None \<and> listen_point_ok p \<and> cache_ok (listen_point_img p) x"
| "component_ok rs (HeartbeatEnabled b x) \<longleftrightarrow> cache_ok (boolean_img b) x"
| "component_ok rs (TaggedComponent t e) \<longleftrightarrow> stored e \<and> t \<noteq> TAG_ORB_TYPE \<and> t \<noteq> TAG_ALTERNATE_IIOP_ADDRESS \<and> t \<noteq> TAG_FT_HEARTBEAT_ENABLED \<and>
     (t \<in> set special_tags \<longrightarrow> (\<forall>e'. arrived (\<lambda>d. d = octets_of e) e' \<longrightarrow> special rs t e' = Inr e'))"

fun component_rel :: "tagged_component \<Rightarrow> tagged_component \<Rightarrow> bool" where
  "component_rel (ORBComponent t x) (ORBComponent t' (Some e)) \<longleftrightarrow> t' = t \<and> holds (component_content (ORBComponent t x)) e"
| "component_rel (AlternateIIOPAddress p x) (AlternateIIOPAddress p' (Some e)) \<longleftrightarrow>
     same_address p p' \<and> holds (component_content (AlternateIIOPAddress p x)) e"
| "component_rel (HeartbeatEnabled b x) (HeartbeatEnabled b' (Some e)) \<longleftrightarrow> b' = b \<and> holds (component_content (HeartbeatEnabled b x)) e"
| "component_rel (TaggedComponent t e) (TaggedComponent t' e') \<longleftrightarrow> t' = t \<and> holds (\<lambda>d. d = octets_of e) e'"
| "component_rel _ _ \<longleftrightarrow> False"

definition component_img :: "tagged_component \<Rightarrow> image" where
  "component_img c = img_then (ulong_img (component_tag c)) (content_img (component_content c))"

lemma component_data_makes:
  assumes "malloc_ok m" "block_ok d" "component_ok rs c"
  shows "makes m (component_content c) (component_data m d order c)"
proof -
  have b8: "block_ok (2 * of_nat ULONG_SIZE)" by (simp add: block_ok_def size_ok_def)
  from assms(3) show ?thesis
  proof (cases "(m, d, order, c)" rule: component_data.cases)
    case (1 m' d' o' t)
    then show ?thesis using emits_makes [OF assms(1) b8 t_ulong.wr_emits [OF assms(1) TrueI]] by simp
  next
    case (2 m' d' o' p)
    have "emits m (\<lambda>it. rbind (write_string m (lp_host p) it) (write_ushort m (lp_port p))) (listen_point_img p)"
      using listen.wr_emits [OF assms(1), of p] assms(3) 2 unfolding listen_point_write_def [abs_def] by (auto split: option.splits)
    from emits_makes [OF assms(1,2) this] 2 show ?thesis by simp
  next
    case (3 m' d' o' b)
    then show ?thesis using emits_makes [OF assms(1,2) t_boolean.wr_emits [OF assms(1) TrueI]] by simp
  qed (auto simp: makes_def stored_def cache_ok_def)
qed

text \<open>A component whose content is known is opened while it is read.\<close>

lemma opened_component:
  assumes "arrived C e" "\<And>d. C d \<Longrightarrow> content f d" "parses f rd P"
  obtains x e' where "rd e = Inr (x, e')" "P x" "holds C (rewind e')"
proof -
  have "arrived (content f) e" using assms(1,2) by (auto simp: arrived_def)
  from open_content [OF this assms(3)] show thesis by (metis that holds_again assms(1))
qed

lemma cached_content:
  "component_ok rs (ORBComponent t x) \<Longrightarrow> component_content (ORBComponent t x) d \<Longrightarrow> content (ulong_img t) d"
  "component_ok rs (AlternateIIOPAddress p x) \<Longrightarrow> component_content (AlternateIIOPAddress p x) d \<Longrightarrow> content (listen_point_img p) d"
  "component_ok rs (HeartbeatEnabled b x) \<Longrightarrow> component_content (HeartbeatEnabled b x) d \<Longrightarrow> content (boolean_img b) d"
  by (cases x; simp add: cache_ok_def)+

lemmas component_tags = TAG_ORB_TYPE_def TAG_ALTERNATE_IIOP_ADDRESS_def TAG_FT_HEARTBEAT_ENABLED_def

lemma component_opened:
  assumes "component_ok rs c" "arrived (component_content c) e"
  shows "\<exists>c'. component_rel c c' \<and> (\<forall>it.
    (if component_tag c = TAG_ORB_TYPE then rbind (read_ulong e) (\<lambda>(t, e). Inr (ORBComponent t (Some (rewind e)), it))
     else if component_tag c = TAG_ALTERNATE_IIOP_ADDRESS then
       rbind (listen_point_read ListenPoint_null e) (\<lambda>(p, e). Inr (AlternateIIOPAddress p (Some (rewind e)), it))
     else if component_tag c = TAG_FT_HEARTBEAT_ENABLED then rbind (read_boolean e) (\<lambda>(b, e). Inr (HeartbeatEnabled b (Some (rewind e)), it))
     else if component_tag c \<in> set special_tags then rbind (special rs (component_tag c) e) (\<lambda>e. Inr (TaggedComponent (component_tag c) e, it))
     else Inr (TaggedComponent (component_tag c) e, it)) = Inr (c', it :: iter))"
proof (cases c)
  case (ORBComponent t x)
  obtain v e' where "read_ulong e = Inr (v, e')" "v = t" "holds (component_content c) (rewind e')"
    by (rule opened_component [OF assms(2) _ t_ulong.rd_parses [OF TrueI, of t]]) (use cached_content(1) assms(1) ORBComponent in auto)
  with ORBComponent show ?thesis by auto
next
  case (AlternateIIOPAddress p x)
  have ok: "listen_point_ok p" using assms(1) AlternateIIOPAddress by simp
  obtain v e' where "listen_point_read ListenPoint_null e = Inr (v, e')" "same_address p v" "holds (component_content c) (rewind e')"
    by (rule opened_component [OF assms(2) _ listen.rd_parses [OF ok]]) (use cached_content(2) assms(1) AlternateIIOPAddress in auto)
  with AlternateIIOPAddress show ?thesis by (auto simp: component_tags)
next
  case (HeartbeatEnabled b x)
  obtain v e' where "read_boolean e = Inr (v, e')" "v = b" "holds (component_content c) (rewind e')"
    by (rule opened_component [OF assms(2) _ t_boolean.rd_parses [OF TrueI, of b]]) (use cached_content(3) assms(1) HeartbeatEnabled in auto)
  with HeartbeatEnabled show ?thesis by (auto simp: component_tags)
next
  case (TaggedComponent t e0)
  with assms arrived_holds [OF assms(2)] show ?thesis by auto
qed

lemma component_transfer:
  assumes "malloc_ok m'" "malloc_total m'" "block_ok d"
  shows "cdr_transfer (component_write d) (component_read rs m') (component_ok rs) component_img component_rel"
proof
  fix m c assume a: "malloc_ok m" "component_ok rs c"
  show "emits m (component_write d m c) (component_img c)"
    unfolding component_write_def [abs_def] component_img_def
    by (rule makes_emits_after [OF a(1) component_data_makes [OF a(1) assms(3) a(2)] t_ulong.wr_emits [OF a(1) TrueI]])
next
  fix c assume a: "component_ok rs c"
  show "parses (component_img c) (component_read rs m') (component_rel c)"
    unfolding component_read_def [abs_def] component_img_def
  proof (rule parses_then [OF t_ulong.rd_parses [OF TrueI]], simp only:,
      rule parses_finish [OF content_parses [OF assms(1,2), of "component_content c"]])
  qed (rule component_opened [OF a])
qed

text \<open>Profiles.\<close>

interpretation t_version: cdr_transfer version_write version_read version_ok version_img "\<lambda>v x. x = v"
  using codec_transfer [OF version.cdr_codec_axioms] by (simp add: version_img_def [abs_def])

definition sent_components :: "profile_iiop \<Rightarrow> tagged_component list" where
  "sent_components p = (if Version_gt (pf_version p) VERSION_1_0 then pf_components p else [])"

definition members_ok :: "readers \<Rightarrow> profile_iiop \<Rightarrow> bool" where
  "members_ok rs p \<longleftrightarrow> version_ok (pf_version p) \<and> pf_listen_points p \<noteq> [] \<and> listen_point_ok (hd (pf_listen_points p)) \<and>
     pf_key p \<noteq> None \<and> any_key_ok (the (pf_key p)) \<and> counted_ok (component_ok rs) (pf_components p)"

definition members_img :: "profile_iiop \<Rightarrow> image" where
  "members_img p = img_then (version_img (pf_version p)) (img_then (listen_point_img (hd (pf_listen_points p)))
     (img_then (content_img (key_content (the (pf_key p))))
       (if Version_gt (pf_version p) VERSION_1_0 then counted_img component_img (pf_components p) else img_nil)))"

definition members_rel :: "profile_iiop \<Rightarrow> profile_iiop \<Rightarrow> bool" where
  "members_rel p q \<longleftrightarrow> pf_version q = pf_version p \<and>
     (\<exists>a. pf_listen_points q = [a] \<and> same_address (hd (pf_listen_points p)) a) \<and>
     (\<exists>k. pf_key q = Some k \<and> key_rel (the (pf_key p)) k) \<and>
     list_all2 component_rel (sent_components p) (pf_components q) \<and> pf_extracted q"

lemma profile_body_emits:
  assumes "malloc_ok m" "block_ok d" "helper_ok helper" "members_ok rs p"
  shows "emits m (profile_body_write helper m d p) (members_img p)"
proof -
  obtain lp ps k where p: "pf_listen_points p = lp # ps" "pf_key p = Some k"
    using assms(4) by (cases "pf_listen_points p") (auto simp: members_ok_def)
  note kt = key_transfer [OF sample_malloc_ok assms(2,3)] and ct = component_transfer [OF sample_malloc_ok assms(2), of rs]
  have last: "emits m (\<lambda>it. if Version_gt (pf_version p) VERSION_1_0 then write_counted (component_write d) m (pf_components p) it else Inr it)
      (if Version_gt (pf_version p) VERSION_1_0 then counted_img component_img (pf_components p) else img_nil)"
    using cdr_transfer.wr_emits [OF cdr_transfer.counted [OF ct] assms(1)] assms(4) emits_nil by (simp add: members_ok_def)
  show ?thesis
    unfolding profile_body_write_def [abs_def] members_img_def p list.case option.case list.sel option.sel
    by (intro emits_then last t_version.wr_emits listen.wr_emits cdr_transfer.wr_emits [OF kt] assms(1))
      (use assms(4) p in \<open>simp_all add: members_ok_def\<close>)
qed

definition read_members :: "readers \<Rightarrow> malloc \<Rightarrow> iter \<Rightarrow> ((version \<times> listen_point \<times> object_key \<times> tagged_component list) \<times> iter) res" where
  "read_members rs m e =
     rbind (version_read e) (\<lambda>(v, e).
     rbind (listen_point_read ListenPoint_null e) (\<lambda>(point, e).
     rbind (any_key_read m e) (\<lambda>(k, e).
     rbind (if Version_gt v VERSION_1_0 then read_counted (component_read rs m) e else Inr ([], e)) (\<lambda>(cs, e).
       Inr ((v, point, k, cs), e)))))"

lemma extract_members_read:
  assumes "pf_data p = Some e" "\<not> pf_extracted p" "pf_components p = []" "read_members rs m e = Inr ((v, point, k, cs), e')"
  shows "extract_members rs m p = Inr (p\<lparr>pf_version := v,
    pf_listen_points := [if Version_gt v VERSION_1_0 then point_ssl rs cs point else point], pf_key := Some k, pf_components := cs,
    pf_data := Some e', pf_extracted := True\<rparr>)"
  using assms by (auto simp: extract_members_def read_members_def rbind_eq_Inr Let_def)

lemma read_members_parses:
  assumes "malloc_ok m'" "malloc_total m'" "members_ok rs p"
  shows "parses (members_img p) (read_members rs m') (\<lambda>(v, point, k, cs). v = pf_version p \<and>
    same_address (hd (pf_listen_points p)) point \<and> key_rel (the (pf_key p)) k \<and> list_all2 component_rel (sent_components p) cs)"
proof -
  note kt = key_transfer [OF assms(1,2) sample_block_ok octet_seq_helper_ok] and ct = component_transfer [OF assms(1,2) sample_block_ok]
  have last: "parses (if Version_gt (pf_version p) VERSION_1_0 then counted_img component_img (pf_components p) else img_nil)
      (\<lambda>e. if Version_gt (pf_version p) VERSION_1_0 then read_counted (component_read rs m') e else Inr ([], e))
      (list_all2 component_rel (sent_components p))"
    using cdr_transfer.rd_parses [OF cdr_transfer.counted [OF ct]] assms(3)
      parses_return [of "list_all2 component_rel []" "[]"]
    by (simp add: members_ok_def sent_components_def)
  show ?thesis
    unfolding read_members_def [abs_def] members_img_def
  proof (rule parses_then [OF t_version.rd_parses])
    fix v assume v: "v = pf_version p"
    show "parses (img_then (listen_point_img (hd (pf_listen_points p))) (img_then (content_img (key_content (the (pf_key p))))
        (if Version_gt (pf_version p) VERSION_1_0 then counted_img component_img (pf_components p) else img_nil)))
      (\<lambda>e. rbind (listen_point_read ListenPoint_null e) (\<lambda>(point, e). rbind (any_key_read m' e) (\<lambda>(k, e).
        rbind (if Version_gt v VERSION_1_0 then read_counted (component_read rs m') e else Inr ([], e)) (\<lambda>(cs, e). Inr ((v, point, k, cs), e)))))
      (\<lambda>(v, point, k, cs). v = pf_version p \<and> same_address (hd (pf_listen_points p)) point \<and> key_rel (the (pf_key p)) k \<and>
        list_all2 component_rel (sent_components p) cs)"
      unfolding v
      by (rule parses_then [OF listen.rd_parses parses_then [OF cdr_transfer.rd_parses [OF kt] parses_last [OF last]]])
        (use assms(3) in \<open>simp_all add: members_ok_def\<close>)
  qed (use assms(3) in \<open>simp add: members_ok_def\<close>)
qed

fun tagged_content :: "tagged_profile \<Rightarrow> octet list \<Rightarrow> bool" where
  "tagged_content (ProfileIIOP p) = (case pf_data p of None \<Rightarrow> content (members_img p) | Some e \<Rightarrow> (\<lambda>d. d = octets_of e))"
| "tagged_content (ProfileMIOP e) = (\<lambda>d. d = octets_of e)"
| "tagged_content _ = (\<lambda>d. False)"

fun tagged_ok :: "readers \<Rightarrow> tagged_profile \<Rightarrow> bool" where
  "tagged_ok rs (ProfileIIOP p) \<longleftrightarrow> (case pf_data p of None \<Rightarrow> members_ok rs p | Some e \<Rightarrow> stored e)"
| "tagged_ok rs (ProfileMIOP e) \<longleftrightarrow> stored e"
| "tagged_ok rs _ \<longleftrightarrow> False"

definition tagged_img :: "tagged_profile \<Rightarrow> image" where
  "tagged_img p = img_then (ulong_img (profile_tag p)) (content_img (tagged_content p))"

definition tagged_rel :: "tagged_profile \<Rightarrow> tagged_profile \<Rightarrow> bool" where
  "tagged_rel p q \<longleftrightarrow> (\<exists>e. arrived (tagged_content p) e \<and>
     q = (case p of ProfileIIOP _ \<Rightarrow> ProfileIIOP (ProfileIIOP_new\<lparr>pf_data := Some e\<rparr>) | _ \<Rightarrow> ProfileMIOP e))"

lemmas profile_tags = TAG_INTERNET_IOP_def TAG_MULTIPLE_COMPONENTS_def TAG_UIPMC_def

lemma profile_transfer:
  assumes "malloc_ok m'" "malloc_total m'" "block_ok s" "block_ok d" "helper_ok helper"
  shows "cdr_transfer (profile_write helper s d) (profile_read m') (tagged_ok rs) tagged_img tagged_rel"
proof
  fix m p assume a: "malloc_ok m" "tagged_ok rs p"
  show "emits m (profile_write helper s d m p) (tagged_img p)"
  proof (cases p)
    case (ProfileIIOP q)
    have "makes m (tagged_content p) (profile_data helper m s d order q)" for order
      using a(2) ProfileIIOP emits_makes [OF a(1) assms(3) profile_body_emits [OF a(1) assms(4,5), of rs q]]
      by (auto simp: profile_data_def makes_def stored_def split: option.splits)
    then show ?thesis unfolding profile_write_def [abs_def] tagged_img_def using ProfileIIOP
      by (auto intro!: emits_then t_ulong.wr_emits makes_emits a(1))
  next
    case (ProfileMIOP e)
    then show ?thesis unfolding profile_write_def [abs_def] tagged_img_def using a
      by (auto intro!: emits_then t_ulong.wr_emits holds_emits simp: stored_def)
  qed (use a in simp_all)
next
  fix p assume a: "tagged_ok rs p"
  have "parses (content_img (tagged_content p)) (\<lambda>it.
       if profile_tag p = TAG_INTERNET_IOP then
         rbind (read_encapsulation m' it) (\<lambda>(e, it). Inr (ProfileIIOP (ProfileIIOP_new\<lparr>pf_data := Some e\<rparr>), it))
       else if profile_tag p = TAG_MULTIPLE_COMPONENTS then
         rbind (skip_encapsulation it) (\<lambda>it'. Inr (MultipleComponents_received it, it'))
       else if profile_tag p = TAG_UIPMC then rbind (read_encapsulation m' it) (\<lambda>(e, it). Inr (ProfileMIOP e, it))
       else Inl MARSHAL) (tagged_rel p)"
    using a by (cases p) (auto simp: profile_tags tagged_rel_def intro!: parses_last [OF content_parses [OF assms(1,2)]])
  then show "parses (tagged_img p) (profile_read m') (tagged_rel p)"
    unfolding profile_read_def [abs_def] tagged_img_def by (intro parses_then [OF t_ulong.rd_parses [OF TrueI]]) (simp only:)
qed

text \<open>The members of an IIOP profile that has arrived.\<close>

lemma members_arrive:
  assumes "malloc_ok m'" "malloc_total m'" "members_ok rs p" "pf_data p = None" "tagged_rel (ProfileIIOP p) q"
  shows "\<exists>e q'. q = ProfileIIOP (ProfileIIOP_new\<lparr>pf_data := Some e\<rparr>) \<and>
    extract_members rs m' (ProfileIIOP_new\<lparr>pf_data := Some e\<rparr>) = Inr q' \<and> members_rel p q'"
proof -
  from assms(4,5) obtain e where e: "arrived (content (members_img p)) e" "q = ProfileIIOP (ProfileIIOP_new\<lparr>pf_data := Some e\<rparr>)"
    by (auto simp: tagged_rel_def)
  obtain x e' where X: "read_members rs m' e = Inr (x, e')" "case x of (v, point, k, cs) \<Rightarrow> v = pf_version p \<and>
      same_address (hd (pf_listen_points p)) point \<and> key_rel (the (pf_key p)) k \<and> list_all2 component_rel (sent_components p) cs"
    by (rule open_content [OF e(1) read_members_parses [OF assms(1-3)]])
  obtain v point k cs where x: "x = (v, point, k, cs)" by (cases x)
  have ssl: "same_address a point \<Longrightarrow> same_address a (point_ssl rs cs point)" for a
    by (induction cs arbitrary: point) (auto simp: same_address_def split: tagged_component.splits)
  from extract_members_read [of "ProfileIIOP_new\<lparr>pf_data := Some e\<rparr>" e rs m'] X x ssl
  show ?thesis unfolding e(2) by (fastforce simp: ProfileIIOP_new_def members_rel_def)
qed

end
