(* ===== verification/Iop_Ior.thy ===== *)
theory Iop_Ior
  imports Iop_Profile Fixed_Point
begin

text \<open>
  Object references (\<^verbatim>\<open>core/iop/IOR.C\<close>): a type and profiles, their form in a message, and their form as text, \<^verbatim>\<open>IOR:\<close>
  and the octets in hexadecimal (\<^verbatim>\<open>util/Base16Codec.C\<close>).
\<close>

section \<open>Hexadecimal digits\<close>

definition toBase16 :: "octet list" where
  "toBase16 = [48, 49, 50, 51, 52, 53, 54, 55, 56, 57, 97, 98, 99, 100, 101, 102]"

text \<open>\<^verbatim>\<open>char\<close> is compared as a signed number.\<close>

definition hex_value :: "octet \<Rightarrow> ulong res" where
  "hex_value digit =
     (if 48 \<le>s digit \<and> digit \<le>s 57 then Inr (ucast (digit - 48))
      else if 65 \<le>s digit \<and> digit \<le>s 70 then Inr (ucast (digit - 65) + 10)
      else if 97 \<le>s digit \<and> digit \<le>s 102 then Inr (ucast (digit - 97) + 10)
      else Inl InvalidDataFormat)"

fun hex_digits :: "octet list \<Rightarrow> octet list" where
  "hex_digits [] = []"
| "hex_digits (b # bs) =
     (let octet = (ucast b :: ulong); index1 = drop_bit 4 (octet AND 240); index2 = octet AND 15 in
      toBase16 ! unat index1 # toBase16 ! unat index2 # hex_digits bs)"

fun hex_octets :: "nat \<Rightarrow> octet list \<Rightarrow> octet list res" where
  "hex_octets 0 str = Inr []"
| "hex_octets (Suc n) (a # b # str) =
     rbind (hex_value a) (\<lambda>x. rbind (hex_value b) (\<lambda>y. rbind (hex_octets n str) (\<lambda>bs. Inr (ucast (16 * x + y) # bs))))"
| "hex_octets (Suc n) _ = Inl OUT_OF_BOUNDS"

section \<open>References\<close>

text \<open>\<open>iiop_profile\<close> and \<open>miop_profile\<close> are the pointers to the profile that is used, as positions.\<close>

record ior =
  type_id :: "octet list option"
  profiles :: "tagged_profile list"
  ior_string :: "octet list option"
  iiop_searched :: bool
  iiop_position :: nat
  iiop_profile :: "nat option"
  miop_searched :: bool
  miop_position :: nat
  miop_profile :: "nat option"

definition IOR_new :: ior where
  "IOR_new = \<lparr>type_id = None, profiles = [], ior_string = None, iiop_searched = False, iiop_position = 0, iiop_profile = None,
     miop_searched = False, miop_position = 0, miop_profile = None\<rparr>"

text \<open>The loops that look for the profile to use. There is no exit from them: the last profile with the tag is taken.\<close>

fun search_profile :: "ulong \<Rightarrow> nat \<Rightarrow> tagged_profile list \<Rightarrow> bool \<times> nat \<times> nat option \<Rightarrow> bool \<times> nat \<times> nat option" where
  "search_profile tag n [] r = r"
| "search_profile tag n (p # ps) r = search_profile tag (Suc n) ps (if profile_tag p = tag then (False, n, Some n) else r)"

definition search_profiles :: "ior \<Rightarrow> ior" where
  "search_profiles r =
     (let (is, ip, i) = search_profile TAG_INTERNET_IOP 0 (profiles r) (True, iiop_position r, iiop_profile r);
          (ms, mp, k) = search_profile TAG_UIPMC 0 (profiles r) (True, miop_position r, miop_profile r) in
      r\<lparr>iiop_searched := is, iiop_position := ip, iiop_profile := i, miop_searched := ms, miop_position := mp, miop_profile := k\<rparr>)"

definition IOR_of :: "octet list \<Rightarrow> tagged_profile list \<Rightarrow> ior" where
  "IOR_of i ps = search_profiles (IOR_new\<lparr>type_id := Some i, profiles := ps\<rparr>)"

text \<open>\<^verbatim>\<open>operator=\<close>: the copy forgets the profile to use.\<close>

definition IOR_assign :: "ior \<Rightarrow> ior" where
  "IOR_assign r = IOR_new\<lparr>type_id := type_id r, profiles := profiles r, ior_string := ior_string r\<rparr>"

definition is_group_reference :: "ior \<Rightarrow> bool" where
  "is_group_reference r = (\<not> miop_searched r)"

definition get_profile :: "ior \<Rightarrow> nat \<Rightarrow> tagged_profile option" where
  "get_profile r index = (if index \<ge> length (profiles r) then None else Some (profiles r ! index))"

text \<open>A profile behind a pointer that is null or not one of its class is outside of the memory of the program.\<close>

definition used_profile :: "ior \<Rightarrow> profile_iiop res" where
  "used_profile r =
     (case iiop_profile r of None \<Rightarrow> Inl OUT_OF_BOUNDS | Some n \<Rightarrow>
      (case get_profile r n of Some (ProfileIIOP p) \<Rightarrow> Inr p | _ \<Rightarrow> Inl OUT_OF_BOUNDS))"

definition ior_object_key :: "readers \<Rightarrow> malloc \<Rightarrow> ior \<Rightarrow> object_key option res" where
  "ior_object_key rs m r =
     (if \<not> miop_searched r then Inl MARSHAL
      else if \<not> iiop_searched r then rbind (used_profile r) (getObjectKey rs m)
      else Inl INV_OBJREF)"

definition GIOPVersion :: "readers \<Rightarrow> malloc \<Rightarrow> ior \<Rightarrow> version res" where
  "GIOPVersion rs m r =
     (if \<not> miop_searched r then Inr VERSION_1_2
      else if \<not> iiop_searched r then
        (if iiop_profile r = None then Inl INTERNAL
         else rbind (used_profile r) (\<lambda>p. rbind (extract_members rs m p) (\<lambda>p. Inr (pf_version p))))
      else Inl INV_OBJREF)"

fun use_another :: "nat \<Rightarrow> nat \<Rightarrow> tagged_profile list \<Rightarrow> nat option" where
  "use_another position n [] = None"
| "use_another position n (p # ps) =
     (if profile_tag p = TAG_INTERNET_IOP \<and> position \<noteq> n then Some n else use_another position (Suc n) ps)"

definition use_another_Profile_IIOP :: "ior \<Rightarrow> bool \<times> ior" where
  "use_another_Profile_IIOP r =
     (case use_another (iiop_position r) 0 (profiles r) of None \<Rightarrow> (False, r)
      | Some n \<Rightarrow> (True, r\<lparr>iiop_position := n, iiop_profile := Some n\<rparr>))"

section \<open>References in a message\<close>

definition ior_write :: "oid_helper \<Rightarrow> ulong \<Rightarrow> ulong \<Rightarrow> malloc \<Rightarrow> ior \<Rightarrow> iter \<Rightarrow> iter res" where
  "ior_write helper s d m r it = rbind (write_string m (type_id r) it) (write_counted (profile_write helper s d) m (profiles r))"

definition ior_read :: "malloc \<Rightarrow> iter \<Rightarrow> (ior \<times> iter) res" where
  "ior_read m it =
     rbind (read_string it) (\<lambda>(i, it).
     rbind (read_counted (profile_read m) it) (\<lambda>(ps, it).
       Inr (search_profiles (IOR_new\<lparr>type_id := Some (c_string i), profiles := ps\<rparr>), it)))"

fun skip_profiles :: "nat \<Rightarrow> iter \<Rightarrow> iter res" where
  "skip_profiles 0 it = Inr it"
| "skip_profiles (Suc n) it = rbind (profile_skip it) (skip_profiles n)"

definition ior_skip :: "iter \<Rightarrow> iter res" where
  "ior_skip it = rbind (skip_string it) (\<lambda>it. rbind (read_ulong it) (\<lambda>(size, it). skip_profiles (unat size) it))"

section \<open>References as text\<close>

text \<open>The loop over the chunks ends with the length of the text. \<open>i\<close> counts the characters that are there.\<close>

fun hex_chunks :: "ulong \<Rightarrow> ulong \<Rightarrow> chunk list \<Rightarrow> octet list res" where
  "hex_chunks i buffer_length [] = (if i < buffer_length - 1 then Inl OUT_OF_BOUNDS else Inr [])"
| "hex_chunks i buffer_length (c # cs) =
     (if i < buffer_length - 1 then
        rbind (load c (m_buffer c) (unat (chunk_get_available_bytes c))) (\<lambda>bs.
          if unat i + 2 * length bs > unat buffer_length then Inl OUT_OF_BOUNDS
          else rbind (hex_chunks (i + 2 * word_of_nat (length bs)) buffer_length cs) (\<lambda>str. Inr (hex_digits bs @ str)))
      else Inr [])"

definition ior_prefix :: "octet list" where "ior_prefix = [73, 79, 82, 58]"

definition ior_toString :: "oid_helper \<Rightarrow> ulong \<Rightarrow> ulong \<Rightarrow> malloc \<Rightarrow> bool \<Rightarrow> ior \<Rightarrow> octet list res" where
  "ior_toString helper s d m local_order r =
     (case ior_string r of Some str \<Rightarrow> Inr str | None \<Rightarrow>
        rbind (encaps m s local_order (ior_write helper s d m r)) (\<lambda>ior_output.
          let cdr_buffer = m_bufferCDR ior_output; buffer_length = 2 * get_available_bytes cdr_buffer + 5 in
          rbind (hex_chunks 4 buffer_length (m_chunks cdr_buffer)) (\<lambda>str. Inr (ior_prefix @ str))))"

text \<open>The two digits of an octet are taken from the text with \<^verbatim>\<open>j++\<close> twice in one expression; the order is that of the
  text, as the code expects it.\<close>

definition ior_fromString :: "malloc \<Rightarrow> bool \<Rightarrow> octet list \<Rightarrow> ior res" where
  "ior_fromString m local_order str =
     (let len = length str in
      if len mod 2 \<noteq> 0 \<or> len < 14 then Inl INV_OBJREF
      else if take 4 str \<noteq> ior_prefix then Inl INV_OBJREF
      else let buffer_length = word_of_nat ((len - 4) div 2) :: ulong in
        rbind (ChunkCDR m 0 buffer_length) (\<lambda>c. let c = chunk_set_available_bytes c buffer_length in
        rbind (case hex_octets (unat buffer_length) (drop 4 str) of Inl _ \<Rightarrow> Inl INV_OBJREF | Inr bs \<Rightarrow> store c (m_buffer c) bs) (\<lambda>c.
        rbind (CDRInputStream local_order (BufferCDR_of_chunk local_order c None 0)) (\<lambda>internet_cdr.
        rbind (read_boolean internet_cdr) (\<lambda>(flag, internet_cdr).
        rbind (ior_read m (set_byte_order flag internet_cdr)) (\<lambda>(r, _). Inr (r\<lparr>ior_string := Some str\<rparr>)))))))"

text \<open>\<^verbatim>\<open>hashCode\<close> is the number at the start of the text.\<close>

definition ior_hashCode :: "oid_helper \<Rightarrow> ulong \<Rightarrow> ulong \<Rightarrow> malloc \<Rightarrow> bool \<Rightarrow> ior \<Rightarrow> ulong res" where
  "ior_hashCode helper s d m local_order r =
     rbind (ior_toString helper s d m local_order r) (\<lambda>str. Inr (word_of_int (atoi (octets_string str))))"

section \<open>Equivalence\<close>

fun same_profile :: "(profile_iiop \<Rightarrow> bool res) \<Rightarrow> tagged_profile list \<Rightarrow> bool res" where
  "same_profile f [] = Inr False"
| "same_profile f (ProfileIIOP q # qs) = rbind (f q) (\<lambda>b. if b then Inr True else same_profile f qs)"
| "same_profile f (_ # qs) = Inl OUT_OF_BOUNDS"

text \<open>The inner loop tests the tag of the profile at the position of the outer one.\<close>

fun equivalent_loop :: "(profile_iiop \<Rightarrow> profile_iiop \<Rightarrow> bool res) \<Rightarrow> tagged_profile list \<Rightarrow> tagged_profile list \<Rightarrow> tagged_profile list \<Rightarrow> bool res" where
  "equivalent_loop eq (p # ps) (q # qs) maxs =
     (case p of
        ProfileIIOP a \<Rightarrow>
          if profile_tag q = TAG_INTERNET_IOP
          then rbind (same_profile (eq a) maxs) (\<lambda>b. if b then Inr True else equivalent_loop eq ps qs maxs)
          else equivalent_loop eq ps qs maxs
      | _ \<Rightarrow> equivalent_loop eq ps qs maxs)"
| "equivalent_loop eq _ _ maxs = Inr False"

definition ior_equivalent :: "oid_helper \<Rightarrow> readers \<Rightarrow> malloc \<Rightarrow> ulong \<Rightarrow> bool \<Rightarrow> ior \<Rightarrow> ior \<Rightarrow> bool res" where
  "ior_equivalent helper rs m d local_order r r' =
     (if profiles r = [] \<or> profiles r' = [] then Inr False
      else case (type_id r, type_id r') of
        (Some i, Some j) \<Rightarrow>
          if c_string i \<noteq> c_string j then Inr False
          else let (ior_min, ior_max) = (if length (profiles r) > length (profiles r') then (r', r) else (r, r')) in
            equivalent_loop (ProfileIIOP_eq helper rs m d local_order) (profiles ior_min) (profiles ior_max) (profiles ior_max)
      | _ \<Rightarrow> Inl OUT_OF_BOUNDS)"

section \<open>The digits\<close>

lemma hex_value_digit: "n < 16 \<Longrightarrow> hex_value (toBase16 ! n) = Inr (word_of_nat n)"
proof -
  have "\<forall>n \<in> set [0..<16]. hex_value (toBase16 ! n) = Inr (word_of_nat n)" by code_simp
  then show "n < 16 \<Longrightarrow> hex_value (toBase16 ! n) = Inr (word_of_nat n)" by simp
qed

lemma hex_indices:
  "unat (drop_bit 4 ((ucast (b :: octet) :: ulong) AND 240)) = unat b div 16" "unat ((ucast (b :: octet) :: ulong) AND 15) = unat b mod 16"
proof -
  have "\<forall>n \<in> set [0..<256]. unat (drop_bit 4 ((ucast (word_of_nat n :: octet) :: ulong) AND 240)) = n div 16 \<and>
      unat ((ucast (word_of_nat n :: octet) :: ulong) AND 15) = n mod 16" by code_simp
  moreover have "unat b \<in> set [0..<256]" using unat_bound(1) [of b] by simp
  ultimately have "unat (drop_bit 4 ((ucast (word_of_nat (unat b) :: octet) :: ulong) AND 240)) = unat b div 16 \<and>
      unat ((ucast (word_of_nat (unat b) :: octet) :: ulong) AND 15) = unat b mod 16" by (rule bspec)
  moreover have "(word_of_nat (unat b) :: octet) = b" by simp
  ultimately show "unat (drop_bit 4 ((ucast b :: ulong) AND 240)) = unat b div 16" "unat ((ucast b :: ulong) AND 15) = unat b mod 16"
    by simp_all
qed

lemma hex_digits_Cons: "hex_digits (b # bs) = toBase16 ! (unat b div 16) # toBase16 ! (unat b mod 16) # hex_digits bs"
  by (simp only: hex_digits.simps Let_def hex_indices)

lemma hex_octets_digits: "hex_octets (length bs) (hex_digits bs) = Inr bs"
proof (induction bs)
  case (Cons b bs)
  have u: "unat b < 256" using unat_bound(1) [of b] by simp
  then have v: "hex_value (toBase16 ! (unat b div 16)) = Inr (word_of_nat (unat b div 16))"
    "hex_value (toBase16 ! (unat b mod 16)) = Inr (word_of_nat (unat b mod 16))" by (intro hex_value_digit, simp)+
  have "16 * word_of_nat (unat b div 16) + word_of_nat (unat b mod 16) = (word_of_nat (unat b) :: ulong)"
    by (metis div_mult_mod_eq mult.commute of_nat_add of_nat_mult of_nat_numeral)
  then have "(ucast (16 * word_of_nat (unat b div 16) + word_of_nat (unat b mod 16) :: ulong) :: octet) = b"
    using u by (simp add: word_unat_eq_iff unsigned_ucast_eq unsigned_take_bit_eq take_bit_nat_eq_self unat_of_nat)
  with Cons v show ?case by (simp add: hex_digits_Cons del: hex_digits.simps(2))
qed simp

lemma length_hex_digits: "length (hex_digits bs) = 2 * length bs"
  by (induction bs) (simp_all add: Let_def)

lemma hex_chunks_digits:
  "\<forall>c \<in> set cs. chunk_wf c \<Longrightarrow> unat i + 2 * length (concat (map chunk_data cs)) = unat len - 1 \<Longrightarrow> len > 0 \<Longrightarrow>
   hex_chunks i len cs = Inr (hex_digits (concat (map chunk_data cs)))"
proof (induction cs arbitrary: i)
  case Nil
  have "unat (len - 1) = unat len - 1" using Nil(3) by (simp add: unat_minus_one word_gt_0)
  with Nil show ?case by (simp add: word_less_nat_alt)
next
  case (Cons c cs)
  have l1: "unat (len - 1) = unat len - 1" using Cons.prems(3) by (simp add: unat_minus_one word_gt_0)
  have app: "hex_digits (a @ b) = hex_digits a @ hex_digits b" for a b by (induction a) (simp_all add: Let_def)
  have w: "chunk_wf c" using Cons.prems(1) by simp
  show ?case
  proof (cases "i < len - 1")
    case False
    then have "unat len - 1 \<le> unat i" using l1 by (simp add: word_less_nat_alt)
    then have "length (concat (map chunk_data (c # cs))) = 0" using Cons.prems(2) by linarith
    then have "concat (map chunk_data (c # cs)) = []" by (simp only: length_0_conv)
    then show ?thesis using False by (simp only: hex_chunks.simps if_False hex_digits.simps)
  next
    case True
    have ld: "load c (m_buffer c) (unat (chunk_get_available_bytes c)) = Inr (chunk_data c)"
      using load_chunk_data [OF w, of "m_buffer c" "length (chunk_data c)"] w
      by (simp add: chunk_available_unat length_chunk_data) (auto simp: chunk_wf_def)
    have tot: "unat i + 2 * length (chunk_data c) + 2 * length (concat (map chunk_data cs)) = unat len - 1" using Cons.prems(2) by simp
    then have "unat i + 2 * length (chunk_data c) < 2 ^ 32" using unat_bound(3) [of len] by simp
    then have u: "unat (i + 2 * word_of_nat (length (chunk_data c))) = unat i + 2 * length (chunk_data c)"
      by (simp add: unat_word_ariths unat_of_nat)
    from Cons.IH [of "i + 2 * word_of_nat (length (chunk_data c))"] Cons.prems tot u
    have "hex_chunks (i + 2 * word_of_nat (length (chunk_data c))) len cs = Inr (hex_digits (concat (map chunk_data cs)))" by simp
    with True ld tot app show ?thesis by simp
  qed
qed

section \<open>Writing and reading a reference\<close>

definition ior_ok :: "readers \<Rightarrow> ior \<Rightarrow> bool" where
  "ior_ok rs r \<longleftrightarrow> type_id r \<noteq> None \<and> string_ok (the (type_id r)) \<and> counted_ok (tagged_ok rs) (profiles r)"

definition ior_img :: "ior \<Rightarrow> image" where
  "ior_img r = img_then (string_img (the (type_id r))) (counted_img tagged_img (profiles r))"

definition ior_rel :: "ior \<Rightarrow> ior \<Rightarrow> bool" where
  "ior_rel r r' \<longleftrightarrow> type_id r' = type_id r \<and> list_all2 tagged_rel (profiles r) (profiles r') \<and>
     r' = search_profiles (IOR_new\<lparr>type_id := type_id r, profiles := profiles r'\<rparr>)"

lemma search_profiles_fields [simp]:
  "type_id (search_profiles r) = type_id r" "profiles (search_profiles r) = profiles r" "ior_string (search_profiles r) = ior_string r"
  by (simp_all add: search_profiles_def split_def Let_def)

lemma ior_transfer:
  assumes "malloc_ok m'" "malloc_total m'" "block_ok s" "block_ok d" "helper_ok helper"
  shows "cdr_transfer (ior_write helper s d) (ior_read m') (ior_ok rs) ior_img ior_rel"
proof
  note pt = cdr_transfer.counted [OF profile_transfer [OF assms, of rs]]
  fix m r assume a: "malloc_ok m" "ior_ok rs r"
  then obtain i where i: "type_id r = Some i" by (auto simp: ior_ok_def)
  show "emits m (ior_write helper s d m r) (ior_img r)"
    unfolding ior_write_def [abs_def] ior_img_def i option.sel
    by (intro emits_then t_string.wr_emits cdr_transfer.wr_emits [OF pt] a) (use a i in \<open>simp_all add: ior_ok_def\<close>)
next
  note pt = cdr_transfer.counted [OF profile_transfer [OF assms, of rs]]
  fix r assume a: "ior_ok rs r"
  show "parses (ior_img r) (ior_read m') (ior_rel r)"
    unfolding ior_read_def [abs_def] ior_img_def
    by (rule parses_then [OF t_string.rd_parses parses_last [OF cdr_transfer.rd_parses [OF pt]]])
      (use a in \<open>auto simp: ior_ok_def ior_rel_def c_string_sent\<close>)
qed

section \<open>Reading the text\<close>

lemma store_set_available:
  "store (chunk_set_available_bytes c n) a bs = rbind (store c a bs) (\<lambda>c. Inr (chunk_set_available_bytes c n))"
  by (auto simp: store_def chunk_set_available_bytes_def Let_def)

text \<open>The stream over the octets of the text, behind the byte order.\<close>

lemma text_stream:
  assumes "malloc_ok m" "malloc_total m" "length d < 2 ^ 31 - 16" "d \<noteq> []"
  shows "\<exists>c c' e0 e1. ChunkCDR m 0 (word_of_nat (length d)) = Inr c \<and>
    store (chunk_set_available_bytes c (word_of_nat (length d))) (m_buffer (chunk_set_available_bytes c (word_of_nat (length d)))) d = Inr c' \<and>
    CDRInputStream order (BufferCDR_of_chunk order c' None 0) = Inr e0 \<and>
    read_boolean e0 = Inr (hd d \<noteq> 0, e1) \<and> opened d (set_byte_order (hd d \<noteq> 0) e1)"
proof -
  define n where "n = (word_of_nat (length d) :: ulong)"
  have n: "length d = unat n" "size_ok n" using assms(3) by (auto simp: n_def unat_of_nat size_ok_def)
  obtain c where c: "ChunkCDR m 0 n = Inr c"
    using assms(2) by (fastforce simp: ChunkCDR_def malloc_total_def Let_def split: option.splits)
  from filled_chunk [OF assms(1) n(2) c n(1)] obtain c' where c': "store c (m_buffer c) d = Inr c'"
    "chunk_wf (chunk_set_available_bytes c' n)" "chunk_data (chunk_set_available_bytes c' n) = d"
    "m_length (chunk_set_available_bytes c' n) = n" by blast
  have st: "store (chunk_set_available_bytes c n) (m_buffer (chunk_set_available_bytes c n)) d = Inr (chunk_set_available_bytes c' n)"
    using c'(1) by (simp add: store_set_available) (simp add: chunk_set_available_bytes_def)
  let ?b = "BufferCDR_of_chunk order (chunk_set_available_bytes c' n) None 0"
  obtain e0 where e0: "CDRInputStream order ?b = Inr e0"
    by (auto simp: CDRInputStream_def IteratorCDR_def get_chunk_def BufferCDR_of_chunk_def)
  note v = mono_chunk_stream [OF _ c'(2) _ e0, unfolded c'(3,4), OF _ n(2)]
  have v: "in_ok e0" "in_data e0 = d" "in_pos e0 = 0" "local_byte_order e0 = order" "m_version e0 = VERSION_1_2"
    by (rule v, simp add: BufferCDR_of_chunk_def)+
  obtain x xs where d: "d = x # xs" using assms(4) by (cases d) auto
  have "reads e0 x (length [x]) (read_octet e0)"
    by (rule octet.rd_step [OF v(1), of _ _ xs]) (use v d in \<open>simp_all add: octet_image_plain\<close>)
  from reads_result [OF this, of "\<lambda>y. y \<noteq> 0"] obtain e1 where e1: "read_boolean e0 = Inr (x \<noteq> 0, e1)" "in_ok e1" "same_input e0 e1"
    "in_pos e1 = 1" using v(3) by (auto simp: reads_def read_boolean_def)
  then have "opened d (set_byte_order (x \<noteq> 0) e1)"
    using v assms(3) d by (auto simp: opened_def set_byte_order_view same_input_def same_mode_def)
  with c st e0 e1 d show ?thesis by (auto simp: n_def)
qed

lemma ior_content_length: "content (ior_img r) d \<Longrightarrow> 5 \<le> length d"
  by (auto simp: content_def ior_img_def img_then_def string_img_def string_image_def prim_image_def)

lemma read_text:
  assumes "malloc_ok m'" "malloc_total m'" "ior_ok rs r" "content (ior_img r) d" "length d < 2 ^ 31 - 16"
  shows "\<exists>r'. ior_fromString m' order (ior_prefix @ hex_digits d) = Inr (r'\<lparr>ior_string := Some (ior_prefix @ hex_digits d)\<rparr>) \<and> ior_rel r r'"
proof -
  let ?str = "ior_prefix @ hex_digits d" and ?n = "word_of_nat (length d) :: ulong"
  have len: "5 \<le> length d" by (rule ior_content_length [OF assms(4)])
  have ls: "length ?str = 4 + 2 * length d" "take 4 ?str = ior_prefix" "drop 4 ?str = hex_digits d"
    by (simp_all add: length_hex_digits ior_prefix_def)
  have n: "unat ?n = length d" using assms(5) by (simp add: unat_of_nat)
  from len have "d \<noteq> []" by auto
  from text_stream [OF assms(1,2,5) this] obtain c c' e0 e1 where S: "ChunkCDR m' 0 ?n = Inr c"
    "store (chunk_set_available_bytes c ?n) (m_buffer (chunk_set_available_bytes c ?n)) d = Inr c'"
    "CDRInputStream order (BufferCDR_of_chunk order c' None 0) = Inr e0" "read_boolean e0 = Inr (hd d \<noteq> 0, e1)"
    "opened d (set_byte_order (hd d \<noteq> 0) e1)" by blast
  have arr: "arrived (content (ior_img r)) (set_byte_order (hd d \<noteq> 0) e1)" using S(5) assms(4) by (auto simp: arrived_def)
  note it = ior_transfer [OF assms(1,2) sample_block_ok sample_block_ok octet_seq_helper_ok]
  obtain r' e2 where R: "ior_read m' (set_byte_order (hd d \<noteq> 0) e1) = Inr (r', e2)" "ior_rel r r'"
    by (rule open_content [OF arr cdr_transfer.rd_parses [OF it assms(3)]])
  have "\<not> (length ?str mod 2 \<noteq> 0 \<or> length ?str < 14)" using len ls(1) by simp
  moreover have "(length ?str - 4) div 2 = length d" using ls(1) by simp
  ultimately have "ior_fromString m' order ?str = Inr (r'\<lparr>ior_string := Some ?str\<rparr>)"
    unfolding ior_fromString_def Let_def
    by (simp only: if_False ls(2,3) refl not_True_eq_False S(1-4) R(1) n hex_octets_digits sum.case rbind.simps split_conv)
  with R(2) show ?thesis by blast
qed

section \<open>Writing the text\<close>

lemma write_text:
  assumes "malloc_ok m" "block_ok s" "block_ok d" "helper_ok helper" "ior_ok rs r" "ior_string r = None"
    and "encaps m s order (ior_write helper s d m r) = Inr e" "length (octets_of e) < 2 ^ 31 - 16"
  shows "content (ior_img r) (octets_of e)" "ior_toString helper s d m order r = Inr (ior_prefix @ hex_digits (octets_of e))"
proof -
  note it = ior_transfer [OF sample_malloc_ok assms(2-4)]
  from emits_makes [OF assms(1,2) cdr_transfer.wr_emits [OF it assms(1,5)], of order] assms(7)
  have h: "buffer_wf (m_bufferCDR e)" "content (ior_img r) (octets_of e)" by (auto simp: makes_def holds_def octets_of_def)
  then show "content (ior_img r) (octets_of e)" by simp
  let ?len = "2 * get_available_bytes (m_bufferCDR e) + 5"
  have "get_available_bytes (m_bufferCDR e) = word_of_nat (length (octets_of e))"
    using h(1) by (simp add: buffer_wf_def buffer_available octets_of_def)
  then have len: "unat ?len = 2 * length (octets_of e) + 5" using assms(8) by (simp add: unat_word_ariths unat_of_nat)
  have wf: "\<forall>c \<in> set (m_chunks (m_bufferCDR e)). chunk_wf c" using h(1) by (simp add: buffer_wf_def)
  have o: "concat (map chunk_data (m_chunks (m_bufferCDR e))) = octets_of e" by (simp add: octets_of_def buffer_data_def)
  have pos: "0 < ?len" using len by (simp only: word_less_nat_alt) simp
  have sum: "unat (4 :: ulong) + 2 * length (octets_of e) = unat ?len - 1" using len by simp
  have "hex_chunks 4 ?len (m_chunks (m_bufferCDR e)) = Inr (hex_digits (octets_of e))"
    using hex_chunks_digits [OF wf _ pos, of 4] sum o by simp
  then show "ior_toString helper s d m order r = Inr (ior_prefix @ hex_digits (octets_of e))"
    using assms(6,7) by (simp add: ior_toString_def Let_def)
qed

section \<open>The profile in use\<close>

lemma search_profile_rel:
  "list_all2 tagged_rel ps qs \<Longrightarrow> list_all (tagged_ok rs) ps \<Longrightarrow> search_profile t n qs x = search_profile t n ps x"
proof (induction ps qs arbitrary: n x rule: list_all2_induct)
  case (Cons p ps q qs)
  then have "profile_tag q = profile_tag p" by (cases p) (auto simp: tagged_rel_def)
  with Cons show ?case by simp
qed simp

text \<open>A reference whose pointers are those that its constructor or \<^verbatim>\<open>read\<close> sets.\<close>

definition ior_current :: "ior \<Rightarrow> bool" where
  "ior_current r \<longleftrightarrow>
     (iiop_searched r, iiop_position r, iiop_profile r) = search_profile TAG_INTERNET_IOP 0 (profiles r) (True, 0, None) \<and>
     (miop_searched r, miop_position r, miop_profile r) = search_profile TAG_UIPMC 0 (profiles r) (True, 0, None)"

lemma ior_current_new: "ior_current (search_profiles (IOR_new\<lparr>type_id := i, profiles := ps\<rparr>))" "ior_current (IOR_of j ps)"
  by (simp_all add: ior_current_def search_profiles_def IOR_of_def IOR_new_def Let_def split_def)

lemma ior_current_string: "ior_current (r\<lparr>ior_string := x\<rparr>) = ior_current r"
  by (simp add: ior_current_def)

text \<open>The key that a received reference gives is the one of the profile that the sender uses.\<close>

lemma ior_rel_pointers:
  assumes "ior_ok rs r" "ior_rel r r'" "ior_current r"
  shows "iiop_searched r' = iiop_searched r" "iiop_profile r' = iiop_profile r" "miop_searched r' = miop_searched r"
proof -
  have rel: "list_all2 tagged_rel (profiles r) (profiles r')" "ior_current r'"
    using assms(2) ior_current_new(1) unfolding ior_rel_def by (auto, metis)
  have ok: "list_all (tagged_ok rs) (profiles r)" using assms(1) by (simp add: ior_ok_def counted_ok_def)
  show "iiop_searched r' = iiop_searched r" "iiop_profile r' = iiop_profile r" "miop_searched r' = miop_searched r"
    using rel(2) assms(3) unfolding ior_current_def search_profile_rel [OF rel(1) ok] by (metis prod.inject)+
qed

definition key_kept :: "readers \<Rightarrow> malloc \<Rightarrow> ior \<Rightarrow> poa_key \<Rightarrow> bool" where
  "key_kept rs m r pk \<longleftrightarrow> (\<exists>k. ior_object_key rs m r = Inr (Some k) \<and> key_value k = Inr pk)"

lemma key_kept_string: "key_kept rs m (r\<lparr>ior_string := x\<rparr>) pk = key_kept rs m r pk"
proof -
  have "used_profile (r\<lparr>ior_string := x\<rparr>) = used_profile r"
    by (cases "iiop_profile r") (simp_all add: used_profile_def get_profile_def)
  then show ?thesis by (simp add: key_kept_def ior_object_key_def)
qed

text \<open>A reference that a POA has made: it is not a group reference and the profile in use has the key.\<close>

definition reference_to :: "readers \<Rightarrow> poa_key \<Rightarrow> ior \<Rightarrow> bool" where
  "reference_to rs pk r \<longleftrightarrow> ior_ok rs r \<and> ior_current r \<and> miop_searched r \<and> \<not> iiop_searched r \<and>
     (\<exists>p. used_profile r = Inr p \<and> pf_data p = None \<and> pf_extracted p \<and> pf_key p = Some (Key pk))"

lemma ior_rel_key:
  assumes "malloc_ok m'" "malloc_total m'" "reference_to rs pk r" "ior_rel r r'"
  shows "key_kept rs m' r' pk"
proof -
  from assms(3) obtain p where r: "ior_ok rs r" "ior_current r" "miop_searched r" "\<not> iiop_searched r"
    and p: "used_profile r = Inr p" "pf_data p = None" "pf_key p = Some (Key pk)" by (auto simp: reference_to_def)
  note ptr = ior_rel_pointers [OF r(1) assms(4) r(2)]
  from p(1) obtain n where n: "iiop_profile r = Some n" "n < length (profiles r)" "profiles r ! n = ProfileIIOP p"
    by (auto simp: used_profile_def get_profile_def split: option.splits if_splits tagged_profile.splits)
  have "tagged_rel (ProfileIIOP p) (profiles r' ! n)" "length (profiles r') = length (profiles r)"
    using assms(4) n by (auto simp: ior_rel_def list_all2_conv_all_nth)
  moreover have "tagged_ok rs (ProfileIIOP p)" using r(1) n by (metis ior_ok_def counted_ok_def list_all_length)
  then have ok: "members_ok rs p" using p(2) by simp
  ultimately obtain e q where q: "profiles r' ! n = ProfileIIOP (ProfileIIOP_new\<lparr>pf_data := Some e\<rparr>)" "n < length (profiles r')"
    "extract_members rs m' (ProfileIIOP_new\<lparr>pf_data := Some e\<rparr>) = Inr q" "members_rel p q"
    using members_arrive [OF assms(1,2) ok p(2)] n(2) by metis
  then obtain k where k: "pf_key q = Some k" "key_rel (Key pk) k" using p(3) by (auto simp: members_rel_def)
  have "key_ok pk" using ok p(3) by (simp add: members_ok_def)
  with k key_arrives have "key_value k = Inr pk" by blast
  moreover have "ior_object_key rs m' r' = Inr (Some k)"
    using ptr r(3,4) n(1) q k(1) by (simp add: ior_object_key_def used_profile_def get_profile_def getObjectKey_def)
  ultimately show ?thesis by (auto simp: key_kept_def)
qed

section \<open>Properties\<close>

text \<open>How a profile of the reference that was written is found in the one that is read: the members of an IIOP profile
  are there when it is opened, and a profile that was itself received is the same octets.\<close>

fun profile_carried :: "readers \<Rightarrow> malloc \<Rightarrow> tagged_profile \<Rightarrow> tagged_profile \<Rightarrow> bool" where
  "profile_carried rs m (ProfileIIOP p) (ProfileIIOP q) \<longleftrightarrow>
     (case pf_data p of None \<Rightarrow> \<exists>q'. extract_members rs m q = Inr q' \<and> members_rel p q'
      | Some e \<Rightarrow> \<exists>e'. pf_data q = Some e' \<and> octets_of e' = octets_of e)"
| "profile_carried rs m (ProfileMIOP e) (ProfileMIOP e') \<longleftrightarrow> octets_of e' = octets_of e"
| "profile_carried rs m _ _ \<longleftrightarrow> False"

lemma arrived_octets: "arrived (\<lambda>d. d = octets_of e) e' \<Longrightarrow> octets_of e' = octets_of e"
  using arrived_holds by (fastforce simp: holds_def octets_of_def)

lemma tagged_rel_carried:
  assumes "malloc_ok m'" "malloc_total m'" "tagged_ok rs p" "tagged_rel p q"
  shows "profile_carried rs m' p q"
proof (cases p)
  case (ProfileIIOP p')
  show ?thesis
  proof (cases "pf_data p'")
    case None
    with assms ProfileIIOP members_arrive [OF assms(1,2), of rs p' q] show ?thesis by auto
  next
    case (Some e)
    with assms ProfileIIOP arrived_octets show ?thesis by (auto simp: tagged_rel_def)
  qed
qed (use assms arrived_octets in \<open>auto simp: tagged_rel_def\<close>)

text \<open>C25. A reference as text is the reference: what \<^verbatim>\<open>toString\<close> writes, \<^verbatim>\<open>fromString\<close> reads back on any host, with the same type, the
  same profiles in the same order, and in each IIOP profile the same version, address, key and components. The reference
  that is read leads to the object key of the one that was written.\<close>

theorem ior_string_roundtrip:
  assumes "malloc_ok m" "block_ok s" "block_ok d" "helper_ok helper" "ior_ok rs r" "ior_string r = None"
    and "encaps m s order (ior_write helper s d m r) = Inr e" "length (octets_of e) < 2 ^ 31 - 16"
    and "malloc_ok m'" "malloc_total m'"
  shows "\<exists>str r'. ior_toString helper s d m order r = Inr str \<and> ior_fromString m' order' str = Inr r' \<and>
    type_id r' = type_id r \<and> list_all2 (profile_carried rs m') (profiles r) (profiles r') \<and>
    (\<forall>pk. reference_to rs pk r \<longrightarrow> key_kept rs m' r' pk)"
proof -
  note W = write_text [OF assms(1-8)]
  from read_text [OF assms(9,10,5) W(1) assms(8)] obtain r' where
    r': "ior_fromString m' order' (ior_prefix @ hex_digits (octets_of e)) = Inr (r'\<lparr>ior_string := Some (ior_prefix @ hex_digits (octets_of e))\<rparr>)"
    "ior_rel r r'" by blast
  have "list_all2 (profile_carried rs m') (profiles r) (profiles r')"
    using r'(2) assms(5) tagged_rel_carried [OF assms(9,10)]
    by (auto simp: ior_rel_def ior_ok_def counted_ok_def list_all2_conv_all_nth list_all_length)
  moreover have "\<forall>pk. reference_to rs pk r \<longrightarrow> key_kept rs m' (r'\<lparr>ior_string := Some (ior_prefix @ hex_digits (octets_of e))\<rparr>) pk"
    using ior_rel_key [OF assms(9,10) _ r'(2)] by (simp only: key_kept_string) blast
  moreover have "type_id r' = type_id r" using r'(2) by (simp add: ior_rel_def)
  ultimately show ?thesis using W(2) r'(1) by (intro exI [of _ "ior_prefix @ hex_digits (octets_of e)"] exI conjI) simp_all
qed

lemma fromString_text:
  assumes "ior_fromString m order str = Inr r"
  shows "ior_string r = Some str" "take 4 str = ior_prefix"
proof -
  from assms have c: "\<not> (length str mod 2 \<noteq> 0 \<or> length str < 14)" "take 4 str = ior_prefix"
    unfolding ior_fromString_def Let_def by (metis Inl_Inr_False)+
  then show "take 4 str = ior_prefix" by simp
  from assms show "ior_string r = Some str"
    unfolding ior_fromString_def Let_def using c by (simp only: if_False refl not_True_eq_False rbind_eq_Inr split_paired_Ex split_conv) auto
qed

text \<open>C27. The hash of a reference tells nothing: the number at the start of a text that begins with \<^verbatim>\<open>IOR:\<close> is zero.\<close>

theorem ior_hash_zero:
  assumes "ior_string r = None \<or> (\<exists>m' order' str. ior_fromString m' order' str = Inr r)" "ior_hashCode helper s d m order r = Inr h"
  shows "h = 0"
proof -
  have "(char_of (73 :: nat) :: char) = CHR ''I''" by code_simp
  then have "octets_string (ior_prefix @ t) = CHR ''I'' # octets_string (tl ior_prefix @ t)" for t
    by (simp add: ior_prefix_def octets_string_def)
  then have zero: "atoi (octets_string (ior_prefix @ t)) = 0" for t by (simp add: atoi_def isspace_def isdigit_def)
  from assms(2) obtain str where str: "ior_toString helper s d m order r = Inr str" "h = word_of_int (atoi (octets_string str))"
    by (auto simp: ior_hashCode_def rbind_eq_Inr)
  have "\<exists>t. str = ior_prefix @ t"
  proof (cases "ior_string r")
    case None
    with str(1) show ?thesis by (auto simp: ior_toString_def Let_def rbind_eq_Inr)
  next
    case (Some x)
    with assms(1) obtain m' order' x' where f: "ior_fromString m' order' x' = Inr r" by auto
    from fromString_text [OF f] Some have "take 4 x = ior_prefix" by simp
    moreover have "str = x" using Some str(1) by (simp add: ior_toString_def)
    ultimately have "str = ior_prefix @ drop 4 x" using append_take_drop_id [of 4 x] by simp
    then show ?thesis by blast
  qed
  with zero str(2) show ?thesis by auto
qed

text \<open>Two references that share an IIOP profile are not equivalent when another profile stands at the position
  of the shared one.\<close>

theorem equivalent_misses_profile:
  "ior_equivalent helper rs m d order (IOR_of i [ProfileIIOP p]) (IOR_of i [ProfileMIOP e, ProfileIIOP p]) = Inr False"
  by (simp add: ior_equivalent_def IOR_of_def profile_tags)

text \<open>However many alternate addresses an IIOP profile has, one address is left when its members are extracted.\<close>

theorem alternate_addresses_dropped:
  assumes "\<not> pf_extracted p" "extract_members rs m p = Inr q"
  shows "length (pf_listen_points q) = 1"
  using assms by (auto simp: extract_members_def rbind_eq_Inr Let_def split: option.splits)

section \<open>A sample reference\<close>

definition sample_readers :: readers where
  "sample_readers = \<lparr>special = (\<lambda>tag e. Inr e), ssl_port = (\<lambda>e. 0)\<rparr>"

definition sample_profile :: profile_iiop where
  "sample_profile = ProfileIIOP_of VERSION_1_2 (ListenPoint [104, 111] 2809) (Key sample_key)
     [ORBComponent 5 None, AlternateIIOPAddress (ListenPoint [105] 2810) None, HeartbeatEnabled True None]"

definition sample_ior :: ior where
  "sample_ior = IOR_of [73, 68, 76] [ProfileIIOP sample_profile]"

lemma sample_ior_ok: "ior_ok sample_readers sample_ior"
proof -
  have "version_ok VERSION_1_2" by (simp add: version_ok_cases)
  then show ?thesis
    by (simp add: ior_ok_def sample_ior_def IOR_of_def counted_ok_def members_ok_def sample_profile_def ProfileIIOP_of_def
        sample_key_ok listen_point_ok_def host_octets_def ListenPoint_def string_ok_def cache_ok_def)
qed

lemma sample_reference: "reference_to sample_readers sample_key sample_ior"
proof -
  have "ior_current sample_ior" unfolding sample_ior_def by (rule ior_current_new(2))
  moreover have "miop_searched sample_ior" "\<not> iiop_searched sample_ior" "used_profile sample_ior = Inr sample_profile"
    by (simp_all add: sample_ior_def IOR_of_def search_profiles_def Let_def profile_tags IOR_new_def used_profile_def get_profile_def)
  moreover have "pf_data sample_profile = None" "pf_extracted sample_profile" "pf_key sample_profile = Some (Key sample_key)"
    by (simp_all add: sample_profile_def ProfileIIOP_of_def)
  ultimately show ?thesis using sample_ior_ok by (simp add: reference_to_def)
qed

lemma sample_key_le: "content (key_img sample_key) d \<Longrightarrow> length d \<le> 100"
  using sample_key_length by (fastforce simp: content_def key_img_def)

lemma sample_members_le: "img_le (members_img sample_profile) 1000"
proof -
  have p': "img_le (listen_point_img a) (length (host_octets a) + 8 + 3)" for a
    unfolding listen_point_img_def by (intro img_le_intros)
  have p: "img_le (listen_point_img (ListenPoint [b] q)) 12" "img_le (listen_point_img (ListenPoint [a, b] q)) 13" for a b q
    by (rule img_le_weaken [OF p'], simp add: host_octets_def ListenPoint_def)+
  have c: "img_le (component_img (ORBComponent 5 None)) 22" "img_le (component_img (AlternateIIOPAddress (ListenPoint [105] 2810) None)) 27"
      "img_le (component_img (HeartbeatEnabled True None)) 16"
    unfolding component_img_def component_content.simps
    by (rule img_le_weaken, rule img_le_then, rule img_le_ulong, rule img_le_content, erule content_le [rotated],
        (rule img_le_ulong p img_le_boolean), simp)+
  have "img_le (imgs component_img [ORBComponent 5 None, AlternateIIOPAddress (ListenPoint [105] 2810) None, HeartbeatEnabled True None])
      (22 + (27 + (16 + 0)))" unfolding imgs.simps by (intro img_le_intros c)
  note l = img_le_counted [OF this]
  have "members_img sample_profile = img_then (version_img VERSION_1_2) (img_then (listen_point_img (ListenPoint [104, 111] 2809))
      (img_then (content_img (content (key_img sample_key))) (counted_img component_img
        [ORBComponent 5 None, AlternateIIOPAddress (ListenPoint [105] 2810) None, HeartbeatEnabled True None])))"
    by (simp add: members_img_def sample_profile_def ProfileIIOP_of_def Version_gt_def VERSION_1_0_def VERSION_1_2_def)
  moreover have "img_le (content_img (content (key_img sample_key))) (100 + 7)" by (intro img_le_content sample_key_le)
  ultimately show ?thesis
    using img_le_weaken [OF img_le_then [OF img_le_version img_le_then [OF p(2) img_le_then [OF _ l]]]] by simp
qed

lemma sample_ior_le: "img_le (ior_img sample_ior) 1100"
proof -
  have "img_le (tagged_img (ProfileIIOP sample_profile)) (7 + (1001 + 7))"
    unfolding tagged_img_def
    by (intro img_le_intros) (auto simp: sample_profile_def ProfileIIOP_of_def dest: content_le [OF sample_members_le, unfolded sample_profile_def ProfileIIOP_of_def])
  then have "img_le (imgs tagged_img [ProfileIIOP sample_profile]) (7 + (1001 + 7) + 0)" unfolding imgs.simps by (intro img_le_intros)
  from img_le_counted [OF this] show ?thesis
    unfolding ior_img_def by (intro img_le_weaken [OF img_le_then [OF img_le_string]]) (auto simp: sample_ior_def IOR_of_def IOR_new_def)
qed

theorem ior_string_roundtrip_witness:
  "\<exists>str r'. ior_toString octet_seq_helper 256 256 sample_malloc True sample_ior = Inr str \<and> ior_fromString sample_malloc False str = Inr r' \<and>
     type_id r' = Some [73, 68, 76] \<and> length (profiles r') = 1 \<and> key_kept sample_readers sample_malloc r' sample_key"
proof -
  note m = sample_malloc_ok
  have b: "block_ok 256" by (simp add: block_ok_def size_ok_def)
  note it = ior_transfer [OF m b b octet_seq_helper_ok]
  from makes_total [OF emits_makes [OF m(1) b cdr_transfer.wr_emits [OF it m(1) sample_ior_ok]] m(2)] obtain e where
    e: "encaps sample_malloc 256 True (ior_write octet_seq_helper 256 256 sample_malloc sample_ior) = Inr e" "holds (content (ior_img sample_ior)) e"
    by blast
  from content_le [OF sample_ior_le] e(2) have "length (octets_of e) < 2 ^ 31 - 16" by (fastforce simp: holds_def octets_of_def)
  from ior_string_roundtrip [OF m(1) b b octet_seq_helper_ok sample_ior_ok _ e(1) this m, of False] sample_reference
  show ?thesis by (fastforce simp: sample_ior_def IOR_of_def IOR_new_def list_all2_conv_all_nth)
qed

theorem ior_hash_zero_witness:
  "\<exists>h. ior_hashCode octet_seq_helper 256 256 sample_malloc True sample_ior = Inr h \<and> h = 0"
proof -
  note m = sample_malloc_ok
  have b: "block_ok 256" by (simp add: block_ok_def size_ok_def)
  have new: "ior_string sample_ior = None" by (simp add: sample_ior_def IOR_of_def IOR_new_def)
  note it = ior_transfer [OF m b b octet_seq_helper_ok]
  from makes_total [OF emits_makes [OF m(1) b cdr_transfer.wr_emits [OF it m(1) sample_ior_ok]] m(2)] obtain e where
    e: "encaps sample_malloc 256 True (ior_write octet_seq_helper 256 256 sample_malloc sample_ior) = Inr e" "holds (content (ior_img sample_ior)) e"
    by blast
  from content_le [OF sample_ior_le] e(2) have "length (octets_of e) < 2 ^ 31 - 16" by (fastforce simp: holds_def octets_of_def)
  from write_text(2) [OF m(1) b b octet_seq_helper_ok sample_ior_ok new e(1) this]
  have "\<exists>h. ior_hashCode octet_seq_helper 256 256 sample_malloc True sample_ior = Inr h" by (simp add: ior_hashCode_def)
  with ior_hash_zero [OF disjI1 [OF new]] show ?thesis by blast
qed

text \<open>What a total allocator writes to a new stream, and the stream that receives it.\<close>

lemma sample_sent_version:
  assumes "emits sample_malloc w f" "img_le f n" "n < 2 ^ 31 - 20"
  obtains out' inp where "w sample_out = Inr out'" "length (out_data out') < 2 ^ 31 - 16" "in_ok inp" "in_pos inp = 0"
    "in_data inp = out_data out' @ [0]" "wire_order inp = local_byte_order sample_out" "m_version inp = m_version sample_out"
proof -
  from emitsD [OF assms(1) sample_new(1)] obtain out' where w: "w sample_out = Inr out'"
    "f (local_byte_order sample_out) (length (out_data sample_out)) (out_data out')"
    using sample_malloc_ok(2) sample_new(3) by (auto simp: writes_def alloc_failure_def split: sum.splits)
  from w(2) assms(2,3) have "length (out_data out') < 2 ^ 31 - 20" unfolding img_le_def by fastforce
  with received_message [of "out_data out' @ [0]" "local_byte_order sample_out"] that [OF w(1)] sample_new(5) show thesis by fastforce
qed

lemma sample_sent:
  assumes "emits sample_malloc w f" "img_le f n" "n < 2 ^ 31 - 20"
  obtains out' inp where "w sample_out = Inr out'" "length (out_data out') < 2 ^ 31 - 16" "in_ok inp" "in_pos inp = 0"
    "in_data inp = out_data out' @ [0]" "wire_order inp = local_byte_order sample_out"
  by (rule sample_sent_version [OF assms])

text \<open>The profile of the sample reference has an alternate address; the one that arrives has it no more.\<close>

theorem alternate_addresses_dropped_witness:
  "\<exists>p q. \<not> pf_extracted p \<and> extract_members sample_readers sample_malloc p = Inr q \<and> members_rel sample_profile q \<and>
     length (pf_listen_points q) = 1 \<and> AlternateIIOPAddress (ListenPoint [105] 2810) None \<in> set (pf_components sample_profile)"
proof -
  note m = sample_malloc_ok
  have ok: "members_ok sample_readers sample_profile" "pf_data sample_profile = None"
    using sample_ior_ok by (simp_all add: ior_ok_def sample_ior_def IOR_of_def counted_ok_def sample_profile_def ProfileIIOP_of_def)
  then have t: "tagged_ok sample_readers (ProfileIIOP sample_profile)" by simp
  note pt = profile_transfer [OF m sample_block_ok sample_block_ok octet_seq_helper_ok, of sample_readers]
  have l: "img_le (tagged_img (ProfileIIOP sample_profile)) (7 + (1001 + 7))"
    unfolding tagged_img_def
    by (intro img_le_intros) (auto simp: sample_profile_def ProfileIIOP_of_def dest: content_le [OF sample_members_le, unfolded sample_profile_def ProfileIIOP_of_def])
  obtain out' inp where s: "profile_write octet_seq_helper 16 16 sample_malloc (ProfileIIOP sample_profile) sample_out = Inr out'"
    "length (out_data out') < 2 ^ 31 - 16" "in_ok inp" "in_pos inp = 0" "in_data inp = out_data out' @ [0]"
    "wire_order inp = local_byte_order sample_out"
    by (rule sample_sent [OF cdr_transfer.wr_emits [OF pt m(1) t] l]) simp
  from emitsD [OF cdr_transfer.wr_emits [OF pt m(1) t] sample_new(1)] s(1,4,6) sample_new(3)
  have i: "tagged_img (ProfileIIOP sample_profile) (wire_order inp) (in_pos inp) (out_data out')" by (simp add: writes_def)
  have d: "drop (in_pos inp) (in_data inp) = out_data out' @ [0]" using s(4,5) by simp
  obtain x it where "tagged_rel (ProfileIIOP sample_profile) x"
    by (rule parsesD [OF cdr_transfer.rd_parses [OF pt t] s(3) i d s(2)])
  from members_arrive [OF m ok this] obtain e q where
    q: "extract_members sample_readers sample_malloc (ProfileIIOP_new\<lparr>pf_data := Some e\<rparr>) = Inr q" "members_rel sample_profile q" by blast
  have new: "\<not> pf_extracted (ProfileIIOP_new\<lparr>pf_data := Some e\<rparr>)" by (simp add: ProfileIIOP_new_def)
  from alternate_addresses_dropped [OF new q(1)] have "length (pf_listen_points q) = 1" .
  moreover have "AlternateIIOPAddress (ListenPoint [105] 2810) None \<in> set (pf_components sample_profile)"
    by (simp add: sample_profile_def ProfileIIOP_of_def)
  ultimately show ?thesis using new q by blast
qed

end
