(* ===== verification/Giop_Message.thy ===== *)
theory Giop_Message
  imports Iop_Ior
begin

text \<open>
  The headers of the GIOP messages behind the common one (\<^verbatim>\<open>core/comm/iiop/GIOPRequestMessage.C\<close>, \<^verbatim>\<open>GIOPReplyMessage.C\<close>,
  \<^verbatim>\<open>GIOPLocateRequestMessage.C\<close>, \<^verbatim>\<open>GIOPLocateReplyMessage.C\<close>), in the three versions of the protocol, with the service contexts
  (\<^verbatim>\<open>ServiceContext.C\<close>, \<^verbatim>\<open>ServiceContextList.C\<close>, \<^verbatim>\<open>ServiceContextReader.C\<close>, \<^verbatim>\<open>BiDirServiceContext.C\<close>) and the address of the target
  (\<^verbatim>\<open>AddressingDisposition.C\<close>, \<^verbatim>\<open>TargetAddress.C\<close>, \<^verbatim>\<open>IORAddressingInfo.C\<close>).
\<close>

section \<open>Service contexts\<close>

definition BI_DIR_IIOP :: ulong where "BI_DIR_IIOP = 5"

text \<open>The contexts of \<^verbatim>\<open>IOP::INVOCATION_POLICIES\<close> and \<^verbatim>\<open>IOP::SecurityAttributeService\<close> are read by classes of their own, with
  helpers that the build generates; \<open>sc\<close> stands for them, as \<open>special\<close> does for the components.\<close>

definition special_contexts :: "ulong list" where "special_contexts = [7, 15]"

datatype service_context = ServiceContext ulong iter | BiDirServiceContext "listen_point list"

definition context_write :: "ulong \<Rightarrow> malloc \<Rightarrow> service_context \<Rightarrow> iter \<Rightarrow> iter res" where
  "context_write s m c it =
     (case c of
        ServiceContext i e \<Rightarrow> rbind (write_ulong m i it) (write_buffer m (m_bufferCDR e))
      | BiDirServiceContext ps \<Rightarrow>
          rbind (write_ulong m BI_DIR_IIOP it) (\<lambda>it.
          rbind (create_encapsulation m s it) (\<lambda>(encapsulation, it).
          rbind (write_counted listen_point_write m ps encapsulation) (\<lambda>encapsulation.
            write_buffer m (m_bufferCDR encapsulation) it))))"

definition context_read :: "(ulong \<Rightarrow> iter \<Rightarrow> iter res) \<Rightarrow> malloc \<Rightarrow> iter \<Rightarrow> (service_context \<times> iter) res" where
  "context_read sc m it =
     rbind (read_ulong it) (\<lambda>(i, it).
     rbind (read_encapsulation m it) (\<lambda>(e, it).
       if i = BI_DIR_IIOP then rbind (read_counted (listen_point_read ListenPoint_null) e) (\<lambda>(ps, e). Inr (BiDirServiceContext ps, it))
       else if i \<in> set special_contexts then rbind (sc i e) (\<lambda>e. Inr (ServiceContext i e, it))
       else Inr (ServiceContext i e, it)))"

definition context_skip :: "iter \<Rightarrow> iter res" where
  "context_skip it = rbind (skip_type ULONG_SIZE it) skip_encapsulation"

text \<open>A list of no contexts is a null pointer.\<close>

definition contexts_write :: "ulong \<Rightarrow> malloc \<Rightarrow> service_context list option \<Rightarrow> iter \<Rightarrow> iter res" where
  "contexts_write s m l it = (case l of None \<Rightarrow> write_ulong m 0 it | Some cs \<Rightarrow> write_counted (context_write s) m cs it)"

definition contexts_read :: "(ulong \<Rightarrow> iter \<Rightarrow> iter res) \<Rightarrow> malloc \<Rightarrow> iter \<Rightarrow> (service_context list option \<times> iter) res" where
  "contexts_read sc m it =
     rbind (read_ulong it) (\<lambda>(count, it).
       if count = 0 then Inr (None, it)
       else rbind (read_seq (\<lambda>_. context_read sc m) (replicate (unat count) ()) it) (\<lambda>(cs, it). Inr (Some cs, it)))"

fun skip_contexts :: "nat \<Rightarrow> iter \<Rightarrow> iter res" where
  "skip_contexts 0 it = Inr it"
| "skip_contexts (Suc n) it = rbind (context_skip it) (skip_contexts n)"

definition contexts_skip :: "iter \<Rightarrow> iter res" where
  "contexts_skip it = rbind (read_ulong it) (\<lambda>(count, it). skip_contexts (unat count) it)"

section \<open>The address of the target\<close>

datatype AddressingDisposition = KeyAddr | ProfileAddr | ReferenceAddr

fun disposition_value :: "AddressingDisposition \<Rightarrow> ushort" where
  "disposition_value KeyAddr = 0"
| "disposition_value ProfileAddr = 1"
| "disposition_value ReferenceAddr = 2"

definition disposition_from :: "ushort \<Rightarrow> AddressingDisposition res" where
  "disposition_from v = (if v \<le> 2 then Inr ([KeyAddr, ProfileAddr, ReferenceAddr] ! unat v) else Inl MARSHAL)"

definition disposition_read :: "iter \<Rightarrow> (AddressingDisposition \<times> iter) res" where
  "disposition_read it = rbind (read_ushort it) (\<lambda>(v, it). rbind (disposition_from v) (\<lambda>d. Inr (d, it)))"

definition disposition_write :: "malloc \<Rightarrow> AddressingDisposition \<Rightarrow> iter \<Rightarrow> iter res" where
  "disposition_write m d it = write_ushort m (disposition_value d) it"

datatype target_address = KeyTarget object_key | ProfileTarget tagged_profile | ReferenceTarget ulong ior

text \<open>The key of the profile that the address names; none when it is not an IIOP profile.\<close>

definition target_key :: "readers \<Rightarrow> malloc \<Rightarrow> target_address \<Rightarrow> object_key option res" where
  "target_key rs m t =
     (case t of
        KeyTarget k \<Rightarrow> Inr (Some k)
      | ProfileTarget (ProfileIIOP p) \<Rightarrow> getObjectKey rs m p
      | ProfileTarget _ \<Rightarrow> Inr None
      | ReferenceTarget i r \<Rightarrow> (case get_profile r (unat i) of Some (ProfileIIOP p) \<Rightarrow> getObjectKey rs m p | _ \<Rightarrow> Inr None))"

definition reference_key_write :: "oid_helper \<Rightarrow> readers \<Rightarrow> ulong \<Rightarrow> malloc \<Rightarrow> ior \<Rightarrow> iter \<Rightarrow> iter res" where
  "reference_key_write helper rs d m r it =
     rbind (ior_object_key rs m r) (\<lambda>k. case k of None \<Rightarrow> Inl OUT_OF_BOUNDS | Some k \<Rightarrow> any_key_write helper m d k it)"

definition write_object_key_address :: "oid_helper \<Rightarrow> readers \<Rightarrow> ulong \<Rightarrow> malloc \<Rightarrow> ior \<Rightarrow> iter \<Rightarrow> iter res" where
  "write_object_key_address helper rs d m r it =
     rbind (write_short m (disposition_value KeyAddr) it) (\<lambda>it.
       if is_group_reference r then Inl MARSHAL else reference_key_write helper rs d m r it)"

definition write_key_address :: "oid_helper \<Rightarrow> ulong \<Rightarrow> malloc \<Rightarrow> object_key \<Rightarrow> iter \<Rightarrow> iter res" where
  "write_key_address helper d m k it = rbind (write_short m (disposition_value KeyAddr) it) (any_key_write helper m d k)"

definition profile_in_use :: "ior \<Rightarrow> tagged_profile res" where
  "profile_in_use r =
     (case if is_group_reference r then miop_profile r else iiop_profile r of
        None \<Rightarrow> Inl OUT_OF_BOUNDS
      | Some n \<Rightarrow> (case get_profile r n of None \<Rightarrow> Inl OUT_OF_BOUNDS | Some p \<Rightarrow> Inr p))"

definition write_profile_address :: "oid_helper \<Rightarrow> ulong \<Rightarrow> ulong \<Rightarrow> malloc \<Rightarrow> ior \<Rightarrow> iter \<Rightarrow> iter res" where
  "write_profile_address helper s d m r it =
     rbind (write_short m (disposition_value ProfileAddr) it) (\<lambda>it.
       if \<not> is_group_reference r \<and> iiop_searched r then Inl INV_OBJREF
       else rbind (profile_in_use r) (\<lambda>p. profile_write helper s d m p it))"

definition write_ior_address :: "oid_helper \<Rightarrow> ulong \<Rightarrow> ulong \<Rightarrow> malloc \<Rightarrow> ior \<Rightarrow> iter \<Rightarrow> iter res" where
  "write_ior_address helper s d m r it =
     (if is_group_reference r then Inl MARSHAL
      else rbind (write_short m (disposition_value ReferenceAddr) it) (\<lambda>it.
        rbind (write_ulong m (word_of_nat (iiop_position r)) it) (ior_write helper s d m r)))"

text \<open>The constructor of \<^verbatim>\<open>IORAddressingInfo\<close> assigns the reference to a member.\<close>

definition addressing_info_read :: "malloc \<Rightarrow> iter \<Rightarrow> ((ulong \<times> ior) \<times> iter) res" where
  "addressing_info_read m it =
     rbind (read_ulong it) (\<lambda>(index, it).
     rbind (ior_read m it) (\<lambda>(r, it).
       if unat index \<ge> length (profiles r) then Inl MARSHAL else Inr ((index, IOR_assign r), it)))"

definition target_read :: "malloc \<Rightarrow> iter \<Rightarrow> (target_address \<times> iter) res" where
  "target_read m it =
     rbind (disposition_read it) (\<lambda>(disposition, it).
       case disposition of
         KeyAddr \<Rightarrow> rbind (any_key_read m it) (\<lambda>(k, it). Inr (KeyTarget k, it))
       | ProfileAddr \<Rightarrow> rbind (profile_read m it) (\<lambda>(p, it). Inr (ProfileTarget p, it))
       | ReferenceAddr \<Rightarrow> rbind (addressing_info_read m it) (\<lambda>((i, r), it). Inr (ReferenceTarget i r, it)))"

definition target_write :: "oid_helper \<Rightarrow> readers \<Rightarrow> ulong \<Rightarrow> ulong \<Rightarrow> malloc \<Rightarrow> AddressingDisposition \<Rightarrow> ior \<Rightarrow> iter \<Rightarrow> iter res" where
  "target_write helper rs s d m disposition r it =
     (case disposition of
        KeyAddr \<Rightarrow> write_object_key_address helper rs d m r it
      | ProfileAddr \<Rightarrow> write_profile_address helper s d m r it
      | ReferenceAddr \<Rightarrow> write_ior_address helper s d m r it)"

section \<open>Requests\<close>

text \<open>What a request tells the header: \<^verbatim>\<open>RequestImpl\<close> and the message.\<close>

record giop_request =
  rq_id :: ulong
  rq_with_response :: bool
  rq_reliable_oneway :: bool
  rq_operation :: "octet list"
  rq_contexts :: "service_context list option"

record server_request =
  sr_id :: ulong
  sr_operation :: "octet list"
  sr_target :: target_address
  sr_with_response :: bool
  sr_contexts :: "service_context list option"

definition write_reserved :: "malloc \<Rightarrow> iter \<Rightarrow> iter res" where
  "write_reserved m it = rbind (write_octet m 0 it) (\<lambda>it. rbind (write_octet m 0 it) (write_octet m 0))"

definition insert_request_header_1_0 :: "oid_helper \<Rightarrow> readers \<Rightarrow> ulong \<Rightarrow> ulong \<Rightarrow> malloc \<Rightarrow> giop_request \<Rightarrow> ior \<Rightarrow> iter \<Rightarrow> iter res" where
  "insert_request_header_1_0 helper rs s d m q r it =
     rbind (contexts_write s m (rq_contexts q) it) (\<lambda>it.
     rbind (write_ulong m (rq_id q) it) (\<lambda>it.
     rbind (write_boolean m (rq_with_response q) it) (\<lambda>it.
     rbind (reference_key_write helper rs d m r it) (\<lambda>it.
     rbind (write_string m (Some (rq_operation q)) it) (write_string m (Some []))))))"

definition insert_request_header_1_1 :: "oid_helper \<Rightarrow> readers \<Rightarrow> ulong \<Rightarrow> ulong \<Rightarrow> malloc \<Rightarrow> giop_request \<Rightarrow> ior \<Rightarrow> iter \<Rightarrow> iter res" where
  "insert_request_header_1_1 helper rs s d m q r it =
     rbind (contexts_write s m (rq_contexts q) it) (\<lambda>it.
     rbind (write_ulong m (rq_id q) it) (\<lambda>it.
     rbind (write_boolean m (rq_with_response q) it) (\<lambda>it.
     rbind (write_reserved m it) (\<lambda>it.
     rbind (reference_key_write helper rs d m r it) (\<lambda>it.
     rbind (write_string m (Some (rq_operation q)) it) (write_string m (Some [])))))))"

definition insert_request_header_1_2 ::
    "oid_helper \<Rightarrow> readers \<Rightarrow> ulong \<Rightarrow> ulong \<Rightarrow> malloc \<Rightarrow> giop_request \<Rightarrow> ior \<Rightarrow> AddressingDisposition \<Rightarrow> iter \<Rightarrow> iter res" where
  "insert_request_header_1_2 helper rs s d m q r disposition it =
     rbind (write_octet m (if rq_with_response q \<or> rq_reliable_oneway q then 3 else 0) it) (\<lambda>it.
     rbind (write_reserved m it) (\<lambda>it.
     rbind (target_write helper rs s d m disposition r it) (\<lambda>it.
     rbind (write_string m (Some (rq_operation q)) it) (\<lambda>it.
     rbind (contexts_write s m (rq_contexts q) it) (fix_next_aligned_position m LONGLONG_SIZE)))))"

text \<open>The header as \<^verbatim>\<open>insert_request\<close> writes it: since version 1.2 the id comes first, with \<^verbatim>\<open>create_message_buffer_output\<close>.\<close>

definition insert_request ::
    "oid_helper \<Rightarrow> readers \<Rightarrow> ulong \<Rightarrow> ulong \<Rightarrow> malloc \<Rightarrow> version \<Rightarrow> giop_request \<Rightarrow> ior \<Rightarrow> AddressingDisposition \<Rightarrow> iter \<Rightarrow> iter res" where
  "insert_request helper rs s d m v q r disposition it =
     rbind (if Version_ge v VERSION_1_2 then write_ulong m (rq_id q) it else Inr it) (\<lambda>it.
       if ver_minor v = 0 then insert_request_header_1_0 helper rs s d m q r it
       else if ver_minor v = 1 then insert_request_header_1_1 helper rs s d m q r it
       else if ver_minor v = 2 then insert_request_header_1_2 helper rs s d m q r disposition it
       else Inr it)"

definition extract_request_1_0 :: "(ulong \<Rightarrow> iter \<Rightarrow> iter res) \<Rightarrow> malloc \<Rightarrow> iter \<Rightarrow> (server_request \<times> iter) res" where
  "extract_request_1_0 sc m it =
     rbind (contexts_read sc m it) (\<lambda>(cs, it).
     rbind (read_ulong it) (\<lambda>(i, it).
     rbind (read_boolean it) (\<lambda>(with_response, it).
     rbind (any_key_read m it) (\<lambda>(k, it).
     rbind (read_string it) (\<lambda>(operation, it).
     rbind (skip_string it) (\<lambda>it.
       Inr (\<lparr>sr_id = i, sr_operation = c_string operation, sr_target = KeyTarget k, sr_with_response = with_response,
         sr_contexts = cs\<rparr>, fix_starting it)))))))"

definition extract_request_1_1 :: "(ulong \<Rightarrow> iter \<Rightarrow> iter res) \<Rightarrow> malloc \<Rightarrow> iter \<Rightarrow> (server_request \<times> iter) res" where
  "extract_request_1_1 sc m it =
     rbind (contexts_read sc m it) (\<lambda>(cs, it).
     rbind (read_ulong it) (\<lambda>(i, it).
     rbind (read_boolean it) (\<lambda>(with_response, it).
     rbind (in_skip 3 it) (\<lambda>it.
     rbind (any_key_read m it) (\<lambda>(k, it).
     rbind (read_string it) (\<lambda>(operation, it).
     rbind (skip_string it) (\<lambda>it.
       Inr (\<lparr>sr_id = i, sr_operation = c_string operation, sr_target = KeyTarget k, sr_with_response = with_response,
         sr_contexts = cs\<rparr>, fix_starting it))))))))"

text \<open>The padding before the parameters. A message without parameters may end in the padding; then the chunk number
  of the stream is beyond the last chunk.\<close>

definition go_next_caught :: "nat \<Rightarrow> iter \<Rightarrow> iter" where
  "go_next_caught n it =
     (case go_next_aligned_position next_chunk n it of
        Inr it \<Rightarrow> it
      | Inl _ \<Rightarrow> it\<lparr>m_current_chunk_num := m_current_chunk_num it + 1\<rparr>)"

definition extract_request_1_2 :: "(ulong \<Rightarrow> iter \<Rightarrow> iter res) \<Rightarrow> malloc \<Rightarrow> ulong \<Rightarrow> iter \<Rightarrow> (server_request \<times> iter) res" where
  "extract_request_1_2 sc m i it =
     rbind (read_octet it) (\<lambda>(response_octet, it).
     rbind (in_skip 3 it) (\<lambda>it.
     rbind (target_read m it) (\<lambda>(target, it).
     rbind (read_string it) (\<lambda>(operation, it).
     rbind (contexts_read sc m it) (\<lambda>(cs, it).
       Inr (\<lparr>sr_id = i, sr_operation = c_string operation, sr_target = target, sr_with_response = (response_octet AND 1 \<noteq> 0),
         sr_contexts = cs\<rparr>, fix_starting (go_next_caught LONGLONG_SIZE it)))))))"

text \<open>\<^verbatim>\<open>extract_request\<close>, after \<^verbatim>\<open>receive_body\<close> has read the id of a message of version 1.2. For other versions it
  returns a null pointer.\<close>

definition extract_request :: "(ulong \<Rightarrow> iter \<Rightarrow> iter res) \<Rightarrow> malloc \<Rightarrow> version \<Rightarrow> iter \<Rightarrow> (server_request option \<times> iter) res" where
  "extract_request sc m v it =
     rbind (if Version_eq v VERSION_1_2 then read_ulong it else Inr (0, it)) (\<lambda>(i, it).
       if ver_minor v = 0 then rbind (extract_request_1_0 sc m it) (\<lambda>(q, it). Inr (Some q, it))
       else if ver_minor v = 1 then rbind (extract_request_1_1 sc m it) (\<lambda>(q, it). Inr (Some q, it))
       else if ver_minor v = 2 then rbind (extract_request_1_2 sc m i it) (\<lambda>(q, it). Inr (Some q, it))
       else Inr (None, it))"

section \<open>Replies\<close>

datatype ReplyStatusType = NO_EXCEPTION | USER_EXCEPTION | SYSTEM_EXCEPTION | LOCATION_FORWARD | LOCATION_FORWARD_PERM | NEEDS_ADDRESSING_MODE

fun reply_status_value :: "ReplyStatusType \<Rightarrow> ulong" where
  "reply_status_value NO_EXCEPTION = 0"
| "reply_status_value USER_EXCEPTION = 1"
| "reply_status_value SYSTEM_EXCEPTION = 2"
| "reply_status_value LOCATION_FORWARD = 3"
| "reply_status_value LOCATION_FORWARD_PERM = 4"
| "reply_status_value NEEDS_ADDRESSING_MODE = 5"

definition ReplyStatusType_from_int :: "ulong \<Rightarrow> ReplyStatusType res" where
  "ReplyStatusType_from_int type =
     (if type > reply_status_value NEEDS_ADDRESSING_MODE then Inl MARSHAL
      else Inr ([NO_EXCEPTION, USER_EXCEPTION, SYSTEM_EXCEPTION, LOCATION_FORWARD, LOCATION_FORWARD_PERM, NEEDS_ADDRESSING_MODE] ! unat type))"

record giop_reply =
  rp_id :: ulong
  rp_status :: ReplyStatusType
  rp_contexts :: "service_context list option"

definition marshal_reply_header_1_1 :: "ulong \<Rightarrow> malloc \<Rightarrow> giop_reply \<Rightarrow> iter \<Rightarrow> iter res" where
  "marshal_reply_header_1_1 s m p it =
     rbind (contexts_write s m (rp_contexts p) it) (\<lambda>it.
     rbind (write_ulong m (rp_id p) it) (write_ulong m (reply_status_value (rp_status p))))"

definition marshal_reply_header_1_2 :: "ulong \<Rightarrow> malloc \<Rightarrow> giop_reply \<Rightarrow> iter \<Rightarrow> iter res" where
  "marshal_reply_header_1_2 s m p it =
     rbind (write_ulong m (reply_status_value (rp_status p)) it) (\<lambda>it.
     rbind (contexts_write s m (rp_contexts p) it) (fix_next_aligned_position m LONGLONG_SIZE))"

definition reply_header_write :: "ulong \<Rightarrow> malloc \<Rightarrow> version \<Rightarrow> giop_reply \<Rightarrow> iter \<Rightarrow> iter res" where
  "reply_header_write s m v p it =
     rbind (if Version_ge v VERSION_1_2 then write_ulong m (rp_id p) it else Inr it) (\<lambda>it.
       if ver_minor v = 0 \<or> ver_minor v = 1 then marshal_reply_header_1_1 s m p it
       else if ver_minor v = 2 then marshal_reply_header_1_2 s m p it
       else Inr it)"

definition unmarshal_reply_header_1_1 :: "(ulong \<Rightarrow> iter \<Rightarrow> iter res) \<Rightarrow> malloc \<Rightarrow> iter \<Rightarrow> (giop_reply \<times> iter) res" where
  "unmarshal_reply_header_1_1 sc m it =
     rbind (contexts_read sc m it) (\<lambda>(cs, it).
     rbind (read_ulong it) (\<lambda>(i, it).
     rbind (read_ulong it) (\<lambda>(aux, it).
     rbind (ReplyStatusType_from_int aux) (\<lambda>status.
       if reply_status_value status > reply_status_value LOCATION_FORWARD then Inl MARSHAL
       else Inr (\<lparr>rp_id = i, rp_status = status, rp_contexts = cs\<rparr>, it)))))"

text \<open>\<^verbatim>\<open>go_next_aligned_position_sin_exception\<close> returns where \<^verbatim>\<open>next_chunk\<close> throws.\<close>

definition unmarshal_reply_header_1_2 :: "(ulong \<Rightarrow> iter \<Rightarrow> iter res) \<Rightarrow> malloc \<Rightarrow> ulong \<Rightarrow> iter \<Rightarrow> (giop_reply \<times> iter) res" where
  "unmarshal_reply_header_1_2 sc m i it =
     rbind (read_ulong it) (\<lambda>(aux, it).
     rbind (ReplyStatusType_from_int aux) (\<lambda>status.
     rbind (contexts_read sc m it) (\<lambda>(cs, it).
       Inr (\<lparr>rp_id = i, rp_status = status, rp_contexts = cs\<rparr>, go_next_caught LONGLONG_SIZE it))))"

definition reply_header_read :: "(ulong \<Rightarrow> iter \<Rightarrow> iter res) \<Rightarrow> malloc \<Rightarrow> version \<Rightarrow> iter \<Rightarrow> (giop_reply \<times> iter) res" where
  "reply_header_read sc m v it =
     rbind (if Version_eq v VERSION_1_2 then read_ulong it else Inr (0, it)) (\<lambda>(i, it).
     rbind (if ver_minor v = 0 \<or> ver_minor v = 1 then unmarshal_reply_header_1_1 sc m it
            else if ver_minor v = 2 then unmarshal_reply_header_1_2 sc m i it
            else Inr (\<lparr>rp_id = i, rp_status = NO_EXCEPTION, rp_contexts = None\<rparr>, it)) (\<lambda>(p, it). Inr (p, fix_starting it)))"

section \<open>Locate messages\<close>

datatype LocateReplyStatusType =
  UNKNOWN_OBJECT | OBJECT_HERE | OBJECT_FORWARD | OBJECT_FORWARD_PERM | LOC_SYSTEM_EXCEPTION | LOC_NEEDS_ADDRESSING_MODE

fun locate_status_value :: "LocateReplyStatusType \<Rightarrow> ulong" where
  "locate_status_value UNKNOWN_OBJECT = 0"
| "locate_status_value OBJECT_HERE = 1"
| "locate_status_value OBJECT_FORWARD = 2"
| "locate_status_value OBJECT_FORWARD_PERM = 3"
| "locate_status_value LOC_SYSTEM_EXCEPTION = 4"
| "locate_status_value LOC_NEEDS_ADDRESSING_MODE = 5"

definition LocateReplyStatusType_from_int :: "ulong \<Rightarrow> LocateReplyStatusType res" where
  "LocateReplyStatusType_from_int type =
     (if type > locate_status_value LOC_NEEDS_ADDRESSING_MODE then Inl MARSHAL
      else Inr ([UNKNOWN_OBJECT, OBJECT_HERE, OBJECT_FORWARD, OBJECT_FORWARD_PERM, LOC_SYSTEM_EXCEPTION, LOC_NEEDS_ADDRESSING_MODE] ! unat type))"

definition insert_address_key :: "oid_helper \<Rightarrow> ulong \<Rightarrow> malloc \<Rightarrow> version \<Rightarrow> ulong \<Rightarrow> object_key \<Rightarrow> iter \<Rightarrow> iter res" where
  "insert_address_key helper d m v i k it =
     rbind (if Version_ge v VERSION_1_2 then write_ulong m i it else Inr it) (\<lambda>it.
       if Version_ge v VERSION_1_2 then write_key_address helper d m k it
       else rbind (write_ulong m i it) (any_key_write helper m d k))"

definition insert_address ::
    "oid_helper \<Rightarrow> readers \<Rightarrow> ulong \<Rightarrow> ulong \<Rightarrow> malloc \<Rightarrow> version \<Rightarrow> ulong \<Rightarrow> ior \<Rightarrow> AddressingDisposition \<Rightarrow> iter \<Rightarrow> iter res" where
  "insert_address helper rs s d m v i r disposition it =
     rbind (if Version_ge v VERSION_1_2 then write_ulong m i it else Inr it) (\<lambda>it.
       if Version_ge v VERSION_1_2 then target_write helper rs s d m disposition r it
       else rbind (write_ulong m i it) (\<lambda>it. rbind (ior_object_key rs m r) (\<lambda>k.
         case k of None \<Rightarrow> Inl INTERNAL | Some k \<Rightarrow> any_key_write helper m d k it)))"

definition extract_address :: "malloc \<Rightarrow> version \<Rightarrow> iter \<Rightarrow> ((ulong \<times> target_address) \<times> iter) res" where
  "extract_address m v it =
     rbind (if Version_eq v VERSION_1_2 then read_ulong it else Inr (0, it)) (\<lambda>(i, it).
       if Version_ge v VERSION_1_2 then rbind (target_read m it) (\<lambda>(t, it). Inr ((i, t), it))
       else rbind (read_ulong it) (\<lambda>(i, it). rbind (any_key_read m it) (\<lambda>(k, it). Inr ((i, KeyTarget k), it))))"

definition locate_reply_write :: "malloc \<Rightarrow> version \<Rightarrow> ulong \<Rightarrow> LocateReplyStatusType \<Rightarrow> iter \<Rightarrow> iter res" where
  "locate_reply_write m v i status it =
     rbind (if Version_ge v VERSION_1_2 then write_ulong m i it else Inr it) (\<lambda>it.
     rbind (if Version_lt v VERSION_1_2 then write_ulong m i it else Inr it) (write_ulong m (locate_status_value status)))"

definition locate_reply_read :: "version \<Rightarrow> iter \<Rightarrow> ((ulong \<times> LocateReplyStatusType) \<times> iter) res" where
  "locate_reply_read v it =
     rbind (if Version_eq v VERSION_1_2 then read_ulong it else Inr (0, it)) (\<lambda>(i, it).
     rbind (if Version_lt v VERSION_1_2 then read_ulong it else Inr (i, it)) (\<lambda>(i, it).
     rbind (read_ulong it) (\<lambda>(aux, it).
     rbind (LocateReplyStatusType_from_int aux) (\<lambda>status. Inr ((i, status), it)))))"

section \<open>Contracts of the parts\<close>

lemma create_encapsulation_error:
  assumes "malloc_ok m" "block_ok s" "out_ok out" "create_encapsulation m s out = Inl e"
  shows "alloc_failure m e"
proof (cases "malloc_total m")
  case True
  with create_encapsulation_total [OF assms(1) True assms(2,3)] assms(4) show ?thesis by simp
next
  case False
  show ?thesis
  proof (cases "out_alignment m ULONG_SIZE out")
    case (Inl x)
    with out_alignment_error [OF assms(1,3), of ULONG_SIZE x] assms(4) show ?thesis by (simp add: create_encapsulation_def prim_size_def)
  next
    case (Inr out1)
    then have o: "out_ok out1" using out_alignment_step [OF assms(1,3), of ULONG_SIZE out1] by (simp add: prim_size_def)
    then obtain p where p: "get_absolute_position out1 = Inr p"
      by (auto simp: get_absolute_position_def get_absolute_position_in_def get_pointer_def get_chunk_def out_ok_def iter_wf_def)
    let ?b = "BufferCDR m (local_byte_order out1) s (Some (m_context (m_bufferCDR out1))) (p + of_nat ULONG_SIZE)"
    show ?thesis
    proof (cases ?b)
      case (Inl x)
      with Inr p assms(4) False show ?thesis
        by (auto simp: create_encapsulation_def BufferCDR_def ChunkCDR_def alloc_failure_def Let_def rbind_eq_Inl split: option.splits)
    next
      case (Inr b)
      then obtain e0 where e0: "IteratorCDR (local_byte_order out1) b = Inr e0" by (auto simp: BufferCDR_def IteratorCDR_def get_chunk_def)
      note n = new_stream_ok [OF assms(1,2) Inr e0]
      have "writes m e0 (boolean_img (m_byte_order e0) (local_byte_order e0) (length (out_data e0))) (write_boolean m (m_byte_order e0) e0)"
        by (rule emitsD [OF t_boolean.wr_emits [OF assms(1) TrueI] n(1)])
      with \<open>out_alignment m ULONG_SIZE out = Inr out1\<close> p Inr e0 assms(4) show ?thesis
        by (auto simp: create_encapsulation_def writes_def rbind_eq_Inl split: sum.splits)
    qed
  qed
qed

lemma write_buffer_settled:
  assumes "malloc_ok m" "out_ok it" "buffer_wf b" "write_buffer m b it = Inr it'"
  shows "settled it'"
proof -
  have ok: "\<forall>c \<in> set (m_chunks b). chunk_wf c" "packed (m_chunks b)" using assms(3) by (auto simp: buffer_wf_def)
  let ?n = "get_available_bytes b"
  from assms(4) obtain it1 where it1: "write_ulong m ?n it = Inr it1"
    "write_buffer_loop m (m_chunks b) (get_num_available_chunks b) it1 = Inr it'" by (auto simp: write_buffer_def rbind_eq_Inr)
  have "write_ulong m ?n it = emit m 4 (host_bytes (local_byte_order it) 4 (unat ?n)) it"
    using emit_local [where enc = "\<lambda>order. host_bytes order 4 (unat ?n)" and s = 4] by (simp add: write_ulong_def)
  with emit_step [OF assms(1,2), of 4 "host_bytes (local_byte_order it) 4 (unat ?n)"] it1(1)
  have o: "out_ok it1" "settled it1" by (simp_all add: prim_size_def)
  from write_buffer_loop_writes [OF assms(1) o(1) ok] it1(2) o(2) show ?thesis by (simp add: writes_def get_num_available_chunks_def)
qed

lemma create_encapsulation_emits:
  assumes "malloc_ok m" "block_ok s" "emits m w f"
  shows "emits m (\<lambda>it. rbind (create_encapsulation m s it) (\<lambda>(enc, it). rbind (w enc) (\<lambda>enc. write_buffer m (m_bufferCDR enc) it)))
    (content_img (content f))"
proof (rule emitsI)
  fix it assume it: "out_ok it"
  show "writes m it (content_img (content f) (local_byte_order it) (length (out_data it)))
    (rbind (create_encapsulation m s it) (\<lambda>(enc, it). rbind (w enc) (\<lambda>enc. write_buffer m (m_bufferCDR enc) it)))"
  proof (cases "create_encapsulation m s it")
    case (Inl e)
    with create_encapsulation_error [OF assms(1,2) it Inl] show ?thesis by (simp add: writes_def)
  next
    case (Inr x)
    obtain enc it1 where x: "x = (enc, it1)" by (cases x)
    note E = create_encapsulation_result [OF assms(1,2) it Inr [unfolded x]]
    obtain pad where pad: "out_data it1 = out_data it @ pad" "length pad = align_to (length (out_data it)) 3 - length (out_data it)"
      using E(3) by blast
    have W: "writes m enc (f (local_byte_order it) 1) (w enc)" using emitsD [OF assms(3) E(4)] E(6,7) by simp
    have "makes m (content f) (w enc)"
    proof (cases "w enc")
      case (Inl e)
      with W show ?thesis by (simp add: makes_def writes_def)
    next
      case (Inr e)
      with W E(5,6) obtain body where e: "out_ok e" "settled e" "f (local_byte_order it) 1 body"
        "out_data e = (if local_byte_order it then 1 else 0) # body" by (auto simp: writes_def)
      have "buffer_wf (m_bufferCDR e)"
        using e(1) written_buffer_packed [OF e(1)] by (auto simp: buffer_wf_def out_ok_def iter_wf_def)
      moreover have "content f (out_data e)" using e(3,4) unfolding content_def by blast
      ultimately show ?thesis using Inr e written_buffer_data [OF e(1,2)] by (simp add: makes_def holds_def buffer_data_def)
    qed
    from makes_writes [OF assms(1) E(1) this]
    have "writes m it1 (content_img (content f) (local_byte_order it) (length (out_data it) + length pad))
        (rbind (w enc) (\<lambda>e. write_buffer m (m_bufferCDR e) it1))" using E(2) pad(1) by (simp add: same_mode_def)
    moreover have "content_img (content f) order pos (pad @ bs)"
      if "length pad = align_to pos 3 - pos" "content_img (content f) order (pos + length pad) bs" for order pos bs
      using that word_image_padded [OF that(1)] unfolding content_img_def data_img_def ulong_img_def by (metis append.assoc)
    moreover have "settled it2" if "rbind (w enc) (\<lambda>e. write_buffer m (m_bufferCDR e) it1) = Inr it2" for it2
      using that \<open>makes m (content f) (w enc)\<close> write_buffer_settled [OF assms(1) E(1)] by (auto simp: rbind_eq_Inr makes_def holds_def)
    ultimately show ?thesis
      using Inr x pad E(2) unfolding writes_def by (fastforce split: sum.splits intro: same_mode_trans)
  qed
qed

text \<open>Service contexts.\<close>

fun context_id :: "service_context \<Rightarrow> ulong" where
  "context_id (ServiceContext i _) = i"
| "context_id (BiDirServiceContext _) = BI_DIR_IIOP"

fun context_content :: "service_context \<Rightarrow> octet list \<Rightarrow> bool" where
  "context_content (ServiceContext _ e) = (\<lambda>d. d = octets_of e)"
| "context_content (BiDirServiceContext ps) = content (counted_img listen_point_img ps)"

fun context_ok :: "(ulong \<Rightarrow> iter \<Rightarrow> iter res) \<Rightarrow> service_context \<Rightarrow> bool" where
  "context_ok sc (ServiceContext i e) \<longleftrightarrow> stored e \<and> i \<noteq> BI_DIR_IIOP \<and>
     (i \<in> set special_contexts \<longrightarrow> (\<forall>e'. arrived (\<lambda>d. d = octets_of e) e' \<longrightarrow> sc i e' = Inr e'))"
| "context_ok sc (BiDirServiceContext ps) \<longleftrightarrow> counted_ok listen_point_ok ps"

fun context_rel :: "service_context \<Rightarrow> service_context \<Rightarrow> bool" where
  "context_rel (ServiceContext i e) (ServiceContext i' e') \<longleftrightarrow> i' = i \<and> octets_of e' = octets_of e"
| "context_rel (BiDirServiceContext ps) (BiDirServiceContext qs) \<longleftrightarrow> list_all2 same_address ps qs"
| "context_rel _ _ \<longleftrightarrow> False"

definition context_img :: "service_context \<Rightarrow> image" where
  "context_img c = img_then (ulong_img (context_id c)) (content_img (context_content c))"

lemma context_transfer:
  assumes "malloc_ok m'" "malloc_total m'" "block_ok s"
  shows "cdr_transfer (context_write s) (context_read sc m') (context_ok sc) context_img context_rel"
proof
  fix m c assume a: "malloc_ok m" "context_ok sc c"
  show "emits m (context_write s m c) (context_img c)"
  proof (cases c)
    case (ServiceContext i e)
    have "emits m (\<lambda>it. rbind (write_ulong m i it) (write_buffer m (m_bufferCDR e))) (context_img c)"
      unfolding context_img_def ServiceContext context_id.simps context_content.simps
      by (intro emits_then t_ulong.wr_emits holds_emits a(1)) (use a ServiceContext in \<open>simp_all add: stored_def\<close>)
    with ServiceContext show ?thesis by (simp add: context_write_def [abs_def])
  next
    case (BiDirServiceContext ps)
    have "emits m (write_counted listen_point_write m ps) (counted_img listen_point_img ps)"
      using cdr_transfer.wr_emits [OF listen.counted a(1)] a(2) BiDirServiceContext by simp
    from emits_then [OF t_ulong.wr_emits [OF a(1) TrueI] create_encapsulation_emits [OF a(1) assms(3) this], of BI_DIR_IIOP]
    show ?thesis by (simp add: context_write_def [abs_def] context_img_def BiDirServiceContext)
  qed
next
  fix c assume a: "context_ok sc c"
  have fin: "\<exists>c'. context_rel c c' \<and> (\<forall>it.
      (if context_id c = BI_DIR_IIOP then rbind (read_counted (listen_point_read ListenPoint_null) e) (\<lambda>(ps, e). Inr (BiDirServiceContext ps, it))
       else if context_id c \<in> set special_contexts then rbind (sc (context_id c) e) (\<lambda>e. Inr (ServiceContext (context_id c) e, it))
       else Inr (ServiceContext (context_id c) e, it)) = Inr (c', it :: iter))"
    if arr: "arrived (context_content c) e" for e
  proof (cases c)
    case (ServiceContext i e0)
    with arr a arrived_octets [of e0 e] show ?thesis by auto
  next
    case (BiDirServiceContext ps)
    have "counted_ok listen_point_ok ps" using a BiDirServiceContext by simp
    from cdr_transfer.rd_parses [OF listen.counted this]
    have "parses (counted_img listen_point_img ps) (read_counted (listen_point_read ListenPoint_null)) (list_all2 same_address ps)" .
    moreover have "arrived (content (counted_img listen_point_img ps)) e" using arr BiDirServiceContext by simp
    ultimately obtain qs e' where "read_counted (listen_point_read ListenPoint_null) e = Inr (qs, e')" "list_all2 same_address ps qs"
      by (metis open_content)
    with BiDirServiceContext show ?thesis by auto
  qed
  show "parses (context_img c) (context_read sc m') (context_rel c)"
    unfolding context_read_def [abs_def] context_img_def
    by (rule parses_then [OF t_ulong.rd_parses [OF TrueI]], simp only:,
        rule parses_finish [OF content_parses [OF assms(1,2), of "context_content c"] fin])
qed

text \<open>The list of contexts: one without elements arrives as none.\<close>

definition contexts_of :: "service_context list option \<Rightarrow> service_context list" where
  "contexts_of l = (case l of None \<Rightarrow> [] | Some cs \<Rightarrow> cs)"

definition contexts_rel :: "service_context list option \<Rightarrow> service_context list option \<Rightarrow> bool" where
  "contexts_rel l l' \<longleftrightarrow> list_all2 context_rel (contexts_of l) (contexts_of l') \<and> l' \<noteq> Some []"

lemma contexts_transfer:
  assumes "malloc_ok m'" "malloc_total m'" "block_ok s"
  shows "cdr_transfer (contexts_write s) (contexts_read sc m') (\<lambda>l. counted_ok (context_ok sc) (contexts_of l))
    (\<lambda>l. counted_img context_img (contexts_of l)) contexts_rel"
proof
  note ct = context_transfer [OF assms, of sc]
  fix m l assume a: "malloc_ok m" "counted_ok (context_ok sc) (contexts_of l)"
  have "write_seq wr [] = Inr" for wr :: "service_context \<Rightarrow> iter \<Rightarrow> iter res" by (rule ext) simp
  then have "contexts_write s m l = write_counted (context_write s) m (contexts_of l)"
    by (intro ext) (simp add: contexts_write_def contexts_of_def write_counted_def split: option.splits)
  then show "emits m (contexts_write s m l) (counted_img context_img (contexts_of l))"
    using cdr_transfer.wr_emits [OF cdr_transfer.counted [OF ct] a] by simp
next
  note ct = context_transfer [OF assms, of sc]
  fix l assume a: "counted_ok (context_ok sc) (contexts_of l)"
  let ?n = "word_of_nat (length (contexts_of l)) :: ulong"
  have n: "unat ?n = length (contexts_of l)" using a by (simp add: counted_ok_def unat_of_nat)
  have z: "?n = 0 \<longleftrightarrow> contexts_of l = []" using n by (metis length_0_conv unat_eq_zero)
  have "parses (imgs context_img (contexts_of l)) (\<lambda>it. if ?n = 0 then Inr (None, it)
      else rbind (read_seq (\<lambda>_. context_read sc m') (replicate (unat ?n) ()) it) (\<lambda>(cs, it). Inr (Some cs, it))) (contexts_rel l)"
  proof (cases "contexts_of l = []")
    case True
    then show ?thesis using parses_return [of "contexts_rel l" None] z by (simp add: contexts_rel_def contexts_of_def [of None])
  next
    case False
    have "list_all (context_ok sc) (contexts_of l)" using a by (simp add: counted_ok_def)
    from parses_last [OF cdr_transfer.seq_parses [OF ct this], of "contexts_rel l" Some] False z n
    show ?thesis by (simp add: contexts_rel_def contexts_of_def [of "Some x" for x]) (fastforce)
  qed
  then show "parses (counted_img context_img (contexts_of l)) (contexts_read sc m') (contexts_rel l)"
    unfolding contexts_read_def [abs_def] counted_img_def
    by (intro parses_then [OF t_ulong.rd_parses [OF TrueI]]) (simp only:)
qed

text \<open>The address of the target. What is written for a reference to a key is read as an address that leads to the key.\<close>

definition leads_to :: "readers \<Rightarrow> malloc \<Rightarrow> poa_key \<Rightarrow> target_address \<Rightarrow> bool" where
  "leads_to rs m pk t \<longleftrightarrow> (\<exists>k. target_key rs m t = Inr (Some k) \<and> key_value k = Inr pk)"

definition target_img :: "poa_key \<Rightarrow> AddressingDisposition \<Rightarrow> ior \<Rightarrow> image" where
  "target_img pk disposition r = img_then (ushort_img (disposition_value disposition))
     (case disposition of
        KeyAddr \<Rightarrow> content_img (key_content (Key pk))
      | ProfileAddr \<Rightarrow> tagged_img (profiles r ! the (iiop_profile r))
      | ReferenceAddr \<Rightarrow> img_then (ulong_img (word_of_nat (iiop_position r))) (ior_img r))"

lemma short_emits: "malloc_ok m \<Longrightarrow> emits m (write_short m v) (ushort_img v)"
  using t_ushort.wr_emits [of m v] by (simp add: write_short_def [abs_def] write_ushort_def [abs_def])

lemma search_position:
  "search_profile t n ps x = (a, b, Some k) \<Longrightarrow> (snd (snd x) = Some k \<longrightarrow> fst (snd x) = k) \<Longrightarrow> b = k"
proof (induction ps arbitrary: n x)
  case (Cons p ps)
  from Cons.IH [of "Suc n" "if profile_tag p = t then (False, n, Some n) else x"] Cons.prems show ?case by simp
qed simp

lemma reference_profile:
  assumes "reference_to rs pk r"
  obtains n p where "iiop_profile r = Some n" "iiop_position r = n" "n < length (profiles r)" "profiles r ! n = ProfileIIOP p"
    "pf_data p = None" "pf_extracted p" "pf_key p = Some (Key pk)" "members_ok rs p" "key_ok pk" "\<not> is_group_reference r" "\<not> iiop_searched r"
proof -
  from assms obtain p where r: "ior_ok rs r" "ior_current r" "miop_searched r" "\<not> iiop_searched r"
    and p: "used_profile r = Inr p" "pf_data p = None" "pf_extracted p" "pf_key p = Some (Key pk)" by (auto simp: reference_to_def)
  from p(1) obtain n where n: "iiop_profile r = Some n" "n < length (profiles r)" "profiles r ! n = ProfileIIOP p"
    by (auto simp: used_profile_def get_profile_def split: option.splits if_splits tagged_profile.splits)
  have "iiop_position r = n" using r(2) n(1) search_position [of TAG_INTERNET_IOP 0 "profiles r" "(True, 0, None)" "iiop_searched r"]
    by (simp add: ior_current_def)
  moreover have "tagged_ok rs (ProfileIIOP p)" using r(1) n by (metis ior_ok_def counted_ok_def list_all_length)
  then have "members_ok rs p" using p(2) by simp
  moreover from this p(4) have "key_ok pk" by (simp add: members_ok_def)
  ultimately show thesis using that n p r by (simp add: is_group_reference_def)
qed

lemma reference_key_emits:
  assumes "malloc_ok m" "block_ok d" "helper_ok helper" "reference_to rs pk r"
  shows "emits m (reference_key_write helper rs d m r) (content_img (key_content (Key pk)))"
proof -
  obtain n p where R: "iiop_profile r = Some n" "n < length (profiles r)" "profiles r ! n = ProfileIIOP p" "pf_extracted p"
    "pf_key p = Some (Key pk)" "key_ok pk" "\<not> is_group_reference r" "\<not> iiop_searched r" by (rule reference_profile [OF assms(4)])
  then have "ior_object_key rs m r = Inr (Some (Key pk))"
    by (simp add: ior_object_key_def is_group_reference_def used_profile_def get_profile_def getObjectKey_def extract_members_def)
  moreover have "emits m (any_key_write helper m d (Key pk)) (content_img (key_content (Key pk)))"
    by (rule cdr_transfer.wr_emits [OF key_transfer [OF sample_malloc_ok assms(2,3)] assms(1)]) (simp add: R)
  ultimately show ?thesis by (simp add: reference_key_write_def [abs_def])
qed

lemma target_emits:
  assumes "malloc_ok m" "block_ok s" "block_ok d" "helper_ok helper" "reference_to rs pk r"
  shows "emits m (target_write helper rs s d m disposition r) (target_img pk disposition r)"
proof -
  obtain n p where R: "iiop_profile r = Some n" "iiop_position r = n" "n < length (profiles r)" "profiles r ! n = ProfileIIOP p"
    "pf_data p = None" "members_ok rs p" "\<not> is_group_reference r" "\<not> iiop_searched r" by (rule reference_profile [OF assms(5)])
  have ok: "ior_ok rs r" using assms(5) by (simp add: reference_to_def)
  show ?thesis
  proof (cases disposition)
    case KeyAddr
    have "emits m (\<lambda>it. rbind (write_short m (disposition_value KeyAddr) it) (reference_key_write helper rs d m r)) (target_img pk KeyAddr r)"
      unfolding target_img_def AddressingDisposition.case by (intro emits_then short_emits reference_key_emits assms)
    with KeyAddr R(7) show ?thesis by (simp add: target_write_def [abs_def] write_object_key_address_def)
  next
    case ProfileAddr
    have "emits m (profile_write helper s d m (ProfileIIOP p)) (tagged_img (ProfileIIOP p))"
      by (rule cdr_transfer.wr_emits [OF profile_transfer [OF sample_malloc_ok assms(2-4)] assms(1), of rs]) (simp add: R)
    then have "emits m (\<lambda>it. rbind (write_short m (disposition_value ProfileAddr) it) (profile_write helper s d m (ProfileIIOP p)))
        (target_img pk ProfileAddr r)"
      unfolding target_img_def AddressingDisposition.case R(1,4) option.sel by (intro emits_then short_emits assms)
    with ProfileAddr R show ?thesis
      by (simp add: target_write_def [abs_def] write_profile_address_def profile_in_use_def get_profile_def)
  next
    case ReferenceAddr
    have "emits m (\<lambda>it. rbind (write_short m (disposition_value ReferenceAddr) it) (\<lambda>it.
        rbind (write_ulong m (word_of_nat (iiop_position r)) it) (ior_write helper s d m r))) (target_img pk ReferenceAddr r)"
      unfolding target_img_def AddressingDisposition.case
      by (intro emits_then short_emits t_ulong.wr_emits cdr_transfer.wr_emits [OF ior_transfer [OF sample_malloc_ok assms(2-4), of rs]] assms ok TrueI)
    with ReferenceAddr R(7) show ?thesis by (simp add: target_write_def [abs_def] write_ior_address_def)
  qed
qed

lemma disposition_parses: "parses (ushort_img (disposition_value d)) disposition_read (\<lambda>x. x = d)"
proof -
  have "disposition_from (disposition_value d) = Inr d" by (cases d) (simp_all add: disposition_from_def)
  then show ?thesis unfolding disposition_read_def [abs_def]
    by (intro parses_finish [OF t_ushort.rd_parses [OF TrueI]]) simp
qed

lemma arrived_profile_key:
  assumes "malloc_ok m'" "malloc_total m'" "members_ok rs p" "pf_data p = None" "pf_key p = Some (Key pk)" "tagged_rel (ProfileIIOP p) q"
  shows "\<exists>q' k. q = ProfileIIOP q' \<and> getObjectKey rs m' q' = Inr (Some k) \<and> key_value k = Inr pk"
proof -
  from members_arrive [OF assms(1-4,6)] obtain e q' where q: "q = ProfileIIOP (ProfileIIOP_new\<lparr>pf_data := Some e\<rparr>)"
    "extract_members rs m' (ProfileIIOP_new\<lparr>pf_data := Some e\<rparr>) = Inr q'" "members_rel p q'" by blast
  moreover obtain k where "pf_key q' = Some k" "key_rel (Key pk) k" using q(3) assms(5) by (auto simp: members_rel_def)
  moreover have "key_ok pk" using assms(3,5) by (simp add: members_ok_def)
  ultimately show ?thesis using key_arrives by (auto simp: getObjectKey_def)
qed

lemma target_parses:
  assumes "malloc_ok m'" "malloc_total m'" "reference_to rs pk r"
  shows "parses (target_img pk disposition r) (target_read m') (leads_to rs m' pk)"
proof -
  obtain n p where R: "iiop_profile r = Some n" "iiop_position r = n" "n < length (profiles r)" "profiles r ! n = ProfileIIOP p"
    "pf_data p = None" "pf_key p = Some (Key pk)" "members_ok rs p" "key_ok pk" by (rule reference_profile [OF assms(3)])
  have ok: "ior_ok rs r" using assms(3) by (simp add: reference_to_def)
  have n: "unat (word_of_nat n :: ulong) = n" using ok R(3) by (simp add: ior_ok_def counted_ok_def unat_of_nat)
  note key = arrived_profile_key [OF assms(1,2) R(7,5,6)]
  have "parses (case disposition of KeyAddr \<Rightarrow> content_img (key_content (Key pk))
        | ProfileAddr \<Rightarrow> tagged_img (profiles r ! the (iiop_profile r))
        | ReferenceAddr \<Rightarrow> img_then (ulong_img (word_of_nat (iiop_position r))) (ior_img r))
      (\<lambda>it. case disposition of KeyAddr \<Rightarrow> rbind (any_key_read m' it) (\<lambda>(k, it). Inr (KeyTarget k, it))
        | ProfileAddr \<Rightarrow> rbind (profile_read m' it) (\<lambda>(p, it). Inr (ProfileTarget p, it))
        | ReferenceAddr \<Rightarrow> rbind (addressing_info_read m' it) (\<lambda>((i, r), it). Inr (ReferenceTarget i r, it)))
      (leads_to rs m' pk)"
  proof (cases disposition)
    case KeyAddr
    have "parses (content_img (key_content (Key pk))) (any_key_read m') (key_rel (Key pk))"
      by (rule cdr_transfer.rd_parses [OF key_transfer [OF assms(1,2) sample_block_ok octet_seq_helper_ok]]) (simp add: R(8))
    from parses_last [OF this, of "leads_to rs m' pk" KeyTarget] key_arrives [OF _ R(8)] KeyAddr
    show ?thesis by (simp add: leads_to_def target_key_def)
  next
    case ProfileAddr
    have "parses (tagged_img (ProfileIIOP p)) (profile_read m') (tagged_rel (ProfileIIOP p))"
      by (rule cdr_transfer.rd_parses [OF profile_transfer [OF assms(1,2) sample_block_ok sample_block_ok octet_seq_helper_ok], of rs])
        (simp add: R)
    from parses_last [OF this, of "leads_to rs m' pk" ProfileTarget] key ProfileAddr R(1,4)
    show ?thesis by (fastforce simp: leads_to_def target_key_def)
  next
    case ReferenceAddr
    have read: "parses (ior_img r) (ior_read m') (ior_rel r)"
      by (rule cdr_transfer.rd_parses [OF ior_transfer [OF assms(1,2) sample_block_ok sample_block_ok octet_seq_helper_ok] ok])
    have "parses (img_then (ulong_img (word_of_nat n)) (ior_img r)) (addressing_info_read m')
        (\<lambda>(i, r'). i = word_of_nat n \<and> list_all2 tagged_rel (profiles r) (profiles r'))"
      unfolding addressing_info_read_def [abs_def]
    proof (rule parses_then [OF t_ulong.rd_parses [OF TrueI]])
      fix i assume i: "i = (word_of_nat n :: ulong)"
      show "parses (ior_img r) (\<lambda>it. rbind (ior_read m' it) (\<lambda>(r', it). if unat i \<ge> length (profiles r') then Inl MARSHAL
          else Inr ((i, IOR_assign r'), it))) (\<lambda>(i, r'). i = word_of_nat n \<and> list_all2 tagged_rel (profiles r) (profiles r'))"
      proof (rule parses_finish [OF read])
        fix r' assume "ior_rel r r'"
        then show "\<exists>y. (case y of (i, r') \<Rightarrow> i = word_of_nat n \<and> list_all2 tagged_rel (profiles r) (profiles r')) \<and>
            (\<forall>it. (if unat i \<ge> length (profiles r') then Inl MARSHAL else Inr ((i, IOR_assign r'), it)) = Inr (y, it :: iter))"
          using i n R(3) by (intro exI [of _ "(i, IOR_assign r')"]) (auto simp: ior_rel_def IOR_assign_def dest: list_all2_lengthD)
      qed
    qed
    then have "parses (img_then (ulong_img (word_of_nat n)) (ior_img r))
        (\<lambda>it. rbind (addressing_info_read m' it) (\<lambda>((i, r), it). Inr (ReferenceTarget i r, it))) (leads_to rs m' pk)"
    proof (rule parses_finish)
      fix x :: "ulong \<times> ior" assume x: "case x of (i, r') \<Rightarrow> i = word_of_nat n \<and> list_all2 tagged_rel (profiles r) (profiles r')"
      obtain i r' where ir: "x = (i, r')" "i = word_of_nat n" "list_all2 tagged_rel (profiles r) (profiles r')" using x by (cases x) auto
      then have l: "n < length (profiles r')" "tagged_rel (ProfileIIOP p) (profiles r' ! n)"
        using R(3,4) by (auto simp: list_all2_conv_all_nth)
      then obtain q' k where "profiles r' ! n = ProfileIIOP q'" "getObjectKey rs m' q' = Inr (Some k)" "key_value k = Inr pk" using key by blast
      then have "leads_to rs m' pk (ReferenceTarget i r')" using l(1) ir(2) n by (simp add: leads_to_def target_key_def get_profile_def)
      then show "\<exists>y. leads_to rs m' pk y \<and> (\<forall>it. (case x of (i, r) \<Rightarrow> \<lambda>it. Inr (ReferenceTarget i r, it)) it = Inr (y, it :: iter))"
        using ir(1) by auto
    qed
    with ReferenceAddr R(2) show ?thesis by simp
  qed
  then show ?thesis
    unfolding target_read_def [abs_def] target_img_def by (intro parses_then [OF disposition_parses]) (simp only:)
qed

end

