(* ===== verification/Giop_Exchange.thy ===== *)
theory Giop_Exchange
  imports Giop_Message
begin

text \<open>
  What the headers of requests, replies and locate messages give to the receiver: the images of the three versions, that the
  operations of \<^verbatim>\<open>Giop_Message\<close> write and read them, and the properties of an exchange.
\<close>

section \<open>Generic\<close>

lemma img_then_assoc: "img_then (img_then f g) h = img_then f (img_then g h)"
proof (intro ext iffI)
  fix order pos bs
  assume "img_then (img_then f g) h order pos bs"
  then obtain a b c where "bs = (a @ b) @ c" "f order pos a" "g order (pos + length a) b" "h order (pos + length (a @ b)) c"
    by (auto elim!: img_thenE)
  then show "img_then f (img_then g h) order pos bs" unfolding img_then_def by (metis append.assoc length_append add.assoc)
next
  fix order pos bs
  assume "img_then f (img_then g h) order pos bs"
  then obtain a b c where "bs = a @ b @ c" "f order pos a" "g order (pos + length a) b" "h order (pos + length a + length b) c"
    by (auto elim!: img_thenE)
  then show "img_then (img_then f g) h order pos bs" unfolding img_then_def by (metis append.assoc length_append add.assoc)
qed

lemma img_then_nil [simp]: "img_then f img_nil = f"
  by (simp add: img_then_def img_nil_def fun_eq_iff)

text \<open>Three octets whose values do not matter.\<close>

definition reserved_img :: image where
  "reserved_img order pos bs \<longleftrightarrow> length bs = 3"

lemma reserved_emits: "malloc_ok m \<Longrightarrow> emits m (write_reserved m) reserved_img"
proof -
  assume m: "malloc_ok m"
  have "emits m (write_reserved m) (img_then (octet_img 0) (img_then (octet_img 0) (octet_img 0)))"
    unfolding write_reserved_def [abs_def] by (intro emits_then t_octet.wr_emits m TrueI)
  then show ?thesis
    unfolding emits_def by (fastforce elim!: writes_mono img_thenE simp: reserved_img_def octet_img_def octet_image_plain)
qed

lemma reserved_passes: "passes reserved_img (in_skip 3)"
  unfolding passes_def
proof (intro allI impI)
  fix it bs rest
  assume a: "in_ok it" "reserved_img (wire_order it) (in_pos it) bs" "drop (in_pos it) (in_data it) = bs @ rest"
  have "length bs = 3" using a(2) by (simp add: reserved_img_def)
  moreover from this a(3) have "3 \<le> length (drop (in_pos it) (in_data it))" by simp
  then have "in_pos it + 3 \<le> length (in_data it)" by simp
  ultimately show "moves it (length bs) (in_skip 3 it)" using in_skip_moves [OF a(1)] by simp
qed

text \<open>Where the parameters begin, the stream is positioned and the position kept as its start.\<close>

definition settle :: "version \<Rightarrow> iter \<Rightarrow> iter" where
  "settle v it = fix_starting (if v = VERSION_1_2 then go_next_caught LONGLONG_SIZE it else it)"

definition end_img :: "version \<Rightarrow> image" where
  "end_img v = (if v = VERSION_1_2 then pad_img LONGLONG_SIZE else img_nil)"

lemma fix_starting_step [simp]:
  "in_ok (fix_starting it) = in_ok it" "in_pos (fix_starting it) = in_pos it" "same_input it0 (fix_starting it) = same_input it0 it"
  by (simp_all add: fix_starting_def in_ok_def iter_wf_def cur_chunk_def in_pos_def data_before_def same_input_def same_mode_def in_data_def)

lemma prim_size_longlong: "prim_size LONGLONG_SIZE"
  by (simp add: prim_size_def)

text \<open>What is written with the image \<open>f\<close> and the end of a header, is read with \<open>rd\<close> to the end of the header.\<close>

lemma header_arrives:
  assumes "writes m out (img_then f (end_img v) (local_byte_order out) (length (out_data out))) (Inr out')"
    and "parses f rd P" "in_ok inp" "in_pos inp = length (out_data out)" "in_data inp = out_data out' @ rest"
    and "wire_order inp = local_byte_order out" "length (out_data out') < 2 ^ 31 - 16"
  obtains x it where "rd inp = Inr (x, it)" "P x"
    "rest \<noteq> [] \<longrightarrow> in_ok (settle v it) \<and> same_input inp (settle v it) \<and> in_pos (settle v it) = length (out_data out')"
proof -
  from assms(1) obtain bs where bs: "out_data out' = out_data out @ bs" "img_then f (end_img v) (local_byte_order out) (length (out_data out)) bs"
    by (auto simp: writes_def)
  then obtain b c where b: "bs = b @ c" "f (wire_order inp) (in_pos inp) b" "end_img v (local_byte_order out) (in_pos inp + length b) c"
    using assms(4,6) by (auto elim!: img_thenE)
  have d: "drop (in_pos inp) (in_data inp) = b @ c @ rest" "length b < 2 ^ 31 - 16" using assms(4,5,7) bs(1) b(1) by simp_all
  obtain x it where X: "rd inp = Inr (x, it)" "P x" "in_ok it" "same_input inp it" "in_pos it = in_pos inp + length b"
    by (rule parsesD [OF assms(2,3) b(2) d])
  have len: "length (in_data it) = in_pos it + length c + length rest" using X(4,5) assms(4,5) bs(1) b(1) by (simp add: same_input_def)
  have e: "in_pos it + length c = length (out_data out')" using X(5) assms(4) bs(1) b(1) by simp
  show thesis
  proof (rule that [OF X(1,2)], rule impI)
    assume r: "rest \<noteq> []"
    show "in_ok (settle v it) \<and> same_input inp (settle v it) \<and> in_pos (settle v it) = length (out_data out')"
    proof (cases "v = VERSION_1_2")
      case True
      have c: "length c = align_to (in_pos it) (LONGLONG_SIZE - 1) - in_pos it" using b(3) True X(5) by (simp add: end_img_def pad_img_def)
      have le: "in_pos it \<le> align_to (in_pos it) (LONGLONG_SIZE - 1)" by (rule align_to_prim [OF prim_size_longlong])
      with c len r have "align_to (in_pos it) (LONGLONG_SIZE - 1) < length (in_data it)" by simp
      from in_go_next_step [OF X(3) prim_size_longlong this] obtain it' where
        "go_next_aligned_position next_chunk LONGLONG_SIZE it = Inr it'" "in_ok it'" "same_input it it'"
        "in_pos it' = align_to (in_pos it) (LONGLONG_SIZE - 1)" by blast
      with True c le e X(4) show ?thesis by (auto simp: settle_def go_next_caught_def intro: same_input_trans)
    next
      case False
      with X b(3) e show ?thesis by (simp add: settle_def end_img_def img_nil_def)
    qed
  qed
qed

section \<open>Requests\<close>

definition request_img :: "poa_key \<Rightarrow> version \<Rightarrow> giop_request \<Rightarrow> AddressingDisposition \<Rightarrow> ior \<Rightarrow> image" where
  "request_img pk v q disposition r =
     (let contexts = counted_img context_img (contexts_of (rq_contexts q));
          key = content_img (key_content (Key pk)); operation = string_img (rq_operation q) in
      if v = VERSION_1_0 then
        img_then contexts (img_then (ulong_img (rq_id q)) (img_then (boolean_img (rq_with_response q)) (img_then key
          (img_then operation (string_img [])))))
      else if v = VERSION_1_1 then
        img_then contexts (img_then (ulong_img (rq_id q)) (img_then (boolean_img (rq_with_response q)) (img_then reserved_img
          (img_then key (img_then operation (string_img []))))))
      else
        img_then (ulong_img (rq_id q)) (img_then (octet_img (if rq_with_response q \<or> rq_reliable_oneway q then 3 else 0))
          (img_then reserved_img (img_then (target_img pk disposition r) (img_then operation contexts)))))"

lemma string_ok_nil: "string_ok []"
  by (simp add: string_ok_def)

lemma version_cases:
  assumes "version_ok v"
  obtains "v = VERSION_1_0" "ver_minor v = 0" "\<not> Version_ge v VERSION_1_2" "\<not> Version_eq v VERSION_1_2" "Version_lt v VERSION_1_2"
      "v \<noteq> VERSION_1_1" "v \<noteq> VERSION_1_2"
    | "v = VERSION_1_1" "ver_minor v = 1" "\<not> Version_ge v VERSION_1_2" "\<not> Version_eq v VERSION_1_2" "Version_lt v VERSION_1_2"
      "v \<noteq> VERSION_1_0" "v \<noteq> VERSION_1_2"
    | "v = VERSION_1_2" "ver_minor v = 2" "Version_ge v VERSION_1_2" "Version_eq v VERSION_1_2" "\<not> Version_lt v VERSION_1_2"
      "v \<noteq> VERSION_1_0" "v \<noteq> VERSION_1_1"
  using assms unfolding version_ok_cases
  by (elim disjE) (simp_all add: VERSION_1_0_def VERSION_1_1_def VERSION_1_2_def version_op_defs word_le_nat_alt word_less_nat_alt)

lemma request_emits:
  assumes "malloc_ok m" "block_ok s" "block_ok d" "helper_ok helper" "version_ok v" "reference_to rs pk r"
    and "string_ok (rq_operation q)" "counted_ok (context_ok sc) (contexts_of (rq_contexts q))"
  shows "emits m (insert_request helper rs s d m v q r disposition) (img_then (request_img pk v q disposition r) (end_img v))"
proof -
  note contexts = cdr_transfer.wr_emits [OF contexts_transfer [OF sample_malloc_ok assms(2)] assms(1,8)]
  note parts = emits_then contexts t_ulong.wr_emits t_boolean.wr_emits t_octet.wr_emits t_string.wr_emits reserved_emits
    reference_key_emits [OF assms(1,3,4,6)] target_emits [OF assms(1-4,6)] fix_next_emits prim_size_longlong assms string_ok_nil TrueI
  from assms(5) show ?thesis
  proof (cases rule: version_cases)
    case 1
    have "emits m (insert_request_header_1_0 helper rs s d m q r) (request_img pk VERSION_1_0 q disposition r)"
      unfolding insert_request_header_1_0_def [abs_def] request_img_def Let_def if_P [OF refl] by (intro parts)
    with 1 show ?thesis by (simp add: insert_request_def [abs_def] end_img_def)
  next
    case 2
    have "emits m (insert_request_header_1_1 helper rs s d m q r) (request_img pk VERSION_1_1 q disposition r)"
      unfolding insert_request_header_1_1_def [abs_def] request_img_def Let_def if_not_P [OF 2(6) [unfolded 2(1)]] if_P [OF refl] by (intro parts)
    with 2 show ?thesis by (simp add: insert_request_def [abs_def] end_img_def)
  next
    case 3
    have "emits m (\<lambda>it. rbind (write_ulong m (rq_id q) it) (insert_request_header_1_2 helper rs s d m q r disposition))
        (img_then (request_img pk VERSION_1_2 q disposition r) (pad_img LONGLONG_SIZE))"
      unfolding insert_request_header_1_2_def [abs_def] request_img_def Let_def if_not_P [OF 3(6) [unfolded 3(1)]]
        if_not_P [OF 3(7) [unfolded 3(1)]] img_then_assoc by (intro parts)
    with 3 show ?thesis by (simp add: insert_request_def [abs_def] end_img_def)
  qed
qed

lemma parses_pass_last: "passes f sk \<Longrightarrow> Q x \<Longrightarrow> parses f (\<lambda>it. rbind (sk it) (\<lambda>it. Inr (x, it))) Q"
  using parses_pass [OF _ parses_return [of Q x], of f sk] by simp

text \<open>\<^verbatim>\<open>extract_request\<close> up to the parameters.\<close>

definition request_core :: "(ulong \<Rightarrow> iter \<Rightarrow> iter res) \<Rightarrow> malloc \<Rightarrow> version \<Rightarrow> iter \<Rightarrow> (server_request \<times> iter) res" where
  "request_core sc m v it =
     (if v = VERSION_1_0 then
        rbind (contexts_read sc m it) (\<lambda>(cs, it). rbind (read_ulong it) (\<lambda>(i, it). rbind (read_boolean it) (\<lambda>(w, it).
        rbind (any_key_read m it) (\<lambda>(k, it). rbind (read_string it) (\<lambda>(op, it). rbind (skip_string it) (\<lambda>it.
          Inr (\<lparr>sr_id = i, sr_operation = c_string op, sr_target = KeyTarget k, sr_with_response = w, sr_contexts = cs\<rparr>, it)))))))
      else if v = VERSION_1_1 then
        rbind (contexts_read sc m it) (\<lambda>(cs, it). rbind (read_ulong it) (\<lambda>(i, it). rbind (read_boolean it) (\<lambda>(w, it).
        rbind (in_skip 3 it) (\<lambda>it. rbind (any_key_read m it) (\<lambda>(k, it). rbind (read_string it) (\<lambda>(op, it). rbind (skip_string it) (\<lambda>it.
          Inr (\<lparr>sr_id = i, sr_operation = c_string op, sr_target = KeyTarget k, sr_with_response = w, sr_contexts = cs\<rparr>, it))))))))
      else
        rbind (read_ulong it) (\<lambda>(i, it). rbind (read_octet it) (\<lambda>(w, it). rbind (in_skip 3 it) (\<lambda>it.
        rbind (target_read m it) (\<lambda>(t, it). rbind (read_string it) (\<lambda>(op, it). rbind (contexts_read sc m it) (\<lambda>(cs, it).
          Inr (\<lparr>sr_id = i, sr_operation = c_string op, sr_target = t, sr_with_response = (w AND 1 \<noteq> 0), sr_contexts = cs\<rparr>, it))))))))"

lemma extract_request_core:
  assumes "version_ok v"
  shows "extract_request sc m v it = rbind (request_core sc m v it) (\<lambda>(q, it). Inr (Some q, settle v it))"
  using assms
  by (cases rule: version_cases)
    (simp_all add: extract_request_def extract_request_1_0_def extract_request_1_1_def extract_request_1_2_def request_core_def settle_def
      rbind_assoc split_def)

definition request_rel :: "readers \<Rightarrow> malloc \<Rightarrow> version \<Rightarrow> poa_key \<Rightarrow> giop_request \<Rightarrow> server_request \<Rightarrow> bool" where
  "request_rel rs m v pk q q' \<longleftrightarrow> sr_id q' = rq_id q \<and> sr_operation q' = rq_operation q \<and>
     sr_with_response q' = (rq_with_response q \<or> v = VERSION_1_2 \<and> rq_reliable_oneway q) \<and>
     contexts_rel (rq_contexts q) (sr_contexts q') \<and> leads_to rs m pk (sr_target q')"

lemma request_parses:
  assumes "malloc_ok m'" "malloc_total m'" "version_ok v" "reference_to rs pk r" "string_ok (rq_operation q)"
    and "counted_ok (context_ok sc) (contexts_of (rq_contexts q))"
  shows "parses (request_img pk v q disposition r) (request_core sc m' v) (request_rel rs m' v pk q)"
proof -
  note contexts = cdr_transfer.rd_parses [OF contexts_transfer [OF assms(1,2) sample_block_ok] assms(6)]
  obtain n p where ok: "key_ok pk" by (rule reference_profile [OF assms(4)])
  have key: "parses (content_img (key_content (Key pk))) (any_key_read m') (key_rel (Key pk))"
    by (rule cdr_transfer.rd_parses [OF key_transfer [OF assms(1,2) sample_block_ok octet_seq_helper_ok]]) (simp add: ok)
  have leads: "key_rel (Key pk) k \<Longrightarrow> leads_to rs m' pk (KeyTarget k)" for k
    using key_arrives ok by (auto simp: leads_to_def target_key_def)
  note op = t_string.rd_parses [OF assms(5)] and principal = parses_pass_last [OF skip_string_passes [OF string_ok_nil]]
  note prim = t_ulong.rd_parses [OF TrueI] t_boolean.rd_parses [OF TrueI] t_octet.rd_parses [OF TrueI]
  note rel = request_rel_def c_string_sent [OF assms(5)]
  have ne: "VERSION_1_1 \<noteq> VERSION_1_0" "VERSION_1_2 \<noteq> VERSION_1_0" "VERSION_1_2 \<noteq> VERSION_1_1"
    by (simp_all add: VERSION_1_0_def VERSION_1_1_def VERSION_1_2_def)
  consider "v = VERSION_1_0" | "v = VERSION_1_1" | "v = VERSION_1_2" using assms(3) by (auto simp: version_ok_cases)
  then show ?thesis
  proof cases
    case 1
    show ?thesis
      unfolding request_core_def [abs_def] request_img_def Let_def 1 if_P [OF refl]
      by (rule parses_then [OF contexts], rule parses_then [OF prim(1)], rule parses_then [OF prim(2)], rule parses_then [OF key],
          rule parses_then [OF op], rule principal) (use ne in \<open>simp add: rel leads\<close>)
  next
    case 2
    show ?thesis
      unfolding request_core_def [abs_def] request_img_def Let_def 2 if_P [OF refl] if_not_P [OF ne(1)]
      by (rule parses_then [OF contexts], rule parses_then [OF prim(1)], rule parses_then [OF prim(2)], rule parses_pass [OF reserved_passes],
          rule parses_then [OF key], rule parses_then [OF op], rule principal) (use ne in \<open>simp add: rel leads\<close>)
  next
    case 3
    show ?thesis
      unfolding request_core_def [abs_def] request_img_def Let_def 3 if_not_P [OF ne(2)] if_not_P [OF ne(3)]
      by (rule parses_then [OF prim(1)], rule parses_then [OF prim(3)], rule parses_pass [OF reserved_passes],
          rule parses_then [OF target_parses [OF assms(1,2,4)]], rule parses_then [OF op], rule parses_last [OF contexts])
        (simp add: rel)
  qed
qed


section \<open>Replies\<close>

definition reply_img :: "version \<Rightarrow> giop_reply \<Rightarrow> image" where
  "reply_img v p =
     (let contexts = counted_img context_img (contexts_of (rp_contexts p)); status = ulong_img (reply_status_value (rp_status p)) in
      if v = VERSION_1_2 then img_then (ulong_img (rp_id p)) (img_then status contexts)
      else img_then contexts (img_then (ulong_img (rp_id p)) status))"

lemma reply_emits:
  assumes "malloc_ok m" "block_ok s" "version_ok v" "counted_ok (context_ok sc) (contexts_of (rp_contexts p))"
  shows "emits m (reply_header_write s m v p) (img_then (reply_img v p) (end_img v))"
proof -
  note contexts = cdr_transfer.wr_emits [OF contexts_transfer [OF sample_malloc_ok assms(2)] assms(1,4)]
  note parts = emits_then contexts t_ulong.wr_emits fix_next_emits prim_size_longlong assms TrueI
  have old: "emits m (marshal_reply_header_1_1 s m p) (reply_img v p)" if "v \<noteq> VERSION_1_2"
    unfolding marshal_reply_header_1_1_def [abs_def] reply_img_def Let_def if_not_P [OF that] by (intro parts)
  have new: "emits m (\<lambda>it. rbind (write_ulong m (rp_id p) it) (marshal_reply_header_1_2 s m p))
      (img_then (reply_img VERSION_1_2 p) (pad_img LONGLONG_SIZE))"
    unfolding marshal_reply_header_1_2_def [abs_def] reply_img_def Let_def if_P [OF refl] img_then_assoc by (intro parts)
  from assms(3) old new show ?thesis
    by (cases rule: version_cases) (simp_all add: reply_header_write_def [abs_def] end_img_def)
qed

definition reply_core :: "(ulong \<Rightarrow> iter \<Rightarrow> iter res) \<Rightarrow> malloc \<Rightarrow> version \<Rightarrow> iter \<Rightarrow> (giop_reply \<times> iter) res" where
  "reply_core sc m v it =
     (if v = VERSION_1_2 then
        rbind (read_ulong it) (\<lambda>(i, it). rbind (read_ulong it) (\<lambda>(aux, it). rbind (ReplyStatusType_from_int aux) (\<lambda>status.
        rbind (contexts_read sc m it) (\<lambda>(cs, it). Inr (\<lparr>rp_id = i, rp_status = status, rp_contexts = cs\<rparr>, it)))))
      else unmarshal_reply_header_1_1 sc m it)"

lemma reply_header_read_core:
  assumes "version_ok v"
  shows "reply_header_read sc m v it = rbind (reply_core sc m v it) (\<lambda>(p, it). Inr (p, settle v it))"
  using assms
  by (cases rule: version_cases)
    (simp_all add: reply_header_read_def unmarshal_reply_header_1_2_def reply_core_def settle_def rbind_assoc split_def)

lemma reply_status_from: "ReplyStatusType_from_int (reply_status_value s) = Inr s"
  by (cases s) (simp_all add: ReplyStatusType_from_int_def)

definition reply_rel :: "giop_reply \<Rightarrow> giop_reply \<Rightarrow> bool" where
  "reply_rel p p' \<longleftrightarrow> rp_id p' = rp_id p \<and> rp_status p' = rp_status p \<and> contexts_rel (rp_contexts p) (rp_contexts p')"

text \<open>What the receiver of versions 1.0 and 1.1 makes of a reply, as the rest of \<open>unmarshal_reply_header_1_1\<close> after the status.\<close>

lemma reply_parses:
  assumes "malloc_ok m'" "malloc_total m'" "counted_ok (context_ok sc) (contexts_of (rp_contexts p))"
    and "v = VERSION_1_2 \<or> reply_status_value (rp_status p) \<le> reply_status_value LOCATION_FORWARD"
  shows "parses (reply_img v p) (reply_core sc m' v) (reply_rel p)"
proof -
  note contexts = cdr_transfer.rd_parses [OF contexts_transfer [OF assms(1,2) sample_block_ok] assms(3)]
  note ulong = t_ulong.rd_parses [OF TrueI]
  show ?thesis
  proof (cases "v = VERSION_1_2")
    case True
    show ?thesis
      unfolding reply_core_def [abs_def] reply_img_def Let_def if_P [OF True]
      by (rule parses_then [OF ulong], rule parses_then [OF ulong], simp only: reply_status_from rbind.simps, rule parses_last [OF contexts])
        (simp add: reply_rel_def)
  next
    case False
    then have "\<not> reply_status_value (rp_status p) > reply_status_value LOCATION_FORWARD" using assms(4) by simp
    note st = reply_status_from [of "rp_status p"] if_not_P [OF this]
    show ?thesis
      unfolding reply_core_def [abs_def] reply_img_def unmarshal_reply_header_1_1_def Let_def if_not_P [OF False]
      by (rule parses_then [OF contexts], rule parses_then [OF ulong], rule parses_finish [OF ulong], simp only: st rbind.simps)
        (simp add: reply_rel_def)
  qed
qed

text \<open>C24. A reply arrives as it was sent: its id, its status and its service contexts, and the stream stands at its body. In versions
  1.0 and 1.1 this is so for the four statuses that those versions define.\<close>

theorem reply_header_roundtrip:
  assumes "malloc_ok m" "block_ok s" "malloc_ok m'" "malloc_total m'" "version_ok v"
    and "counted_ok (context_ok sc) (contexts_of (rp_contexts p))"
    and "v = VERSION_1_2 \<or> reply_status_value (rp_status p) \<le> reply_status_value LOCATION_FORWARD"
    and "out_ok out" "reply_header_write s m v p out = Inr out'" "length (out_data out') < 2 ^ 31 - 16"
    and "in_ok inp" "in_pos inp = length (out_data out)" "in_data inp = out_data out' @ rest" "wire_order inp = local_byte_order out"
  shows "\<exists>p' inp'. reply_header_read sc m' v inp = Inr (p', inp') \<and> rp_id p' = rp_id p \<and> rp_status p' = rp_status p \<and>
    contexts_rel (rp_contexts p) (rp_contexts p') \<and>
    (rest \<noteq> [] \<longrightarrow> in_ok inp' \<and> same_input inp inp' \<and> in_pos inp' = length (out_data out'))"
proof -
  have w: "writes m out (img_then (reply_img v p) (end_img v) (local_byte_order out) (length (out_data out))) (Inr out')"
    using emitsD [OF reply_emits [OF assms(1,2,5,6)] assms(8)] assms(9) by simp
  obtain p' it where "reply_core sc m' v inp = Inr (p', it)" "reply_rel p p'"
    "rest \<noteq> [] \<longrightarrow> in_ok (settle v it) \<and> same_input inp (settle v it) \<and> in_pos (settle v it) = length (out_data out')"
    by (rule header_arrives [OF w reply_parses [OF assms(3,4,6,7)] assms(11-14) assms(10)])
  with reply_header_read_core [OF assms(5)] show ?thesis by (simp add: reply_rel_def)
qed

text \<open>C26. The sender does not restrict the status: in versions 1.0 and 1.1 it writes \<open>LOCATION_FORWARD_PERM\<close> and
  \<open>NEEDS_ADDRESSING_MODE\<close>, and the receiver answers such a reply with \<open>MARSHAL\<close>.\<close>

theorem reply_status_rejected:
  assumes "malloc_ok m" "block_ok s" "malloc_ok m'" "malloc_total m'" "v = VERSION_1_0 \<or> v = VERSION_1_1"
    and "counted_ok (context_ok sc) (contexts_of (rp_contexts p))" "rp_status p = LOCATION_FORWARD_PERM \<or> rp_status p = NEEDS_ADDRESSING_MODE"
    and "out_ok out" "reply_header_write s m v p out = Inr out'" "length (out_data out') < 2 ^ 31 - 16"
    and "in_ok inp" "in_pos inp = length (out_data out)" "in_data inp = out_data out' @ rest" "wire_order inp = local_byte_order out"
  shows "reply_header_read sc m' v inp = Inl MARSHAL"
proof -
  have v: "version_ok v" "v \<noteq> VERSION_1_2" using assms(5) by (auto simp: version_ok_cases VERSION_1_0_def VERSION_1_1_def VERSION_1_2_def)
  have w: "writes m out (img_then (reply_img v p) (end_img v) (local_byte_order out) (length (out_data out))) (Inr out')"
    using emitsD [OF reply_emits [OF assms(1,2) v(1) assms(6)] assms(8)] assms(9) by simp
  note contexts = cdr_transfer.rd_parses [OF contexts_transfer [OF assms(3,4) sample_block_ok] assms(6)]
  let ?raw = "\<lambda>it. rbind (contexts_read sc m' it) (\<lambda>(cs, it). rbind (read_ulong it) (\<lambda>(i, it). rbind (read_ulong it) (\<lambda>(aux, it). Inr ((cs, i, aux), it))))"
  have "parses (reply_img v p) ?raw (\<lambda>(cs, i, aux). aux = reply_status_value (rp_status p))"
    unfolding reply_img_def Let_def if_not_P [OF v(2)]
    by (rule parses_then [OF contexts], rule parses_then [OF t_ulong.rd_parses [OF TrueI]], rule parses_last [OF t_ulong.rd_parses [OF TrueI]]) simp
  then obtain x it where x: "?raw inp = Inr (x, it)" "(\<lambda>(cs, i, aux). aux = reply_status_value (rp_status p)) x"
    by (rule header_arrives [OF w _ assms(11-14) assms(10)])
  have "reply_core sc m' v inp = rbind (?raw inp) (\<lambda>((cs, i, aux), it). rbind (ReplyStatusType_from_int aux) (\<lambda>status.
      if reply_status_value status > reply_status_value LOCATION_FORWARD then Inl MARSHAL
      else Inr (\<lparr>rp_id = i, rp_status = status, rp_contexts = cs\<rparr>, it)))"
    using v(2) by (simp add: reply_core_def unmarshal_reply_header_1_1_def rbind_assoc split_def cong: if_cong)
  also have "\<dots> = Inl MARSHAL" unfolding x(1) using x(2) assms(7) by (cases x) (auto simp: ReplyStatusType_from_int_def)
  finally have "reply_core sc m' v inp = Inl MARSHAL" .
  with reply_header_read_core [OF v(1)] show ?thesis by simp
qed

section \<open>Locate messages\<close>

lemma arrives:
  assumes "emits m w f" "out_ok out" "w out = Inr out'" "parses f rd P" "in_ok inp" "in_pos inp = length (out_data out)"
    and "in_data inp = out_data out' @ rest" "wire_order inp = local_byte_order out" "length (out_data out') < 2 ^ 31 - 16"
  obtains x it where "rd inp = Inr (x, it)" "P x" "in_ok it" "same_input inp it" "in_pos it = length (out_data out')"
proof -
  from emitsD [OF assms(1,2)] assms(3) obtain bs where bs: "out_data out' = out_data out @ bs"
    "f (local_byte_order out) (length (out_data out)) bs" by (auto simp: writes_def)
  then have f: "f (wire_order inp) (in_pos inp) bs" "drop (in_pos inp) (in_data inp) = bs @ rest" "length bs < 2 ^ 31 - 16"
    using assms(6-9) by simp_all
  obtain x it where X: "rd inp = Inr (x, it)" "P x" "in_ok it" "same_input inp it" "in_pos it = in_pos inp + length bs"
    by (rule parsesD [OF assms(4,5) f])
  show thesis by (rule that [OF X(1-4)]) (use X(5) bs(1) assms(6) in simp)
qed

definition locate_img :: "poa_key \<Rightarrow> version \<Rightarrow> ulong \<Rightarrow> AddressingDisposition \<Rightarrow> ior \<Rightarrow> image" where
  "locate_img pk v i disposition r = img_then (ulong_img i)
     (if v = VERSION_1_2 then target_img pk disposition r else content_img (key_content (Key pk)))"

lemma locate_emits:
  assumes "malloc_ok m" "block_ok s" "block_ok d" "helper_ok helper" "version_ok v" "reference_to rs pk r"
  shows "emits m (insert_address helper rs s d m v i r disposition) (locate_img pk v i disposition r)"
proof -
  obtain n p where R: "iiop_profile r = Some n" "n < length (profiles r)" "profiles r ! n = ProfileIIOP p" "pf_extracted p"
    "pf_key p = Some (Key pk)" "key_ok pk" "\<not> is_group_reference r" "\<not> iiop_searched r" by (rule reference_profile [OF assms(6)])
  then have key: "ior_object_key rs m r = Inr (Some (Key pk))"
    by (simp add: ior_object_key_def is_group_reference_def used_profile_def get_profile_def getObjectKey_def extract_members_def)
  have w: "emits m (any_key_write helper m d (Key pk)) (content_img (key_content (Key pk)))"
    by (rule cdr_transfer.wr_emits [OF key_transfer [OF sample_malloc_ok assms(3,4)] assms(1)]) (simp add: R)
  from assms(5) show ?thesis
  proof (cases rule: version_cases)
    case 3
    have "emits m (\<lambda>it. rbind (write_ulong m i it) (target_write helper rs s d m disposition r)) (img_then (ulong_img i) (target_img pk disposition r))"
      by (intro emits_then t_ulong.wr_emits target_emits assms TrueI)
    with 3 show ?thesis by (simp add: insert_address_def [abs_def] locate_img_def)
  qed (use emits_then [OF t_ulong.wr_emits [OF assms(1) TrueI] w, of i] key in \<open>simp_all add: insert_address_def [abs_def] locate_img_def\<close>)
qed

lemma locate_parses:
  assumes "malloc_ok m'" "malloc_total m'" "version_ok v" "reference_to rs pk r"
  shows "parses (locate_img pk v i disposition r) (extract_address m' v) (\<lambda>(j, t). j = i \<and> leads_to rs m' pk t)"
proof -
  obtain n p where ok: "key_ok pk" by (rule reference_profile [OF assms(4)])
  note ulong = t_ulong.rd_parses [OF TrueI]
  have r: "parses (content_img (key_content (Key pk))) (any_key_read m') (key_rel (Key pk))"
    by (rule cdr_transfer.rd_parses [OF key_transfer [OF assms(1,2) sample_block_ok octet_seq_helper_ok]]) (simp add: ok)
  have target: "parses (img_then (ulong_img i) (target_img pk disposition r))
      (\<lambda>it. rbind (read_ulong it) (\<lambda>(i, it). rbind (target_read m' it) (\<lambda>(t, it). Inr ((i, t), it)))) (\<lambda>(j, t). j = i \<and> leads_to rs m' pk t)"
    by (rule parses_then [OF ulong], rule parses_last [OF target_parses [OF assms(1,2,4)]]) simp
  have plain: "parses (img_then (ulong_img i) (content_img (key_content (Key pk))))
      (\<lambda>it. rbind (read_ulong it) (\<lambda>(i, it). rbind (any_key_read m' it) (\<lambda>(k, it). Inr ((i, KeyTarget k), it))))
      (\<lambda>(j, t). j = i \<and> leads_to rs m' pk t)"
    by (rule parses_then [OF ulong], rule parses_last [OF r]) (use key_arrives ok in \<open>auto simp: leads_to_def target_key_def\<close>)
  from assms(3) target plain show ?thesis
    by (cases rule: version_cases) (simp_all add: extract_address_def [abs_def] locate_img_def)
qed

text \<open>A locate request arrives as it was sent, in each version and with each of the addresses of the target: the receiver finds the id
  and an address that leads to the object key of the reference, and reads no further than the sender wrote.\<close>

theorem locate_request_roundtrip:
  assumes "malloc_ok m" "block_ok s" "block_ok d" "helper_ok helper" "malloc_ok m'" "malloc_total m'"
    and "version_ok v" "reference_to rs pk r"
    and "out_ok out" "insert_address helper rs s d m v i r disposition out = Inr out'" "length (out_data out') < 2 ^ 31 - 16"
    and "in_ok inp" "in_pos inp = length (out_data out)" "in_data inp = out_data out' @ rest" "wire_order inp = local_byte_order out"
  shows "\<exists>t inp'. extract_address m' v inp = Inr ((i, t), inp') \<and> leads_to rs m' pk t \<and> in_pos inp' = length (out_data out')"
proof -
  obtain x it where "extract_address m' v inp = Inr (x, it)" "(\<lambda>(j, t). j = i \<and> leads_to rs m' pk t) x" "in_pos it = length (out_data out')"
    by (rule arrives [OF locate_emits [OF assms(1-4,7,8)] assms(9,10) locate_parses [OF assms(5-8)] assms(12-15) assms(11)])
  then show ?thesis by auto
qed

lemma locate_status_from: "LocateReplyStatusType_from_int (locate_status_value s) = Inr s"
  by (cases s) (simp_all add: LocateReplyStatusType_from_int_def)

lemma locate_reply_emits:
  assumes "malloc_ok m" "version_ok v"
  shows "emits m (locate_reply_write m v i status) (img_then (ulong_img i) (ulong_img (locate_status_value status)))"
  using assms(2) emits_then [OF t_ulong.wr_emits [OF assms(1) TrueI] t_ulong.wr_emits [OF assms(1) TrueI], of i "locate_status_value status"]
  by (cases rule: version_cases) (simp_all add: locate_reply_write_def [abs_def])

lemma locate_reply_parses:
  assumes "version_ok v"
  shows "parses (img_then (ulong_img i) (ulong_img (locate_status_value status))) (locate_reply_read v) (\<lambda>x. x = (i, status))"
proof -
  note ulong = t_ulong.rd_parses [OF TrueI]
  have "parses (img_then (ulong_img i) (ulong_img (locate_status_value status)))
      (\<lambda>it. rbind (read_ulong it) (\<lambda>(i, it). rbind (read_ulong it) (\<lambda>(aux, it).
        rbind (LocateReplyStatusType_from_int aux) (\<lambda>status. Inr ((i, status), it))))) (\<lambda>x. x = (i, status))"
    by (rule parses_then [OF ulong], rule parses_finish [OF ulong]) (simp add: locate_status_from)
  with assms show ?thesis by (cases rule: version_cases) (simp_all add: locate_reply_read_def [abs_def])
qed

section \<open>Applied to a request\<close>

definition sample_contexts :: "service_context list option" where
  "sample_contexts = Some [BiDirServiceContext [ListenPoint [105] 2810]]"

definition sample_request :: giop_request where
  "sample_request = \<lparr>rq_id = 7, rq_with_response = False, rq_reliable_oneway = True, rq_operation = [112, 105, 110, 103],
     rq_contexts = sample_contexts\<rparr>"

definition sample_reply :: "ReplyStatusType \<Rightarrow> giop_reply" where
  "sample_reply s = \<lparr>rp_id = 7, rp_status = s, rp_contexts = sample_contexts\<rparr>"

lemma sample_contexts_ok: "counted_ok (context_ok (\<lambda>i e. Inr e)) (contexts_of sample_contexts)"
  by (simp add: sample_contexts_def contexts_of_def counted_ok_def listen_point_ok_def host_octets_def ListenPoint_def string_ok_def)

lemma sample_contexts_le: "img_le (counted_img context_img (contexts_of sample_contexts)) 100"
proof -
  have a: "img_le (listen_point_img (ListenPoint [105] 2810)) 12"
    unfolding listen_point_img_def
    by (rule img_le_weaken [OF img_le_then [OF img_le_string img_le_ushort]]) (simp add: host_octets_def ListenPoint_def)
  have "img_le (imgs listen_point_img [ListenPoint [105] 2810]) (12 + 0)" unfolding imgs.simps by (intro img_le_intros a)
  note l = img_le_counted [OF this]
  have "img_le (context_img (BiDirServiceContext [ListenPoint [105] 2810])) (7 + (20 + 7))"
    unfolding context_img_def context_content.simps by (intro img_le_intros) (use content_le [OF l] in auto)
  then have "img_le (imgs context_img [BiDirServiceContext [ListenPoint [105] 2810]]) (7 + (20 + 7) + 0)"
    unfolding imgs.simps by (intro img_le_intros)
  from img_le_weaken [OF img_le_counted [OF this]] show ?thesis by (simp add: sample_contexts_def contexts_of_def)
qed

lemma sample_target_le: "img_le (target_img sample_key ReferenceAddr sample_ior) (3 + (7 + 1100))"
  unfolding target_img_def AddressingDisposition.case by (intro img_le_intros sample_ior_le)

lemma sample_request_le: "img_le (img_then (request_img sample_key VERSION_1_2 sample_request ReferenceAddr sample_ior) (end_img VERSION_1_2)) 2000"
proof -
  note t = sample_target_le
  have r3: "img_le reserved_img 3" by (simp add: img_le_def reserved_img_def)
  have c: "img_le (counted_img context_img (contexts_of (rq_contexts sample_request))) 100" using sample_contexts_le by (simp add: sample_request_def)
  have l: "img_le (img_then (request_img sample_key VERSION_1_2 sample_request ReferenceAddr sample_ior) (end_img VERSION_1_2))
      ((7 + (1 + (3 + ((3 + (7 + 1100)) + ((length (rq_operation sample_request) + 8) + 100))))) + LONGLONG_SIZE)"
    unfolding request_img_def Let_def end_img_def
    using img_le_then [OF img_le_then [OF img_le_ulong img_le_then [OF img_le_octet img_le_then [OF r3 img_le_then [OF t
        img_le_then [OF img_le_string c]]]]] img_le_pad [OF prim_size_longlong]]
    by (simp add: VERSION_1_0_def VERSION_1_1_def VERSION_1_2_def)
  from img_le_weaken [OF l] show ?thesis by (simp add: sample_request_def)
qed


lemma sample_reply_le: "img_le (img_then (reply_img v (sample_reply st)) (end_img v)) 200"
proof -
  have c: "img_le (counted_img context_img (contexts_of (rp_contexts (sample_reply st)))) 100"
    using sample_contexts_le by (simp add: sample_reply_def)
  have n: "img_le (img_then (img_then (ulong_img a) (img_then (ulong_img b) (counted_img context_img (contexts_of (rp_contexts (sample_reply st))))))
      (pad_img LONGLONG_SIZE)) 200" for a b
    by (rule img_le_weaken [OF img_le_then [OF img_le_then [OF img_le_ulong img_le_then [OF img_le_ulong c]] img_le_pad [OF prim_size_longlong]]]) simp
  have o: "img_le (img_then (counted_img context_img (contexts_of (rp_contexts (sample_reply st)))) (img_then (ulong_img a) (ulong_img b))) 200" for a b
    by (rule img_le_weaken [OF img_le_then [OF c img_le_then [OF img_le_ulong img_le_ulong]]]) simp
  from n o show ?thesis by (simp add: reply_img_def end_img_def Let_def)
qed

theorem reply_header_roundtrip_witness:
  "\<exists>out' inp p' inp'. reply_header_write 16 sample_malloc VERSION_1_0 (sample_reply USER_EXCEPTION) sample_out = Inr out' \<and>
     in_data inp = out_data out' @ [0] \<and> reply_header_read (\<lambda>i e. Inr e) sample_malloc VERSION_1_0 inp = Inr (p', inp') \<and>
     rp_status p' = USER_EXCEPTION \<and> in_pos inp' = length (out_data out')"
proof -
  note m = sample_malloc_ok and v = version_ok_cases [of VERSION_1_0, THEN iffD2, OF disjI1, OF refl]
  have c: "counted_ok (context_ok (\<lambda>i e. Inr e)) (contexts_of (rp_contexts (sample_reply USER_EXCEPTION)))"
    using sample_contexts_ok by (simp add: sample_reply_def)
  have st: "VERSION_1_0 = VERSION_1_2 \<or> reply_status_value (rp_status (sample_reply USER_EXCEPTION)) \<le> reply_status_value LOCATION_FORWARD"
    by (simp add: sample_reply_def word_le_nat_alt)
  obtain out' inp where s: "reply_header_write 16 sample_malloc VERSION_1_0 (sample_reply USER_EXCEPTION) sample_out = Inr out'"
    "length (out_data out') < 2 ^ 31 - 16" "in_ok inp" "in_pos inp = 0" "in_data inp = out_data out' @ [0]"
    "wire_order inp = local_byte_order sample_out"
    by (rule sample_sent [OF reply_emits [OF m(1) sample_block_ok v c] sample_reply_le]) simp
  have p: "in_pos inp = length (out_data sample_out)" using s(4) sample_new(3) by simp
  from reply_header_roundtrip [OF m(1) sample_block_ok m v c st sample_new(1) s(1-3) p s(5,6)] s show ?thesis
    by (fastforce simp: sample_reply_def)
qed

theorem reply_status_rejected_witness:
  "\<exists>out' inp. reply_header_write 16 sample_malloc VERSION_1_1 (sample_reply LOCATION_FORWARD_PERM) sample_out = Inr out' \<and>
     in_data inp = out_data out' @ [0] \<and> reply_header_read (\<lambda>i e. Inr e) sample_malloc VERSION_1_1 inp = Inl MARSHAL"
proof -
  note m = sample_malloc_ok and v = version_ok_cases [of VERSION_1_1, THEN iffD2, OF disjI2, OF disjI1, OF refl]
  have c: "counted_ok (context_ok (\<lambda>i e. Inr e)) (contexts_of (rp_contexts (sample_reply LOCATION_FORWARD_PERM)))"
    using sample_contexts_ok by (simp add: sample_reply_def)
  obtain out' inp where s: "reply_header_write 16 sample_malloc VERSION_1_1 (sample_reply LOCATION_FORWARD_PERM) sample_out = Inr out'"
    "length (out_data out') < 2 ^ 31 - 16" "in_ok inp" "in_pos inp = 0" "in_data inp = out_data out' @ [0]"
    "wire_order inp = local_byte_order sample_out"
    by (rule sample_sent [OF reply_emits [OF m(1) sample_block_ok v c] sample_reply_le]) simp
  have p: "in_pos inp = length (out_data sample_out)" using s(4) sample_new(3) by simp
  have st: "rp_status (sample_reply LOCATION_FORWARD_PERM) = LOCATION_FORWARD_PERM" by (simp add: sample_reply_def)
  from reply_status_rejected [OF m(1) sample_block_ok m disjI2 [OF refl] c disjI1 [OF st] sample_new(1) s(1-3) p s(5,6)] s show ?thesis by blast
qed

theorem locate_request_roundtrip_witness:
  "\<exists>out' inp t inp'. insert_address octet_seq_helper sample_readers 16 16 sample_malloc VERSION_1_2 9 sample_ior ReferenceAddr sample_out = Inr out' \<and>
     in_data inp = out_data out' @ [0] \<and> extract_address sample_malloc VERSION_1_2 inp = Inr ((9, t), inp') \<and>
     leads_to sample_readers sample_malloc sample_key t"
proof -
  note m = sample_malloc_ok and v = version_ok_cases [of VERSION_1_2, THEN iffD2, OF disjI2, OF disjI2, OF refl]
  from img_le_then [OF img_le_ulong sample_target_le] have l: "img_le (locate_img sample_key VERSION_1_2 9 ReferenceAddr sample_ior) (7 + (3 + (7 + 1100)))"
    by (simp add: locate_img_def)
  obtain out' inp where s: "insert_address octet_seq_helper sample_readers 16 16 sample_malloc VERSION_1_2 9 sample_ior ReferenceAddr
      sample_out = Inr out'" "length (out_data out') < 2 ^ 31 - 16" "in_ok inp" "in_pos inp = 0" "in_data inp = out_data out' @ [0]"
      "wire_order inp = local_byte_order sample_out"
    by (rule sample_sent [OF locate_emits [OF m(1) sample_block_ok sample_block_ok octet_seq_helper_ok v sample_reference] l]) simp
  have p: "in_pos inp = length (out_data sample_out)" using s(4) sample_new(3) by simp
  from locate_request_roundtrip [OF m(1) sample_block_ok sample_block_ok octet_seq_helper_ok m v sample_reference sample_new(1) s(1-3) p s(5,6)] s
  show ?thesis by blast
qed

end
