(* ===== verification/Giop_Outcome.thy ===== *)
theory Giop_Outcome
  imports Giop_Exchange
begin

text \<open>
  What replies tell beside results: system exceptions (\<^verbatim>\<open>core/util/exceptions/SystemExceptionEncoder.C\<close>, \<^verbatim>\<open>SystemExceptionNames.C\<close> and the
  classes of \<^verbatim>\<open>IDL/01_orb/extra/CORBA/sys_excepts.h\<close>), references to follow and addresses that are needed, in the bodies of
  replies and of locate replies (\<^verbatim>\<open>core/comm/iiop/GIOPReplyMessage.C\<close>, \<^verbatim>\<open>GIOPLocateReplyMessage.C\<close>). At the end, a call as a whole: the header
  of a request and its arguments.
\<close>

section \<open>System exceptions\<close>

datatype system_class =
    UNKNOWN_class | BAD_PARAM_class | NO_MEMORY_class | IMP_LIMIT_class | COMM_FAILURE_class | INV_OBJREF_class |
    NO_PERMISSION_class | INTERNAL_class | MARSHAL_class | INITIALIZE_class | NO_IMPLEMENT_class | BAD_TYPECODE_class |
    BAD_OPERATION_class | NO_RESOURCES_class | NO_RESPONSE_class | PERSIST_STORE_class | BAD_INV_ORDER_class | TRANSIENT_class |
    FREE_MEM_class | INV_IDENT_class | INV_FLAG_class | INTF_REPOS_class | BAD_CONTEXT_class | OBJ_ADAPTER_class |
    DATA_CONVERSION_class | OBJECT_NOT_EXIST_class | TRANSACTION_REQUIRED_class | TRANSACTION_ROLLEDBACK_class |
    INVALID_TRANSACTION_class | INV_POLICY_class | CODESET_INCOMPATIBLE_class | REBIND_class | TIMEOUT_class |
    TRANSACTION_UNAVAILABLE_class | TRANSACTION_MODE_class | BAD_QOS_class

text \<open>The repository ids of the classes.\<close>

fun rep_id :: "system_class \<Rightarrow> string" where
  "rep_id UNKNOWN_class = ''IDL:omg.org/CORBA/UNKNOWN:1.0''"
| "rep_id BAD_PARAM_class = ''IDL:omg.org/CORBA/BAD_PARAM:1.0''"
| "rep_id NO_MEMORY_class = ''IDL:omg.org/CORBA/NO_MEMORY:1.0''"
| "rep_id IMP_LIMIT_class = ''IDL:omg.org/CORBA/IMP_LIMIT:1.0''"
| "rep_id COMM_FAILURE_class = ''IDL:omg.org/CORBA/COMM_FAILURE:1.0''"
| "rep_id INV_OBJREF_class = ''IDL:omg.org/CORBA/INV_OBJREF:1.0''"
| "rep_id NO_PERMISSION_class = ''IDL:omg.org/CORBA/NO_PERMISSION:1.0''"
| "rep_id INTERNAL_class = ''IDL:omg.org/CORBA/INTERNAL:1.0''"
| "rep_id MARSHAL_class = ''IDL:omg.org/CORBA/MARSHAL:1.0''"
| "rep_id INITIALIZE_class = ''IDL:omg.org/CORBA/INITIALIZE:1.0''"
| "rep_id NO_IMPLEMENT_class = ''IDL:omg.org/CORBA/NO_IMPLEMENT:1.0''"
| "rep_id BAD_TYPECODE_class = ''IDL:omg.org/CORBA/BAD_TYPECODE:1.0''"
| "rep_id BAD_OPERATION_class = ''IDL:omg.org/CORBA/BAD_OPERATION:1.0''"
| "rep_id NO_RESOURCES_class = ''IDL:omg.org/CORBA/NO_RESOURCES:1.0''"
| "rep_id NO_RESPONSE_class = ''IDL:omg.org/CORBA/NO_RESPONSE:1.0''"
| "rep_id PERSIST_STORE_class = ''IDL:omg.org/CORBA/PERSIST_STORE:1.0''"
| "rep_id BAD_INV_ORDER_class = ''IDL:omg.org/CORBA/BAD_INV_ORDER:1.0''"
| "rep_id TRANSIENT_class = ''IDL:omg.org/CORBA/TRANSIENT:1.0''"
| "rep_id FREE_MEM_class = ''IDL:omg.org/CORBA/FREE_MEM:1.0''"
| "rep_id INV_IDENT_class = ''IDL:omg.org/CORBA/INV_IDENT:1.0''"
| "rep_id INV_FLAG_class = ''IDL:omg.org/CORBA/INV_FLAG:1.0''"
| "rep_id INTF_REPOS_class = ''IDL:omg.org/CORBA/INTF_REPOS:1.0''"
| "rep_id BAD_CONTEXT_class = ''IDL:omg.org/CORBA/BAD_CONTEXT:1.0''"
| "rep_id OBJ_ADAPTER_class = ''IDL:omg.org/CORBA/OBJ_ADAPTER:1.0''"
| "rep_id DATA_CONVERSION_class = ''IDL:omg.org/CORBA/DATA_CONVERSION:1.0''"
| "rep_id OBJECT_NOT_EXIST_class = ''IDL:omg.org/CORBA/OBJECT_NOT_EXIST:1.0''"
| "rep_id TRANSACTION_REQUIRED_class = ''IDL:omg.org/CORBA/TRANSACTION_REQUIRED:1.0''"
| "rep_id TRANSACTION_ROLLEDBACK_class = ''IDL:omg.org/CORBA/TRANSACTION_ROLLEDBACK:1.0''"
| "rep_id INVALID_TRANSACTION_class = ''IDL:omg.org/CORBA/INVALID_TRANSACTION:1.0''"
| "rep_id INV_POLICY_class = ''IDL:omg.org/CORBA/INV_POLICY:1.0''"
| "rep_id CODESET_INCOMPATIBLE_class = ''IDL:omg.org/CORBA/CODESET_INCOMPATIBLE:1.0''"
| "rep_id REBIND_class = ''IDL:omg.org/CORBA/REBIND:1.0''"
| "rep_id TIMEOUT_class = ''IDL:omg.org/CORBA/TIMEOUT:1.0''"
| "rep_id TRANSACTION_UNAVAILABLE_class = ''IDL:omg.org/CORBA/TRANSACTION_UNAVAILABLE:1.0''"
| "rep_id TRANSACTION_MODE_class = ''IDL:omg.org/CORBA/TRANSACTION_MODE:1.0''"
| "rep_id BAD_QOS_class = ''IDL:omg.org/CORBA/BAD_QOS:1.0''"

text \<open>The table of the creators: the repository ids of \<^verbatim>\<open>SystemExceptionNames.C\<close>, as \<^verbatim>\<open>init_creators\<close> enters them.\<close>

definition st_creators_table :: "(string \<times> system_class) list" where
  "st_creators_table =
    [(''IDL:omg.org/CORBA/BAD_CONTEXT:1.0'', BAD_CONTEXT_class),
     (''IDL:omg.org/CORBA/BAD_INV_ORDER:1.0'', BAD_INV_ORDER_class),
     (''IDL:omg.org/CORBA/BAD_OPERATION:1.0'', BAD_OPERATION_class),
     (''IDL:omg.org/CORBA/BAD_PARAM:1.0'', BAD_PARAM_class),
     (''IDL:omg.org/CORBA/BAD_TYPECODE:1.0'', BAD_TYPECODE_class),
     (''IDL:omg.org/CORBA/COMM_FAILURE:1.0'', COMM_FAILURE_class),
     (''IDL:omg.org/CORBA/DATA_CONVERSION:1.0'', DATA_CONVERSION_class),
     (''IDL:omg.org/CORBA/FREE_MEM:1.0'', FREE_MEM_class),
     (''IDL:omg.org/CORBA/IMP_LIMIT:1.0'', IMP_LIMIT_class),
     (''IDL:omg.org/CORBA/INITIALIZE:1.0'', INITIALIZE_class),
     (''IDL:omg.org/CORBA/INTERNAL:1.0'', INTERNAL_class),
     (''IDL:omg.org/CORBA/INTF_REPOS:1.0'', INTF_REPOS_class),
     (''IDL:omg.org/CORBA/INV_FLAG:1.0'', INV_FLAG_class),
     (''IDL:omg.org/CORBA/INV_IDENT:1.0'', INV_IDENT_class),
     (''IDL:omg.org/CORBA/INV_OBJREF:1.0'', INV_OBJREF_class),
     (''IDL:omg.org/CORBA/INV_POLICY:1.0'', INV_POLICY_class),
     (''IDL:omg.org/CORBA/INVALID_TRANSACTION:1.0'', INVALID_TRANSACTION_class),
     (''IDL:omg.org/CORBA/MARSHAL:1.0'', MARSHAL_class),
     (''IDL:omg.org/CORBA/NO_IMPLEMENT:1.0'', NO_IMPLEMENT_class),
     (''IDL:omg.org/CORBA/NO_MEMORY:1.0'', NO_MEMORY_class),
     (''IDL:omg.org/CORBA/NO_PERMISSION:1.0'', NO_PERMISSION_class),
     (''IDL:omg.org/CORBA/NO_RESOURCES:1.0'', NO_RESOURCES_class),
     (''IDL:omg.org/CORBA/NO_RESPONSE:1.0'', NO_RESPONSE_class),
     (''IDL:omg.org/CORBA/OBJECT_NOT_EXIST:1.0'', OBJECT_NOT_EXIST_class),
     (''IDL:omg.org/CORBA/OBJ_ADAPTER:1.0'', OBJ_ADAPTER_class),
     (''IDL:omg.org/CORBA/PERSIST_STORE:1.0'', PERSIST_STORE_class),
     (''IDL:omg.org/CORBA/TRANSACTION_REQUIRED:1.0'', TRANSACTION_REQUIRED_class),
     (''IDL:omg.org/CORBA/TRANSACTION_ROLLEDBACK:1.0'', TRANSACTION_ROLLEDBACK_class),
     (''IDL:omg.org/CORBA/TRANSIENT:1.0'', TRANSIENT_class),
     (''IDL:omg.org/CORBA/UNKNOWN:1.0'', UNKNOWN_class),
     (''IDL:omg.org/CORBA/TIMEOUT:1.0'', TIMEOUT_class),
     (''IDL:omg.org/CORBA/BAD_QOS:1.0'', BAD_QOS_class),
     (''IDL:omg.org/CORBA/TRANSACTION_MODE:1.0'', TRANSACTION_MODE_class),
     (''IDL:omg.org/CORBA/TRANSACTION_UNAVAILABLE:1.0'', TRANSACTION_UNAVAILABLE_class),
     (''IDL:omg.org/CORBA/REBIND:1.0'', REBIND_class),
     (''IDL:omg.org/CORBA/CODESET_INCOMPATIBLE:1.0'', CODESET_INCOMPATIBLE_class)]"

record system_exception =
  ex_class :: system_class
  ex_minor :: ulong
  ex_completed :: ulong

definition exception_write :: "malloc \<Rightarrow> system_exception \<Rightarrow> iter \<Rightarrow> iter res" where
  "exception_write m e it =
     rbind (write_string m (Some (string_octets (rep_id (ex_class e)))) it) (\<lambda>it.
     rbind (write_ulong m (ex_minor e) it) (write_ulong m (ex_completed e)))"

definition exception_read :: "iter \<Rightarrow> (system_exception \<times> iter) res" where
  "exception_read it =
     rbind (read_string it) (\<lambda>(name, it).
     rbind (read_ulong it) (\<lambda>(minor, it).
     rbind (read_ulong it) (\<lambda>(completed, it).
       case map_of st_creators_table (octets_string name) of
         None \<Rightarrow> Inl MARSHAL
       | Some c \<Rightarrow> Inr (\<lparr>ex_class = c, ex_minor = minor, ex_completed = completed\<rparr>, it))))"

section \<open>The bodies of replies\<close>

text \<open>
  An object in a stream is the reference of its delegate; the nil object is the reference without profiles. Values and objects that
  are local to the process cannot be sent.
\<close>

datatype object_ref = Nil_object | Value_object | Local_object | Stub_object ior

definition object_write :: "oid_helper \<Rightarrow> ulong \<Rightarrow> ulong \<Rightarrow> malloc \<Rightarrow> object_ref \<Rightarrow> iter \<Rightarrow> iter res" where
  "object_write helper s d m obj it =
     (case obj of
        Nil_object \<Rightarrow> ior_write helper s d m (IOR_of [] []) it
      | Value_object \<Rightarrow> Inl NO_IMPLEMENT
      | Local_object \<Rightarrow> Inl MARSHAL
      | Stub_object ref \<Rightarrow> ior_write helper s d m ref it)"

definition insert_system_exception :: "ulong \<Rightarrow> malloc \<Rightarrow> version \<Rightarrow> giop_reply \<Rightarrow> system_exception \<Rightarrow> iter \<Rightarrow> iter res" where
  "insert_system_exception s m v p e it =
     rbind (reply_header_write s m v (p\<lparr>rp_status := SYSTEM_EXCEPTION\<rparr>) it) (exception_write m e)"

definition insert_forward :: "oid_helper \<Rightarrow> ulong \<Rightarrow> ulong \<Rightarrow> malloc \<Rightarrow> version \<Rightarrow> giop_reply \<Rightarrow> object_ref \<Rightarrow> iter \<Rightarrow> iter res" where
  "insert_forward helper s d m v p obj it =
     rbind (reply_header_write s m v (p\<lparr>rp_status := LOCATION_FORWARD\<rparr>) it) (object_write helper s d m obj)"

definition insert_forward_perm :: "oid_helper \<Rightarrow> ulong \<Rightarrow> ulong \<Rightarrow> malloc \<Rightarrow> version \<Rightarrow> giop_reply \<Rightarrow> object_ref \<Rightarrow> iter \<Rightarrow> iter res" where
  "insert_forward_perm helper s d m v p obj it =
     rbind (reply_header_write s m v (p\<lparr>rp_status := LOCATION_FORWARD_PERM\<rparr>) it) (object_write helper s d m obj)"

definition insert_needs_addressing_mode :: "ulong \<Rightarrow> malloc \<Rightarrow> version \<Rightarrow> giop_reply \<Rightarrow> AddressingDisposition \<Rightarrow> iter \<Rightarrow> iter res" where
  "insert_needs_addressing_mode s m v p disposition it =
     rbind (reply_header_write s m v (p\<lparr>rp_status := NEEDS_ADDRESSING_MODE\<rparr>) it) (disposition_write m disposition)"

definition extract_system_exception :: "giop_reply \<Rightarrow> iter \<Rightarrow> (system_exception \<times> iter) res" where
  "extract_system_exception p it = (if rp_status p \<noteq> SYSTEM_EXCEPTION then Inl INTERNAL else exception_read it)"

definition extract_forward :: "malloc \<Rightarrow> giop_reply \<Rightarrow> iter \<Rightarrow> (ior \<times> iter) res" where
  "extract_forward m p it = (if rp_status p \<noteq> LOCATION_FORWARD then Inl INTERNAL else ior_read m it)"

definition extract_forward_perm :: "malloc \<Rightarrow> giop_reply \<Rightarrow> iter \<Rightarrow> (ior \<times> iter) res" where
  "extract_forward_perm m p it = (if rp_status p \<noteq> LOCATION_FORWARD_PERM then Inl INTERNAL else ior_read m it)"

definition extract_addressing_disposition :: "giop_reply \<Rightarrow> iter \<Rightarrow> (AddressingDisposition \<times> iter) res" where
  "extract_addressing_disposition p it = (if rp_status p \<noteq> NEEDS_ADDRESSING_MODE then Inl INTERNAL else disposition_read it)"

section \<open>The bodies of locate replies\<close>

definition locate_insert_system_exception :: "malloc \<Rightarrow> version \<Rightarrow> ulong \<Rightarrow> system_exception \<Rightarrow> iter \<Rightarrow> iter res" where
  "locate_insert_system_exception m v i e it = rbind (locate_reply_write m v i LOC_SYSTEM_EXCEPTION it) (exception_write m e)"

definition locate_insert_forward :: "oid_helper \<Rightarrow> ulong \<Rightarrow> ulong \<Rightarrow> malloc \<Rightarrow> version \<Rightarrow> ulong \<Rightarrow> object_ref \<Rightarrow> iter \<Rightarrow> iter res" where
  "locate_insert_forward helper s d m v i obj it = rbind (locate_reply_write m v i OBJECT_FORWARD it) (object_write helper s d m obj)"

definition locate_insert_forward_perm :: "oid_helper \<Rightarrow> ulong \<Rightarrow> ulong \<Rightarrow> malloc \<Rightarrow> version \<Rightarrow> ulong \<Rightarrow> object_ref \<Rightarrow> iter \<Rightarrow> iter res" where
  "locate_insert_forward_perm helper s d m v i obj it =
     rbind (locate_reply_write m v i OBJECT_FORWARD_PERM it) (object_write helper s d m obj)"

definition locate_insert_needs_addressing_mode :: "malloc \<Rightarrow> version \<Rightarrow> ulong \<Rightarrow> AddressingDisposition \<Rightarrow> iter \<Rightarrow> iter res" where
  "locate_insert_needs_addressing_mode m v i disposition it =
     rbind (locate_reply_write m v i LOC_NEEDS_ADDRESSING_MODE it) (disposition_write m disposition)"

definition locate_extract_system_exception :: "LocateReplyStatusType \<Rightarrow> iter \<Rightarrow> (system_exception \<times> iter) res" where
  "locate_extract_system_exception status it = (if status \<noteq> LOC_SYSTEM_EXCEPTION then Inl INTERNAL else exception_read it)"

definition locate_extract_forward :: "malloc \<Rightarrow> LocateReplyStatusType \<Rightarrow> iter \<Rightarrow> (ior \<times> iter) res" where
  "locate_extract_forward m status it = (if status \<noteq> OBJECT_FORWARD then Inl INTERNAL else ior_read m it)"

definition locate_extract_forward_perm :: "malloc \<Rightarrow> LocateReplyStatusType \<Rightarrow> iter \<Rightarrow> (ior \<times> iter) res" where
  "locate_extract_forward_perm m status it = (if status \<noteq> OBJECT_FORWARD_PERM then Inl INTERNAL else ior_read m it)"

definition locate_extract_addressing_disposition :: "LocateReplyStatusType \<Rightarrow> iter \<Rightarrow> (AddressingDisposition \<times> iter) res" where
  "locate_extract_addressing_disposition status it =
     (if status \<noteq> LOC_NEEDS_ADDRESSING_MODE then Inl INTERNAL else disposition_read it)"

section \<open>Every class has its creator\<close>

lemma creators_complete: "map_of st_creators_table (rep_id c) = Some c"
  by (cases c; hypsubst; code_simp)

lemma rep_id_chars: "CHR 0x00 \<notin> set (rep_id c)" "length (rep_id c) < 100"
  by (cases c; simp)+

lemma octets_of_string: "CHR 0x00 \<notin> set s \<Longrightarrow> octets_string (string_octets s @ [0]) = s" "CHR 0x00 \<notin> set s \<Longrightarrow> 0 \<notin> set (string_octets s)"
proof -
  have u: "unat (word_of_nat (of_char c) :: octet) = of_char c" for c
  proof -
    have "of_char c mod 256 = (of_char c :: nat)" by (rule of_char_mod_256)
    then show ?thesis by (simp only: unat_octet_of_nat)
  qed
  have z: "(word_of_nat (of_char c) :: octet) = 0 \<longleftrightarrow> c = CHR 0x00" for c
  proof -
    have "(word_of_nat (of_char c) :: octet) = 0 \<longleftrightarrow> unat (word_of_nat (of_char c) :: octet) = 0" by (rule unat_eq_zero [symmetric])
    also have "\<dots> \<longleftrightarrow> (of_char c :: nat) = of_char (CHR 0x00)" by (simp only: u of_char_Char) simp
    finally show ?thesis by (simp only: of_char_eq_iff)
  qed
  assume s: "CHR 0x00 \<notin> set s"
  show n: "0 \<notin> set (string_octets s)"
  proof
    assume "0 \<in> set (string_octets s)"
    then have "0 \<in> (\<lambda>c. word_of_nat (of_char c) :: octet) ` set s" by (simp only: string_octets_def set_map)
    then obtain c where c: "0 = (word_of_nat (of_char c) :: octet)" "c \<in> set s" by (rule imageE)
    from c(1) have "c = CHR 0x00" by (rule iffD1 [OF z, OF sym])
    then have "CHR 0x00 \<in> set s" using c(2) by (rule subst)
    with s show False by (rule notE)
  qed
  then have "takeWhile (\<lambda>b. b \<noteq> 0) (string_octets s @ [0]) = string_octets s" by (simp add: takeWhile_terminated)
  moreover have "char_of (unat (word_of_nat (of_char c) :: octet)) = c" for c by (simp only: u char_of_char)
  then have "map (\<lambda>b. char_of (unat b)) (map (\<lambda>c. word_of_nat (of_char c) :: octet) s) = s" by (simp only: map_map o_def map_ident)
  ultimately show "octets_string (string_octets s @ [0]) = s" unfolding octets_string_def by (simp only: string_octets_def)
qed

section \<open>The exchange of exceptions\<close>

definition exception_img :: "system_exception \<Rightarrow> image" where
  "exception_img e = img_then (string_img (string_octets (rep_id (ex_class e)))) (img_then (ulong_img (ex_minor e)) (ulong_img (ex_completed e)))"

lemma rep_id_string_ok: "string_ok (string_octets (rep_id c))"
  using rep_id_chars [of c] octets_of_string(2) [OF rep_id_chars(1), of c] by (simp add: string_ok_def string_octets_def)

interpretation t_exception: cdr_transfer exception_write exception_read "\<lambda>_. True" exception_img "\<lambda>e x. x = e"
proof
  fix m :: malloc and e
  assume "malloc_ok m"
  then show "emits m (exception_write m e) (exception_img e)"
    unfolding exception_write_def [abs_def] exception_img_def
    by (intro emits_then t_string.wr_emits t_ulong.wr_emits rep_id_string_ok TrueI)
next
  fix e :: system_exception
  have "map_of st_creators_table (octets_string (string_octets (rep_id (ex_class e)) @ [0])) = Some (ex_class e)"
    by (simp only: octets_of_string(1) [OF rep_id_chars(1)] creators_complete)
  then show "parses (exception_img e) exception_read (\<lambda>x. x = e)"
    unfolding exception_read_def [abs_def] exception_img_def
    by (intro parses_then [OF t_string.rd_parses [OF rep_id_string_ok]] parses_then [OF t_ulong.rd_parses [OF TrueI]]
        parses_finish [OF t_ulong.rd_parses [OF TrueI]]) simp
qed

lemma string_img_nonempty: "\<not> img_then (string_img t) g order pos []"
  by (simp add: img_then_def string_img_def string_image_def)

text \<open>A body behind the header of a reply.\<close>

lemma body_arrives:
  assumes "malloc_ok m" "block_ok s" "malloc_ok m'" "malloc_total m'" "version_ok v"
    and "counted_ok (context_ok sc) (contexts_of (rp_contexts p))"
    and "v = VERSION_1_2 \<or> reply_status_value (rp_status p) \<le> reply_status_value LOCATION_FORWARD"
    and "emits m w g" "parses g rd Q" "\<And>order pos. \<not> g order pos []"
    and "out_ok out" "rbind (reply_header_write s m v p out) w = Inr out'" "length (out_data out') < 2 ^ 31 - 16"
    and "in_ok inp" "in_pos inp = length (out_data out)" "in_data inp = out_data out' @ rest" "wire_order inp = local_byte_order out"
  obtains p' inp1 x inp2 where "reply_header_read sc m' v inp = Inr (p', inp1)" "reply_rel p p'" "rd inp1 = Inr (x, inp2)" "Q x"
    "in_pos inp2 = length (out_data out')"
proof -
  from assms(12) obtain out1 where o: "reply_header_write s m v p out = Inr out1" "w out1 = Inr out'" by auto
  have wh: "writes m out (img_then (reply_img v p) (end_img v) (local_byte_order out) (length (out_data out))) (Inr out1)"
    using emitsD [OF reply_emits [OF assms(1,2,5,6)] assms(11)] o(1) by simp
  then have o1: "out_ok out1" "local_byte_order out1 = local_byte_order out" by (auto simp: writes_def same_mode_def)
  from emitsD [OF assms(8) o1(1)] o(2) obtain bs where bs: "out_data out' = out_data out1 @ bs"
    "g (local_byte_order out1) (length (out_data out1)) bs" by (auto simp: writes_def)
  have ne: "bs @ rest \<noteq> []" using bs(2) assms(10) by (cases bs) auto
  have d: "in_data inp = out_data out1 @ bs @ rest" "length (out_data out1) < 2 ^ 31 - 16" using assms(13,16) bs(1) by simp_all
  obtain p' it where P: "reply_core sc m' v inp = Inr (p', it)" "reply_rel p p'"
    "bs @ rest \<noteq> [] \<longrightarrow> in_ok (settle v it) \<and> same_input inp (settle v it) \<and> in_pos (settle v it) = length (out_data out1)"
    by (rule header_arrives [OF wh reply_parses [OF assms(3,4,6,7)] assms(14,15) d(1) assms(17) d(2)])
  let ?i = "settle v it"
  from P(3) ne have i: "in_ok ?i" "same_input inp ?i" "in_pos ?i = length (out_data out1)" by simp_all
  have "wire_order ?i = local_byte_order out" using i(2) assms(17) wire_order_same [of inp ?i] by (simp add: same_input_def)
  then have g: "g (wire_order ?i) (in_pos ?i) bs" "drop (in_pos ?i) (in_data ?i) = bs @ rest" "length bs < 2 ^ 31 - 16"
    using bs o1(2) i(2,3) d(1) assms(13) by (simp_all add: same_input_def)
  obtain x inp2 where X: "rd ?i = Inr (x, inp2)" "Q x" "in_pos inp2 = in_pos ?i + length bs" by (rule parsesD [OF assms(9) i(1) g])
  show thesis by (rule that [OF _ P(2) X(1,2)]) (use reply_header_read_core [OF assms(5)] P(1) X(3) i(3) bs(1) in simp_all)
qed

text \<open>C21. An exception that the server raises is the one the client receives, in each version of the protocol: the same class, which the
  receiver finds by its repository id, with its minor code and completion status.\<close>

theorem system_exception_roundtrip:
  assumes "malloc_ok m" "block_ok s" "malloc_ok m'" "malloc_total m'" "version_ok v"
    and "counted_ok (context_ok sc) (contexts_of (rp_contexts p))"
    and "out_ok out" "insert_system_exception s m v p e out = Inr out'" "length (out_data out') < 2 ^ 31 - 16"
    and "in_ok inp" "in_pos inp = length (out_data out)" "in_data inp = out_data out' @ rest" "wire_order inp = local_byte_order out"
  shows "\<exists>p' inp1 inp2. reply_header_read sc m' v inp = Inr (p', inp1) \<and> rp_id p' = rp_id p \<and>
    extract_system_exception p' inp1 = Inr (e, inp2) \<and> in_pos inp2 = length (out_data out')"
proof -
  let ?p = "p\<lparr>rp_status := SYSTEM_EXCEPTION\<rparr>"
  have c: "counted_ok (context_ok sc) (contexts_of (rp_contexts ?p))" using assms(6) by simp
  have st: "v = VERSION_1_2 \<or> reply_status_value (rp_status ?p) \<le> reply_status_value LOCATION_FORWARD" by (simp add: word_le_nat_alt)
  have ne: "\<not> exception_img e order pos []" for order pos unfolding exception_img_def by (rule string_img_nonempty)
  obtain p' inp1 x inp2 where "reply_header_read sc m' v inp = Inr (p', inp1)" "reply_rel ?p p'" "exception_read inp1 = Inr (x, inp2)" "x = e"
    "in_pos inp2 = length (out_data out')"
    by (rule body_arrives [OF assms(1-5) c st t_exception.wr_emits [OF assms(1) TrueI] t_exception.rd_parses [OF TrueI] ne assms(7)
          assms(8) [unfolded insert_system_exception_def] assms(9-13)])
  then show ?thesis by (auto simp: reply_rel_def extract_system_exception_def)
qed

lemma object_emits:
  assumes "malloc_ok m" "block_ok s" "block_ok d" "helper_ok helper" "ior_ok rs r"
  shows "emits m (object_write helper s d m (Stub_object r)) (ior_img r)"
  using cdr_transfer.wr_emits [OF ior_transfer [OF sample_malloc_ok assms(2-4), of rs] assms(1,5)] by (simp add: object_write_def [abs_def])

lemma ior_img_nonempty: "\<not> ior_img r order pos []"
  unfolding ior_img_def by (rule string_img_nonempty)

text \<open>C22. A client that is told to go elsewhere is sent to the object the server named: the reference that it reads has the profiles of the
  one that was sent and leads to the same object key.\<close>

theorem forward_roundtrip:
  assumes "malloc_ok m" "block_ok s" "block_ok d" "helper_ok helper" "malloc_ok m'" "malloc_total m'" "version_ok v"
    and "counted_ok (context_ok sc) (contexts_of (rp_contexts p))" "reference_to rs pk r"
    and "out_ok out" "insert_forward helper s d m v p (Stub_object r) out = Inr out'" "length (out_data out') < 2 ^ 31 - 16"
    and "in_ok inp" "in_pos inp = length (out_data out)" "in_data inp = out_data out' @ rest" "wire_order inp = local_byte_order out"
  shows "\<exists>p' inp1 r' inp2. reply_header_read sc m' v inp = Inr (p', inp1) \<and> rp_id p' = rp_id p \<and>
    extract_forward m' p' inp1 = Inr (r', inp2) \<and> type_id r' = type_id r \<and>
    list_all2 (profile_carried rs m') (profiles r) (profiles r') \<and> key_kept rs m' r' pk"
proof -
  let ?p = "p\<lparr>rp_status := LOCATION_FORWARD\<rparr>"
  have ok: "ior_ok rs r" using assms(9) by (simp add: reference_to_def)
  have c: "counted_ok (context_ok sc) (contexts_of (rp_contexts ?p))" using assms(8) by simp
  have st: "v = VERSION_1_2 \<or> reply_status_value (rp_status ?p) \<le> reply_status_value LOCATION_FORWARD" by simp
  have rd: "parses (ior_img r) (ior_read m') (ior_rel r)"
    by (rule cdr_transfer.rd_parses [OF ior_transfer [OF assms(5,6) sample_block_ok sample_block_ok octet_seq_helper_ok] ok])
  obtain p' inp1 r' inp2 where R: "reply_header_read sc m' v inp = Inr (p', inp1)" "reply_rel ?p p'" "ior_read m' inp1 = Inr (r', inp2)" "ior_rel r r'"
    by (rule body_arrives [OF assms(1,2,5-7) c st object_emits [OF assms(1-4) ok] rd ior_img_nonempty assms(10)
          assms(11) [unfolded insert_forward_def] assms(12-16)])
  have "list_all2 (profile_carried rs m') (profiles r) (profiles r')"
    using R(4) ok tagged_rel_carried [OF assms(5,6)]
    by (auto simp: ior_rel_def ior_ok_def counted_ok_def list_all2_conv_all_nth list_all_length)
  with R ior_rel_key [OF assms(5,6,9) R(4)] show ?thesis by (auto simp: reply_rel_def extract_forward_def ior_rel_def)
qed

section \<open>The other outcomes\<close>

text \<open>A permanent forward and a request for another form of the address, for the version that has them, and the same in locate replies.\<close>

lemma forward_perm_arrives:
  assumes "malloc_ok m" "block_ok s" "block_ok d" "helper_ok helper" "malloc_ok m'" "malloc_total m'"
    and "counted_ok (context_ok sc) (contexts_of (rp_contexts p))" "reference_to rs pk r"
    and "out_ok out" "insert_forward_perm helper s d m VERSION_1_2 p (Stub_object r) out = Inr out'" "length (out_data out') < 2 ^ 31 - 16"
    and "in_ok inp" "in_pos inp = length (out_data out)" "in_data inp = out_data out' @ rest" "wire_order inp = local_byte_order out"
  shows "\<exists>p' inp1 r' inp2. reply_header_read sc m' VERSION_1_2 inp = Inr (p', inp1) \<and> extract_forward_perm m' p' inp1 = Inr (r', inp2) \<and>
    key_kept rs m' r' pk"
proof -
  let ?p = "p\<lparr>rp_status := LOCATION_FORWARD_PERM\<rparr>"
  have ok: "ior_ok rs r" using assms(8) by (simp add: reference_to_def)
  have c: "counted_ok (context_ok sc) (contexts_of (rp_contexts ?p))" using assms(7) by simp
  have v: "version_ok VERSION_1_2" by (simp add: version_ok_cases)
  have rd: "parses (ior_img r) (ior_read m') (ior_rel r)"
    by (rule cdr_transfer.rd_parses [OF ior_transfer [OF assms(5,6) sample_block_ok sample_block_ok octet_seq_helper_ok] ok])
  obtain p' inp1 r' inp2 where R: "reply_header_read sc m' VERSION_1_2 inp = Inr (p', inp1)" "reply_rel ?p p'" "ior_read m' inp1 = Inr (r', inp2)"
    "ior_rel r r'"
    by (rule body_arrives [OF assms(1,2,5,6) v c disjI1 [OF refl] object_emits [OF assms(1-4) ok] rd ior_img_nonempty assms(9)
          assms(10) [unfolded insert_forward_perm_def] assms(11-15)])
  with ior_rel_key [OF assms(5,6,8) R(4)] show ?thesis by (auto simp: reply_rel_def extract_forward_perm_def)
qed

lemma needs_addressing_mode_arrives:
  assumes "malloc_ok m" "block_ok s" "malloc_ok m'" "malloc_total m'" "counted_ok (context_ok sc) (contexts_of (rp_contexts p))"
    and "out_ok out" "insert_needs_addressing_mode s m VERSION_1_2 p disposition out = Inr out'" "length (out_data out') < 2 ^ 31 - 16"
    and "in_ok inp" "in_pos inp = length (out_data out)" "in_data inp = out_data out' @ rest" "wire_order inp = local_byte_order out"
  shows "\<exists>p' inp1 inp2. reply_header_read sc m' VERSION_1_2 inp = Inr (p', inp1) \<and>
    extract_addressing_disposition p' inp1 = Inr (disposition, inp2)"
proof -
  let ?p = "p\<lparr>rp_status := NEEDS_ADDRESSING_MODE\<rparr>"
  have c: "counted_ok (context_ok sc) (contexts_of (rp_contexts ?p))" using assms(5) by simp
  have v: "version_ok VERSION_1_2" by (simp add: version_ok_cases)
  have w: "emits m (disposition_write m disposition) (ushort_img (disposition_value disposition))"
    unfolding disposition_write_def [abs_def] by (rule t_ushort.wr_emits [OF assms(1) TrueI])
  have "host_bytes order 2 n \<noteq> []" for order n by (metis length_host_bytes length_0_conv zero_neq_numeral)
  then have ne: "\<not> ushort_img x order pos []" for x order pos by (auto simp: ushort_img_def prim_image_def)
  obtain p' inp1 x inp2 where "reply_header_read sc m' VERSION_1_2 inp = Inr (p', inp1)" "reply_rel ?p p'" "disposition_read inp1 = Inr (x, inp2)"
    "x = disposition"
    by (rule body_arrives [OF assms(1-4) v c disjI1 [OF refl] w disposition_parses ne assms(6)
          assms(7) [unfolded insert_needs_addressing_mode_def] assms(8-12)])
  then show ?thesis by (auto simp: reply_rel_def extract_addressing_disposition_def)
qed

lemma locate_body_arrives:
  assumes "malloc_ok m" "version_ok v" "emits m w g" "parses g rd Q"
    and "out_ok out" "rbind (locate_reply_write m v i status out) w = Inr out'" "length (out_data out') < 2 ^ 31 - 16"
    and "in_ok inp" "in_pos inp = length (out_data out)" "in_data inp = out_data out' @ rest" "wire_order inp = local_byte_order out"
  obtains inp1 x inp2 where "locate_reply_read v inp = Inr ((i, status), inp1)" "rd inp1 = Inr (x, inp2)" "Q x"
proof -
  have w: "emits m (\<lambda>it. rbind (locate_reply_write m v i status it) w) (img_then (img_then (ulong_img i) (ulong_img (locate_status_value status))) g)"
    by (intro emits_then locate_reply_emits assms)
  have r: "parses (img_then (img_then (ulong_img i) (ulong_img (locate_status_value status))) g)
      (\<lambda>it. rbind (locate_reply_read v it) (\<lambda>(y, it). rbind (rd it) (\<lambda>(x, it). Inr ((y, x), it)))) (\<lambda>(y, x). y = (i, status) \<and> Q x)"
    by (rule parses_then [OF locate_reply_parses [OF assms(2)]], rule parses_last [OF assms(4)]) simp
  obtain z inp2 where "rbind (locate_reply_read v inp) (\<lambda>(y, it). rbind (rd it) (\<lambda>(x, it). Inr ((y, x), it))) = Inr (z, inp2)"
    "(\<lambda>(y, x). y = (i, status) \<and> Q x) z" by (rule arrives [OF w assms(5,6) r assms(8-11,7)])
  with that show thesis by auto
qed

lemma locate_exception_arrives:
  assumes "malloc_ok m" "version_ok v"
    and "out_ok out" "locate_insert_system_exception m v i e out = Inr out'" "length (out_data out') < 2 ^ 31 - 16"
    and "in_ok inp" "in_pos inp = length (out_data out)" "in_data inp = out_data out' @ rest" "wire_order inp = local_byte_order out"
  shows "\<exists>status inp1 inp2. locate_reply_read v inp = Inr ((i, status), inp1) \<and> locate_extract_system_exception status inp1 = Inr (e, inp2)"
proof -
  obtain inp1 x inp2 where "locate_reply_read v inp = Inr ((i, LOC_SYSTEM_EXCEPTION), inp1)" "exception_read inp1 = Inr (x, inp2)" "x = e"
    by (rule locate_body_arrives [OF assms(1,2) t_exception.wr_emits [OF assms(1) TrueI] t_exception.rd_parses [OF TrueI] assms(3)
          assms(4) [unfolded locate_insert_system_exception_def] assms(5-9)])
  then show ?thesis by (auto simp: locate_extract_system_exception_def)
qed

lemma locate_forward_arrives:
  assumes "malloc_ok m" "block_ok s" "block_ok d" "helper_ok helper" "malloc_ok m'" "malloc_total m'" "version_ok v" "reference_to rs pk r"
    and "out_ok out" "locate_insert_forward helper s d m v i (Stub_object r) out = Inr out'" "length (out_data out') < 2 ^ 31 - 16"
    and "in_ok inp" "in_pos inp = length (out_data out)" "in_data inp = out_data out' @ rest" "wire_order inp = local_byte_order out"
  shows "\<exists>status inp1 r' inp2. locate_reply_read v inp = Inr ((i, status), inp1) \<and> locate_extract_forward m' status inp1 = Inr (r', inp2) \<and>
    key_kept rs m' r' pk"
proof -
  have ok: "ior_ok rs r" using assms(8) by (simp add: reference_to_def)
  have rd: "parses (ior_img r) (ior_read m') (ior_rel r)"
    by (rule cdr_transfer.rd_parses [OF ior_transfer [OF assms(5,6) sample_block_ok sample_block_ok octet_seq_helper_ok] ok])
  obtain inp1 r' inp2 where R: "locate_reply_read v inp = Inr ((i, OBJECT_FORWARD), inp1)" "ior_read m' inp1 = Inr (r', inp2)" "ior_rel r r'"
    by (rule locate_body_arrives [OF assms(1,7) object_emits [OF assms(1-4) ok] rd assms(9)
          assms(10) [unfolded locate_insert_forward_def] assms(11-15)])
  with ior_rel_key [OF assms(5,6,8) R(3)] show ?thesis by (auto simp: locate_extract_forward_def)
qed

section \<open>A call\<close>


section \<open>Applied to samples\<close>

definition sample_exception :: system_exception where
  "sample_exception = \<lparr>ex_class = TRANSIENT_class, ex_minor = 3, ex_completed = 1\<rparr>"

lemma sample_reply_status: "(sample_reply a)\<lparr>rp_status := b\<rparr> = sample_reply b"
  by (simp add: sample_reply_def)

lemma sample_reply_contexts: "counted_ok (context_ok (\<lambda>i e. Inr e)) (contexts_of (rp_contexts (sample_reply st)))"
  using sample_contexts_ok by (simp add: sample_reply_def)

theorem system_exception_roundtrip_witness:
  "\<exists>out' inp p' inp1 inp2. insert_system_exception 16 sample_malloc VERSION_1_2 (sample_reply NO_EXCEPTION) sample_exception sample_out = Inr out' \<and>
     in_data inp = out_data out' @ [0] \<and> reply_header_read (\<lambda>i e. Inr e) sample_malloc VERSION_1_2 inp = Inr (p', inp1) \<and>
     extract_system_exception p' inp1 = Inr (sample_exception, inp2)"
proof -
  note m = sample_malloc_ok and v = version_ok_cases [of VERSION_1_2, THEN iffD2, OF disjI2, OF disjI2, OF refl]
  have "emits sample_malloc (insert_system_exception 16 sample_malloc VERSION_1_2 (sample_reply NO_EXCEPTION) sample_exception)
      (img_then (img_then (reply_img VERSION_1_2 (sample_reply SYSTEM_EXCEPTION)) (end_img VERSION_1_2)) (exception_img sample_exception))"
    unfolding insert_system_exception_def [abs_def] sample_reply_status
    by (intro emits_then reply_emits [OF m(1) sample_block_ok v sample_reply_contexts] t_exception.wr_emits m TrueI)
  moreover have "img_le (exception_img sample_exception) ((length (string_octets (rep_id (ex_class sample_exception))) + 8) + (7 + 7))"
    unfolding exception_img_def by (intro img_le_intros)
  note l = img_le_then [OF sample_reply_le this]
  have "img_le (img_then (img_then (reply_img VERSION_1_2 (sample_reply SYSTEM_EXCEPTION)) (end_img VERSION_1_2)) (exception_img sample_exception)) 400"
    by (rule img_le_weaken [OF l]) (use rep_id_chars(2) [of "ex_class sample_exception"] in \<open>simp add: string_octets_def\<close>)
  ultimately obtain out' inp where s: "insert_system_exception 16 sample_malloc VERSION_1_2 (sample_reply NO_EXCEPTION) sample_exception
      sample_out = Inr out'" "length (out_data out') < 2 ^ 31 - 16" "in_ok inp" "in_pos inp = 0" "in_data inp = out_data out' @ [0]"
      "wire_order inp = local_byte_order sample_out" by (rule sample_sent) simp
  have p: "in_pos inp = length (out_data sample_out)" using s(4) sample_new(3) by simp
  from system_exception_roundtrip [OF m(1) sample_block_ok m v sample_reply_contexts sample_new(1) s(1-3) p s(5,6)] s show ?thesis by blast
qed

theorem forward_roundtrip_witness:
  "\<exists>out' inp p' inp1 r' inp2. insert_forward octet_seq_helper 16 16 sample_malloc VERSION_1_0 (sample_reply NO_EXCEPTION) (Stub_object sample_ior)
       sample_out = Inr out' \<and> in_data inp = out_data out' @ [0] \<and>
     reply_header_read (\<lambda>i e. Inr e) sample_malloc VERSION_1_0 inp = Inr (p', inp1) \<and> extract_forward sample_malloc p' inp1 = Inr (r', inp2) \<and>
     key_kept sample_readers sample_malloc r' sample_key"
proof -
  note m = sample_malloc_ok and b = sample_block_ok and v = version_ok_cases [of VERSION_1_0, THEN iffD2, OF disjI1, OF refl]
  have "emits sample_malloc (insert_forward octet_seq_helper 16 16 sample_malloc VERSION_1_0 (sample_reply NO_EXCEPTION) (Stub_object sample_ior))
      (img_then (img_then (reply_img VERSION_1_0 (sample_reply LOCATION_FORWARD)) (end_img VERSION_1_0)) (ior_img sample_ior))"
    unfolding insert_forward_def [abs_def] sample_reply_status
    by (intro emits_then reply_emits [OF m(1) b v sample_reply_contexts] object_emits [OF m(1) b b octet_seq_helper_ok sample_ior_ok])
  then obtain out' inp where s: "insert_forward octet_seq_helper 16 16 sample_malloc VERSION_1_0 (sample_reply NO_EXCEPTION) (Stub_object sample_ior)
      sample_out = Inr out'" "length (out_data out') < 2 ^ 31 - 16" "in_ok inp" "in_pos inp = 0" "in_data inp = out_data out' @ [0]"
      "wire_order inp = local_byte_order sample_out" by (rule sample_sent [OF _ img_le_then [OF sample_reply_le sample_ior_le]]) simp
  have p: "in_pos inp = length (out_data sample_out)" using s(4) sample_new(3) by simp
  from forward_roundtrip [OF m(1) b b octet_seq_helper_ok m v sample_reply_contexts sample_reference sample_new(1) s(1-3) p s(5,6)] s show ?thesis
    by blast
qed


end
