(* ===== verification/Spec2Isabelle.thy ===== *)
theory Spec2Isabelle
  imports Cdr_Context Cdr_Encapsulation Cdr_Arrays Giop_Header Fixed_Text Poa_Starvation Object_Key
    Type_Remarshal Type_Equal Comm_Connection Giop_Outcome
begin

text \<open>
  A verification library for the core of TIDorbC, a CORBA object request broker in C++. All paths below are relative to
  \<^verbatim>\<open>src/source/TIDorbC/orb/TIDorb/\<close>.

  \<^bold>\<open>The program.\<close> A client marshals the arguments of a call into a CDR stream, a chain of memory chunks with alignment
  and byte order rules, behind the header of a request that names the target by its reference; the stream becomes the body of a GIOP
  message with a header of twelve octets, which a connection sends, while the calling thread waits on a lock until the thread of the connection brings the reply. On the server the message is received,
  maybe in fragments, its header is read, the object key in the message leads to a POA and its manager, and the request goes into the queue of
  the manager, from which a pool of threads takes it and executes it, if the state of the manager allows it. The object
  id is looked up in the active object map of the POA. Values whose types are known at run time only are described by
  type codes, which compare types and move, copy and compare marshalled values. Decimal numbers (the IDL type \<^verbatim>\<open>fixed\<close>) are computed on 256-bit
  integers in signed magnitude.

  \<^bold>\<open>The theories.\<close>
  \<^item> \<^verbatim>\<open>Prelude\<close>: machine words, the exceptions of the sources as the values \<open>Inl\<close> of a sum type, sequencing of fallible
    steps, integers as octets in either byte order, alignment, and the collections \<open>run_simps\<close> and \<open>inv_intros\<close>.
  \<^item> \<^verbatim>\<open>Cdr_Context\<close> (\<^verbatim>\<open>core/cdr/ContextCDR.C\<close>, \<^verbatim>\<open>IndirectionNode.C\<close>, \<^verbatim>\<open>PositionsNode.C\<close>, \<^verbatim>\<open>ValueTypeInfo.C\<close>): the tables of
    what was already marshalled, for indirections.
  \<^item> \<^verbatim>\<open>Cdr_Buffer\<close> (\<^verbatim>\<open>ChunkCDR.C\<close>, \<^verbatim>\<open>BufferCDR.C\<close>, \<^verbatim>\<open>PointerCDR.C\<close>): chunks with their addresses and contents; \<^verbatim>\<open>malloc\<close> is a
    parameter. \<^verbatim>\<open>Cdr_Iterator\<close> (\<^verbatim>\<open>IteratorCDR.C\<close>): position and alignment. \<^verbatim>\<open>Cdr_Output\<close> (\<^verbatim>\<open>CDROutputStream.C\<close>) and
    \<^verbatim>\<open>Cdr_Input\<close> (\<^verbatim>\<open>CDRInputStream.C\<close>): the operations of the streams.
  \<^item> \<^verbatim>\<open>Cdr_Stream\<close> and \<^verbatim>\<open>Cdr_Stream_In\<close> abstract a stream to the sequence of octets written or still to be read. \<^verbatim>\<open>Cdr_Codec\<close>
    states the contract of a write with its read as the locale \<open>cdr_codec\<close>, closed under arrays and pairs; it is
    interpreted for every type of the streams there and in \<^verbatim>\<open>Cdr_Values\<close>, \<^verbatim>\<open>Giop_Header\<close> and \<^verbatim>\<open>Object_Key\<close>. \<^verbatim>\<open>Cdr_Encapsulation\<close> and
    \<^verbatim>\<open>Cdr_Arrays\<close> hold the properties of nested streams and of the array operations.
  \<^item> \<^verbatim>\<open>Giop_Version\<close> and \<^verbatim>\<open>Giop_Header\<close> (\<^verbatim>\<open>core/comm/iiop/Version.C\<close>, \<^verbatim>\<open>GIOPHeader.C\<close>, \<^verbatim>\<open>MsgType.C\<close>).
  \<^item> \<^verbatim>\<open>Cdr_Grammar\<close>: the contract of a write with a read whose results differ in form, the locale \<open>cdr_transfer\<close>; images of
    what is written, their composition, encapsulations and bounds of their length. It is interpreted in \<^verbatim>\<open>Iop_Profile\<close>
    (\<^verbatim>\<open>core/comm/iiop/ListenPoint.C\<close>, \<^verbatim>\<open>ObjectKey.C\<close>, \<^verbatim>\<open>ProfileIIOP.C\<close>, \<^verbatim>\<open>core/iop/Tagged*.C\<close>, \<^verbatim>\<open>ORBComponent.C\<close>,
    \<^verbatim>\<open>core/comm/FT/*.C\<close>), for profiles and their components, used in \<^verbatim>\<open>Iop_Ior\<close> (\<^verbatim>\<open>core/iop/IOR.C\<close>, \<^verbatim>\<open>util/Base16Codec.C\<close>), for
    references in messages and as text, and in \<^verbatim>\<open>Giop_Message\<close> (\<^verbatim>\<open>GIOPRequestMessage.C\<close>, \<^verbatim>\<open>GIOPReplyMessage.C\<close>, \<^verbatim>\<open>GIOPLocate*.C\<close>,
    \<^verbatim>\<open>TargetAddress.C\<close>, \<^verbatim>\<open>ServiceContext*.C\<close>), for the headers of the messages, whose exchange is in \<^verbatim>\<open>Giop_Exchange\<close>. \<^verbatim>\<open>Giop_Outcome\<close>
    (\<^verbatim>\<open>core/util/exceptions/SystemExceptionEncoder.C\<close>, \<^verbatim>\<open>SystemExceptionNames.C\<close>) has the system exceptions, the references to
    follow and the addresses that are asked for in replies and locate replies, and a call with its arguments. Components and
    contexts that generated helpers read are parameters, the record \<open>readers\<close> and the argument \<open>sc\<close>.
  \<^item> \<^verbatim>\<open>Object_Map\<close> (\<^verbatim>\<open>core/poa/ActiveObjectMap.C\<close>, \<^verbatim>\<open>OID.C\<close>): a sorted table over the locale \<open>key_order\<close>, and the partial
    function it refines.
  \<^item> \<^verbatim>\<open>Use_Table\<close> (\<^verbatim>\<open>core/util/UseTable.h\<close>): the bounded table of objects in use, over the same locale. \<^verbatim>\<open>Comm_Locks\<close>
    (\<^verbatim>\<open>core/comm/Lock.C\<close>, \<^verbatim>\<open>LockPool.C\<close>, \<^verbatim>\<open>LockList.C\<close>, \<^verbatim>\<open>core/util/OperationCompletion.C\<close>, \<^verbatim>\<open>Counter.C\<close>): the locks on which threads
    wait for replies, at addresses of a heap, as they are used again. \<^verbatim>\<open>Comm_Receive\<close> (\<^verbatim>\<open>Connection::receive_chunk\<close>, the
    \<^verbatim>\<open>receive_body\<close> operations of \<^verbatim>\<open>core/comm/iiop\<close>): from the pieces of a socket to a chunk and a request id. \<^verbatim>\<open>Comm_Connection\<close>
    (\<^verbatim>\<open>Connection.C\<close>, \<^verbatim>\<open>ConnectionState.C\<close>, \<^verbatim>\<open>FragmentedMessagesRepository.C\<close>): closing, the handlers of received messages, and
    the specification of the reassembly of fragments.
  \<^item> \<^verbatim>\<open>Type_Code\<close> (\<^verbatim>\<open>core/typecode/*.C\<close>): the type code classes as the constructors of a datatype, their accessors, and
    \<^verbatim>\<open>equal\<close> and \<^verbatim>\<open>equivalent\<close>; \<^verbatim>\<open>Type_Compare\<close> has what these decide. \<^verbatim>\<open>Type_Value\<close>: \<^verbatim>\<open>skip_value\<close>, \<^verbatim>\<open>remarshal_value\<close> and
    \<^verbatim>\<open>values_equal\<close> of the classes on streams, and the relation \<open>typed\<close> between a type and the basic values a marshalled
    value of it is made of. \<^verbatim>\<open>Type_Skip\<close>, \<^verbatim>\<open>Type_Remarshal\<close> and \<^verbatim>\<open>Type_Equal\<close> show what they do, by rule induction on \<open>typed\<close>,
    over the lemmas on the skip operations of the streams in \<^verbatim>\<open>Cdr_Skip\<close>. The values that other components read (Any,
    TypeCode, objects, value types) and the comparison of long doubles and fixed numbers are parameters, the record \<open>others\<close>.
  \<^item> \<^verbatim>\<open>Big_Int\<close> (\<^verbatim>\<open>types/BigInt.C\<close>) with \<^verbatim>\<open>Big_Int_Arith\<close>, \<^verbatim>\<open>Big_Int_Muldiv\<close> and \<^verbatim>\<open>Big_Int_Decimal\<close>, which relate the operations on
    octets to integers, and \<^verbatim>\<open>Big_Int_Correct\<close> with the properties. \<^verbatim>\<open>Fixed_Point\<close> (\<^verbatim>\<open>core/Fixed.C\<close>) with \<^verbatim>\<open>Fixed_Correct\<close>,
    \<^verbatim>\<open>Fixed_Arith\<close>, \<^verbatim>\<open>Fixed_Order\<close> and \<^verbatim>\<open>Fixed_Text\<close>, which relate it to rational numbers.
  \<^item> \<^verbatim>\<open>Poa_Queue\<close>, \<^verbatim>\<open>Poa_Pool\<close> and \<^verbatim>\<open>Poa_Manager\<close> (\<^verbatim>\<open>core/poa/RequestQueue.C\<close>, \<^verbatim>\<open>ThreadPool.C\<close>, \<^verbatim>\<open>POAManagerConf.C\<close>,
    \<^verbatim>\<open>CompletionWaiter.C\<close>, \<^verbatim>\<open>POAManagerImpl.C\<close>, \<^verbatim>\<open>ExecThread.C\<close>): a manager with its queue and its threads as a transition
    system. \<^verbatim>\<open>Poa_Safety\<close> has the invariants, \<^verbatim>\<open>Poa_Service\<close> what the manager promises, \<^verbatim>\<open>Poa_Starvation\<close> what it fails to.

  \<^bold>\<open>How the code is modelled.\<close> A stream is a record with the buffer, the numbers of the chunk and the address of the next
  octet, as in the class; a store through a pointer writes octets at that address of the chunk and yields
  \<open>OUT_OF_BOUNDS\<close> outside of it, which the properties show not to happen. Integers are words of the width of the C++ type.
  A thread of the pool is a program counter with its two flags; a step is a stretch of \<^verbatim>\<open>ExecThread::run\<close> between two
  points where another thread can run, and the calls of the application interleave with them. A wait with a time limit
  ends at any moment; a wait without one ends only by a notification. What the system answers when a thread is created
  is an argument. The last fields of a manager record its history, for the statements only.

  \<^bold>\<open>Loops.\<close> Most loops are structural recursion or have a termination proof. \<open>write_data_array_loop\<close> does not end on some
  inputs and is a \<open>partial_function\<close>, so that not returning is a value. Four loops have fuel: the loop of
  \<^verbatim>\<open>write_octet_array\<close> (the length and the number of chunks, as each round writes an octet or goes to the next chunk), the binary search of the
  division (256, as the remainder is halved in each round and has at most 256 bits), the loop of \<^verbatim>\<open>Fixed::adjust\<close> (80, more
  than the decimal digits of 256 bits) and the loop of \<^verbatim>\<open>minThreadsHasChanged\<close>, which takes an answer of the system in each
  round. The lemmas on the loops show that the fuel is enough.

  \<^bold>\<open>What the properties show.\<close> CDR: whatever is written is read back, by a host of either byte order and with any cutting
  into chunks, also inside encapsulations; writing fails only for lack of memory; array operations are the loop over the
  element operation, or do not return. GIOP: headers are read back across byte orders, and which octets are rejected; requests, replies and locate requests
  arrive as they were sent in all three versions, with every form of the address, and lead to the key of the reference, except for
  replies with a status that their version does not have; a reference as text is read back, but its hash code is always zero; a call arrives with its
  arguments, and the client gets the exception, or the reference to follow, that the server sent. POA:
  no request is lost or served twice, service is first in first out, deactivation is final and the threads end, except
  those that wait in \<^verbatim>\<open>checkState\<close>, which wait for ever; idle managers come to reject all requests; the orders by priority
  and deadline are reversed. Connections: a message is received as sent, in any pieces,
  except for declared sizes near \<open>2 ^ 32\<close>, which overflow a block; a reply reaches the thread of its request and no other; a connection closes
  once; requests in fragments are put together under any interleaving; the table of objects in use removes the least recently used
  ones. Theorems that are not properties of the manifest show that cancel requests name no
  request, that a failed send loses its lock, and that closing misses a thread that does not wait yet. Type codes: \<^verbatim>\<open>equal\<close> decides the identity of types when it compares their parts, \<^verbatim>\<open>equivalent\<close>
  sees through aliases for the types without parts only; a value of a type is skipped exactly, copied to another stream
  without change, and compared, except for unions and sequences without a bound, which the code gets wrong. Object map: it is the map it means to be. BigInt and Fixed: the operations are exact, or
  correctly rounded, or raise, outside the cases stated as errors; text is read back.

  \<^bold>\<open>Not modelled.\<close> The marshalling of type codes themselves, Any beyond discriminators, DynAny, values and objects in
  streams: they need the factories and stubs of generated
  code. The parameters and results of calls are sequences of typed values: which ones they are is in generated code, and so are user
  exceptions. Objects of another ORB, whose reference goes through its text. Connection managers, listeners and
  multicast (the rest of \<^verbatim>\<open>core/comm\<close>); sockets, threads and monitors (TIDSocket, TIDThr): operating system calls. SSL,
  compression and security: calls of third-party libraries. \<^verbatim>\<open>POAImpl\<close>, requests and servants: they run generated
  skeletons. Policies, configuration, naming and the interface repository: tables of strings and calls of the parts above.
  The conversions of \<^verbatim>\<open>Fixed\<close> and \<^verbatim>\<open>BigInt\<close> from and to floating point: they go through \<^verbatim>\<open>sprintf\<close> and \<^verbatim>\<open>sscanf\<close>.
\<close>

end
